(* ===== verification/Prelude.thy ===== *)
theory Prelude
  imports Complex_Main
begin

text \<open>
  Prelude of the development: the result type that stands for "returns a value or throws",
  its sequencing, the collections of simplification rules the component theories feed, and the
  generic facts on association lists and row lists that the models of maps and database tables
  share.

  A call of the source that may throw is modelled by a value of \<^typ>\<open>'e + 'a\<close>: \<^term>\<open>Inl e\<close> is
  the thrown error and \<^term>\<open>Inr a\<close> the returned value.
\<close>


type_synonym ident = string
type_synonym millis = int

subsection \<open>Results\<close>

fun rbind :: "'e + 'a \<Rightarrow> ('a \<Rightarrow> 'e + 'b) \<Rightarrow> 'e + 'b" where
  "rbind (Inl e) f = Inl e"
| "rbind (Inr a) f = f a"

definition ensure :: "bool \<Rightarrow> 'e \<Rightarrow> 'e + unit" where
  "ensure b e = (if b then Inr () else Inl e)"

fun rmap :: "('a \<Rightarrow> 'e + 'b) \<Rightarrow> 'a list \<Rightarrow> 'e + 'b list" where
  "rmap f [] = Inr []"
| "rmap f (x # xs) = rbind (f x) (\<lambda>y. rbind (rmap f xs) (\<lambda>ys. Inr (y # ys)))"

fun rfold :: "('s \<Rightarrow> 'a \<Rightarrow> 'e + 's) \<Rightarrow> 's \<Rightarrow> 'a list \<Rightarrow> 'e + 's" where
  "rfold f s [] = Inr s"
| "rfold f s (x # xs) = rbind (f s x) (\<lambda>s'. rfold f s' xs)"

definition ok :: "'e + 'a \<Rightarrow> bool" where
  "ok r = (case r of Inl _ \<Rightarrow> False | Inr _ \<Rightarrow> True)"

lemma ok_simps [simp]: "ok (Inr a)" "\<not> ok (Inl e)"
  by (simp_all add: ok_def)

lemma rbind_Inr_iff: "rbind m f = Inr b \<longleftrightarrow> (\<exists>a. m = Inr a \<and> f a = Inr b)"
  by (cases m) auto

lemma rbind_Inl_iff: "rbind m f = Inl e \<longleftrightarrow> m = Inl e \<or> (\<exists>a. m = Inr a \<and> f a = Inl e)"
  by (cases m) auto

lemma rbind_Inr_E:
  assumes "rbind m f = Inr b"
  obtains a where "m = Inr a" and "f a = Inr b"
  using assms by (auto simp: rbind_Inr_iff)

lemma ensure_Inr [simp]: "ensure b e = Inr u \<longleftrightarrow> b"
  by (simp add: ensure_def)

lemma ensure_Inl [simp]: "ensure b e = Inl e' \<longleftrightarrow> \<not> b \<and> e' = e"
  by (auto simp: ensure_def)

lemma ensure_True [simp]: "ensure True e = Inr ()"
  by (simp add: ensure_def)

lemma ensure_False [simp]: "ensure False e = Inl e"
  by (simp add: ensure_def)

lemma rfold_append:
  "rfold f s (xs @ ys) = rbind (rfold f s xs) (\<lambda>s'. rfold f s' ys)"
proof (induction xs arbitrary: s)
  case (Cons x xs)
  then show ?case by (cases "f s x") auto
qed simp

lemma rfold_invariant:
  assumes "rfold f s xs = Inr s'" and "P s"
    and "\<And>s x s'. x \<in> set xs \<Longrightarrow> P s \<Longrightarrow> f s x = Inr s' \<Longrightarrow> P s'"
  shows "P s'"
  using assms by (induction xs arbitrary: s) (auto elim!: rbind_Inr_E)

lemma rmap_Inr_list_all2:
  "rmap f xs = Inr ys \<Longrightarrow> list_all2 (\<lambda>x y. f x = Inr y) xs ys"
  by (induction xs arbitrary: ys) (auto elim!: rbind_Inr_E)

lemma rmap_length: "rmap f xs = Inr ys \<Longrightarrow> length ys = length xs"
  by (auto dest!: rmap_Inr_list_all2 simp: list_all2_lengthD)

lemma rmap_total:
  "(\<And>x. x \<in> set xs \<Longrightarrow> f x = Inr (g x)) \<Longrightarrow> rmap f xs = Inr (map g xs)"
  by (induction xs) auto

subsection \<open>Keyed lists\<close>

text \<open>
  A JavaScript \<^verbatim>\<open>Map\<close> keeps its entries in insertion order: it is modelled by a list of values with
  a key function. \<open>find_by\<close> is \<^verbatim>\<open>Map.get\<close> and \<^verbatim>\<open>Array.find\<close> on a key,
  \<open>update_by\<close> replaces the first entry with the key, \<open>delete_by\<close> drops it.
\<close>

definition find_by :: "('a \<Rightarrow> 'k) \<Rightarrow> 'k \<Rightarrow> 'a list \<Rightarrow> 'a option" where
  "find_by key k xs = find (\<lambda>x. key x = k) xs"

fun update_by :: "('a \<Rightarrow> 'k) \<Rightarrow> 'k \<Rightarrow> ('a \<Rightarrow> 'a) \<Rightarrow> 'a list \<Rightarrow> 'a list" where
  "update_by key k f [] = []"
| "update_by key k f (x # xs) = (if key x = k then f x # xs else x # update_by key k f xs)"

fun delete_by :: "('a \<Rightarrow> 'k) \<Rightarrow> 'k \<Rightarrow> 'a list \<Rightarrow> 'a list" where
  "delete_by key k [] = []"
| "delete_by key k (x # xs) = (if key x = k then xs else x # delete_by key k xs)"

lemma find_by_Nil [simp]: "find_by key k [] = None"
  by (simp add: find_by_def)

lemma find_by_Cons [simp]:
  "find_by key k (x # xs) = (if key x = k then Some x else find_by key k xs)"
  by (simp add: find_by_def)

lemma find_by_None_iff: "find_by key k xs = None \<longleftrightarrow> k \<notin> key ` set xs"
  by (induction xs) auto

lemma find_by_SomeD: "find_by key k xs = Some x \<Longrightarrow> x \<in> set xs \<and> key x = k"
  by (induction xs) (auto split: if_splits)

lemma find_by_append:
  "find_by key k (xs @ ys) = (case find_by key k xs of Some x \<Rightarrow> Some x | None \<Rightarrow> find_by key k ys)"
  by (induction xs) auto

lemma find_by_distinct:
  "distinct (map key xs) \<Longrightarrow> x \<in> set xs \<Longrightarrow> find_by key (key x) xs = Some x"
  by (induction xs) (auto simp: image_iff)

lemma map_key_update_by:
  "(\<And>x. key (f x) = key x) \<Longrightarrow> map key (update_by key k f xs) = map key xs"
  by (induction xs) auto

lemma length_update_by [simp]: "length (update_by key k f xs) = length xs"
  by (induction xs) auto

lemma find_by_update_by:
  "(\<And>x. key (f x) = key x) \<Longrightarrow>
   find_by key j (update_by key k f xs)
     = (if j = k then map_option f (find_by key k xs) else find_by key j xs)"
  by (induction xs) auto

lemma update_by_notin: "k \<notin> key ` set xs \<Longrightarrow> update_by key k f xs = xs"
  by (induction xs) auto

lemma set_update_by:
  "y \<in> set (update_by key k f xs) \<Longrightarrow> y \<in> set xs \<or> (\<exists>x \<in> set xs. key x = k \<and> y = f x)"
  by (induction xs) (auto split: if_splits)

lemma set_delete_by: "set (delete_by key k xs) \<subseteq> set xs"
  by (induction xs) auto

lemma set_delete_by_distinct:
  "distinct (map key xs) \<Longrightarrow> set (delete_by key k xs) = {x \<in> set xs. key x \<noteq> k}"
  by (induction xs) (auto simp: image_iff)

lemma distinct_delete_by:
  "distinct (map key xs) \<Longrightarrow> distinct (map key (delete_by key k xs))"
  by (induction xs) (auto dest: subsetD [OF set_delete_by])

lemma delete_by_notin: "k \<notin> key ` set xs \<Longrightarrow> delete_by key k xs = xs"
  by (induction xs) auto

lemma sum_list_update_by:
  fixes g :: "'a \<Rightarrow> int"
  assumes "find_by key k xs = Some x"
  shows "sum_list (map g (update_by key k f xs)) = sum_list (map g xs) - g x + g (f x)"
  using assms by (induction xs) (auto split: if_splits)

subsection \<open>Tables\<close>

text \<open>
  A database table is the list of its rows. \<open>update_where\<close> is an \<^verbatim>\<open>UPDATE ... WHERE\<close> and
  \<open>count_where\<close> the number of rows it reports.
\<close>

definition update_where :: "('r \<Rightarrow> bool) \<Rightarrow> ('r \<Rightarrow> 'r) \<Rightarrow> 'r list \<Rightarrow> 'r list" where
  "update_where p f rs = map (\<lambda>r. if p r then f r else r) rs"

definition count_where :: "('r \<Rightarrow> bool) \<Rightarrow> 'r list \<Rightarrow> nat" where
  "count_where p rs = length (filter p rs)"

definition delete_where :: "('r \<Rightarrow> bool) \<Rightarrow> 'r list \<Rightarrow> 'r list" where
  "delete_where p rs = filter (\<lambda>r. \<not> p r) rs"

lemma length_update_where [simp]: "length (update_where p f rs) = length rs"
  by (simp add: update_where_def)

lemma update_where_Nil [simp]: "update_where p f [] = []"
  by (simp add: update_where_def)

lemma update_where_Cons [simp]:
  "update_where p f (r # rs) = (if p r then f r else r) # update_where p f rs"
  by (simp add: update_where_def)

lemma update_where_nth: "i < length rs \<Longrightarrow>
   update_where p f rs ! i = (if p (rs ! i) then f (rs ! i) else rs ! i)"
  by (simp add: update_where_def)

lemma set_update_where: "set (update_where p f rs) = (\<lambda>r. if p r then f r else r) ` set rs"
  by (simp add: update_where_def)

lemma map_update_where:
  "(\<And>r. p r \<Longrightarrow> g (f r) = g r) \<Longrightarrow> map g (update_where p f rs) = map g rs"
  by (simp add: update_where_def)

lemma count_where_0_iff: "count_where p rs = 0 \<longleftrightarrow> (\<forall>r \<in> set rs. \<not> p r)"
  by (simp add: count_where_def filter_empty_conv)

lemma update_where_none: "count_where p rs = 0 \<Longrightarrow> update_where p f rs = rs"
  unfolding count_where_0_iff update_where_def by (rule map_idI) simp

lemma count_where_unique:
  assumes "distinct (map key rs)" and "\<And>r. p r \<Longrightarrow> key r = k"
  shows "count_where p rs \<le> 1"
  using assms
proof (induction rs)
  case (Cons r rs)
  show ?case
  proof (cases "p r")
    case True
    then have "\<forall>r' \<in> set rs. \<not> p r'"
      using Cons.prems by (auto simp: image_iff)
    then show ?thesis
      using True by (simp add: count_where_def filter_empty_conv)
  qed (use Cons in \<open>simp add: count_where_def\<close>)
qed (simp add: count_where_def)

lemma find_by_update_where:
  assumes "\<And>r. key (f r) = key r"
  shows "find_by key k (update_where p f rs)
    = map_option (\<lambda>r. if p r then f r else r) (find_by key k rs)"
  using assms by (induction rs) auto

end
