(* ===== verification/Js_String.thy ===== *)
theory Js_String
  imports Prelude "HOL-Library.Char_ord"
begin

text \<open>
  The string operations of JavaScript that the source uses: \<^verbatim>\<open>trim\<close>, the case conversions,
  whitespace collapsing, decimal printing of integers, and the predicates behind the regular
  expressions. Strings are ASCII character lists, so a string's length is the number of its code
  units and \<^verbatim>\<open>\s\<close> is the ASCII white space.
\<close>

definition code_of :: "char \<Rightarrow> nat" where
  "code_of c = of_char c"

definition is_space :: "char \<Rightarrow> bool" where
  "is_space c \<longleftrightarrow> code_of c = 32 \<or> (9 \<le> code_of c \<and> code_of c \<le> 13)"

definition is_digit :: "char \<Rightarrow> bool" where
  "is_digit c \<longleftrightarrow> 48 \<le> code_of c \<and> code_of c \<le> 57"

definition is_upper :: "char \<Rightarrow> bool" where
  "is_upper c \<longleftrightarrow> 65 \<le> code_of c \<and> code_of c \<le> 90"

definition is_lower :: "char \<Rightarrow> bool" where
  "is_lower c \<longleftrightarrow> 97 \<le> code_of c \<and> code_of c \<le> 122"

definition to_lower_char :: "char \<Rightarrow> char" where
  "to_lower_char c = (if is_upper c then char_of (code_of c + 32) else c)"

definition to_upper_char :: "char \<Rightarrow> char" where
  "to_upper_char c = (if is_lower c then char_of (code_of c - 32) else c)"

definition to_lower :: "string \<Rightarrow> string" where
  "to_lower s = map to_lower_char s"

definition to_upper :: "string \<Rightarrow> string" where
  "to_upper s = map to_upper_char s"

definition trim_start :: "string \<Rightarrow> string" where
  "trim_start s = dropWhile is_space s"

definition trim :: "string \<Rightarrow> string" where
  "trim s = rev (trim_start (rev (trim_start s)))"

text \<open>\<open>collapse_spaces\<close> is \<^verbatim>\<open>replace(/\s+/g, " ")\<close>: every run of white space becomes one blank.\<close>

fun collapse_spaces :: "string \<Rightarrow> string" where
  "collapse_spaces [] = []"
| "collapse_spaces [c] = (if is_space c then '' '' else [c])"
| "collapse_spaces (c # d # s) =
     (if \<not> is_space c then c # collapse_spaces (d # s)
      else if is_space d then collapse_spaces (d # s)
      else CHR '' '' # collapse_spaces (d # s))"

text \<open>\<open>show_nat\<close> and \<open>show_int\<close> print an integer the way a template literal does.\<close>

fun show_nat :: "nat \<Rightarrow> string" where
  "show_nat n = (if n < 10 then [char_of (48 + n)] else show_nat (n div 10) @ [char_of (48 + n mod 10)])"

declare show_nat.simps [simp del]

definition show_int :: "int \<Rightarrow> string" where
  "show_int i = (if i < 0 then ''-'' @ show_nat (nat (- i)) else show_nat (nat i))"

text \<open>\<open>is_infix s t\<close> is \<^verbatim>\<open>t.includes(s)\<close>.\<close>

fun starts_with :: "string \<Rightarrow> string \<Rightarrow> bool" where
  "starts_with [] t = True"
| "starts_with (c # s) [] = False"
| "starts_with (c # s) (d # t) = (c = d \<and> starts_with s t)"

fun is_infix :: "string \<Rightarrow> string \<Rightarrow> bool" where
  "is_infix s [] = (s = [])"
| "is_infix s (d # t) = (starts_with s (d # t) \<or> is_infix s t)"

subsection \<open>Facts\<close>

lemma code_of_less [simp]: "code_of c < 256"
  unfolding code_of_def using of_char_mod_256 [of c, where 'a = nat]
  by (metis mod_less_divisor zero_less_numeral)

lemma code_of_char_of [simp]: "n < 256 \<Longrightarrow> code_of (char_of n) = n"
  by (simp add: code_of_def)

lemma to_lower_char_idem [simp]: "to_lower_char (to_lower_char c) = to_lower_char c"
  by (auto simp: to_lower_char_def is_upper_def)

lemma to_upper_char_idem [simp]: "to_upper_char (to_upper_char c) = to_upper_char c"
  by (auto simp: to_upper_char_def is_lower_def)

lemma to_lower_idem [simp]: "to_lower (to_lower s) = to_lower s"
  by (simp add: to_lower_def)

lemma to_upper_idem [simp]: "to_upper (to_upper s) = to_upper s"
  by (simp add: to_upper_def)

lemma is_space_lower [simp]: "is_space (to_lower_char c) = is_space c"
  by (auto simp: to_lower_char_def is_upper_def is_space_def)

lemma is_space_upper [simp]: "is_space (to_upper_char c) = is_space c"
  by (auto simp: to_upper_char_def is_lower_def is_space_def)

lemma trim_start_id: "s = [] \<or> \<not> is_space (hd s) \<Longrightarrow> trim_start s = s"
  by (cases s) (auto simp: trim_start_def)

lemma trim_start_hd: "trim_start s \<noteq> [] \<Longrightarrow> \<not> is_space (hd (trim_start s))"
  by (simp add: trim_start_def hd_dropWhile)

lemma trim_start_append_last:
  "t \<noteq> [] \<Longrightarrow> \<not> is_space (last t) \<Longrightarrow> last (trim_start t) = last t \<and> trim_start t \<noteq> []"
  unfolding trim_start_def by (induction t) auto

lemma trim_ends:
  assumes "trim s \<noteq> []"
  shows "\<not> is_space (hd (trim s))" and "\<not> is_space (last (trim s))"
proof -
  let ?a = "trim_start s"
  have ne: "?a \<noteq> []"
    using assms by (auto simp: trim_def trim_start_def dest: set_dropWhileD)
  have "\<not> is_space (last (rev ?a))"
    using trim_start_hd ne by (simp add: last_rev)
  then have "last (trim_start (rev ?a)) = last (rev ?a)"
    using trim_start_append_last ne by simp
  then show "\<not> is_space (hd (trim s))"
    using assms \<open>\<not> is_space (last (rev ?a))\<close> unfolding trim_def by (simp add: hd_rev)
  show "\<not> is_space (last (trim s))"
    using assms trim_start_hd unfolding trim_def by (simp add: last_rev)
qed

lemma trim_id:
  assumes "s = [] \<or> (\<not> is_space (hd s) \<and> \<not> is_space (last s))"
  shows "trim s = s"
proof -
  have "trim_start s = s"
    using assms by (auto intro: trim_start_id)
  moreover have "trim_start (rev s) = rev s"
    using assms by (auto intro!: trim_start_id simp: hd_rev)
  ultimately show ?thesis by (simp add: trim_def)
qed

lemma trim_Nil [simp]: "trim [] = []"
  by (simp add: trim_def trim_start_def)

lemma trim_idem [simp]: "trim (trim s) = trim s"
  using trim_id trim_ends by blast

lemma trim_map:
  assumes "\<And>c. is_space (f c) = is_space c"
  shows "trim (map f s) = map f (trim s)"
proof -
  have "trim_start (map f t) = map f (trim_start t)" for t
    using assms by (induction t) (auto simp: trim_start_def)
  then show ?thesis by (simp add: trim_def rev_map)
qed

lemma trim_to_lower: "trim (to_lower s) = to_lower (trim s)"
  unfolding to_lower_def by (rule trim_map) simp

lemma trim_to_upper: "trim (to_upper s) = to_upper (trim s)"
  unfolding to_upper_def by (rule trim_map) simp

subsection \<open>Decimal printing is injective\<close>

fun read_nat :: "nat \<Rightarrow> string \<Rightarrow> nat" where
  "read_nat acc [] = acc"
| "read_nat acc (c # s) = read_nat (10 * acc + (code_of c - 48)) s"

lemma read_nat_append: "read_nat acc (s @ t) = read_nat (read_nat acc s) t"
  by (induction s arbitrary: acc) auto

lemma read_show_nat: "read_nat 0 (show_nat n) = n"
proof (induction n rule: show_nat.induct)
  case (1 n)
  then show ?case
    by (subst show_nat.simps) (auto simp: read_nat_append)
qed

lemma show_nat_inj [simp]: "show_nat m = show_nat n \<longleftrightarrow> m = n"
  by (metis read_show_nat)

lemma show_nat_digits: "c \<in> set (show_nat n) \<Longrightarrow> is_digit c"
proof (induction n rule: show_nat.induct)
  case (1 n)
  have "is_digit (char_of (48 + n mod 10))"
    by (simp add: is_digit_def)
  then show ?case
    using 1 by (subst (asm) show_nat.simps) (auto simp: is_digit_def split: if_splits)
qed

lemma show_nat_not_Nil [simp]: "show_nat n \<noteq> []"
  by (subst show_nat.simps) simp

lemma show_int_inj [simp]: "show_int i = show_int j \<longleftrightarrow> i = j"
proof -
  have "hd (show_nat n) \<noteq> CHR ''-''" for n
    using show_nat_digits [of "hd (show_nat n)" n] by (auto simp: is_digit_def code_of_def)
  then have "show_nat n \<noteq> CHR ''-'' # s" for n s
    by (metis list.sel(1))
  then show ?thesis
    by (auto simp: show_int_def dest: not_sym)
qed

end
