(* ===== verification/Errors.thy ===== *)
theory Errors
  imports Js_String
begin

text \<open>
  The errors the program throws, \<^verbatim>\<open>shared/domain/errors/domain-error.ts\<close> and
  \<^verbatim>\<open>shared/errors/application-error.ts\<close>, with their codes and messages, and the errors of the
  libraries that reach its handlers. A class of the source is a constructor, a constructor
  argument an argument.
\<close>

datatype not_mutable_reason = ALREADY_PLACED | NOT_PENDING

datatype not_cancellable_reason = IS_DELIVERED | ALREADY_CANCELLED

datatype domain_error =
    OrderNotMutableError not_mutable_reason
  | InvalidOrderItemError string
  | InvalidDiscountError string
  | EmptyOrderError
  | OrderAlreadyPlacedError
  | InvalidOrderTransitionError string string
  | OrderNotCancellableError not_cancellable_reason
  | InvalidCartQuantityError string
  | CartItemNotFoundError ident
  | InvalidPriceError string
  | InsufficientStockError int int
  | InvalidStockQuantityError string
  | ProductAlreadyActiveError
  | ProductAlreadyInactiveError
  | UserAlreadyVerifiedError
  | TwoFactorAlreadyEnabledError
  | TwoFactorNotSetUpError
  | TwoFactorNotEnabledError
  | InvalidUserStateError string
  | WeakPasswordError int

datatype application_error =
    ValidationError string
  | AuthenticationError string
  | AuthorizationError string
  | ResourceNotFoundError string
  | ConflictError string
  | UnprocessableError string
  | RateLimitError string
  | DependencyUnavailableError string

text \<open>
  \<open>PlainError\<close> is \<^verbatim>\<open>new Error(message)\<close>; \<open>PrismaKnownRequestError\<close> carries the code of a Prisma
  error, \<open>ZodError\<close> its issues as pairs of a path and a message.
\<close>

datatype error =
    DomainError domain_error
  | ApplicationError application_error
  | PlainError string
  | PrismaKnownRequestError string
  | PrismaClientValidationError
  | ZodError "(string list \<times> string) list"
  | JsonWebTokenError
  | TokenExpiredError
  | EntityTooLarge
  | SagaTimeoutError string
  | ProjectionDependencyError string
  | IdempotencyConflictError
  | OAuthIdentityUntrustedError
  | InvalidOutboxEventError string

fun domain_code :: "domain_error \<Rightarrow> string" where
  "domain_code (OrderNotMutableError _) = ''ORDER.NOT_MUTABLE''"
| "domain_code (InvalidOrderItemError _) = ''ORDER.INVALID_ITEM''"
| "domain_code (InvalidDiscountError _) = ''ORDER.INVALID_DISCOUNT''"
| "domain_code EmptyOrderError = ''ORDER.EMPTY''"
| "domain_code OrderAlreadyPlacedError = ''ORDER.ALREADY_PLACED''"
| "domain_code (InvalidOrderTransitionError _ _) = ''ORDER.INVALID_TRANSITION''"
| "domain_code (OrderNotCancellableError _) = ''ORDER.NOT_CANCELLABLE''"
| "domain_code (InvalidCartQuantityError _) = ''CART.INVALID_QUANTITY''"
| "domain_code (CartItemNotFoundError _) = ''CART.ITEM_NOT_FOUND''"
| "domain_code (InvalidPriceError _) = ''PRODUCT.INVALID_PRICE''"
| "domain_code (InsufficientStockError _ _) = ''PRODUCT.INSUFFICIENT_STOCK''"
| "domain_code (InvalidStockQuantityError _) = ''PRODUCT.INVALID_STOCK_QUANTITY''"
| "domain_code ProductAlreadyActiveError = ''PRODUCT.ALREADY_ACTIVE''"
| "domain_code ProductAlreadyInactiveError = ''PRODUCT.ALREADY_INACTIVE''"
| "domain_code UserAlreadyVerifiedError = ''USER.ALREADY_VERIFIED''"
| "domain_code TwoFactorAlreadyEnabledError = ''USER.2FA_ALREADY_ENABLED''"
| "domain_code TwoFactorNotSetUpError = ''USER.2FA_NOT_SET_UP''"
| "domain_code TwoFactorNotEnabledError = ''USER.2FA_NOT_ENABLED''"
| "domain_code (InvalidUserStateError _) = ''USER.INVALID_STATE''"
| "domain_code (WeakPasswordError _) = ''USER.WEAK_PASSWORD''"

fun domain_message :: "domain_error \<Rightarrow> string" where
  "domain_message (OrderNotMutableError r) =
     (if r = ALREADY_PLACED then ''Cannot modify an order that has already been placed''
      else ''Cannot modify an order that is not PENDING'')"
| "domain_message (InvalidOrderItemError m) = m"
| "domain_message (InvalidDiscountError m) = m"
| "domain_message EmptyOrderError = ''Cannot place an order with no items''"
| "domain_message OrderAlreadyPlacedError = ''Order has already been placed''"
| "domain_message (InvalidOrderTransitionError f t) =
     ''Cannot transition order from '' @ f @ '' to '' @ t"
| "domain_message (OrderNotCancellableError r) =
     (if r = IS_DELIVERED then ''Cannot cancel a delivered order'' else ''Order already cancelled'')"
| "domain_message (InvalidCartQuantityError m) = m"
| "domain_message (CartItemNotFoundError p) = ''Item '' @ p @ '' not found in cart''"
| "domain_message (InvalidPriceError m) = m"
| "domain_message (InsufficientStockError a r) =
     ''Insufficient stock. Available: '' @ show_int a @ '', requested: '' @ show_int r"
| "domain_message (InvalidStockQuantityError m) = m"
| "domain_message ProductAlreadyActiveError = ''Product already active''"
| "domain_message ProductAlreadyInactiveError = ''Product already inactive''"
| "domain_message UserAlreadyVerifiedError = ''User already verified''"
| "domain_message TwoFactorAlreadyEnabledError = ''Two-factor authentication is already enabled''"
| "domain_message TwoFactorNotSetUpError = ''Two-factor authentication has not been set up''"
| "domain_message TwoFactorNotEnabledError = ''Two-factor authentication is not enabled''"
| "domain_message (InvalidUserStateError m) = m"
| "domain_message (WeakPasswordError n) =
     ''Password must be at least '' @ show_int n @ '' characters''"

text \<open>The \<^verbatim>\<open>context\<close> object of a domain error, as key and printed value; \<^term>\<open>None\<close> when the
  constructor passes none.\<close>

fun domain_context :: "domain_error \<Rightarrow> (string \<times> string) list option" where
  "domain_context (OrderNotMutableError r) =
     Some [(''reason'', if r = ALREADY_PLACED then ''ALREADY_PLACED'' else ''NOT_PENDING'')]"
| "domain_context (InvalidOrderTransitionError f t) = Some [(''from'', f), (''to'', t)]"
| "domain_context (OrderNotCancellableError r) =
     Some [(''reason'', if r = IS_DELIVERED then ''DELIVERED'' else ''ALREADY_CANCELLED'')]"
| "domain_context (CartItemNotFoundError p) = Some [(''productId'', p)]"
| "domain_context (InsufficientStockError a r) =
     Some [(''available'', show_int a), (''requested'', show_int r)]"
| "domain_context (WeakPasswordError n) = Some [(''minLength'', show_int n)]"
| "domain_context _ = None"

fun application_code :: "application_error \<Rightarrow> string" where
  "application_code (ValidationError _) = ''APPLICATION.VALIDATION''"
| "application_code (AuthenticationError _) = ''APPLICATION.AUTHENTICATION''"
| "application_code (AuthorizationError _) = ''APPLICATION.AUTHORIZATION''"
| "application_code (ResourceNotFoundError _) = ''APPLICATION.NOT_FOUND''"
| "application_code (ConflictError _) = ''APPLICATION.CONFLICT''"
| "application_code (UnprocessableError _) = ''APPLICATION.UNPROCESSABLE''"
| "application_code (RateLimitError _) = ''APPLICATION.RATE_LIMIT''"
| "application_code (DependencyUnavailableError _) = ''APPLICATION.DEPENDENCY_UNAVAILABLE''"

fun application_message :: "application_error \<Rightarrow> string" where
  "application_message (ValidationError m) = m"
| "application_message (AuthenticationError m) = m"
| "application_message (AuthorizationError m) = m"
| "application_message (ResourceNotFoundError m) = m"
| "application_message (ConflictError m) = m"
| "application_message (UnprocessableError m) = m"
| "application_message (RateLimitError m) = m"
| "application_message (DependencyUnavailableError m) = m"

abbreviation validation_error :: "string \<Rightarrow> error" where
  "validation_error m \<equiv> ApplicationError (ValidationError m)"

abbreviation not_found_error :: "string \<Rightarrow> error" where
  "not_found_error m \<equiv> ApplicationError (ResourceNotFoundError m)"

abbreviation conflict_error :: "string \<Rightarrow> error" where
  "conflict_error m \<equiv> ApplicationError (ConflictError m)"

abbreviation authentication_error :: "string \<Rightarrow> error" where
  "authentication_error m \<equiv> ApplicationError (AuthenticationError m)"

fun is_conflict :: "error \<Rightarrow> bool" where
  "is_conflict (ApplicationError (ConflictError _)) = True"
| "is_conflict _ = False"

text \<open>\<open>is_plain_class e\<close>: the error is of neither hierarchy, so a handler that tests
  \<^verbatim>\<open>instanceof DomainError\<close> and \<^verbatim>\<open>instanceof ApplicationError\<close> lets it through.\<close>

fun is_domain_error :: "error \<Rightarrow> bool" where
  "is_domain_error (DomainError _) = True"
| "is_domain_error _ = False"

subsection \<open>Persistence error classification\<close>

datatype persistence_error_kind =
  UNIQUE_CONSTRAINT | NOT_FOUND | TRANSACTION_CONFLICT | DATABASE | VALIDATION

definition classify_prisma_error :: "error \<Rightarrow> persistence_error_kind option" where
  "classify_prisma_error e = (case e of
      PrismaKnownRequestError c \<Rightarrow>
        Some (if c = ''P2002'' then UNIQUE_CONSTRAINT
              else if c = ''P2025'' then NOT_FOUND
              else if c = ''P2034'' then TRANSACTION_CONFLICT
              else DATABASE)
    | PrismaClientValidationError \<Rightarrow> Some VALIDATION
    | _ \<Rightarrow> None)"

lemma domain_code_not_Nil [simp]: "domain_code e \<noteq> []"
  by (cases e) simp_all

lemma application_code_not_Nil [simp]: "application_code e \<noteq> []"
  by (cases e) simp_all

end
