(* ===== verification/Js_Number.thy ===== *)
theory Js_Number
  imports Errors "HOL-Library.Log_Nat"
begin

text \<open>
  The numbers of JavaScript: IEEE 754 binary64 values. \<open>Fin r\<close> is a finite double, held as the
  rational it denotes; negative zero is identified with zero. \<open>fl\<close> rounds a rational to the
  nearest double, ties to even, so every arithmetic operation is the rounding of the exact one.
  The module proves that integers and half integers in the safe range are exact, and bounds the
  rounding error elsewhere.
\<close>

datatype js_num = Fin rat | Infinite bool | NaN

subsection \<open>Rounding to binary64\<close>

definition expo :: "rat \<Rightarrow> int" where
  "expo x = (let (p, q) = quotient_of x; e = bitlen p - bitlen q
             in if 2 powi e \<le> x then e else e - 1)"

definition ulp :: "rat \<Rightarrow> rat" where
  "ulp x = 2 powi (max (expo x) (-1022) - 52)"

definition round_even :: "rat \<Rightarrow> int" where
  "round_even y = (let f = \<lfloor>y\<rfloor>; d = y - of_int f
                   in if d < 1/2 then f else if 1/2 < d then f + 1 else if even f then f else f + 1)"

definition round_bin :: "rat \<Rightarrow> rat" where
  "round_bin x = (if x = 0 then 0
                  else if 0 < x then of_int (round_even (x / ulp x)) * ulp x
                  else - (of_int (round_even (- x / ulp (- x))) * ulp (- x)))"

definition fl :: "rat \<Rightarrow> js_num" where
  "fl x = (let r = round_bin x
           in if 2 ^ 1024 \<le> r then Infinite True
              else if r \<le> - (2 ^ 1024) then Infinite False
              else Fin r)"

subsection \<open>Arithmetic\<close>

fun js_add :: "js_num \<Rightarrow> js_num \<Rightarrow> js_num" where
  "js_add (Fin a) (Fin b) = fl (a + b)"
| "js_add (Infinite s) (Fin b) = Infinite s"
| "js_add (Fin a) (Infinite s) = Infinite s"
| "js_add (Infinite s) (Infinite t) = (if s = t then Infinite s else NaN)"
| "js_add _ _ = NaN"

fun js_neg :: "js_num \<Rightarrow> js_num" where
  "js_neg (Fin a) = Fin (- a)"
| "js_neg (Infinite s) = Infinite (\<not> s)"
| "js_neg NaN = NaN"

definition js_sub :: "js_num \<Rightarrow> js_num \<Rightarrow> js_num" where
  "js_sub a b = js_add a (js_neg b)"

fun js_mul :: "js_num \<Rightarrow> js_num \<Rightarrow> js_num" where
  "js_mul (Fin a) (Fin b) = fl (a * b)"
| "js_mul (Infinite s) (Fin b) = (if b = 0 then NaN else Infinite (s = (0 < b)))"
| "js_mul (Fin a) (Infinite s) = (if a = 0 then NaN else Infinite (s = (0 < a)))"
| "js_mul (Infinite s) (Infinite t) = Infinite (s = t)"
| "js_mul _ _ = NaN"

fun js_div :: "js_num \<Rightarrow> js_num \<Rightarrow> js_num" where
  "js_div (Fin a) (Fin b) =
     (if b = 0 then (if a = 0 then NaN else Infinite (0 < a)) else fl (a / b))"
| "js_div (Infinite s) (Fin b) = Infinite (s = (0 \<le> b))"
| "js_div (Fin a) (Infinite s) = Fin 0"
| "js_div _ _ = NaN"

fun js_less :: "js_num \<Rightarrow> js_num \<Rightarrow> bool" where
  "js_less (Fin a) (Fin b) = (a < b)"
| "js_less (Infinite s) (Fin b) = (\<not> s)"
| "js_less (Fin a) (Infinite s) = s"
| "js_less (Infinite s) (Infinite t) = (\<not> s \<and> t)"
| "js_less _ _ = False"

fun is_finite_num :: "js_num \<Rightarrow> bool" where
  "is_finite_num (Fin _) = True"
| "is_finite_num _ = False"

text \<open>\<^verbatim>\<open>Math.round\<close> rounds half up and is exact on doubles.\<close>

fun math_round :: "js_num \<Rightarrow> js_num" where
  "math_round (Fin a) = Fin (of_int \<lfloor>a + 1/2\<rfloor>)"
| "math_round n = n"

definition max_safe :: int where
  "max_safe = 2 ^ 53 - 1"

definition safe_int :: "int \<Rightarrow> bool" where
  "safe_int i \<longleftrightarrow> \<bar>i\<bar> \<le> max_safe"

fun is_safe_integer :: "js_num \<Rightarrow> bool" where
  "is_safe_integer (Fin a) = (a = of_int \<lfloor>a\<rfloor> \<and> safe_int \<lfloor>a\<rfloor>)"
| "is_safe_integer _ = False"

definition num_of_int :: "int \<Rightarrow> js_num" where
  "num_of_int i = Fin (of_int i)"

fun int_of_num :: "js_num \<Rightarrow> int" where
  "int_of_num (Fin a) = \<lfloor>a\<rfloor>"
| "int_of_num _ = 0"

subsection \<open>Exactness\<close>

lemma expo_bounds:
  assumes "0 < x"
  shows "2 powi expo x \<le> x" and "x < 2 powi (expo x + 1)"
proof -
  obtain p q where pq: "quotient_of x = (p, q)" by (cases "quotient_of x")
  then have x: "x = of_int p / of_int q" and q: "0 < q"
    using quotient_of_div quotient_of_denom_pos by blast+
  have p: "0 < p"
    using assms q unfolding x by (simp add: zero_less_divide_iff)
  define a b where "a = bitlen p" and "b = bitlen q"
  have pos: "0 \<le> bitlen k - 1" if "0 < k" for k
    using bitlen_bounds [OF that] bitlen_nonneg [of k] that by (cases "bitlen k = 0") auto
  have ab: "0 \<le> a - 1" "0 \<le> b - 1"
    unfolding a_def b_def using pos p q by auto
  have pow: "(2::rat) powi k = of_int (2 ^ nat k)" if "0 \<le> k" for k
    using that by (simp add: power_int_def)
  have P: "(2::rat) powi (a - 1) \<le> of_int p" "of_int p < (2::rat) powi a"
    and Q: "(2::rat) powi (b - 1) \<le> of_int q" "of_int q < (2::rat) powi b"
    using bitlen_bounds [OF p] bitlen_bounds [OF q] ab
    by (simp_all add: pow of_int_less_iff del: of_int_power)
      (auto simp: a_def b_def simp flip: of_int_power)
  have "x < 2 powi a / 2 powi (b - 1)"
    unfolding x using P Q q p by (intro frac_less) auto
  then have up: "x < 2 powi (a - b + 1)"
    by (simp add: power_int_diff power_int_add field_simps)
  have "2 powi (a - 1) / 2 powi b < x"
    unfolding x using P Q q p by (intro frac_less2) auto
  then have low: "2 powi (a - b - 1) \<le> x"
    by (simp add: power_int_diff power_int_add field_simps)
  show "2 powi expo x \<le> x" "x < 2 powi (expo x + 1)"
    using up low by (auto simp: expo_def pq a_def b_def Let_def)
qed


lemma expo_less:
  assumes "0 < x" and "x < 2 powi k"
  shows "expo x < k"
proof (rule ccontr)
  assume "\<not> expo x < k"
  then have "(2::rat) powi k \<le> 2 powi expo x"
    by (intro power_int_increasing) auto
  then show False
    using expo_bounds (1) [OF assms(1)] assms(2) by linarith
qed

lemma expo_ge:
  assumes "2 powi k \<le> x"
  shows "k \<le> expo x"
proof (rule ccontr)
  assume "\<not> k \<le> expo x"
  then have "(2::rat) powi (expo x + 1) \<le> 2 powi k"
    by (intro power_int_increasing) auto
  moreover have "(0::rat) < 2 powi k" by simp
  then have "0 < x" using assms by linarith
  ultimately show False
    using expo_bounds (2) [of x] assms by linarith
qed

lemma ulp_pos [simp]: "0 < ulp x"
  by (simp add: ulp_def)

lemma ulp_nz [simp]: "ulp x \<noteq> 0"
  using ulp_pos [of x] by linarith

lemma ulp_eq: "2 powi (-1022) \<le> x \<Longrightarrow> ulp x = 2 powi (expo x - 52)"
  using expo_ge [of "-1022" x] by (simp add: ulp_def max_def)

lemma round_even_of_int [simp]: "round_even (of_int n) = n"
  by (simp add: round_even_def)

lemma round_even_ge: "of_int m \<le> y \<Longrightarrow> m \<le> round_even y"
  by (simp add: round_even_def Let_def le_floor_iff) linarith

lemma round_even_le: "y \<le> of_int m \<Longrightarrow> round_even y \<le> m"
proof -
  assume y: "y \<le> of_int m"
  then have f: "\<lfloor>y\<rfloor> \<le> m" by linarith
  show "round_even y \<le> m"
  proof (cases "\<lfloor>y\<rfloor> = m")
    case True
    then have "y = of_int m" using y by linarith
    then show ?thesis by simp
  qed (use f in \<open>simp add: round_even_def Let_def\<close>)
qed

lemma round_even_error: "\<bar>of_int (round_even y) - y\<bar> \<le> 1/2"
proof -
  have "of_int \<lfloor>y\<rfloor> \<le> y" "y < of_int \<lfloor>y\<rfloor> + 1" by linarith+
  then show ?thesis
    unfolding round_even_def Let_def abs_le_iff
    by (cases "y - of_int \<lfloor>y\<rfloor> < 1/2"; cases "1/2 < y - of_int \<lfloor>y\<rfloor>"; cases "even \<lfloor>y\<rfloor>";
        simp; linarith)
qed

lemma round_bin_exact:
  assumes "0 < x" and "x = of_int k * ulp x"
  shows "round_bin x = x"
proof -
  have "x / ulp x = of_int k"
    by (subst assms(2)) simp
  then show ?thesis
    using assms by (simp add: round_bin_def)
qed

lemma round_bin_error:
  assumes "0 < x"
  shows "\<bar>round_bin x - x\<bar> \<le> ulp x / 2"
proof -
  let ?n = "of_int (round_even (x / ulp x)) :: rat"
  have "\<bar>?n - x / ulp x\<bar> * ulp x \<le> 1/2 * ulp x"
    using round_even_error by (intro mult_right_mono) (auto intro: less_imp_le)
  moreover have "\<bar>?n - x / ulp x\<bar> * ulp x = \<bar>(?n - x / ulp x) * ulp x\<bar>"
    by (simp add: abs_mult less_imp_le)
  moreover have "(?n - x / ulp x) * ulp x = ?n * ulp x - x"
    by (simp add: algebra_simps)
  ultimately show ?thesis
    using assms by (simp add: round_bin_def)
qed

lemma round_bin_minus: "round_bin (- x) = - round_bin x"
  by (simp add: round_bin_def)

text \<open>
  A positive number below \<open>2\<^sup>5\<^sup>3\<close> that is a multiple of a power of two small enough is a double.
\<close>

lemma dyadic_multiple:
  assumes "0 < x" and "x = of_int m * 2 powi (- int d)" and "x \<le> 2 ^ 53 * 2 powi (- int d)"
    and "d \<le> 960"
  shows "\<exists>k. x = of_int k * ulp x"
proof -
  have m: "1 \<le> m"
  proof -
    have "(0::rat) < 2 powi (- int d)" by simp
    then have "(0::rat) < of_int m"
      using assms(1,2) zero_less_mult_pos2 by metis
    then show ?thesis by simp
  qed
  have "(2::rat) powi (- int d) \<le> x"
    unfolding assms(2) using m by simp
  moreover have "(2::rat) powi (-1022) \<le> 2 powi (- int d)"
    using assms(4) by (intro power_int_increasing) auto
  ultimately have u: "ulp x = 2 powi (expo x - 52)"
    by (intro ulp_eq) linarith
  have "(2::rat) ^ 53 * 2 powi (- int d) = 2 powi (53 - int d)"
    by (simp add: power_int_diff power_int_minus field_simps)
  then have le: "x \<le> 2 powi (53 - int d)" using assms(3) by simp
  show ?thesis
  proof (cases "x = 2 powi (53 - int d)")
    case True
    have "(2::rat) powi (53 - int d) < 2 powi (54 - int d)"
      by (rule power_int_strict_increasing) auto
    then have "expo x = 53 - int d"
      using expo_ge [of "53 - int d" x] expo_less [OF assms(1), of "54 - int d"] True by auto
    then have "ulp x = 2 powi (1 - int d)"
      using u by simp
    moreover have "(2::rat) powi (53 - int d) = 2 powi 52 * 2 powi (1 - int d)"
      by (subst power_int_add [symmetric]) auto
    ultimately have "x = of_int (2 ^ 52) * ulp x"
      using True by simp
    then show ?thesis by blast
  next
    case False
    then have e: "expo x \<le> 52 - int d"
      using expo_less [OF assms(1), of "53 - int d"] le by simp
    define j where "j = nat (52 - int d - expo x)"
    have "ulp x * 2 ^ j = 2 powi (- int d)"
      unfolding u j_def using e by (simp add: power_int_def [symmetric] flip: power_int_of_nat power_int_add)
    then have "x = of_int (m * 2 ^ j) * ulp x"
      unfolding assms(2) by (simp add: ac_simps)
    then show ?thesis by blast
  qed
qed

lemma fl_Fin:
  assumes "\<bar>round_bin x\<bar> \<le> 2 ^ n" and "n < 1024"
  shows "fl x = Fin (round_bin x)"
proof -
  have "(2::rat) ^ n < 2 ^ 1024"
    using assms(2) by (intro power_strict_increasing) auto
  then have "\<bar>round_bin x\<bar> < 2 ^ 1024"
    by (rule order.strict_trans1 [OF assms(1)])
  then have "\<not> 2 ^ 1024 \<le> round_bin x" "\<not> round_bin x \<le> - (2 ^ 1024)"
    unfolding abs_less_iff by linarith+
  then show ?thesis by (simp only: fl_def Let_def if_False)
qed

lemma fl_of_int:
  assumes "\<bar>i\<bar> \<le> 2 ^ 53"
  shows "fl (of_int i) = Fin (of_int i)"
proof -
  have pos: "round_bin (of_int k) = of_int k" if "0 < k" "k \<le> 2 ^ 53" for k :: int
  proof -
    have "\<exists>j. (of_int k :: rat) = of_int j * ulp (of_int k)"
      using that dyadic_multiple [of "of_int k" k 0] by (simp flip: of_int_le_iff [of k "2 ^ 53", where 'a = rat])
    then show ?thesis using that round_bin_exact [of "of_int k"] by auto
  qed
  have r: "round_bin (of_int i) = of_int i"
    using pos [of i] pos [of "- i"] round_bin_minus [of "of_int (- i)"] assms
    by (cases "i = 0"; cases "0 < i") (auto simp: round_bin_def [of 0])
  have "\<bar>of_int i :: rat\<bar> \<le> 2 ^ 53"
    using assms by (metis of_int_abs of_int_le_iff of_int_numeral of_int_power)
  then show ?thesis
    using fl_Fin [of "of_int i" 53] by (simp add: r)
qed


subsection \<open>Integer arithmetic in the safe range\<close>

lemma safe_int_le: "safe_int i \<Longrightarrow> \<bar>i\<bar> \<le> 2 ^ 53"
  by (simp add: safe_int_def max_safe_def)

lemma round_bin_nonneg: "0 \<le> x \<Longrightarrow> 0 \<le> round_bin x"
proof -
  assume "0 \<le> x"
  then have "0 \<le> round_even (x / ulp x)"
    using round_even_ge [of 0 "x / ulp x"] by (simp add: less_imp_le)
  then have "0 \<le> of_int (round_even (x / ulp x)) * ulp x"
    by (simp add: less_imp_le)
  then show ?thesis
    using \<open>0 \<le> x\<close> unfolding round_bin_def by auto
qed

lemma fl_nonneg:
  assumes "0 \<le> x"
  shows "fl x = Infinite True \<or> (\<exists>r. fl x = Fin r \<and> 0 \<le> r)"
proof -
  have "0 \<le> round_bin x" by (rule round_bin_nonneg [OF assms])
  moreover have "- (2 ^ 1024 :: rat) < 0"
    unfolding neg_less_0_iff_less by (rule zero_less_power) simp
  ultimately have "\<not> round_bin x \<le> - (2 ^ 1024)"
    by linarith
  then show ?thesis
    using \<open>0 \<le> round_bin x\<close> by (simp only: fl_def Let_def if_False split: if_split) blast
qed

lemma is_safe_num_of_int [simp]: "is_safe_integer (num_of_int i) = safe_int i"
  by (simp add: num_of_int_def)

lemma int_of_num_of_int [simp]: "int_of_num (num_of_int i) = i"
  by (simp add: num_of_int_def)

lemma is_finite_num_of_int [simp]: "is_finite_num (num_of_int i)"
  by (simp add: num_of_int_def)

lemma math_round_num_of_int [simp]: "math_round (num_of_int i) = num_of_int i"
  by (simp add: num_of_int_def) linarith

lemma js_less_num_of_int [simp]: "js_less (num_of_int i) (num_of_int j) = (i < j)"
  by (simp add: num_of_int_def)

lemma is_safe_integer_E:
  assumes "is_safe_integer n"
  obtains i where "n = num_of_int i" and "safe_int i"
  using assms by (cases n) (auto simp: num_of_int_def)

lemma num_of_int_of_num: "is_safe_integer n \<Longrightarrow> num_of_int (int_of_num n) = n"
  by (auto elim!: is_safe_integer_E)

lemma js_add_int: "\<bar>i + j\<bar> \<le> 2 ^ 53 \<Longrightarrow> js_add (num_of_int i) (num_of_int j) = num_of_int (i + j)"
  using fl_of_int [of "i + j"] by (simp add: num_of_int_def)

lemma js_sub_int: "\<bar>i - j\<bar> \<le> 2 ^ 53 \<Longrightarrow> js_sub (num_of_int i) (num_of_int j) = num_of_int (i - j)"
  using fl_of_int [of "i - j"] by (simp add: num_of_int_def js_sub_def)

lemma js_mul_int: "\<bar>i * j\<bar> \<le> 2 ^ 53 \<Longrightarrow> js_mul (num_of_int i) (num_of_int j) = num_of_int (i * j)"
  using fl_of_int [of "i * j"] by (simp add: num_of_int_def)

text \<open>
  A sum or product of integers whose exact value is beyond the safe range stays beyond it after
  rounding: the safe-integer test of the source is a correct overflow test.
\<close>

lemma expo_mono_53:
  assumes "2 ^ 53 \<le> x"
  shows "53 \<le> expo x"
  using assms expo_ge [of 53 x] by simp

lemma round_bin_ge_53:
  assumes "2 ^ 53 \<le> x"
  shows "2 ^ 53 \<le> round_bin x"
proof -
  have e: "53 \<le> expo x" by (rule expo_mono_53 [OF assms])
  have x: "0 < x" using assms by (simp add: order.strict_trans2 [rotated])
  have u: "ulp x = 2 powi (expo x - 52)"
    using e by (simp add: ulp_def)
  have "2 powi expo x = of_int (2 ^ 52) * ulp x"
    unfolding u by (simp add: power_int_diff)
  then have "of_int (2 ^ 52) * ulp x \<le> x"
    using expo_bounds(1) [OF x] by simp
  then have "of_int (2 ^ 52) \<le> x / ulp x"
    by (simp add: pos_le_divide_eq)
  then have "2 ^ 52 \<le> round_even (x / ulp x)"
    by (rule round_even_ge)
  then have "of_int (2 ^ 52) * ulp x \<le> round_bin x"
    using x unfolding round_bin_def
    by (auto intro!: mult_right_mono simp: less_imp_le simp del: of_int_power)
  moreover have "(2::rat) powi 53 \<le> 2 powi expo x"
    using e by (intro power_int_increasing) auto
  ultimately show ?thesis
    using \<open>2 powi expo x = of_int (2 ^ 52) * ulp x\<close> by simp
qed

lemma fl_beyond_safe:
  assumes "2 ^ 53 \<le> i"
  shows "\<not> is_safe_integer (math_round (fl (of_int i)))" and "\<not> is_safe_integer (fl (of_int i))"
proof -
  have "(2::rat) ^ 53 \<le> of_int i"
    using assms by (metis of_int_le_iff of_int_numeral of_int_power)
  then have r: "2 ^ 53 \<le> round_bin (of_int i)"
    by (rule round_bin_ge_53)
  have "\<not> safe_int \<lfloor>a\<rfloor>" if "2 ^ 53 \<le> a" for a :: rat
    using that by (simp add: safe_int_def max_safe_def)
  moreover have "2 ^ 53 \<le> round_bin (of_int i) + 1/2"
    using r by simp
  ultimately have ns: "\<not> safe_int \<lfloor>round_bin (of_int i) + 1/2\<rfloor>" "\<not> safe_int \<lfloor>round_bin (of_int i)\<rfloor>"
    using r by blast+
  have "\<not> round_bin (of_int i) \<le> - (2 ^ 1024)"
  proof
    assume "round_bin (of_int i) \<le> - (2 ^ 1024)"
    moreover have "(0::rat) < 2 ^ 1024" by (rule zero_less_power) simp
    ultimately show False
      using order_trans [OF zero_le_power [of "2::rat" 53] r] by linarith
  qed
  then have "fl (of_int i) = Infinite True \<or> fl (of_int i) = Fin (round_bin (of_int i))"
    unfolding fl_def Let_def by presburger
  then show "\<not> is_safe_integer (math_round (fl (of_int i)))" "\<not> is_safe_integer (fl (of_int i))"
    using ns by auto
qed


subsection \<open>Rounding is monotone\<close>

lemma round_even_mono: "x \<le> y \<Longrightarrow> round_even x \<le> round_even y"
proof -
  assume xy: "x \<le> y"
  then have f: "\<lfloor>x\<rfloor> \<le> \<lfloor>y\<rfloor>" by (rule floor_mono)
  have "round_even x \<le> \<lfloor>x\<rfloor> + 1" "\<lfloor>y\<rfloor> \<le> round_even y"
    by (auto simp: round_even_def Let_def)
  moreover have "round_even x \<le> round_even y" if "\<lfloor>x\<rfloor> = \<lfloor>y\<rfloor>"
    using xy that by (auto simp: round_even_def Let_def)
  ultimately show ?thesis using f by linarith
qed

lemma round_bin_normal_bounds:
  assumes "2 powi (-1022) \<le> x"
  shows "2 powi expo x \<le> round_bin x" and "round_bin x \<le> 2 powi (expo x + 1)"
proof -
  have "(0::rat) < 2 powi (-1022)" by simp
  then have x: "0 < x" using assms by linarith
  have u: "ulp x = 2 powi (expo x - 52)" by (rule ulp_eq [OF assms])
  have a: "2 powi expo x = of_int (2 ^ 52) * ulp x" and b: "2 powi (expo x + 1) = of_int (2 ^ 53) * ulp x"
    unfolding u by (simp_all add: power_int_diff power_int_add)
  have "of_int (2 ^ 52) \<le> x / ulp x" "x / ulp x \<le> of_int (2 ^ 53)"
    using expo_bounds [OF x] unfolding a b by (simp_all add: pos_le_divide_eq pos_divide_le_eq)
  then have "2 ^ 52 \<le> round_even (x / ulp x)" "round_even (x / ulp x) \<le> 2 ^ 53"
    using round_even_ge round_even_le by blast+
  moreover have "round_bin x = of_int (round_even (x / ulp x)) * ulp x"
    using x by (simp add: round_bin_def)
  ultimately show "2 powi expo x \<le> round_bin x" "round_bin x \<le> 2 powi (expo x + 1)"
    unfolding a b by (auto intro!: mult_right_mono simp: less_imp_le simp del: of_int_power)
qed

lemma round_bin_mono:
  assumes "2 powi (-1022) \<le> x" and "x \<le> y"
  shows "round_bin x \<le> round_bin y"
proof -
  have "(0::rat) < 2 powi (-1022)" by simp
  then have pos: "0 < x" "0 < y" and y: "2 powi (-1022) \<le> y" using assms by linarith+
  have "2 powi expo x \<le> y"
    using expo_bounds(1) [OF pos(1)] assms(2) by linarith
  then have e: "expo x \<le> expo y" by (rule expo_ge)
  show ?thesis
  proof (cases "expo x = expo y")
    case True
    then have u: "ulp x = ulp y" by (simp add: ulp_def)
    have "round_even (x / ulp x) \<le> round_even (y / ulp x)"
      using assms(2) by (intro round_even_mono divide_right_mono) (auto simp: less_imp_le)
    then show ?thesis
      using pos u by (simp add: round_bin_def mult_right_mono less_imp_le)
  next
    case False
    then have "(2::rat) powi (expo x + 1) \<le> 2 powi expo y"
      using e by (intro power_int_increasing) auto
    then show ?thesis
      using round_bin_normal_bounds(2) [OF assms(1)] round_bin_normal_bounds(1) [OF y] by linarith
  qed
qed

lemma round_bin_of_int:
  assumes "\<bar>i\<bar> \<le> 2 ^ 53"
  shows "round_bin (of_int i) = of_int i"
proof -
  have f: "fl (of_int i) = Fin (of_int i)" by (rule fl_of_int [OF assms])
  show ?thesis
    using f by (simp only: fl_def Let_def split: if_splits) simp_all
qed

lemma round_bin_int_bounds:
  assumes "0 < i" and "of_int i \<le> x" and "x \<le> of_int j" and "j \<le> 2 ^ 53"
  shows "of_int i \<le> round_bin x" and "round_bin x \<le> of_int j"
proof -
  have "(2::rat) powi (-1022) \<le> 2 powi 0"
    by (rule power_int_increasing) auto
  then have n: "(2::rat) powi (-1022) \<le> of_int i"
    using assms(1) by (metis order_trans power_int_0_right of_int_1_le_iff zless_imp_add1_zle add_0)
  have "i \<le> j" using assms(2,3) by linarith
  then show "of_int i \<le> round_bin x" "round_bin x \<le> of_int j"
    using round_bin_mono [OF n assms(2)] round_bin_mono [OF _ assms(3)] n assms
      round_bin_of_int [of i] round_bin_of_int [of j] by auto
qed

lemma fl_int_bounds:
  assumes "0 < i" and "of_int i \<le> x" and "x \<le> of_int j" and "j \<le> 2 ^ 53"
  obtains r where "fl x = Fin r" and "of_int i \<le> r" and "r \<le> of_int j"
proof -
  have b: "of_int i \<le> round_bin x" "round_bin x \<le> of_int j"
    by (rule round_bin_int_bounds [OF assms])+
  have "(of_int j :: rat) \<le> 2 ^ 53"
    using assms(4) by (metis of_int_le_iff of_int_numeral of_int_power)
  moreover have "(0::rat) < of_int i" using assms(1) by simp
  ultimately have "\<bar>round_bin x\<bar> \<le> 2 ^ 53"
    using b unfolding abs_le_iff by linarith
  then have "fl x = Fin (round_bin x)" by (rule fl_Fin) simp
  then show ?thesis
    using that b by blast
qed


lemma fl_finite:
  assumes "1 \<le> i" and "i < 2 ^ 110"
  shows "is_finite_num (fl (of_int i))"
proof -
  have "(2::rat) powi (-1022) \<le> 2 powi 0"
    by (rule power_int_increasing) auto
  also have "\<dots> \<le> of_int i" using assms(1) by simp
  finally have n: "(2::rat) powi (-1022) \<le> of_int i" .
  have "(of_int i :: rat) < of_int (2 ^ 110)"
    using assms(2) by (simp only: of_int_less_iff)
  then have "(of_int i :: rat) < 2 powi 110" by simp
  then have "expo (of_int i) < 110"
    using assms(1) by (intro expo_less) auto
  then have "(2::rat) powi (expo (of_int i) + 1) \<le> 2 powi 110"
    by (intro power_int_increasing) auto
  then have "round_bin (of_int i) \<le> 2 powi 110" "0 \<le> round_bin (of_int i)"
    using round_bin_normal_bounds(2) [OF n] round_bin_nonneg [of "of_int i"] assms(1) by auto
  then have "fl (of_int i) = Fin (round_bin (of_int i))"
    by (intro fl_Fin [of _ 110]) auto
  then show ?thesis by simp
qed

end
