(* ===== verification/Value_Objects.thy ===== *)
theory Value_Objects
  imports Js_Number
begin

text \<open>
  The value objects of \<^verbatim>\<open>shared/value-objects\<close>: \<open>Money\<close>, \<open>Email\<close>, \<open>PhoneNumber\<close>, \<open>Address\<close>,
  \<open>OrderNumber\<close> and \<open>Rating\<close>, each with its constructor's normalisation and checks. The wrappers of
  a single string are the normalised string: \<^verbatim>\<open>getValue\<close> is the identity.
\<close>

subsection \<open>Money\<close>

record money =
  m_amount :: int
  m_currency :: string

definition MONEY_CURRENCY :: string where
  "MONEY_CURRENCY = ''VND''"

definition currency_ok :: "string \<Rightarrow> bool" where
  "currency_ok c \<longleftrightarrow> length c = 3 \<and> list_all is_upper c"

definition mk_money :: "js_num \<Rightarrow> string \<Rightarrow> error + money" where
  "mk_money amount cur =
     (if \<not> is_finite_num amount then Inl (PlainError ''Amount must be finite'')
      else if js_less amount (Fin 0) then Inl (PlainError ''Amount cannot be negative'')
      else if \<not> currency_ok cur then Inl (PlainError ''Invalid currency'')
      else let normalized = math_round amount in
        if \<not> is_safe_integer normalized then Inl (PlainError ''Amount must be a safe integer'')
        else Inr \<lparr>m_amount = int_of_num normalized, m_currency = cur\<rparr>)"

abbreviation new_money :: "js_num \<Rightarrow> error + money" where
  "new_money amount \<equiv> mk_money amount MONEY_CURRENCY"

definition money_value :: "money \<Rightarrow> js_num" where
  "money_value m = num_of_int (m_amount m)"

definition money_add :: "money \<Rightarrow> money \<Rightarrow> error + money" where
  "money_add a b =
     (if m_currency a \<noteq> m_currency b then Inl (PlainError ''Currency mismatch'')
      else mk_money (js_add (money_value a) (money_value b)) (m_currency a))"

definition money_subtract :: "money \<Rightarrow> money \<Rightarrow> error + money" where
  "money_subtract a b =
     (if m_currency a \<noteq> m_currency b then Inl (PlainError ''Currency mismatch'')
      else mk_money (js_sub (money_value a) (money_value b)) (m_currency a))"

definition money_multiply :: "money \<Rightarrow> js_num \<Rightarrow> error + money" where
  "money_multiply a factor =
     (if \<not> is_finite_num factor \<or> js_less factor (Fin 0)
      then Inl (PlainError ''Factor must be finite and non-negative'')
      else mk_money (js_mul (money_value a) factor) (m_currency a))"

definition money_less_than :: "money \<Rightarrow> money \<Rightarrow> error + bool" where
  "money_less_than a b =
     (if m_currency a \<noteq> m_currency b then Inl (PlainError ''Currency mismatch'')
      else Inr (m_amount a < m_amount b))"

text \<open>\<open>vnd n\<close> is the amount \<open>n\<close> in the shop's currency; \<open>money_ok\<close> is what every constructor call
  establishes.\<close>

definition vnd :: "int \<Rightarrow> money" where
  "vnd n = \<lparr>m_amount = n, m_currency = MONEY_CURRENCY\<rparr>"

definition money_ok :: "money \<Rightarrow> bool" where
  "money_ok m \<longleftrightarrow> 0 \<le> m_amount m \<and> m_amount m \<le> max_safe \<and> currency_ok (m_currency m)"

lemma currency_ok_VND [simp]: "currency_ok MONEY_CURRENCY"
  by code_simp

lemma m_amount_vnd [simp]: "m_amount (vnd n) = n"
  by (simp add: vnd_def)

lemma m_currency_vnd [simp]: "m_currency (vnd n) = MONEY_CURRENCY"
  by (simp add: vnd_def)

lemma vnd_inj [simp]: "vnd m = vnd n \<longleftrightarrow> m = n"
  by (simp add: vnd_def)

lemma money_ok_vnd [simp]: "money_ok (vnd n) \<longleftrightarrow> 0 \<le> n \<and> n \<le> max_safe"
  by (simp add: money_ok_def)

lemma mk_money_ok: "mk_money n c = Inr m \<Longrightarrow> money_ok m \<and> m_currency m = c"
proof -
  assume m: "mk_money n c = Inr m"
  then have fin: "is_finite_num n" "\<not> js_less n (Fin 0)" "currency_ok c" "is_safe_integer (math_round n)"
      and eq: "m = \<lparr>m_amount = int_of_num (math_round n), m_currency = c\<rparr>"
    by (auto simp: mk_money_def Let_def split: if_splits)
  then obtain a where a: "n = Fin a" "0 \<le> a"
    by (cases n) auto
  then show ?thesis
    using fin eq by (auto simp: money_ok_def safe_int_def)
qed

lemma mk_money_num [simp]:
  "mk_money (num_of_int i) c =
     (if i < 0 then Inl (PlainError ''Amount cannot be negative'')
      else if \<not> currency_ok c then Inl (PlainError ''Invalid currency'')
      else if max_safe < i then Inl (PlainError ''Amount must be a safe integer'')
      else Inr \<lparr>m_amount = i, m_currency = c\<rparr>)"
  using js_less_num_of_int [of i 0]
  by (auto simp: mk_money_def Let_def safe_int_def num_of_int_def simp del: js_less_num_of_int)
    linarith+

lemma mk_money_Fin_int [simp]: "mk_money (Fin (of_int i)) c = mk_money (num_of_int i) c"
  by (simp add: num_of_int_def)

lemma new_money_0 [simp]: "new_money (Fin 0) = Inr (vnd 0)"
  using mk_money_Fin_int [of 0 MONEY_CURRENCY] by (simp add: vnd_def max_safe_def)

text \<open>
  Addition, subtraction and multiplication by an integer are exact, and fail exactly when the
  exact result is not a safe integer.
\<close>

lemma mk_money_fl_int:
  assumes "0 \<le> i" and "i < 2 ^ 110" and "currency_ok c"
  shows "mk_money (fl (of_int i)) c =
    (if i \<le> max_safe then Inr \<lparr>m_amount = i, m_currency = c\<rparr>
     else Inl (PlainError ''Amount must be a safe integer''))"
proof (cases "i \<le> max_safe")
  case True
  then have "fl (of_int i) = num_of_int i"
    using assms(1) by (simp add: fl_of_int max_safe_def num_of_int_def)
  then show ?thesis using True assms by simp
next
  case False
  then have i: "2 ^ 53 \<le> i" by (simp add: max_safe_def)
  moreover have "is_finite_num (fl (of_int i))"
    using assms i by (intro fl_finite) auto
  ultimately show ?thesis
    using False assms fl_beyond_safe(1) [OF i] fl_nonneg [of "of_int i"]
    by (auto simp: mk_money_def Let_def)
qed

lemma money_add_exact:
  assumes "money_ok a" "money_ok b" "m_currency a = m_currency b"
  shows "money_add a b =
    (if m_amount a + m_amount b \<le> max_safe
     then Inr \<lparr>m_amount = m_amount a + m_amount b, m_currency = m_currency a\<rparr>
     else Inl (PlainError ''Amount must be a safe integer''))"
  using assms mk_money_fl_int [of "m_amount a + m_amount b" "m_currency a"]
  by (simp add: money_add_def money_value_def num_of_int_def money_ok_def max_safe_def)

lemma money_multiply_exact:
  assumes "money_ok a" "0 \<le> k" "k \<le> max_safe"
  shows "money_multiply a (num_of_int k) =
    (if m_amount a * k \<le> max_safe then Inr \<lparr>m_amount = m_amount a * k, m_currency = m_currency a\<rparr>
     else Inl (PlainError ''Amount must be a safe integer''))"
proof -
  have "m_amount a * k \<le> max_safe * max_safe"
    using assms by (intro mult_mono) (auto simp: money_ok_def max_safe_def)
  also have "\<dots> < 2 ^ 110" by (simp add: max_safe_def)
  finally show ?thesis
    using assms mk_money_fl_int [of "m_amount a * k" "m_currency a"]
    by (simp add: money_multiply_def money_value_def num_of_int_def money_ok_def)
qed

lemma money_subtract_exact:
  assumes "money_ok a" "money_ok b" "m_currency a = m_currency b"
  shows "money_subtract a b =
    (if m_amount b \<le> m_amount a then Inr \<lparr>m_amount = m_amount a - m_amount b, m_currency = m_currency a\<rparr>
     else Inl (PlainError ''Amount cannot be negative''))"
  using assms
  by (auto simp: money_subtract_def money_value_def js_sub_int money_ok_def max_safe_def)


lemma money_ok_add: "money_add a b = Inr m \<Longrightarrow> money_ok m \<and> m_currency m = m_currency a"
  using mk_money_ok by (auto simp: money_add_def split: if_splits)

lemma money_ok_multiply: "money_multiply a k = Inr m \<Longrightarrow> money_ok m \<and> m_currency m = m_currency a"
  using mk_money_ok by (auto simp: money_multiply_def split: if_splits)

lemma money_eqI: "m_amount a = m_amount b \<Longrightarrow> m_currency a = m_currency b \<Longrightarrow> (a :: money) = b"
  by simp

lemma vnd_of: "m_currency m = MONEY_CURRENCY \<Longrightarrow> m = vnd (m_amount m)"
  by (simp add: vnd_def)

lemma vnd_add [simp]: "0 \<le> a \<Longrightarrow> 0 \<le> b \<Longrightarrow> a \<le> max_safe \<Longrightarrow> b \<le> max_safe \<Longrightarrow>
   money_add (vnd a) (vnd b)
     = (if a + b \<le> max_safe then Inr (vnd (a + b)) else Inl (PlainError ''Amount must be a safe integer''))"
  by (simp add: money_add_exact)

lemma vnd_subtract [simp]: "0 \<le> a \<Longrightarrow> 0 \<le> b \<Longrightarrow> a \<le> max_safe \<Longrightarrow> b \<le> max_safe \<Longrightarrow>
   money_subtract (vnd a) (vnd b)
     = (if b \<le> a then Inr (vnd (a - b)) else Inl (PlainError ''Amount cannot be negative''))"
  by (simp add: money_subtract_exact)

lemma vnd_multiply [simp]: "0 \<le> a \<Longrightarrow> a \<le> max_safe \<Longrightarrow> 0 \<le> k \<Longrightarrow> k \<le> max_safe \<Longrightarrow>
   money_multiply (vnd a) (num_of_int k)
     = (if a * k \<le> max_safe then Inr (vnd (a * k)) else Inl (PlainError ''Amount must be a safe integer''))"
  by (simp add: money_multiply_exact)

lemma new_money_vnd [simp]:
  "0 \<le> i \<Longrightarrow> i \<le> max_safe \<Longrightarrow> new_money (num_of_int i) = Inr (vnd i)"
  by (simp add: vnd_def)

subsection \<open>Persisted numbers\<close>

text \<open>\<^verbatim>\<open>shared/infrastructure/money-number.ts\<close>. A \<^verbatim>\<open>DecimalLike\<close> is the number that the \<^verbatim>\<open>Number\<close>
  constructor gives for it.\<close>

definition to_finite_number :: "js_num \<Rightarrow> error + js_num" where
  "to_finite_number v =
     (if \<not> is_finite_num v then Inl (PlainError ''Persisted numeric value must be finite'') else Inr v)"

definition to_safe_money_number :: "js_num \<Rightarrow> error + js_num" where
  "to_safe_money_number v = rbind (to_finite_number v) (\<lambda>numeric.
     if \<not> is_safe_integer numeric \<or> js_less numeric (Fin 0)
     then Inl (PlainError ''Persisted monetary value must be a safe non-negative integer'')
     else rbind (new_money numeric) (\<lambda>m. Inr (money_value m)))"

definition to_safe_decimal_number :: "js_num \<Rightarrow> error + js_num" where
  "to_safe_decimal_number v = rbind (to_finite_number v) (\<lambda>numeric.
     if \<not> is_safe_integer (math_round numeric) \<or> js_less numeric (Fin 0)
     then Inl (PlainError ''Persisted decimal value is outside the safe range'')
     else Inr numeric)"

lemma to_safe_money_number_iff:
  "to_safe_money_number v = Inr w \<longleftrightarrow> (\<exists>i. v = num_of_int i \<and> w = v \<and> 0 \<le> i \<and> i \<le> max_safe)"
proof -
  have lt: "js_less (num_of_int i) (Fin 0) \<longleftrightarrow> i < 0" for i
    using js_less_num_of_int [of i 0] by (simp add: num_of_int_def)
  show ?thesis
  proof (cases "is_safe_integer v")
    case True
    then obtain i where i: "v = num_of_int i" "safe_int i" by (rule is_safe_integer_E)
    then show ?thesis
      by (auto simp: to_safe_money_number_def to_finite_number_def lt safe_int_def money_value_def
          vnd_def) (auto simp: num_of_int_def)
  next
    case False
    then show ?thesis
      by (auto simp: to_safe_money_number_def to_finite_number_def safe_int_def)
  qed
qed

subsection \<open>Email, phone number, address, order number\<close>

definition email_char :: "char \<Rightarrow> bool" where
  "email_char c \<longleftrightarrow> \<not> is_space c \<and> c \<noteq> CHR ''@''"

text \<open>\<open>email_matches s\<close> is the test of \<^verbatim>\<open>/^[^\s@]+@[^\s@]+\.[^\s@]+$/\<close>: the part before the at sign, the
  part behind it, and a dot strictly inside the latter.\<close>

definition email_matches :: "string \<Rightarrow> bool" where
  "email_matches s =
     (let l = takeWhile email_char s; r = dropWhile email_char s
      in l \<noteq> [] \<and> r \<noteq> [] \<and> hd r = CHR ''@'' \<and> list_all email_char (tl r)
         \<and> tl r \<noteq> [] \<and> CHR ''.'' \<in> set (butlast (tl (tl r))))"

definition new_email :: "string \<Rightarrow> error + string" where
  "new_email value =
     (let normalized = to_lower (trim value)
      in if \<not> email_matches normalized then Inl (PlainError ''Invalid email address'')
         else Inr normalized)"

definition phone_strip :: "string \<Rightarrow> string" where
  "phone_strip s = filter (\<lambda>c. \<not> (is_space c \<or> c \<in> set ''().-'')) s"

definition phone_matches :: "string \<Rightarrow> bool" where
  "phone_matches s =
     (let d = (case s of c # s' \<Rightarrow> if c = CHR ''+'' then s' else s | [] \<Rightarrow> [])
      in list_all is_digit d \<and> 8 \<le> length d \<and> length d \<le> 15)"

definition new_phone_number :: "string \<Rightarrow> error + string" where
  "new_phone_number value =
     (let normalized = phone_strip (trim value)
      in if normalized \<noteq> [] \<and> \<not> phone_matches normalized
         then Inl (PlainError ''Invalid phone number'') else Inr normalized)"

definition new_address :: "string \<Rightarrow> error + string" where
  "new_address value =
     (let normalized = collapse_spaces (trim value)
      in if length normalized = 0 \<or> 500 < length normalized
         then Inl (PlainError ''Invalid address'') else Inr normalized)"

definition order_number_char :: "char \<Rightarrow> bool" where
  "order_number_char c \<longleftrightarrow> is_upper c \<or> is_digit c \<or> c = CHR ''-''"

definition order_number_matches :: "string \<Rightarrow> bool" where
  "order_number_matches s \<longleftrightarrow>
     s \<noteq> [] \<and> hd s \<noteq> CHR ''-'' \<and> list_all order_number_char s \<and> 4 \<le> length s \<and> length s \<le> 40"

definition new_order_number :: "string \<Rightarrow> error + string" where
  "new_order_number value =
     (let normalized = to_upper (trim value)
      in if \<not> order_number_matches normalized then Inl (PlainError ''Invalid order number'')
         else Inr normalized)"

lemma dot_inside_iff:
  "list_all P d \<Longrightarrow> CHR ''.'' \<in> set (butlast (tl d)) \<longleftrightarrow>
     (\<exists>a b. d = a @ CHR ''.'' # b \<and> a \<noteq> [] \<and> b \<noteq> [])"
proof
  assume "CHR ''.'' \<in> set (butlast (tl d))"
  then obtain a b where ab: "butlast (tl d) = a @ CHR ''.'' # b"
    by (meson split_list)
  then have d: "d \<noteq> []" "tl d \<noteq> []" by auto
  have "tl d = (a @ CHR ''.'' # b) @ [last (tl d)]"
    using append_butlast_last_id [OF d(2)] ab by simp
  then have "d = (hd d # a) @ CHR ''.'' # (b @ [last (tl d)])"
    using d(1) by (metis append_Cons append_assoc list.collapse)
  then show "\<exists>a b. d = a @ CHR ''.'' # b \<and> a \<noteq> [] \<and> b \<noteq> []"
    by blast
next
  assume "\<exists>a b. d = a @ CHR ''.'' # b \<and> a \<noteq> [] \<and> b \<noteq> []"
  then obtain c a b where "d = (c # a) @ CHR ''.'' # b" "b \<noteq> []"
    by (metis neq_Nil_conv)
  then show "CHR ''.'' \<in> set (butlast (tl d))"
    by (simp add: butlast_append)
qed

text \<open>The executable matcher decides the language of the regular expression.\<close>

lemma email_matches_iff:
  "email_matches s \<longleftrightarrow>
     (\<exists>l a b. s = l @ CHR ''@'' # a @ CHR ''.'' # b \<and> l \<noteq> [] \<and> a \<noteq> [] \<and> b \<noteq> []
        \<and> list_all email_char l \<and> list_all email_char a \<and> list_all email_char b)"
    (is "_ \<longleftrightarrow> ?R")
proof
  assume m: "email_matches s"
  let ?l = "takeWhile email_char s" and ?r = "dropWhile email_char s"
  have r: "?l \<noteq> []" "?r \<noteq> []" "hd ?r = CHR ''@''" "list_all email_char (tl ?r)"
      "CHR ''.'' \<in> set (butlast (tl (tl ?r)))"
    using m unfolding email_matches_def Let_def by blast+
  then obtain a b where ab: "tl ?r = a @ CHR ''.'' # b" "a \<noteq> []" "b \<noteq> []"
    using dot_inside_iff [OF r(4)] by blast
  have "?r = CHR ''@'' # tl ?r"
    using r(2,3) by (metis list.collapse)
  then have "s = ?l @ CHR ''@'' # a @ CHR ''.'' # b"
    unfolding ab(1) using takeWhile_dropWhile_id [of email_char s] by simp
  moreover have "list_all email_char ?l"
    by (auto simp: list_all_iff dest: set_takeWhileD)
  moreover have "list_all email_char a" "list_all email_char b"
    using r(4) unfolding ab(1) by auto
  ultimately show ?R using r(1) ab by blast
next
  assume ?R
  then obtain l a b where s: "s = l @ CHR ''@'' # a @ CHR ''.'' # b" and ne: "l \<noteq> []" "a \<noteq> []" "b \<noteq> []"
      and ok: "list_all email_char l" "list_all email_char a" "list_all email_char b"
    by blast
  have "\<not> email_char CHR ''@''" "email_char CHR ''.''"
    by (auto simp: email_char_def is_space_def code_of_def)
  then have "takeWhile email_char s = l" "dropWhile email_char s = CHR ''@'' # a @ CHR ''.'' # b"
    using ok(1) unfolding s by (auto simp: takeWhile_append dropWhile_append list_all_iff)
  moreover have "list_all email_char (a @ CHR ''.'' # b)"
    using ok \<open>email_char CHR ''.''\<close> by simp
  ultimately show "email_matches s"
    using ne dot_inside_iff [of email_char "a @ CHR ''.'' # b"]
    by (auto simp: email_matches_def Let_def)
qed

text \<open>Every constructor is idempotent: a stored value is accepted again and is unchanged.\<close>

lemma new_email_idem: "new_email s = Inr e \<Longrightarrow> new_email e = Inr e"
  by (auto simp: new_email_def Let_def trim_to_lower split: if_splits)

lemma new_order_number_idem: "new_order_number s = Inr n \<Longrightarrow> new_order_number n = Inr n"
  by (auto simp: new_order_number_def Let_def trim_to_upper split: if_splits)

lemma phone_strip_no_space: "trim (phone_strip s) = phone_strip s"
proof -
  have "\<not> is_space c" if "c \<in> set (phone_strip s)" for c
    using that by (auto simp: phone_strip_def)
  then show ?thesis
    by (intro trim_id) (auto intro: hd_in_set last_in_set)
qed

lemma phone_strip_idem: "phone_strip (phone_strip s) = phone_strip s"
  by (simp add: phone_strip_def)

lemma phone_strip_Nil [simp]: "phone_strip [] = []"
  by (simp add: phone_strip_def)

lemma new_phone_number_idem: "new_phone_number s = Inr n \<Longrightarrow> new_phone_number n = Inr n"
  by (auto simp: new_phone_number_def Let_def phone_strip_no_space phone_strip_idem split: if_splits)

lemma is_space_blank [simp]: "is_space CHR '' ''"
  by (simp add: is_space_def code_of_def)

lemma collapse_spaces_Nil [simp]: "collapse_spaces s = [] \<longleftrightarrow> s = []"
  by (induction s rule: collapse_spaces.induct) auto

lemma collapse_spaces_first:
  "s \<noteq> [] \<Longrightarrow> hd (collapse_spaces s) = (if is_space (hd s) then CHR '' '' else hd s)"
  by (induction s rule: collapse_spaces.induct) auto

lemma collapse_spaces_last:
  "s \<noteq> [] \<Longrightarrow> \<not> is_space (last s) \<Longrightarrow> last (collapse_spaces s) = last s"
  by (induction s rule: collapse_spaces.induct) auto

lemma collapse_spaces_Cons:
  "collapse_spaces (c # s) =
     (if s \<noteq> [] \<and> is_space c \<and> is_space (hd s) then collapse_spaces s
      else (if is_space c then CHR '' '' else c) # collapse_spaces s)"
  by (cases s) auto

lemma collapse_spaces_idem: "collapse_spaces (collapse_spaces s) = collapse_spaces s"
proof (induction s)
  case (Cons c s)
  have "is_space (hd (collapse_spaces s)) = is_space (hd s)" if "s \<noteq> []"
    using collapse_spaces_first [OF that] by simp
  then show ?case
    using Cons by (auto simp: collapse_spaces_Cons)
qed simp

lemma new_address_idem:
  assumes "new_address s = Inr a"
  shows "new_address a = Inr a"
proof -
  let ?t = "trim s"
  have a: "a = collapse_spaces ?t" and n: "?t \<noteq> []" and len: "length a \<le> 500"
    using assms by (auto simp: new_address_def Let_def split: if_splits)
  have ends: "\<not> is_space (hd ?t)" "\<not> is_space (last ?t)"
    using trim_ends [OF n] by auto
  have "trim a = a"
    unfolding a using n ends collapse_spaces_first collapse_spaces_last by (intro trim_id) auto
  moreover have "collapse_spaces a = a"
    unfolding a by (rule collapse_spaces_idem)
  ultimately show ?thesis
    using n len a by (auto simp: new_address_def Let_def)
qed


subsection \<open>Rating\<close>

record rating =
  rt_average :: js_num
  rt_count :: nat

definition from_reviews :: "js_num list \<Rightarrow> rating" where
  "from_reviews ratings =
     (if ratings = [] then \<lparr>rt_average = Fin 0, rt_count = 0\<rparr>
      else let total = foldl js_add (Fin 0) ratings;
               average = js_div (math_round (js_mul (js_div total (num_of_int (int (length ratings)))) (Fin 10)))
                                (Fin 10)
           in \<lparr>rt_average = average, rt_count = length ratings\<rparr>)"

lemma foldl_js_add_ints:
  assumes "\<forall>r \<in> set rs. 0 \<le> r" and "0 \<le> a" and "a + sum_list rs \<le> 2 ^ 53"
  shows "foldl js_add (num_of_int a) (map num_of_int rs) = num_of_int (a + sum_list rs)"
  using assms
proof (induction rs arbitrary: a)
  case (Cons r rs)
  have "0 \<le> sum_list rs" using Cons.prems(1) by (intro sum_list_nonneg) auto
  then have "js_add (num_of_int a) (num_of_int r) = num_of_int (a + r)"
    using Cons.prems by (intro js_add_int) auto
  then show ?case using Cons by (simp add: add.assoc)
qed simp

lemma sum_list_bounds:
  fixes rs :: "int list"
  assumes "\<forall>r \<in> set rs. lo \<le> r \<and> r \<le> hi"
  shows "lo * int (length rs) \<le> sum_list rs" and "sum_list rs \<le> hi * int (length rs)"
  using assms by (induction rs) (auto simp: algebra_simps)

text \<open>The rounded average stays on the scale of the ratings, and it is a tenth of an integer.\<close>

lemma from_reviews_tenths:
  assumes rs: "rs \<noteq> []" "\<forall>r \<in> set rs. 1 \<le> r \<and> r \<le> 5" and len: "length rs \<le> 10 ^ 15"
  shows "\<exists>k. 10 \<le> k \<and> k \<le> 50 \<and> rt_average (from_reviews (map num_of_int rs)) = fl (of_int k / 10)"
proof -
  let ?n = "int (length rs)" and ?s = "sum_list rs"
  have n: "0 < ?n" "?n \<le> 10 ^ 15" using rs(1) len by auto
  have s: "?n \<le> ?s" "?s \<le> 5 * ?n" using sum_list_bounds [OF rs(2)] by auto
  have tot: "foldl js_add (Fin 0) (map num_of_int rs) = num_of_int ?s"
  proof -
    have "\<forall>r \<in> set rs. 0 \<le> r"
    proof
      fix r assume "r \<in> set rs"
      then have "1 \<le> r" using rs(2) by blast
      then show "0 \<le> r" by linarith
    qed
    then show ?thesis
      using foldl_js_add_ints [of rs 0] s n by (simp add: num_of_int_def)
  qed
  have q: "of_int 1 \<le> (of_int ?s / of_int ?n :: rat)" "(of_int ?s / of_int ?n :: rat) \<le> of_int 5"
  proof -
    have "(0::rat) < of_int ?n" using n(1) by (simp only: of_int_0_less_iff)
    moreover have "(of_int ?n :: rat) \<le> of_int ?s" using s(1) by (simp only: of_int_le_iff)
    moreover have "(of_int ?s :: rat) \<le> of_int (5 * ?n)" using s(2) by (simp only: of_int_le_iff)
    ultimately show "of_int 1 \<le> (of_int ?s / of_int ?n :: rat)" "(of_int ?s / of_int ?n :: rat) \<le> of_int 5"
      by (simp_all add: le_divide_eq divide_le_eq)
  qed
  then obtain r where r: "fl (of_int ?s / of_int ?n) = Fin r" "1 \<le> r" "r \<le> 5"
    using fl_int_bounds [of 1 _ 5] by auto
  obtain t where t: "fl (r * 10) = Fin t" "10 \<le> t" "t \<le> 50"
    using fl_int_bounds [of 10 "r * 10" 50] r by auto
  define k where "k = \<lfloor>t + 1/2\<rfloor>"
  have "10 \<le> k" "k \<le> 50"
    unfolding k_def using t by linarith+
  moreover have "rt_average (from_reviews (map num_of_int rs)) = fl (of_int k / 10)"
    using rs(1) tot n(1) r(1) t(1)
    by (simp add: from_reviews_def Let_def num_of_int_def k_def)
  ultimately show ?thesis by blast
qed

end
