(* ===== verification/Events.thy ===== *)
theory Events
  imports Value_Objects
begin

text \<open>
  Domain events (\<^verbatim>\<open>shared/domain/events\<close>), the base class of the aggregates
  (\<^verbatim>\<open>shared/domain/aggregate-root.ts\<close>) and the enumerations of the order module.

  An event object is a record of the fields of \<open>BaseDomainEvent\<close>; the public fields that a subclass
  adds are the association list \<open>ev_fields\<close>, in declaration order, with JSON values. The clock that
  \<open>BaseDomainEvent\<close> reads is the argument \<open>now\<close>, in milliseconds.
\<close>

subsection \<open>JSON values\<close>

datatype json =
    JNull
  | JBool bool
  | JNum js_num
  | JStr string
  | JDate millis
  | JArr "json list"
  | JObj "(string \<times> json) list"

abbreviation jint :: "int \<Rightarrow> json" where
  "jint i \<equiv> JNum (num_of_int i)"

subsection \<open>Enumerations\<close>

datatype order_status = PENDING | PROCESSING | SHIPPED | DELIVERED | CANCELLED

datatype payment_status = PAY_PENDING | PAID | FAILED | REFUNDED

datatype payment_method = COD | CARD | BANKING

datatype discount_type = PERCENTAGE | FIXED

fun order_status_name :: "order_status \<Rightarrow> string" where
  "order_status_name PENDING = ''PENDING''"
| "order_status_name PROCESSING = ''PROCESSING''"
| "order_status_name SHIPPED = ''SHIPPED''"
| "order_status_name DELIVERED = ''DELIVERED''"
| "order_status_name CANCELLED = ''CANCELLED''"

fun payment_status_name :: "payment_status \<Rightarrow> string" where
  "payment_status_name PAY_PENDING = ''PENDING''"
| "payment_status_name PAID = ''PAID''"
| "payment_status_name FAILED = ''FAILED''"
| "payment_status_name REFUNDED = ''REFUNDED''"

definition order_status_of_name :: "string \<Rightarrow> order_status option" where
  "order_status_of_name s =
     find (\<lambda>st. order_status_name st = s) [PENDING, PROCESSING, SHIPPED, DELIVERED, CANCELLED]"

lemma order_status_name_inj [simp]: "order_status_name a = order_status_name b \<longleftrightarrow> a = b"
  by (cases a; cases b) simp_all

lemma order_status_of_name [simp]: "order_status_of_name (order_status_name st) = Some st"
  by (cases st) (simp_all add: order_status_of_name_def)

subsection \<open>Events\<close>

record domain_event =
  ev_name :: string
  ev_occurred_at :: millis
  ev_aggregate_id :: ident
  ev_version :: "int option"
  ev_source_version :: "int option"
  ev_metadata :: "(string \<times> json) list option"
  ev_fields :: "(string \<times> json) list"

definition base_domain_event ::
    "millis \<Rightarrow> ident \<Rightarrow> string \<Rightarrow> (string \<times> json) list option \<Rightarrow> domain_event" where
  "base_domain_event now aid name meta =
     \<lparr>ev_name = name, ev_occurred_at = now, ev_aggregate_id = aid,
      ev_version = None, ev_source_version = None, ev_metadata = meta, ev_fields = []\<rparr>"

record order_placed_item =
  opi_product_id :: ident
  opi_product_name :: string
  opi_quantity :: int
  opi_unit_price :: int

definition json_of_placed_item :: "order_placed_item \<Rightarrow> json" where
  "json_of_placed_item i = JObj
     [(''productId'', JStr (opi_product_id i)), (''productName'', JStr (opi_product_name i)),
      (''quantity'', jint (opi_quantity i)), (''unitPrice'', jint (opi_unit_price i))]"

definition order_placed_event ::
    "millis \<Rightarrow> ident \<Rightarrow> ident \<Rightarrow> string \<Rightarrow> string \<Rightarrow> string \<Rightarrow> payment_status \<Rightarrow> int \<Rightarrow> int \<Rightarrow> int
      \<Rightarrow> int \<Rightarrow> order_placed_item list \<Rightarrow> domain_event" where
  "order_placed_event now oid uid onum cname cemail pstatus sub tax ship tot items =
     (let money = [(''subtotal'', jint sub), (''tax'', jint tax), (''shippingFee'', jint ship), (''total'', jint tot)]
      in (base_domain_event now oid ''OrderPlaced''
            (Some ([(''userId'', JStr uid), (''orderNumber'', JStr onum),
                    (''paymentStatus'', JStr (payment_status_name pstatus))] @ money)))
         \<lparr>ev_fields :=
            [(''orderId'', JStr oid), (''userId'', JStr uid), (''orderNumber'', JStr onum),
             (''customerName'', JStr cname), (''customerEmail'', JStr cemail),
             (''paymentStatus'', JStr (payment_status_name pstatus))]
            @ money @ [(''items'', JArr (map json_of_placed_item items))]\<rparr>)"

definition order_status_changed_event ::
    "millis \<Rightarrow> ident \<Rightarrow> order_status \<Rightarrow> order_status \<Rightarrow> ident \<Rightarrow> domain_event" where
  "order_status_changed_event now oid old new uid =
     (let fs = [(''oldStatus'', JStr (order_status_name old)), (''newStatus'', JStr (order_status_name new)),
                (''userId'', JStr uid)]
      in (base_domain_event now oid ''OrderStatusChanged'' (Some fs))
           \<lparr>ev_fields := (''orderId'', JStr oid) # fs\<rparr>)"

definition order_cancelled_event :: "millis \<Rightarrow> ident \<Rightarrow> ident \<Rightarrow> domain_event" where
  "order_cancelled_event now oid uid =
     (base_domain_event now oid ''OrderCancelled'' (Some [(''userId'', JStr uid)]))
       \<lparr>ev_fields := [(''orderId'', JStr oid), (''userId'', JStr uid)]\<rparr>"

definition cart_item_added_event :: "millis \<Rightarrow> ident \<Rightarrow> ident \<Rightarrow> ident \<Rightarrow> int \<Rightarrow> domain_event" where
  "cart_item_added_event now cid uid pid q =
     (let fs = [(''userId'', JStr uid), (''productId'', JStr pid), (''quantity'', jint q)]
      in (base_domain_event now cid ''CartItemAdded'' (Some fs))
           \<lparr>ev_fields := (''cartId'', JStr cid) # fs\<rparr>)"

definition cart_item_removed_event :: "millis \<Rightarrow> ident \<Rightarrow> ident \<Rightarrow> ident \<Rightarrow> domain_event" where
  "cart_item_removed_event now cid uid pid =
     (let fs = [(''userId'', JStr uid), (''productId'', JStr pid)]
      in (base_domain_event now cid ''CartItemRemoved'' (Some fs))
           \<lparr>ev_fields := (''cartId'', JStr cid) # fs\<rparr>)"

definition cart_cleared_event :: "millis \<Rightarrow> ident \<Rightarrow> ident \<Rightarrow> domain_event" where
  "cart_cleared_event now cid uid =
     (base_domain_event now cid ''CartCleared'' (Some [(''userId'', JStr uid)]))
       \<lparr>ev_fields := [(''cartId'', JStr cid), (''userId'', JStr uid)]\<rparr>"

definition product_stock_depleted_event :: "millis \<Rightarrow> ident \<Rightarrow> string \<Rightarrow> domain_event" where
  "product_stock_depleted_event now pid name =
     (base_domain_event now pid ''ProductStockDepleted'' (Some [(''productName'', JStr name)]))
       \<lparr>ev_fields := [(''productId'', JStr pid), (''productName'', JStr name)]\<rparr>"

definition product_created_event :: "millis \<Rightarrow> ident \<Rightarrow> domain_event" where
  "product_created_event now pid =
     (base_domain_event now pid ''ProductCreated'' None)\<lparr>ev_fields := [(''productId'', JStr pid)]\<rparr>"

definition product_updated_event :: "millis \<Rightarrow> ident \<Rightarrow> domain_event" where
  "product_updated_event now pid =
     (base_domain_event now pid ''ProductUpdated'' None)\<lparr>ev_fields := [(''productId'', JStr pid)]\<rparr>"

definition product_restocked_event :: "millis \<Rightarrow> ident \<Rightarrow> int \<Rightarrow> int \<Rightarrow> domain_event" where
  "product_restocked_event now pid added stock =
     (let fs = [(''quantityAdded'', jint added), (''newStock'', jint stock)]
      in (base_domain_event now pid ''ProductRestocked'' (Some fs))
           \<lparr>ev_fields := (''productId'', JStr pid) # fs\<rparr>)"

definition product_price_changed_event :: "millis \<Rightarrow> ident \<Rightarrow> int \<Rightarrow> int \<Rightarrow> domain_event" where
  "product_price_changed_event now pid old new =
     (let fs = [(''oldPrice'', jint old), (''newPrice'', jint new)]
      in (base_domain_event now pid ''ProductPriceChanged'' (Some fs))
           \<lparr>ev_fields := (''productId'', JStr pid) # fs\<rparr>)"

definition product_deactivated_event :: "millis \<Rightarrow> ident \<Rightarrow> domain_event" where
  "product_deactivated_event now pid =
     (base_domain_event now pid ''ProductDeactivated'' None)\<lparr>ev_fields := [(''productId'', JStr pid)]\<rparr>"

definition product_activated_event :: "millis \<Rightarrow> ident \<Rightarrow> domain_event" where
  "product_activated_event now pid =
     (base_domain_event now pid ''ProductActivated'' None)\<lparr>ev_fields := [(''productId'', JStr pid)]\<rparr>"

definition review_created_event :: "millis \<Rightarrow> ident \<Rightarrow> domain_event" where
  "review_created_event now pid =
     (base_domain_event now pid ''ReviewCreated'' None)\<lparr>ev_fields := [(''productId'', JStr pid)]\<rparr>"

definition review_deleted_event :: "millis \<Rightarrow> ident \<Rightarrow> domain_event" where
  "review_deleted_event now pid =
     (base_domain_event now pid ''ReviewDeleted'' None)\<lparr>ev_fields := [(''productId'', JStr pid)]\<rparr>"

definition user_registered_event :: "millis \<Rightarrow> ident \<Rightarrow> string \<Rightarrow> domain_event" where
  "user_registered_event now uid email =
     (base_domain_event now uid ''UserRegistered'' (Some [(''email'', JStr email)]))
       \<lparr>ev_fields := [(''userId'', JStr uid), (''email'', JStr email)]\<rparr>"

definition user_email_verified_event :: "millis \<Rightarrow> ident \<Rightarrow> domain_event" where
  "user_email_verified_event now uid =
     (base_domain_event now uid ''UserEmailVerified'' None)\<lparr>ev_fields := [(''userId'', JStr uid)]\<rparr>"

definition user_password_changed_event :: "millis \<Rightarrow> ident \<Rightarrow> domain_event" where
  "user_password_changed_event now uid =
     (base_domain_event now uid ''UserPasswordChanged'' None)\<lparr>ev_fields := [(''userId'', JStr uid)]\<rparr>"

definition user_two_factor_enabled_event :: "millis \<Rightarrow> ident \<Rightarrow> domain_event" where
  "user_two_factor_enabled_event now uid =
     (base_domain_event now uid ''UserTwoFactorEnabled'' None)\<lparr>ev_fields := [(''userId'', JStr uid)]\<rparr>"

definition user_two_factor_disabled_event :: "millis \<Rightarrow> ident \<Rightarrow> domain_event" where
  "user_two_factor_disabled_event now uid =
     (base_domain_event now uid ''UserTwoFactorDisabled'' None)\<lparr>ev_fields := [(''userId'', JStr uid)]\<rparr>"

lemmas event_defs =
  base_domain_event_def order_placed_event_def order_status_changed_event_def
  order_cancelled_event_def cart_item_added_event_def cart_item_removed_event_def
  cart_cleared_event_def product_stock_depleted_event_def product_created_event_def
  product_updated_event_def product_restocked_event_def product_price_changed_event_def
  product_deactivated_event_def product_activated_event_def review_created_event_def
  review_deleted_event_def user_registered_event_def user_email_verified_event_def
  user_password_changed_event_def user_two_factor_enabled_event_def
  user_two_factor_disabled_event_def

lemma event_names [simp]:
  "ev_name (order_placed_event now a b c d e f g h i j k) = ''OrderPlaced''"
  "ev_name (order_status_changed_event now a old new b) = ''OrderStatusChanged''"
  "ev_name (order_cancelled_event now a b) = ''OrderCancelled''"
  "ev_name (cart_item_added_event now a b c q) = ''CartItemAdded''"
  "ev_name (cart_item_removed_event now a b c) = ''CartItemRemoved''"
  "ev_name (cart_cleared_event now a b) = ''CartCleared''"
  "ev_name (product_stock_depleted_event now a b) = ''ProductStockDepleted''"
  "ev_name (product_updated_event now a) = ''ProductUpdated''"
  "ev_name (product_created_event now a) = ''ProductCreated''"
  "ev_name (product_restocked_event now a x y) = ''ProductRestocked''"
  "ev_name (product_price_changed_event now a x y) = ''ProductPriceChanged''"
  "ev_name (product_activated_event now a) = ''ProductActivated''"
  "ev_name (product_deactivated_event now a) = ''ProductDeactivated''"
  by (simp_all add: event_defs Let_def)

lemma event_aggregates [simp]:
  "ev_aggregate_id (order_placed_event now a b c d e f g h i j k) = a"
  "ev_aggregate_id (order_status_changed_event now a old new b) = a"
  "ev_aggregate_id (order_cancelled_event now a b) = a"
  "ev_aggregate_id (cart_item_added_event now a b c q) = a"
  "ev_aggregate_id (cart_item_removed_event now a b c) = a"
  "ev_aggregate_id (cart_cleared_event now a b) = a"
  "ev_aggregate_id (product_stock_depleted_event now a n) = a"
  "ev_aggregate_id (product_updated_event now a) = a"
  "ev_aggregate_id (product_created_event now a) = a"
  "ev_aggregate_id (product_restocked_event now a x y) = a"
  "ev_aggregate_id (product_price_changed_event now a x y) = a"
  "ev_aggregate_id (product_activated_event now a) = a"
  "ev_aggregate_id (product_deactivated_event now a) = a"
  by (simp_all add: event_defs Let_def)

text \<open>\<open>str_field k ev\<close> reads the string field \<open>k\<close> of an event object, as a handler does.\<close>

definition str_field :: "string \<Rightarrow> domain_event \<Rightarrow> string option" where
  "str_field k ev = (case map_of (ev_fields ev) k of Some (JStr s) \<Rightarrow> Some s | _ \<Rightarrow> None)"

subsection \<open>Aggregate root\<close>

record aggregate_root =
  ar_id :: ident
  ar_events :: "domain_event list"
  ar_version :: int

definition new_aggregate :: "ident \<Rightarrow> aggregate_root" where
  "new_aggregate i = \<lparr>ar_id = i, ar_events = [], ar_version = 0\<rparr>"

definition raise :: "domain_event \<Rightarrow> 'a aggregate_root_scheme \<Rightarrow> 'a aggregate_root_scheme" where
  "raise ev a = a\<lparr>ar_events := ar_events a @ [ev]\<rparr>"

definition pull_events :: "'a aggregate_root_scheme \<Rightarrow> domain_event list \<times> 'a aggregate_root_scheme" where
  "pull_events a = (ar_events a, a\<lparr>ar_events := []\<rparr>)"

definition set_version_from_persistence :: "int \<Rightarrow> 'a aggregate_root_scheme \<Rightarrow> 'a aggregate_root_scheme" where
  "set_version_from_persistence v a = a\<lparr>ar_version := v\<rparr>"

lemma ar_simps [simp]:
  "ar_id (raise ev a) = ar_id a"
  "ar_version (raise ev a) = ar_version a"
  "ar_events (raise ev a) = ar_events a @ [ev]"
  "ar_id (set_version_from_persistence v a) = ar_id a"
  "ar_events (set_version_from_persistence v a) = ar_events a"
  "ar_version (set_version_from_persistence v a) = v"
  "aggregate_root.more (raise ev a) = aggregate_root.more a"
  "aggregate_root.more (set_version_from_persistence v a) = aggregate_root.more a"
  by (cases a; simp add: raise_def set_version_from_persistence_def)+

end
