(* ===== verification/Machine.thy ===== *)
theory Machine
  imports Events
begin

text \<open>
  The contract every aggregate keeps with its callers: an operation that succeeds preserves the
  aggregate's invariant, and relates the state before to the state after. An aggregate is run by
  calling its operations in turn, each at its own time; one that throws has changed nothing. The
  locales prove once that invariant and relation hold over every run.
\<close>

fun run_ops :: "(millis \<Rightarrow> 's \<Rightarrow> 'op \<Rightarrow> 'e + 's) \<Rightarrow> 's \<Rightarrow> (millis \<times> 'op) list \<Rightarrow> 's" where
  "run_ops step s [] = s"
| "run_ops step s ((now, op) # ops) =
     run_ops step (case step now s op of Inl _ \<Rightarrow> s | Inr s' \<Rightarrow> s') ops"

lemma run_ops_append: "run_ops step s (xs @ ys) = run_ops step (run_ops step s xs) ys"
  by (induction step s xs rule: run_ops.induct) auto

locale op_machine =
  fixes step :: "millis \<Rightarrow> 's \<Rightarrow> 'op \<Rightarrow> 'e + 's"
    and inv :: "'s \<Rightarrow> bool"
    and good :: "'op \<Rightarrow> bool"
  assumes step_inv: "inv s \<Longrightarrow> good op \<Longrightarrow> step now s op = Inr s' \<Longrightarrow> inv s'"
begin

lemma run_inv: "inv s \<Longrightarrow> \<forall>(t, op) \<in> set ops. good op \<Longrightarrow> inv (run_ops step s ops)"
proof (induction ops arbitrary: s)
  case (Cons top ops)
  obtain t op where top: "top = (t, op)" by (cases top)
  show ?case
  proof (cases "step t s op")
    case (Inr s')
    then have "inv s'" using Cons.prems top step_inv by auto
    then show ?thesis using Cons Inr top by auto
  qed (use Cons top in auto)
qed simp

end

locale op_machine_rel = op_machine step inv good
  for step :: "millis \<Rightarrow> 's \<Rightarrow> 'op \<Rightarrow> 'e + 's" and inv :: "'s \<Rightarrow> bool" and good :: "'op \<Rightarrow> bool" +
  fixes rel :: "'s \<Rightarrow> 's \<Rightarrow> bool"
  assumes rel_refl: "rel s s"
    and rel_trans: "rel s s' \<Longrightarrow> rel s' s'' \<Longrightarrow> rel s s''"
    and step_rel: "inv s \<Longrightarrow> good op \<Longrightarrow> step now s op = Inr s' \<Longrightarrow> rel s s'"
begin

lemma run_rel: "inv s \<Longrightarrow> \<forall>(t, op) \<in> set ops. good op \<Longrightarrow> rel s (run_ops step s ops)"
proof (induction ops arbitrary: s)
  case (Cons top ops)
  obtain t op where top: "top = (t, op)" by (cases top)
  show ?case
  proof (cases "step t s op")
    case (Inr s')
    then have "inv s'" "rel s s'"
      using Cons.prems top step_inv [OF _ _ Inr] step_rel [OF _ _ Inr] by auto
    then show ?thesis
      using Cons Inr top rel_trans by auto
  qed (use Cons top in auto)
qed (simp add: rel_refl)

end

end
