(* ===== verification/Order_Entity.thy ===== *)
theory Order_Entity
  imports Machine
begin

text \<open>
  The order aggregate, \<^verbatim>\<open>modules/orders/domain/order.entity.ts\<close>: its record, one function per method
  and the order's life as a machine over those methods. A method that throws has not changed the
  order, so it is a function into \<open>error + order\<close>; \<open>now\<close> is the clock of the events.
\<close>

record order_item =
  oi_product_id :: ident
  oi_product_name :: string
  oi_quantity :: int
  oi_unit_price :: money

definition order_item_total :: "order_item \<Rightarrow> error + money" where
  "order_item_total i = money_multiply (oi_unit_price i) (num_of_int (oi_quantity i))"

record order = aggregate_root +
  o_user_id :: ident
  o_order_number :: string
  o_status :: order_status
  o_created_at :: millis
  o_customer_name :: string
  o_customer_email :: string
  o_customer_phone :: string
  o_customer_address :: string
  o_payment_method :: string
  o_payment_status :: payment_status
  o_discount_amount :: money
  o_shipping_fee :: money
  o_tax :: money
  o_notes :: "string option"
  o_discount_code :: "string option"
  o_items :: "order_item list"
  o_placed :: bool

definition allowed_transitions :: "order_status \<Rightarrow> order_status list" where
  "allowed_transitions s = (case s of
      PENDING \<Rightarrow> [PROCESSING, CANCELLED]
    | PROCESSING \<Rightarrow> [SHIPPED, CANCELLED]
    | SHIPPED \<Rightarrow> [DELIVERED]
    | DELIVERED \<Rightarrow> []
    | CANCELLED \<Rightarrow> [])"

definition can_transition :: "order_status \<Rightarrow> order_status \<Rightarrow> bool" where
  "can_transition current new \<longleftrightarrow> new \<in> set (allowed_transitions current)"

record order_props =
  op_id :: ident
  op_user_id :: ident
  op_order_number :: string
  op_customer_name :: string
  op_customer_email :: string
  op_customer_phone :: string
  op_customer_address :: string
  op_payment_method :: string
  op_notes :: "string option"

definition order_create :: "millis \<Rightarrow> order_props \<Rightarrow> error + order" where
  "order_create now p =
     rbind (new_order_number (op_order_number p)) (\<lambda>onum.
     rbind (new_email (op_customer_email p)) (\<lambda>email.
     rbind (new_phone_number (op_customer_phone p)) (\<lambda>phone.
     rbind (new_address (op_customer_address p)) (\<lambda>addr.
     rbind (new_money (Fin 0)) (\<lambda>zero.
     Inr \<lparr>ar_id = op_id p, ar_events = [], ar_version = 0,
        o_user_id = op_user_id p, o_order_number = onum, o_status = PENDING, o_created_at = now,
        o_customer_name = op_customer_name p, o_customer_email = email, o_customer_phone = phone,
        o_customer_address = addr, o_payment_method = op_payment_method p,
        o_payment_status = PAY_PENDING, o_discount_amount = zero, o_shipping_fee = zero,
        o_tax = zero, o_notes = op_notes p, o_discount_code = None, o_items = [],
        o_placed = False\<rparr>)))))"

definition add_item_total :: "money \<Rightarrow> order_item \<Rightarrow> error + money" where
  "add_item_total acc i = rbind (order_item_total i) (\<lambda>t. money_add acc t)"

definition order_subtotal :: "'a order_scheme \<Rightarrow> error + money" where
  "order_subtotal ord = rbind (new_money (Fin 0)) (\<lambda>zero. rfold add_item_total zero (o_items ord))"

definition order_total :: "'a order_scheme \<Rightarrow> error + money" where
  "order_total ord =
     rbind (order_subtotal ord) (\<lambda>sub.
     rbind (money_add sub (o_tax ord)) (\<lambda>taxed.
     rbind (money_add taxed (o_shipping_fee ord)) (\<lambda>gross.
     if m_amount gross < m_amount (o_discount_amount ord)
     then Inl (DomainError (InvalidDiscountError ''Discount cannot exceed order total''))
     else money_subtract gross (o_discount_amount ord))))"

definition assert_mutable :: "'a order_scheme \<Rightarrow> error + unit" where
  "assert_mutable ord =
     (if o_placed ord then Inl (DomainError (OrderNotMutableError ALREADY_PLACED))
      else if o_status ord \<noteq> PENDING then Inl (DomainError (OrderNotMutableError NOT_PENDING))
      else Inr ())"

definition order_add_item ::
    "ident \<Rightarrow> string \<Rightarrow> js_num \<Rightarrow> money \<Rightarrow> 'a order_scheme \<Rightarrow> error + 'a order_scheme" where
  "order_add_item pid pname quantity price ord =
     rbind (assert_mutable ord) (\<lambda>_.
     if \<not> is_safe_integer quantity \<or> \<not> js_less (Fin 0) quantity
     then Inl (DomainError (InvalidOrderItemError ''Quantity must be positive''))
     else case find_by oi_product_id pid (o_items ord) of
       Some existing \<Rightarrow>
         if m_amount (oi_unit_price existing) \<noteq> m_amount price
         then Inl (DomainError (InvalidOrderItemError ''Cannot merge order items with different unit prices''))
         else let merged = js_add (num_of_int (oi_quantity existing)) quantity in
           if \<not> is_safe_integer merged
           then Inl (DomainError (InvalidOrderItemError ''Merged quantity exceeds safe integer range''))
           else Inr (ord\<lparr>o_items :=
             update_by oi_product_id pid (\<lambda>_. existing\<lparr>oi_quantity := int_of_num merged\<rparr>) (o_items ord)\<rparr>)
     | None \<Rightarrow>
         Inr (ord\<lparr>o_items := o_items ord @
           [\<lparr>oi_product_id = pid, oi_product_name = pname, oi_quantity = int_of_num quantity,
             oi_unit_price = price\<rparr>]\<rparr>))"

definition order_remove_item :: "ident \<Rightarrow> 'a order_scheme \<Rightarrow> error + 'a order_scheme" where
  "order_remove_item pid ord =
     rbind (assert_mutable ord) (\<lambda>_. Inr (ord\<lparr>o_items := delete_by oi_product_id pid (o_items ord)\<rparr>))"

record pricing =
  pr_tax :: money
  pr_shipping_fee :: money
  pr_discount_amount :: money
  pr_discount_code :: "string option"

definition order_apply_pricing :: "pricing \<Rightarrow> 'a order_scheme \<Rightarrow> error + 'a order_scheme" where
  "order_apply_pricing p ord =
     rbind (assert_mutable ord) (\<lambda>_.
     rbind (order_subtotal ord) (\<lambda>sub.
     if m_amount sub < m_amount (pr_discount_amount p)
     then Inl (DomainError (InvalidDiscountError ''Discount cannot exceed order subtotal''))
     else Inr (ord\<lparr>o_tax := pr_tax p, o_shipping_fee := pr_shipping_fee p,
                   o_discount_amount := pr_discount_amount p, o_discount_code := pr_discount_code p\<rparr>)))"

definition placed_item :: "order_item \<Rightarrow> order_placed_item" where
  "placed_item i = \<lparr>opi_product_id = oi_product_id i, opi_product_name = oi_product_name i,
                    opi_quantity = oi_quantity i, opi_unit_price = m_amount (oi_unit_price i)\<rparr>"

definition order_place :: "millis \<Rightarrow> 'a order_scheme \<Rightarrow> error + 'a order_scheme" where
  "order_place now ord =
     (if o_placed ord then Inl (DomainError OrderAlreadyPlacedError)
      else if o_status ord \<noteq> PENDING then Inl (DomainError (OrderNotMutableError NOT_PENDING))
      else if o_items ord = [] then Inl (DomainError EmptyOrderError)
      else rbind (order_subtotal ord) (\<lambda>sub.
           rbind (order_total ord) (\<lambda>total.
           Inr (raise (order_placed_event now (ar_id ord) (o_user_id ord) (o_order_number ord)
                  (o_customer_name ord) (o_customer_email ord) (o_payment_status ord)
                  (m_amount sub) (m_amount (o_tax ord)) (m_amount (o_shipping_fee ord))
                  (m_amount total) (map placed_item (o_items ord)))
                (ord\<lparr>o_placed := True\<rparr>)))))"

definition transition_status ::
    "millis \<Rightarrow> order_status \<Rightarrow> 'a order_scheme \<Rightarrow> error + 'a order_scheme" where
  "transition_status now new ord =
     (let old = o_status ord in
      if \<not> can_transition old new
      then Inl (DomainError (InvalidOrderTransitionError (order_status_name old) (order_status_name new)))
      else Inr (raise (order_status_changed_event now (ar_id ord) old new (o_user_id ord))
                  (ord\<lparr>o_status := new\<rparr>)))"

definition order_confirm :: "millis \<Rightarrow> 'a order_scheme \<Rightarrow> error + 'a order_scheme" where
  "order_confirm now ord = transition_status now PROCESSING ord"

definition order_ship :: "millis \<Rightarrow> 'a order_scheme \<Rightarrow> error + 'a order_scheme" where
  "order_ship now ord = transition_status now SHIPPED ord"

definition order_deliver :: "millis \<Rightarrow> 'a order_scheme \<Rightarrow> error + 'a order_scheme" where
  "order_deliver now ord = transition_status now DELIVERED ord"

definition order_cancel :: "millis \<Rightarrow> 'a order_scheme \<Rightarrow> error + 'a order_scheme" where
  "order_cancel now ord =
     (if o_status ord = DELIVERED then Inl (DomainError (OrderNotCancellableError IS_DELIVERED))
      else if o_status ord = CANCELLED then Inl (DomainError (OrderNotCancellableError ALREADY_CANCELLED))
      else rbind (transition_status now CANCELLED ord) (\<lambda>o'.
           Inr (raise (order_cancelled_event now (ar_id ord) (o_user_id ord)) o')))"

record order_data =
  od_id :: ident
  od_user_id :: ident
  od_order_number :: string
  od_status :: order_status
  od_created_at :: millis
  od_customer_name :: string
  od_customer_email :: string
  od_customer_phone :: string
  od_customer_address :: string
  od_payment_method :: string
  od_payment_status :: payment_status
  od_discount_amount :: js_num
  od_shipping_fee :: js_num
  od_tax :: js_num
  od_notes :: "string option"
  od_discount_code :: "string option"
  od_items :: "(ident \<times> string \<times> int \<times> js_num) list"
  od_version :: "int option"

definition hydrate_item :: "ident \<times> string \<times> int \<times> js_num \<Rightarrow> error + order_item" where
  "hydrate_item it = (case it of (pid, pname, q, price) \<Rightarrow>
     rbind (new_money price) (\<lambda>m. Inr \<lparr>oi_product_id = pid, oi_product_name = pname,
                                       oi_quantity = q, oi_unit_price = m\<rparr>))"

definition order_hydrate :: "order_data \<Rightarrow> error + order" where
  "order_hydrate d =
     rbind (new_order_number (od_order_number d)) (\<lambda>onum.
     rbind (new_email (od_customer_email d)) (\<lambda>email.
     rbind (new_phone_number (od_customer_phone d)) (\<lambda>phone.
     rbind (new_address (od_customer_address d)) (\<lambda>addr.
     rbind (new_money (od_discount_amount d)) (\<lambda>disc.
     rbind (new_money (od_shipping_fee d)) (\<lambda>ship.
     rbind (new_money (od_tax d)) (\<lambda>tax.
     rbind (rmap hydrate_item (od_items d)) (\<lambda>items.
     let ord = \<lparr>ar_id = od_id d, ar_events = [], ar_version = 0,
        o_user_id = od_user_id d, o_order_number = onum, o_status = od_status d,
        o_created_at = od_created_at d, o_customer_name = od_customer_name d,
        o_customer_email = email, o_customer_phone = phone, o_customer_address = addr,
        o_payment_method = od_payment_method d, o_payment_status = od_payment_status d,
        o_discount_amount = disc, o_shipping_fee = ship, o_tax = tax, o_notes = od_notes d,
        o_discount_code = od_discount_code d, o_items = items, o_placed = True\<rparr>
     in Inr (case od_version d of None \<Rightarrow> ord | Some v \<Rightarrow> set_version_from_persistence v ord)))))))))"

subsection \<open>The order as a machine\<close>

datatype order_op =
    AddItem ident string js_num money
  | RemoveItem ident
  | ApplyPricing pricing
  | Place
  | Confirm
  | Ship
  | Deliver
  | Cancel

fun order_step :: "millis \<Rightarrow> order \<Rightarrow> order_op \<Rightarrow> error + order" where
  "order_step now ord (AddItem pid pname q m) = order_add_item pid pname q m ord"
| "order_step now ord (RemoveItem pid) = order_remove_item pid ord"
| "order_step now ord (ApplyPricing p) = order_apply_pricing p ord"
| "order_step now ord Place = order_place now ord"
| "order_step now ord Confirm = order_confirm now ord"
| "order_step now ord Ship = order_ship now ord"
| "order_step now ord Deliver = order_deliver now ord"
| "order_step now ord Cancel = order_cancel now ord"

definition order_run :: "order \<Rightarrow> (millis \<times> order_op) list \<Rightarrow> order" where
  "order_run ord ops = run_ops order_step ord ops"

subsection \<open>Well-formed orders\<close>

definition vnd_ok :: "money \<Rightarrow> bool" where
  "vnd_ok m \<longleftrightarrow> money_ok m \<and> m_currency m = MONEY_CURRENCY"

definition item_ok :: "order_item \<Rightarrow> bool" where
  "item_ok i \<longleftrightarrow> 0 < oi_quantity i \<and> oi_quantity i \<le> max_safe \<and> vnd_ok (oi_unit_price i)"

definition order_ok :: "order \<Rightarrow> bool" where
  "order_ok ord \<longleftrightarrow> distinct (map oi_product_id (o_items ord)) \<and> (\<forall>i \<in> set (o_items ord). item_ok i)
     \<and> vnd_ok (o_tax ord) \<and> vnd_ok (o_shipping_fee ord) \<and> vnd_ok (o_discount_amount ord)"

definition op_ok :: "order_op \<Rightarrow> bool" where
  "op_ok op = (case op of
      AddItem _ _ _ m \<Rightarrow> vnd_ok m
    | ApplyPricing p \<Rightarrow> vnd_ok (pr_tax p) \<and> vnd_ok (pr_shipping_fee p) \<and> vnd_ok (pr_discount_amount p)
    | _ \<Rightarrow> True)"

text \<open>The exact value of the lines, in the integers.\<close>

definition items_value :: "order_item list \<Rightarrow> int" where
  "items_value is = sum_list (map (\<lambda>i. m_amount (oi_unit_price i) * oi_quantity i) is)"

lemma vnd_ok_vnd [simp]: "vnd_ok (vnd n) \<longleftrightarrow> 0 \<le> n \<and> n \<le> max_safe"
  by (simp add: vnd_ok_def)

lemma vnd_okE:
  assumes "vnd_ok m"
  obtains n where "m = vnd n" and "0 \<le> n" and "n \<le> max_safe"
  using assms vnd_of [of m] that [of "m_amount m"] by (auto simp: vnd_ok_def money_ok_def)

lemma vnd_ok_new_money: "new_money n = Inr m \<Longrightarrow> vnd_ok m"
  using mk_money_ok by (simp add: vnd_ok_def)

lemma item_value_nonneg: "item_ok i \<Longrightarrow> 0 \<le> m_amount (oi_unit_price i) * oi_quantity i"
  by (auto simp: item_ok_def vnd_ok_def money_ok_def)

lemma items_value_nonneg: "\<forall>i \<in> set is. item_ok i \<Longrightarrow> 0 \<le> items_value is"
  unfolding items_value_def by (intro sum_list_nonneg) (auto dest: item_value_nonneg)

lemma add_item_total_exact:
  assumes "item_ok i" and "0 \<le> acc" and "acc \<le> max_safe"
  shows "add_item_total (vnd acc) i =
    (let v = acc + m_amount (oi_unit_price i) * oi_quantity i
     in if v \<le> max_safe then Inr (vnd v) else Inl (PlainError ''Amount must be a safe integer''))"
proof -
  obtain n where n: "oi_unit_price i = vnd n" "0 \<le> n" "n \<le> max_safe"
    using assms(1) by (auto simp: item_ok_def elim: vnd_okE)
  moreover have "0 \<le> n * oi_quantity i"
    using item_value_nonneg [OF assms(1)] n by simp
  ultimately show ?thesis
    using assms by (auto simp: add_item_total_def order_item_total_def item_ok_def Let_def)
qed

lemma fold_item_total_exact:
  assumes "\<forall>i \<in> set is. item_ok i" and "0 \<le> acc" and "acc \<le> max_safe"
  shows "rfold add_item_total (vnd acc) is =
    (if acc + items_value is \<le> max_safe then Inr (vnd (acc + items_value is))
     else Inl (PlainError ''Amount must be a safe integer''))"
  using assms
proof (induction "is" arbitrary: acc)
  case (Cons i "is")
  let ?v = "m_amount (oi_unit_price i) * oi_quantity i"
  have "0 \<le> ?v" "0 \<le> items_value is"
    using Cons.prems items_value_nonneg item_value_nonneg by auto
  then show ?case
    using Cons by (auto simp: add_item_total_exact Let_def items_value_def)
qed (simp add: items_value_def)

lemma order_subtotal_exact:
  assumes "order_ok ord"
  shows "order_subtotal ord =
    (if items_value (o_items ord) \<le> max_safe then Inr (vnd (items_value (o_items ord)))
     else Inl (PlainError ''Amount must be a safe integer''))"
  using assms fold_item_total_exact [of "o_items ord" 0]
  by (auto simp: order_subtotal_def order_ok_def max_safe_def)

definition order_gross :: "order \<Rightarrow> int" where
  "order_gross ord = items_value (o_items ord) + m_amount (o_tax ord) + m_amount (o_shipping_fee ord)"

lemma order_total_exact:
  assumes ok: "order_ok ord"
  shows "order_total ord =
    (if max_safe < order_gross ord then Inl (PlainError ''Amount must be a safe integer'')
     else if order_gross ord < m_amount (o_discount_amount ord)
     then Inl (DomainError (InvalidDiscountError ''Discount cannot exceed order total''))
     else Inr (vnd (order_gross ord - m_amount (o_discount_amount ord))))"
proof -
  obtain t s d where m: "o_tax ord = vnd t" "0 \<le> t" "t \<le> max_safe" "o_shipping_fee ord = vnd s" "0 \<le> s"
      "s \<le> max_safe" "o_discount_amount ord = vnd d" "0 \<le> d" "d \<le> max_safe"
    using ok unfolding order_ok_def by (metis vnd_okE)
  have "0 \<le> items_value (o_items ord)"
    using ok items_value_nonneg by (simp add: order_ok_def)
  then show ?thesis
    using m by (auto simp: order_total_def order_subtotal_exact [OF ok] order_gross_def)
qed


subsection \<open>Preservation and frozen orders\<close>

lemma ord_simps [simp]:
  "o_items (raise ev ord) = o_items ord" "o_status (raise ev ord) = o_status ord"
  "o_placed (raise ev ord) = o_placed ord" "o_tax (raise ev ord) = o_tax ord"
  "o_shipping_fee (raise ev ord) = o_shipping_fee ord" "o_user_id (raise ev ord) = o_user_id ord"
  "o_discount_amount (raise ev ord) = o_discount_amount ord"
  "o_discount_code (raise ev ord) = o_discount_code ord"
  "o_order_number (raise ev ord) = o_order_number ord"
  "o_payment_status (raise ev ord) = o_payment_status ord"
  by (simp_all add: raise_def)

lemma order_ok_raise [simp]: "order_ok (raise ev ord) = order_ok ord"
  by (simp add: order_ok_def)

lemma quantity_E:
  assumes "is_safe_integer q" and "js_less (Fin 0) q"
  obtains n where "q = num_of_int n" and "0 < n" and "n \<le> max_safe"
  using assms js_less_num_of_int [of 0] that
  by (auto elim!: is_safe_integer_E simp: safe_int_def num_of_int_def)

lemma merged_quantity:
  assumes "0 < a" "a \<le> max_safe" "0 < b" "b \<le> max_safe"
  shows "is_safe_integer (js_add (num_of_int a) (num_of_int b)) \<longleftrightarrow> a + b \<le> max_safe"
    and "a + b \<le> max_safe \<Longrightarrow> js_add (num_of_int a) (num_of_int b) = num_of_int (a + b)"
proof -
  show e: "js_add (num_of_int a) (num_of_int b) = num_of_int (a + b)" if "a + b \<le> max_safe"
    using that assms by (intro js_add_int) (simp add: max_safe_def)
  show "is_safe_integer (js_add (num_of_int a) (num_of_int b)) \<longleftrightarrow> a + b \<le> max_safe"
  proof (cases "a + b \<le> max_safe")
    case False
    then show ?thesis
      using fl_beyond_safe(2) [of "a + b"] by (simp add: max_safe_def num_of_int_def)
  qed (use e assms in \<open>auto simp: safe_int_def\<close>)
qed

lemma assert_mutable_iff: "assert_mutable ord = Inr u \<longleftrightarrow> \<not> o_placed ord \<and> o_status ord = PENDING"
  by (auto simp: assert_mutable_def)

lemma order_add_item_cases:
  assumes "order_add_item pid pname q m ord = Inr ord'"
  obtains (merge) n ex where "q = num_of_int n" "0 < n" "n \<le> max_safe" "\<not> o_placed ord"
      "o_status ord = PENDING" "find_by oi_product_id pid (o_items ord) = Some ex"
      "m_amount (oi_unit_price ex) = m_amount m"
      "is_safe_integer (js_add (num_of_int (oi_quantity ex)) q)"
      "ord' = ord\<lparr>o_items := update_by oi_product_id pid
          (\<lambda>_. ex\<lparr>oi_quantity := int_of_num (js_add (num_of_int (oi_quantity ex)) q)\<rparr>) (o_items ord)\<rparr>"
  | (fresh) n where "q = num_of_int n" "0 < n" "n \<le> max_safe" "\<not> o_placed ord"
      "o_status ord = PENDING" "find_by oi_product_id pid (o_items ord) = None"
      "ord' = ord\<lparr>o_items := o_items ord @ [\<lparr>oi_product_id = pid, oi_product_name = pname,
          oi_quantity = n, oi_unit_price = m\<rparr>]\<rparr>"
proof -
  have mut: "\<not> o_placed ord" "o_status ord = PENDING"
    using assms by (auto simp: order_add_item_def rbind_Inr_iff assert_mutable_iff)
  then have am: "assert_mutable ord = Inr ()" by (simp add: assert_mutable_iff)
  have q: "is_safe_integer q" "js_less (Fin 0) q"
    using assms by (auto simp: order_add_item_def am split: if_splits)
  then obtain n where n: "q = num_of_int n" "0 < n" "n \<le> max_safe" by (rule quantity_E)
  show ?thesis
  proof (cases "find_by oi_product_id pid (o_items ord)")
    case None
    then show ?thesis
      using assms q n mut by (intro fresh) (auto simp: order_add_item_def am)
  next
    case (Some ex)
    then show ?thesis
      using assms q n mut by (intro merge) (auto simp: order_add_item_def am Let_def split: if_splits)
  qed
qed

lemma order_ok_items:
  "order_ok (ord\<lparr>o_items := is\<rparr>) \<longleftrightarrow> distinct (map oi_product_id is) \<and> (\<forall>i \<in> set is. item_ok i)
     \<and> vnd_ok (o_tax ord) \<and> vnd_ok (o_shipping_fee ord) \<and> vnd_ok (o_discount_amount ord)"
  by (simp add: order_ok_def)

lemma map_update_by_const:
  "find_by key k xs = Some x \<Longrightarrow> key y = k \<Longrightarrow> map key (update_by key k (\<lambda>_. y) xs) = map key xs"
  by (induction xs) (auto split: if_splits)

lemma order_add_item_ok:
  assumes ok: "order_ok ord" "vnd_ok m" and step: "order_add_item pid pname q m ord = Inr ord'"
  shows "order_ok ord'"
  using step
proof (cases rule: order_add_item_cases)
  case (merge n ex)
  let ?ex = "ex\<lparr>oi_quantity := int_of_num (js_add (num_of_int (oi_quantity ex)) q)\<rparr>"
  have ex: "ex \<in> set (o_items ord)" "oi_product_id ex = pid"
    using merge(6) find_by_SomeD by metis+
  then have "item_ok ex" using ok(1) by (simp add: order_ok_def)
  then have "item_ok ?ex"
    using merge merged_quantity [of "oi_quantity ex" n] by (auto simp: item_ok_def)
  moreover have "map oi_product_id (update_by oi_product_id pid (\<lambda>_. ?ex) (o_items ord))
      = map oi_product_id (o_items ord)"
    using ex by (intro map_update_by_const [OF merge(6)]) simp
  ultimately show ?thesis
    using ok(1) unfolding merge(9) order_ok_items
    by (auto simp: order_ok_def dest!: set_update_by)
next
  case (fresh n)
  then have "pid \<notin> oi_product_id ` set (o_items ord)"
    by (simp add: find_by_None_iff)
  then show ?thesis
    using ok fresh by (auto simp: order_ok_def item_ok_def)
qed

lemma order_step_ok:
  assumes ok: "order_ok ord" "op_ok op" and step: "order_step now ord op = Inr ord'"
  shows "order_ok ord'"
proof (cases op)
  case (AddItem pid pname q m)
  then show ?thesis using order_add_item_ok ok step by (simp add: op_ok_def)
next
  case (RemoveItem pid)
  then show ?thesis
    using ok step distinct_delete_by subsetD [OF set_delete_by]
    by (fastforce simp: order_remove_item_def order_ok_def rbind_Inr_iff)
next
  case (ApplyPricing p)
  then show ?thesis
    using ok step by (auto simp: order_apply_pricing_def rbind_Inr_iff order_ok_def op_ok_def split: if_splits)
qed (use ok step in \<open>auto simp: order_place_def order_confirm_def order_ship_def order_deliver_def
      order_cancel_def transition_status_def rbind_Inr_iff order_ok_def Let_def split: if_splits\<close>)

text \<open>What a placed order keeps: its lines and its prices, and that it is placed.\<close>

definition frozen_rel :: "order \<Rightarrow> order \<Rightarrow> bool" where
  "frozen_rel a b \<longleftrightarrow> (o_placed a \<longrightarrow> o_placed b \<and> o_items b = o_items a \<and> o_tax b = o_tax a
     \<and> o_shipping_fee b = o_shipping_fee a \<and> o_discount_amount b = o_discount_amount a
     \<and> o_discount_code b = o_discount_code a)"

lemma order_step_frozen: "order_step now ord op = Inr ord' \<Longrightarrow> frozen_rel ord ord'"
  by (cases op) (auto simp: frozen_rel_def order_add_item_def order_remove_item_def
      order_apply_pricing_def order_place_def order_confirm_def order_ship_def order_deliver_def
      order_cancel_def transition_status_def rbind_Inr_iff assert_mutable_iff Let_def split: if_splits)


subsection \<open>The trail of status events\<close>

definition status_move :: "domain_event \<Rightarrow> (order_status \<times> order_status) option" where
  "status_move ev =
     (if ev_name ev = ''OrderStatusChanged''
      then (case (str_field ''oldStatus'' ev, str_field ''newStatus'' ev) of
              (Some a, Some b) \<Rightarrow>
                (case (order_status_of_name a, order_status_of_name b) of
                   (Some x, Some y) \<Rightarrow> Some (x, y) | _ \<Rightarrow> None)
            | _ \<Rightarrow> None)
      else None)"

definition status_moves :: "domain_event list \<Rightarrow> (order_status \<times> order_status) list" where
  "status_moves evs = List.map_filter status_move evs"

text \<open>\<open>status_path s ms t\<close>: the moves lead from \<open>s\<close> to \<open>t\<close> without a gap, each one allowed.\<close>

fun status_path :: "order_status \<Rightarrow> (order_status \<times> order_status) list \<Rightarrow> order_status \<Rightarrow> bool" where
  "status_path s [] t \<longleftrightarrow> s = t"
| "status_path s ((a, b) # ms) t \<longleftrightarrow> a = s \<and> can_transition a b \<and> status_path b ms t"

lemma status_path_append:
  "status_path s xs t \<Longrightarrow> status_path t ys u \<Longrightarrow> status_path s (xs @ ys) u"
  by (induction s xs t rule: status_path.induct) auto

definition trail_rel :: "order \<Rightarrow> order \<Rightarrow> bool" where
  "trail_rel a b \<longleftrightarrow> (\<exists>evs. ar_events b = ar_events a @ evs
     \<and> status_path (o_status a) (status_moves evs) (o_status b))"

lemma status_move_simps [simp]:
  "status_move (order_status_changed_event now oid a b uid) = Some (a, b)"
  "status_move (order_cancelled_event now oid uid) = None"
  "status_move (order_placed_event now oid u n c e ps s t sf tot is) = None"
  by (simp_all add: status_move_def str_field_def order_status_changed_event_def base_domain_event_def Let_def)

lemma status_moves_simps [simp]:
  "status_moves [] = []"
  "status_moves (ev # evs) =
     (case status_move ev of None \<Rightarrow> status_moves evs | Some m \<Rightarrow> m # status_moves evs)"
  "status_moves (xs @ ys) = status_moves xs @ status_moves ys"
  by (simp_all add: status_moves_def List.map_filter_def split: option.splits)

lemma trail_rel_refl: "trail_rel a a"
  by (auto simp: trail_rel_def)

lemma trail_rel_trans: "trail_rel a b \<Longrightarrow> trail_rel b c \<Longrightarrow> trail_rel a c"
  by (fastforce simp: trail_rel_def intro: status_path_append)

lemma trail_relI:
  "ar_events b = ar_events a @ evs \<Longrightarrow> status_path (o_status a) (status_moves evs) (o_status b) \<Longrightarrow>
   trail_rel a b"
  by (auto simp: trail_rel_def)

lemma transition_trail: "transition_status now new ord = Inr ord' \<Longrightarrow>
   ar_events ord' = ar_events ord @ [order_status_changed_event now (ar_id ord) (o_status ord) new (o_user_id ord)]
   \<and> o_status ord' = new \<and> can_transition (o_status ord) new"
  by (auto simp: transition_status_def Let_def split: if_splits)

lemma transition_trail_rel: "transition_status now new ord = Inr ord' \<Longrightarrow> trail_rel ord ord'"
  using transition_trail by (intro trail_relI) auto

lemma trail_rel_same: "ar_events b = ar_events a \<Longrightarrow> o_status b = o_status a \<Longrightarrow> trail_rel a b"
  by (intro trail_relI [of _ _ "[]"]) auto

lemma order_step_trail:
  assumes step: "order_step now ord op = Inr ord'"
  shows "trail_rel ord ord'"
proof (cases op)
  case (AddItem pid pname q m)
  then show ?thesis
    using step by (auto intro!: trail_rel_same elim!: order_add_item_cases)
next
  case (RemoveItem pid)
  then show ?thesis
    using step by (auto intro!: trail_rel_same simp: order_remove_item_def rbind_Inr_iff)
next
  case (ApplyPricing p)
  then show ?thesis
    using step by (auto intro!: trail_rel_same simp: order_apply_pricing_def rbind_Inr_iff split: if_splits)
next
  case Place
  then show ?thesis
    using step
    by (auto intro!: trail_relI [of _ _ "[_]"] simp: order_place_def rbind_Inr_iff split: if_splits)
next
  case Cancel
  then obtain o1 where "transition_status now CANCELLED ord = Inr o1"
      and o': "ord' = raise (order_cancelled_event now (ar_id ord) (o_user_id ord)) o1"
    using step by (auto simp: order_cancel_def rbind_Inr_iff split: if_splits)
  then have "trail_rel ord o1" by (simp add: transition_trail_rel)
  moreover have "trail_rel o1 ord'"
    unfolding o' by (intro trail_relI [of _ _ "[_]"]) auto
  ultimately show ?thesis by (rule trail_rel_trans)
qed (use step transition_trail_rel in
      \<open>simp_all add: order_confirm_def order_ship_def order_deliver_def\<close>)

text \<open>The number of \<open>OrderPlaced\<close> events in the buffer tells whether the order is placed.\<close>

definition placed_events :: "'a aggregate_root_scheme \<Rightarrow> nat" where
  "placed_events a = length (filter (\<lambda>ev. ev_name ev = ''OrderPlaced'') (ar_events a))"

definition placed_once :: "order \<Rightarrow> bool" where
  "placed_once ord \<longleftrightarrow> placed_events ord = (if o_placed ord then 1 else 0)"

lemma order_step_placed_once:
  assumes "placed_once ord" and step: "order_step now ord op = Inr ord'"
  shows "placed_once ord'"
proof -
  have same: "placed_once b" if "ar_events b = ar_events ord" "o_placed b = o_placed ord" for b
    using that assms(1) by (simp add: placed_once_def placed_events_def)
  have tr: "placed_once b" if "transition_status now new ord = Inr b" for new b
    using that assms(1)
    by (auto simp: transition_status_def placed_once_def placed_events_def Let_def split: if_splits)
  show ?thesis
  proof (cases op)
    case (AddItem pid pname q m)
    then show ?thesis
      using step by (auto intro!: same elim!: order_add_item_cases)
  next
    case (RemoveItem pid)
    then show ?thesis using step by (auto intro!: same simp: order_remove_item_def rbind_Inr_iff)
  next
    case (ApplyPricing p)
    then show ?thesis
      using step by (auto intro!: same simp: order_apply_pricing_def rbind_Inr_iff split: if_splits)
  next
    case Place
    then show ?thesis
      using step assms(1)
      by (auto simp: order_place_def rbind_Inr_iff placed_once_def placed_events_def split: if_splits)
  next
    case Cancel
    then obtain o1 where "transition_status now CANCELLED ord = Inr o1"
        and "ord' = raise (order_cancelled_event now (ar_id ord) (o_user_id ord)) o1"
      using step by (auto simp: order_cancel_def rbind_Inr_iff split: if_splits)
    then show ?thesis
      using tr [of CANCELLED o1] by (simp add: placed_once_def placed_events_def)
  qed (use step tr in \<open>simp_all add: order_confirm_def order_ship_def order_deliver_def\<close>)
qed

text \<open>The order's methods keep the contract of an aggregate, in three ways.\<close>

interpretation ord_frozen: op_machine_rel order_step order_ok op_ok frozen_rel
  by unfold_locales
    (use order_step_ok order_step_frozen in \<open>auto simp: frozen_rel_def\<close>)

interpretation ord_trail: op_machine_rel order_step order_ok op_ok trail_rel
  by unfold_locales
    (use trail_rel_refl trail_rel_trans order_step_trail in blast)+

interpretation ord_once: op_machine order_step placed_once "\<lambda>_. True"
  by unfold_locales (use order_step_placed_once in blast)


subsection \<open>Properties\<close>

lemma order_create_ok: "order_create now p = Inr ord \<Longrightarrow>
   order_ok ord \<and> placed_once ord \<and> o_status ord = PENDING \<and> \<not> o_placed ord \<and> ar_events ord = []"
  by (auto simp: order_create_def rbind_Inr_iff order_ok_def placed_once_def placed_events_def max_safe_def)

definition sample_props :: order_props where
  "sample_props = \<lparr>op_id = ''o1'', op_user_id = ''u1'', op_order_number = '' ord-0001 '',
     op_customer_name = ''Lan'', op_customer_email = '' Lan@Example.com'', op_customer_phone = ''+84 901-234-567'',
     op_customer_address = ''12  Nguyen Trai'', op_payment_method = ''COD'', op_notes = None\<rparr>"

definition sample_order :: order where
  "sample_order = \<lparr>ar_id = ''o1'', ar_events = [], ar_version = 0, o_user_id = ''u1'',
     o_order_number = ''ORD-0001'', o_status = PENDING, o_created_at = 7, o_customer_name = ''Lan'',
     o_customer_email = ''lan@example.com'', o_customer_phone = ''+84901234567'',
     o_customer_address = ''12 Nguyen Trai'', o_payment_method = ''COD'', o_payment_status = PAY_PENDING,
     o_discount_amount = vnd 5000, o_shipping_fee = vnd 30000, o_tax = vnd 25000, o_notes = None,
     o_discount_code = Some ''TET'',
     o_items = [\<lparr>oi_product_id = ''p1'', oi_product_name = ''Tea'', oi_quantity = 2, oi_unit_price = vnd 100000\<rparr>,
                \<lparr>oi_product_id = ''p2'', oi_product_name = ''Cup'', oi_quantity = 1, oi_unit_price = vnd 50000\<rparr>],
     o_placed = False\<rparr>"

text \<open>C29: Creating an order and calling its methods in any order and number, with amounts in VND, yields
  a well-formed order: one line per product, positive safe quantities, non-negative safe amounts; and
  it has raised \<open>OrderPlaced\<close> exactly once if it is placed and never otherwise.\<close>

theorem order_reachable_ok:
  assumes "order_create now p = Inr ord" and "\<forall>(t, op) \<in> set ops. op_ok op"
  shows "order_ok (order_run ord ops) \<and> placed_once (order_run ord ops)"
  using order_create_ok [OF assms(1)] ord_frozen.run_inv [of ord ops] ord_once.run_inv [of ord ops] assms(2)
  by (auto simp: order_run_def)

lemma sample_create: "ok (order_create 7 sample_props)"
  by code_simp

theorem order_reachable_ok_witness:
  "\<exists>ord. order_create 7 sample_props = Inr ord
     \<and> order_ok (order_run ord [(8, AddItem ''p1'' ''Tea'' (num_of_int 2) (vnd 100000)), (9, Place)])"
proof -
  obtain ord where o: "order_create 7 sample_props = Inr ord" using sample_create
    by (auto simp: ok_def split: sum.splits)
  have "\<forall>(t, op) \<in> set [(8 :: millis, AddItem ''p1'' ''Tea'' (num_of_int 2) (vnd 100000)), (9, Place)]. op_ok op"
    by (simp add: op_ok_def max_safe_def)
  then show ?thesis
    using order_reachable_ok [OF o] o by blast
qed

text \<open>Placing a well-formed order records its money: the one event it raises carries subtotal, tax,
  shipping fee and total with total = subtotal + tax + shipping - discount in the integers, the total is a
  non-negative safe integer, equals what \<open>total\<close> returns for the placed order, and nothing else changes.\<close>

theorem order_place_records_total:
  assumes ok: "order_ok ord" and place: "order_place now ord = Inr ord'"
  shows "\<exists>sub tot. ord' = raise (order_placed_event now (ar_id ord) (o_user_id ord) (o_order_number ord)
             (o_customer_name ord) (o_customer_email ord) (o_payment_status ord) sub (m_amount (o_tax ord))
             (m_amount (o_shipping_fee ord)) tot (map placed_item (o_items ord))) (ord\<lparr>o_placed := True\<rparr>)
     \<and> sub = items_value (o_items ord)
     \<and> tot = sub + m_amount (o_tax ord) + m_amount (o_shipping_fee ord) - m_amount (o_discount_amount ord)
     \<and> 0 \<le> tot \<and> tot \<le> max_safe \<and> order_total ord' = Inr (vnd tot)"
proof -
  obtain s t where st: "order_subtotal ord = Inr s" "order_total ord = Inr t"
      and o': "ord' = raise (order_placed_event now (ar_id ord) (o_user_id ord) (o_order_number ord)
             (o_customer_name ord) (o_customer_email ord) (o_payment_status ord) (m_amount s)
             (m_amount (o_tax ord)) (m_amount (o_shipping_fee ord)) (m_amount t)
             (map placed_item (o_items ord))) (ord\<lparr>o_placed := True\<rparr>)"
    using place by (auto simp: order_place_def rbind_Inr_iff split: if_splits)
  have "order_total ord' = order_total ord"
    unfolding o' by (simp add: order_total_def order_subtotal_def cong: if_cong)
  moreover have "s = vnd (items_value (o_items ord))"
    using st(1) unfolding order_subtotal_exact [OF ok] by (simp split: if_splits)
  moreover have "t = vnd (order_gross ord - m_amount (o_discount_amount ord))"
      "m_amount (o_discount_amount ord) \<le> order_gross ord" "order_gross ord \<le> max_safe"
    using st(2) unfolding order_total_exact [OF ok] by (auto split: if_splits)
  moreover have "0 \<le> m_amount (o_discount_amount ord)"
    using ok by (simp add: order_ok_def vnd_ok_def money_ok_def)
  ultimately show ?thesis
    using st(2) o' by (auto simp: order_gross_def)
qed

lemma sample_order_ok: "order_ok sample_order"
  by (simp add: sample_order_def order_ok_def item_ok_def max_safe_def)

lemma sample_order_place: "order_place 9 sample_order = Inr (raise (order_placed_event 9 ''o1'' ''u1'' ''ORD-0001''
    ''Lan'' ''lan@example.com'' PAY_PENDING 250000 25000 30000 300000 (map placed_item (o_items sample_order)))
    (sample_order\<lparr>o_placed := True\<rparr>))"
  using order_subtotal_exact [OF sample_order_ok] order_total_exact [OF sample_order_ok]
  by (simp add: order_place_def sample_order_def items_value_def order_gross_def max_safe_def)

theorem order_place_records_total_witness:
  "\<exists>ord'. order_place 9 sample_order = Inr ord' \<and> order_total ord' = Inr (vnd 300000)"
  using order_place_records_total [OF sample_order_ok sample_order_place] sample_order_place
  by (auto simp: sample_order_def items_value_def)

text \<open>A placed order is frozen: whatever methods are called on it afterwards, in any order, its lines,
  tax, shipping fee, discount and discount code stay as they were when it was placed.\<close>

theorem placed_order_frozen:
  assumes "order_ok ord" and "o_placed ord" and "\<forall>(t, op) \<in> set ops. op_ok op"
  shows "o_placed (order_run ord ops) \<and> o_items (order_run ord ops) = o_items ord
     \<and> o_tax (order_run ord ops) = o_tax ord \<and> o_shipping_fee (order_run ord ops) = o_shipping_fee ord
     \<and> o_discount_amount (order_run ord ops) = o_discount_amount ord
     \<and> o_discount_code (order_run ord ops) = o_discount_code ord"
  using ord_frozen.run_rel [of ord ops] assms by (simp add: frozen_rel_def order_run_def)

theorem placed_order_frozen_witness:
  "o_items (order_run (sample_order\<lparr>o_placed := True\<rparr>)
      [(9, RemoveItem ''p1''), (10, Confirm), (11, AddItem ''p9'' ''Pot'' (num_of_int 1) (vnd 10))])
     = o_items sample_order"
proof -
  have "order_ok (sample_order\<lparr>o_placed := True\<rparr>)"
    using sample_order_ok by (simp add: order_ok_def)
  then show ?thesis
    using placed_order_frozen [of "sample_order\<lparr>o_placed := True\<rparr>"
        "[(9, RemoveItem ''p1''), (10, Confirm), (11, AddItem ''p9'' ''Pot'' (num_of_int 1) (vnd 10))]"]
    by (simp add: op_ok_def max_safe_def)
qed

text \<open>C30: Over any run of methods the \<open>OrderStatusChanged\<close> events that are raised form an unbroken trail
  of allowed transitions from the status before to the status after, and events are only appended; in
  particular nothing leaves \<open>DELIVERED\<close> or \<open>CANCELLED\<close>.\<close>

theorem order_status_trail:
  assumes "order_ok ord" and "\<forall>(t, op) \<in> set ops. op_ok op"
  shows "(\<exists>evs. ar_events (order_run ord ops) = ar_events ord @ evs
            \<and> status_path (o_status ord) (status_moves evs) (o_status (order_run ord ops)))
     \<and> (o_status ord \<in> {DELIVERED, CANCELLED} \<longrightarrow> o_status (order_run ord ops) = o_status ord)"
proof -
  obtain evs where e: "ar_events (order_run ord ops) = ar_events ord @ evs"
      "status_path (o_status ord) (status_moves evs) (o_status (order_run ord ops))"
    using ord_trail.run_rel [of ord ops] assms by (auto simp: trail_rel_def order_run_def)
  moreover have "s \<in> {DELIVERED, CANCELLED} \<Longrightarrow> status_path s ms t \<Longrightarrow> t = s" for s ms t
    by (cases ms) (auto simp: can_transition_def allowed_transitions_def)
  ultimately show ?thesis by blast
qed

theorem order_status_trail_witness:
  "\<exists>evs. ar_events (order_run sample_order [(9, Place), (10, Confirm), (11, Cancel), (12, Ship)]) = evs
     \<and> status_path PENDING (status_moves evs)
         (o_status (order_run sample_order [(9, Place), (10, Confirm), (11, Cancel), (12, Ship)]))"
  using order_status_trail [OF sample_order_ok, of "[(9, Place), (10, Confirm), (11, Cancel), (12, Ship)]"]
  by (simp add: op_ok_def sample_order_def)

text \<open>Cancelling succeeds exactly from \<open>PENDING\<close> and \<open>PROCESSING\<close>, where it raises the status event
  and then the cancellation event; each other status gives its own error.\<close>

theorem order_cancel_outcomes:
  "order_cancel now ord = (case o_status ord of
      DELIVERED \<Rightarrow> Inl (DomainError (OrderNotCancellableError IS_DELIVERED))
    | CANCELLED \<Rightarrow> Inl (DomainError (OrderNotCancellableError ALREADY_CANCELLED))
    | SHIPPED \<Rightarrow> Inl (DomainError (InvalidOrderTransitionError ''SHIPPED'' ''CANCELLED''))
    | _ \<Rightarrow> Inr (ord\<lparr>o_status := CANCELLED, ar_events := ar_events ord @
             [order_status_changed_event now (ar_id ord) (o_status ord) CANCELLED (o_user_id ord),
              order_cancelled_event now (ar_id ord) (o_user_id ord)]\<rparr>))"
  by (cases ord; cases "o_status ord")
    (simp_all add: order_cancel_def transition_status_def can_transition_def allowed_transitions_def
      raise_def Let_def)

end
