(* ===== verification/Cart_Entity.thy ===== *)
theory Cart_Entity
  imports Order_Entity
begin

text \<open>
  The cart aggregate, \<^verbatim>\<open>modules/cart/domain/cart.entity.ts\<close>. The \<^verbatim>\<open>Map\<close> of items is the list of items
  in insertion order, keyed by product id.
\<close>

record cart_item =
  ci_product_id :: ident
  ci_product_name :: string
  ci_unit_price :: money
  ci_quantity :: int

definition cart_item_total :: "cart_item \<Rightarrow> error + money" where
  "cart_item_total i = money_multiply (ci_unit_price i) (num_of_int (ci_quantity i))"

definition cart_item_increase :: "js_num \<Rightarrow> cart_item \<Rightarrow> error + cart_item" where
  "cart_item_increase amount i =
     (if \<not> is_safe_integer amount \<or> \<not> js_less (Fin 0) amount
         \<or> \<not> is_safe_integer (js_add (num_of_int (ci_quantity i)) amount)
      then Inl (DomainError (InvalidCartQuantityError ''Amount must be a positive safe integer without overflow''))
      else Inr (i\<lparr>ci_quantity := int_of_num (js_add (num_of_int (ci_quantity i)) amount)\<rparr>))"

definition cart_item_decrease :: "js_num \<Rightarrow> cart_item \<Rightarrow> error + cart_item" where
  "cart_item_decrease amount i =
     (if \<not> is_safe_integer amount \<or> \<not> js_less (Fin 0) amount
      then Inl (DomainError (InvalidCartQuantityError ''Amount must be a positive safe integer''))
      else if js_less (js_sub (num_of_int (ci_quantity i)) amount) (Fin 0)
      then Inl (DomainError (InvalidCartQuantityError ''Quantity cannot be negative''))
      else Inr (i\<lparr>ci_quantity := int_of_num (js_sub (num_of_int (ci_quantity i)) amount)\<rparr>))"

record cart = aggregate_root +
  c_user_id :: ident
  c_items :: "cart_item list"

definition cart_create :: "ident \<Rightarrow> ident \<Rightarrow> cart" where
  "cart_create cid uid = \<lparr>ar_id = cid, ar_events = [], ar_version = 0, c_user_id = uid, c_items = []\<rparr>"

definition add_cart_item_total :: "money \<Rightarrow> cart_item \<Rightarrow> error + money" where
  "add_cart_item_total acc i = rbind (cart_item_total i) (\<lambda>t. money_add acc t)"

definition cart_total :: "cart \<Rightarrow> error + money" where
  "cart_total c = rbind (new_money (Fin 0)) (\<lambda>zero. rfold add_cart_item_total zero (c_items c))"

definition cart_item_count :: "cart \<Rightarrow> js_num" where
  "cart_item_count c = foldl (\<lambda>acc i. js_add acc (num_of_int (ci_quantity i))) (Fin 0) (c_items c)"

definition cart_remove_item :: "millis \<Rightarrow> ident \<Rightarrow> cart \<Rightarrow> cart" where
  "cart_remove_item now pid c =
     (if find_by ci_product_id pid (c_items c) = None then c
      else raise (cart_item_removed_event now (ar_id c) (c_user_id c) pid)
             (c\<lparr>c_items := delete_by ci_product_id pid (c_items c)\<rparr>))"

definition cart_add_item :: "millis \<Rightarrow> ident \<Rightarrow> string \<Rightarrow> money \<Rightarrow> js_num \<Rightarrow> cart \<Rightarrow> error + cart" where
  "cart_add_item now pid pname price quantity c =
     (if \<not> is_safe_integer quantity \<or> \<not> js_less (Fin 0) quantity
      then Inl (DomainError (InvalidCartQuantityError ''Quantity must be a positive safe integer''))
      else rbind (case find_by ci_product_id pid (c_items c) of
             Some existing \<Rightarrow> rbind (cart_item_increase quantity existing) (\<lambda>i'.
               Inr (c\<lparr>c_items := update_by ci_product_id pid (\<lambda>_. i') (c_items c)\<rparr>))
           | None \<Rightarrow> Inr (c\<lparr>c_items := c_items c @
               [\<lparr>ci_product_id = pid, ci_product_name = pname, ci_unit_price = price,
                 ci_quantity = int_of_num quantity\<rparr>]\<rparr>))
         (\<lambda>c'. Inr (raise (cart_item_added_event now (ar_id c) (c_user_id c) pid (int_of_num quantity)) c')))"

definition cart_update_item_quantity :: "millis \<Rightarrow> ident \<Rightarrow> js_num \<Rightarrow> cart \<Rightarrow> error + cart" where
  "cart_update_item_quantity now pid quantity c =
     (if \<not> is_safe_integer quantity \<or> js_less quantity (Fin 0)
      then Inl (DomainError (InvalidCartQuantityError ''Quantity must be a non-negative safe integer''))
      else case find_by ci_product_id pid (c_items c) of
        None \<Rightarrow> Inl (DomainError (CartItemNotFoundError pid))
      | Some existing \<Rightarrow>
          if quantity = Fin 0 then Inr (cart_remove_item now pid c)
          else let delta = int_of_num (js_sub quantity (num_of_int (ci_quantity existing)))
            in Inr (raise (cart_item_added_event now (ar_id c) (c_user_id c) pid delta)
                 (c\<lparr>c_items := update_by ci_product_id pid
                      (\<lambda>_. existing\<lparr>ci_quantity := int_of_num quantity\<rparr>) (c_items c)\<rparr>)))"

definition cart_clear :: "millis \<Rightarrow> cart \<Rightarrow> cart" where
  "cart_clear now c =
     (if c_items c = [] then c
      else raise (cart_cleared_event now (ar_id c) (c_user_id c)) (c\<lparr>c_items := []\<rparr>))"

text \<open>\<open>hydrate\<close> sets the entries one by one: a repeated product id replaces the earlier value in
  place, as \<^verbatim>\<open>Map.set\<close> does.\<close>

definition map_set :: "cart_item \<Rightarrow> cart_item list \<Rightarrow> cart_item list" where
  "map_set i is =
     (if find_by ci_product_id (ci_product_id i) is = None then is @ [i]
      else update_by ci_product_id (ci_product_id i) (\<lambda>_. i) is)"

definition cart_hydrate_item :: "cart \<Rightarrow> ident \<times> string \<times> js_num \<times> js_num \<Rightarrow> error + cart" where
  "cart_hydrate_item c it = (case it of (pid, pname, price, quantity) \<Rightarrow>
     if \<not> is_safe_integer quantity \<or> \<not> js_less (Fin 0) quantity
     then Inl (DomainError (InvalidCartQuantityError ''Persisted quantity must be a positive safe integer''))
     else rbind (new_money price) (\<lambda>m.
       Inr (c\<lparr>c_items := map_set \<lparr>ci_product_id = pid, ci_product_name = pname, ci_unit_price = m,
                                    ci_quantity = int_of_num quantity\<rparr> (c_items c)\<rparr>)))"

definition cart_hydrate :: "ident \<Rightarrow> ident \<Rightarrow> (ident \<times> string \<times> js_num \<times> js_num) list \<Rightarrow> error + cart" where
  "cart_hydrate cid uid items = rfold cart_hydrate_item (cart_create cid uid) items"

datatype cart_op =
    CartAdd ident string money js_num
  | CartUpdate ident js_num
  | CartRemove ident
  | CartClear

fun cart_step :: "millis \<Rightarrow> cart \<Rightarrow> cart_op \<Rightarrow> error + cart" where
  "cart_step now c (CartAdd pid pname m q) = cart_add_item now pid pname m q c"
| "cart_step now c (CartUpdate pid q) = cart_update_item_quantity now pid q c"
| "cart_step now c (CartRemove pid) = Inr (cart_remove_item now pid c)"
| "cart_step now c CartClear = Inr (cart_clear now c)"

definition cart_run :: "cart \<Rightarrow> (millis \<times> cart_op) list \<Rightarrow> cart" where
  "cart_run c ops = run_ops cart_step c ops"

subsection \<open>Well-formed carts\<close>

definition cart_item_ok :: "cart_item \<Rightarrow> bool" where
  "cart_item_ok i \<longleftrightarrow> 0 < ci_quantity i \<and> ci_quantity i \<le> max_safe \<and> vnd_ok (ci_unit_price i)"

definition cart_ok :: "cart \<Rightarrow> bool" where
  "cart_ok c \<longleftrightarrow> distinct (map ci_product_id (c_items c)) \<and> (\<forall>i \<in> set (c_items c). cart_item_ok i)"

definition cart_op_ok :: "cart_op \<Rightarrow> bool" where
  "cart_op_ok op = (case op of CartAdd _ _ m _ \<Rightarrow> vnd_ok m | _ \<Rightarrow> True)"

text \<open>What a cart promises: a map from product ids to quantities. \<open>cart_quantities\<close> is the
  abstraction and \<open>spec_step\<close> the operations on it.\<close>

definition cart_quantities :: "cart \<Rightarrow> ident \<Rightarrow> int option" where
  "cart_quantities c pid = map_option ci_quantity (find_by ci_product_id pid (c_items c))"

fun spec_step :: "(ident \<Rightarrow> int option) \<Rightarrow> cart_op \<Rightarrow> (ident \<Rightarrow> int option) option" where
  "spec_step m (CartAdd pid _ _ q) =
     (if is_safe_integer q \<and> 0 < int_of_num q
         \<and> (case m pid of None \<Rightarrow> True | Some k \<Rightarrow> k + int_of_num q \<le> max_safe)
      then Some (m(pid \<mapsto> (case m pid of None \<Rightarrow> 0 | Some k \<Rightarrow> k) + int_of_num q)) else None)"
| "spec_step m (CartUpdate pid q) =
     (if is_safe_integer q \<and> 0 \<le> int_of_num q \<and> m pid \<noteq> None
      then Some (if int_of_num q = 0 then m(pid := None) else m(pid \<mapsto> int_of_num q)) else None)"
| "spec_step m (CartRemove pid) = Some (m(pid := None))"
| "spec_step m CartClear = Some (\<lambda>_. None)"

lemma cart_simps [simp]:
  "c_items (raise ev c) = c_items c" "c_user_id (raise ev c) = c_user_id c"
  by (simp_all add: raise_def)

lemma cart_ok_raise [simp]: "cart_ok (raise ev c) = cart_ok c"
  by (simp add: cart_ok_def)

lemma find_by_update_const:
  "find_by key k xs = Some x \<Longrightarrow> key y = k \<Longrightarrow>
   find_by key j (update_by key k (\<lambda>_. y) xs) = (if j = k then Some y else find_by key j xs)"
  by (induction xs) (auto split: if_splits)

lemma find_by_delete_by:
  "distinct (map key xs) \<Longrightarrow>
   find_by key j (delete_by key k xs) = (if j = k then None else find_by key j xs)"
  by (induction xs) (auto simp: find_by_None_iff split: if_splits)

lemma update_const_ok:
  assumes "cart_ok c" and "find_by ci_product_id pid (c_items c) = Some x"
    and "ci_product_id y = pid" and "cart_item_ok y"
  shows "cart_ok (c\<lparr>c_items := update_by ci_product_id pid (\<lambda>_. y) (c_items c)\<rparr>)"
  using assms map_update_by_const [OF assms(2,3)]
  by (auto simp: cart_ok_def dest!: set_update_by)

lemma cart_found:
  "cart_ok c \<Longrightarrow> find_by ci_product_id pid (c_items c) = Some x \<Longrightarrow> cart_item_ok x \<and> ci_product_id x = pid"
  using find_by_SomeD by (fastforce simp: cart_ok_def)

lemma less_0_num [simp]: "js_less (Fin 0) (num_of_int n) \<longleftrightarrow> 0 < n" "js_less (num_of_int n) (Fin 0) \<longleftrightarrow> n < 0"
  by (simp_all add: num_of_int_def)

lemma num_eq_0 [simp]: "num_of_int n = Fin 0 \<longleftrightarrow> n = 0"
  by (simp add: num_of_int_def)

text \<open>Each operation refines its abstract step: it fails exactly when the step does, keeps the cart
  well formed and has the abstract effect.\<close>

definition refines :: "error + cart \<Rightarrow> (ident \<Rightarrow> int option) option \<Rightarrow> bool" where
  "refines r m \<longleftrightarrow> (case (r, m) of (Inl _, None) \<Rightarrow> True
     | (Inr c', Some m') \<Rightarrow> cart_ok c' \<and> cart_quantities c' = m' | _ \<Rightarrow> False)"

lemma cart_remove_refines:
  assumes ok: "cart_ok c"
  shows "cart_ok (cart_remove_item now pid c)
    \<and> cart_quantities (cart_remove_item now pid c) = (cart_quantities c)(pid := None)"
proof (cases "find_by ci_product_id pid (c_items c)")
  case None
  then show ?thesis
    using ok by (auto simp: cart_remove_item_def cart_quantities_def)
next
  case (Some x)
  then show ?thesis
    using ok distinct_delete_by subsetD [OF set_delete_by]
    by (fastforce simp: cart_remove_item_def cart_quantities_def cart_ok_def find_by_delete_by fun_eq_iff)
qed

lemma cart_add_refines:
  assumes ok: "cart_ok c" and m: "vnd_ok price"
  shows "refines (cart_add_item now pid pname price q c) (spec_step (cart_quantities c) (CartAdd pid pname price q))"
proof (cases "is_safe_integer q \<and> 0 < int_of_num q")
  case False
  then have "\<not> is_safe_integer q \<or> \<not> js_less (Fin 0) q"
    using num_of_int_of_num [of q] less_0_num(1) [of "int_of_num q"] by metis
  then show ?thesis
    using False by (auto simp: cart_add_item_def refines_def)
next
  case True
  then obtain n where q: "q = num_of_int n" "0 < n" "n \<le> max_safe"
    by (auto elim!: is_safe_integer_E simp: safe_int_def)
  have sn: "safe_int n" using q by (simp add: safe_int_def)
  show ?thesis
  proof (cases "find_by ci_product_id pid (c_items c)")
    case None
    then have "cart_ok (c\<lparr>c_items := c_items c @ [\<lparr>ci_product_id = pid, ci_product_name = pname,
        ci_unit_price = price, ci_quantity = n\<rparr>]\<rparr>)"
      using ok m q by (auto simp: cart_ok_def cart_item_ok_def find_by_None_iff)
    then show ?thesis
      using None q sn
      by (auto simp: cart_add_item_def refines_def cart_quantities_def find_by_append fun_eq_iff
          split: option.splits)
  next
    case (Some ex)
    have ex: "cart_item_ok ex" "ci_product_id ex = pid" using cart_found [OF ok Some] by auto
    let ?k = "ci_quantity ex"
    have b: "0 < ?k" "?k \<le> max_safe" using ex by (auto simp: cart_item_ok_def)
    note mq = merged_quantity [OF b q(2,3)]
    show ?thesis
    proof (cases "?k + n \<le> max_safe")
      case True
      then have "cart_ok (c\<lparr>c_items := update_by ci_product_id pid (\<lambda>_. ex\<lparr>ci_quantity := ?k + n\<rparr>) (c_items c)\<rparr>)"
        using ex b q by (intro update_const_ok [OF ok Some]) (auto simp: cart_item_ok_def)
      then show ?thesis
        using True Some q sn mq ex
        by (auto simp: cart_add_item_def cart_item_increase_def refines_def cart_quantities_def
            find_by_update_const [OF Some] fun_eq_iff)
    next
      case False
      then show ?thesis
        using Some q sn mq by (auto simp: cart_add_item_def cart_item_increase_def refines_def cart_quantities_def)
    qed
  qed
qed

lemma cart_update_refines:
  assumes ok: "cart_ok c"
  shows "refines (cart_update_item_quantity now pid q c) (spec_step (cart_quantities c) (CartUpdate pid q))"
proof (cases "is_safe_integer q \<and> 0 \<le> int_of_num q")
  case False
  then have "\<not> is_safe_integer q \<or> js_less q (Fin 0)"
    using num_of_int_of_num [of q] less_0_num(2) [of "int_of_num q"] by (metis not_le)
  then show ?thesis
    using False by (auto simp: cart_update_item_quantity_def refines_def)
next
  case True
  then obtain n where q: "q = num_of_int n" "0 \<le> n" "n \<le> max_safe"
    by (auto elim!: is_safe_integer_E simp: safe_int_def)
  have sn: "safe_int n" using q by (simp add: safe_int_def)
  show ?thesis
  proof (cases "find_by ci_product_id pid (c_items c)")
    case None
    then show ?thesis
      using q sn by (auto simp: cart_update_item_quantity_def refines_def cart_quantities_def)
  next
    case (Some ex)
    have ex: "cart_item_ok ex" "ci_product_id ex = pid" using cart_found [OF ok Some] by auto
    show ?thesis
    proof (cases "n = 0")
      case True
      then show ?thesis
        using q sn Some cart_remove_refines [OF ok, of now pid]
        by (auto simp: cart_update_item_quantity_def refines_def cart_quantities_def)
    next
      case False
      then have "cart_ok (c\<lparr>c_items := update_by ci_product_id pid (\<lambda>_. ex\<lparr>ci_quantity := n\<rparr>) (c_items c)\<rparr>)"
        using ex q by (intro update_const_ok [OF ok Some]) (auto simp: cart_item_ok_def)
      then show ?thesis
        using False Some q sn ex
        by (auto simp: cart_update_item_quantity_def refines_def cart_quantities_def Let_def
            find_by_update_const [OF Some] fun_eq_iff)
    qed
  qed
qed

lemma cart_step_refines:
  assumes "cart_ok c" and "cart_op_ok op"
  shows "refines (cart_step now c op) (spec_step (cart_quantities c) op)"
proof (cases op)
  case (CartAdd pid pname m q)
  then show ?thesis
    using assms cart_add_refines [of c m now pid pname q] by (simp add: cart_op_ok_def del: spec_step.simps)
next
  case (CartUpdate pid q)
  then show ?thesis using assms cart_update_refines by (simp del: spec_step.simps)
next
  case (CartRemove pid)
  then show ?thesis using assms cart_remove_refines by (simp add: refines_def)
next
  case CartClear
  then show ?thesis
    using assms by (auto simp: refines_def cart_clear_def cart_ok_def cart_quantities_def)
qed

interpretation cart_inv: op_machine cart_step cart_ok cart_op_ok
proof
  fix s op now s'
  assume "cart_ok s" "cart_op_ok op" "cart_step now s op = Inr s'"
  then show "cart_ok s'"
    using cart_step_refines [of s op now] by (auto simp: refines_def split: option.splits)
qed


subsection \<open>Properties\<close>

fun spec_run :: "(ident \<Rightarrow> int option) \<Rightarrow> (millis \<times> cart_op) list \<Rightarrow> ident \<Rightarrow> int option" where
  "spec_run m [] = m"
| "spec_run m ((t, op) # ops) = spec_run (case spec_step m op of None \<Rightarrow> m | Some m' \<Rightarrow> m') ops"

definition sample_cart :: cart where
  "sample_cart = (cart_create ''c1'' ''u1'')\<lparr>c_items :=
     [\<lparr>ci_product_id = ''p1'', ci_product_name = ''Tea'', ci_unit_price = vnd 100000, ci_quantity = 2\<rparr>]\<rparr>"

lemma sample_cart_ok: "cart_ok sample_cart"
  by (simp add: sample_cart_def cart_create_def cart_ok_def cart_item_ok_def max_safe_def)

text \<open>The cart implements a finite map from product ids to quantities: after any sequence of calls,
  some of which throw, its contents are those of the map under the abstract operations, and it is still
  well formed (one line per product, positive safe quantities).\<close>

theorem cart_run_refines_map:
  assumes "cart_ok c" and "\<forall>(t, op) \<in> set ops. cart_op_ok op"
  shows "cart_quantities (cart_run c ops) = spec_run (cart_quantities c) ops \<and> cart_ok (cart_run c ops)"
proof -
  have "cart_quantities (run_ops cart_step c ops) = spec_run (cart_quantities c) ops"
    using assms
  proof (induction ops arbitrary: c)
    case (Cons top ops)
    obtain t op where top: "top = (t, op)" by (cases top)
    then have "refines (cart_step t c op) (spec_step (cart_quantities c) op)"
      using Cons.prems cart_step_refines by auto
    then show ?case
      using Cons top by (auto simp: refines_def split: sum.splits option.splits)
  qed simp
  then show ?thesis
    using cart_inv.run_inv [of c ops] assms by (simp add: cart_run_def)
qed

theorem cart_run_refines_map_witness:
  "cart_quantities (cart_run sample_cart
      [(1, CartAdd ''p1'' ''Tea'' (vnd 9) (num_of_int 3)), (2, CartUpdate ''p1'' (num_of_int (- 1))),
       (3, CartUpdate ''p1'' (num_of_int 4))]) ''p1'' = Some 4"
proof -
  let ?ops = "[(1, CartAdd ''p1'' ''Tea'' (vnd 9) (num_of_int 3)), (2, CartUpdate ''p1'' (num_of_int (- 1))),
       (3, CartUpdate ''p1'' (num_of_int 4))] :: (millis \<times> cart_op) list"
  have "cart_quantities sample_cart ''p1'' = Some 2"
    by (simp add: cart_quantities_def sample_cart_def cart_create_def)
  then have "spec_run (cart_quantities sample_cart) ?ops ''p1'' = Some 4"
    by (simp add: safe_int_def max_safe_def)
  moreover have "\<forall>(t, op) \<in> set ?ops. cart_op_ok op"
    by (simp add: cart_op_ok_def max_safe_def)
  ultimately show ?thesis
    using cart_run_refines_map [OF sample_cart_ok, of ?ops] by metis
qed

text \<open>Setting a line to another positive quantity raises \<open>CartItemAdded\<close> with the difference as its
  quantity: the event of a line that shrinks carries a negative number of added items.\<close>

theorem cart_update_event_is_delta:
  assumes "cart_ok c" and "find_by ci_product_id pid (c_items c) = Some ex" and "0 < n" and "n \<le> max_safe"
  shows "\<exists>c'. cart_update_item_quantity now pid (num_of_int n) c = Inr c'
     \<and> ar_events c' = ar_events c @ [cart_item_added_event now (ar_id c) (c_user_id c) pid (n - ci_quantity ex)]"
proof -
  have "cart_item_ok ex" using cart_found [OF assms(1,2)] by simp
  then have "js_sub (num_of_int n) (num_of_int (ci_quantity ex)) = num_of_int (n - ci_quantity ex)"
    using assms by (intro js_sub_int) (auto simp: cart_item_ok_def max_safe_def)
  then show ?thesis
    using assms by (simp add: cart_update_item_quantity_def safe_int_def Let_def)
qed

theorem cart_update_event_is_delta_witness:
  "\<exists>c'. cart_update_item_quantity 5 ''p1'' (num_of_int 1) sample_cart = Inr c'
     \<and> ar_events c' = [cart_item_added_event 5 ''c1'' ''u1'' ''p1'' (- 1)]"
  using cart_update_event_is_delta [OF sample_cart_ok, of "''p1''" _ 1 5]
  by (simp add: sample_cart_def cart_create_def max_safe_def)

end
