(* ===== verification/Product_Entity.thy ===== *)
theory Product_Entity
  imports Cart_Entity
begin

text \<open>
  The product aggregate, \<^verbatim>\<open>modules/products/domain/product.entity.ts\<close>, and the search filters of
  \<^verbatim>\<open>product-specification.ts\<close>.
\<close>

record product = aggregate_root +
  p_name :: string
  p_description :: "string option"
  p_price :: money
  p_stock :: int
  p_category :: string
  p_images :: "string list"
  p_slug :: string
  p_is_active :: bool

definition product_mark_updated :: "millis \<Rightarrow> product \<Rightarrow> product" where
  "product_mark_updated now p = raise (product_updated_event now (ar_id p)) p"

definition product_mark_created :: "millis \<Rightarrow> product \<Rightarrow> product" where
  "product_mark_created now p = raise (product_created_event now (ar_id p)) p"

definition product_change_price :: "millis \<Rightarrow> money \<Rightarrow> product \<Rightarrow> error + product" where
  "product_change_price now new p =
     (if m_amount new < 0 then Inl (DomainError (InvalidPriceError ''Price cannot be negative''))
      else if m_amount new = m_amount (p_price p) then Inr p
      else Inr (raise (product_price_changed_event now (ar_id p) (m_amount (p_price p)) (m_amount new))
                  (p\<lparr>p_price := new\<rparr>)))"

definition product_reduce_stock :: "millis \<Rightarrow> js_num \<Rightarrow> product \<Rightarrow> error + product" where
  "product_reduce_stock now quantity p =
     (if \<not> is_safe_integer quantity \<or> \<not> js_less (Fin 0) quantity
      then Inl (DomainError (InvalidStockQuantityError ''Quantity must be a positive safe integer''))
      else if js_less (num_of_int (p_stock p)) quantity
      then Inl (DomainError (InsufficientStockError (p_stock p) (int_of_num quantity)))
      else let stock = int_of_num (js_sub (num_of_int (p_stock p)) quantity);
               p' = p\<lparr>p_stock := stock\<rparr>
        in Inr (if stock = 0 then raise (product_stock_depleted_event now (ar_id p) (p_name p)) p' else p'))"

definition product_increase_stock :: "millis \<Rightarrow> js_num \<Rightarrow> product \<Rightarrow> error + product" where
  "product_increase_stock now quantity p =
     (if \<not> is_safe_integer quantity \<or> \<not> js_less (Fin 0) quantity
      then Inl (DomainError (InvalidStockQuantityError ''Quantity must be a positive safe integer''))
      else let stock = js_add (num_of_int (p_stock p)) quantity in
        if \<not> is_safe_integer stock
        then Inl (DomainError (InvalidStockQuantityError ''Resulting stock must be a safe integer''))
        else Inr (raise (product_restocked_event now (ar_id p) (int_of_num quantity) (int_of_num stock))
                    (p\<lparr>p_stock := int_of_num stock\<rparr>)))"

definition product_activate :: "millis \<Rightarrow> product \<Rightarrow> error + product" where
  "product_activate now p =
     (if p_is_active p then Inl (DomainError ProductAlreadyActiveError)
      else Inr (raise (product_activated_event now (ar_id p)) (p\<lparr>p_is_active := True\<rparr>)))"

definition product_deactivate :: "millis \<Rightarrow> product \<Rightarrow> error + product" where
  "product_deactivate now p =
     (if \<not> p_is_active p then Inl (DomainError ProductAlreadyInactiveError)
      else Inr (raise (product_deactivated_event now (ar_id p)) (p\<lparr>p_is_active := False\<rparr>)))"

record product_data =
  pd_id :: ident
  pd_name :: string
  pd_description :: "string option"
  pd_price :: js_num
  pd_stock :: js_num
  pd_category :: string
  pd_images :: "string list"
  pd_slug :: string
  pd_is_active :: bool
  pd_version :: "int option"

definition product_hydrate :: "product_data \<Rightarrow> error + product" where
  "product_hydrate d =
     (if \<not> is_safe_integer (pd_stock d) \<or> js_less (pd_stock d) (Fin 0)
      then Inl (DomainError (InvalidStockQuantityError ''Stock must be a non-negative safe integer''))
      else rbind (new_money (pd_price d)) (\<lambda>price.
        let p = \<lparr>ar_id = pd_id d, ar_events = [], ar_version = 0, p_name = pd_name d,
                  p_description = pd_description d, p_price = price, p_stock = int_of_num (pd_stock d),
                  p_category = pd_category d, p_images = pd_images d, p_slug = pd_slug d,
                  p_is_active = pd_is_active d\<rparr>
        in Inr (case pd_version d of None \<Rightarrow> p | Some v \<Rightarrow> set_version_from_persistence v p)))"

datatype product_op =
    ChangePrice money
  | ReduceStock js_num
  | IncreaseStock js_num
  | Activate
  | Deactivate
  | MarkUpdated
  | MarkCreated

fun product_step :: "millis \<Rightarrow> product \<Rightarrow> product_op \<Rightarrow> error + product" where
  "product_step now p (ChangePrice m) = product_change_price now m p"
| "product_step now p (ReduceStock q) = product_reduce_stock now q p"
| "product_step now p (IncreaseStock q) = product_increase_stock now q p"
| "product_step now p Activate = product_activate now p"
| "product_step now p Deactivate = product_deactivate now p"
| "product_step now p MarkUpdated = Inr (product_mark_updated now p)"
| "product_step now p MarkCreated = Inr (product_mark_created now p)"

definition product_run :: "product \<Rightarrow> (millis \<times> product_op) list \<Rightarrow> product" where
  "product_run p ops = run_ops product_step p ops"

subsection \<open>Well-formed products\<close>

definition product_ok :: "product \<Rightarrow> bool" where
  "product_ok p \<longleftrightarrow> 0 \<le> p_stock p \<and> p_stock p \<le> max_safe \<and> vnd_ok (p_price p)"

definition product_op_ok :: "product_op \<Rightarrow> bool" where
  "product_op_ok op = (case op of ChangePrice m \<Rightarrow> vnd_ok m | _ \<Rightarrow> True)"

lemma prod_simps [simp]:
  "p_stock (raise ev p) = p_stock p" "p_price (raise ev p) = p_price p"
  "p_is_active (raise ev p) = p_is_active p" "p_name (raise ev p) = p_name p"
  "p_category (raise ev p) = p_category p" "p_slug (raise ev p) = p_slug p"
  "p_images (raise ev p) = p_images p" "p_description (raise ev p) = p_description p"
  by (simp_all add: raise_def)

lemma product_ok_raise [simp]: "product_ok (raise ev p) = product_ok p"
  by (simp add: product_ok_def)

lemma product_hydrate_ok: "product_hydrate d = Inr p \<Longrightarrow> product_ok p \<and> ar_events p = []"
  using vnd_ok_new_money
  by (auto simp: product_hydrate_def rbind_Inr_iff Let_def product_ok_def safe_int_def
      set_version_from_persistence_def split: if_splits
      option.splits elim!: is_safe_integer_E)

text \<open>Reducing stock in one equation: it fails on a quantity that is not a positive safe integer and
  on one above the stock, and otherwise takes exactly the quantity.\<close>

lemma reduce_stock_exact:
  assumes "product_ok p" and "0 < n" and "n \<le> max_safe"
  shows "product_reduce_stock now (num_of_int n) p =
    (if p_stock p < n then Inl (DomainError (InsufficientStockError (p_stock p) n))
     else Inr (if p_stock p = n
               then raise (product_stock_depleted_event now (ar_id p) (p_name p)) (p\<lparr>p_stock := 0\<rparr>)
               else p\<lparr>p_stock := p_stock p - n\<rparr>))"
proof -
  have "js_sub (num_of_int (p_stock p)) (num_of_int n) = num_of_int (p_stock p - n)"
    using assms by (intro js_sub_int) (auto simp: product_ok_def max_safe_def)
  then show ?thesis
    using assms by (auto simp: product_reduce_stock_def safe_int_def Let_def)
qed

lemma increase_stock_exact:
  assumes "product_ok p" and "0 < n" and "n \<le> max_safe"
  shows "product_increase_stock now (num_of_int n) p =
    (if p_stock p + n \<le> max_safe
     then Inr (raise (product_restocked_event now (ar_id p) n (p_stock p + n)) (p\<lparr>p_stock := p_stock p + n\<rparr>))
     else Inl (DomainError (InvalidStockQuantityError ''Resulting stock must be a safe integer'')))"
proof (cases "p_stock p = 0")
  case True
  then show ?thesis
    using assms js_add_int [of 0 n] by (auto simp: product_increase_stock_def safe_int_def max_safe_def Let_def)
next
  case False
  then have "0 < p_stock p" "p_stock p \<le> max_safe" using assms(1) by (auto simp: product_ok_def)
  then show ?thesis
    using merged_quantity [of "p_stock p" n] assms
    by (auto simp: product_increase_stock_def safe_int_def Let_def)
qed

lemma product_step_ok:
  assumes ok: "product_ok p" "product_op_ok op" and step: "product_step now p op = Inr p'"
  shows "product_ok p'"
proof (cases op)
  case (ReduceStock q)
  then have "is_safe_integer q" "js_less (Fin 0) q"
    using step by (auto simp: product_reduce_stock_def split: if_splits)
  then obtain n where "q = num_of_int n" "0 < n" "n \<le> max_safe" by (rule quantity_E)
  then show ?thesis
    using ok step ReduceStock reduce_stock_exact [OF ok(1), of n now]
    by (auto simp: product_ok_def max_safe_def split: if_splits)
next
  case (IncreaseStock q)
  then have "is_safe_integer q" "js_less (Fin 0) q"
    using step by (auto simp: product_increase_stock_def split: if_splits)
  then obtain n where "q = num_of_int n" "0 < n" "n \<le> max_safe" by (rule quantity_E)
  then show ?thesis
    using ok step IncreaseStock increase_stock_exact [OF ok(1), of n now]
    by (auto simp: product_ok_def split: if_splits)
qed (use ok step in \<open>auto simp: product_change_price_def product_activate_def product_deactivate_def
      product_mark_updated_def product_mark_created_def product_ok_def product_op_ok_def split: if_splits\<close>)

interpretation product_inv: op_machine product_step product_ok product_op_ok
  by unfold_locales (use product_step_ok in blast)

subsection \<open>Search filters\<close>

text \<open>\<open>ProductFilter\<close>: the keyword alternatives are always a name and a description clause.\<close>

datatype text_clause = NameContains string | DescriptionContains string

datatype product_filter = ProductFilter
  (pf_and: "product_filter list option") (pf_or: "text_clause list option")
  (pf_is_active: "bool option") (pf_category: "string option")
  (pf_price: "(js_num option \<times> js_num option) option")

definition empty_filter :: product_filter where
  "empty_filter = ProductFilter None None None None None"

datatype product_spec =
    NoopSpecification
  | AndSpecification product_spec product_spec
  | ActiveProductSpecification bool
  | CategorySpecification string
  | PriceRangeSpecification "js_num option" "js_num option"
  | KeywordSpecification string

fun to_filter :: "product_spec \<Rightarrow> product_filter" where
  "to_filter NoopSpecification = empty_filter"
| "to_filter (AndSpecification l r) = ProductFilter (Some [to_filter l, to_filter r]) None None None None"
| "to_filter (ActiveProductSpecification b) = ProductFilter None None (Some b) None None"
| "to_filter (CategorySpecification c) = ProductFilter None None None (Some c) None"
| "to_filter (PriceRangeSpecification lo hi) =
     (if lo = None \<and> hi = None then empty_filter else ProductFilter None None None None (Some (lo, hi)))"
| "to_filter (KeywordSpecification k) =
     ProductFilter None (Some [NameContains k, DescriptionContains k]) None None None"

definition active_only :: "bool \<Rightarrow> product_spec \<Rightarrow> product_spec" where
  "active_only b s = AndSpecification s (ActiveProductSpecification b)"

definition with_is_active :: "bool option \<Rightarrow> product_spec \<Rightarrow> product_spec" where
  "with_is_active b s = (case b of None \<Rightarrow> s | Some b \<Rightarrow> AndSpecification s (ActiveProductSpecification b))"

definition with_category :: "string option \<Rightarrow> product_spec \<Rightarrow> product_spec" where
  "with_category c s = (case c of Some (x # xs) \<Rightarrow> AndSpecification s (CategorySpecification (x # xs)) | _ \<Rightarrow> s)"

definition with_price_range :: "js_num option \<Rightarrow> js_num option \<Rightarrow> product_spec \<Rightarrow> product_spec" where
  "with_price_range lo hi s =
     (if lo \<noteq> None \<or> hi \<noteq> None then AndSpecification s (PriceRangeSpecification lo hi) else s)"

definition with_keyword :: "string option \<Rightarrow> product_spec \<Rightarrow> product_spec" where
  "with_keyword k s = (case k of Some (x # xs) \<Rightarrow> AndSpecification s (KeywordSpecification (x # xs)) | _ \<Rightarrow> s)"

text \<open>What a filter selects, as the database evaluates it: every field that is present must hold, and
  a present list of alternatives must have one that holds.\<close>

fun clause_matches :: "text_clause \<Rightarrow> product \<Rightarrow> bool" where
  "clause_matches (NameContains k) p = is_infix (to_lower k) (to_lower (p_name p))"
| "clause_matches (DescriptionContains k) p =
     (case p_description p of None \<Rightarrow> False | Some d \<Rightarrow> is_infix (to_lower k) (to_lower d))"

definition price_in :: "js_num option \<Rightarrow> js_num option \<Rightarrow> product \<Rightarrow> bool" where
  "price_in lo hi p \<longleftrightarrow> (case lo of None \<Rightarrow> True | Some l \<Rightarrow> \<not> js_less (money_value (p_price p)) l)
     \<and> (case hi of None \<Rightarrow> True | Some h \<Rightarrow> \<not> js_less h (money_value (p_price p)))"

fun filter_matches :: "product_filter \<Rightarrow> product \<Rightarrow> bool" where
  "filter_matches (ProductFilter conjs alts act cat price) p \<longleftrightarrow>
     (case conjs of None \<Rightarrow> True | Some fs \<Rightarrow> (\<forall>f \<in> set fs. filter_matches f p))
     \<and> (case alts of None \<Rightarrow> True | Some cs \<Rightarrow> list_ex (\<lambda>c. clause_matches c p) cs)
     \<and> (case act of None \<Rightarrow> True | Some b \<Rightarrow> p_is_active p = b)
     \<and> (case cat of None \<Rightarrow> True | Some c \<Rightarrow> p_category p = c)
     \<and> (case price of None \<Rightarrow> True | Some (lo, hi) \<Rightarrow> price_in lo hi p)"

text \<open>What a specification means.\<close>

fun satisfies :: "product_spec \<Rightarrow> product \<Rightarrow> bool" where
  "satisfies NoopSpecification p = True"
| "satisfies (AndSpecification l r) p = (satisfies l p \<and> satisfies r p)"
| "satisfies (ActiveProductSpecification b) p = (p_is_active p = b)"
| "satisfies (CategorySpecification c) p = (p_category p = c)"
| "satisfies (PriceRangeSpecification lo hi) p = price_in lo hi p"
| "satisfies (KeywordSpecification k) p = (clause_matches (NameContains k) p \<or> clause_matches (DescriptionContains k) p)"

lemma to_filter_sound: "filter_matches (to_filter s) p = satisfies s p"
  by (induction s) (auto simp: empty_filter_def price_in_def)

subsection \<open>Properties\<close>

definition sample_product :: product where
  "sample_product = \<lparr>ar_id = ''p1'', ar_events = [], ar_version = 3, p_name = ''Tea'', p_description = None,
     p_price = vnd 100000, p_stock = 5, p_category = ''drinks'', p_images = [], p_slug = ''tea'',
     p_is_active = True\<rparr>"

lemma sample_product_ok: "product_ok sample_product"
  by (simp add: sample_product_def product_ok_def max_safe_def)

text \<open>The signed quantity by which a call moves the stock, and the sum over a run.\<close>

definition stock_delta :: "millis \<Rightarrow> product \<Rightarrow> product_op \<Rightarrow> int" where
  "stock_delta now p op = (if \<not> ok (product_step now p op) then 0
     else (case op of ReduceStock q \<Rightarrow> - int_of_num q | IncreaseStock q \<Rightarrow> int_of_num q | _ \<Rightarrow> 0))"

fun stock_ledger :: "product \<Rightarrow> (millis \<times> product_op) list \<Rightarrow> int" where
  "stock_ledger p [] = 0"
| "stock_ledger p ((now, op) # ops) =
     stock_delta now p op + stock_ledger (case product_step now p op of Inl _ \<Rightarrow> p | Inr p' \<Rightarrow> p') ops"

lemma product_step_stock:
  assumes ok: "product_ok p" and step: "product_step now p op = Inr p'"
  shows "p_stock p' = p_stock p + stock_delta now p op"
proof (cases op)
  case (ReduceStock q)
  then have "is_safe_integer q" "js_less (Fin 0) q"
    using step by (auto simp: product_reduce_stock_def split: if_splits)
  then obtain n where "q = num_of_int n" "0 < n" "n \<le> max_safe" by (rule quantity_E)
  then show ?thesis
    using step ReduceStock reduce_stock_exact [OF ok, of n now]
    by (auto simp: stock_delta_def split: if_splits)
next
  case (IncreaseStock q)
  then have "is_safe_integer q" "js_less (Fin 0) q"
    using step by (auto simp: product_increase_stock_def split: if_splits)
  then obtain n where "q = num_of_int n" "0 < n" "n \<le> max_safe" by (rule quantity_E)
  then show ?thesis
    using step IncreaseStock increase_stock_exact [OF ok, of n now]
    by (auto simp: stock_delta_def split: if_splits)
qed (use step in \<open>auto simp: product_change_price_def product_activate_def product_deactivate_def
      product_mark_updated_def product_mark_created_def stock_delta_def split: if_splits\<close>)

text \<open>The stock ledger of a product balances: over any run of methods, some of which throw, the stock
  stays a non-negative safe integer and moves by exactly the quantities of the calls that succeeded.\<close>

theorem product_stock_ledger:
  assumes "product_ok p" and "\<forall>(t, op) \<in> set ops. product_op_ok op"
  shows "p_stock (product_run p ops) = p_stock p + stock_ledger p ops
     \<and> 0 \<le> p_stock (product_run p ops) \<and> p_stock (product_run p ops) \<le> max_safe"
proof -
  have "p_stock (run_ops product_step p ops) = p_stock p + stock_ledger p ops"
    using assms
  proof (induction ops arbitrary: p)
    case (Cons top ops)
    obtain t op where top: "top = (t, op)" by (cases top)
    show ?case
    proof (cases "product_step t p op")
      case (Inl e)
      then show ?thesis using Cons top by (simp add: stock_delta_def)
    next
      case (Inr p')
      then have "product_ok p'" "p_stock p' = p_stock p + stock_delta t p op"
        using Cons.prems top product_step_ok product_step_stock by auto
      then show ?thesis using Cons top Inr by simp
    qed
  qed simp
  moreover have "product_ok (run_ops product_step p ops)"
    using product_inv.run_inv [of p ops] assms by simp
  ultimately show ?thesis by (simp add: product_run_def product_ok_def)
qed

theorem product_stock_ledger_witness:
  "p_stock (product_run sample_product
     [(1, ReduceStock (num_of_int 3)), (2, ReduceStock (num_of_int 4)), (3, IncreaseStock (num_of_int 6))]) = 8"
proof -
  let ?ops = "[(1, ReduceStock (num_of_int 3)), (2, ReduceStock (num_of_int 4)), (3, IncreaseStock (num_of_int 6))]
    :: (millis \<times> product_op) list"
  have 1: "product_step 1 sample_product (ReduceStock (num_of_int 3)) = Inr (sample_product\<lparr>p_stock := 2\<rparr>)"
    using reduce_stock_exact [OF sample_product_ok, of 3 1] by (simp add: sample_product_def max_safe_def)
  have ok2: "product_ok (sample_product\<lparr>p_stock := 2\<rparr>)"
    using sample_product_ok by (simp add: product_ok_def max_safe_def)
  have 2: "product_step 2 (sample_product\<lparr>p_stock := 2\<rparr>) (ReduceStock (num_of_int 4))
      = Inl (DomainError (InsufficientStockError 2 4))"
    using reduce_stock_exact [OF ok2, of 4 2] by (simp add: max_safe_def)
  have 3: "ok (product_step 3 (sample_product\<lparr>p_stock := 2\<rparr>) (IncreaseStock (num_of_int 6)))"
    using increase_stock_exact [OF ok2, of 6 3] by (simp add: max_safe_def)
  have "stock_ledger sample_product ?ops = 3"
    using 1 2 3 by (simp add: stock_delta_def)
  moreover have "p_stock sample_product = 5" by (simp add: sample_product_def)
  moreover have "\<forall>(t, op) \<in> set ?ops. product_op_ok op" by (simp add: product_op_ok_def)
  ultimately show ?thesis
    using product_stock_ledger [OF sample_product_ok, of ?ops] by simp
qed

text \<open>The filter object that the builder sends to the database selects exactly the products that
  satisfy every criterion the caller gave: activity, category, price bounds and keyword, with an absent or
  empty criterion imposing nothing.\<close>

theorem builder_filter_selects:
  "filter_matches (to_filter (with_keyword k (with_price_range lo hi (with_category c (with_is_active a
      NoopSpecification))))) p
   \<longleftrightarrow> (a = None \<or> a = Some (p_is_active p)) \<and> (c = None \<or> c = Some [] \<or> c = Some (p_category p))
     \<and> price_in lo hi p
     \<and> (k = None \<or> k = Some [] \<or> (\<exists>w. k = Some w \<and> (is_infix (to_lower w) (to_lower (p_name p))
          \<or> (\<exists>d. p_description p = Some d \<and> is_infix (to_lower w) (to_lower d)))))"
  unfolding to_filter_sound
  by (auto simp: with_keyword_def with_price_range_def with_category_def with_is_active_def price_in_def
      split: option.splits list.splits)

end
