(* ===== verification/User_Entity.thy ===== *)
theory User_Entity
  imports Product_Entity
begin

text \<open>
  The user aggregate, \<^verbatim>\<open>modules/users/domain/user.entity.ts\<close>, with the life of two-factor
  authentication as its state machine.
\<close>

datatype role = USER | ADMIN

fun role_name :: "role \<Rightarrow> string" where
  "role_name USER = ''USER''"
| "role_name ADMIN = ''ADMIN''"

definition MIN_PASSWORD_LENGTH :: nat where
  "MIN_PASSWORD_LENGTH = 6"

record user = aggregate_root +
  u_email :: string
  u_first_name :: string
  u_last_name :: string
  u_password :: "string option"
  u_role :: role
  u_is_verified :: bool
  u_is_2fa_enabled :: bool
  u_totp_secret :: "string option"
  u_phone :: "string option"
  u_created_at :: millis
  u_updated_at :: millis

definition user_full_name :: "user \<Rightarrow> string" where
  "user_full_name u = trim (u_first_name u @ '' '' @ u_last_name u)"

definition assert_password_policy :: "string \<Rightarrow> error + unit" where
  "assert_password_policy plain =
     (if length plain < MIN_PASSWORD_LENGTH
      then Inl (DomainError (WeakPasswordError (int MIN_PASSWORD_LENGTH))) else Inr ())"

definition set_hashed_password :: "string \<Rightarrow> user \<Rightarrow> user" where
  "set_hashed_password hashed u = u\<lparr>u_password := Some hashed\<rparr>"

definition user_verify :: "millis \<Rightarrow> user \<Rightarrow> error + user" where
  "user_verify now u =
     (if u_is_verified u then Inl (DomainError UserAlreadyVerifiedError)
      else Inr (raise (user_email_verified_event now (ar_id u)) (u\<lparr>u_is_verified := True\<rparr>)))"

definition start_enabling_2fa :: "string \<Rightarrow> user \<Rightarrow> error + user" where
  "start_enabling_2fa secret u =
     (if u_is_2fa_enabled u then Inl (DomainError TwoFactorAlreadyEnabledError)
      else Inr (u\<lparr>u_totp_secret := Some secret\<rparr>))"

text \<open>\<open>truthy\<close> is JavaScript's test of a nullable string: null and the empty string are falsy.\<close>

definition truthy :: "string option \<Rightarrow> bool" where
  "truthy s \<longleftrightarrow> s \<noteq> None \<and> s \<noteq> Some []"

definition confirm_2fa :: "millis \<Rightarrow> user \<Rightarrow> error + user" where
  "confirm_2fa now u =
     (if \<not> truthy (u_totp_secret u) then Inl (DomainError TwoFactorNotSetUpError)
      else if u_is_2fa_enabled u then Inl (DomainError TwoFactorAlreadyEnabledError)
      else Inr (raise (user_two_factor_enabled_event now (ar_id u)) (u\<lparr>u_is_2fa_enabled := True\<rparr>)))"

definition disable_2fa :: "millis \<Rightarrow> user \<Rightarrow> error + user" where
  "disable_2fa now u =
     (if \<not> u_is_2fa_enabled u then Inl (DomainError TwoFactorNotEnabledError)
      else Inr (raise (user_two_factor_disabled_event now (ar_id u))
                  (u\<lparr>u_is_2fa_enabled := False, u_totp_secret := None\<rparr>)))"

definition user_update_profile ::
    "string option \<Rightarrow> string option \<Rightarrow> string option \<Rightarrow> user \<Rightarrow> error + user" where
  "user_update_profile fname lname phone u =
     (let u1 = (if truthy fname then u\<lparr>u_first_name := the fname\<rparr> else u);
          u2 = (if truthy lname then u1\<lparr>u_last_name := the lname\<rparr> else u1)
      in case phone of
           None \<Rightarrow> Inr u2
         | Some ph \<Rightarrow> rbind (new_phone_number ph) (\<lambda>n. Inr (u2\<lparr>u_phone := Some n\<rparr>)))"

record user_data =
  ud_id :: ident
  ud_email :: string
  ud_first_name :: string
  ud_last_name :: string
  ud_password :: "string option"
  ud_role :: role
  ud_is_verified :: bool
  ud_is_2fa_enabled :: bool
  ud_totp_secret :: "string option"
  ud_phone :: "string option"
  ud_created_at :: millis
  ud_updated_at :: millis

definition user_hydrate :: "user_data \<Rightarrow> error + user" where
  "user_hydrate d =
     rbind (new_email (ud_email d)) (\<lambda>email.
     rbind (if truthy (ud_phone d) then rbind (new_phone_number (the (ud_phone d))) (\<lambda>n. Inr (Some n))
            else Inr None) (\<lambda>phone.
     Inr \<lparr>ar_id = ud_id d, ar_events = [], ar_version = 0, u_email = email,
          u_first_name = ud_first_name d, u_last_name = ud_last_name d, u_password = ud_password d,
          u_role = ud_role d, u_is_verified = ud_is_verified d, u_is_2fa_enabled = ud_is_2fa_enabled d,
          u_totp_secret = ud_totp_secret d, u_phone = phone,
          u_created_at = ud_created_at d, u_updated_at = ud_updated_at d\<rparr>))"

definition user_registered :: "millis \<Rightarrow> user_data \<Rightarrow> error + user" where
  "user_registered now d =
     rbind (user_hydrate d) (\<lambda>u. Inr (raise (user_registered_event now (ar_id u) (u_email u)) u))"

datatype user_op =
    Verify
  | StartEnabling2FA string
  | Confirm2FA
  | Disable2FA
  | UpdateProfile "string option" "string option" "string option"
  | SetHashedPassword string

fun user_step :: "millis \<Rightarrow> user \<Rightarrow> user_op \<Rightarrow> error + user" where
  "user_step now u Verify = user_verify now u"
| "user_step now u (StartEnabling2FA s) = start_enabling_2fa s u"
| "user_step now u Confirm2FA = confirm_2fa now u"
| "user_step now u Disable2FA = disable_2fa now u"
| "user_step now u (UpdateProfile f l p) = user_update_profile f l p u"
| "user_step now u (SetHashedPassword h) = Inr (set_hashed_password h u)"

definition user_run :: "user \<Rightarrow> (millis \<times> user_op) list \<Rightarrow> user" where
  "user_run u ops = run_ops user_step u ops"

text \<open>Two-factor authentication that is on has a secret, and the stored email is normalised.\<close>

definition user_ok :: "user \<Rightarrow> bool" where
  "user_ok u \<longleftrightarrow> (u_is_2fa_enabled u \<longrightarrow> truthy (u_totp_secret u)) \<and> new_email (u_email u) = Inr (u_email u)"

text \<open>Events on the two-factor state alternate: \<open>toggles\<close> replays them.\<close>

fun toggles :: "bool \<Rightarrow> domain_event list \<Rightarrow> bool option" where
  "toggles b [] = Some b"
| "toggles b (ev # evs) =
     (if ev_name ev = ''UserTwoFactorEnabled'' then (if b then None else toggles True evs)
      else if ev_name ev = ''UserTwoFactorDisabled'' then (if b then toggles False evs else None)
      else toggles b evs)"

definition toggle_rel :: "user \<Rightarrow> user \<Rightarrow> bool" where
  "toggle_rel a b \<longleftrightarrow> (\<exists>evs. ar_events b = ar_events a @ evs
     \<and> toggles (u_is_2fa_enabled a) evs = Some (u_is_2fa_enabled b))
     \<and> (u_is_verified a \<longrightarrow> u_is_verified b) \<and> u_email b = u_email a \<and> u_role b = u_role a"

lemma user_simps [simp]:
  "u_is_2fa_enabled (raise ev u) = u_is_2fa_enabled u" "u_totp_secret (raise ev u) = u_totp_secret u"
  "u_email (raise ev u) = u_email u" "u_is_verified (raise ev u) = u_is_verified u"
  "u_role (raise ev u) = u_role u" "u_password (raise ev u) = u_password u"
  by (simp_all add: raise_def)

lemma user_event_names [simp]:
  "ev_name (user_email_verified_event now a) = ''UserEmailVerified''"
  "ev_name (user_two_factor_enabled_event now a) = ''UserTwoFactorEnabled''"
  "ev_name (user_two_factor_disabled_event now a) = ''UserTwoFactorDisabled''"
  "ev_name (user_registered_event now a e) = ''UserRegistered''"
  by (simp_all add: event_defs)

lemma toggles_append: "toggles b xs = Some c \<Longrightarrow> toggles b (xs @ ys) = toggles c ys"
  by (induction b xs rule: toggles.induct) (auto split: if_splits)

lemma user_step_ok: "user_ok u \<Longrightarrow> (case op of StartEnabling2FA s \<Rightarrow> s \<noteq> [] | _ \<Rightarrow> True) \<Longrightarrow>
   user_step now u op = Inr u' \<Longrightarrow> user_ok u'"
  by (cases op) (auto simp: user_ok_def user_verify_def start_enabling_2fa_def confirm_2fa_def disable_2fa_def
      user_update_profile_def set_hashed_password_def truthy_def rbind_Inr_iff Let_def
      split: if_splits option.splits)

lemma user_step_toggle: "user_step now u op = Inr u' \<Longrightarrow> toggle_rel u u'"
  by (cases op) (auto simp: toggle_rel_def user_verify_def start_enabling_2fa_def confirm_2fa_def
      disable_2fa_def user_update_profile_def set_hashed_password_def rbind_Inr_iff Let_def
      split: if_splits option.splits)

lemma toggle_rel_trans: "toggle_rel a b \<Longrightarrow> toggle_rel b c \<Longrightarrow> toggle_rel a c"
  unfolding toggle_rel_def by (metis append.assoc toggles_append)

interpretation user_toggle: op_machine_rel user_step user_ok
    "\<lambda>op. case op of StartEnabling2FA s \<Rightarrow> s \<noteq> [] | _ \<Rightarrow> True" toggle_rel
proof
  show "toggle_rel s s" for s by (simp add: toggle_rel_def)
qed (use user_step_ok toggle_rel_trans user_step_toggle in blast)+

definition sample_user :: user where
  "sample_user = \<lparr>ar_id = ''u1'', ar_events = [], ar_version = 0, u_email = ''lan@example.com'',
     u_first_name = ''Lan'', u_last_name = ''Tran'', u_password = None, u_role = USER, u_is_verified = False,
     u_is_2fa_enabled = False, u_totp_secret = None, u_phone = None, u_created_at = 0, u_updated_at = 0\<rparr>"

lemma sample_user_ok: "user_ok sample_user"
  by code_simp

text \<open>Over any run of methods a user never has two-factor authentication on without a secret; the
  enable and disable events that are raised alternate and end in the actual state; a verified user stays
  verified; and email and role never change.\<close>

theorem user_two_factor_life:
  assumes "user_ok u" and "\<forall>(t, op) \<in> set ops. (case op of StartEnabling2FA s \<Rightarrow> s \<noteq> [] | _ \<Rightarrow> True)"
  shows "(u_is_2fa_enabled (user_run u ops) \<longrightarrow> truthy (u_totp_secret (user_run u ops)))
     \<and> (\<exists>evs. ar_events (user_run u ops) = ar_events u @ evs
          \<and> toggles (u_is_2fa_enabled u) evs = Some (u_is_2fa_enabled (user_run u ops)))
     \<and> (u_is_verified u \<longrightarrow> u_is_verified (user_run u ops))
     \<and> u_email (user_run u ops) = u_email u \<and> u_role (user_run u ops) = u_role u"
  using user_toggle.run_inv [of u ops] user_toggle.run_rel [of u ops] assms
  by (auto simp: user_run_def user_ok_def toggle_rel_def)

theorem user_two_factor_life_witness:
  "u_email (user_run sample_user [(1, StartEnabling2FA ''S''), (2, Confirm2FA), (3, StartEnabling2FA ''T''),
      (4, Disable2FA), (5, Confirm2FA)]) = ''lan@example.com''"
  using user_two_factor_life [OF sample_user_ok, of "[(1, StartEnabling2FA ''S''), (2, Confirm2FA),
      (3, StartEnabling2FA ''T''), (4, Disable2FA), (5, Confirm2FA)]"]
  by (simp add: sample_user_def)

end
