(* ===== verification/Database.thy ===== *)
theory Database
  imports User_Entity
begin

text \<open>
  The database of \<^verbatim>\<open>prisma/schema.prisma\<close>: one record per model, and the record of all tables. A
  table is the list of its rows. Money columns, \<^verbatim>\<open>Decimal(18,0)\<close>, are integers; the discount value,
  \<^verbatim>\<open>Decimal(18,4)\<close>, is a rational; instants are milliseconds. The columns \<^verbatim>\<open>updatedAt\<close> that the
  database maintains by itself, and row identifiers of tables that nothing refers to by identifier,
  are left out.

  A transaction is a function from the database to a result and a database; \<open>transaction\<close> gives the
  old database back when the body throws. Statements inside one run without interference.
\<close>

subsection \<open>Rows\<close>

record user_row =
  ur_id :: ident
  ur_email :: string
  ur_password :: "string option"
  ur_first_name :: string
  ur_last_name :: string
  ur_phone :: "string option"
  ur_role :: role
  ur_is_verified :: bool
  ur_is_2fa_enabled :: bool
  ur_totp_secret :: "string option"
  ur_created_at :: millis

record product_row =
  prow_id :: ident
  prow_name :: string
  prow_description :: "string option"
  prow_price :: int
  prow_stock :: int
  prow_version :: int
  prow_category :: string
  prow_images :: "string list"
  prow_slug :: string
  prow_is_active :: bool
  prow_created_at :: millis

record cart_row =
  cr_id :: ident
  cr_user_id :: ident

record cart_item_row =
  cir_id :: ident
  cir_cart_id :: ident
  cir_product_id :: ident
  cir_quantity :: int

record order_row =
  or_id :: ident
  or_order_number :: string
  or_user_id :: ident
  or_status :: order_status
  or_payment_method :: string
  or_payment_status :: payment_status
  or_subtotal :: int
  or_tax :: int
  or_shipping_fee :: int
  or_total :: int
  or_discount_amount :: int
  or_discount_code :: "string option"
  or_customer_name :: string
  or_customer_email :: string
  or_customer_phone :: string
  or_customer_address :: string
  or_notes :: "string option"
  or_idempotency_key :: "string option"
  or_created_at :: millis
  or_version :: int

record order_item_row =
  oir_order_id :: ident
  oir_product_id :: ident
  oir_quantity :: int
  oir_price :: int
  oir_total :: int

record review_row =
  rv_id :: ident
  rv_rating :: int
  rv_comment :: "string option"
  rv_user_id :: ident
  rv_product_id :: ident
  rv_created_at :: millis

record notification_row =
  nt_id :: ident
  nt_user_id :: ident
  nt_title :: string
  nt_message :: string
  nt_type :: string
  nt_read :: bool
  nt_idempotency_key :: "string option"
  nt_created_at :: millis

record refresh_token_row =
  rtk_id :: ident
  rtk_token :: string
  rtk_family_id :: ident
  rtk_user_id :: ident
  rtk_expires_at :: millis
  rtk_revoked_at :: "millis option"
  rtk_created_at :: millis

datatype oauth_provider = GOOGLE | FACEBOOK

record oauth_account_row =
  oa_user_id :: ident
  oa_provider :: oauth_provider
  oa_provider_subject :: string
  oa_provider_email :: string
  oa_provider_email_verified :: bool

record discount_row =
  dc_id :: ident
  dc_code :: string
  dc_type :: discount_type
  dc_value :: rat
  dc_min_order_amount :: "int option"
  dc_max_uses :: "int option"
  dc_used_count :: int
  dc_expires_at :: "millis option"
  dc_is_active :: bool

record wishlist_row =
  wl_user_id :: ident
  wl_product_id :: ident
  wl_created_at :: millis

record outbox_row =
  ob_id :: ident
  ob_event_name :: string
  ob_aggregate_id :: ident
  ob_payload :: json
  ob_occurred_at :: millis
  ob_published_at :: "millis option"
  ob_attempts :: nat
  ob_locked_at :: "millis option"
  ob_lock_owner :: "string option"
  ob_lease_until :: "millis option"
  ob_dead_lettered_at :: "millis option"
  ob_last_error :: "string option"

record handler_log_row =
  hl_event_id :: ident
  hl_handler_name :: string
  hl_status :: string
  hl_error :: "string option"
  hl_attempted_at :: millis

record saga_row =
  sg_id :: ident
  sg_type :: string
  sg_state :: json
  sg_version :: int
  sg_completed_at :: "millis option"

record catalog_row =
  pc_product_id :: ident
  pc_name :: string
  pc_description :: "string option"
  pc_price :: int
  pc_stock :: int
  pc_category :: string
  pc_images :: "string list"
  pc_slug :: string
  pc_is_active :: bool
  pc_avg_rating :: js_num
  pc_review_count :: nat
  pc_search_text :: string
  pc_source_version :: int
  pc_created_at :: millis

record history_row =
  oh_order_id :: ident
  oh_user_id :: ident
  oh_order_number :: string
  oh_status :: order_status
  oh_payment_status :: payment_status
  oh_subtotal :: int
  oh_tax :: int
  oh_shipping_fee :: int
  oh_total :: int
  oh_items :: json
  oh_placed_at :: millis
  oh_source_version :: int

record dashboard_row =
  db_total_gross_order_value :: int
  db_total_orders :: nat
  db_pending_orders :: nat
  db_completed_orders :: nat
  db_total_users :: nat
  db_total_products :: nat

record database =
  users :: "user_row list"
  products :: "product_row list"
  carts :: "cart_row list"
  cart_items :: "cart_item_row list"
  orders :: "order_row list"
  order_items :: "order_item_row list"
  reviews :: "review_row list"
  notifications :: "notification_row list"
  refresh_tokens :: "refresh_token_row list"
  oauth_accounts :: "oauth_account_row list"
  discounts :: "discount_row list"
  wishlist_items :: "wishlist_row list"
  outbox_events :: "outbox_row list"
  outbox_handler_log :: "handler_log_row list"
  saga_states :: "saga_row list"
  product_catalog :: "catalog_row list"
  order_history :: "history_row list"
  admin_dashboard :: "dashboard_row option"
  id_supply :: nat

text \<open>\<open>id_supply\<close> counts the identifiers the database has generated; the generator itself is the
  argument \<open>gen\<close> of the operations that use it.\<close>

definition empty_db :: database where
  "empty_db = \<lparr>users = [], products = [], carts = [], cart_items = [], orders = [], order_items = [],
     reviews = [], notifications = [], refresh_tokens = [], oauth_accounts = [], discounts = [],
     wishlist_items = [], outbox_events = [], outbox_handler_log = [], saga_states = [],
     product_catalog = [], order_history = [], admin_dashboard = None, id_supply = 0\<rparr>"

definition unique_violation :: error where
  "unique_violation = PrismaKnownRequestError ''P2002''"

definition record_not_found :: error where
  "record_not_found = PrismaKnownRequestError ''P2025''"

subsection \<open>State and errors\<close>

text \<open>A computation on a state: a result or an error, and the state it leaves.\<close>

type_synonym ('s, 'a) st_op = "'s \<Rightarrow> (error + 'a) \<times> 's"

type_synonym 'a db_op = "(database, 'a) st_op"

definition dret :: "'a \<Rightarrow> ('s, 'a) st_op" where
  "dret a db = (Inr a, db)"

definition dthrow :: "error \<Rightarrow> ('s, 'a) st_op" where
  "dthrow e db = (Inl e, db)"

definition dbind :: "('s, 'a) st_op \<Rightarrow> ('a \<Rightarrow> ('s, 'b) st_op) \<Rightarrow> ('s, 'b) st_op" where
  "dbind m f db = (case m db of (Inl e, db') \<Rightarrow> (Inl e, db') | (Inr a, db') \<Rightarrow> f a db')"

definition dlift :: "error + 'a \<Rightarrow> ('s, 'a) st_op" where
  "dlift r db = (r, db)"

definition dget :: "('s \<Rightarrow> 'a) \<Rightarrow> ('s, 'a) st_op" where
  "dget f db = (Inr (f db), db)"

definition dupdate :: "('s \<Rightarrow> 's) \<Rightarrow> ('s, unit) st_op" where
  "dupdate f db = (Inr (), f db)"

definition dcatch :: "('s, 'a) st_op \<Rightarrow> (error \<Rightarrow> ('s, 'a) st_op) \<Rightarrow> ('s, 'a) st_op" where
  "dcatch m h db = (case m db of (Inl e, db') \<Rightarrow> h e db' | (Inr a, db') \<Rightarrow> (Inr a, db'))"

fun dmap :: "('a \<Rightarrow> ('s, 'b) st_op) \<Rightarrow> 'a list \<Rightarrow> ('s, 'b list) st_op" where
  "dmap f [] = dret []"
| "dmap f (x # xs) = dbind (f x) (\<lambda>y. dbind (dmap f xs) (\<lambda>ys. dret (y # ys)))"

definition transaction :: "('s, 'a) st_op \<Rightarrow> ('s, 'a) st_op" where
  "transaction m db = (case m db of (Inl e, _) \<Rightarrow> (Inl e, db) | (Inr a, db') \<Rightarrow> (Inr a, db'))"

named_theorems db_monad \<open>evaluation of database computations\<close>

lemma db_monad_simps [db_monad]:
  "dret a db = (Inr a, db)"
  "dthrow e db = (Inl e, db)"
  "dlift r db = (r, db)"
  "dget f db = (Inr (f db), db)"
  "dupdate g db = (Inr (), g db)"
  by (simp_all add: dret_def dthrow_def dlift_def dget_def dupdate_def)

lemma dbind_simps [simp]:
  "dbind (dret a) f db = f a db"
  "dbind (dthrow e) f db = (Inl e, db)"
  "dbind (dget g) f db = f (g db) db"
  "dbind (dupdate h) k db = k () (h db)"
  "dbind (dlift (Inl e)) f db = (Inl e, db)"
  "dbind (dlift (Inr a)) f db = f a db"
  by (simp_all add: dbind_def db_monad)

lemma dbind_step: "m db = (Inr a, db') \<Longrightarrow> dbind m f db = f a db'"
  by (simp add: dbind_def)

lemma dbind_fail: "m db = (Inl e, db') \<Longrightarrow> dbind m f db = (Inl e, db')"
  by (simp add: dbind_def)

lemma dbind_Inr_E:
  assumes "dbind m f db = (Inr b, db'')"
  obtains a db' where "m db = (Inr a, db')" and "f a db' = (Inr b, db'')"
  using assms by (auto simp: dbind_def split: prod.splits sum.splits)

lemma dbind_cases:
  assumes "dbind m f db = (r, db'')"
  obtains (fail) e where "m db = (Inl e, db'')" and "r = Inl e"
  | (pass) a db' where "m db = (Inr a, db')" and "f a db' = (r, db'')"
  using assms by (auto simp: dbind_def split: prod.splits sum.splits)

lemma dmap_invariant:
  assumes "dmap f xs db = (r, db')" and "P db"
    and "\<And>x db r db'. x \<in> set xs \<Longrightarrow> P db \<Longrightarrow> f x db = (r, db') \<Longrightarrow> P db'"
  shows "P db'"
  using assms
proof (induction xs arbitrary: db r)
  case (Cons x xs)
  from Cons.prems(1) show ?case
    unfolding dmap.simps
  proof (cases rule: dbind_cases)
    case (pass a db1)
    then have "P db1" using Cons.prems by (meson list.set_intros(1))
    moreover obtain r2 where "dmap f xs db1 = (r2, db')"
      using pass(2) by (auto simp: dbind_def db_monad split: prod.splits sum.splits)
    ultimately show ?thesis
      using Cons.IH [of db1 r2] Cons.prems(3) by (meson list.set_intros(2))
  qed (use Cons.prems in \<open>meson list.set_intros(1)\<close>)
qed (simp add: db_monad)

lemma transaction_fail: "m db = (Inl e, db') \<Longrightarrow> transaction m db = (Inl e, db)"
  by (simp add: transaction_def)

lemma transaction_Inr_iff: "transaction m db = (Inr a, db') \<longleftrightarrow> m db = (Inr a, db')"
  by (auto simp: transaction_def split: prod.splits sum.splits)

lemma transaction_Inl_iff: "transaction m db = (Inl e, db') \<longleftrightarrow> db' = db \<and> fst (m db) = Inl e"
  by (auto simp: transaction_def split: prod.splits sum.splits)

text \<open>\<open>triple I P m Q\<close>: from a state with \<open>I\<close> and \<open>P\<close>, \<open>m\<close> keeps \<open>I\<close>, whether it returns or throws, and if it returns, \<open>Q\<close> holds.\<close>

definition triple :: "('s \<Rightarrow> bool) \<Rightarrow> ('s \<Rightarrow> bool) \<Rightarrow> ('s, 'a) st_op \<Rightarrow> ('a \<Rightarrow> 's \<Rightarrow> bool) \<Rightarrow> bool" where
  "triple I P m Q \<longleftrightarrow> (\<forall>s x s'. I s \<and> P s \<and> m s = (x, s') \<longrightarrow> I s' \<and> (\<forall>a. x = Inr a \<longrightarrow> Q a s'))"

lemma tripleI: "(\<And>s x s'. I s \<Longrightarrow> P s \<Longrightarrow> m s = (x, s') \<Longrightarrow> I s' \<and> (\<forall>a. x = Inr a \<longrightarrow> Q a s')) \<Longrightarrow> triple I P m Q"
  by (auto simp: triple_def)

lemma tripleD: "triple I P m Q \<Longrightarrow> I s \<Longrightarrow> P s \<Longrightarrow> m s = (x, s') \<Longrightarrow> I s' \<and> (\<forall>a. x = Inr a \<longrightarrow> Q a s')"
  by (auto simp: triple_def)

lemma triple_bind:
  assumes "triple I P m R" and "\<And>a. triple I (R a) (f a) Q"
  shows "triple I P (dbind m f) Q"
proof (rule tripleI)
  fix s x s'
  assume "I s" "P s" and run: "dbind m f s = (x, s')"
  from run show "I s' \<and> (\<forall>a. x = Inr a \<longrightarrow> Q a s')"
  proof (cases rule: dbind_cases)
    case (fail e)
    then show ?thesis using tripleD [OF assms(1) \<open>I s\<close> \<open>P s\<close>] by auto
  next
    case (pass a s1)
    then show ?thesis using tripleD [OF assms(1) \<open>I s\<close> \<open>P s\<close> pass(1)] tripleD [OF assms(2) _ _ pass(2)] by blast
  qed
qed

lemma triple_pre: "triple I P m Q \<Longrightarrow> (\<And>s. P' s \<Longrightarrow> P s) \<Longrightarrow> triple I P' m Q"
  unfolding triple_def by blast

lemma triple_get: "triple I P (dget g) (\<lambda>a s. P s \<and> a = g s)"
  by (rule tripleI) (auto simp: db_monad)

lemma triple_ret: "(\<And>s. P s \<Longrightarrow> Q a s) \<Longrightarrow> triple I P (dret a) Q"
  by (rule tripleI) (auto simp: db_monad)

lemma triple_throw: "triple I P (dthrow e) Q"
  by (rule tripleI) (auto simp: db_monad)

lemma triple_post: "triple I P m Q \<Longrightarrow> (\<And>a s. Q a s \<Longrightarrow> Q' a s) \<Longrightarrow> triple I P m Q'"
  unfolding triple_def by blast

lemma triple_if: "(b \<Longrightarrow> triple I P m Q) \<Longrightarrow> (\<not> b \<Longrightarrow> triple I P m' Q) \<Longrightarrow> triple I P (if b then m else m') Q"
  by simp

subsection \<open>Lookups\<close>

definition find_user :: "ident \<Rightarrow> database \<Rightarrow> user_row option" where
  "find_user i db = find_by ur_id i (users db)"

definition find_product :: "ident \<Rightarrow> database \<Rightarrow> product_row option" where
  "find_product i db = find_by prow_id i (products db)"

definition find_order :: "ident \<Rightarrow> database \<Rightarrow> order_row option" where
  "find_order i db = find_by or_id i (orders db)"

definition find_cart_of :: "ident \<Rightarrow> database \<Rightarrow> cart_row option" where
  "find_cart_of uid db = find_by cr_user_id uid (carts db)"

definition items_of_cart :: "ident \<Rightarrow> database \<Rightarrow> cart_item_row list" where
  "items_of_cart cid db = filter (\<lambda>i. cir_cart_id i = cid) (cart_items db)"

definition items_of_order :: "ident \<Rightarrow> database \<Rightarrow> order_item_row list" where
  "items_of_order oid db = filter (\<lambda>i. oir_order_id i = oid) (order_items db)"

text \<open>The uniqueness constraints of the schema.\<close>

definition keys_ok :: "database \<Rightarrow> bool" where
  "keys_ok db \<longleftrightarrow> distinct (map ur_id (users db)) \<and> distinct (map ur_email (users db))
     \<and> distinct (map prow_id (products db)) \<and> distinct (map prow_slug (products db))
     \<and> distinct (map cr_id (carts db)) \<and> distinct (map cr_user_id (carts db))
     \<and> distinct (map (\<lambda>i. (cir_cart_id i, cir_product_id i)) (cart_items db))
     \<and> distinct (map or_id (orders db)) \<and> distinct (map or_order_number (orders db))
     \<and> distinct (map dc_id (discounts db)) \<and> distinct (map dc_code (discounts db))"

end
