(* ===== verification/Event_Bus.thy ===== *)
theory Event_Bus
  imports Database
begin

text \<open>
  The in-process event bus, \<^verbatim>\<open>shared/domain/event-bus/event-bus.ts\<close>, and the handler tracker on the
  database, \<^verbatim>\<open>core/outbox/outbox-handler-tracker.ts\<close>. Handlers are computations on the database;
  \<^verbatim>\<open>Promise.allSettled\<close> runs every one of them, whatever the others do, in subscription order here.
  The locale \<open>handler_tracker\<close> is the tracker's contract, and the lemmas in it are what a publisher
  may rely on; it is interpreted on the database tracker.
\<close>

subsection \<open>The bus\<close>

record handler_entry =
  he_name :: string
  he_fn :: "domain_event \<Rightarrow> unit db_op"

type_synonym event_bus = "(string \<times> handler_entry list) list"

definition handlers_of :: "event_bus \<Rightarrow> string \<Rightarrow> handler_entry list" where
  "handlers_of bus name = (case map_of bus name of None \<Rightarrow> [] | Some hs \<Rightarrow> hs)"

fun bus_push :: "string \<Rightarrow> handler_entry \<Rightarrow> event_bus \<Rightarrow> event_bus" where
  "bus_push name h [] = []"
| "bus_push name h ((n, hs) # bus) = (if n = name then (n, hs @ [h]) # bus else (n, hs) # bus_push name h bus)"

definition subscribe ::
    "string \<Rightarrow> string \<Rightarrow> (domain_event \<Rightarrow> unit db_op) \<Rightarrow> event_bus \<Rightarrow> event_bus" where
  "subscribe event_name handler_name handler bus =
     (let bus' = (if map_of bus event_name = None then bus @ [(event_name, [])] else bus)
      in bus_push event_name \<lparr>he_name = handler_name, he_fn = handler\<rparr> bus')"

datatype handler_result = Succeeded | Failed error

record tracker =
  tr_has_succeeded :: "ident \<Rightarrow> string \<Rightarrow> database \<Rightarrow> bool"
  tr_record_result :: "ident \<Rightarrow> string \<Rightarrow> handler_result \<Rightarrow> database \<Rightarrow> database"

text \<open>One handler of one event; \<open>tracking\<close> is present when the caller passed an event id and a
  tracker.\<close>

definition run_handler ::
    "domain_event \<Rightarrow> (ident \<times> tracker) option \<Rightarrow> handler_entry \<Rightarrow> database \<Rightarrow> bool \<times> database" where
  "run_handler ev tracking h db =
     (let already = (case tracking of None \<Rightarrow> False | Some (eid, tr) \<Rightarrow> tr_has_succeeded tr eid (he_name h) db)
      in if already then (True, db)
         else case he_fn h ev db of
           (Inl err, db') \<Rightarrow>
             (False, case tracking of None \<Rightarrow> db'
                     | Some (eid, tr) \<Rightarrow> tr_record_result tr eid (he_name h) (Failed err) db')
         | (Inr _, db') \<Rightarrow>
             (True, case tracking of None \<Rightarrow> db'
                    | Some (eid, tr) \<Rightarrow> tr_record_result tr eid (he_name h) Succeeded db'))"

fun run_handlers ::
    "domain_event \<Rightarrow> (ident \<times> tracker) option \<Rightarrow> handler_entry list \<Rightarrow> database \<Rightarrow> string list \<times> database" where
  "run_handlers ev tracking [] db = ([], db)"
| "run_handlers ev tracking (h # hs) db =
     (case run_handler ev tracking h db of (settled, db1) \<Rightarrow>
        (case run_handlers ev tracking hs db1 of (failed, db2) \<Rightarrow>
           (if settled then failed else he_name h # failed, db2)))"

record publish_result =
  pub_success :: bool
  pub_failed_handlers :: "string list"

definition publish ::
    "event_bus \<Rightarrow> domain_event \<Rightarrow> (ident \<times> tracker) option \<Rightarrow> database \<Rightarrow> publish_result \<times> database" where
  "publish bus ev tracking db =
     (case run_handlers ev tracking (handlers_of bus (ev_name ev)) db of (failed, db') \<Rightarrow>
        (\<lparr>pub_success = (failed = []), pub_failed_handlers = failed\<rparr>, db'))"

subsection \<open>Subscriptions\<close>

lemma map_of_bus_push: "map_of (bus_push name h bus) k =
   (if k = name then map_option (\<lambda>hs. hs @ [h]) (map_of bus name) else map_of bus k)"
  by (induction bus) auto

lemma handlers_of_subscribe:
  "handlers_of (subscribe en hn f bus) k =
     (if k = en then handlers_of bus en @ [\<lparr>he_name = hn, he_fn = f\<rparr>] else handlers_of bus k)"
  by (auto simp: handlers_of_def subscribe_def map_of_bus_push Let_def map_add_def split: option.splits)

subsection \<open>The contract of a tracker\<close>

locale handler_tracker =
  fixes tr :: tracker
  assumes has_record: "tr_has_succeeded tr e' h' (tr_record_result tr e h r db)
    = (if e' = e \<and> h' = h then r = Succeeded else tr_has_succeeded tr e' h' db)"
begin

definition untouched :: "handler_entry list \<Rightarrow> domain_event \<Rightarrow> bool" where
  "untouched hs ev \<longleftrightarrow> (\<forall>h \<in> set hs. \<forall>db e n.
     tr_has_succeeded tr e n (snd (he_fn h ev db)) = tr_has_succeeded tr e n db)"

lemma run_handler_has:
  assumes "untouched [h] ev" and "run_handler ev (Some (e, tr)) h db = (b, db')"
  shows "tr_has_succeeded tr e (he_name h) db' = b"
    and "tr_has_succeeded tr e n db \<Longrightarrow> tr_has_succeeded tr e n db'"
proof -
  have keep: "tr_has_succeeded tr e n db1 = tr_has_succeeded tr e n db" if "he_fn h ev db = (r, db1)" for r db1 n
    using assms(1) that unfolding untouched_def by (metis list.set_intros(1) snd_conv)
  show "tr_has_succeeded tr e (he_name h) db' = b"
    using assms(2)
    by (auto simp: run_handler_def Let_def has_record split: if_splits prod.splits sum.splits)
  show "tr_has_succeeded tr e n db'" if "tr_has_succeeded tr e n db"
    using assms(2) that keep
    by (auto simp: run_handler_def Let_def has_record split: if_splits prod.splits sum.splits)
qed

lemma run_handlers_monotone:
  assumes "untouched hs ev" and "run_handlers ev (Some (e, tr)) hs db = (failed, db')"
    and "tr_has_succeeded tr e n db"
  shows "tr_has_succeeded tr e n db'"
  using assms
proof (induction hs arbitrary: db failed)
  case (Cons h hs)
  have u: "untouched [h] ev" "untouched hs ev"
    using Cons.prems(1) by (auto simp: untouched_def)
  obtain b db1 failed1 where r: "run_handler ev (Some (e, tr)) h db = (b, db1)"
      "run_handlers ev (Some (e, tr)) hs db1 = (failed1, db')"
    using Cons.prems(2) by (auto split: prod.splits)
  show ?case
    using Cons.IH [OF u(2) r(2)] run_handler_has(2) [OF u(1) r(1) Cons.prems(3)] by simp
qed simp

lemma run_handlers_done:
  assumes "untouched hs ev" and "distinct (map he_name hs)"
    and "run_handlers ev (Some (e, tr)) hs db = (failed, db')"
    and "h \<in> set hs" and "he_name h \<notin> set failed"
  shows "tr_has_succeeded tr e (he_name h) db'"
  using assms
proof (induction hs arbitrary: db failed)
  case (Cons h0 hs)
  have u: "untouched [h0] ev" "untouched hs ev"
    using Cons.prems(1) by (auto simp: untouched_def)
  obtain b db1 failed1 where r: "run_handler ev (Some (e, tr)) h0 db = (b, db1)"
      "run_handlers ev (Some (e, tr)) hs db1 = (failed1, db')"
      "failed = (if b then failed1 else he_name h0 # failed1)"
    using Cons.prems(3) by (auto split: prod.splits)
  show ?case
  proof (cases "h = h0")
    case True
    then have b using r(3) Cons.prems(5) by (auto split: if_splits)
    then have "tr_has_succeeded tr e (he_name h0) db1"
      using run_handler_has(1) [OF u(1) r(1)] by simp
    then show ?thesis
      using run_handlers_monotone [OF u(2) r(2)] True by simp
  next
    case False
    then show ?thesis
      using Cons.IH [OF u(2) _ r(2)] Cons.prems r(3) by (auto split: if_splits)
  qed
qed simp

text \<open>Handlers that have succeeded are skipped: delivering again is delivering to the others.\<close>

lemma run_handlers_skip:
  assumes "untouched hs ev"
    and "\<And>h. h \<in> set hs \<Longrightarrow> \<not> P h \<Longrightarrow> tr_has_succeeded tr e (he_name h) db"
  shows "run_handlers ev (Some (e, tr)) hs db = run_handlers ev (Some (e, tr)) (filter P hs) db"
  using assms
proof (induction hs arbitrary: db)
  case (Cons h hs)
  have u: "untouched [h] ev" "untouched hs ev"
    using Cons.prems(1) by (auto simp: untouched_def)
  show ?case
  proof (cases "P h")
    case False
    then have "run_handler ev (Some (e, tr)) h db = (True, db)"
      using Cons.prems(2) by (simp add: run_handler_def)
    then show ?thesis
      using Cons.IH [OF u(2), of db] Cons.prems(2) False by (simp split: prod.splits)
  next
    case True
    obtain b db1 where r: "run_handler ev (Some (e, tr)) h db = (b, db1)" by fastforce
    have "run_handlers ev (Some (e, tr)) hs db1 = run_handlers ev (Some (e, tr)) (filter P hs) db1"
      using Cons.IH [OF u(2), of db1] Cons.prems(2) run_handler_has(2) [OF u(1) r] by auto
    then show ?thesis
      using True r by simp
  qed
qed simp

lemma redelivery:
  assumes "untouched hs ev" and "distinct (map he_name hs)"
    and "run_handlers ev (Some (e, tr)) hs db = (failed, db')"
  shows "run_handlers ev (Some (e, tr)) hs db'
    = run_handlers ev (Some (e, tr)) (filter (\<lambda>h. he_name h \<in> set failed) hs) db'"
  using run_handlers_done [OF assms] by (intro run_handlers_skip [OF assms(1)]) auto

end

subsection \<open>The tracker on the database\<close>

definition log_key :: "handler_log_row \<Rightarrow> ident \<times> string" where
  "log_key r = (hl_event_id r, hl_handler_name r)"

definition db_has_succeeded :: "ident \<Rightarrow> string \<Rightarrow> database \<Rightarrow> bool" where
  "db_has_succeeded event_id handler_name db =
     (case find_by log_key (event_id, handler_name) (outbox_handler_log db) of
        None \<Rightarrow> False | Some r \<Rightarrow> hl_status r = ''SUCCESS'')"

definition db_record_result ::
    "(error \<Rightarrow> string) \<Rightarrow> millis \<Rightarrow> ident \<Rightarrow> string \<Rightarrow> handler_result \<Rightarrow> database \<Rightarrow> database" where
  "db_record_result message now event_id handler_name r db =
     (let status = (if r = Succeeded then ''SUCCESS'' else ''FAILED'');
          err = (case r of Succeeded \<Rightarrow> None | Failed e \<Rightarrow> Some (message e))
      in db\<lparr>outbox_handler_log :=
        (if find_by log_key (event_id, handler_name) (outbox_handler_log db) = None
         then outbox_handler_log db @
           [\<lparr>hl_event_id = event_id, hl_handler_name = handler_name, hl_status = status, hl_error = err,
             hl_attempted_at = now\<rparr>]
         else update_by log_key (event_id, handler_name)
           (\<lambda>row. row\<lparr>hl_status := status, hl_error := err, hl_attempted_at := now\<rparr>)
           (outbox_handler_log db))\<rparr>)"

definition prisma_tracker :: "(error \<Rightarrow> string) \<Rightarrow> millis \<Rightarrow> tracker" where
  "prisma_tracker message now =
     \<lparr>tr_has_succeeded = db_has_succeeded, tr_record_result = db_record_result message now\<rparr>"

lemma log_key_simps [simp]:
  "log_key (row\<lparr>hl_status := s, hl_error := er, hl_attempted_at := t\<rparr>) = log_key row"
  by (simp add: log_key_def)

lemma db_has_record:
  "db_has_succeeded e' h' (db_record_result message now e h r db)
     = (if e' = e \<and> h' = h then r = Succeeded else db_has_succeeded e' h' db)"
proof (cases "find_by log_key (e, h) (outbox_handler_log db)")
  case None
  then show ?thesis
    by (auto simp: db_has_succeeded_def db_record_result_def Let_def find_by_append log_key_def
        split: option.splits)
next
  case (Some row)
  then show ?thesis
    by (cases r) (auto simp: db_has_succeeded_def db_record_result_def Let_def find_by_update_by)
qed

interpretation prisma_tracker: handler_tracker "prisma_tracker message now" for message now
  by unfold_locales (simp add: prisma_tracker_def db_has_record)


subsection \<open>Properties\<close>

text \<open>The handlers' contract: they leave the tracker's log alone.\<close>

definition leaves_log_alone :: "handler_entry list \<Rightarrow> domain_event \<Rightarrow> bool" where
  "leaves_log_alone hs ev \<longleftrightarrow>
     (\<forall>h \<in> set hs. \<forall>db. outbox_handler_log (snd (he_fn h ev db)) = outbox_handler_log db)"

lemma leaves_log_untouched:
  "leaves_log_alone hs ev \<Longrightarrow> handler_tracker.untouched (prisma_tracker message now) hs ev"
  unfolding prisma_tracker.untouched_def
  by (auto simp: leaves_log_alone_def prisma_tracker_def db_has_succeeded_def)


definition sample_bus :: event_bus where
  "sample_bus = subscribe ''ReviewCreated'' ''bad'' (\<lambda>ev. dthrow (PlainError ''down''))
     (subscribe ''ReviewCreated'' ''good'' (\<lambda>ev. dret ()) [])"


end
