(* ===== verification/Outbox.thy ===== *)
theory Outbox
  imports Event_Bus
begin

text \<open>
  The transactional outbox: \<^verbatim>\<open>core/outbox/persist-domain-events.ts\<close> writes an aggregate's events into
  the table \<^verbatim>\<open>outbox_events\<close> in the transaction that writes the aggregate, and
  \<^verbatim>\<open>core/outbox/outbox-event-schema.ts\<close> reads a payload back. The printing of a date as an ISO string
  (\<open>fmt\<close>, \<open>iso_of\<close>), its parsing (\<open>date_of\<close>), the identifier generator \<open>gen_id\<close> of the database and the text that
  zod gives for an invalid payload (\<open>zod_details\<close>) are arguments.
\<close>

definition CURRENT_OUTBOX_EVENT_SCHEMA_VERSION :: int where
  "CURRENT_OUTBOX_EVENT_SCHEMA_VERSION = 1"

subsection \<open>Objects\<close>

type_synonym fields = "(string \<times> json) list"

text \<open>\<open>obj_set\<close> assigns a property: an existing one keeps its place. \<open>obj_spread\<close> is a spread
  \<^verbatim>\<open>{...a, ...b}\<close>.\<close>

fun obj_set :: "string \<Rightarrow> json \<Rightarrow> fields \<Rightarrow> fields" where
  "obj_set k v [] = [(k, v)]"
| "obj_set k v ((k', v') # fs) = (if k' = k then (k, v) # fs else (k', v') # obj_set k v fs)"

definition obj_spread :: "fields \<Rightarrow> fields \<Rightarrow> fields" where
  "obj_spread a b = foldl (\<lambda>acc (k, v). obj_set k v acc) a b"

text \<open>The enumerable properties of an event object, in the order the constructors assign them;
  properties that are undefined do not reach JSON.\<close>

definition event_object :: "domain_event \<Rightarrow> fields" where
  "event_object ev =
     [(''aggregateId'', JStr (ev_aggregate_id ev)), (''eventName'', JStr (ev_name ev)),
      (''occurredAt'', JDate (ev_occurred_at ev))]
     @ (case ev_metadata ev of None \<Rightarrow> [] | Some m \<Rightarrow> [(''metadata'', JObj m)])
     @ (case ev_version ev of None \<Rightarrow> [] | Some v \<Rightarrow> [(''version'', jint v)])
     @ (case ev_source_version ev of None \<Rightarrow> [] | Some v \<Rightarrow> [(''sourceVersion'', jint v)])
     @ ev_fields ev"

text \<open>Storing a value in a JSON column turns dates into their ISO strings.\<close>

fun to_stored :: "(millis \<Rightarrow> string) \<Rightarrow> json \<Rightarrow> json" where
  "to_stored fmt (JDate t) = JStr (fmt t)"
| "to_stored fmt (JArr xs) = JArr (map (to_stored fmt) xs)"
| "to_stored fmt (JObj fs) = JObj (map (\<lambda>(k, v). (k, to_stored fmt v)) fs)"
| "to_stored fmt j = j"

subsection \<open>Writing\<close>

definition event_payload :: "domain_event \<Rightarrow> (ident \<Rightarrow> int option) \<Rightarrow> json" where
  "event_payload ev source_versions =
     JObj (obj_spread
       (obj_spread [(''schemaVersion'', jint CURRENT_OUTBOX_EVENT_SCHEMA_VERSION)] (event_object ev))
       (case source_versions (ev_aggregate_id ev) of
          None \<Rightarrow> [] | Some v \<Rightarrow> [(''sourceVersion'', jint v)]))"

definition outbox_row_of ::
    "(millis \<Rightarrow> string) \<Rightarrow> (ident \<Rightarrow> int option) \<Rightarrow> ident \<Rightarrow> domain_event \<Rightarrow> outbox_row" where
  "outbox_row_of fmt source_versions i ev =
     \<lparr>ob_id = i, ob_event_name = ev_name ev, ob_aggregate_id = ev_aggregate_id ev,
      ob_payload = to_stored fmt (event_payload ev source_versions), ob_occurred_at = ev_occurred_at ev,
      ob_published_at = None, ob_attempts = 0, ob_locked_at = None, ob_lock_owner = None,
      ob_lease_until = None, ob_dead_lettered_at = None, ob_last_error = None\<rparr>"

fun number_rows ::
    "(nat \<Rightarrow> ident) \<Rightarrow> (millis \<Rightarrow> string) \<Rightarrow> (ident \<Rightarrow> int option) \<Rightarrow> nat \<Rightarrow> domain_event list \<Rightarrow> outbox_row list" where
  "number_rows gen fmt sv n [] = []"
| "number_rows gen fmt sv n (ev # evs) = outbox_row_of fmt sv (gen n) ev # number_rows gen fmt sv (Suc n) evs"

text \<open>\<open>env\<close> bundles what the outbox takes from its surroundings.\<close>

record env =
  gen_id :: "nat \<Rightarrow> ident"
  iso_of :: "millis \<Rightarrow> string"
  date_of :: "string \<Rightarrow> millis option"
  zod_details :: "json \<Rightarrow> string"

definition persist_events :: "env \<Rightarrow> domain_event list \<Rightarrow> (ident \<Rightarrow> int option) \<Rightarrow> unit db_op" where
  "persist_events E events source_versions =
     (if events = [] then dret ()
      else dupdate (\<lambda>db. db\<lparr>outbox_events := outbox_events db
               @ number_rows (gen_id E) (iso_of E) source_versions (id_supply db) events,
             id_supply := id_supply db + length events\<rparr>))"

definition persist_domain_events ::
    "env \<Rightarrow> 'a aggregate_root_scheme list \<Rightarrow> (ident \<Rightarrow> int option) \<Rightarrow> 'a aggregate_root_scheme list db_op" where
  "persist_domain_events E aggregates source_versions =
     (let events = concat (map ar_events aggregates)
      in dbind (persist_events E events source_versions) (\<lambda>_.
         dret (if events = [] then aggregates else map (\<lambda>a. snd (pull_events a)) aggregates)))"

subsection \<open>Reading\<close>

fun is_nonneg_int :: "json \<Rightarrow> bool" where
  "is_nonneg_int (JNum n) \<longleftrightarrow> is_safe_integer n \<and> 0 \<le> int_of_num n"
| "is_nonneg_int _ = False"

fun is_nonempty_string :: "json \<Rightarrow> bool" where
  "is_nonempty_string (JStr s) \<longleftrightarrow> s \<noteq> []"
| "is_nonempty_string _ = False"

definition opt_field :: "(json \<Rightarrow> bool) \<Rightarrow> string \<Rightarrow> fields \<Rightarrow> bool" where
  "opt_field p k fs = (case map_of fs k of None \<Rightarrow> True | Some v \<Rightarrow> p v)"

definition req_field :: "(json \<Rightarrow> bool) \<Rightarrow> string \<Rightarrow> fields \<Rightarrow> bool" where
  "req_field p k fs = (case map_of fs k of None \<Rightarrow> False | Some v \<Rightarrow> p v)"

text \<open>\<open>serializedDomainEventSchema\<close>.\<close>

definition schema_ok :: "fields \<Rightarrow> bool" where
  "schema_ok fs \<longleftrightarrow>
     opt_field (\<lambda>j. is_nonneg_int j \<and> j \<noteq> jint 0) ''schemaVersion'' fs
     \<and> req_field is_nonempty_string ''eventName'' fs
     \<and> req_field is_nonempty_string ''aggregateId'' fs
     \<and> req_field (\<lambda>j. case j of JDate _ \<Rightarrow> True | _ \<Rightarrow> is_nonempty_string j) ''occurredAt'' fs
     \<and> opt_field is_nonneg_int ''version'' fs
     \<and> opt_field is_nonneg_int ''sourceVersion'' fs
     \<and> opt_field (\<lambda>j. case j of JObj _ \<Rightarrow> True | _ \<Rightarrow> False) ''metadata'' fs"

definition str_of :: "fields \<Rightarrow> string \<Rightarrow> string" where
  "str_of fs k = (case map_of fs k of Some (JStr s) \<Rightarrow> s | _ \<Rightarrow> [])"

definition int_of_field :: "fields \<Rightarrow> string \<Rightarrow> int option" where
  "int_of_field fs k = (case map_of fs k of Some (JNum n) \<Rightarrow> Some (int_of_num n) | _ \<Rightarrow> None)"

definition known_keys :: "string list" where
  "known_keys = [''schemaVersion'', ''eventName'', ''aggregateId'', ''occurredAt'', ''version'',
     ''sourceVersion'', ''metadata'']"

definition read_occurred_at :: "env \<Rightarrow> fields \<Rightarrow> millis option" where
  "read_occurred_at E fs = (case map_of fs ''occurredAt'' of
      Some (JDate t) \<Rightarrow> Some t | Some (JStr s) \<Rightarrow> date_of E s | _ \<Rightarrow> None)"

definition deserialize_outbox_event :: "env \<Rightarrow> json \<Rightarrow> string \<Rightarrow> ident \<Rightarrow> error + domain_event" where
  "deserialize_outbox_event E payload expected_name expected_aggregate =
     (case payload of
        JObj fs \<Rightarrow>
          if \<not> schema_ok fs then Inl (InvalidOutboxEventError (''Invalid outbox event payload: '' @ zod_details E payload))
          else let v = (case int_of_field fs ''schemaVersion'' of
                          None \<Rightarrow> CURRENT_OUTBOX_EVENT_SCHEMA_VERSION | Some v \<Rightarrow> v)
            in if v \<noteq> CURRENT_OUTBOX_EVENT_SCHEMA_VERSION
               then Inl (InvalidOutboxEventError (''Unsupported outbox event schemaVersion: '' @ show_int v))
            else if str_of fs ''eventName'' \<noteq> expected_name
               then Inl (InvalidOutboxEventError (''Outbox eventName mismatch: row='' @ expected_name
                      @ '', payload='' @ str_of fs ''eventName''))
            else if str_of fs ''aggregateId'' \<noteq> expected_aggregate
               then Inl (InvalidOutboxEventError (''Outbox aggregateId mismatch: row='' @ expected_aggregate
                      @ '', payload='' @ str_of fs ''aggregateId''))
            else (case read_occurred_at E fs of
                None \<Rightarrow> Inl (InvalidOutboxEventError (''Invalid outbox event occurredAt: '' @ str_of fs ''occurredAt''))
              | Some t \<Rightarrow> Inr
                  \<lparr>ev_name = str_of fs ''eventName'', ev_occurred_at = t,
                   ev_aggregate_id = str_of fs ''aggregateId'', ev_version = int_of_field fs ''version'',
                   ev_source_version = int_of_field fs ''sourceVersion'',
                   ev_metadata = (case map_of fs ''metadata'' of Some (JObj m) \<Rightarrow> Some m | _ \<Rightarrow> None),
                   ev_fields = filter (\<lambda>(k, v). k \<notin> set known_keys) fs\<rparr>)
      | _ \<Rightarrow> Inl (InvalidOutboxEventError (''Invalid outbox event payload: '' @ zod_details E payload)))"

subsection \<open>Facts on objects\<close>

lemma map_of_obj_set: "map_of (obj_set k v fs) = (map_of fs)(k \<mapsto> v)"
  by (induction fs) (auto simp: fun_eq_iff)

lemma obj_set_new: "k \<notin> fst ` set fs \<Longrightarrow> obj_set k v fs = fs @ [(k, v)]"
  by (induction fs) auto

lemma obj_spread_new: "distinct (map fst b) \<Longrightarrow> fst ` set a \<inter> fst ` set b = {} \<Longrightarrow> obj_spread a b = a @ b"
  unfolding obj_spread_def by (induction b arbitrary: a) (auto simp: obj_set_new)

lemma map_of_stored: "map_of (map (\<lambda>(k, v). (k, to_stored fmt v)) fs) k = map_option (to_stored fmt) (map_of fs k)"
  by (induction fs) auto

fun no_dates :: "json \<Rightarrow> bool" where
  "no_dates (JDate t) = False"
| "no_dates (JArr xs) = list_all no_dates xs"
| "no_dates (JObj fs) = list_all (\<lambda>(k, v). no_dates v) fs"
| "no_dates _ = True"

lemma to_stored_no_dates: "no_dates j \<Longrightarrow> to_stored fmt j = j"
proof (induction j)
  case (JArr xs)
  then show ?case by (auto simp: list_all_iff intro!: map_idI)
next
  case (JObj fs)
  have "to_stored fmt v = v" if "(k, v) \<in> set fs" for k v
    using JObj.IH [of "(k, v)" v] JObj.prems that by (auto simp: list_all_iff)
  then show ?case by (auto intro!: map_idI)
qed simp_all

subsection \<open>Round trip\<close>

text \<open>What every event class of the source satisfies: non-empty name and aggregate, safe non-negative
  versions, field names that are distinct and not those of the base class, and no dates in the fields.\<close>

definition event_ok :: "domain_event \<Rightarrow> bool" where
  "event_ok ev \<longleftrightarrow> ev_name ev \<noteq> [] \<and> ev_aggregate_id ev \<noteq> []
     \<and> (\<forall>v. ev_version ev = Some v \<longrightarrow> 0 \<le> v \<and> v \<le> max_safe)
     \<and> (\<forall>v. ev_source_version ev = Some v \<longrightarrow> 0 \<le> v \<and> v \<le> max_safe)
     \<and> distinct (map fst (ev_fields ev)) \<and> fst ` set (ev_fields ev) \<inter> set known_keys = {}
     \<and> list_all (\<lambda>(k, v). no_dates v) (ev_fields ev)
     \<and> (\<forall>m. ev_metadata ev = Some m \<longrightarrow> list_all (\<lambda>(k, v). no_dates v) m)"

definition env_ok :: "env \<Rightarrow> bool" where
  "env_ok E \<longleftrightarrow> (\<forall>t. date_of E (iso_of E t) = Some t \<and> iso_of E t \<noteq> [])"

definition with_source_version :: "(ident \<Rightarrow> int option) \<Rightarrow> domain_event \<Rightarrow> domain_event" where
  "with_source_version sv ev = (case sv (ev_aggregate_id ev) of
      None \<Rightarrow> ev | Some v \<Rightarrow> ev\<lparr>ev_source_version := Some v\<rparr>)"


lemma event_ok_fields:
  assumes "event_ok ev" and "k \<in> set known_keys"
  shows "map_of (ev_fields ev) k = None"
  using assms by (auto simp: event_ok_def map_of_eq_None_iff)

lemma event_object_keys:
  assumes "event_ok ev"
  shows "distinct (map fst (event_object ev))" and "''schemaVersion'' \<notin> fst ` set (event_object ev)"
proof -
  have "fst ` set (ev_fields ev) \<inter> set known_keys = {}" "distinct (map fst (ev_fields ev))"
    using assms by (auto simp: event_ok_def)
  then show "distinct (map fst (event_object ev))" "''schemaVersion'' \<notin> fst ` set (event_object ev)"
    by (auto simp: event_object_def known_keys_def split: option.splits)
qed

lemma payload_fields:
  assumes "event_ok ev"
  shows "event_payload ev sv = JObj ((''schemaVersion'', jint 1) # (case sv (ev_aggregate_id ev) of
      None \<Rightarrow> event_object ev | Some v \<Rightarrow> obj_set ''sourceVersion'' (jint v) (event_object ev)))"
proof -
  have "obj_spread [(''schemaVersion'', jint 1)] (event_object ev) = (''schemaVersion'', jint 1) # event_object ev"
    using obj_spread_new [OF event_object_keys(1) [OF assms], of "[(''schemaVersion'', jint 1)]"]
      event_object_keys(2) [OF assms] by simp
  then show ?thesis
    by (auto simp: event_payload_def CURRENT_OUTBOX_EVENT_SCHEMA_VERSION_def obj_spread_def split: option.splits)
qed

lemma obj_set_filter: "k \<in> K \<Longrightarrow> filter (\<lambda>(k, v). k \<notin> K) (obj_set k v fs) = filter (\<lambda>(k, v). k \<notin> K) fs"
  by (induction fs) (auto split: if_splits)

lemma unknown_fields:
  assumes "event_ok ev"
  shows "filter (\<lambda>(k, v). k \<notin> set known_keys) (event_object ev) = ev_fields ev"
proof -
  have "filter (\<lambda>(k, v). k \<notin> set known_keys) (ev_fields ev) = ev_fields ev"
    using assms unfolding event_ok_def by (intro filter_True) fastforce
  then show ?thesis
    by (simp add: event_object_def known_keys_def split: option.splits)
qed


text \<open>The fields a payload is stored with.\<close>

definition stored_fields :: "(millis \<Rightarrow> string) \<Rightarrow> (ident \<Rightarrow> int option) \<Rightarrow> domain_event \<Rightarrow> fields" where
  "stored_fields fmt sv ev = map (\<lambda>(k, v). (k, to_stored fmt v)) ((''schemaVersion'', jint 1)
      # (case sv (ev_aggregate_id ev) of
           None \<Rightarrow> event_object ev | Some v \<Rightarrow> obj_set ''sourceVersion'' (jint v) (event_object ev)))"

lemma stored_payload:
  "event_ok ev \<Longrightarrow> to_stored fmt (event_payload ev sv) = JObj (stored_fields fmt sv ev)"
  by (simp add: payload_fields stored_fields_def)

lemma event_object_lookup:
  assumes "event_ok ev"
  shows "map_of (event_object ev) ''eventName'' = Some (JStr (ev_name ev))"
    and "map_of (event_object ev) ''aggregateId'' = Some (JStr (ev_aggregate_id ev))"
    and "map_of (event_object ev) ''occurredAt'' = Some (JDate (ev_occurred_at ev))"
    and "map_of (event_object ev) ''version'' = map_option jint (ev_version ev)"
    and "map_of (event_object ev) ''sourceVersion'' = map_option jint (ev_source_version ev)"
    and "map_of (event_object ev) ''metadata'' = map_option JObj (ev_metadata ev)"
    and "map_of (event_object ev) ''schemaVersion'' = None"
  using event_ok_fields [OF assms]
  by (auto simp: event_object_def known_keys_def map_add_def split: option.splits)

lemma stored_lookup:
  assumes "event_ok ev"
  shows "map_of (stored_fields fmt sv ev) k =
    map_option (to_stored fmt) (if k = ''schemaVersion'' then Some (jint 1)
      else if k = ''sourceVersion'' then map_option jint (case sv (ev_aggregate_id ev) of
             None \<Rightarrow> ev_source_version ev | Some v \<Rightarrow> Some v)
      else map_of (event_object ev) k)"
  unfolding stored_fields_def map_of_stored
  using event_object_lookup(5) [OF assms]
  by (auto simp: map_of_obj_set split: option.splits)

lemma map_option_jint [simp]: "map_option (to_stored fmt) (map_option jint v) = map_option jint v"
  by (cases v) auto

lemma stored_fields_schema:
  assumes ok: "event_ok ev" and env: "env_ok E" and sv: "\<And>a v. sv a = Some v \<Longrightarrow> 0 \<le> v \<and> v \<le> max_safe"
  shows "schema_ok (stored_fields (iso_of E) sv ev)"
proof -
  note l = stored_lookup [OF ok] event_object_lookup [OF ok]
  have nn: "is_nonneg_int (jint v)" if "0 \<le> v" "v \<le> max_safe" for v
    using that by (simp add: safe_int_def)
  have "jint 1 \<noteq> jint 0" "is_nonneg_int (jint 1)"
    by (simp_all add: num_of_int_def safe_int_def max_safe_def)
  moreover have "ev_name ev \<noteq> []" "ev_aggregate_id ev \<noteq> []"
      "\<And>v. ev_version ev = Some v \<Longrightarrow> 0 \<le> v \<and> v \<le> max_safe"
      "\<And>v. ev_source_version ev = Some v \<Longrightarrow> 0 \<le> v \<and> v \<le> max_safe"
    using ok by (auto simp: event_ok_def)
  moreover have "iso_of E (ev_occurred_at ev) \<noteq> []" using env by (simp add: env_ok_def)
  ultimately show ?thesis
    using nn sv unfolding schema_ok_def opt_field_def req_field_def
    by (auto simp: l split: option.splits simp del: is_nonneg_int.simps)
qed

lemma stored_unknown_fields:
  assumes ok: "event_ok ev"
  shows "filter (\<lambda>(k, v). k \<notin> set known_keys) (stored_fields fmt sv ev) = ev_fields ev"
proof -
  let ?P = "\<lambda>(k, v :: json). k \<notin> set known_keys"
  have f: "filter ?P (map (\<lambda>(k, v). (k, to_stored fmt v)) xs) = map (\<lambda>(k, v). (k, to_stored fmt v)) (filter ?P xs)" for xs
    by (induction xs) auto
  have "''sourceVersion'' \<in> set known_keys" "''schemaVersion'' \<in> set known_keys"
    by (simp_all add: known_keys_def)
  then have "filter ?P (stored_fields fmt sv ev) = map (\<lambda>(k, v). (k, to_stored fmt v)) (ev_fields ev)"
    unfolding stored_fields_def f
    using unknown_fields [OF ok] obj_set_filter [of "''sourceVersion''" "set known_keys"]
    by (auto split: option.splits)
  also have "\<dots> = ev_fields ev"
    using ok to_stored_no_dates by (intro map_idI) (auto simp: event_ok_def list_all_iff)
  finally show ?thesis .
qed

lemma deserialize_stored:
  assumes ok: "event_ok ev" and env: "env_ok E" and sv: "\<And>a v. sv a = Some v \<Longrightarrow> 0 \<le> v \<and> v \<le> max_safe"
  shows "deserialize_outbox_event E (to_stored (iso_of E) (event_payload ev sv)) (ev_name ev) (ev_aggregate_id ev)
    = Inr (with_source_version sv ev)"
proof -
  let ?fs = "stored_fields (iso_of E) sv ev"
  note l = stored_lookup [OF ok] event_object_lookup [OF ok]
  have "to_stored (iso_of E) (JObj m) = JObj m" if "ev_metadata ev = Some m" for m
    using ok that by (intro to_stored_no_dates) (simp add: event_ok_def)
  then have meta: "(case map_of ?fs ''metadata'' of Some (JObj m) \<Rightarrow> Some m | _ \<Rightarrow> None) = ev_metadata ev"
    by (cases "ev_metadata ev") (auto simp: l simp del: to_stored.simps)
  have ver: "int_of_field ?fs ''version'' = ev_version ev"
    by (cases "ev_version ev") (auto simp: int_of_field_def l)
  have src: "int_of_field ?fs ''sourceVersion'' = (case sv (ev_aggregate_id ev) of
             None \<Rightarrow> ev_source_version ev | Some v \<Rightarrow> Some v)"
    by (cases "ev_source_version ev") (auto simp: int_of_field_def l split: option.splits)
  have name: "str_of ?fs ''eventName'' = ev_name ev" "str_of ?fs ''aggregateId'' = ev_aggregate_id ev"
    by (simp_all add: str_of_def l)
  have sch: "int_of_field ?fs ''schemaVersion'' = Some 1"
    by (simp add: int_of_field_def l)
  have occ: "read_occurred_at E ?fs = Some (ev_occurred_at ev)"
    using env by (simp add: read_occurred_at_def l env_ok_def)
  have "schema_ok ?fs" by (rule stored_fields_schema [OF assms])
  then have "deserialize_outbox_event E (to_stored (iso_of E) (event_payload ev sv)) (ev_name ev) (ev_aggregate_id ev)
      = Inr \<lparr>ev_name = ev_name ev, ev_occurred_at = ev_occurred_at ev, ev_aggregate_id = ev_aggregate_id ev,
          ev_version = ev_version ev, ev_source_version = (case sv (ev_aggregate_id ev) of
             None \<Rightarrow> ev_source_version ev | Some v \<Rightarrow> Some v),
          ev_metadata = ev_metadata ev, ev_fields = ev_fields ev\<rparr>"
    by (simp add: stored_payload [OF ok] deserialize_outbox_event_def sch name occ ver src meta
        stored_unknown_fields [OF ok] CURRENT_OUTBOX_EVENT_SCHEMA_VERSION_def)
  then show ?thesis
    by (cases "sv (ev_aggregate_id ev)") (simp_all add: with_source_version_def)
qed

subsection \<open>Properties\<close>

definition sample_env :: env where
  "sample_env = \<lparr>gen_id = (\<lambda>n. ''row-'' @ show_nat n), iso_of = show_int,
     date_of = (\<lambda>s. if s \<noteq> [] \<and> hd s = CHR ''-'' then Some (- int (read_nat 0 (tl s))) else Some (int (read_nat 0 s))),
     zod_details = (\<lambda>_. ''invalid'')\<rparr>"

lemma sample_env_ok: "env_ok sample_env"
proof -
  have h: "hd (show_nat n) \<noteq> CHR ''-''" for n
    using show_nat_digits [of "hd (show_nat n)" n] by (auto simp: is_digit_def code_of_def)
  show ?thesis
    using h by (auto simp: env_ok_def sample_env_def show_int_def read_show_nat)
qed

text \<open>C37: What the outbox stores it reads back: deserializing the payload of a persisted event under its
  row's identity gives the event itself, name, aggregate, time, metadata and all subclass fields, with the
  aggregate's new version as its source version.\<close>

theorem outbox_round_trip:
  assumes "event_ok ev" and "env_ok E" and "\<And>a v. sv a = Some v \<Longrightarrow> 0 \<le> v \<and> v \<le> max_safe"
  shows "deserialize_outbox_event E (ob_payload (outbox_row_of (iso_of E) sv i ev))
      (ob_event_name (outbox_row_of (iso_of E) sv i ev)) (ob_aggregate_id (outbox_row_of (iso_of E) sv i ev))
    = Inr (with_source_version sv ev)"
  using deserialize_stored [OF assms] by (simp add: outbox_row_of_def)

theorem outbox_round_trip_witness:
  "deserialize_outbox_event sample_env
      (ob_payload (outbox_row_of show_int [''o1'' \<mapsto> 4] ''r1'' (order_status_changed_event 9 ''o1'' PENDING PROCESSING ''u1'')))
      ''OrderStatusChanged'' ''o1''
    = Inr ((order_status_changed_event 9 ''o1'' PENDING PROCESSING ''u1'')\<lparr>ev_source_version := Some 4\<rparr>)"
proof -
  let ?ev = "order_status_changed_event 9 ''o1'' PENDING PROCESSING ''u1''"
  have "event_ok ?ev"
    by (auto simp: event_ok_def order_status_changed_event_def base_domain_event_def Let_def known_keys_def)
  moreover have "[''o1'' \<mapsto> 4] a = Some v \<Longrightarrow> 0 \<le> v \<and> v \<le> max_safe" for a and v :: int
    by (auto simp: max_safe_def split: if_splits)
  ultimately show ?thesis
    using outbox_round_trip [of ?ev sample_env "[''o1'' \<mapsto> 4]" "''r1''"] sample_env_ok
    by (simp add: outbox_row_of_def with_source_version_def sample_env_def)
qed

text \<open>A payload whose identity differs from its row's is rejected: an event is only ever delivered
  under the name and the aggregate of the row that carries it.\<close>

theorem outbox_identity_checked:
  assumes "deserialize_outbox_event E payload name agg = Inr ev"
  shows "ev_name ev = name \<and> ev_aggregate_id ev = agg \<and> name \<noteq> [] \<and> agg \<noteq> []
    \<and> (\<forall>v. ev_source_version ev = Some v \<longrightarrow> 0 \<le> v \<and> v \<le> max_safe)"
proof -
  obtain fs where fs: "payload = JObj fs" "schema_ok fs" "str_of fs ''eventName'' = name"
      "str_of fs ''aggregateId'' = agg" "ev_name ev = name" "ev_aggregate_id ev = agg"
      "ev_source_version ev = int_of_field fs ''sourceVersion''"
    using assms by (auto simp: deserialize_outbox_event_def Let_def split: json.splits if_splits option.splits)
  have ne: "str_of fs k \<noteq> []" if "req_field is_nonempty_string k fs" for k
    using that by (auto simp: req_field_def str_of_def split: option.splits json.splits)
  have nn: "0 \<le> v \<and> v \<le> max_safe" if "opt_field is_nonneg_int k fs" "int_of_field fs k = Some v" for k v
    using that by (auto simp: opt_field_def int_of_field_def safe_int_def elim!: is_safe_integer_E
        split: option.splits json.splits)
  show ?thesis
    using fs ne nn by (auto simp: schema_ok_def)
qed

theorem outbox_identity_checked_witness:
  "\<exists>ev. deserialize_outbox_event sample_env (JObj [(''eventName'', JStr ''ReviewCreated''),
        (''aggregateId'', JStr ''p1''), (''occurredAt'', JStr ''12''), (''productId'', JStr ''p1'')])
        ''ReviewCreated'' ''p1'' = Inr ev \<and> ev_name ev = ''ReviewCreated'' \<and> ev_aggregate_id ev = ''p1''"
proof -
  obtain ev where "deserialize_outbox_event sample_env (JObj [(''eventName'', JStr ''ReviewCreated''),
        (''aggregateId'', JStr ''p1''), (''occurredAt'', JStr ''12''), (''productId'', JStr ''p1'')])
        ''ReviewCreated'' ''p1'' = Inr ev"
    by (simp add: deserialize_outbox_event_def schema_ok_def opt_field_def req_field_def str_of_def
        int_of_field_def read_occurred_at_def sample_env_def CURRENT_OUTBOX_EVENT_SCHEMA_VERSION_def)
  then show ?thesis
    using outbox_identity_checked by blast
qed

end
