(* ===== verification/Outbox_Relay.thy ===== *)
theory Outbox_Relay
  imports Outbox
begin

text \<open>
  The relay that delivers outbox rows to the event bus: the queries of
  \<^verbatim>\<open>core/outbox/prisma-outbox-relay.store.ts\<close> and the poll loop of \<^verbatim>\<open>core/outbox/outbox-relay.ts\<close>. The
  database clock and the process clock are the argument \<open>now\<close>. \<^verbatim>\<open>withRetry\<close> of the library async-retry is
  the argument \<open>retry\<close>, whose documented behaviour is \<open>retry_spec\<close>.

  The second half is the protocol between several relays and the table: an inductive step relation in
  which any owner may claim, renew, publish, fail or crash at any time, together with writers,
  requeues and cleanups.
\<close>

subsection \<open>The store\<close>

definition POLL_INTERVAL_MS :: int where "POLL_INTERVAL_MS = 2000"
definition BATCH_SIZE :: nat where "BATCH_SIZE = 50"
definition MAX_ATTEMPTS :: nat where "MAX_ATTEMPTS = 10"
definition LOCK_LEASE_SECONDS :: int where "LOCK_LEASE_SECONDS = 60"

record claimed_event =
  ce_id :: ident
  ce_event_name :: string
  ce_aggregate_id :: ident
  ce_payload :: json
  ce_attempts :: nat
  ce_occurred_at :: millis

definition claimable :: "millis \<Rightarrow> nat \<Rightarrow> outbox_row \<Rightarrow> bool" where
  "claimable now max_attempts r \<longleftrightarrow>
     ob_published_at r = None \<and> ob_dead_lettered_at r = None \<and> ob_attempts r < max_attempts
     \<and> (case ob_lease_until r of None \<Rightarrow> True | Some t \<Rightarrow> t < now)"

definition candidates :: "millis \<Rightarrow> nat \<Rightarrow> nat \<Rightarrow> outbox_row list \<Rightarrow> outbox_row list" where
  "candidates now batch max_attempts rows =
     take batch (sort_key ob_occurred_at (filter (claimable now max_attempts) rows))"

definition to_claimed :: "outbox_row \<Rightarrow> claimed_event" where
  "to_claimed r = \<lparr>ce_id = ob_id r, ce_event_name = ob_event_name r, ce_aggregate_id = ob_aggregate_id r,
     ce_payload = ob_payload r, ce_attempts = ob_attempts r, ce_occurred_at = ob_occurred_at r\<rparr>"

definition claim_batch ::
    "millis \<Rightarrow> string \<Rightarrow> nat \<Rightarrow> nat \<Rightarrow> int \<Rightarrow> outbox_row list \<Rightarrow> claimed_event list \<times> outbox_row list" where
  "claim_batch now owner batch max_attempts lease rows =
     (let cs = candidates now batch max_attempts rows
      in (map to_claimed cs,
          update_where (\<lambda>r. ob_id r \<in> ob_id ` set cs)
            (\<lambda>r. r\<lparr>ob_locked_at := Some now, ob_lock_owner := Some owner,
                   ob_lease_until := Some (now + lease * 1000)\<rparr>) rows))"

text \<open>\<open>OutboxRelayUpdate\<close>: a missing field leaves its column as it is.\<close>

record relay_update =
  up_published_at :: "millis option"
  up_attempts_increment :: nat
  up_lease_until :: "millis option"
  up_dead_lettered_at :: "millis option option"
  up_last_error :: "string option"

text \<open>Both updates of the relay release the lock; \<open>apply_update\<close> is the effect of the data object.\<close>

definition apply_update :: "relay_update \<Rightarrow> outbox_row \<Rightarrow> outbox_row" where
  "apply_update u r = r\<lparr>
     ob_published_at := (case up_published_at u of None \<Rightarrow> ob_published_at r | Some t \<Rightarrow> Some t),
     ob_attempts := ob_attempts r + up_attempts_increment u,
     ob_locked_at := None, ob_lock_owner := None, ob_lease_until := up_lease_until u,
     ob_dead_lettered_at := (case up_dead_lettered_at u of None \<Rightarrow> ob_dead_lettered_at r | Some d \<Rightarrow> d),
     ob_last_error := (case up_last_error u of None \<Rightarrow> ob_last_error r | Some e \<Rightarrow> Some e)\<rparr>"

definition owned :: "millis \<Rightarrow> string \<Rightarrow> outbox_row \<Rightarrow> bool" where
  "owned now owner r \<longleftrightarrow> ob_lock_owner r = Some owner \<and> ob_published_at r = None
     \<and> ob_dead_lettered_at r = None \<and> (case ob_lease_until r of None \<Rightarrow> False | Some t \<Rightarrow> now < t)"

definition update_claimed ::
    "millis \<Rightarrow> ident \<Rightarrow> string \<Rightarrow> relay_update \<Rightarrow> outbox_row list \<Rightarrow> bool \<times> outbox_row list" where
  "update_claimed now i owner u rows =
     (let p = (\<lambda>r. ob_id r = i \<and> owned now owner r)
      in (count_where p rows = 1, update_where p (apply_update u) rows))"

definition renew_claims ::
    "millis \<Rightarrow> string \<Rightarrow> ident list \<Rightarrow> int \<Rightarrow> outbox_row list \<Rightarrow> ident list \<times> outbox_row list" where
  "renew_claims now owner ids lease rows =
     (if ids = [] then ([], rows)
      else let p = (\<lambda>r. ob_id r \<in> set ids \<and> owned now owner r)
        in (map ob_id (filter p rows),
            update_where p (\<lambda>r. r\<lparr>ob_locked_at := Some now, ob_lease_until := Some (now + lease * 1000)\<rparr>) rows))"

definition observability_snapshot :: "outbox_row list \<Rightarrow> millis option \<times> nat" where
  "observability_snapshot rows =
     (let pending = map ob_occurred_at (filter (\<lambda>r. ob_published_at r = None \<and> ob_dead_lettered_at r = None) rows)
      in (if pending = [] then None else Some (Min (set pending)),
          count_where (\<lambda>r. ob_published_at r = None \<and> ob_dead_lettered_at r \<noteq> None) rows))"

subsection \<open>Publishing a row\<close>

text \<open>The documented behaviour of async-retry: it runs the function, and while it throws runs it again,
  at most \<open>n\<close> more times; the last outcome is the outcome.\<close>

type_synonym retrier = "nat \<Rightarrow> unit db_op \<Rightarrow> unit db_op"

definition retry_spec :: "retrier \<Rightarrow> bool" where
  "retry_spec retry \<longleftrightarrow> (\<forall>f db. retry 0 f db = f db)
     \<and> (\<forall>n f db. retry (Suc n) f db = (case f db of (Inl e, db') \<Rightarrow> retry n f db' | (Inr a, db') \<Rightarrow> (Inr a, db')))"

fun join :: "string \<Rightarrow> string list \<Rightarrow> string" where
  "join sep [] = []"
| "join sep [x] = x"
| "join sep (x # y # xs) = x @ sep @ join sep (y # xs)"

fun error_message :: "error \<Rightarrow> string" where
  "error_message (DomainError e) = domain_message e"
| "error_message (ApplicationError e) = application_message e"
| "error_message (PlainError m) = m"
| "error_message (SagaTimeoutError m) = m"
| "error_message (ProjectionDependencyError oid) = ''Order history projection prerequisite is missing for '' @ oid"
| "error_message (InvalidOutboxEventError m) = m"
| "error_message _ = []"

definition deliver :: "env \<Rightarrow> event_bus \<Rightarrow> tracker \<Rightarrow> claimed_event \<Rightarrow> unit db_op" where
  "deliver E bus tr row db =
     (case deserialize_outbox_event E (ce_payload row) (ce_event_name row) (ce_aggregate_id row) of
        Inl e \<Rightarrow> (Inl e, db)
      | Inr ev \<Rightarrow> (case publish bus ev (Some (ce_id row, tr)) db of (res, db') \<Rightarrow>
          (if pub_success res then Inr ()
           else Inl (PlainError (''Handlers failed: '' @ join '', '' (pub_failed_handlers res))), db')))"

definition published_update :: "millis \<Rightarrow> relay_update" where
  "published_update now = \<lparr>up_published_at = Some now, up_attempts_increment = 0, up_lease_until = None,
     up_dead_lettered_at = None, up_last_error = None\<rparr>"

text \<open>\<open>attempts\<close> is the count the row had when it was claimed.\<close>

definition failed_update :: "millis \<Rightarrow> nat \<Rightarrow> nat \<Rightarrow> string \<Rightarrow> relay_update" where
  "failed_update now max_attempts attempts msg =
     (let dead = (max_attempts \<le> attempts + 1)
      in \<lparr>up_published_at = None, up_attempts_increment = 1,
          up_lease_until = (if dead then None else Some (now + min 60000 (1000 * 2 ^ attempts))),
          up_dead_lettered_at = Some (if dead then Some now else None),
          up_last_error = Some msg\<rparr>)"

definition set_outbox :: "outbox_row list \<Rightarrow> database \<Rightarrow> database" where
  "set_outbox rows db = db\<lparr>outbox_events := rows\<rparr>"

definition publish_row ::
    "env \<Rightarrow> retrier \<Rightarrow> event_bus \<Rightarrow> tracker \<Rightarrow> string \<Rightarrow> nat \<Rightarrow> millis \<Rightarrow> claimed_event \<Rightarrow> database \<Rightarrow> database" where
  "publish_row E retry bus tr owner max_attempts now row db =
     (case retry 2 (deliver E bus tr row) db of
        (Inr _, db') \<Rightarrow>
          set_outbox (snd (update_claimed now (ce_id row) owner (published_update now) (outbox_events db'))) db'
      | (Inl e, db') \<Rightarrow>
          set_outbox (snd (update_claimed now (ce_id row) owner
            (failed_update now max_attempts (ce_attempts row) (error_message e)) (outbox_events db'))) db')"

text \<open>One poll: claim a batch, then publish its rows in order, skipping those whose lease a heartbeat has
  found lost (\<open>active\<close>). \<open>clock i\<close> is the time when the \<open>i\<close>-th row is updated.\<close>

fun publish_rows ::
    "env \<Rightarrow> retrier \<Rightarrow> event_bus \<Rightarrow> tracker \<Rightarrow> string \<Rightarrow> nat \<Rightarrow> (nat \<Rightarrow> millis) \<Rightarrow> (ident \<Rightarrow> bool)
      \<Rightarrow> nat \<Rightarrow> claimed_event list \<Rightarrow> database \<Rightarrow> database" where
  "publish_rows E retry bus tr owner mx clock active i [] db = db"
| "publish_rows E retry bus tr owner mx clock active i (row # rows) db =
     publish_rows E retry bus tr owner mx clock active (Suc i) rows
       (if active (ce_id row) then publish_row E retry bus tr owner mx (clock i) row db else db)"

definition poll_once ::
    "env \<Rightarrow> retrier \<Rightarrow> event_bus \<Rightarrow> tracker \<Rightarrow> string \<Rightarrow> nat \<Rightarrow> nat \<Rightarrow> int \<Rightarrow> (nat \<Rightarrow> millis) \<Rightarrow> (ident \<Rightarrow> bool)
      \<Rightarrow> database \<Rightarrow> database" where
  "poll_once E retry bus tr owner batch mx lease clock active db =
     (case claim_batch (clock 0) owner batch mx lease (outbox_events db) of (rows, events) \<Rightarrow>
        publish_rows E retry bus tr owner mx clock active 1 rows (set_outbox events db))"

subsection \<open>Facts on the store\<close>

lemma candidates_claimable: "r \<in> set (candidates now b mx rows) \<Longrightarrow> r \<in> set rows \<and> claimable now mx r"
  by (auto simp: candidates_def dest!: in_set_takeD)

lemma claim_batch_ids: "map ob_id (snd (claim_batch now o' b mx l rows)) = map ob_id rows"
  by (simp add: claim_batch_def Let_def map_update_where)

lemma apply_update_id [simp]: "ob_id (apply_update u r) = ob_id r"
  by (simp add: apply_update_def)

lemma update_claimed_ids: "map ob_id (snd (update_claimed now i ow u rows)) = map ob_id rows"
  by (simp add: update_claimed_def Let_def map_update_where)

lemma renew_claims_ids: "map ob_id (snd (renew_claims now ow is l rows)) = map ob_id rows"
  by (simp add: renew_claims_def Let_def map_update_where)

text \<open>Two rows of a table with unique identifiers that have the same identifier are the same.\<close>

lemma unique_row: "distinct (map ob_id rows) \<Longrightarrow> r \<in> set rows \<Longrightarrow> r' \<in> set rows \<Longrightarrow> ob_id r = ob_id r' \<Longrightarrow> r = r'"
  by (simp add: distinct_map inj_on_def)

lemma in_update_whereE:
  assumes "r' \<in> set (update_where p f rows)"
  obtains r where "r \<in> set rows" and "r' = (if p r then f r else r)"
  using assms by (auto simp: set_update_where)

end
