(* ===== verification/Outbox_Maintenance.thy ===== *)
theory Outbox_Maintenance
  imports Outbox_Relay "HOL-Library.List_Lexorder" "HOL-Library.Product_Lexorder"
begin

text \<open>
  Maintenance of the outbox table: the queries of \<^verbatim>\<open>core/outbox/prisma-outbox-maintenance.store.ts\<close>
  and the service \<^verbatim>\<open>core/outbox/outbox-maintenance.service.ts\<close> that replays dead letters and deletes
  published events. \<open>uniq\<close> is \<^verbatim>\<open>[...new Set(xs)]\<close>.
\<close>

definition uniq :: "'a list \<Rightarrow> 'a list" where
  "uniq xs = rev (remdups (rev xs))"

lemma set_uniq [simp]: "set (uniq xs) = set xs"
  by (simp add: uniq_def)

lemma distinct_uniq [simp]: "distinct (uniq xs)"
  by (simp add: uniq_def)

lemma uniq_distinct: "distinct xs \<Longrightarrow> uniq xs = xs"
  by (simp add: uniq_def distinct_remdups_id)

definition is_dead_letter :: "outbox_row \<Rightarrow> bool" where
  "is_dead_letter r \<longleftrightarrow> ob_published_at r = None \<and> ob_dead_lettered_at r \<noteq> None"

definition find_dead_letters_by_ids :: "ident list \<Rightarrow> outbox_row list \<Rightarrow> outbox_row list" where
  "find_dead_letters_by_ids ids rows =
     (let us = uniq ids
      in if us = [] then []
         else sort_key (\<lambda>r. (ob_occurred_at r, ob_id r)) (filter (\<lambda>r. ob_id r \<in> set us \<and> is_dead_letter r) rows))"

definition requeued :: "outbox_row \<Rightarrow> outbox_row" where
  "requeued r = r\<lparr>ob_attempts := 0, ob_dead_lettered_at := None, ob_last_error := None,
                  ob_locked_at := None, ob_lock_owner := None, ob_lease_until := None\<rparr>"

definition requeue_dead_letters :: "ident list \<Rightarrow> outbox_row list \<Rightarrow> (error + ident list) \<times> outbox_row list" where
  "requeue_dead_letters ids rows =
     (let us = uniq ids; p = (\<lambda>r. ob_id r \<in> set us \<and> is_dead_letter r)
      in if us = [] then (Inr [], rows)
         else if count_where p rows \<noteq> length us then (Inr [], rows)
         else let rows' = update_where p requeued rows
           in if count_where p rows \<noteq> length us
              then (Inl (PlainError ''Outbox dead-letter replay selection changed while requeueing''), rows)
              else (Inr us, rows'))"

definition count_published_before :: "millis \<Rightarrow> outbox_row list \<Rightarrow> nat" where
  "count_published_before cutoff rows =
     count_where (\<lambda>r. case ob_published_at r of None \<Rightarrow> False | Some t \<Rightarrow> t < cutoff) rows"

definition delete_published_before :: "millis \<Rightarrow> int \<Rightarrow> outbox_row list \<Rightarrow> ident list \<times> outbox_row list" where
  "delete_published_before cutoff limit rows =
     (if limit \<le> 0 then ([], rows)
      else let eligible = filter (\<lambda>r. case ob_published_at r of None \<Rightarrow> False | Some t \<Rightarrow> t < cutoff) rows;
               victims = take (nat limit) (sort_key (\<lambda>r. (the (ob_published_at r), ob_id r)) eligible)
           in (map ob_id victims, filter (\<lambda>r. ob_id r \<notin> ob_id ` set victims) rows))"

subsection \<open>The service\<close>

definition normalize_ids :: "string list \<Rightarrow> ident list" where
  "normalize_ids ids = uniq (filter (\<lambda>i. i \<noteq> []) (map trim ids))"

record replay_result =
  rp_events :: "outbox_row list"
  rp_replayed_ids :: "ident list"

definition replay_dead_letters :: "string list \<Rightarrow> outbox_row list \<Rightarrow> (error + replay_result) \<times> outbox_row list" where
  "replay_dead_letters ids rows =
     (let us = normalize_ids ids
      in if us = [] then (Inl (PlainError ''At least one outbox event id is required''), rows)
         else let events = find_dead_letters_by_ids us rows;
                  ineligible = filter (\<lambda>i. i \<notin> ob_id ` set events) us
           in if ineligible \<noteq> []
              then (Inl (PlainError (''Outbox events are missing or not dead-lettered: '' @ join '', '' ineligible)), rows)
              else case requeue_dead_letters us rows of
                (Inl e, rows') \<Rightarrow> (Inl e, rows')
              | (Inr replayed, rows') \<Rightarrow>
                  if length replayed \<noteq> length us
                  then (Inl (PlainError ''Outbox dead-letter selection changed before replay could be committed''), rows')
                  else (Inr \<lparr>rp_events = events, rp_replayed_ids = replayed\<rparr>, rows'))"

record cleanup_result =
  cl_eligible_count :: nat
  cl_deleted_ids :: "ident list"
  cl_dry_run :: bool

text \<open>The cutoff is \<^term>\<open>None\<close> for an invalid date.\<close>

definition cleanup_published ::
    "millis option \<Rightarrow> js_num \<Rightarrow> bool option \<Rightarrow> outbox_row list \<Rightarrow> (error + cleanup_result) \<times> outbox_row list" where
  "cleanup_published cutoff limit dry_run rows =
     (case cutoff of
        None \<Rightarrow> (Inl (PlainError ''Cleanup cutoff must be a valid date''), rows)
      | Some c \<Rightarrow>
          if \<not> is_safe_integer limit \<or> \<not> js_less (Fin 0) limit
          then (Inl (PlainError ''Cleanup limit must be a positive safe integer''), rows)
          else let eligible = count_published_before c rows;
                   dry = (case dry_run of None \<Rightarrow> True | Some b \<Rightarrow> b)
            in if dry \<or> eligible = 0
               then (Inr \<lparr>cl_eligible_count = eligible, cl_deleted_ids = [], cl_dry_run = dry\<rparr>, rows)
               else case delete_published_before c (int_of_num limit) rows of (deleted, rows') \<Rightarrow>
                 (Inr \<lparr>cl_eligible_count = eligible, cl_deleted_ids = deleted, cl_dry_run = False\<rparr>, rows'))"

subsection \<open>Facts\<close>

lemma requeue_ids: "map ob_id (snd (requeue_dead_letters ids rows)) = map ob_id rows"
  by (simp add: requeue_dead_letters_def Let_def map_update_where requeued_def)

lemma delete_subset: "set (snd (delete_published_before c l rows)) \<subseteq> set rows"
  by (auto simp: delete_published_before_def Let_def)

lemma delete_distinct: "distinct (map ob_id rows) \<Longrightarrow> distinct (map ob_id (snd (delete_published_before c l rows)))"
  by (simp add: delete_published_before_def Let_def distinct_map_filter)

lemma delete_keeps:
  assumes "distinct (map ob_id rows)" and "r \<in> set rows" and "r \<notin> set (snd (delete_published_before c l rows))"
  shows "\<exists>t. ob_published_at r = Some t \<and> t < c"
proof -
  let ?el = "filter (\<lambda>r. case ob_published_at r of None \<Rightarrow> False | Some t \<Rightarrow> t < c) rows"
  let ?v = "take (nat l) (sort_key (\<lambda>r. (the (ob_published_at r), ob_id r)) ?el)"
  have "ob_id r \<in> ob_id ` set ?v"
    using assms(2,3) by (auto simp: delete_published_before_def Let_def split: if_splits)
  then obtain v where v: "v \<in> set ?v" "ob_id r = ob_id v" by blast
  then have "v \<in> set ?el" by (auto dest: in_set_takeD)
  then have "v = r" using unique_row [OF assms(1) assms(2), of v] v(2) by auto
  then show ?thesis using \<open>v \<in> set ?el\<close> by (auto split: option.splits)
qed

text \<open>A selection of unique identifiers is complete when as many rows match as there are identifiers.\<close>

lemma count_all_ids:
  assumes "distinct (map ob_id rows)" and "distinct us"
  shows "count_where (\<lambda>r. ob_id r \<in> set us \<and> P r) rows = length us \<longleftrightarrow>
    (\<forall>i \<in> set us. \<exists>r \<in> set rows. ob_id r = i \<and> P r)"
proof -
  let ?f = "filter (\<lambda>r. ob_id r \<in> set us \<and> P r) rows"
  have d: "distinct (map ob_id ?f)" using assms(1) by (simp add: distinct_map_filter)
  have sub: "ob_id ` set ?f \<subseteq> set us" by auto
  have "length ?f = card (ob_id ` set ?f)"
    using distinct_card [OF d] by simp
  moreover have "length us = card (set us)" using distinct_card [OF assms(2)] by simp
  moreover have "card (ob_id ` set ?f) = card (set us) \<longleftrightarrow> ob_id ` set ?f = set us"
    using card_subset_eq [OF _ sub] by auto
  moreover have "ob_id ` set ?f = set us \<longleftrightarrow> (\<forall>i \<in> set us. \<exists>r \<in> set rows. ob_id r = i \<and> P r)"
  proof -
    have "i \<in> ob_id ` set ?f \<longleftrightarrow> i \<in> set us \<and> (\<exists>r \<in> set rows. ob_id r = i \<and> P r)" for i
      by auto
    then show ?thesis by blast
  qed
  ultimately show ?thesis by (simp add: count_where_def)
qed

subsection \<open>Properties\<close>

definition sample_row :: "ident \<Rightarrow> nat \<Rightarrow> millis option \<Rightarrow> millis option \<Rightarrow> outbox_row" where
  "sample_row i n pub dead = \<lparr>ob_id = i, ob_event_name = ''ReviewCreated'', ob_aggregate_id = ''p1'',
     ob_payload = JObj [(''eventName'', JStr ''ReviewCreated''), (''aggregateId'', JStr ''p1''),
       (''occurredAt'', JStr ''12'')], ob_occurred_at = 12, ob_published_at = pub, ob_attempts = n,
     ob_locked_at = None, ob_lock_owner = None, ob_lease_until = None, ob_dead_lettered_at = dead,
     ob_last_error = None\<rparr>"

text \<open>Replaying dead letters is all or nothing: it either returns an error and changes no row, or every
  requested event was a dead letter and exactly those rows are reset to claimable with no attempts.\<close>

theorem replay_all_or_nothing:
  assumes "distinct (map ob_id rows)"
  shows "case replay_dead_letters ids rows of
      (Inl e, rows') \<Rightarrow> rows' = rows
    | (Inr res, rows') \<Rightarrow> rp_replayed_ids res = normalize_ids ids \<and> normalize_ids ids \<noteq> []
        \<and> (\<forall>i \<in> set (normalize_ids ids). \<exists>r \<in> set rows. ob_id r = i \<and> is_dead_letter r)
        \<and> rows' = map (\<lambda>r. if ob_id r \<in> set (normalize_ids ids) then requeued r else r) rows"
proof -
  let ?us = "normalize_ids ids"
  have us: "distinct ?us" "uniq ?us = ?us"
    by (simp_all add: normalize_ids_def uniq_distinct)
  let ?p = "\<lambda>r. ob_id r \<in> set ?us \<and> is_dead_letter r"
  have same: "update_where ?p requeued rows = map (\<lambda>r. if ob_id r \<in> set ?us then requeued r else r) rows"
    if "\<forall>i \<in> set ?us. \<exists>r \<in> set rows. ob_id r = i \<and> is_dead_letter r"
    unfolding update_where_def using that unique_row [OF assms] by (auto intro!: map_cong)
  show ?thesis
    using us same count_all_ids [OF assms us(1), of is_dead_letter]
    by (auto simp: replay_dead_letters_def requeue_dead_letters_def Let_def split: prod.splits sum.splits if_splits)
qed

theorem replay_all_or_nothing_witness:
  "case replay_dead_letters ['' e2 '', ''e2''] [sample_row ''e1'' 1 None None, sample_row ''e2'' 10 None (Some 90)] of
      (Inl e, rows') \<Rightarrow> rows' = [sample_row ''e1'' 1 None None, sample_row ''e2'' 10 None (Some 90)]
    | (Inr res, rows') \<Rightarrow> rp_replayed_ids res = [''e2'']"
proof -
  have "normalize_ids ['' e2 '', ''e2''] = [''e2'']" by code_simp
  then show ?thesis
    using replay_all_or_nothing [of "[sample_row ''e1'' 1 None None, sample_row ''e2'' 10 None (Some 90)]" "['' e2 '', ''e2'']"]
    by (auto simp: sample_row_def split: prod.splits sum.splits)
qed

text \<open>Cleaning up deletes only events published before the cutoff, at most the limit, the oldest first,
  and nothing at all unless dry run was switched off: no pending or dead-lettered event is ever lost.\<close>

theorem cleanup_deletes_only_published:
  assumes "distinct (map ob_id rows)" and "cleanup_published (Some c) limit dry rows = (Inr res, rows')"
  shows "set rows' \<subseteq> set rows
    \<and> (\<forall>r \<in> set rows - set rows'. \<exists>t. ob_published_at r = Some t \<and> t < c)
    \<and> (dry \<noteq> Some False \<longrightarrow> rows' = rows)
    \<and> int (length (cl_deleted_ids res)) \<le> int_of_num limit"
proof -
  have lim: "is_safe_integer limit" "js_less (Fin 0) limit"
    using assms(2) by (auto simp: cleanup_published_def split: if_splits)
  then obtain n where n: "limit = num_of_int n" "0 < n" by (rule quantity_E)
  have "length (fst (delete_published_before c n rows)) \<le> nat n"
    by (simp add: delete_published_before_def Let_def)
  then have len: "int (length (fst (delete_published_before c n rows))) \<le> n"
    using n(2) by linarith
  show ?thesis
  proof (cases "rows' = rows")
    case True
    then show ?thesis
      using assms(2) lim n len
      by (auto simp: cleanup_published_def Let_def split: if_splits prod.splits)
  next
    case False
    then have "delete_published_before c n rows = (cl_deleted_ids res, rows')" "dry = Some False"
      using assms(2) lim n
      by (auto simp: cleanup_published_def Let_def split: if_splits prod.splits option.splits)
    then show ?thesis
      using delete_subset [of c n rows] delete_keeps [OF assms(1), of _ c n] len n by auto
  qed
qed

theorem cleanup_deletes_only_published_witness:
  "\<exists>res rows'. cleanup_published (Some 50) (num_of_int 5) (Some False)
        [sample_row ''e1'' 0 (Some 20) None, sample_row ''e2'' 0 None None] = (Inr res, rows')
     \<and> set rows' \<subseteq> {sample_row ''e1'' 0 (Some 20) None, sample_row ''e2'' 0 None None}
     \<and> sample_row ''e2'' 0 None None \<in> set rows'"
proof -
  let ?rows = "[sample_row ''e1'' 0 (Some 20) None, sample_row ''e2'' 0 None None]"
  have d: "distinct (map ob_id ?rows)" by (simp add: sample_row_def)
  have "ok (fst (cleanup_published (Some 50) (num_of_int 5) (Some False) ?rows))"
    by (simp add: cleanup_published_def safe_int_def max_safe_def Let_def split: prod.splits)
  then obtain res rows' where r: "cleanup_published (Some 50) (num_of_int 5) (Some False) ?rows = (Inr res, rows')"
    by (cases "cleanup_published (Some 50) (num_of_int 5) (Some False) ?rows")
      (auto simp: ok_def split: sum.splits)
  have "sample_row ''e2'' 0 None None \<in> set rows'"
  proof (rule ccontr)
    assume "sample_row ''e2'' 0 None None \<notin> set rows'"
    then have "\<exists>t. ob_published_at (sample_row ''e2'' 0 None None) = Some t \<and> t < 50"
      using cleanup_deletes_only_published [OF d r] by fastforce
    then show False by (simp add: sample_row_def)
  qed
  then show ?thesis
    using cleanup_deletes_only_published [OF d r] r by auto
qed

end
