(* ===== verification/Relay_Protocol.thy ===== *)
theory Relay_Protocol
  imports Outbox_Maintenance
begin

text \<open>
  Several relays, the writers and the operators on one outbox table. A step of the system is one atomic
  statement of the source: a writer's insert, one query of the relay store by some owner at some time, or
  a maintenance statement. \<open>rw_mem\<close> is what a relay process keeps between them: the rows of its batch
  that it has not finished, each with the attempt count it had when it was claimed. Times are arbitrary,
  processes may crash, heartbeats may drop rows.
\<close>

record relay_world =
  rw_rows :: "outbox_row list"
  rw_mem :: "string \<Rightarrow> (ident \<times> nat) list"

record relay_config =
  rc_max :: nat
  rc_batch :: nat
  rc_lease :: int

datatype relay_act =
    Insert outbox_row
  | Claim string millis
  | Published string millis
  | FailedOnce string millis string
  | Skip string
  | Renew string millis "ident list"
  | Crash string
  | Requeue "ident list"
  | Cleanup millis int

definition fresh_row :: "outbox_row \<Rightarrow> bool" where
  "fresh_row r \<longleftrightarrow> ob_attempts r = 0 \<and> ob_published_at r = None \<and> ob_dead_lettered_at r = None
     \<and> ob_lock_owner r = None \<and> ob_lease_until r = None"

inductive relay_step :: "relay_config \<Rightarrow> relay_act \<Rightarrow> relay_world \<Rightarrow> relay_world \<Rightarrow> bool"
  for cfg :: relay_config where
  insert: "fresh_row r \<Longrightarrow> ob_id r \<notin> ob_id ` set (rw_rows w) \<Longrightarrow>
     relay_step cfg (Insert r) w (w\<lparr>rw_rows := rw_rows w @ [r]\<rparr>)"
| claim: "rw_mem w ow = [] \<Longrightarrow>
     claim_batch now ow (rc_batch cfg) (rc_max cfg) (rc_lease cfg) (rw_rows w) = (cs, rows') \<Longrightarrow>
     relay_step cfg (Claim ow now) w
       (w\<lparr>rw_rows := rows', rw_mem := (rw_mem w)(ow := map (\<lambda>c. (ce_id c, ce_attempts c)) cs)\<rparr>)"
| published: "rw_mem w ow = (i, a) # rest \<Longrightarrow>
     relay_step cfg (Published ow now) w
       (w\<lparr>rw_rows := snd (update_claimed now i ow (published_update now) (rw_rows w)),
          rw_mem := (rw_mem w)(ow := rest)\<rparr>)"
| failed: "rw_mem w ow = (i, a) # rest \<Longrightarrow>
     relay_step cfg (FailedOnce ow now msg) w
       (w\<lparr>rw_rows := snd (update_claimed now i ow (failed_update now (rc_max cfg) a msg) (rw_rows w)),
          rw_mem := (rw_mem w)(ow := rest)\<rparr>)"
| skip: "rw_mem w ow = x # rest \<Longrightarrow> relay_step cfg (Skip ow) w (w\<lparr>rw_mem := (rw_mem w)(ow := rest)\<rparr>)"
| renew: "set ids \<subseteq> fst ` set (rw_mem w ow) \<Longrightarrow>
     relay_step cfg (Renew ow now ids) w
       (w\<lparr>rw_rows := snd (renew_claims now ow ids (rc_lease cfg) (rw_rows w))\<rparr>)"
| crash: "relay_step cfg (Crash ow) w (w\<lparr>rw_mem := (rw_mem w)(ow := [])\<rparr>)"
| requeue: "relay_step cfg (Requeue ids) w (w\<lparr>rw_rows := snd (requeue_dead_letters ids (rw_rows w))\<rparr>)"
| cleanup: "relay_step cfg (Cleanup c l) w (w\<lparr>rw_rows := snd (delete_published_before c l (rw_rows w))\<rparr>)"

inductive_simps relay_step_claim: "relay_step cfg (Claim ow now) w w'"

inductive_simps relay_step_renew: "relay_step cfg (Renew ow now ids) w w'"

inductive relay_reachable :: "relay_config \<Rightarrow> relay_world \<Rightarrow> bool" for cfg :: relay_config where
  start: "relay_reachable cfg \<lparr>rw_rows = [], rw_mem = (\<lambda>_. [])\<rparr>"
| step: "relay_reachable cfg w \<Longrightarrow> relay_step cfg act w w' \<Longrightarrow> relay_reachable cfg w'"

subsection \<open>The invariant\<close>

definition row_ok :: "nat \<Rightarrow> outbox_row \<Rightarrow> bool" where
  "row_ok mx r \<longleftrightarrow> ob_attempts r \<le> mx \<and> (ob_dead_lettered_at r \<noteq> None \<longleftrightarrow> ob_attempts r = mx)
     \<and> (ob_dead_lettered_at r = None \<or> ob_published_at r = None)
     \<and> (ob_lock_owner r \<noteq> None \<longrightarrow> ob_lease_until r \<noteq> None \<and> ob_published_at r = None \<and> ob_dead_lettered_at r = None)"

definition mem_ok :: "(string \<Rightarrow> (ident \<times> nat) list) \<Rightarrow> outbox_row \<Rightarrow> bool" where
  "mem_ok mem r \<longleftrightarrow> (\<forall>ow a. ob_lock_owner r = Some ow \<longrightarrow> (ob_id r, a) \<in> set (mem ow) \<longrightarrow> a = ob_attempts r)"

definition relay_inv :: "nat \<Rightarrow> relay_world \<Rightarrow> bool" where
  "relay_inv mx w \<longleftrightarrow> distinct (map ob_id (rw_rows w))
     \<and> (\<forall>r \<in> set (rw_rows w). row_ok mx r \<and> mem_ok (rw_mem w) r)"

lemma mem_ok_unlocked: "ob_lock_owner r = None \<Longrightarrow> mem_ok mem r"
  by (simp add: mem_ok_def)

lemma mem_ok_tail: "mem_ok mem r \<Longrightarrow> set rest \<subseteq> set (mem ow) \<Longrightarrow> mem_ok (mem(ow := rest)) r"
  unfolding mem_ok_def by (auto split: if_splits)

lemma claim_row:
  assumes d: "distinct (map ob_id rows)" and c: "claim_batch now ow b mx l rows = (cs, rows')"
    and r': "r' \<in> set rows'"
  obtains (same) "r' \<in> set rows" and "ob_id r' \<notin> ce_id ` set cs"
  | (taken) r where "r \<in> set rows" and "claimable now mx r" and "to_claimed r \<in> set cs"
      and "r' = r\<lparr>ob_locked_at := Some now, ob_lock_owner := Some ow, ob_lease_until := Some (now + l * 1000)\<rparr>"
proof -
  let ?ca = "candidates now b mx rows"
  have cs: "cs = map to_claimed ?ca" and rows': "rows' = update_where (\<lambda>r. ob_id r \<in> ob_id ` set ?ca)
      (\<lambda>r. r\<lparr>ob_locked_at := Some now, ob_lock_owner := Some ow, ob_lease_until := Some (now + l * 1000)\<rparr>) rows"
    using c by (auto simp: claim_batch_def Let_def)
  have ids: "ce_id ` set cs = ob_id ` set ?ca"
    unfolding cs by (simp add: to_claimed_def image_image)
  obtain r where r: "r \<in> set rows" and e: "r' = (if ob_id r \<in> ob_id ` set ?ca
      then r\<lparr>ob_locked_at := Some now, ob_lock_owner := Some ow, ob_lease_until := Some (now + l * 1000)\<rparr> else r)"
    using r' unfolding rows' by (rule in_update_whereE)
  show ?thesis
  proof (cases "ob_id r \<in> ob_id ` set ?ca")
    case True
    then obtain c where "c \<in> set ?ca" "ob_id r = ob_id c" by blast
    then have "r \<in> set ?ca"
      using unique_row [OF d r, of c] candidates_claimable [of c now b mx rows] by simp
    then show ?thesis
      using taken [OF r] candidates_claimable [of r now b mx rows] e True cs by simp
  next
    case False
    then show ?thesis using same e r ids by simp
  qed
qed

lemma claim_mem:
  assumes d: "distinct (map ob_id rows)" and c: "claim_batch now ow b mx l rows = (cs, rows')"
    and r: "r \<in> set rows" "(ob_id r, a) \<in> set (map (\<lambda>c. (ce_id c, ce_attempts c)) cs)"
  shows "a = ob_attempts r"
proof -
  obtain q where "q \<in> set (candidates now b mx rows)" "ob_id q = ob_id r" "a = ob_attempts q"
    using c r(2) by (auto simp: claim_batch_def Let_def to_claimed_def)
  then show ?thesis
    using unique_row [OF d r(1), of q] candidates_claimable [of q now b mx rows] by simp
qed

lemma update_claimed_row:
  assumes "r' \<in> set (snd (update_claimed now i ow u rows))"
  obtains (same) "r' \<in> set rows"
  | (changed) r where "r \<in> set rows" and "ob_id r = i" and "owned now ow r" and "r' = apply_update u r"
  using assms by (auto simp: update_claimed_def Let_def elim!: in_update_whereE split: if_splits)

lemma renew_row:
  assumes "r' \<in> set (snd (renew_claims now ow ids l rows))"
  obtains (same) "r' \<in> set rows"
  | (renewed) r where "r \<in> set rows" and "owned now ow r" and "r' = r\<lparr>ob_locked_at := Some now, ob_lease_until := Some (now + l * 1000)\<rparr>"
  using assms by (auto simp: renew_claims_def Let_def elim!: in_update_whereE split: if_splits)

lemma requeue_row:
  assumes "r' \<in> set (snd (requeue_dead_letters ids rows))"
  obtains (same) "r' \<in> set rows"
  | (reset) r where "r \<in> set rows" and "is_dead_letter r" and "r' = requeued r"
  using assms by (auto simp: requeue_dead_letters_def Let_def elim!: in_update_whereE split: if_splits)

lemma relay_inv_step:
  assumes mx: "0 < rc_max cfg" and inv: "relay_inv (rc_max cfg) w" and st: "relay_step cfg act w w'"
  shows "relay_inv (rc_max cfg) w'"
proof -
  let ?mx = "rc_max cfg"
  have d: "distinct (map ob_id (rw_rows w))"
    and rows: "\<And>r. r \<in> set (rw_rows w) \<Longrightarrow> row_ok ?mx r \<and> mem_ok (rw_mem w) r"
    using inv by (auto simp: relay_inv_def)
  from st show ?thesis
  proof cases
    case (insert r)
    then show ?thesis
      using d rows mx by (auto simp: relay_inv_def row_ok_def fresh_row_def mem_ok_unlocked)
  next
    case (claim ow now cs rows')
    have ids: "map ob_id rows' = map ob_id (rw_rows w)"
      using claim_batch_ids [of now ow "rc_batch cfg" ?mx "rc_lease cfg" "rw_rows w"] claim(4) by simp
    have "row_ok ?mx r' \<and> mem_ok ((rw_mem w)(ow := map (\<lambda>c. (ce_id c, ce_attempts c)) cs)) r'" if "r' \<in> set rows'" for r'
      using d claim(4) that
    proof (cases rule: claim_row)
      case same
      then have "mem_ok ((rw_mem w)(ow := map (\<lambda>c. (ce_id c, ce_attempts c)) cs)) r'"
        using rows [OF same(1)] by (force simp: mem_ok_def)
      then show ?thesis using rows [OF same(1)] by simp
    next
      case (taken r)
      have "row_ok ?mx r'"
        using rows [OF taken(1)] taken(2) unfolding taken(4) by (auto simp: row_ok_def claimable_def)
      moreover have "mem_ok ((rw_mem w)(ow := map (\<lambda>c. (ce_id c, ce_attempts c)) cs)) r'"
        using claim_mem [OF d claim(4) taken(1)] unfolding taken(4) by (simp add: mem_ok_def)
      ultimately show ?thesis ..
    qed
    then show ?thesis
      using claim(2) ids d by (simp add: relay_inv_def)
  next
    case (published ow i a rest now)
    have "row_ok ?mx r' \<and> mem_ok ((rw_mem w)(ow := rest)) r'"
      if "r' \<in> set (snd (update_claimed now i ow (published_update now) (rw_rows w)))" for r'
      using that
    proof (cases rule: update_claimed_row)
      case same
      then show ?thesis
        using rows [OF same] mem_ok_tail [of "rw_mem w" r' rest ow] published(3) by auto
    next
      case (changed r)
      then show ?thesis
        using rows [OF changed(1)]
        by (auto simp: row_ok_def owned_def apply_update_def published_update_def intro!: mem_ok_unlocked)
    qed
    then show ?thesis
      using published(2) d by (simp add: relay_inv_def update_claimed_ids)
  next
    case (failed ow i a rest now msg)
    have "row_ok ?mx r' \<and> mem_ok ((rw_mem w)(ow := rest)) r'"
      if "r' \<in> set (snd (update_claimed now i ow (failed_update now ?mx a msg) (rw_rows w)))" for r'
      using that
    proof (cases rule: update_claimed_row)
      case same
      then show ?thesis
        using rows [OF same] mem_ok_tail [of "rw_mem w" r' rest ow] failed(3) by auto
    next
      case (changed r)
      then have "a = ob_attempts r"
        using rows [OF changed(1)] failed(3) by (auto simp: mem_ok_def owned_def)
      then show ?thesis
        using changed rows [OF changed(1)]
        by (auto simp: row_ok_def owned_def apply_update_def failed_update_def Let_def intro!: mem_ok_unlocked)
    qed
    then show ?thesis
      using failed(2) d by (simp add: relay_inv_def update_claimed_ids)
  next
    case (skip ow x rest)
    then show ?thesis
      using d rows mem_ok_tail [of "rw_mem w" _ rest ow] by (auto simp: relay_inv_def)
  next
    case (renew ids ow now)
    have "row_ok ?mx r' \<and> mem_ok (rw_mem w) r'"
      if "r' \<in> set (snd (renew_claims now ow ids (rc_lease cfg) (rw_rows w)))" for r'
      using that
    proof (cases rule: renew_row)
      case same
      then show ?thesis using rows by blast
    next
      case (renewed r)
      then show ?thesis
        using rows [OF renewed(1)] by (auto simp: row_ok_def owned_def mem_ok_def)
    qed
    then show ?thesis
      using renew(2) d by (simp add: relay_inv_def renew_claims_ids)
  next
    case (crash ow)
    then show ?thesis
      using d rows mem_ok_tail [of "rw_mem w" _ "[]" ow] by (auto simp: relay_inv_def)
  next
    case (requeue ids)
    have "row_ok ?mx r' \<and> mem_ok (rw_mem w) r'"
      if "r' \<in> set (snd (requeue_dead_letters ids (rw_rows w)))" for r'
      using that
    proof (cases rule: requeue_row)
      case same
      then show ?thesis using rows by blast
    next
      case (reset r)
      then show ?thesis
        using mx by (auto simp: row_ok_def requeued_def is_dead_letter_def intro!: mem_ok_unlocked)
    qed
    then show ?thesis
      using requeue(2) d by (simp add: relay_inv_def requeue_ids)
  next
    case (cleanup c l)
    then show ?thesis
      using d rows delete_subset [of c l "rw_rows w"] delete_distinct [OF d] by (auto simp: relay_inv_def)
  qed
qed


subsection \<open>Properties\<close>

lemma relay_reachable_inv: "relay_reachable cfg w \<Longrightarrow> 0 < rc_max cfg \<Longrightarrow> relay_inv (rc_max cfg) w"
proof (induction rule: relay_reachable.induct)
  case (step w act w')
  then show ?case using relay_inv_step by blast
qed (simp add: relay_inv_def)

lemma not_candidate:
  assumes "distinct (map ob_id rows)" and "r \<in> set rows" and "\<not> claimable now mx r"
  shows "ob_id r \<notin> ob_id ` set (candidates now b mx rows)"
proof
  assume "ob_id r \<in> ob_id ` set (candidates now b mx rows)"
  then obtain c where c: "c \<in> set (candidates now b mx rows)" "ob_id r = ob_id c" by blast
  then have "c = r"
    using unique_row [OF assms(1,2), of c] candidates_claimable [OF c(1)] by simp
  then show False using candidates_claimable [OF c(1)] assms(3) by simp
qed

text \<open>C16: In every reachable state of any number of relays an event is dead-lettered exactly when it has
  used all its attempts: an unpublished event always has attempts left or is a dead letter, the count never
  passes the bound, and a dead letter was never published.\<close>

theorem dead_letter_iff_exhausted:
  assumes "relay_reachable cfg w" and "0 < rc_max cfg" and "r \<in> set (rw_rows w)"
  shows "ob_attempts r \<le> rc_max cfg \<and> (ob_dead_lettered_at r \<noteq> None \<longleftrightarrow> ob_attempts r = rc_max cfg)
    \<and> (ob_dead_lettered_at r \<noteq> None \<longrightarrow> ob_published_at r = None)"
  using relay_reachable_inv [OF assms(1,2)] assms(3) by (auto simp: relay_inv_def row_ok_def)

definition sample_config :: relay_config where
  "sample_config = \<lparr>rc_max = 10, rc_batch = 50, rc_lease = 60\<rparr>"

definition sample_world :: relay_world where
  "sample_world = \<lparr>rw_rows = [sample_row ''e1'' 0 None None], rw_mem = (\<lambda>_. [])\<rparr>"

lemma sample_world_reachable: "relay_reachable sample_config sample_world"
proof -
  have "relay_step sample_config (Insert (sample_row ''e1'' 0 None None)) \<lparr>rw_rows = [], rw_mem = (\<lambda>_. [])\<rparr>
      (\<lparr>rw_rows = [], rw_mem = (\<lambda>_. [])\<rparr>\<lparr>rw_rows := [] @ [sample_row ''e1'' 0 None None]\<rparr>)"
    using relay_step.insert [of "sample_row ''e1'' 0 None None" "\<lparr>rw_rows = [], rw_mem = (\<lambda>_. [])\<rparr>" sample_config]
    by (simp add: fresh_row_def sample_row_def)
  then show ?thesis
    using relay_reachable.step [OF relay_reachable.start] by (simp add: sample_world_def)
qed

theorem dead_letter_iff_exhausted_witness:
  "ob_dead_lettered_at (sample_row ''e1'' 0 None None) \<noteq> None
     \<longleftrightarrow> ob_attempts (sample_row ''e1'' 0 None None) = 10"
  using dead_letter_iff_exhausted [OF sample_world_reachable, of "sample_row ''e1'' 0 None None"]
  by (simp add: sample_config_def sample_world_def)

text \<open>The owner and the time of a relay action.\<close>

fun act_of :: "relay_act \<Rightarrow> (string \<times> millis) option" where
  "act_of (Claim ow now) = Some (ow, now)"
| "act_of (Published ow now) = Some (ow, now)"
| "act_of (FailedOnce ow now _) = Some (ow, now)"
| "act_of (Renew ow now _) = Some (ow, now)"
| "act_of _ = None"

text \<open>C9: A lease is exclusive: while a relay holds an unexpired lease on an event, no statement of another
  relay issued up to the end of the lease changes that row or claims it, and neither do writers, requeues
  or cleanups, whatever the interleaving.\<close>

theorem lease_is_exclusive:
  assumes "relay_reachable cfg w" and "0 < rc_max cfg" and "r \<in> set (rw_rows w)"
    and "ob_lock_owner r = Some me" and "ob_lease_until r = Some until"
    and "relay_step cfg act w w'"
    and "\<And>ow now. act_of act = Some (ow, now) \<Longrightarrow> ow \<noteq> me \<and> now \<le> until"
  shows "r \<in> set (rw_rows w')"
proof -
  have d: "distinct (map ob_id (rw_rows w))" and ok: "row_ok (rc_max cfg) r"
    using relay_reachable_inv [OF assms(1,2)] assms(3) by (auto simp: relay_inv_def)
  have live: "ob_published_at r = None" "ob_dead_lettered_at r = None"
    using ok assms(4) by (auto simp: row_ok_def)
  have other: "\<not> owned now ow r" if "ow \<noteq> me" for ow now
    using that assms(4) by (simp add: owned_def)
  have keep: "r \<in> set (update_where p f (rw_rows w))" if "\<not> p r" for p f
    using that assms(3) by (auto simp: set_update_where image_iff)
  from assms(6) show ?thesis
  proof cases
    case (claim ow now cs rows')
    then have "now \<le> until" using assms(7) by simp
    then have "\<not> claimable now (rc_max cfg) r"
      using assms(5) by (simp add: claimable_def)
    then have "ob_id r \<notin> ob_id ` set (candidates now (rc_batch cfg) (rc_max cfg) (rw_rows w))"
      by (rule not_candidate [OF d assms(3)])
    then show ?thesis
      using claim keep by (auto simp: claim_batch_def Let_def)
  next
    case (published ow i a rest now)
    then show ?thesis using assms(7) other keep by (simp add: update_claimed_def Let_def)
  next
    case (failed ow i a rest now msg)
    then show ?thesis using assms(7) other keep by (simp add: update_claimed_def Let_def)
  next
    case (renew ids ow now)
    then show ?thesis using assms(3,7) other keep by (simp add: renew_claims_def Let_def)
  next
    case (requeue ids)
    then show ?thesis
      using live assms(3) keep by (simp add: requeue_dead_letters_def Let_def is_dead_letter_def)
  next
    case (cleanup c l)
    then show ?thesis
      using delete_keeps [OF d assms(3), of c l] live by auto
  qed (use assms(3) in auto)
qed

definition claimed_row :: outbox_row where
  "claimed_row = (sample_row ''e1'' 0 None None)\<lparr>ob_locked_at := Some 100, ob_lock_owner := Some ''A'',
     ob_lease_until := Some 60100\<rparr>"

definition claimed_world :: relay_world where
  "claimed_world = \<lparr>rw_rows = [claimed_row], rw_mem = (\<lambda>_. [])(''A'' := [(''e1'', 0)])\<rparr>"

lemma claimed_world_reachable: "relay_reachable sample_config claimed_world"
proof -
  have "relay_step sample_config (Claim ''A'' 100) sample_world claimed_world"
    by (simp add: relay_step_claim sample_world_def sample_config_def claimed_world_def claimed_row_def
        claim_batch_def candidates_def claimable_def sample_row_def to_claimed_def)
  then show ?thesis
    using relay_reachable.step [OF sample_world_reachable] by blast
qed

theorem lease_is_exclusive_witness:
  "\<exists>w'. relay_step sample_config (Claim ''B'' 60100) claimed_world w' \<and> claimed_row \<in> set (rw_rows w')"
proof -
  obtain w' where w': "relay_step sample_config (Claim ''B'' 60100) claimed_world w'"
    by (auto simp: relay_step_claim claimed_world_def split: prod.splits) fastforce
  have "claimed_row \<in> set (rw_rows claimed_world)" "ob_lock_owner claimed_row = Some ''A''"
      "ob_lease_until claimed_row = Some 60100"
    by (simp_all add: claimed_world_def claimed_row_def)
  then show ?thesis
    using lease_is_exclusive [OF claimed_world_reachable _ _ _ _ w', of claimed_row "''A''" 60100] w'
    by (auto simp: sample_config_def)
qed

text \<open>Publication is final and no relay resurrects a dead letter: whatever step is taken, a published
  event stays exactly as it is until a cleanup deletes it, and a dead letter changes only by an operator's
  requeue.\<close>

theorem published_is_final:
  assumes "relay_reachable cfg w" and "0 < rc_max cfg" and "r \<in> set (rw_rows w)" and "relay_step cfg act w w'"
  shows "(ob_published_at r \<noteq> None \<longrightarrow> (\<forall>c l. act \<noteq> Cleanup c l) \<longrightarrow> r \<in> set (rw_rows w'))
    \<and> (ob_dead_lettered_at r \<noteq> None \<longrightarrow> (\<forall>ids. act \<noteq> Requeue ids) \<longrightarrow> r \<in> set (rw_rows w'))"
proof -
  have d: "distinct (map ob_id (rw_rows w))" and ok: "row_ok (rc_max cfg) r"
    using relay_reachable_inv [OF assms(1,2)] assms(3) by (auto simp: relay_inv_def)
  have excl: "ob_dead_lettered_at r \<noteq> None \<Longrightarrow> ob_published_at r = None"
    using ok by (auto simp: row_ok_def)
  have keep: "r \<in> set (update_where p f (rw_rows w))" if "\<not> p r" for p f
    using that assms(3) by (auto simp: set_update_where image_iff)
  have stay: "r \<in> set (rw_rows w')" if fin: "ob_published_at r \<noteq> None \<or> ob_dead_lettered_at r \<noteq> None"
    and nr: "ob_dead_lettered_at r \<noteq> None \<longrightarrow> (\<forall>ids. act \<noteq> Requeue ids)"
    and nc: "ob_published_at r \<noteq> None \<longrightarrow> (\<forall>c l. act \<noteq> Cleanup c l)"
  proof -
    have no: "\<not> owned now ow r" "\<not> claimable now m r" for now ow m
      using fin by (auto simp: owned_def claimable_def)
    from assms(4) show ?thesis
    proof cases
      case (claim ow now cs rows')
      have "ob_id r \<notin> ob_id ` set (candidates now (rc_batch cfg) (rc_max cfg) (rw_rows w))"
        by (rule not_candidate [OF d assms(3) no(2)])
      then show ?thesis using claim keep by (auto simp: claim_batch_def Let_def)
    next
      case (published ow i a rest now)
      then show ?thesis using no keep by (simp add: update_claimed_def Let_def)
    next
      case (failed ow i a rest now msg)
      then show ?thesis using no keep by (simp add: update_claimed_def Let_def)
    next
      case (renew ids ow now)
      then show ?thesis using assms(3) no keep by (simp add: renew_claims_def Let_def)
    next
      case (requeue ids)
      then have "\<not> is_dead_letter r" using nr fin by (auto simp: is_dead_letter_def)
      then show ?thesis using requeue assms(3) keep by (simp add: requeue_dead_letters_def Let_def)
    next
      case (cleanup c l)
      then show ?thesis using nc delete_keeps [OF d assms(3), of c l] by auto
    qed (use assms(3) in auto)
  qed
  show ?thesis
  proof (intro conjI impI)
    assume "ob_published_at r \<noteq> None" "\<forall>c l. act \<noteq> Cleanup c l"
    then show "r \<in> set (rw_rows w')" by (intro stay) (use excl in auto)
  next
    assume "ob_dead_lettered_at r \<noteq> None" "\<forall>ids. act \<noteq> Requeue ids"
    then show "r \<in> set (rw_rows w')" by (intro stay) (use excl in auto)
  qed
qed


definition published_world :: relay_world where
  "published_world = \<lparr>rw_rows = [apply_update (published_update 200) claimed_row],
     rw_mem = (\<lambda>_. [])(''A'' := [])\<rparr>"

lemma published_world_reachable: "relay_reachable sample_config published_world"
proof -
  have "relay_step sample_config (Published ''A'' 200) claimed_world
      (claimed_world\<lparr>rw_rows := snd (update_claimed 200 ''e1'' ''A'' (published_update 200) (rw_rows claimed_world)),
         rw_mem := (rw_mem claimed_world)(''A'' := [])\<rparr>)"
    by (rule relay_step.published) (simp add: claimed_world_def)
  moreover have "claimed_world\<lparr>rw_rows := snd (update_claimed 200 ''e1'' ''A'' (published_update 200) (rw_rows claimed_world)),
         rw_mem := (rw_mem claimed_world)(''A'' := [])\<rparr> = published_world"
    by (simp add: claimed_world_def published_world_def update_claimed_def owned_def claimed_row_def sample_row_def Let_def)
  ultimately show ?thesis
    using relay_reachable.step [OF claimed_world_reachable] by simp
qed

theorem published_is_final_witness:
  "\<exists>w'. relay_step sample_config (Claim ''B'' 99999) published_world w'
     \<and> apply_update (published_update 200) claimed_row \<in> set (rw_rows w')"
proof -
  obtain w' where w': "relay_step sample_config (Claim ''B'' 99999) published_world w'"
    by (auto simp: relay_step_claim published_world_def split: prod.splits) fastforce
  have "apply_update (published_update 200) claimed_row \<in> set (rw_rows published_world)"
      "ob_published_at (apply_update (published_update 200) claimed_row) \<noteq> None"
    by (simp_all add: published_world_def apply_update_def published_update_def)
  then show ?thesis
    using published_is_final [OF published_world_reachable _ _ w',
        of "apply_update (published_update 200) claimed_row"] w'
    by (auto simp: sample_config_def)
qed

end
