(* ===== verification/Projection.thy ===== *)
theory Projection
  imports Relay_Protocol
begin

text \<open>
  The read models: \<^verbatim>\<open>core/outbox/projection-writer.ts\<close>, \<^verbatim>\<open>prisma-projection.store.ts\<close>,
  \<^verbatim>\<open>projection-rating.ts\<close> and \<^verbatim>\<open>projection-handler.ts\<close>. A write carries the version of the aggregate it
  was taken from and must not replace a newer one. The write is several statements; \<open>intf n\<close> is what
  other writers do to the table between the \<open>n\<close>-th and the next, so \<open>\<lambda>_ rows. rows\<close> is the write alone.

  The locale \<open>versioned_table\<close> is the contract of a table of versioned rows; it is interpreted on the
  order history and on the product catalog.
\<close>

subsection \<open>Versioned writes\<close>

text \<open>\<open>key\<close> and \<open>ver\<close> are the row's key and source version, \<open>upd d r\<close> the row \<open>r\<close> after an update with the
  data \<open>d\<close>, and \<open>clash d rows\<close> tells that another row holds a unique column of \<open>d\<close>.\<close>

definition stmt_update ::
    "('r \<Rightarrow> ident) \<Rightarrow> ('r \<Rightarrow> int) \<Rightarrow> ('r \<Rightarrow> 'r \<Rightarrow> 'r) \<Rightarrow> ('r \<Rightarrow> 'r list \<Rightarrow> bool) \<Rightarrow> 'r \<Rightarrow> 'r list
      \<Rightarrow> error + (nat \<times> 'r list)" where
  "stmt_update key ver upd clash d rows =
     (let p = (\<lambda>r. key r = key d \<and> ver r < ver d)
      in if 0 < count_where p rows \<and> clash d rows then Inl unique_violation
         else Inr (count_where p rows, update_where p (upd d) rows))"

definition stmt_create :: "('r \<Rightarrow> ident) \<Rightarrow> ('r \<Rightarrow> 'r list \<Rightarrow> bool) \<Rightarrow> 'r \<Rightarrow> 'r list \<Rightarrow> error + 'r list" where
  "stmt_create key clash d rows =
     (if key d \<in> key ` set rows \<or> clash d rows then Inl unique_violation else Inr (rows @ [d]))"

definition versioned_write ::
    "('r \<Rightarrow> ident) \<Rightarrow> ('r \<Rightarrow> int) \<Rightarrow> ('r \<Rightarrow> 'r \<Rightarrow> 'r) \<Rightarrow> ('r \<Rightarrow> 'r list \<Rightarrow> bool) \<Rightarrow> (nat \<Rightarrow> 'r list \<Rightarrow> 'r list)
      \<Rightarrow> 'r \<Rightarrow> 'r list \<Rightarrow> (error + unit) \<times> 'r list" where
  "versioned_write key ver upd clash intf d rows =
     (case stmt_update key ver upd clash d rows of
        Inl e \<Rightarrow> (Inl e, rows)
      | Inr (n, r1) \<Rightarrow>
          if 0 < n then (Inr (), r1)
          else let r2 = intf 0 r1 in
            (case stmt_create key clash d r2 of
               Inr r3 \<Rightarrow> (Inr (), r3)
             | Inl e \<Rightarrow>
                 if e \<noteq> unique_violation then (Inl e, r2)
                 else let r4 = intf 1 r2 in
                   (case stmt_update key ver upd clash d r4 of
                      Inl e' \<Rightarrow> (Inl e', r4)
                    | Inr (n2, r5) \<Rightarrow>
                        if 0 < n2 then (Inr (), r5)
                        else let r6 = intf 2 r5 in
                          (case find_by key (key d) r6 of
                             Some x \<Rightarrow> if ver d \<le> ver x then (Inr (), r6) else (Inl e, r6)
                           | None \<Rightarrow> (Inl e, r6)))))"

definition alone :: "nat \<Rightarrow> 'r list \<Rightarrow> 'r list" where
  "alone n rows = rows"

definition require_source_version :: "int option \<Rightarrow> error + int" where
  "require_source_version v = (case v of
      None \<Rightarrow> Inl (PlainError ''Versioned projection snapshot is required'')
    | Some n \<Rightarrow> if \<not> safe_int n \<or> n < 0
                then Inl (PlainError ''Projection source version must be a non-negative safe integer'')
                else Inr n)"

subsection \<open>The contract\<close>

locale versioned_table =
  fixes key :: "'r \<Rightarrow> ident" and ver :: "'r \<Rightarrow> int" and upd :: "'r \<Rightarrow> 'r \<Rightarrow> 'r"
    and clash :: "'r \<Rightarrow> 'r list \<Rightarrow> bool"
  assumes key_upd: "key d = key r \<Longrightarrow> key (upd d r) = key r"
    and ver_upd: "ver (upd d r) = ver d"
begin

text \<open>What the table promises about a key: the version it holds.\<close>

definition version_of :: "ident \<Rightarrow> 'r list \<Rightarrow> int option" where
  "version_of k rows = map_option ver (find_by key k rows)"

definition grows :: "'r list \<Rightarrow> 'r list \<Rightarrow> bool" where
  "grows rows rows' \<longleftrightarrow> (\<forall>k v. version_of k rows = Some v \<longrightarrow> (\<exists>v'. version_of k rows' = Some v' \<and> v \<le> v'))
     \<and> (distinct (map key rows) \<longrightarrow> distinct (map key rows'))"

lemma grows_refl: "grows rows rows"
  by (auto simp: grows_def)

lemma grows_trans: "grows a b \<Longrightarrow> grows b c \<Longrightarrow> grows a c"
  by (fastforce simp: grows_def)

lemma find_update:
  assumes "distinct (map key rows)"
  shows "find_by key k (update_where (\<lambda>r. key r = key d \<and> ver r < ver d) (upd d) rows)
    = (case find_by key k rows of None \<Rightarrow> None
       | Some r \<Rightarrow> Some (if k = key d \<and> ver r < ver d then upd d r else r))"
  using assms by (induction rows) (auto simp: key_upd find_by_None_iff split: option.splits)

lemma keys_update: "map key (update_where (\<lambda>r. key r = key d \<and> ver r < ver d) (upd d) rows) = map key rows"
  by (rule map_update_where) (auto simp: key_upd)

lemma update_version:
  assumes d: "distinct (map key rows)" and u: "stmt_update key ver upd clash d rows = Inr (n, rows')"
  shows "grows rows rows'" and "0 < n \<Longrightarrow> version_of (key d) rows' = Some (ver d)"
    and "n = 0 \<Longrightarrow> rows' = rows \<and> (\<forall>v. version_of (key d) rows = Some v \<longrightarrow> ver d \<le> v)"
proof -
  let ?p = "\<lambda>r. key r = key d \<and> ver r < ver d"
  have n: "n = count_where ?p rows" and rows': "rows' = update_where ?p (upd d) rows"
    using u by (auto simp: stmt_update_def Let_def split: if_splits)
  show "grows rows rows'"
    unfolding grows_def rows' keys_update version_of_def
    by (auto simp: find_update [OF d] ver_upd split: option.splits dest: find_by_SomeD)
  show "version_of (key d) rows' = Some (ver d)" if "0 < n"
  proof -
    obtain r where r: "r \<in> set rows" "key r = key d" "ver r < ver d"
      using \<open>0 < n\<close> count_where_0_iff [of ?p rows] unfolding n by auto
    then have "find_by key (key d) rows = Some r"
      using find_by_distinct [OF d r(1)] by simp
    then show ?thesis
      using r by (simp add: rows' version_of_def find_update [OF d] ver_upd)
  qed
  show "rows' = rows \<and> (\<forall>v. version_of (key d) rows = Some v \<longrightarrow> ver d \<le> v)" if "n = 0"
  proof -
    have none: "\<forall>r \<in> set rows. \<not> ?p r"
      using \<open>n = 0\<close> unfolding n count_where_0_iff .
    then have "rows' = rows"
      unfolding rows' using update_where_none \<open>n = 0\<close> n by metis
    then show ?thesis
      using none find_by_SomeD by (fastforce simp: version_of_def not_less)
  qed
qed

lemma create_version:
  assumes "stmt_create key clash d rows = Inr rows'"
  shows "grows rows rows'" and "version_of (key d) rows' = Some (ver d)"
proof -
  have r: "key d \<notin> key ` set rows" "rows' = rows @ [d]"
    using assms by (auto simp: stmt_create_def split: if_splits)
  then show "grows rows rows'"
    by (auto simp: grows_def version_of_def find_by_append split: option.splits)
  show "version_of (key d) rows' = Some (ver d)"
    using r find_by_None_iff [of key "key d" rows] by (simp add: version_of_def find_by_append)
qed

text \<open>Whatever the others do, as long as they too only move versions up, the write never lowers a
  version, and when it reports success the table holds at least the version written.\<close>

lemma write_versions:
  assumes d: "distinct (map key rows)" and intf: "\<And>n rs. grows rs (intf n rs)"
    and w: "versioned_write key ver upd clash intf d rows = (res, rows')"
  shows "grows rows rows'"
    and "res = Inr () \<Longrightarrow> \<exists>v. version_of (key d) rows' = Some v \<and> ver d \<le> v"
proof -
  have dist: "distinct (map key (intf n rs))" if "distinct (map key rs)" for n rs
    using intf [of rs n] that by (simp add: grows_def)
  have "grows rows rows' \<and> (res = Inr () \<longrightarrow> (\<exists>v. version_of (key d) rows' = Some v \<and> ver d \<le> v))"
  proof (cases "stmt_update key ver upd clash d rows")
    case (Inl e)
    then show ?thesis using w grows_refl by (auto simp: versioned_write_def)
  next
    case (Inr nr)
    obtain n r1 where nr: "nr = (n, r1)" by (cases nr)
    note u1 = update_version [OF d Inr [unfolded nr]]
    show ?thesis
    proof (cases "0 < n")
      case True
      then show ?thesis
        using w Inr nr u1 by (auto simp: versioned_write_def)
    next
      case n0: False
      then have r1: "r1 = rows" using u1(3) by simp
      let ?r2 = "intf 0 rows"
      have g2: "grows rows ?r2" by (rule intf)
      have d2: "distinct (map key ?r2)" by (rule dist [OF d])
      show ?thesis
      proof (cases "stmt_create key clash d ?r2")
        case (Inr r3)
        then show ?thesis
          using w \<open>stmt_update key ver upd clash d rows = Inr nr\<close> nr n0 r1 create_version [OF Inr]
            grows_trans [OF g2] by (auto simp: versioned_write_def)
      next
        case (Inl e)
        then have e: "e = unique_violation" by (auto simp: stmt_create_def split: if_splits)
        let ?r4 = "intf 1 ?r2"
        have g4: "grows rows ?r4" by (rule grows_trans [OF g2 intf])
        have d4: "distinct (map key ?r4)" by (rule dist [OF d2])
        show ?thesis
        proof (cases "stmt_update key ver upd clash d ?r4")
          case (Inl e')
          then show ?thesis
            using w \<open>stmt_update key ver upd clash d rows = Inr nr\<close> nr n0 r1 e g4
              \<open>stmt_create key clash d ?r2 = Inl e\<close>
            by (auto simp: versioned_write_def Let_def)
        next
          case (Inr nr2)
          obtain n2 r5 where nr2: "nr2 = (n2, r5)" by (cases nr2)
          note u2 = update_version [OF d4 Inr [unfolded nr2]]
          have g6: "grows rows (intf 2 r5)"
            by (rule grows_trans [OF grows_trans [OF g4 u2(1)] intf])
          show ?thesis
            using w \<open>stmt_update key ver upd clash d rows = Inr nr\<close> nr n0 r1 e Inr nr2 u2(2) g6
              \<open>stmt_create key clash d ?r2 = Inl e\<close> grows_trans [OF g4 u2(1)]
            by (auto simp: versioned_write_def Let_def version_of_def split: if_splits option.splits)
        qed
      qed
    qed
  qed
  then show "grows rows rows'" "res = Inr () \<Longrightarrow> \<exists>v. version_of (key d) rows' = Some v \<and> ver d \<le> v"
    by auto
qed

text \<open>Alone, and without a clash, the write always succeeds and is the maximum on versions.\<close>

lemma write_alone:
  assumes d: "distinct (map key rows)" and nc: "\<not> clash d rows"
  shows "versioned_write key ver upd clash alone d rows =
    (Inr (), case find_by key (key d) rows of
        None \<Rightarrow> rows @ [d]
      | Some r \<Rightarrow> if ver r < ver d then update_where (\<lambda>r. key r = key d \<and> ver r < ver d) (upd d) rows else rows)"
proof -
  let ?p = "\<lambda>r. key r = key d \<and> ver r < ver d"
  have u: "stmt_update key ver upd clash d rows = Inr (count_where ?p rows, update_where ?p (upd d) rows)"
    using nc by (simp add: stmt_update_def Let_def)
  show ?thesis
  proof (cases "find_by key (key d) rows")
    case None
    then have k: "key d \<notin> key ` set rows" by (simp add: find_by_None_iff)
    then have z: "count_where ?p rows = 0" unfolding count_where_0_iff by (auto simp: image_iff)
    then show ?thesis
      using None k nc u update_where_none [OF z]
      by (simp add: versioned_write_def alone_def stmt_create_def)
  next
    case (Some r)
    have r: "r \<in> set rows" "key r = key d" using find_by_SomeD [OF Some] by auto
    show ?thesis
    proof (cases "ver r < ver d")
      case True
      then have "count_where ?p rows \<noteq> 0" unfolding count_where_0_iff using r by auto
      then show ?thesis using True Some u by (simp add: versioned_write_def)
    next
      case False
      have z: "count_where ?p rows = 0"
        unfolding count_where_0_iff
      proof
        fix r' assume "r' \<in> set rows"
        then show "\<not> ?p r'"
          using find_by_distinct [OF d \<open>r' \<in> set rows\<close>] Some False by auto
      qed
      have "key d \<in> key ` set rows" using r by (metis image_eqI)
      then show ?thesis
        using False Some r u update_where_none [OF z] nc
        by (auto simp: versioned_write_def alone_def stmt_create_def Let_def)
    qed
  qed
qed

end

subsection \<open>Order history and product catalog\<close>

text \<open>The order-history update replaces every column but the key. A catalog write leaves the rating
  columns alone unless its data names them; \<open>rated\<close> tells whether it does.\<close>

definition history_upd :: "history_row \<Rightarrow> history_row \<Rightarrow> history_row" where
  "history_upd d r = d"

definition no_clash :: "'r \<Rightarrow> 'r list \<Rightarrow> bool" where
  "no_clash d rows = False"

definition write_order_history ::
    "(nat \<Rightarrow> history_row list \<Rightarrow> history_row list) \<Rightarrow> history_row \<Rightarrow> int option \<Rightarrow> unit db_op" where
  "write_order_history intf d raw_version db =
     (case require_source_version raw_version of
        Inl e \<Rightarrow> (Inl e, db)
      | Inr v \<Rightarrow>
          (case versioned_write oh_order_id oh_source_version history_upd no_clash intf
                  (d\<lparr>oh_source_version := v\<rparr>) (order_history db) of
             (r, rows) \<Rightarrow> (r, db\<lparr>order_history := rows\<rparr>)))"

definition catalog_upd :: "bool \<Rightarrow> catalog_row \<Rightarrow> catalog_row \<Rightarrow> catalog_row" where
  "catalog_upd rated d r =
     (if rated then d else d\<lparr>pc_avg_rating := pc_avg_rating r, pc_review_count := pc_review_count r\<rparr>)"

definition slug_clash :: "catalog_row \<Rightarrow> catalog_row list \<Rightarrow> bool" where
  "slug_clash d rows \<longleftrightarrow> list_ex (\<lambda>r. pc_product_id r \<noteq> pc_product_id d \<and> pc_slug r = pc_slug d) rows"

definition write_product_catalog ::
    "(nat \<Rightarrow> catalog_row list \<Rightarrow> catalog_row list) \<Rightarrow> bool \<Rightarrow> catalog_row \<Rightarrow> int option \<Rightarrow> unit db_op" where
  "write_product_catalog intf rated d raw_version db =
     (case require_source_version raw_version of
        Inl e \<Rightarrow> (Inl e, db)
      | Inr v \<Rightarrow>
          (case versioned_write pc_product_id pc_source_version (catalog_upd rated) slug_clash intf
                  (d\<lparr>pc_source_version := v\<rparr>) (product_catalog db) of
             (r, rows) \<Rightarrow> (r, db\<lparr>product_catalog := rows\<rparr>)))"

interpretation history: versioned_table oh_order_id oh_source_version history_upd no_clash
  by unfold_locales (simp_all add: history_upd_def)

interpretation catalog: versioned_table pc_product_id pc_source_version "catalog_upd rated" slug_clash for rated
  by unfold_locales (simp_all add: catalog_upd_def)

subsection \<open>The projection store\<close>

definition int_field :: "string \<Rightarrow> domain_event \<Rightarrow> int option" where
  "int_field k ev = (case map_of (ev_fields ev) k of Some (JNum n) \<Rightarrow> Some (int_of_num n) | _ \<Rightarrow> None)"

definition payment_status_of_name :: "string \<Rightarrow> payment_status option" where
  "payment_status_of_name s = find (\<lambda>p. payment_status_name p = s) [PAY_PENDING, PAID, FAILED, REFUNDED]"

text \<open>The columns an \<open>OrderPlaced\<close> event gives. The event is read back from JSON, so a column whose field
  is missing or of another type is what Prisma's argument validation rejects.\<close>

definition placed_history_row :: "domain_event \<Rightarrow> history_row option" where
  "placed_history_row ev =
     (case (str_field ''orderId'' ev, str_field ''userId'' ev, str_field ''orderNumber'' ev,
            Option.bind (str_field ''paymentStatus'' ev) payment_status_of_name) of
        (Some oid, Some uid, Some onum, Some ps) \<Rightarrow>
          (case (int_field ''subtotal'' ev, int_field ''tax'' ev, int_field ''shippingFee'' ev,
                 int_field ''total'' ev, map_of (ev_fields ev) ''items'') of
             (Some sub, Some tax, Some ship, Some tot, Some items) \<Rightarrow>
               Some \<lparr>oh_order_id = oid, oh_user_id = uid, oh_order_number = onum, oh_status = PENDING,
                     oh_payment_status = ps, oh_subtotal = sub, oh_tax = tax, oh_shipping_fee = ship,
                     oh_total = tot, oh_items = items, oh_placed_at = ev_occurred_at ev, oh_source_version = 0\<rparr>
           | _ \<Rightarrow> None)
      | _ \<Rightarrow> None)"

definition require_event_version :: "int option \<Rightarrow> error + int" where
  "require_event_version v =
     (case v of None \<Rightarrow> Inl (PlainError ''Versioned projection event is required'') | Some n \<Rightarrow> Inr n)"

definition upsert_order_placed ::
    "(nat \<Rightarrow> history_row list \<Rightarrow> history_row list) \<Rightarrow> domain_event \<Rightarrow> unit db_op" where
  "upsert_order_placed intf ev db =
     (case require_event_version (ev_source_version ev) of
        Inl e \<Rightarrow> (Inl e, db)
      | Inr v \<Rightarrow> (case placed_history_row ev of
            None \<Rightarrow> (Inl PrismaClientValidationError, db)
          | Some row \<Rightarrow> write_order_history intf row (Some v) db))"

definition update_order_status :: "domain_event \<Rightarrow> unit db_op" where
  "update_order_status ev db =
     (case require_event_version (ev_source_version ev) of
        Inl e \<Rightarrow> (Inl e, db)
      | Inr v \<Rightarrow> (case (str_field ''orderId'' ev, Option.bind (str_field ''newStatus'' ev) order_status_of_name) of
            (Some oid, Some st) \<Rightarrow>
              let p = (\<lambda>r. oh_order_id r = oid \<and> oh_source_version r < v);
                  n = count_where p (order_history db);
                  rows = update_where p (\<lambda>r. r\<lparr>oh_status := st, oh_source_version := v\<rparr>) (order_history db)
              in if 0 < n then (Inr (), db\<lparr>order_history := rows\<rparr>)
                 else if find_by oh_order_id oid (order_history db) = None
                 then (Inl (ProjectionDependencyError oid), db)
                 else (Inr (), db)
          | _ \<Rightarrow> (Inl PrismaClientValidationError, db)))"

definition catalog_row_of :: "product_row \<Rightarrow> catalog_row" where
  "catalog_row_of p = \<lparr>pc_product_id = prow_id p, pc_name = prow_name p, pc_description = prow_description p,
     pc_price = prow_price p, pc_stock = prow_stock p, pc_category = prow_category p,
     pc_images = prow_images p, pc_slug = prow_slug p, pc_is_active = prow_is_active p,
     pc_avg_rating = Fin 0, pc_review_count = 0,
     pc_search_text = prow_name p @ '' '' @ (case prow_description p of None \<Rightarrow> [] | Some d \<Rightarrow> d)
        @ '' '' @ prow_category p,
     pc_source_version = prow_version p, pc_created_at = prow_created_at p\<rparr>"

definition upsert_product ::
    "(nat \<Rightarrow> catalog_row list \<Rightarrow> catalog_row list) \<Rightarrow> domain_event \<Rightarrow> unit db_op" where
  "upsert_product intf ev db =
     (case str_field ''productId'' ev of
        None \<Rightarrow> (Inl PrismaClientValidationError, db)
      | Some pid \<Rightarrow> (case find_product pid db of
            None \<Rightarrow> (Inr (), db)
          | Some p \<Rightarrow> write_product_catalog intf False (catalog_row_of p) (Some (prow_version p)) db))"

definition average_rating :: "int list \<Rightarrow> js_num" where
  "average_rating rs = (if rs = [] then Fin 0 else js_div (num_of_int (sum_list rs)) (num_of_int (int (length rs))))"

definition refresh_product_rating :: "ident \<Rightarrow> unit db_op" where
  "refresh_product_rating pid = transaction (\<lambda>db.
     let rs = map rv_rating (filter (\<lambda>r. rv_product_id r = pid) (reviews db))
     in (Inr (), db\<lparr>product_catalog := update_where (\<lambda>r. pc_product_id r = pid)
           (\<lambda>r. r\<lparr>pc_avg_rating := average_rating rs, pc_review_count := length rs\<rparr>) (product_catalog db)\<rparr>))"

definition dashboard_of :: "database \<Rightarrow> dashboard_row" where
  "dashboard_of db = \<lparr>
     db_total_gross_order_value = sum_list (map oh_total (filter (\<lambda>r. oh_status r \<noteq> CANCELLED) (order_history db))),
     db_total_orders = length (order_history db),
     db_pending_orders = count_where (\<lambda>r. oh_status r = PENDING) (order_history db),
     db_completed_orders = count_where (\<lambda>r. oh_status r = DELIVERED) (order_history db),
     db_total_users = length (users db),
     db_total_products = count_where pc_is_active (product_catalog db)\<rparr>"

definition refresh_dashboard :: "unit db_op" where
  "refresh_dashboard db = (Inr (), db\<lparr>admin_dashboard := Some (dashboard_of db)\<rparr>)"

subsection \<open>The handlers\<close>

definition handle_order_placed :: "domain_event \<Rightarrow> unit db_op" where
  "handle_order_placed ev = dbind (upsert_order_placed alone ev) (\<lambda>_. refresh_dashboard)"

definition handle_product_rating_changed :: "domain_event \<Rightarrow> unit db_op" where
  "handle_product_rating_changed ev db = (case str_field ''productId'' ev of
      None \<Rightarrow> (Inl PrismaClientValidationError, db) | Some pid \<Rightarrow> refresh_product_rating pid db)"

definition handle_order_status_changed :: "domain_event \<Rightarrow> unit db_op" where
  "handle_order_status_changed ev = dbind (update_order_status ev) (\<lambda>_. refresh_dashboard)"

definition handle_product_event :: "domain_event \<Rightarrow> unit db_op" where
  "handle_product_event ev = dbind (upsert_product alone ev) (\<lambda>_. refresh_dashboard)"

definition handle_user_registered :: "domain_event \<Rightarrow> unit db_op" where
  "handle_user_registered ev = refresh_dashboard"

subsection \<open>Wiring\<close>

text \<open>\<^verbatim>\<open>composition/wire-domain-events.ts\<close> and \<^verbatim>\<open>modules/orders/order-event-subscriptions.ts\<close>, over the
  handlers with external effects, which are arguments.\<close>

definition product_projection_events :: "string list" where
  "product_projection_events = [''ProductCreated'', ''ProductUpdated'', ''ProductPriceChanged'',
     ''ProductRestocked'', ''ProductStockDepleted'', ''ProductActivated'', ''ProductDeactivated'']"

definition review_projection_events :: "string list" where
  "review_projection_events = [''ReviewCreated'', ''ReviewDeleted'']"

definition register_order_event_subscriptions ::
    "(domain_event \<Rightarrow> unit db_op) \<Rightarrow> (domain_event \<Rightarrow> unit db_op) \<Rightarrow> event_bus \<Rightarrow> event_bus" where
  "register_order_event_subscriptions notify project bus =
     subscribe ''OrderStatusChanged'' ''OrderHistoryStatusProjectionHandler'' project
       (subscribe ''OrderStatusChanged'' ''OrderStatusChangedHandler'' notify bus)"

definition wire_domain_events ::
    "(domain_event \<Rightarrow> unit db_op) \<Rightarrow> (domain_event \<Rightarrow> unit db_op) \<Rightarrow> (domain_event \<Rightarrow> unit db_op) \<Rightarrow> event_bus" where
  "wire_domain_events order_placed status_changed registration_verification =
     (let b1 = subscribe ''OrderPlaced'' ''OrderPlacedHandler'' order_placed [];
          b2 = subscribe ''OrderPlaced'' ''OrderHistoryProjectionHandler'' handle_order_placed b1;
          b3 = register_order_event_subscriptions status_changed handle_order_status_changed b2;
          b4 = fold (\<lambda>en. subscribe en (''ProductCatalogProjectionHandler:'' @ en) handle_product_event)
                 product_projection_events b3;
          b5 = subscribe ''UserRegistered'' ''RegistrationVerificationHandler'' registration_verification b4;
          b6 = subscribe ''UserRegistered'' ''DashboardProjectionHandler:UserRegistered'' handle_user_registered b5
      in fold (\<lambda>en. subscribe en (''ProductCatalogRatingProjectionHandler:'' @ en) handle_product_rating_changed)
           review_projection_events b6)"

subsection \<open>Convergence of the order history\<close>

text \<open>\<open>history_version\<close> is the version the table holds for an order; \<open>versions_grow\<close> is what every writer
  of the table does to it.\<close>

definition history_version :: "ident \<Rightarrow> history_row list \<Rightarrow> int option" where
  "history_version oid rows = map_option oh_source_version (find_by oh_order_id oid rows)"

definition versions_grow :: "history_row list \<Rightarrow> history_row list \<Rightarrow> bool" where
  "versions_grow rows rows' \<longleftrightarrow>
     (\<forall>oid v. history_version oid rows = Some v \<longrightarrow> (\<exists>v'. history_version oid rows' = Some v' \<and> v \<le> v'))
     \<and> (distinct (map oh_order_id rows) \<longrightarrow> distinct (map oh_order_id rows'))"

lemma history_grows: "history.grows = versions_grow"
  by (simp add: fun_eq_iff history.grows_def versions_grow_def history.version_of_def history_version_def)

definition deliver_history :: "domain_event \<Rightarrow> unit db_op" where
  "deliver_history ev =
     (if ev_name ev = ''OrderPlaced'' then upsert_order_placed alone ev else update_order_status ev)"

text \<open>\<open>history_life base v0 st evs\<close>: the events of one order. The placing event has version \<open>v0\<close> and gives
  the row \<open>base\<close>; the event of each later version \<open>v\<close> changes the status to \<open>st v\<close>.\<close>

definition history_life :: "history_row \<Rightarrow> int \<Rightarrow> (int \<Rightarrow> order_status) \<Rightarrow> (int \<Rightarrow> domain_event) \<Rightarrow> bool" where
  "history_life base v0 st evs \<longleftrightarrow>
     st v0 = oh_status base
     \<and> ev_name (evs v0) = ''OrderPlaced'' \<and> placed_history_row (evs v0) = Some base
     \<and> (\<forall>v. ev_source_version (evs v) = Some v)
     \<and> (\<forall>v. v0 < v \<longrightarrow> ev_name (evs v) = ''OrderStatusChanged''
          \<and> str_field ''orderId'' (evs v) = Some (oh_order_id base)
          \<and> str_field ''newStatus'' (evs v) = Some (order_status_name (st v)))"

fun deliver_all :: "(int \<Rightarrow> domain_event) \<Rightarrow> int list \<Rightarrow> database \<Rightarrow> database" where
  "deliver_all evs [] db = db"
| "deliver_all evs (v # vs) db = deliver_all evs vs (snd (deliver_history (evs v) db))"

definition at_version :: "history_row \<Rightarrow> (int \<Rightarrow> order_status) \<Rightarrow> int \<Rightarrow> history_row" where
  "at_version base st v = base\<lparr>oh_status := st v, oh_source_version := v\<rparr>"

definition good_version :: "int \<Rightarrow> int \<Rightarrow> bool" where
  "good_version v0 v \<longleftrightarrow> 0 \<le> v0 \<and> v0 \<le> v \<and> v \<le> max_safe"

lemma find_status_update:
  assumes "distinct (map oh_order_id rows)"
  shows "find_by oh_order_id k (update_where (\<lambda>r. oh_order_id r = oid \<and> oh_source_version r < v)
      (\<lambda>r. r\<lparr>oh_status := s, oh_source_version := v\<rparr>) rows)
    = map_option (\<lambda>r. if oh_order_id r = oid \<and> oh_source_version r < v
        then r\<lparr>oh_status := s, oh_source_version := v\<rparr> else r) (find_by oh_order_id k rows)"
  by (rule find_by_update_where) simp

lemma count_one:
  assumes "distinct (map key rows)"
  shows "0 < count_where (\<lambda>r. key r = k \<and> P r) rows \<longleftrightarrow> (\<exists>r. find_by key k rows = Some r \<and> P r)"
proof -
  have "0 < count_where (\<lambda>r. key r = k \<and> P r) rows \<longleftrightarrow> (\<exists>r \<in> set rows. key r = k \<and> P r)"
    using count_where_0_iff [of "\<lambda>r. key r = k \<and> P r" rows] by auto
  also have "\<dots> \<longleftrightarrow> (\<exists>r. find_by key k rows = Some r \<and> P r)"
    using find_by_distinct [OF assms] find_by_SomeD by metis
  finally show ?thesis .
qed

lemma deliver_status:
  assumes life: "history_life base v0 st evs" and v: "v0 < v" and d: "distinct (map oh_order_id (order_history db))"
  shows "snd (deliver_history (evs v) db) =
    (case find_by oh_order_id (oh_order_id base) (order_history db) of
       None \<Rightarrow> db
     | Some r \<Rightarrow> if oh_source_version r < v
         then db\<lparr>order_history := update_where (\<lambda>r. oh_order_id r = oh_order_id base \<and> oh_source_version r < v)
                (\<lambda>r. r\<lparr>oh_status := st v, oh_source_version := v\<rparr>) (order_history db)\<rparr>
         else db)"
proof -
  have e: "ev_name (evs v) = ''OrderStatusChanged''" "ev_source_version (evs v) = Some v"
      "str_field ''orderId'' (evs v) = Some (oh_order_id base)"
      "str_field ''newStatus'' (evs v) = Some (order_status_name (st v))"
    using life v by (auto simp: history_life_def)
  show ?thesis
    using count_one [OF d, of "oh_order_id base" "\<lambda>r. oh_source_version r < v"]
    by (auto simp: deliver_history_def update_order_status_def require_event_version_def e Let_def
        split: option.splits)
qed

lemma deliver_placed:
  assumes life: "history_life base v0 st evs" and g: "good_version v0 v0"
    and d: "distinct (map oh_order_id (order_history db))"
  shows "snd (deliver_history (evs v0) db) =
    (case find_by oh_order_id (oh_order_id base) (order_history db) of
       None \<Rightarrow> db\<lparr>order_history := order_history db @ [at_version base st v0]\<rparr>
     | Some r \<Rightarrow> if oh_source_version r < v0
         then db\<lparr>order_history := update_where (\<lambda>r. oh_order_id r = oh_order_id base \<and> oh_source_version r < v0)
                (\<lambda>_. at_version base st v0) (order_history db)\<rparr>
         else db)"
proof -
  have e: "ev_name (evs v0) = ''OrderPlaced''" "ev_source_version (evs v0) = Some v0"
      "placed_history_row (evs v0) = Some base" "at_version base st v0 = base\<lparr>oh_source_version := v0\<rparr>"
    using life by (auto simp: history_life_def at_version_def)
  have v0: "safe_int v0" "0 \<le> v0" using g by (auto simp: good_version_def safe_int_def)
  have "db = db\<lparr>order_history := order_history db\<rparr>" by simp
  moreover have "\<not> no_clash (base\<lparr>oh_source_version := v0\<rparr>) (order_history db)" by (simp add: no_clash_def)
  moreover have "history_upd (base\<lparr>oh_source_version := v0\<rparr>) = (\<lambda>_. base\<lparr>oh_source_version := v0\<rparr>)"
    by (simp add: fun_eq_iff history_upd_def)
  ultimately show ?thesis
    using v0 history.write_alone [OF d, of "base\<lparr>oh_source_version := v0\<rparr>"]
    by (auto simp: deliver_history_def upsert_order_placed_def require_event_version_def e
        write_order_history_def require_source_version_def split: option.splits)
qed

lemma deliver_keeps_distinct:
  assumes life: "history_life base v0 st evs" and g: "good_version v0 v"
    and d: "distinct (map oh_order_id (order_history db))"
  shows "distinct (map oh_order_id (order_history (snd (deliver_history (evs v) db))))"
proof (cases "v = v0")
  case True
  have g0: "good_version v0 v0" using g by (auto simp: good_version_def)
  have same: "map oh_order_id (update_where (\<lambda>r. oh_order_id r = oh_order_id base \<and> oh_source_version r < v0)
      (\<lambda>_. at_version base st v0) (order_history db)) = map oh_order_id (order_history db)"
    by (rule map_update_where) (simp add: at_version_def)
  show ?thesis
  proof (cases "find_by oh_order_id (oh_order_id base) (order_history db)")
    case None
    then have "oh_order_id base \<notin> oh_order_id ` set (order_history db)" by (simp add: find_by_None_iff)
    then show ?thesis
      using d deliver_placed [OF life g0 d] True None by (simp add: at_version_def)
  next
    case (Some r)
    then show ?thesis
      using d deliver_placed [OF life g0 d] True same by simp
  qed
next
  case False
  then have "v0 < v" using g by (simp add: good_version_def)
  then show ?thesis
    using d deliver_status [OF life _ d] by (auto simp: map_update_where split: option.splits)
qed

text \<open>A delivery to an existing row takes the maximum of the versions.\<close>

lemma deliver_existing:
  assumes life: "history_life base v0 st evs" and g: "good_version v0 v" and m: "v0 \<le> m"
    and d: "distinct (map oh_order_id (order_history db))"
    and row: "find_by oh_order_id (oh_order_id base) (order_history db) = Some (at_version base st m)"
  shows "find_by oh_order_id (oh_order_id base) (order_history (snd (deliver_history (evs v) db)))
    = Some (at_version base st (max m v))"
proof (cases "v = v0")
  case True
  have g0: "good_version v0 v0" using g by (auto simp: good_version_def)
  have "\<not> oh_source_version (at_version base st m) < v0" using m by (simp add: at_version_def)
  then show ?thesis
    using deliver_placed [OF life g0 d] row True m by (simp add: max_def)
next
  case False
  then have v: "v0 < v" using g by (simp add: good_version_def)
  show ?thesis
    using deliver_status [OF life v d] row find_status_update [OF d, of "oh_order_id base" "oh_order_id base" v "st v"]
    by (auto simp: at_version_def max_def)
qed

lemma deliver_all_existing:
  assumes life: "history_life base v0 st evs" and "\<forall>v \<in> set vs. good_version v0 v" and "v0 \<le> m"
    and "distinct (map oh_order_id (order_history db))"
    and "find_by oh_order_id (oh_order_id base) (order_history db) = Some (at_version base st m)"
  shows "find_by oh_order_id (oh_order_id base) (order_history (deliver_all evs vs db))
    = Some (at_version base st (Max (insert m (set vs))))"
  using assms(2-)
proof (induction vs arbitrary: m db)
  case (Cons v vs)
  have g: "good_version v0 v" using Cons.prems(1) by simp
  have "find_by oh_order_id (oh_order_id base) (order_history (deliver_all evs vs (snd (deliver_history (evs v) db))))
    = Some (at_version base st (Max (insert (max m v) (set vs))))"
    using Cons.prems g deliver_existing [OF life g Cons.prems(2,3,4)] deliver_keeps_distinct [OF life g Cons.prems(3)]
    by (intro Cons.IH) auto
  moreover have "Max (insert (max m v) (set vs)) = Max (insert m (set (v # vs)))"
    by (cases "vs = []") (auto simp: max.assoc)
  ultimately show ?case by simp
qed simp

lemma history_converges:
  assumes life: "history_life base v0 st evs" and "\<forall>v \<in> set vs. good_version v0 v" and "v0 \<in> set vs"
    and d: "distinct (map oh_order_id (order_history db))"
    and none: "find_by oh_order_id (oh_order_id base) (order_history db) = None"
  shows "find_by oh_order_id (oh_order_id base) (order_history (deliver_all evs vs db))
    = Some (base\<lparr>oh_status := st (Max (set (dropWhile (\<lambda>v. v \<noteq> v0) vs))),
                 oh_source_version := Max (set (dropWhile (\<lambda>v. v \<noteq> v0) vs))\<rparr>)"
  using assms(2-)
proof (induction vs arbitrary: db)
  case (Cons v vs)
  show ?case
  proof (cases "v = v0")
    case True
    let ?db = "snd (deliver_history (evs v0) db)"
    have g0: "good_version v0 v0" using Cons.prems(1) True by simp
    have "find_by oh_order_id (oh_order_id base) (order_history ?db) = Some (at_version base st v0)"
      using deliver_placed [OF life g0 Cons.prems(3)] Cons.prems(4)
      by (simp add: find_by_append at_version_def)
    then have "find_by oh_order_id (oh_order_id base) (order_history (deliver_all evs vs ?db))
        = Some (at_version base st (Max (insert v0 (set vs))))"
      using Cons.prems True deliver_keeps_distinct [OF life g0 Cons.prems(3)]
      by (intro deliver_all_existing [OF life]) auto
    then show ?thesis using True by (simp add: at_version_def)
  next
    case False
    then have "v0 < v" using Cons.prems(1) by (simp add: good_version_def)
    then have "snd (deliver_history (evs v) db) = db"
      using deliver_status [OF life _ Cons.prems(3)] Cons.prems(4) by simp
    then show ?thesis using Cons False by auto
  qed
qed simp


definition sample_placed :: domain_event where
  "sample_placed = (order_placed_event 9 ''o1'' ''u1'' ''ORD-0001'' ''Lan'' ''lan@example.com'' PAY_PENDING
     250000 25000 30000 300000 [])\<lparr>ev_source_version := Some 1\<rparr>"

definition sample_history :: history_row where
  "sample_history = \<lparr>oh_order_id = ''o1'', oh_user_id = ''u1'', oh_order_number = ''ORD-0001'', oh_status = PENDING,
     oh_payment_status = PAY_PENDING, oh_subtotal = 250000, oh_tax = 25000, oh_shipping_fee = 30000,
     oh_total = 300000, oh_items = JArr [], oh_placed_at = 9, oh_source_version = 0\<rparr>"

definition sample_events :: "int \<Rightarrow> domain_event" where
  "sample_events v = (if v = 1 then sample_placed
     else (order_status_changed_event 10 ''o1'' PENDING (if v = 2 then PROCESSING else CANCELLED) ''u1'')
       \<lparr>ev_source_version := Some v\<rparr>)"

lemma sample_life: "history_life sample_history 1 (\<lambda>v. if v = 1 then PENDING else if v = 2 then PROCESSING else CANCELLED)
    sample_events"
proof -
  have "placed_history_row sample_placed = Some sample_history"
    by code_simp
  then show ?thesis
    by (auto simp: history_life_def sample_events_def sample_history_def)
      (auto simp: sample_placed_def str_field_def event_defs Let_def)
qed


text \<open>Concurrent writers cannot regress the order history: whatever other writers do between the
  statements of a write, as long as they too only move versions up, the write never lowers the version of any
  order, and when it reports success the table holds at least the version it wrote.\<close>

theorem history_write_never_regresses:
  assumes d: "distinct (map oh_order_id (order_history db))"
    and intf: "\<And>n rows. versions_grow rows (intf n rows)"
    and w: "write_order_history intf row (Some v) db = (res, db')"
  shows "versions_grow (order_history db) (order_history db')
    \<and> (res = Inr () \<longrightarrow> (\<exists>v'. history_version (oh_order_id row) (order_history db') = Some v' \<and> v \<le> v'))"
proof (cases "require_source_version (Some v)")
  case (Inl e)
  then show ?thesis
    using w history.grows_refl by (auto simp: write_order_history_def history_grows)
next
  case (Inr v1)
  then have v1: "v1 = v" by (auto simp: require_source_version_def split: if_splits)
  obtain rows where rows: "versioned_write oh_order_id oh_source_version history_upd no_clash intf
      (row\<lparr>oh_source_version := v\<rparr>) (order_history db) = (res, rows)" "order_history db' = rows"
    using w Inr v1 by (auto simp: write_order_history_def split: prod.splits)
  have "history.grows rs (intf n rs)" for n rs using intf by (simp add: history_grows)
  then show ?thesis
    using history.write_versions [OF d _ rows(1)] rows(2)
    by (auto simp: history_grows history.version_of_def history_version_def)
qed

definition sample_intf :: "nat \<Rightarrow> history_row list \<Rightarrow> history_row list" where
  "sample_intf n rows = (if n = 0 \<and> rows = [] then [sample_history\<lparr>oh_source_version := 7\<rparr>] else rows)"

theorem history_write_never_regresses_witness:
  "\<exists>res db'. write_order_history sample_intf sample_history (Some 3) empty_db = (res, db')
     \<and> (res = Inr () \<longrightarrow> (\<exists>v'. history_version ''o1'' (order_history db') = Some v' \<and> 3 \<le> v'))"
proof -
  obtain res db' where w: "write_order_history sample_intf sample_history (Some 3) empty_db = (res, db')"
    by fastforce
  have "versions_grow rows (sample_intf n rows)" for n rows
    by (auto simp: versions_grow_def sample_intf_def history_version_def)
  then show ?thesis
    using history_write_never_regresses [OF _ _ w] w by (auto simp: empty_db_def sample_history_def)
qed

text \<open>A rating event that is handled before the product's catalog row exists is lost: handling it succeeds
  without an effect, and the catalog row that the product's own event then creates shows no reviews, however
  many the product has.\<close>

theorem rating_before_catalog_row_is_lost:
  assumes "find_product pid db = Some p" and "pid \<notin> pc_product_id ` set (product_catalog db)"
    and "str_field ''productId'' rvw = Some pid" and "str_field ''productId'' pev = Some pid"
    and "0 \<le> prow_version p" and "prow_version p \<le> max_safe"
    and "\<not> slug_clash (catalog_row_of p) (product_catalog db)"
    and "distinct (map pc_product_id (product_catalog db))"
  shows "handle_product_rating_changed rvw db = (Inr (), db)
    \<and> (\<exists>db'. handle_product_event pev (snd (handle_product_rating_changed rvw db)) = (Inr (), db')
        \<and> find_by pc_product_id pid (product_catalog db') = Some (catalog_row_of p)
        \<and> pc_review_count (catalog_row_of p) = 0)"
proof -
  have pid: "prow_id p = pid"
    using assms(1) find_by_SomeD by (fastforce simp: find_product_def)
  have none: "count_where (\<lambda>r. pc_product_id r = pid) (product_catalog db) = 0"
    using assms(2) unfolding count_where_0_iff by auto
  have rating: "handle_product_rating_changed rvw db = (Inr (), db)"
    using assms(3) update_where_none [OF none]
    by (simp add: handle_product_rating_changed_def refresh_product_rating_def transaction_def Let_def)
  have nf: "find_by pc_product_id pid (product_catalog db) = None"
    using assms(2) by (simp add: find_by_None_iff)
  have cr: "(catalog_row_of p)\<lparr>pc_source_version := prow_version p\<rparr> = catalog_row_of p"
      "pc_product_id (catalog_row_of p) = pid" "pc_review_count (catalog_row_of p) = 0"
    by (simp_all add: catalog_row_of_def pid)
  have "versioned_write pc_product_id pc_source_version (catalog_upd False) slug_clash alone (catalog_row_of p)
      (product_catalog db) = (Inr (), product_catalog db @ [catalog_row_of p])"
    using catalog.write_alone [OF assms(8), of "catalog_row_of p" False] assms(7) nf cr by simp
  then have "upsert_product alone pev db = (Inr (), db\<lparr>product_catalog := product_catalog db @ [catalog_row_of p]\<rparr>)"
    using assms(1,4,5,6) cr
    by (simp add: upsert_product_def write_product_catalog_def require_source_version_def safe_int_def)
  then show ?thesis
    using rating cr nf by (simp add: handle_product_event_def dbind_def refresh_dashboard_def find_by_append)
qed

definition tea_row :: product_row where
  "tea_row = \<lparr>prow_id = ''p1'', prow_name = ''Tea'', prow_description = None, prow_price = 100000, prow_stock = 5,
     prow_version = 0, prow_category = ''drinks'', prow_images = [], prow_slug = ''tea'', prow_is_active = True,
     prow_created_at = 0\<rparr>"

definition tea_db :: database where
  "tea_db = empty_db\<lparr>products := [tea_row], reviews := [\<lparr>rv_id = ''r1'', rv_rating = 5, rv_comment = None,
     rv_user_id = ''u1'', rv_product_id = ''p1'', rv_created_at = 3\<rparr>]\<rparr>"

theorem rating_before_catalog_row_is_lost_witness:
  "handle_product_rating_changed (review_created_event 3 ''p1'') tea_db = (Inr (), tea_db)
    \<and> (\<exists>db'. handle_product_event (product_created_event 1 ''p1'') tea_db = (Inr (), db')
        \<and> find_by pc_product_id ''p1'' (product_catalog db') = Some (catalog_row_of tea_row))"
proof -
  have "find_product ''p1'' tea_db = Some tea_row" "product_catalog tea_db = []" "prow_version tea_row = 0"
    by (simp_all add: find_product_def tea_db_def tea_row_def empty_db_def)
  moreover have "str_field ''productId'' (review_created_event 3 ''p1'') = Some ''p1''"
      "str_field ''productId'' (product_created_event 1 ''p1'') = Some ''p1''"
    by (simp_all add: str_field_def event_defs)
  ultimately show ?thesis
    using rating_before_catalog_row_is_lost [of "''p1''" tea_db tea_row "review_created_event 3 ''p1''"
        "product_created_event 1 ''p1''"]
    by (auto simp: slug_clash_def max_safe_def)
qed

text \<open>The composition root gives the handlers of every event different names, the names under which the
  tracker records them, and subscribes nothing to \<open>OrderCancelled\<close> or to the cart events; every status
  change reaches the notification and the projection, in this order.\<close>

theorem wired_handlers_distinct:
  "distinct (map he_name (handlers_of (wire_domain_events a b c) en))
   \<and> handlers_of (wire_domain_events a b c) ''OrderCancelled'' = []
   \<and> handlers_of (wire_domain_events a b c) ''CartItemAdded'' = []
   \<and> handlers_of (wire_domain_events a b c) ''OrderStatusChanged''
     = [\<lparr>he_name = ''OrderStatusChangedHandler'', he_fn = b\<rparr>,
        \<lparr>he_name = ''OrderHistoryStatusProjectionHandler'', he_fn = handle_order_status_changed\<rparr>]"
proof -
  have e: "handlers_of [] k = []" for k by (simp add: handlers_of_def)
  show ?thesis
    by (simp add: wire_domain_events_def register_order_event_subscriptions_def product_projection_events_def
        review_projection_events_def Let_def handlers_of_subscribe e)
qed

end
