(* ===== verification/Projection_Rebuild.thy ===== *)
theory Projection_Rebuild
  imports Projection
begin

text \<open>
  Rebuilding the read models from the write model: \<^verbatim>\<open>core/outbox/rebuild-order-history-projection.ts\<close>
  and \<^verbatim>\<open>rebuild-product-catalog-projection.ts\<close>. Both page through a table in the order of its
  identifiers, a batch at a time; the page after a cursor is the rows with a greater identifier. The
  loop ends when a page is empty, and every other page moves the cursor up.
\<close>

definition DEFAULT_BATCH_SIZE :: nat where "DEFAULT_BATCH_SIZE = 100"

subsection \<open>Paging\<close>

definition after_cursor :: "('r \<Rightarrow> ident) \<Rightarrow> ident option \<Rightarrow> 'r list \<Rightarrow> 'r list" where
  "after_cursor key cursor rows =
     filter (\<lambda>r. case cursor of None \<Rightarrow> True | Some c \<Rightarrow> c < key r) (sort_key key rows)"

definition page :: "('r \<Rightarrow> ident) \<Rightarrow> nat \<Rightarrow> ident option \<Rightarrow> 'r list \<Rightarrow> 'r list" where
  "page key batch cursor rows = take batch (after_cursor key cursor rows)"

text \<open>\<open>page_loop\<close> is the loop of both functions: \<open>work\<close> writes the rows of a page, \<open>table\<close> reads the table
  (which the work leaves alone).\<close>

lemma after_cursor_page:
  assumes "page key batch cursor rows \<noteq> []"
  shows "length (after_cursor key (Some (key (last (page key batch cursor rows)))) rows)
    < length (after_cursor key cursor rows)"
proof -
  let ?l = "last (page key batch cursor rows)"
  have l: "?l \<in> set (after_cursor key cursor rows)"
    using assms by (metis in_set_takeD last_in_set page_def)
  have "after_cursor key (Some (key ?l)) rows = filter (\<lambda>r. key ?l < key r) (after_cursor key cursor rows)"
  proof -
    have "key ?l < key r \<Longrightarrow> (case cursor of None \<Rightarrow> True | Some c \<Rightarrow> c < key r)" for r
      using l by (auto simp: after_cursor_def split: option.splits)
    then show ?thesis
      unfolding after_cursor_def filter_filter by (intro filter_cong) auto
  qed
  then show ?thesis
    using l by (metis (mono_tags, lifting) length_filter_less less_irrefl)
qed

function page_loop ::
    "('r \<Rightarrow> ident) \<Rightarrow> nat \<Rightarrow> ('r list \<Rightarrow> unit db_op) \<Rightarrow> 'r list \<Rightarrow> ident option \<Rightarrow> nat \<Rightarrow> nat db_op" where
  "page_loop key batch work rows cursor processed db =
     (let p = page key batch cursor rows
      in if p = [] then (Inr processed, db)
         else case work p db of
           (Inl e, db') \<Rightarrow> (Inl e, db')
         | (Inr _, db') \<Rightarrow> page_loop key batch work rows (Some (key (last p))) (processed + length p) db')"
  by pat_completeness auto

termination
  by (relation "measure (\<lambda>(key, batch, work, rows, cursor, processed, db). length (after_cursor key cursor rows))")
    (auto intro: after_cursor_page)

declare page_loop.simps [simp del]

subsection \<open>The order history\<close>

definition history_item :: "database \<Rightarrow> order_item_row \<Rightarrow> json" where
  "history_item db i = JObj
     [(''productId'', JStr (oir_product_id i)),
      (''productName'', JStr (case find_product (oir_product_id i) db of None \<Rightarrow> [] | Some p \<Rightarrow> prow_name p)),
      (''quantity'', jint (oir_quantity i)), (''unitPrice'', jint (oir_price i))]"

definition history_row_of :: "database \<Rightarrow> order_row \<Rightarrow> history_row" where
  "history_row_of db ord = \<lparr>oh_order_id = or_id ord, oh_user_id = or_user_id ord,
     oh_order_number = or_order_number ord, oh_status = or_status ord, oh_payment_status = or_payment_status ord,
     oh_subtotal = or_subtotal ord, oh_tax = or_tax ord, oh_shipping_fee = or_shipping_fee ord,
     oh_total = or_total ord, oh_items = JArr (map (history_item db) (items_of_order (or_id ord) db)),
     oh_placed_at = or_created_at ord, oh_source_version = or_version ord\<rparr>"

definition write_history_page :: "order_row list \<Rightarrow> unit db_op" where
  "write_history_page os db =
     dbind (dmap (\<lambda>row. write_order_history alone row (Some (oh_source_version row)))
       (map (history_row_of db) os)) (\<lambda>_. dret ()) db"

definition rebuild_order_history_projection :: "nat \<Rightarrow> nat db_op" where
  "rebuild_order_history_projection batch db =
     page_loop or_id batch write_history_page (orders db) None 0 db"

subsection \<open>The product catalog\<close>

definition rated_catalog_row :: "database \<Rightarrow> product_row \<Rightarrow> catalog_row" where
  "rated_catalog_row db p =
     (let rs = map rv_rating (filter (\<lambda>r. rv_product_id r = prow_id p) (reviews db))
      in (catalog_row_of p)\<lparr>pc_avg_rating := average_rating rs, pc_review_count := length rs\<rparr>)"

definition write_catalog_page :: "product_row list \<Rightarrow> unit db_op" where
  "write_catalog_page ps db =
     dbind (dmap (\<lambda>row. write_product_catalog alone True row (Some (pc_source_version row)))
       (map (rated_catalog_row db) ps)) (\<lambda>_.
     dbind (dmap (\<lambda>p. refresh_product_rating (prow_id p)) ps) (\<lambda>_. dret ())) db"

definition rebuild_product_catalog_projection :: "nat \<Rightarrow> nat db_op" where
  "rebuild_product_catalog_projection batch db =
     page_loop prow_id batch write_catalog_page (products db) None 0 db"

subsection \<open>The loop visits every row once\<close>

fun pages_work :: "('r list \<Rightarrow> unit db_op) \<Rightarrow> 'r list list \<Rightarrow> unit db_op" where
  "pages_work work [] db = (Inr (), db)"
| "pages_work work (p # ps) db = (case work p db of (Inl e, db') \<Rightarrow> (Inl e, db') | (Inr _, db') \<Rightarrow> pages_work work ps db')"

text \<open>The pages of a table: non-empty slices whose concatenation is the table in the order of its keys.\<close>

lemma page_split:
  assumes s: "sorted (map key xs)" and d: "distinct (map key xs)" and p: "p = take batch xs" "p \<noteq> []"
  shows "filter (\<lambda>r. key (last p) < key r) xs = drop batch xs"
proof -
  define ys where "ys = drop batch xs"
  have xs: "xs = p @ ys"
    unfolding ys_def p(1) by (rule append_take_drop_id [symmetric])
  have sa: "sorted (map key (p @ ys))" "distinct (map key (p @ ys))"
    using s d xs by simp_all
  have ylt: "key (last p) < key y" if "y \<in> set ys" for y
  proof -
    have "key (last p) \<le> key y"
      using sa(1) that p(2) by (auto simp: sorted_append)
    moreover have "key (last p) \<noteq> key y"
    proof
      assume "key (last p) = key y"
      then have "key y \<in> key ` set p \<inter> key ` set ys"
        using that p(2) by (metis IntI image_eqI last_in_set)
      then show False using sa(2) by auto
    qed
    ultimately show ?thesis by simp
  qed
  have ple: "key x \<le> key (last p)" if "x \<in> set p" for x
  proof -
    have "sorted (map key p)" using sa(1) by (simp add: sorted_append)
    moreover obtain i where "i < length p" "x = p ! i" using \<open>x \<in> set p\<close> by (metis in_set_conv_nth)
    ultimately show ?thesis
      using p(2) by (simp add: last_conv_nth sorted_iff_nth_mono)
  qed
  have "filter (\<lambda>r. key (last p) < key r) p = []"
    unfolding filter_empty_conv using ple by (auto simp: not_less)
  moreover have "filter (\<lambda>r. key (last p) < key r) ys = ys"
    by (rule filter_True) (use ylt in blast)
  ultimately have "filter (\<lambda>r. key (last p) < key r) (p @ ys) = ys" by simp
  then show ?thesis using xs ys_def by metis
qed

lemma page_loop_visits:
  assumes d: "distinct (map key rows)" and b: "0 < batch"
  shows "\<exists>ps. concat ps = after_cursor key cursor rows \<and> (\<forall>p \<in> set ps. p \<noteq> [] \<and> length p \<le> batch)
    \<and> page_loop key batch work rows cursor n db
      = (case pages_work work ps db of (Inl e, db') \<Rightarrow> (Inl e, db')
         | (Inr _, db') \<Rightarrow> (Inr (n + length (after_cursor key cursor rows)), db'))"
proof (induction "length (after_cursor key cursor rows)" arbitrary: cursor n db rule: less_induct)
  case less
  let ?x = "after_cursor key cursor rows"
  let ?p = "page key batch cursor rows"
  show ?case
  proof (cases "?p = []")
    case True
    then have "?x = []" using b by (auto simp: page_def)
    then show ?thesis
      using True by (intro exI [of _ "[]"]) (simp add: page_loop.simps)
  next
    case False
    let ?c = "Some (key (last ?p))"
    have sx: "sorted (map key ?x)" "distinct (map key ?x)"
      using d by (auto simp: after_cursor_def sorted_filter distinct_map intro: inj_on_subset)
    have rest: "after_cursor key ?c rows = drop batch ?x"
    proof -
      have l: "last ?p \<in> set ?x"
        using False by (metis in_set_takeD last_in_set page_def)
      have "key (last ?p) < key r \<Longrightarrow> (case cursor of None \<Rightarrow> True | Some c \<Rightarrow> c < key r)" for r
        using l by (auto simp: after_cursor_def split: option.splits)
      then have "after_cursor key ?c rows = filter (\<lambda>r. key (last ?p) < key r) ?x"
        unfolding after_cursor_def filter_filter by (intro filter_cong) auto
      then show ?thesis
        using page_split [OF sx, of ?p batch] False by (simp add: page_def)
    qed
    have len: "length ?x = length ?p + length (drop batch ?x)" by (simp add: page_def)
    have lt: "length (after_cursor key ?c rows) < length ?x"
      using False unfolding rest len by simp
    show ?thesis
    proof (cases "work ?p db")
      case (Pair r db1)
      obtain ps where ps: "concat ps = after_cursor key ?c rows" "\<forall>p \<in> set ps. p \<noteq> [] \<and> length p \<le> batch"
          "page_loop key batch work rows ?c (n + length ?p) db1
           = (case pages_work work ps db1 of (Inl e, db') \<Rightarrow> (Inl e, db')
              | (Inr _, db') \<Rightarrow> (Inr (n + length ?p + length (after_cursor key ?c rows)), db'))"
        using less [OF lt, of "n + length ?p" db1] by blast
      have "concat (?p # ps) = ?x"
        using ps(1) rest by (simp add: page_def)
      moreover have "\<forall>p \<in> set (?p # ps). p \<noteq> [] \<and> length p \<le> batch"
        using ps(2) False by (simp add: page_def)
      moreover have "page_loop key batch work rows cursor n db
          = (case pages_work work (?p # ps) db of (Inl e, db') \<Rightarrow> (Inl e, db')
             | (Inr _, db') \<Rightarrow> (Inr (n + length ?x), db'))"
        using ps(3) False Pair len rest
        by (subst page_loop.simps) (auto simp: Let_def ac_simps split: sum.splits prod.splits)
      ultimately show ?thesis by blast
    qed
  qed
qed

subsection \<open>What a rebuild leaves\<close>

text \<open>\<open>history_only\<close>: nothing but the order history changed, and no version in it went down;
  \<open>covers\<close>: the history has the order at the given version or a later one.\<close>

definition history_only :: "database \<Rightarrow> database \<Rightarrow> bool" where
  "history_only db db' \<longleftrightarrow> versions_grow (order_history db) (order_history db')
     \<and> db' = db\<lparr>order_history := order_history db'\<rparr>"

definition covers :: "database \<Rightarrow> ident \<Rightarrow> int \<Rightarrow> bool" where
  "covers db oid v \<longleftrightarrow> (\<exists>v'. history_version oid (order_history db) = Some v' \<and> v \<le> v')"

lemma history_only_refl: "history_only db db"
  by (simp add: history_only_def versions_grow_def)

lemma history_only_trans: "history_only a b \<Longrightarrow> history_only b c \<Longrightarrow> history_only a c"
proof -
  assume ab: "history_only a b" and bc: "history_only b c"
  have "versions_grow (order_history a) (order_history c)"
    using ab bc history.grows_trans unfolding history_only_def history_grows by blast
  moreover have "c = a\<lparr>order_history := order_history c\<rparr>"
    using ab bc by (cases a, cases b, cases c) (simp add: history_only_def)
  ultimately show ?thesis by (simp add: history_only_def)
qed

lemma covers_mono: "history_only a b \<Longrightarrow> covers a oid v \<Longrightarrow> covers b oid v"
  unfolding history_only_def versions_grow_def covers_def by (meson order_trans)

lemma history_only_distinct:
  "history_only a b \<Longrightarrow> distinct (map oh_order_id (order_history a)) \<Longrightarrow> distinct (map oh_order_id (order_history b))"
  by (simp add: history_only_def versions_grow_def)

lemma write_order_history_alone:
  assumes d: "distinct (map oh_order_id (order_history db))"
    and v: "safe_int (oh_source_version row)" "0 \<le> oh_source_version row"
  shows "\<exists>db'. write_order_history alone row (Some (oh_source_version row)) db = (Inr (), db')
    \<and> history_only db db' \<and> covers db' (oh_order_id row) (oh_source_version row)"
proof -
  have nc: "\<not> no_clash row (order_history db)" by (simp add: no_clash_def)
  obtain rows where w: "versioned_write oh_order_id oh_source_version history_upd no_clash alone row
      (order_history db) = (Inr (), rows)"
    using history.write_alone [OF d nc] by blast
  have g: "history.grows rs (alone n rs)" for n rs
    by (simp add: alone_def history.grows_refl)
  have "versions_grow (order_history db) rows"
      "\<exists>v. history_version (oh_order_id row) rows = Some v \<and> oh_source_version row \<le> v"
    using history.write_versions [OF d g w]
    by (simp_all add: history_grows history.version_of_def history_version_def)
  then show ?thesis
    using w v by (auto simp: write_order_history_def require_source_version_def history_only_def covers_def)
qed

lemma write_rows_alone:
  assumes "distinct (map oh_order_id (order_history db))"
    and "\<forall>row \<in> set rows. safe_int (oh_source_version row) \<and> 0 \<le> oh_source_version row"
  shows "\<exists>us db'. dmap (\<lambda>row. write_order_history alone row (Some (oh_source_version row))) rows db = (Inr us, db')
    \<and> history_only db db' \<and> (\<forall>row \<in> set rows. covers db' (oh_order_id row) (oh_source_version row))"
  using assms
proof (induction rows arbitrary: db)
  case Nil
  then show ?case by (simp add: db_monad history_only_refl)
next
  case (Cons row rows)
  obtain db1 where s: "write_order_history alone row (Some (oh_source_version row)) db = (Inr (), db1)"
      "history_only db db1" "covers db1 (oh_order_id row) (oh_source_version row)"
    using write_order_history_alone [OF Cons.prems(1)] Cons.prems(2) by auto
  obtain us db2 where r: "dmap (\<lambda>row. write_order_history alone row (Some (oh_source_version row))) rows db1 = (Inr us, db2)"
      "history_only db1 db2" "\<forall>row \<in> set rows. covers db2 (oh_order_id row) (oh_source_version row)"
    using Cons.IH [OF history_only_distinct [OF s(2) Cons.prems(1)]] Cons.prems(2) by auto
  show ?case
    using r(3) covers_mono [OF r(2) s(3)] history_only_trans [OF s(2) r(2)]
    by (intro exI [of _ "() # us"] exI [of _ db2]) (simp add: dbind_def s(1) r(1) dret_def)
qed

lemma write_history_page_ok:
  assumes "distinct (map oh_order_id (order_history db))"
    and "\<forall>ord \<in> set os. safe_int (or_version ord) \<and> 0 \<le> or_version ord"
  shows "\<exists>db'. write_history_page os db = (Inr (), db') \<and> history_only db db'
    \<and> (\<forall>ord \<in> set os. covers db' (or_id ord) (or_version ord))"
proof -
  have "\<forall>row \<in> set (map (history_row_of db) os). safe_int (oh_source_version row) \<and> 0 \<le> oh_source_version row"
    using assms(2) by (simp add: history_row_of_def)
  from write_rows_alone [OF assms(1) this] show ?thesis
    by (auto simp: write_history_page_def dbind_def dret_def history_row_of_def)
qed

lemma pages_history_ok:
  assumes "distinct (map oh_order_id (order_history db))"
    and "\<forall>ord \<in> set (concat ps). safe_int (or_version ord) \<and> 0 \<le> or_version ord"
  shows "\<exists>db'. pages_work write_history_page ps db = (Inr (), db') \<and> history_only db db'
    \<and> (\<forall>ord \<in> set (concat ps). covers db' (or_id ord) (or_version ord))"
  using assms
proof (induction ps arbitrary: db)
  case Nil
  then show ?case by (simp add: history_only_refl)
next
  case (Cons p ps)
  obtain db1 where s: "write_history_page p db = (Inr (), db1)" "history_only db db1"
      "\<forall>ord \<in> set p. covers db1 (or_id ord) (or_version ord)"
    using write_history_page_ok [OF Cons.prems(1), of p] Cons.prems(2) by auto
  obtain db2 where r: "pages_work write_history_page ps db1 = (Inr (), db2)" "history_only db1 db2"
      "\<forall>ord \<in> set (concat ps). covers db2 (or_id ord) (or_version ord)"
    using Cons.IH [OF history_only_distinct [OF s(2) Cons.prems(1)]] Cons.prems(2) by auto
  show ?case
    using s r(3) covers_mono [OF r(2)] history_only_trans [OF s(2) r(2)]
    by (intro exI [of _ db2]) (auto simp: r(1))
qed

text \<open>C25: \<open>rebuildOrderHistoryProjection\<close> with any positive batch size processes every order exactly once,
  returns their number, changes nothing but the order history, lowers no version there, and afterwards the
  history holds every order at its current version or a later one.\<close>

theorem history_rebuild_complete:
  assumes ids: "distinct (map or_id (orders db))" and batch: "0 < batch"
    and keys: "distinct (map oh_order_id (order_history db))"
    and vers: "\<forall>ord \<in> set (orders db). safe_int (or_version ord) \<and> 0 \<le> or_version ord"
  shows "\<exists>db'. rebuild_order_history_projection batch db = (Inr (length (orders db)), db')
    \<and> db' = db\<lparr>order_history := order_history db'\<rparr>
    \<and> versions_grow (order_history db) (order_history db')
    \<and> (\<forall>ord \<in> set (orders db). \<exists>v. history_version (or_id ord) (order_history db') = Some v \<and> or_version ord \<le> v)"
proof -
  obtain ps where ps: "concat ps = after_cursor or_id None (orders db)"
      "page_loop or_id batch write_history_page (orders db) None 0 db
       = (case pages_work write_history_page ps db of (Inl e, db') \<Rightarrow> (Inl e, db')
          | (Inr _, db') \<Rightarrow> (Inr (0 + length (after_cursor or_id None (orders db))), db'))"
    using page_loop_visits [OF ids batch] by blast
  have s: "set (after_cursor or_id None (orders db)) = set (orders db)"
      "length (after_cursor or_id None (orders db)) = length (orders db)"
    by (simp_all add: after_cursor_def)
  obtain db' where "pages_work write_history_page ps db = (Inr (), db')" "history_only db db'"
      "\<forall>ord \<in> set (orders db). covers db' (or_id ord) (or_version ord)"
    using pages_history_ok [OF keys, of ps] vers unfolding ps(1) s by blast
  then show ?thesis
    unfolding history_only_def covers_def
    by (intro exI [of _ db']) (simp add: rebuild_order_history_projection_def ps(2) s(2))
qed

definition sample_order_row :: "ident \<Rightarrow> int \<Rightarrow> order_row" where
  "sample_order_row i v = \<lparr>or_id = i, or_order_number = ''ORD-1'', or_user_id = ''u1'', or_status = PENDING,
     or_payment_method = ''COD'', or_payment_status = PAY_PENDING, or_subtotal = 100, or_tax = 10,
     or_shipping_fee = 20, or_total = 130, or_discount_amount = 0, or_discount_code = None,
     or_customer_name = ''An'', or_customer_email = ''an@mail.vn'', or_customer_phone = ''0912345678'',
     or_customer_address = ''12 Hang Bai'', or_notes = None, or_idempotency_key = None,
     or_created_at = 5, or_version = v\<rparr>"

theorem history_rebuild_complete_witness:
  "\<exists>db'. rebuild_order_history_projection 1
      (empty_db\<lparr>orders := [sample_order_row ''b'' 3, sample_order_row ''a'' 1]\<rparr>) = (Inr 2, db')"
  using history_rebuild_complete [of "empty_db\<lparr>orders := [sample_order_row ''b'' 3, sample_order_row ''a'' 1]\<rparr>" 1]
  by (auto simp: sample_order_row_def empty_db_def safe_int_def max_safe_def)

end
