(* ===== verification/Pricing.thy ===== *)
theory Pricing
  imports Projection_Rebuild
begin

text \<open>
  The price of a checkout, \<^verbatim>\<open>modules/checkout/services/pricing.service.ts\<close>, with the two statements of
  \<^verbatim>\<open>prisma-checkout-unit-of-work.ts\<close> it uses. The tax rate is the double nearest to one tenth and the
  tax is the rounded double product, so the policy "ten percent, half up" is a theorem about doubles.
  \<open>flag\<close> is the feature flag of the discount system.
\<close>

subsection \<open>Constants and columns\<close>

definition FREE_SHIPPING_THRESHOLD :: int where "FREE_SHIPPING_THRESHOLD = 500000"
definition SHIPPING_FEE :: int where "SHIPPING_FEE = 30000"
definition TAX_RATE :: js_num where "TAX_RATE = fl (1 / 10)"

text \<open>A money column read from the database: the exact decimal becomes a double and is checked.\<close>

definition money_column :: "int \<Rightarrow> error + js_num" where
  "money_column n = to_safe_money_number (fl (of_int n))"

lemma fl_below_safe:
  assumes "n \<le> - (2 ^ 53)"
  shows "\<not> is_safe_integer (fl (of_int n))"
proof
  assume s: "is_safe_integer (fl (of_int n))"
  let ?r = "round_bin (of_int (- n))"
  have r: "fl (of_int n) = (if 2 ^ 1024 \<le> - ?r then Infinite True
      else if - ?r \<le> - (2 ^ 1024) then Infinite False else Fin (- ?r))"
    using round_bin_minus [of "of_int (- n)"] by (simp add: fl_def Let_def)
  have "of_int (2 ^ 53) \<le> (of_int (- n) :: rat)"
    unfolding of_int_le_iff using assms by linarith
  then have "(2::rat) ^ 53 \<le> of_int (- n)" by simp
  then have "2 ^ 53 \<le> ?r" by (rule round_bin_ge_53)
  then show False
    using s r by (auto simp: safe_int_def max_safe_def split: if_splits)
qed

lemma money_column_eq:
  "money_column n = (if 0 \<le> n \<and> n \<le> max_safe then Inr (num_of_int n)
     else if is_finite_num (fl (of_int n)) then Inl (PlainError ''Persisted monetary value must be a safe non-negative integer'')
     else Inl (PlainError ''Persisted numeric value must be finite''))"
proof (cases "\<bar>n\<bar> < 2 ^ 53")
  case True
  then have "fl (of_int n) = num_of_int n"
    using fl_of_int [of n] by (simp add: num_of_int_def)
  then show ?thesis
    using True by (simp add: money_column_def to_safe_money_number_def to_finite_number_def safe_int_def max_safe_def money_value_def)
      (auto simp: num_of_int_def)
next
  case False
  then have "2 ^ 53 \<le> n \<or> n \<le> - (2 ^ 53)" by linarith
  then have "\<not> is_safe_integer (fl (of_int n))"
    using fl_beyond_safe(2) fl_below_safe by blast
  moreover have "\<not> (0 \<le> n \<and> n \<le> max_safe)" using False by (auto simp: max_safe_def)
  ultimately show ?thesis
    by (auto simp: money_column_def to_safe_money_number_def to_finite_number_def)
qed

lemma money_column_Inr: "money_column n = Inr v \<longleftrightarrow> 0 \<le> n \<and> n \<le> max_safe \<and> v = num_of_int n"
  by (auto simp: money_column_eq)

subsection \<open>Discounts\<close>

record discount_record =
  dr_id :: ident
  dr_is_active :: bool
  dr_expires_at :: "millis option"
  dr_min_order_amount :: "js_num option"
  dr_max_uses :: "int option"
  dr_used_count :: int
  dr_type :: discount_type
  dr_value :: js_num

definition to_discount_record :: "discount_row \<Rightarrow> error + discount_record" where
  "to_discount_record d =
     rbind (to_safe_decimal_number (fl (dc_value d))) (\<lambda>v.
     rbind (case dc_min_order_amount d of None \<Rightarrow> Inr None
            | Some m \<Rightarrow> rbind (money_column m) (\<lambda>n. Inr (Some n))) (\<lambda>min_amount.
     Inr \<lparr>dr_id = dc_id d, dr_is_active = dc_is_active d, dr_expires_at = dc_expires_at d,
          dr_min_order_amount = min_amount, dr_max_uses = dc_max_uses d,
          dr_used_count = dc_used_count d, dr_type = dc_type d, dr_value = v\<rparr>))"

definition find_discount_by_code :: "string \<Rightarrow> discount_record option db_op" where
  "find_discount_by_code code db =
     (case find_by dc_code code (discounts db) of
        None \<Rightarrow> dret None db
      | Some d \<Rightarrow> dlift (rbind (to_discount_record d) (\<lambda>r. Inr (Some r))) db)"

definition usable :: "ident \<Rightarrow> int option \<Rightarrow> discount_row \<Rightarrow> bool" where
  "usable i max_uses d \<longleftrightarrow> dc_id d = i \<and> (case max_uses of None \<Rightarrow> True | Some m \<Rightarrow> dc_used_count d < m)"

definition increment_discount_usage :: "ident \<Rightarrow> int option \<Rightarrow> bool db_op" where
  "increment_discount_usage i max_uses db =
     (Inr (0 < count_where (usable i max_uses) (discounts db)),
      db\<lparr>discounts := update_where (usable i max_uses)
           (\<lambda>d. d\<lparr>dc_used_count := dc_used_count d + 1\<rparr>) (discounts db)\<rparr>)"

subsection \<open>The service\<close>

definition check_discount :: "millis \<Rightarrow> money \<Rightarrow> discount_record option \<Rightarrow> error + discount_record" where
  "check_discount now subtotal found =
     (case found of
        None \<Rightarrow> Inl (validation_error ''Invalid or inactive discount code'')
      | Some d \<Rightarrow>
          if \<not> dr_is_active d then Inl (validation_error ''Invalid or inactive discount code'')
          else if (case dr_expires_at d of None \<Rightarrow> False | Some t \<Rightarrow> t < now)
          then Inl (validation_error ''Discount code has expired'')
          else case dr_min_order_amount d of
            Some m \<Rightarrow>
              if js_less (money_value subtotal) m
              then Inl (validation_error (''Order must be at least '' @ show_int (int_of_num m)
                          @ '' to use this discount code''))
              else Inr d
          | None \<Rightarrow> Inr d)"

definition take_usage :: "bool \<Rightarrow> discount_record \<Rightarrow> unit db_op" where
  "take_usage consume d =
     (if consume
      then dbind (increment_discount_usage (dr_id d) (dr_max_uses d)) (\<lambda>success.
           if \<not> success
           then dthrow (conflict_error ''Discount code just reached its usage limit. Please retry.'')
           else dret ())
      else if (case dr_max_uses d of None \<Rightarrow> False | Some m \<Rightarrow> m \<le> dr_used_count d)
      then dthrow (validation_error ''Discount code has reached its usage limit'')
      else dret ())"

definition discount_amount :: "money \<Rightarrow> discount_record \<Rightarrow> error + money" where
  "discount_amount subtotal d =
     rbind (if dr_type d = PERCENTAGE
            then money_multiply subtotal (js_div (dr_value d) (num_of_int 100))
            else new_money (dr_value d)) (\<lambda>raw.
     rbind (money_less_than subtotal raw) (\<lambda>less. Inr (if less then subtotal else raw)))"

definition price :: "bool \<Rightarrow> bool \<Rightarrow> millis \<Rightarrow> money \<Rightarrow> string option \<Rightarrow> pricing db_op" where
  "price consume flag now subtotal discount_code =
     dbind (dlift (money_multiply subtotal TAX_RATE)) (\<lambda>tax.
     dbind (dlift (new_money (num_of_int (if FREE_SHIPPING_THRESHOLD \<le> m_amount subtotal then 0 else SHIPPING_FEE))))
       (\<lambda>shipping_fee.
     dbind (dlift (new_money (num_of_int 0))) (\<lambda>zero.
     case discount_code of
       Some code \<Rightarrow>
         if code \<noteq> [] \<and> flag
         then dbind (find_discount_by_code code) (\<lambda>found.
              dbind (dlift (check_discount now subtotal found)) (\<lambda>d.
              dbind (take_usage consume d) (\<lambda>_.
              dbind (dlift (discount_amount subtotal d)) (\<lambda>amount.
              dret \<lparr>pr_tax = tax, pr_shipping_fee = shipping_fee, pr_discount_amount = amount,
                    pr_discount_code = Some code\<rparr>))))
         else dret \<lparr>pr_tax = tax, pr_shipping_fee = shipping_fee, pr_discount_amount = zero,
                    pr_discount_code = None\<rparr>
     | None \<Rightarrow> dret \<lparr>pr_tax = tax, pr_shipping_fee = shipping_fee, pr_discount_amount = zero,
                    pr_discount_code = None\<rparr>)))"

definition calculate_pricing :: "bool \<Rightarrow> millis \<Rightarrow> money \<Rightarrow> string option \<Rightarrow> pricing db_op" where
  "calculate_pricing = price True"

definition preview_pricing :: "bool \<Rightarrow> millis \<Rightarrow> money \<Rightarrow> string option \<Rightarrow> pricing db_op" where
  "preview_pricing = price False"

subsection \<open>The tax\<close>

lemma round_bin_tenth: "round_bin (1 / 10) = 7205759403792794 / 2 ^ 56"
proof -
  have "expo (1 / 10) < -3" by (rule expo_less) (simp_all add: power_int_def power_divide)
  moreover have "-4 \<le> expo (1 / 10)" by (rule expo_ge) (simp add: power_int_def power_divide)
  ultimately have e: "expo (1 / 10) = -4" by linarith
  have u: "ulp (1 / 10) = 1 / 2 ^ 56" by (simp add: ulp_def e power_int_def power_one_over)
  have f: "\<lfloor>(36028797018963968 / 5 :: rat)\<rfloor> = 7205759403792793" by (simp add: floor_eq_iff)
  have "round_even (72057594037927936 / 10 :: rat) = 7205759403792794"
    by (simp add: round_even_def f Let_def)
  then show ?thesis by (simp add: round_bin_def u)
qed

lemma TAX_RATE_eq: "TAX_RATE = Fin (7205759403792794 / 2 ^ 56)"
proof -
  have "fl (1 / 10) = Fin (round_bin (1 / 10))"
    by (rule fl_Fin [of _ 1]) (simp_all add: round_bin_tenth)
  then show ?thesis by (simp add: TAX_RATE_def round_bin_tenth)
qed
text \<open>The product of a subtotal and the rate is a little above the exact tenth; the excess and the
  rounding together stay below what could change the rounded result.\<close>

definition tax_bound :: int where
  "tax_bound = 6755399441055744"

lemma tax_ulp:
  assumes "0 < x" and "x < 2 ^ 50"
  shows "ulp x \<le> 1 / 8"
proof -
  have "expo x < 50" using expo_less [OF assms(1), of 50] assms(2) by (simp add: power_int_def)
  then have "max (expo x) (-1022) - 52 \<le> - 3" by simp
  then have "2 powi (max (expo x) (-1022) - 52) \<le> (2::rat) powi (- 3)"
    by (intro power_int_increasing) simp_all
  also have "(2::rat) powi (- 3) = 1 / 8" by (simp add: power_int_def power_one_over)
  finally show ?thesis unfolding ulp_def .
qed

lemma round_bin_half:
  assumes "0 \<le> q" and "q < 2 ^ 50"
  shows "round_bin (of_int q + 1 / 2) = of_int q + 1 / 2"
proof -
  have q: "(of_int q :: rat) < 2 ^ 50" using assms(2) by (metis of_int_less_iff of_int_numeral of_int_power)
  have q0: "(0 :: rat) \<le> of_int q" using assms(1) by simp
  obtain k where "of_int q + 1 / 2 = of_int k * ulp (of_int q + 1 / 2)"
    using dyadic_multiple [of "of_int q + 1 / 2" "2 * q + 1" 1] q q0 by (auto simp: power_int_def field_simps)
  then show ?thesis using q0 by (intro round_bin_exact) simp_all
qed

lemma tax_rounds:
  assumes "0 < s" and "s < tax_bound"
  shows "\<exists>y. fl (of_int s * (7205759403792794 / 2 ^ 56)) = Fin y \<and> 0 \<le> y \<and> \<lfloor>y + 1 / 2\<rfloor> = (s + 5) div 10"
proof -
  define x :: rat where "x = of_int s * (7205759403792794 / 2 ^ 56)"
  define q r where "q = s div 10" and "r = s mod 10"
  have s: "s = 10 * q + r" "0 \<le> r" "r \<le> 9" by (simp_all add: q_def r_def)
  have sb: "(1 :: rat) \<le> of_int s" "(of_int s :: rat) < 6755399441055744"
  proof -
    show "(1 :: rat) \<le> of_int s" using assms(1) by simp
    have "(of_int s :: rat) < of_int 6755399441055744"
      using assms(2) unfolding tax_bound_def of_int_less_iff .
    then show "(of_int s :: rat) < 6755399441055744" by simp
  qed
  have x_eq: "x = of_int s / 10 + of_int s / 180143985094819840"
    by (simp add: x_def)
  have xs: "x = of_int q + of_int r / 10 + of_int s / 180143985094819840"
    unfolding x_eq by (subst s(1)) simp
  have \<delta>: "0 < (of_int s :: rat) / 180143985094819840" "(of_int s :: rat) / 180143985094819840 < 3 / 80"
    using sb by simp_all
  have q: "0 \<le> q" "q < 2 ^ 50" using assms s by (auto simp: tax_bound_def)
  have x0: "0 < x" using sb by (simp add: x_def)
  have x1: "x < 2 ^ 50" using sb by (simp add: x_eq)
  have err: "\<bar>round_bin x - x\<bar> \<le> 1 / 16"
    using round_bin_error [OF x0] tax_ulp [OF x0 x1] by linarith
  have "fl x = Fin (round_bin x)"
  proof (rule fl_Fin [of _ 51])
    have "\<bar>round_bin x\<bar> \<le> 1 / 16 + 2 ^ 50" using err x0 x1 by linarith
    then show "\<bar>round_bin x\<bar> \<le> 2 ^ 51" by simp
  qed simp
  moreover have "0 \<le> round_bin x" by (rule round_bin_nonneg) (use x0 in simp)
  moreover have "\<lfloor>round_bin x + 1 / 2\<rfloor> = (s + 5) div 10"
  proof (cases "r \<le> 4")
    case True
    then have r: "(0 :: rat) \<le> of_int r" "(of_int r :: rat) \<le> 4" using s(2) by simp_all
    have "(s + 5) div 10 = q" using s True by simp
    moreover have "\<lfloor>round_bin x + 1 / 2\<rfloor> = q"
      unfolding floor_eq_iff using err r \<delta> xs by linarith
    ultimately show ?thesis by simp
  next
    case False
    then have r: "(5 :: rat) \<le> of_int r" "(of_int r :: rat) \<le> 9" using s(3) by simp_all
    have "(s + 5) div 10 = q + 1" using s False by simp
    moreover have "of_int q + 1 / 2 \<le> round_bin x"
    proof -
      have "(2 :: rat) powi (- 1022) \<le> 2 powi (- 1)" by (rule power_int_increasing) simp_all
      also have "\<dots> \<le> of_int q + 1 / 2" using q(1) by (simp add: power_int_def)
      finally show ?thesis
        using round_bin_mono [of "of_int q + 1 / 2" x] round_bin_half [OF q] xs r \<delta> by linarith
    qed
    moreover have "round_bin x < of_int q + 3 / 2" using err r \<delta> xs by linarith
    ultimately show ?thesis by (simp add: floor_eq_iff)
  qed
  ultimately show ?thesis by (auto simp: x_def)
qed

definition tax_of :: "int \<Rightarrow> int" where
  "tax_of s = (s + 5) div 10"

lemma vnd_tax:
  assumes "0 \<le> s" and "s < tax_bound"
  shows "money_multiply (vnd s) TAX_RATE = Inr (vnd (tax_of s))"
proof (cases "s = 0")
  case True
  then show ?thesis
    by (simp add: money_multiply_def TAX_RATE_eq money_value_def num_of_int_def tax_of_def fl_def round_bin_def)
next
  case False
  then have "0 < s" using assms(1) by simp
  then obtain y where y: "fl (of_int s * (7205759403792794 / 2 ^ 56)) = Fin y" "0 \<le> y"
      "\<lfloor>y + 1 / 2\<rfloor> = (s + 5) div 10"
    using tax_rounds assms(2) by blast
  have "mk_money (Fin y) MONEY_CURRENCY = Inr (vnd (tax_of s))"
    using y(2,3) assms by (simp add: mk_money_def tax_of_def safe_int_def max_safe_def tax_bound_def vnd_def)
  then show ?thesis
    using y(1) by (simp add: money_multiply_def TAX_RATE_eq money_value_def num_of_int_def)
qed

subsection \<open>The price\<close>

text \<open>\<open>discount_applies\<close>: the code names a row that is active, not expired, within its minimum and not used up.\<close>

definition discount_applies :: "millis \<Rightarrow> int \<Rightarrow> discount_row \<Rightarrow> bool" where
  "discount_applies now s d \<longleftrightarrow> dc_is_active d
     \<and> (case dc_expires_at d of None \<Rightarrow> True | Some t \<Rightarrow> now \<le> t)
     \<and> (case dc_min_order_amount d of None \<Rightarrow> True | Some m \<Rightarrow> m \<le> s)
     \<and> (case dc_max_uses d of None \<Rightarrow> True | Some m \<Rightarrow> dc_used_count d < m)"

definition use_discount :: "ident \<Rightarrow> database \<Rightarrow> database" where
  "use_discount i db = db\<lparr>discounts := update_by dc_id i (\<lambda>d. d\<lparr>dc_used_count := dc_used_count d + 1\<rparr>) (discounts db)\<rparr>"

lemma update_where_key:
  assumes "distinct (map key rs)" and "r \<in> set rs" and "p r" and "\<And>x. p x \<Longrightarrow> key x = key r"
  shows "update_where p f rs = update_by key (key r) f rs"
  using assms
proof (induction rs)
  case (Cons x rs)
  show ?case
  proof (cases "x = r")
    case True
    have "\<not> p y" if "y \<in> set rs" for y
      using Cons.prems(1) Cons.prems(4) [of y] that True by (auto simp: image_iff)
    then have "update_where p f rs = rs" unfolding update_where_def by (intro map_idI) auto
    then show ?thesis using True Cons.prems(3) by simp
  next
    case False
    then have r: "r \<in> set rs" using Cons.prems(2) by simp
    then have "key x \<noteq> key r" using Cons.prems(1) by (auto simp: image_iff)
    then have "\<not> p x" using Cons.prems(4) by metis
    moreover have "update_where p f rs = update_by key (key r) f rs"
      using Cons.IH [OF _ r Cons.prems(3,4)] Cons.prems(1) by simp
    ultimately show ?thesis using \<open>key x \<noteq> key r\<close> by simp
  qed
next
  case Nil
  from Nil.prems(2) show ?case by simp
qed

lemma take_usage_consume:
  assumes d: "distinct (map dc_id (discounts db))" and row: "row \<in> set (discounts db)"
    and i: "dr_id dr = dc_id row" "dr_max_uses dr = dc_max_uses row"
  shows "take_usage True dr db =
    (if (case dc_max_uses row of None \<Rightarrow> True | Some m \<Rightarrow> dc_used_count row < m)
     then (Inr (), use_discount (dc_id row) db)
     else (Inl (conflict_error ''Discount code just reached its usage limit. Please retry.''), db))"
proof -
  let ?p = "usable (dc_id row) (dc_max_uses row)"
  have same: "x = row" if "x \<in> set (discounts db)" "dc_id x = dc_id row" for x
    using d row that by (metis find_by_distinct option.inject)
  show ?thesis
  proof (cases "?p row")
    case True
    then have "count_where ?p (discounts db) \<noteq> 0" unfolding count_where_0_iff using row by auto
    moreover have "update_where ?p f (discounts db) = update_by dc_id (dc_id row) f (discounts db)" for f
      using update_where_key [where key = dc_id and p = ?p, OF d row True] by (simp add: usable_def)
    ultimately show ?thesis
      using True by (auto simp: take_usage_def dbind_def increment_discount_usage_def i use_discount_def
          dret_def usable_def)
  next
    case False
    then have z: "count_where ?p (discounts db) = 0"
      unfolding count_where_0_iff using same by (auto simp: usable_def)
    then show ?thesis
      using False update_where_none [OF z]
      by (auto simp: take_usage_def dbind_def increment_discount_usage_def i dthrow_def usable_def)
  qed
qed

lemma money_less_than_vnd [simp]: "money_less_than (vnd a) (vnd b) = Inr (a < b)"
  by (simp add: money_less_than_def)

lemma discount_amount_bound:
  assumes "discount_amount (vnd s) d = Inr m" and "0 \<le> s" "s \<le> max_safe"
  shows "\<exists>a. m = vnd a \<and> 0 \<le> a \<and> a \<le> s"
proof -
  obtain raw where raw: "(if dr_type d = PERCENTAGE
       then money_multiply (vnd s) (js_div (dr_value d) (num_of_int 100)) else new_money (dr_value d)) = Inr raw"
      and m: "rbind (money_less_than (vnd s) raw) (\<lambda>less. Inr (if less then vnd s else raw)) = Inr m"
    using assms(1) by (auto simp: discount_amount_def rbind_Inr_iff)
  have "vnd_ok raw"
    using raw money_ok_multiply [of "vnd s"] vnd_ok_new_money by (auto simp: vnd_ok_def split: if_splits)
  then obtain r where "raw = vnd r" "0 \<le> r" by (auto elim: vnd_okE)
  then show ?thesis using m assms by auto
qed

lemma find_discount_row:
  assumes "find_discount_by_code code db = (Inr (Some dr), db')"
  obtains row where "row \<in> set (discounts db)" and "dc_code row = code" and "to_discount_record row = Inr dr"
    and "db' = db"
proof (cases "find_by dc_code code (discounts db)")
  case None
  then show thesis using assms by (simp add: find_discount_by_code_def dret_def)
next
  case (Some row)
  then have "to_discount_record row = Inr dr" "db' = db"
    using assms by (auto simp: find_discount_by_code_def dlift_def rbind_Inr_iff)
  then show thesis using that find_by_SomeD [OF Some] by blast
qed

lemma to_discount_record_fields:
  assumes "to_discount_record row = Inr dr"
  shows "dr_id dr = dc_id row" and "dr_is_active dr = dc_is_active row" and "dr_expires_at dr = dc_expires_at row"
    and "dr_min_order_amount dr = map_option num_of_int (dc_min_order_amount row)"
    and "dr_max_uses dr = dc_max_uses row" and "dr_used_count dr = dc_used_count row"
  using assms
  by (auto simp: to_discount_record_def rbind_Inr_iff money_column_Inr split: option.splits)

lemma check_discount_Inr:
  assumes "to_discount_record row = Inr dr"
  shows "check_discount now (vnd s) (Some dr) = Inr d \<longleftrightarrow> d = dr \<and> dc_is_active row
     \<and> (case dc_expires_at row of None \<Rightarrow> True | Some t \<Rightarrow> now \<le> t)
     \<and> (case dc_min_order_amount row of None \<Rightarrow> True | Some m \<Rightarrow> m \<le> s)"
  using to_discount_record_fields [OF assms]
  by (auto simp: check_discount_def money_value_def split: option.splits if_splits)

lemma take_usage_preview:
  "take_usage False d db =
    (if (case dr_max_uses d of None \<Rightarrow> True | Some m \<Rightarrow> dr_used_count d < m) then (Inr (), db)
     else (Inl (validation_error ''Discount code has reached its usage limit''), db))"
  by (auto simp: take_usage_def dret_def dthrow_def split: option.splits)

lemma shipping_money:
  "new_money (num_of_int (if b then 0 else SHIPPING_FEE)) = Inr (vnd (if b then 0 else SHIPPING_FEE))"
  by (simp add: SHIPPING_FEE_def max_safe_def)

lemma zero_money: "new_money (num_of_int 0) = Inr (vnd 0)"
  by (simp add: max_safe_def)

definition shipping_of :: "int \<Rightarrow> int" where
  "shipping_of s = (if FREE_SHIPPING_THRESHOLD \<le> s then 0 else SHIPPING_FEE)"

text \<open>\<open>price\<close> with its constants evaluated: a plain order, and the discount path.\<close>

definition priced :: "int \<Rightarrow> money \<Rightarrow> string option \<Rightarrow> pricing" where
  "priced s disc code = \<lparr>pr_tax = vnd (tax_of s), pr_shipping_fee = vnd (shipping_of s),
     pr_discount_amount = disc, pr_discount_code = code\<rparr>"

lemma price_eq:
  assumes "0 \<le> s" and "s < tax_bound"
  shows "price consume flag now (vnd s) code db =
    (case code of
       Some c \<Rightarrow>
         if c \<noteq> [] \<and> flag
         then dbind (find_discount_by_code c) (\<lambda>found.
              dbind (dlift (check_discount now (vnd s) found)) (\<lambda>d.
              dbind (take_usage consume d) (\<lambda>_.
              dbind (dlift (discount_amount (vnd s) d)) (\<lambda>amount. dret (priced s amount (Some c)))))) db
         else dret (priced s (vnd 0) None) db
     | None \<Rightarrow> dret (priced s (vnd 0) None) db)"
  unfolding price_def vnd_tax [OF assms] shipping_money zero_money dbind_simps
  by (cases code) (simp_all add: priced_def shipping_of_def)

lemma discount_path:
  assumes "dbind (find_discount_by_code c) (\<lambda>found.
              dbind (dlift (check_discount now (vnd s) found)) (\<lambda>d.
              dbind (take_usage consume d) (\<lambda>_.
              dbind (dlift (discount_amount (vnd s) d)) (\<lambda>amount. dret (priced s amount (Some c)))))) db = (Inr p, db')"
    and dist: "distinct (map dc_id (discounts db))"
  obtains row dr amount where "row \<in> set (discounts db)" and "dc_code row = c" and "discount_applies now s row"
    and "to_discount_record row = Inr dr"
    and "discount_amount (vnd s) dr = Inr amount" and "p = priced s amount (Some c)"
    and "db' = (if consume then use_discount (dc_id row) db else db)"
proof -
  have nop: "snd (find_discount_by_code c db) = db"
    by (simp add: find_discount_by_code_def dret_def dlift_def split: option.splits)
  obtain found db0 where f0: "find_discount_by_code c db = (Inr found, db0)"
      and rest0: "dbind (dlift (check_discount now (vnd s) found)) (\<lambda>d.
              dbind (take_usage consume d) (\<lambda>_.
              dbind (dlift (discount_amount (vnd s) d)) (\<lambda>amount. dret (priced s amount (Some c))))) db0 = (Inr p, db')"
    by (rule dbind_Inr_E [OF assms(1)])
  have db0: "db0 = db" using nop f0 by simp
  note f = f0 [unfolded db0] and rest = rest0 [unfolded db0]
  obtain dr where dr: "found = Some dr"
    using rest by (cases found) (auto simp: check_discount_def)
  obtain row where row: "row \<in> set (discounts db)" "dc_code row = c" "to_discount_record row = Inr dr"
    using find_discount_row [OF f [unfolded dr]] by blast
  note fields = to_discount_record_fields [OF row(3)]
  obtain d where chk: "check_discount now (vnd s) (Some dr) = Inr d"
      and rest1: "dbind (take_usage consume d) (\<lambda>_.
              dbind (dlift (discount_amount (vnd s) d)) (\<lambda>amount. dret (priced s amount (Some c)))) db = (Inr p, db')"
    using rest unfolding dr by (cases "check_discount now (vnd s) (Some dr)") simp_all
  obtain db1 where use: "take_usage consume d db = (Inr (), db1)"
      and amt: "dbind (dlift (discount_amount (vnd s) d)) (\<lambda>amount. dret (priced s amount (Some c))) db1 = (Inr p, db')"
    using dbind_Inr_E [OF rest1] by (metis unit.exhaust)
  have d: "d = dr" using chk check_discount_Inr [OF row(3)] by simp
  obtain amount where amount: "discount_amount (vnd s) dr = Inr amount" "p = priced s amount (Some c)" "db' = db1"
    using amt d by (auto elim!: dbind_Inr_E simp: dlift_def dret_def)
  have "(case dc_max_uses row of None \<Rightarrow> True | Some m \<Rightarrow> dc_used_count row < m)
      \<and> db1 = (if consume then use_discount (dc_id row) db else db)"
    using use d take_usage_preview [of dr db] take_usage_consume [OF dist row(1), of dr] fields
    by (cases consume) (auto split: if_splits option.splits)
  then show ?thesis
    using that [OF row(1,2) _ row(3) amount(1,2)] chk check_discount_Inr [OF row(3)] amount(3)
    by (auto simp: discount_applies_def)
qed

lemma price_row:
  assumes s: "0 \<le> s" "s < tax_bound" and dist: "distinct (map dc_id (discounts db))"
    and f: "find_by dc_code c (discounts db) = Some row" and dr: "to_discount_record row = Inr dr"
    and c: "c \<noteq> []" "flag"
  shows "price consume flag now (vnd s) (Some c) db =
    (case check_discount now (vnd s) (Some dr) of
       Inl e \<Rightarrow> (Inl e, db)
     | Inr _ \<Rightarrow>
         if (case dc_max_uses row of None \<Rightarrow> True | Some m \<Rightarrow> dc_used_count row < m)
         then let db1 = (if consume then use_discount (dc_id row) db else db)
           in (case discount_amount (vnd s) dr of
                 Inl e \<Rightarrow> (Inl e, db1) | Inr a \<Rightarrow> (Inr (priced s a (Some c)), db1))
         else (Inl (if consume then conflict_error ''Discount code just reached its usage limit. Please retry.''
                    else validation_error ''Discount code has reached its usage limit''), db))"
proof -
  have row: "row \<in> set (discounts db)" using find_by_SomeD [OF f] by simp
  have fd: "find_discount_by_code c db = (Inr (Some dr), db)"
    by (simp add: find_discount_by_code_def f dr dlift_def)
  note fields = to_discount_record_fields [OF dr]
  have use: "take_usage consume dr db =
      (if (case dc_max_uses row of None \<Rightarrow> True | Some m \<Rightarrow> dc_used_count row < m)
       then (Inr (), if consume then use_discount (dc_id row) db else db)
       else (Inl (if consume then conflict_error ''Discount code just reached its usage limit. Please retry.''
                  else validation_error ''Discount code has reached its usage limit''), db))"
    using take_usage_consume [OF dist row fields(1,5)] take_usage_preview [of dr db] fields(5,6)
    by (cases consume) (simp_all split: option.splits)
  show ?thesis
  proof (cases "check_discount now (vnd s) (Some dr)")
    case (Inl e)
    then show ?thesis by (simp add: price_eq [OF s] c dbind_step [where m = "find_discount_by_code c", OF fd])
  next
    case (Inr d)
    then have "d = dr" using check_discount_Inr [OF dr] by simp
    then show ?thesis
      using Inr by (simp add: price_eq [OF s] c fd dbind_def use Let_def dlift_def dret_def
          split: sum.splits option.splits)
  qed
qed

subsection \<open>Properties\<close>

lemma pricing_facts:
  assumes s: "0 \<le> s" "s < tax_bound" and dist: "distinct (map dc_id (discounts db))"
    and p: "calculate_pricing flag now (vnd s) code db = (Inr p, db')"
  shows "pr_tax p = vnd ((s + 5) div 10)"
    and "pr_shipping_fee p = vnd (if 500000 \<le> s then 0 else 30000)"
    and "\<exists>a. pr_discount_amount p = vnd a \<and> 0 \<le> a \<and> a \<le> s"
    and "case pr_discount_code p of
        None \<Rightarrow> pr_discount_amount p = vnd 0 \<and> db' = db
      | Some c \<Rightarrow> code = Some c \<and> (\<exists>row \<in> set (discounts db). dc_code row = c \<and> discount_applies now s row
          \<and> db' = use_discount (dc_id row) db)"
proof -
  have eq: "price True flag now (vnd s) code db = (Inr p, db')"
    using p by (simp add: calculate_pricing_def)
  have ms: "s \<le> max_safe" using s by (simp add: tax_bound_def max_safe_def)
  have main: "pr_tax p = vnd (tax_of s) \<and> pr_shipping_fee p = vnd (shipping_of s)
     \<and> (\<exists>a. pr_discount_amount p = vnd a \<and> 0 \<le> a \<and> a \<le> s \<and> (pr_discount_code p = None \<longrightarrow> a = 0 \<and> db' = db))
     \<and> (\<forall>c. pr_discount_code p = Some c \<longrightarrow> code = Some c \<and> (\<exists>row \<in> set (discounts db). dc_code row = c
          \<and> discount_applies now s row \<and> db' = use_discount (dc_id row) db))"
  proof (cases "\<exists>c. code = Some c \<and> c \<noteq> [] \<and> flag")
    case False
    then have "p = priced s (vnd 0) None \<and> db' = db"
      using eq by (auto simp: price_eq [OF s] dret_def split: option.splits if_splits)
    then show ?thesis using s by (auto simp: priced_def)
  next
    case True
    then obtain c where c: "code = Some c" "c \<noteq> []" flag by blast
    show ?thesis
    proof (rule discount_path [of c now s True db p db'])
      fix row dr amount
      assume a: "row \<in> set (discounts db)" "dc_code row = c" "discount_applies now s row"
        "discount_amount (vnd s) dr = Inr amount" "p = priced s amount (Some c)"
        "db' = (if True then use_discount (dc_id row) db else db)"
      obtain x where "amount = vnd x" "0 \<le> x" "x \<le> s"
        using discount_amount_bound [OF a(4) s(1) ms] by blast
      then show ?thesis using a c by (auto simp: priced_def)
    qed (use eq c dist in \<open>auto simp: price_eq [OF s]\<close>)
  qed
  show "pr_tax p = vnd ((s + 5) div 10)"
    using main by (simp add: tax_of_def)
  show "pr_shipping_fee p = vnd (if 500000 \<le> s then 0 else 30000)"
    using main by (simp add: shipping_of_def FREE_SHIPPING_THRESHOLD_def SHIPPING_FEE_def)
  show "\<exists>a. pr_discount_amount p = vnd a \<and> 0 \<le> a \<and> a \<le> s"
    using main by blast
  show "case pr_discount_code p of
        None \<Rightarrow> pr_discount_amount p = vnd 0 \<and> db' = db
      | Some c \<Rightarrow> code = Some c \<and> (\<exists>row \<in> set (discounts db). dc_code row = c \<and> discount_applies now s row
          \<and> db' = use_discount (dc_id row) db)"
    using main by (auto split: option.splits)
qed

text \<open>C12: A successful pricing of a subtotal charges ten percent tax rounded half up, a shipping fee exactly below
  the free-shipping threshold and a discount between zero and the subtotal. Without a code nothing is
  discounted and the database is unchanged; with one the code's row is active, unexpired, within its
  minimum and below its usage cap, and the checkout adds exactly one use to it.\<close>

theorem pricing_result:
  assumes s: "0 \<le> s" "s < tax_bound" and dist: "distinct (map dc_id (discounts db))"
    and p: "calculate_pricing flag now (vnd s) code db = (Inr p, db')"
  shows "pr_tax p = vnd ((s + 5) div 10) \<and> pr_shipping_fee p = vnd (if 500000 \<le> s then 0 else 30000)
    \<and> (\<exists>a. pr_discount_amount p = vnd a \<and> 0 \<le> a \<and> a \<le> s)
    \<and> (case pr_discount_code p of
        None \<Rightarrow> pr_discount_amount p = vnd 0 \<and> db' = db
      | Some c \<Rightarrow> code = Some c \<and> (\<exists>row \<in> set (discounts db). dc_code row = c \<and> discount_applies now s row
          \<and> db' = use_discount (dc_id row) db))"
  using pricing_facts [OF assms] by simp

definition sample_discount :: discount_row where
  "sample_discount = \<lparr>dc_id = ''d1'', dc_code = ''TET'', dc_type = FIXED, dc_value = 20000,
     dc_min_order_amount = Some 100000, dc_max_uses = Some 3, dc_used_count = 2,
     dc_expires_at = Some 50, dc_is_active = True\<rparr>"

definition discount_db :: database where
  "discount_db = empty_db\<lparr>discounts := [sample_discount]\<rparr>"

lemma fl_numeral: "fl (numeral n) = (if (numeral n :: int) \<le> 2 ^ 53 then num_of_int (numeral n) else fl (numeral n))"
  using fl_of_int [of "numeral n"] by (simp add: num_of_int_def)

lemma sample_discount_record:
  "to_discount_record sample_discount =
    Inr \<lparr>dr_id = ''d1'', dr_is_active = True, dr_expires_at = Some 50,
       dr_min_order_amount = Some (num_of_int 100000), dr_max_uses = Some 3, dr_used_count = 2,
       dr_type = FIXED, dr_value = num_of_int 20000\<rparr>"
  using fl_of_int [of 20000]
  by (simp add: sample_discount_def to_discount_record_def to_safe_decimal_number_def to_finite_number_def
      money_column_eq safe_int_def max_safe_def num_of_int_def floor_eq_iff)

lemma sample_price:
  "price b True 50 (vnd 250005) (Some ''TET'') discount_db =
     (Inr (priced 250005 (vnd 20000) (Some ''TET'')), if b then use_discount ''d1'' discount_db else discount_db)"
proof -
  have f: "find_by dc_code ''TET'' (discounts discount_db) = Some sample_discount"
    by (simp add: discount_db_def sample_discount_def)
  have d: "distinct (map dc_id (discounts discount_db))" by (simp add: discount_db_def)
  show ?thesis
    by (subst price_row [OF _ _ d f sample_discount_record])
      (simp_all add: tax_bound_def check_discount_def money_value_def discount_amount_def max_safe_def
        sample_discount_def money_less_than_def vnd_def)
qed

theorem pricing_result_witness:
  "pr_tax (priced 250005 (vnd 20000) (Some ''TET'')) = vnd 25001"
proof -
  have "distinct (map dc_id (discounts discount_db))" by (simp add: discount_db_def)
  then show ?thesis
    using pricing_result [of 250005 discount_db True 50 "Some ''TET''" "priced 250005 (vnd 20000) (Some ''TET'')"]
      sample_price [of True] by (simp add: calculate_pricing_def tax_bound_def)
qed

lemma preview_agrees:
  assumes s: "0 \<le> s" "s < tax_bound" and dist: "distinct (map dc_id (discounts db))"
  shows "preview_pricing flag now (vnd s) code db = (Inr p, db')
    \<longleftrightarrow> db' = db \<and> fst (calculate_pricing flag now (vnd s) code db) = Inr p"
proof (cases "\<exists>c. code = Some c \<and> c \<noteq> [] \<and> flag")
  case False
  then show ?thesis
    by (auto simp: preview_pricing_def calculate_pricing_def price_eq [OF s] dret_def split: option.splits if_splits)
next
  case True
  then obtain c where c: "code = Some c" "c \<noteq> []" flag by blast
  show ?thesis
  proof (cases "find_by dc_code c (discounts db)")
    case None
    then show ?thesis
      using c by (simp add: preview_pricing_def calculate_pricing_def price_eq [OF s] dbind_def
          find_discount_by_code_def dret_def check_discount_def dlift_def)
  next
    case (Some row)
    show ?thesis
    proof (cases "to_discount_record row")
      case (Inl e)
      then show ?thesis
        using c Some by (simp add: preview_pricing_def calculate_pricing_def price_eq [OF s] dbind_def
            find_discount_by_code_def dlift_def)
    next
      case (Inr dr)
      then show ?thesis
        using price_row [OF s dist Some Inr c(2,3)] c
        by (auto simp: preview_pricing_def calculate_pricing_def Let_def split: sum.splits)
    qed
  qed
qed

text \<open>A preview prices exactly as the checkout would: on the same database one returns a price if and only if
  the other does, the price is the same, and the preview leaves the database alone.\<close>

theorem preview_agrees_with_checkout:
  assumes s: "0 \<le> s" "s < tax_bound" and dist: "distinct (map dc_id (discounts db))"
  shows "preview_pricing flag now (vnd s) code db = (Inr p, db')
    \<longleftrightarrow> db' = db \<and> fst (calculate_pricing flag now (vnd s) code db) = Inr p"
  using preview_agrees [OF assms] .

theorem preview_agrees_with_checkout_witness:
  "preview_pricing True 50 (vnd 250005) (Some ''TET'') discount_db
     = (Inr (priced 250005 (vnd 20000) (Some ''TET'')), discount_db)"
proof -
  have "distinct (map dc_id (discounts discount_db))" by (simp add: discount_db_def)
  then show ?thesis
    using preview_agrees_with_checkout [of 250005 discount_db] sample_price [of True]
    by (simp add: calculate_pricing_def tax_bound_def)
qed

end
