(* ===== verification/Stock_Reservation.thy ===== *)
theory Stock_Reservation
  imports Pricing
begin

text \<open>
  The reservation of stock inside the checkout transaction,
  \<^verbatim>\<open>modules/checkout/services/stock-reservation.service.ts\<close> with its statements from
  \<^verbatim>\<open>prisma-checkout-unit-of-work.ts\<close>. A cart line is a pair of a product and a quantity; the price column
  of a locked row is checked when it is read. Spans and counters do not change the result and are left out.
\<close>

type_synonym cart_line = "ident \<times> int"

record locked_row =
  lk_id :: ident
  lk_stock :: int
  lk_version :: int
  lk_name :: string
  lk_price :: js_num
  lk_is_active :: bool

definition to_locked :: "product_row \<Rightarrow> error + locked_row" where
  "to_locked p = rbind (money_column (prow_price p)) (\<lambda>price.
     Inr \<lparr>lk_id = prow_id p, lk_stock = prow_stock p, lk_version = prow_version p, lk_name = prow_name p,
          lk_price = price, lk_is_active = prow_is_active p\<rparr>)"

definition lock_products_for_update :: "ident list \<Rightarrow> locked_row list db_op" where
  "lock_products_for_update ids db =
     dlift (rmap to_locked (filter (\<lambda>p. prow_id p \<in> set ids) (products db))) db"

definition decrement_product_stock :: "ident \<Rightarrow> int \<Rightarrow> int \<Rightarrow> bool db_op" where
  "decrement_product_stock pid expected_version quantity db =
     (let p = (\<lambda>r. prow_id r = pid \<and> prow_version r = expected_version)
      in (Inr (0 < count_where p (products db)),
          db\<lparr>products := update_where p
               (\<lambda>r. r\<lparr>prow_stock := prow_stock r - quantity, prow_version := prow_version r + 1\<rparr>) (products db)\<rparr>))"

definition persist_product_event :: "env \<Rightarrow> domain_event \<Rightarrow> int \<Rightarrow> unit db_op" where
  "persist_product_event E ev v = persist_events E [ev] (\<lambda>i. if i = ev_aggregate_id ev then Some v else None)"

definition check_line :: "locked_row list \<Rightarrow> cart_line \<Rightarrow> error + unit" where
  "check_line locked line = (case line of (pid, quantity) \<Rightarrow>
     if quantity \<le> 0 then Inl (validation_error (''Invalid quantity for product '' @ pid))
     else case find_by lk_id pid locked of
       None \<Rightarrow> Inl (not_found_error (''Product '' @ pid @ '' not found''))
     | Some p \<Rightarrow>
         if \<not> lk_is_active p then Inl (validation_error (''Product '' @ lk_name p @ '' is inactive''))
         else if lk_stock p < quantity
         then Inl (validation_error (''Not enough stock for '' @ lk_name p @ ''. Available: '' @ show_int (lk_stock p)))
         else Inr ())"

definition reserve_line :: "env \<Rightarrow> millis \<Rightarrow> locked_row list \<Rightarrow> cart_line \<Rightarrow> unit db_op" where
  "reserve_line E now locked line = (case line of (pid, quantity) \<Rightarrow>
     (case find_by lk_id pid locked of
        None \<Rightarrow> dthrow (PlainError ''Cannot read properties of undefined'')
      | Some p \<Rightarrow>
          dbind (decrement_product_stock pid (lk_version p) quantity) (\<lambda>success.
          if \<not> success then dthrow (conflict_error (''Stock conflict for product '' @ pid @ ''. Please retry.''))
          else persist_product_event E (product_updated_event now pid) (lk_version p + 1))))"

definition reserve_stock :: "env \<Rightarrow> millis \<Rightarrow> cart_line list \<Rightarrow> locked_row list db_op" where
  "reserve_stock E now items =
     (if items = [] then dthrow (validation_error ''Cart is empty'')
      else dbind (lock_products_for_update (map fst items)) (\<lambda>locked.
           dbind (dlift (rmap (check_line locked) items)) (\<lambda>_.
           dbind (dmap (reserve_line E now locked) items) (\<lambda>_.
           dret locked))))"

subsection \<open>What a reservation does\<close>

text \<open>\<open>sell q r\<close>: the row after a decrement; \<open>take_stock\<close>: the row after the reservation of the lines.\<close>

definition sell :: "int \<Rightarrow> product_row \<Rightarrow> product_row" where
  "sell q r = r\<lparr>prow_stock := prow_stock r - q, prow_version := prow_version r + 1\<rparr>"

definition take_stock :: "cart_line list \<Rightarrow> product_row \<Rightarrow> product_row" where
  "take_stock items r = (case map_of items (prow_id r) of None \<Rightarrow> r | Some q \<Rightarrow> sell q r)"

lemma sell_simps [simp]:
  "prow_id (sell q r) = prow_id r" "prow_stock (sell q r) = prow_stock r - q"
  "prow_version (sell q r) = prow_version r + 1" "prow_price (sell q r) = prow_price r"
  "prow_name (sell q r) = prow_name r" "prow_is_active (sell q r) = prow_is_active r"
  by (simp_all add: sell_def)

lemma take_stock_id [simp]: "prow_id (take_stock items r) = prow_id r"
  by (simp add: take_stock_def split: option.splits)

lemma take_stock_Nil [simp]: "take_stock [] = (\<lambda>r. r)"
  by (simp add: take_stock_def fun_eq_iff)

text \<open>\<open>locks db ids locked\<close>: the locked rows are the snapshots of the products with those identifiers.\<close>

definition snapshot_of :: "locked_row \<Rightarrow> product_row \<Rightarrow> bool" where
  "snapshot_of l p \<longleftrightarrow> lk_id l = prow_id p \<and> lk_stock l = prow_stock p \<and> lk_version l = prow_version p
     \<and> lk_name l = prow_name p \<and> lk_is_active l = prow_is_active p
     \<and> 0 \<le> prow_price p \<and> prow_price p \<le> max_safe \<and> lk_price l = num_of_int (prow_price p)"

lemma to_locked_Inr: "to_locked p = Inr l \<Longrightarrow> snapshot_of l p"
  by (auto simp: to_locked_def rbind_Inr_iff money_column_Inr snapshot_of_def)

lemma rmap_locked_find:
  assumes "rmap to_locked ps = Inr ls"
  shows "find_by lk_id i ls = None \<longleftrightarrow> find_by prow_id i ps = None"
    and "find_by lk_id i ls = Some l \<Longrightarrow> \<exists>p. find_by prow_id i ps = Some p \<and> snapshot_of l p"
proof -
  have "(find_by lk_id i ls = None \<longleftrightarrow> find_by prow_id i ps = None)
      \<and> (\<forall>l. find_by lk_id i ls = Some l \<longrightarrow> (\<exists>p. find_by prow_id i ps = Some p \<and> snapshot_of l p))"
    using assms
  proof (induction ps arbitrary: ls)
    case (Cons p ps)
    then obtain l ls' where l: "to_locked p = Inr l" "rmap to_locked ps = Inr ls'" "ls = l # ls'"
      by (auto simp: rbind_Inr_iff)
    have "lk_id l = prow_id p" using to_locked_Inr [OF l(1)] by (simp add: snapshot_of_def)
    then show ?case using Cons.IH [OF l(2)] to_locked_Inr [OF l(1)] l(3) by auto
  qed simp
  then show "find_by lk_id i ls = None \<longleftrightarrow> find_by prow_id i ps = None"
      "find_by lk_id i ls = Some l \<Longrightarrow> \<exists>p. find_by prow_id i ps = Some p \<and> snapshot_of l p"
    by blast+
qed

lemma find_by_map:
  "(\<And>x. key (f x) = key x) \<Longrightarrow> find_by key k (map f xs) = map_option f (find_by key k xs)"
  by (induction xs) auto

lemma find_by_filter:
  "(\<And>x. key x = k \<Longrightarrow> P x) \<Longrightarrow> find_by key k (filter P xs) = find_by key k xs"
  by (induction xs) auto

lemma lock_products_spec:
  assumes "lock_products_for_update ids db = (Inr locked, db')"
  shows "db' = db"
    and "i \<in> set ids \<Longrightarrow> find_by lk_id i locked = Some l \<Longrightarrow>
      \<exists>p. find_by prow_id i (products db) = Some p \<and> snapshot_of l p"
proof -
  have r: "rmap to_locked (filter (\<lambda>p. prow_id p \<in> set ids) (products db)) = Inr locked" and "db' = db"
    using assms by (auto simp: lock_products_for_update_def dlift_def)
  then show "db' = db" by simp
  show "\<exists>p. find_by prow_id i (products db) = Some p \<and> snapshot_of l p"
    if "i \<in> set ids" "find_by lk_id i locked = Some l"
    using rmap_locked_find(2) [OF r that(2)] find_by_filter [of prow_id i "\<lambda>p. prow_id p \<in> set ids" "products db"] that(1)
    by auto
qed

lemma check_line_Inr:
  "check_line locked (pid, q) = Inr u \<longleftrightarrow>
     0 < q \<and> (\<exists>p. find_by lk_id pid locked = Some p \<and> lk_is_active p \<and> q \<le> lk_stock p)"
  by (auto simp: check_line_def split: option.splits if_splits)

text \<open>\<open>updated_rows\<close>: the outbox rows of the reserved lines.\<close>

definition event_keys :: "outbox_row list \<Rightarrow> (string \<times> ident) list" where
  "event_keys rows = map (\<lambda>r. (ob_event_name r, ob_aggregate_id r)) rows"

definition stock_change :: "cart_line list \<Rightarrow> database \<Rightarrow> database \<Rightarrow> bool" where
  "stock_change items db db' \<longleftrightarrow>
     (\<exists>rows. event_keys rows = map (\<lambda>(pid, q). (''ProductUpdated'', pid)) items
       \<and> db' = db\<lparr>products := map (take_stock items) (products db), outbox_events := outbox_events db @ rows,
                   id_supply := id_supply db + length items\<rparr>)"

lemma update_where_id:
  assumes "distinct (map prow_id ps)" and "p \<in> set ps"
  shows "update_where (\<lambda>r. prow_id r = prow_id p \<and> prow_version r = prow_version p) (sell q) ps
    = map (take_stock [(prow_id p, q)]) ps"
proof -
  have "x = p" if "x \<in> set ps" "prow_id x = prow_id p" for x
    using assms that by (metis find_by_distinct option.inject)
  then show ?thesis
    by (auto simp: update_where_def take_stock_def)
qed

definition reserved_row :: "env \<Rightarrow> millis \<Rightarrow> ident \<Rightarrow> int \<Rightarrow> database \<Rightarrow> outbox_row" where
  "reserved_row E now pid v db =
     outbox_row_of (iso_of E) (\<lambda>i. if i = ev_aggregate_id (product_updated_event now pid) then Some v else None)
       (gen_id E (id_supply db)) (product_updated_event now pid)"

lemma reserve_line_ok:
  assumes dist: "distinct (map prow_id (products db))" and l: "find_by lk_id pid locked = Some l"
    and p: "find_by prow_id pid (products db) = Some p" and v: "lk_version l = prow_version p"
  shows "\<exists>db'. reserve_line E now locked (pid, q) db = (Inr (), db') \<and> stock_change [(pid, q)] db db'"
proof -
  have p': "p \<in> set (products db)" "prow_id p = pid" using find_by_SomeD [OF p] by auto
  have "count_where (\<lambda>r. prow_id r = pid \<and> prow_version r = lk_version l) (products db) \<noteq> 0"
    unfolding count_where_0_iff using p' v by auto
  moreover have "update_where (\<lambda>r. prow_id r = pid \<and> prow_version r = lk_version l)
      (\<lambda>r. r\<lparr>prow_stock := prow_stock r - q, prow_version := prow_version r + 1\<rparr>) (products db)
    = map (take_stock [(pid, q)]) (products db)"
    using update_where_id [OF dist p'(1), of q] p'(2) v by (simp add: sell_def [abs_def])
  ultimately have eq: "reserve_line E now locked (pid, q) db
      = (Inr (), db\<lparr>products := map (take_stock [(pid, q)]) (products db),
           outbox_events := outbox_events db @ [reserved_row E now pid (lk_version l + 1) db],
           id_supply := id_supply db + 1\<rparr>)"
    using l by (simp add: reserve_line_def decrement_product_stock_def Let_def dbind_def persist_product_event_def
        persist_events_def dupdate_def reserved_row_def)
  have "stock_change [(pid, q)] db (snd (reserve_line E now locked (pid, q) db))"
    unfolding stock_change_def eq
    by (rule exI [of _ "[reserved_row E now pid (lk_version l + 1) db]"])
      (simp add: event_keys_def reserved_row_def outbox_row_of_def event_defs)
  then show ?thesis using eq by simp
qed

lemma stock_change_Nil: "stock_change [] db db' \<longleftrightarrow> db' = db"
  by (auto simp: stock_change_def event_keys_def)

lemma take_stock_Cons:
  assumes "pid \<notin> fst ` set items"
  shows "take_stock items (take_stock [(pid, q)] r) = take_stock ((pid, q) # items) r"
proof -
  have "map_of items pid = None" using assms by (simp add: map_of_eq_None_iff)
  then show ?thesis by (auto simp: take_stock_def split: option.splits)
qed

lemma stock_change_Cons:
  assumes "stock_change [(pid, q)] db db1" and "stock_change items db1 db2" and "pid \<notin> fst ` set items"
  shows "stock_change ((pid, q) # items) db db2"
proof -
  obtain r1 where r1: "event_keys r1 = [(''ProductUpdated'', pid)]"
      "db1 = db\<lparr>products := map (take_stock [(pid, q)]) (products db), outbox_events := outbox_events db @ r1,
                 id_supply := id_supply db + 1\<rparr>"
    using assms(1) by (auto simp: stock_change_def)
  obtain r2 where r2: "event_keys r2 = map (\<lambda>(pid, q). (''ProductUpdated'', pid)) items"
      "db2 = db1\<lparr>products := map (take_stock items) (products db1), outbox_events := outbox_events db1 @ r2,
                 id_supply := id_supply db1 + length items\<rparr>"
    using assms(2) by (auto simp: stock_change_def)
  have m: "map (take_stock items) (map (take_stock [(pid, q)]) ps) = map (take_stock ((pid, q) # items)) ps" for ps
    by (simp add: take_stock_Cons [OF assms(3)])
  show ?thesis
    unfolding stock_change_def
    by (rule exI [of _ "r1 @ r2"]) (use r1 r2 m in \<open>simp add: event_keys_def\<close>)
qed

text \<open>The second loop of \<open>doReserveStock\<close> cannot fail when the first has passed: the lines name different
  products, so each row still has the version it was locked at.\<close>

lemma reserve_lines_ok:
  assumes "distinct (map prow_id (products db))" and "distinct (map fst items)"
    and "\<And>pid q. (pid, q) \<in> set items \<Longrightarrow>
      \<exists>l p. find_by lk_id pid locked = Some l \<and> find_by prow_id pid (products db) = Some p \<and> lk_version l = prow_version p"
  shows "\<exists>us db'. dmap (reserve_line E now locked) items db = (Inr us, db') \<and> stock_change items db db'"
  using assms
proof (induction items arbitrary: db)
  case Nil
  then show ?case by (simp add: dret_def stock_change_Nil)
next
  case (Cons line items)
  obtain pid q where line: "line = (pid, q)" by (cases line) auto
  have new: "pid \<notin> fst ` set items" using Cons.prems(2) line by auto
  obtain l p where lp: "find_by lk_id pid locked = Some l" "find_by prow_id pid (products db) = Some p"
      "lk_version l = prow_version p"
    using Cons.prems(3) [of pid q] line by auto
  obtain db1 where db1: "reserve_line E now locked (pid, q) db = (Inr (), db1)" "stock_change [(pid, q)] db db1"
    using reserve_line_ok [OF Cons.prems(1) lp] by blast
  have prods: "products db1 = map (take_stock [(pid, q)]) (products db)"
    using db1(2) by (auto simp: stock_change_def)
  have dist: "distinct (map prow_id (products db1))"
    using Cons.prems(1) by (simp add: prods comp_def)
  have keep: "find_by prow_id i (products db1) = find_by prow_id i (products db)" if "i \<noteq> pid" for i
  proof -
    have "find_by prow_id i (map (take_stock [(pid, q)]) ps) = find_by prow_id i ps" for ps
      using that by (induction ps) (simp_all add: take_stock_def)
    then show ?thesis by (simp add: prods)
  qed
  have "\<exists>l p. find_by lk_id i locked = Some l \<and> find_by prow_id i (products db1) = Some p
      \<and> lk_version l = prow_version p" if m: "(i, x) \<in> set items" for i x
  proof -
    have "i \<noteq> pid" using new m by force
    then show ?thesis
      unfolding keep [OF \<open>i \<noteq> pid\<close>] using Cons.prems(3) [of i x] m by simp
  qed
  then obtain us db2 where db2: "dmap (reserve_line E now locked) items db1 = (Inr us, db2)" "stock_change items db1 db2"
    using Cons.IH [OF dist] Cons.prems(2) by auto
  show ?case
    using db1(1) db2(1) stock_change_Cons [OF db1(2) db2(2) new]
    by (intro exI [of _ "() # us"] exI [of _ db2]) (simp add: line dbind_def dret_def)
qed

definition line_available :: "database \<Rightarrow> cart_line \<Rightarrow> bool" where
  "line_available db line = (case line of (pid, q) \<Rightarrow>
     (case find_by prow_id pid (products db) of None \<Rightarrow> False
      | Some p \<Rightarrow> prow_is_active p \<and> 0 < q \<and> q \<le> prow_stock p))"

lemma rmap_unit_Inr: "rmap f xs = Inr us \<Longrightarrow> \<forall>x \<in> set xs. \<exists>u. f x = Inr u"
  by (induction xs arbitrary: us) (auto simp: rbind_Inr_iff)

lemma reserve_stock_effect:
  assumes dist: "distinct (map prow_id (products db))" and items: "distinct (map fst items)"
    and r: "reserve_stock E now items db = (Inr locked, db')"
  shows "stock_change items db db'" and "\<forall>line \<in> set items. line_available db line"
    and "(i, q) \<in> set items \<Longrightarrow> \<exists>l p. find_by lk_id i locked = Some l \<and> find_by prow_id i (products db) = Some p \<and> snapshot_of l p"
proof -
  have lock: "lock_products_for_update (map fst items) db = (Inr locked, db)"
      and chk: "\<exists>us. rmap (check_line locked) items = Inr us"
      and res: "\<exists>us. dmap (reserve_line E now locked) items db = (Inr us, db')"
    using r by (auto simp: reserve_stock_def dthrow_def dlift_def dret_def split: if_splits elim!: dbind_Inr_E
        dest: lock_products_spec(1))
  have line: "\<exists>l p. find_by lk_id i locked = Some l \<and> find_by prow_id i (products db) = Some p \<and> snapshot_of l p
      \<and> lk_is_active l \<and> 0 < q \<and> q \<le> lk_stock l" if "(i, q) \<in> set items" for i q
  proof -
    obtain us where "rmap (check_line locked) items = Inr us" using chk by blast
    from rmap_unit_Inr [OF this] that obtain u where "check_line locked (i, q) = Inr u" by blast
    then obtain l where l: "0 < q" "find_by lk_id i locked = Some l" "lk_is_active l" "q \<le> lk_stock l"
      by (auto simp: check_line_Inr)
    moreover have "i \<in> set (map fst items)" using that by force
    ultimately show ?thesis using lock_products_spec(2) [OF lock] by blast
  qed
  show "\<forall>line \<in> set items. line_available db line"
    using line by (fastforce simp: line_available_def snapshot_of_def)
  show "stock_change items db db'"
    using reserve_lines_ok [OF dist items, of locked E now] line res
    by (fastforce simp: snapshot_of_def)
  show "\<exists>l p. find_by lk_id i locked = Some l \<and> find_by prow_id i (products db) = Some p \<and> snapshot_of l p"
    if "(i, q) \<in> set items" using line [OF that] by blast
qed

end
