(* ===== verification/Checkout.thy ===== *)
theory Checkout
  imports Stock_Reservation
begin

text \<open>
  The checkout: \<^verbatim>\<open>modules/checkout/checkout.service.ts\<close>, the unit of work
  \<^verbatim>\<open>infrastructure/prisma-checkout-unit-of-work.ts\<close> and the reads of
  \<^verbatim>\<open>infrastructure/repositories/prisma-checkout.repository.ts\<close>. Spans and counters are left out.

  \<open>attempt\<close> is what one attempt of the transaction draws from its surroundings: the clock, the fresh order
  identifier, the generated order number, whether the database aborts it with \<^verbatim>\<open>P2034\<close>, and what other
  transactions committed since the previous step (\<open>at_others\<close>). The transaction is serializable, so its
  own statements run without interference.
\<close>

record checkout_input =
  ci_idempotency_key :: "string option"
  ci_payment_method :: string
  ci_address :: string
  ci_phone :: string
  ci_notes :: "string option"
  ci_discount_code :: "string option"
  ci_expected_total :: "js_num option"

definition MAX_RETRIES :: nat where "MAX_RETRIES = 5"

record attempt =
  at_now :: millis
  at_order_id :: ident
  at_order_number :: string
  at_aborts :: bool
  at_others :: "database \<Rightarrow> database"

text \<open>A string that is present and not empty, as \<^verbatim>\<open>if (s)\<close> tests it.\<close>

definition given :: "string option \<Rightarrow> string option" where
  "given s = (case s of Some t \<Rightarrow> if t = [] then None else Some t | None \<Rightarrow> None)"

subsection \<open>Reads\<close>

record order_item_view =
  oiv_item :: order_item_row
  oiv_product :: "(ident \<times> string \<times> string list \<times> string) option"

record order_view =
  ov_order :: order_row
  ov_items :: "order_item_view list"

definition saved_checkout_order :: "order_row \<Rightarrow> error + order_row" where
  "saved_checkout_order o' =
     rbind (money_column (or_subtotal o')) (\<lambda>_.
     rbind (money_column (or_tax o')) (\<lambda>_.
     rbind (money_column (or_shipping_fee o')) (\<lambda>_.
     rbind (money_column (or_total o')) (\<lambda>_.
     rbind (money_column (or_discount_amount o')) (\<lambda>_. Inr o')))))"

definition order_item_view_of :: "database \<Rightarrow> order_item_row \<Rightarrow> error + order_item_view" where
  "order_item_view_of db i =
     rbind (money_column (oir_price i)) (\<lambda>_.
     rbind (money_column (oir_total i)) (\<lambda>_.
     Inr \<lparr>oiv_item = i, oiv_product = map_option (\<lambda>p. (prow_id p, prow_name p, prow_images p, prow_slug p))
            (find_product (oir_product_id i) db)\<rparr>))"

definition to_order_with_items :: "database \<Rightarrow> order_row \<Rightarrow> error + order_view" where
  "to_order_with_items db o' =
     rbind (saved_checkout_order o') (\<lambda>saved.
     rbind (rmap (order_item_view_of db) (items_of_order (or_id o') db)) (\<lambda>items.
     Inr \<lparr>ov_order = saved, ov_items = items\<rparr>))"

definition find_order_with_items :: "ident \<Rightarrow> order_view option db_op" where
  "find_order_with_items oid db =
     (case find_order oid db of
        None \<Rightarrow> dret None db
      | Some o' \<Rightarrow> dlift (rbind (to_order_with_items db o') (\<lambda>v. Inr (Some v))) db)"

definition find_order_by_idempotency_key :: "ident \<Rightarrow> string \<Rightarrow> order_view option db_op" where
  "find_order_by_idempotency_key uid key db =
     (case find (\<lambda>o'. or_user_id o' = uid \<and> or_idempotency_key o' = Some key) (orders db) of
        None \<Rightarrow> dret None db
      | Some o' \<Rightarrow> dlift (rbind (to_order_with_items db o') (\<lambda>v. Inr (Some v))) db)"

definition find_order_by_user_and_id :: "ident \<Rightarrow> ident \<Rightarrow> order_view option db_op" where
  "find_order_by_user_and_id oid uid db =
     (case find (\<lambda>o'. or_id o' = oid \<and> or_user_id o' = uid) (orders db) of
        None \<Rightarrow> dret None db
      | Some o' \<Rightarrow> dlift (rbind (to_order_with_items db o') (\<lambda>v. Inr (Some v))) db)"

definition find_orders_by_user :: "ident \<Rightarrow> nat \<Rightarrow> nat \<Rightarrow> order_view list db_op" where
  "find_orders_by_user uid skip n db =
     dlift (rmap (to_order_with_items db)
       (take n (drop skip (sort_key (\<lambda>o'. - or_created_at o') (filter (\<lambda>o'. or_user_id o' = uid) (orders db)))))) db"

definition count_orders_by_user :: "ident \<Rightarrow> database \<Rightarrow> nat" where
  "count_orders_by_user uid db = count_where (\<lambda>o'. or_user_id o' = uid) (orders db)"

record cart_view_item =
  cv_product_id :: ident
  cv_quantity :: int
  cv_product :: product_row
  cv_price :: js_num

record user_cart =
  uc_user :: user_row
  uc_cart :: "(ident \<times> cart_view_item list) option"

text \<open>The foreign key of \<^verbatim>\<open>cart_items.productId\<close> makes the first branch unreachable; Prisma reports it as an
  inconsistent result.\<close>

definition cart_view_item_of :: "database \<Rightarrow> cart_item_row \<Rightarrow> error + cart_view_item" where
  "cart_view_item_of db i =
     (case find_product (cir_product_id i) db of
        None \<Rightarrow> Inl (PlainError ''Inconsistent query result'')
      | Some p \<Rightarrow> rbind (money_column (prow_price p)) (\<lambda>price.
          Inr \<lparr>cv_product_id = cir_product_id i, cv_quantity = cir_quantity i, cv_product = p, cv_price = price\<rparr>))"

definition find_user_cart_for_checkout :: "ident \<Rightarrow> user_cart option db_op" where
  "find_user_cart_for_checkout uid db =
     (case find_user uid db of
        None \<Rightarrow> dret None db
      | Some u \<Rightarrow>
          (case find_cart_of uid db of
             None \<Rightarrow> dret (Some \<lparr>uc_user = u, uc_cart = None\<rparr>) db
           | Some c \<Rightarrow> dlift (rbind (rmap (cart_view_item_of db) (items_of_cart (cr_id c) db)) (\<lambda>items.
               Inr (Some \<lparr>uc_user = u, uc_cart = Some (cr_id c, items)\<rparr>))) db))"

subsection \<open>The transaction\<close>

definition clear_cart_items :: "ident \<Rightarrow> unit db_op" where
  "clear_cart_items cid = dupdate (\<lambda>db. db\<lparr>cart_items := delete_where (\<lambda>i. cir_cart_id i = cid) (cart_items db)\<rparr>)"

definition order_row_of :: "millis \<Rightarrow> order \<Rightarrow> money \<Rightarrow> money \<Rightarrow> string option \<Rightarrow> order_row" where
  "order_row_of now ord sub tot key =
     \<lparr>or_id = ar_id ord, or_order_number = o_order_number ord, or_user_id = o_user_id ord,
      or_status = o_status ord, or_payment_method = o_payment_method ord,
      or_payment_status = o_payment_status ord, or_subtotal = m_amount sub,
      or_tax = m_amount (o_tax ord), or_shipping_fee = m_amount (o_shipping_fee ord),
      or_total = m_amount tot, or_discount_amount = m_amount (o_discount_amount ord),
      or_discount_code = o_discount_code ord, or_customer_name = o_customer_name ord,
      or_customer_email = o_customer_email ord, or_customer_phone = o_customer_phone ord,
      or_customer_address = o_customer_address ord, or_notes = o_notes ord,
      or_idempotency_key = given key, or_created_at = now, or_version = 0\<rparr>"

definition item_row_of :: "ident \<Rightarrow> order_item \<Rightarrow> error + order_item_row" where
  "item_row_of oid i = rbind (order_item_total i) (\<lambda>tot.
     Inr \<lparr>oir_order_id = oid, oir_product_id = oi_product_id i, oir_quantity = oi_quantity i,
          oir_price = m_amount (oi_unit_price i), oir_total = m_amount tot\<rparr>)"

text \<open>The insertion of the order row: a violated unique constraint on the pair of user and idempotency key
  becomes the idempotency error, any other one is rethrown.\<close>

definition insert_order :: "order_row \<Rightarrow> unit db_op" where
  "insert_order row db =
     (if list_ex (\<lambda>r. or_id r = or_id row \<or> or_order_number r = or_order_number row) (orders db)
      then (Inl unique_violation, db)
      else if or_idempotency_key row \<noteq> None
        \<and> list_ex (\<lambda>r. or_user_id r = or_user_id row \<and> or_idempotency_key r = or_idempotency_key row) (orders db)
      then (Inl IdempotencyConflictError, db)
      else (Inr (), db\<lparr>orders := orders db @ [row]\<rparr>))"

definition save_new_order :: "env \<Rightarrow> millis \<Rightarrow> order \<Rightarrow> string option \<Rightarrow> (order_row \<times> order) db_op" where
  "save_new_order E now ord key =
     dbind (dlift (order_subtotal ord)) (\<lambda>sub.
     dbind (dlift (order_total ord)) (\<lambda>tot.
     let row = order_row_of now ord sub tot key in
     dbind (insert_order row) (\<lambda>_.
     dbind (dlift (rmap (item_row_of (ar_id ord)) (o_items ord))) (\<lambda>items.
     dbind (dupdate (\<lambda>db. db\<lparr>order_items := order_items db @ items\<rparr>)) (\<lambda>_.
     dbind (persist_domain_events E [ord] (\<lambda>i. if i = ar_id ord then Some 0 else None)) (\<lambda>os.
     dbind (dlift (saved_checkout_order row)) (\<lambda>saved.
     dret (saved, hd os))))))))"

definition add_line :: "locked_row list \<Rightarrow> order \<Rightarrow> cart_line \<Rightarrow> error + order" where
  "add_line locked ord line = (case line of (pid, q) \<Rightarrow>
     (case find_by lk_id pid locked of
        None \<Rightarrow> Inl (not_found_error (''Product '' @ pid @ '' not found''))
      | Some p \<Rightarrow> rbind (new_money (lk_price p)) (\<lambda>m.
          order_add_item pid (lk_name p) (num_of_int q) m ord)))"

definition order_props_of :: "user_row \<Rightarrow> checkout_input \<Rightarrow> attempt \<Rightarrow> order_props" where
  "order_props_of u input a =
     \<lparr>op_id = at_order_id a, op_user_id = ur_id u, op_order_number = at_order_number a,
      op_customer_name = ur_first_name u @ '' '' @ ur_last_name u, op_customer_email = ur_email u,
      op_customer_phone = (if ci_phone input \<noteq> [] then ci_phone input
                           else case ur_phone u of Some t \<Rightarrow> t | None \<Rightarrow> []),
      op_customer_address = ci_address input, op_payment_method = ci_payment_method input,
      op_notes = ci_notes input\<rparr>"

definition check_expected :: "checkout_input \<Rightarrow> order \<Rightarrow> error + unit" where
  "check_expected input ord =
     (case ci_expected_total input of
        None \<Rightarrow> Inr ()
      | Some e \<Rightarrow> rbind (order_total ord) (\<lambda>t.
          if money_value t \<noteq> e
          then Inl (validation_error ''Checkout total changed. Refresh the total and review it before placing the order.'')
          else Inr ()))"

definition place_order ::
    "env \<Rightarrow> bool \<Rightarrow> user_row \<Rightarrow> ident \<Rightarrow> cart_line list \<Rightarrow> checkout_input \<Rightarrow> attempt \<Rightarrow> order db_op" where
  "place_order E flag u cid items input a =
     dbind (reserve_stock E (at_now a) items) (\<lambda>locked.
     dbind (dlift (order_create (at_now a) (order_props_of u input a))) (\<lambda>fresh.
     dbind (dlift (rfold (add_line locked) fresh items)) (\<lambda>filled.
     dbind (dlift (order_subtotal filled)) (\<lambda>sub.
     dbind (calculate_pricing flag (at_now a) sub (ci_discount_code input)) (\<lambda>pricing.
     dbind (dlift (order_apply_pricing pricing filled)) (\<lambda>priced.
     dbind (dlift (check_expected input priced)) (\<lambda>_.
     dbind (dlift (order_place (at_now a) priced)) (\<lambda>placed.
     dbind (save_new_order E (at_now a) placed (ci_idempotency_key input)) (\<lambda>saved.
     dbind (clear_cart_items cid) (\<lambda>_. dret (snd saved)))))))))))"

text \<open>\<open>run_unit_of_work\<close>: the body in a transaction; a serialization failure becomes a conflict.\<close>

definition run_unit_of_work :: "bool \<Rightarrow> 'a db_op \<Rightarrow> 'a db_op" where
  "run_unit_of_work aborts work db =
     (case (if aborts then (Inl (PrismaKnownRequestError ''P2034''), db) else transaction work db) of
        (Inl e, db') \<Rightarrow>
          (Inl (if e = PrismaKnownRequestError ''P2034'' then conflict_error ''Transaction conflict. Please retry.'' else e), db')
      | (Inr x, db') \<Rightarrow> (Inr x, db'))"

function execute_with_retry :: "(nat \<Rightarrow> attempt) \<Rightarrow> (attempt \<Rightarrow> 'a db_op) \<Rightarrow> nat \<Rightarrow> 'a db_op" where
  "execute_with_retry turn work n db =
     (case run_unit_of_work (at_aborts (turn n)) (work (turn n)) (at_others (turn n) db) of
        (Inr x, db') \<Rightarrow> (Inr x, db')
      | (Inl e, db') \<Rightarrow>
          if is_conflict e \<and> n < MAX_RETRIES then execute_with_retry turn work (Suc n) db' else (Inl e, db'))"
  by pat_completeness auto

termination
  by (relation "measure (\<lambda>(turn, work, n, db). MAX_RETRIES - n)") auto

declare execute_with_retry.simps [simp del]

subsection \<open>The service\<close>

record checkout_result =
  ck_order :: order_view
  ck_idempotent :: bool

definition lines_of :: "cart_view_item list \<Rightarrow> cart_line list" where
  "lines_of items = map (\<lambda>i. (cv_product_id i, cv_quantity i)) items"

definition replay_or_throw :: "ident \<Rightarrow> string option \<Rightarrow> error \<Rightarrow> checkout_result db_op" where
  "replay_or_throw uid key e =
     (case given key of
        Some k \<Rightarrow>
          if e = IdempotencyConflictError
          then dbind (find_order_by_idempotency_key uid k) (\<lambda>existing.
               case existing of
                 Some v \<Rightarrow> dret \<lparr>ck_order = v, ck_idempotent = True\<rparr>
               | None \<Rightarrow> dthrow e)
          else dthrow e
      | None \<Rightarrow> dthrow e)"

definition checkout_new ::
    "env \<Rightarrow> bool \<Rightarrow> (nat \<Rightarrow> attempt) \<Rightarrow> ident \<Rightarrow> checkout_input \<Rightarrow> checkout_result db_op" where
  "checkout_new E flag turn uid input =
     dbind (find_user_cart_for_checkout uid) (\<lambda>found.
     case found of
       None \<Rightarrow> dthrow (validation_error ''Cart is empty'')
     | Some uc \<Rightarrow>
         (case uc_cart uc of
            None \<Rightarrow> dthrow (validation_error ''Cart is empty'')
          | Some (cid, items) \<Rightarrow>
              if items = [] then dthrow (validation_error ''Cart is empty'')
              else (\<lambda>db. case execute_with_retry turn (place_order E flag (uc_user uc) cid (lines_of items) input) 0 db of
                 (Inl e, db') \<Rightarrow> replay_or_throw uid (ci_idempotency_key input) e db'
               | (Inr persisted, db') \<Rightarrow>
                   dbind (find_order_with_items (ar_id persisted)) (\<lambda>full.
                   case full of
                     None \<Rightarrow> dthrow (PlainError ''Failed to retrieve created order'')
                   | Some v \<Rightarrow> dret \<lparr>ck_order = v, ck_idempotent = False\<rparr>) db')))"

definition checkout ::
    "env \<Rightarrow> bool \<Rightarrow> (nat \<Rightarrow> attempt) \<Rightarrow> ident \<Rightarrow> checkout_input \<Rightarrow> checkout_result db_op" where
  "checkout E flag turn uid input =
     (case given (ci_idempotency_key input) of
        Some key \<Rightarrow>
          dbind (find_order_by_idempotency_key uid key) (\<lambda>existing.
          case existing of
            Some v \<Rightarrow> dret \<lparr>ck_order = v, ck_idempotent = True\<rparr>
          | None \<Rightarrow> checkout_new E flag turn uid input)
      | None \<Rightarrow> checkout_new E flag turn uid input)"

record quote_result =
  qt_subtotal :: money
  qt_tax :: money
  qt_shipping_fee :: money
  qt_discount_amount :: money
  qt_discount_code :: "string option"
  qt_total :: money

definition quote_line :: "money \<Rightarrow> cart_view_item \<Rightarrow> error + money" where
  "quote_line subtotal i =
     (if \<not> prow_is_active (cv_product i) \<or> prow_stock (cv_product i) < cv_quantity i
      then Inl (validation_error (''Product '' @ cv_product_id i @ '' is unavailable''))
      else rbind (new_money (cv_price i)) (\<lambda>m.
           rbind (money_multiply m (num_of_int (cv_quantity i))) (\<lambda>t. money_add subtotal t)))"

definition quote :: "bool \<Rightarrow> attempt \<Rightarrow> ident \<Rightarrow> string option \<Rightarrow> quote_result db_op" where
  "quote flag a uid code =
     dbind (find_user_cart_for_checkout uid) (\<lambda>found.
     case Option.bind found uc_cart of
       None \<Rightarrow> dthrow (validation_error ''Cart is empty'')
     | Some (cid, items) \<Rightarrow>
         if items = [] then dthrow (validation_error ''Cart is empty'')
         else dbind (dlift (rbind (new_money (Fin 0)) (\<lambda>zero. rfold quote_line zero items))) (\<lambda>subtotal.
              dbind (run_unit_of_work (at_aborts a) (preview_pricing flag (at_now a) subtotal code)) (\<lambda>p.
              dlift (rbind (money_add subtotal (pr_tax p)) (\<lambda>t1.
                rbind (money_add t1 (pr_shipping_fee p)) (\<lambda>t2.
                rbind (money_subtract t2 (pr_discount_amount p)) (\<lambda>t.
                Inr \<lparr>qt_subtotal = subtotal, qt_tax = pr_tax p, qt_shipping_fee = pr_shipping_fee p,
                     qt_discount_amount = pr_discount_amount p, qt_discount_code = pr_discount_code p,
                     qt_total = t\<rparr>)))))))"

definition get_order :: "ident \<Rightarrow> ident \<Rightarrow> order_view db_op" where
  "get_order oid uid =
     dbind (find_order_by_user_and_id oid uid) (\<lambda>found.
     case found of None \<Rightarrow> dthrow (not_found_error ''Order not found'') | Some v \<Rightarrow> dret v)"

record orders_page =
  opg_orders :: "order_view list"
  opg_total :: nat
  opg_page :: nat
  opg_limit :: nat
  opg_total_pages :: nat

text \<open>\<open>get_orders\<close> for a page and a limit the request schema lets through, both at least one;
  \<^verbatim>\<open>Math.ceil(total / limit)\<close> is the integer quotient rounded up.\<close>

definition get_orders :: "ident \<Rightarrow> nat \<Rightarrow> nat \<Rightarrow> orders_page db_op" where
  "get_orders uid pg limit =
     dbind (find_orders_by_user uid ((pg - 1) * limit) limit) (\<lambda>os.
     dbind (dget (count_orders_by_user uid)) (\<lambda>n.
     dret \<lparr>opg_orders = os, opg_total = n, opg_page = pg, opg_limit = limit,
           opg_total_pages = (n + limit - 1) div limit\<rparr>))"

subsection \<open>The effect of a placed order\<close>

text \<open>\<open>line_item\<close> is the order line of a cart line, at the price and under the name the product has in the
  transaction; \<open>lines_subtotal\<close> is the exact value of the cart at those prices.\<close>

definition line_item :: "database \<Rightarrow> cart_line \<Rightarrow> order_item" where
  "line_item db line = (case line of (pid, q) \<Rightarrow> (case find_product pid db of
      Some p \<Rightarrow> \<lparr>oi_product_id = pid, oi_product_name = prow_name p, oi_quantity = q, oi_unit_price = vnd (prow_price p)\<rparr>
    | None \<Rightarrow> \<lparr>oi_product_id = pid, oi_product_name = [], oi_quantity = q, oi_unit_price = vnd 0\<rparr>))"

definition lines_subtotal :: "database \<Rightarrow> cart_line list \<Rightarrow> int" where
  "lines_subtotal db items = items_value (map (line_item db) items)"

definition item_row :: "ident \<Rightarrow> order_item \<Rightarrow> order_item_row" where
  "item_row oid i = \<lparr>oir_order_id = oid, oir_product_id = oi_product_id i, oir_quantity = oi_quantity i,
     oir_price = m_amount (oi_unit_price i), oir_total = m_amount (oi_unit_price i) * oi_quantity i\<rparr>"

text \<open>\<open>checkout_effect\<close> is the contract of a committed checkout: the lines leave the stock, one pending order
  with the exact amounts and its lines enter, the cart is emptied, at most one discount use is taken, and
  the outbox gets one event per product and then \<open>OrderPlaced\<close>. No other table changes.\<close>

definition priced_row :: "ident \<Rightarrow> ident \<Rightarrow> int \<Rightarrow> order_row \<Rightarrow> bool" where
  "priced_row oid uid sub row \<longleftrightarrow> or_id row = oid \<and> or_user_id row = uid \<and> or_status row = PENDING
     \<and> or_version row = 0 \<and> or_subtotal row = sub \<and> or_tax row = (sub + 5) div 10
     \<and> or_shipping_fee row = (if 500000 \<le> sub then 0 else 30000)
     \<and> 0 \<le> or_discount_amount row \<and> or_discount_amount row \<le> sub
     \<and> or_total row = sub + or_tax row + or_shipping_fee row - or_discount_amount row"

definition discount_used :: "millis \<Rightarrow> int \<Rightarrow> order_row \<Rightarrow> database \<Rightarrow> discount_row list \<Rightarrow> bool" where
  "discount_used now sub row db ds \<longleftrightarrow> (case or_discount_code row of
      None \<Rightarrow> or_discount_amount row = 0 \<and> ds = discounts db
    | Some c \<Rightarrow> \<exists>d \<in> set (discounts db). dc_code d = c \<and> discount_applies now sub d
        \<and> ds = discounts (use_discount (dc_id d) db))"

definition fresh_order :: "order_row \<Rightarrow> order_row list \<Rightarrow> bool" where
  "fresh_order row os \<longleftrightarrow> (\<forall>r \<in> set os. or_id r \<noteq> or_id row \<and> or_order_number r \<noteq> or_order_number row
     \<and> (or_idempotency_key row \<noteq> None \<longrightarrow> or_user_id r \<noteq> or_user_id row \<or> or_idempotency_key r \<noteq> or_idempotency_key row))"

definition checkout_effect ::
    "millis \<Rightarrow> ident \<Rightarrow> ident \<Rightarrow> ident \<Rightarrow> string option \<Rightarrow> cart_line list \<Rightarrow> database \<Rightarrow> database \<Rightarrow> bool" where
  "checkout_effect now oid uid cid key items db db' \<longleftrightarrow>
     (\<exists>row rows ds. priced_row oid uid (lines_subtotal db items) row \<and> or_idempotency_key row = given key
       \<and> fresh_order row (orders db) \<and> discount_used now (lines_subtotal db items) row db ds
       \<and> event_keys rows = map (\<lambda>(pid, q). (''ProductUpdated'', pid)) items @ [(''OrderPlaced'', oid)]
       \<and> db' = db\<lparr>products := map (take_stock items) (products db), orders := orders db @ [row],
                   order_items := order_items db @ map (item_row oid \<circ> line_item db) items,
                   cart_items := delete_where (\<lambda>i. cir_cart_id i = cid) (cart_items db),
                   discounts := ds, outbox_events := outbox_events db @ rows,
                   id_supply := id_supply db + length items + 1\<rparr>)"

lemma order_create_Inr:
  assumes "order_create now p = Inr ord"
  shows "o_items ord = []" and "ar_id ord = op_id p" and "ar_events ord = []" and "\<not> o_placed ord"
    and "o_status ord = PENDING" and "order_ok ord" and "o_user_id ord = op_user_id p"
  using assms by (auto simp: order_create_def rbind_Inr_iff order_ok_def max_safe_def)

lemma fill_lines:
  assumes "rfold (add_line locked) ord items = Inr ord'" and "distinct (map fst items)"
    and "\<And>pid. pid \<in> fst ` set items \<Longrightarrow> pid \<notin> oi_product_id ` set (o_items ord)"
    and "\<And>pid q. (pid, q) \<in> set items \<Longrightarrow>
      \<exists>l p. find_by lk_id pid locked = Some l \<and> find_by prow_id pid (products db) = Some p \<and> snapshot_of l p"
    and "order_ok ord"
  shows "ord' = ord\<lparr>o_items := o_items ord @ map (line_item db) items\<rparr> \<and> order_ok ord'"
  using assms
proof (induction items arbitrary: ord)
  case (Cons line items)
  obtain pid q where line: "line = (pid, q)" by (cases line) auto
  obtain l p where lp: "find_by lk_id pid locked = Some l" "find_by prow_id pid (products db) = Some p" "snapshot_of l p"
    using Cons.prems(4) [of pid q] line by auto
  obtain ord1 where o1: "add_line locked ord (pid, q) = Inr ord1" "rfold (add_line locked) ord1 items = Inr ord'"
    using Cons.prems(1) line by (auto simp: rbind_Inr_iff)
  have pr: "0 \<le> prow_price p" "prow_price p \<le> max_safe" "lk_price l = num_of_int (prow_price p)" "lk_name l = prow_name p"
    using lp(3) by (simp_all add: snapshot_of_def)
  have step: "order_add_item pid (prow_name p) (num_of_int q) (vnd (prow_price p)) ord = Inr ord1"
    using o1(1) pr lp(1) by (simp add: add_line_def vnd_def)
  have fresh: "pid \<notin> oi_product_id ` set (o_items ord)" using Cons.prems(3) [of pid] line by simp
  have ok1: "order_ok ord1"
    using order_add_item_ok [OF Cons.prems(5) _ step] pr by simp
  have ord1: "ord1 = ord\<lparr>o_items := o_items ord @ [line_item db line]\<rparr>"
    using step
  proof (cases rule: order_add_item_cases)
    case (merge n ex)
    then have "find_by oi_product_id pid (o_items ord) \<noteq> None" by simp
    then show ?thesis using fresh by (simp add: find_by_None_iff)
  next
    case (fresh n)
    then show ?thesis using lp(2) by (simp add: line line_item_def find_product_def num_of_int_def)
  qed
  have "oi_product_id (line_item db line) = pid"
    using lp(2) by (simp add: line line_item_def find_product_def)
  then have new: "i \<notin> oi_product_id ` set (o_items ord1)" if "i \<in> fst ` set items" for i
    using Cons.prems(2) Cons.prems(3) [of i] that unfolding ord1 line by auto
  have r: "ord' = ord1\<lparr>o_items := o_items ord1 @ map (line_item db) items\<rparr> \<and> order_ok ord'"
  proof (rule Cons.IH [OF o1(2) _ new _ ok1])
    show "distinct (map fst items)" using Cons.prems(2) by simp
    show "\<exists>l p. find_by lk_id i locked = Some l \<and> find_by prow_id i (products db) = Some p \<and> snapshot_of l p"
      if "(i, x) \<in> set items" for i x using Cons.prems(4) [of i x] that by simp
  qed
  have "ord' = ord\<lparr>o_items := o_items ord @ map (line_item db) (line # items)\<rparr>"
    using r by (simp add: ord1)
  then show ?case using conjunct2 [OF r] by (rule conjI)
qed simp

lemma rmap_item_rows:
  assumes "\<forall>i \<in> set is. item_ok i" and "rmap (item_row_of oid) is = Inr rows"
  shows "rows = map (item_row oid) is"
  using assms
proof (induction "is" arbitrary: rows)
  case (Cons i "is")
  obtain n where n: "oi_unit_price i = vnd n" "0 \<le> n" "n \<le> max_safe" "0 < oi_quantity i" "oi_quantity i \<le> max_safe"
    using Cons.prems(1) by (auto simp: item_ok_def elim: vnd_okE)
  obtain r rs where "item_row_of oid i = Inr r" "rmap (item_row_of oid) is = Inr rs" "rows = r # rs"
    using Cons.prems(2) by (auto simp: rbind_Inr_iff)
  moreover from this(1) have "r = item_row oid i"
    using n by (auto simp: item_row_of_def order_item_total_def item_row_def rbind_Inr_iff split: if_splits)
  moreover have "rs = map (item_row oid) is"
    using Cons.IH [of rs] Cons.prems(1) calculation(2) by simp
  ultimately show ?case by simp
qed simp

text \<open>What the saving of a placed order does.\<close>

lemma save_new_order_effect:
  assumes ok: "order_ok ord" and ev: "ar_events ord = [ev]" "ev_name ev = ''OrderPlaced''" "ev_aggregate_id ev = ar_id ord"
    and sv: "save_new_order E now ord key db = (Inr res, db')"
  shows "\<exists>tot row r. order_total ord = Inr tot \<and> items_value (o_items ord) \<le> max_safe
    \<and> row = order_row_of now ord (vnd (items_value (o_items ord))) tot key \<and> fresh_order row (orders db)
    \<and> event_keys [r] = [(''OrderPlaced'', ar_id ord)]
    \<and> snd res = ord\<lparr>ar_events := []\<rparr>
    \<and> db' = db\<lparr>orders := orders db @ [row], order_items := order_items db @ map (item_row (ar_id ord)) (o_items ord),
         outbox_events := outbox_events db @ [r], id_supply := id_supply db + 1\<rparr>"
proof -
  have sub: "order_subtotal ord = Inr s \<Longrightarrow> s = vnd (items_value (o_items ord)) \<and> items_value (o_items ord) \<le> max_safe" for s
    using order_subtotal_exact [OF ok] by (auto split: if_splits)
  have items: "rmap (item_row_of (ar_id ord)) (o_items ord) = Inr is \<Longrightarrow> is = map (item_row (ar_id ord)) (o_items ord)" for "is"
    using rmap_item_rows ok by (simp add: order_ok_def)
  let ?r = "outbox_row_of (iso_of E) (\<lambda>i. if i = ar_id ord then Some 0 else None) (gen_id E (id_supply db)) ev"
  have "event_keys [?r] = [(''OrderPlaced'', ar_id ord)]"
    using ev by (simp add: event_keys_def outbox_row_of_def)
  moreover obtain tot where "order_total ord = Inr tot"
      "items_value (o_items ord) \<le> max_safe"
      "db' = db\<lparr>orders := orders db @ [order_row_of now ord (vnd (items_value (o_items ord))) tot key],
         order_items := order_items db @ map (item_row (ar_id ord)) (o_items ord),
         outbox_events := outbox_events db @ [?r], id_supply := id_supply db + 1\<rparr>"
      "snd res = ord\<lparr>ar_events := []\<rparr>"
      "fresh_order (order_row_of now ord (vnd (items_value (o_items ord))) tot key) (orders db)"
    using sv unfolding save_new_order_def
    by (auto simp: Let_def insert_order_def list_ex_iff fresh_order_def persist_domain_events_def persist_events_def dlift_def dupdate_def dret_def
        ev(1) pull_events_def dest!: sub items split: if_splits elim!: dbind_Inr_E)
  ultimately show ?thesis by blast
qed

lemma order_apply_pricing_Inr:
  assumes "order_apply_pricing p ord = Inr ord'"
  shows "ord' = ord\<lparr>o_tax := pr_tax p, o_shipping_fee := pr_shipping_fee p,
     o_discount_amount := pr_discount_amount p, o_discount_code := pr_discount_code p\<rparr>"
  using assms by (auto simp: order_apply_pricing_def rbind_Inr_iff split: if_splits)

lemma order_place_Inr:
  assumes "order_place now ord = Inr ord'"
  shows "\<exists>ev. ev_name ev = ''OrderPlaced'' \<and> ev_aggregate_id ev = ar_id ord \<and> ord' = raise ev (ord\<lparr>o_placed := True\<rparr>)"
proof -
  obtain sub tot where ord': "ord' = raise (order_placed_event now (ar_id ord) (o_user_id ord) (o_order_number ord)
      (o_customer_name ord) (o_customer_email ord) (o_payment_status ord) sub (m_amount (o_tax ord))
      (m_amount (o_shipping_fee ord)) tot (map placed_item (o_items ord))) (ord\<lparr>o_placed := True\<rparr>)"
    using assms by (auto simp: order_place_def rbind_Inr_iff split: if_splits)
  show ?thesis
    by (rule exI, rule conjI [OF _ conjI [OF _ ord']]) (simp_all add: order_placed_event_def base_domain_event_def Let_def)
qed

text \<open>\<open>placed_trace\<close>: what a successful body of the transaction has computed and left. \<open>pricing\<close> is the price,
  \<open>placed\<close> the order before its events are pulled, \<open>tot\<close> its total and \<open>rows\<close> the new outbox rows.\<close>

definition reserved_db :: "cart_line list \<Rightarrow> outbox_row list \<Rightarrow> database \<Rightarrow> database" where
  "reserved_db items rows db = db\<lparr>products := map (take_stock items) (products db),
     outbox_events := outbox_events db @ rows, id_supply := id_supply db + length items\<rparr>"

definition final_db ::
    "ident \<Rightarrow> ident \<Rightarrow> cart_line list \<Rightarrow> order_row \<Rightarrow> discount_row list \<Rightarrow> outbox_row list \<Rightarrow> database \<Rightarrow> database" where
  "final_db oid cid items row ds rows db = db\<lparr>products := map (take_stock items) (products db), orders := orders db @ [row],
     order_items := order_items db @ map (item_row oid \<circ> line_item db) items,
     cart_items := delete_where (\<lambda>i. cir_cart_id i = cid) (cart_items db), discounts := ds,
     outbox_events := outbox_events db @ rows, id_supply := id_supply db + length items + 1\<rparr>"

lemma place_order_trace:
  assumes dist: "distinct (map prow_id (products db))" "distinct (map dc_id (discounts db))" "distinct (map fst items)"
    and bound: "lines_subtotal db items < tax_bound"
    and run: "place_order E flag u cid items input a db = (Inr ord, db')"
  obtains rows r pricing placed tot ds row where
    "\<forall>line \<in> set items. line_available db line" and "ar_id ord = at_order_id a"
    and "0 \<le> lines_subtotal db items"
    and "event_keys (rows @ [r]) = map (\<lambda>(pid, q). (''ProductUpdated'', pid)) items @ [(''OrderPlaced'', at_order_id a)]"
    and "calculate_pricing flag (at_now a) (vnd (lines_subtotal db items)) (ci_discount_code input) (reserved_db items rows db)
      = (Inr pricing, (reserved_db items rows db)\<lparr>discounts := ds\<rparr>)"
    and "order_ok placed" and "ar_id placed = at_order_id a" and "o_items placed = map (line_item db) items"
    and "o_user_id placed = ur_id u" and "o_status placed = PENDING"
    and "o_tax placed = pr_tax pricing" and "o_shipping_fee placed = pr_shipping_fee pricing"
    and "o_discount_amount placed = pr_discount_amount pricing" and "o_discount_code placed = pr_discount_code pricing"
    and "order_total placed = Inr tot"
    and "row = order_row_of (at_now a) placed (vnd (lines_subtotal db items)) tot (ci_idempotency_key input)"
    and "fresh_order row (orders db)" and "db' = final_db (at_order_id a) cid items row ds (rows @ [r]) db"
proof -
  let ?now = "at_now a"
  obtain locked db1 fresh filled sub pricing db2 priced placed res db3 where
      res: "reserve_stock E ?now items db = (Inr locked, db1)"
      and cr: "order_create ?now (order_props_of u input a) = Inr fresh"
      and fill: "rfold (add_line locked) fresh items = Inr filled"
      and sub: "order_subtotal filled = Inr sub"
      and pr: "calculate_pricing flag ?now sub (ci_discount_code input) db1 = (Inr pricing, db2)"
      and ap: "order_apply_pricing pricing filled = Inr priced"
      and pl: "order_place ?now priced = Inr placed"
      and sv: "save_new_order E ?now placed (ci_idempotency_key input) db2 = (Inr res, db3)"
      and fin: "ord = snd res" "db' = db3\<lparr>cart_items := delete_where (\<lambda>i. cir_cart_id i = cid) (cart_items db3)\<rparr>"
    using run unfolding place_order_def
    by (auto simp: dlift_def clear_cart_items_def dupdate_def dret_def elim!: dbind_Inr_E)
  note eff = reserve_stock_effect [OF dist(1,3) res]
  note fresh = order_create_Inr [OF cr]
  have avail: "\<forall>line \<in> set items. line_available db line" by (rule eff(2))
  have filled: "filled = fresh\<lparr>o_items := o_items fresh @ map (line_item db) items\<rparr> \<and> order_ok filled"
    by (rule fill_lines [OF fill dist(3) _ _ fresh(6)]) (use eff(3) fresh(1) in auto)
  let ?s = "lines_subtotal db items"
  have fi: "o_items filled = map (line_item db) items" using filled fresh(1) by simp
  have s0: "0 \<le> ?s"
    using items_value_nonneg [of "map (line_item db) items"] conjunct2 [OF filled]
    unfolding lines_subtotal_def order_ok_def fi by simp
  have "sub = vnd ?s"
    using sub order_subtotal_exact [OF conjunct2 [OF filled]]
    unfolding fi lines_subtotal_def by (simp split: if_splits)
  note pr = pr [unfolded this]
  obtain rows where rows: "event_keys rows = map (\<lambda>(pid, q). (''ProductUpdated'', pid)) items"
      "db1 = db\<lparr>products := map (take_stock items) (products db), outbox_events := outbox_events db @ rows,
                 id_supply := id_supply db + length items\<rparr>"
    using eff(1) by (auto simp: stock_change_def)
  have d1: "distinct (map dc_id (discounts db1))" using dist(2) rows(2) by simp
  note price = pricing_facts [OF s0 bound d1 pr]
  obtain x where x: "pr_discount_amount pricing = vnd x" "0 \<le> x" "x \<le> ?s" using price(3) by blast
  note priced = order_apply_pricing_Inr [OF ap]
  obtain ev where ev: "ev_name ev = ''OrderPlaced''" "ev_aggregate_id ev = ar_id priced"
      "placed = raise ev (priced\<lparr>o_placed := True\<rparr>)"
    using order_place_Inr [OF pl] by blast
  have sm: "?s \<le> max_safe" using bound by (simp add: tax_bound_def max_safe_def)
  have okp: "order_ok placed"
    using conjunct2 [OF filled] price(1,2) x s0 sm bound unfolding ev(3) order_ok_raise priced
    by (auto simp: order_ok_def max_safe_def tax_bound_def)
  have ids: "ar_id placed = at_order_id a" "o_items placed = map (line_item db) items" "ar_events placed = [ev]"
      "o_user_id placed = ur_id u" "o_status placed = PENDING"
    using filled fresh ev(3) priced fi by (auto simp: order_props_of_def)
  obtain tot r where save: "order_total placed = Inr tot" "event_keys [r] = [(''OrderPlaced'', at_order_id a)]"
      "snd res = placed\<lparr>ar_events := []\<rparr>"
      "db3 = db2\<lparr>orders := orders db2 @ [order_row_of ?now placed (vnd ?s) tot (ci_idempotency_key input)],
         order_items := order_items db2 @ map (item_row (at_order_id a)) (map (line_item db) items),
         outbox_events := outbox_events db2 @ [r], id_supply := id_supply db2 + 1\<rparr>"
      "fresh_order (order_row_of ?now placed (vnd ?s) tot (ci_idempotency_key input)) (orders db2)"
    using save_new_order_effect [OF okp ids(3) ev(1) _ sv] ev(2,3) ids by (auto simp: lines_subtotal_def)
  have oid: "ar_id ord = at_order_id a" using fin(1) save(3) ids(1) by simp
  let ?row = "order_row_of ?now placed (vnd ?s) tot (ci_idempotency_key input)"
  have o2: "orders db2 = orders db"
    using price(4) rows(2) by (auto simp: use_discount_def split: option.splits)
  have "db2 = db1\<lparr>discounts := discounts db2\<rparr>"
    using price(4) by (auto simp: use_discount_def split: option.splits)
  then obtain ds where ds: "db2 = db1\<lparr>discounts := ds\<rparr>" by blast
  have rdb: "reserved_db items rows db = db1" by (simp add: reserved_db_def rows(2))
  have fdb: "db' = final_db (at_order_id a) cid items ?row ds (rows @ [r]) db"
    using fin(2) save(4) rows(2) ds by (simp add: final_db_def)
  have ks: "event_keys (rows @ [r]) = map (\<lambda>(pid, q). (''ProductUpdated'', pid)) items @ [(''OrderPlaced'', at_order_id a)]"
    using rows(1) save(2) by (simp add: event_keys_def)
  show thesis
    by (rule that [OF avail oid s0 ks _ okp ids(1,2,4,5) _ _ _ _ save(1) refl _ fdb])
      (use pr rdb ds save(5) o2 in \<open>simp_all add: ev(3) priced\<close>)
qed

text \<open>The body of the transaction satisfies the contract.\<close>

lemma place_order_effect:
  assumes dist: "distinct (map prow_id (products db))" "distinct (map dc_id (discounts db))" "distinct (map fst items)"
    and bound: "lines_subtotal db items < tax_bound"
    and run: "place_order E flag u cid items input a db = (Inr ord, db')"
  shows "checkout_effect (at_now a) (at_order_id a) (ur_id u) cid (ci_idempotency_key input) items db db'"
    and "ar_id ord = at_order_id a" and "\<forall>line \<in> set items. line_available db line"
proof -
  let ?s = "lines_subtotal db items"
  obtain rows r pricing placed tot ds row where t: "\<forall>line \<in> set items. line_available db line" "ar_id ord = at_order_id a"
    "0 \<le> ?s"
    "event_keys (rows @ [r]) = map (\<lambda>(pid, q). (''ProductUpdated'', pid)) items @ [(''OrderPlaced'', at_order_id a)]"
    "calculate_pricing flag (at_now a) (vnd ?s) (ci_discount_code input) (reserved_db items rows db)
      = (Inr pricing, (reserved_db items rows db)\<lparr>discounts := ds\<rparr>)"
    "order_ok placed" "ar_id placed = at_order_id a" "o_items placed = map (line_item db) items"
    "o_user_id placed = ur_id u" "o_status placed = PENDING"
    "o_tax placed = pr_tax pricing" "o_shipping_fee placed = pr_shipping_fee pricing"
    "o_discount_amount placed = pr_discount_amount pricing" "o_discount_code placed = pr_discount_code pricing"
    "order_total placed = Inr tot"
    "row = order_row_of (at_now a) placed (vnd ?s) tot (ci_idempotency_key input)"
    "fresh_order row (orders db)" "db' = final_db (at_order_id a) cid items row ds (rows @ [r]) db"
    by (rule place_order_trace [OF assms])
  have d: "distinct (map dc_id (discounts (reserved_db items rows db)))" using dist(2) by (simp add: reserved_db_def)
  note price = pricing_facts [OF t(3) bound d t(5)]
  obtain x where x: "pr_discount_amount pricing = vnd x" "0 \<le> x" "x \<le> ?s" using price(3) by blast
  have "m_amount tot = order_gross placed - x"
    using t(15) order_total_exact [OF t(6)] t(13) x(1) by (auto split: if_splits)
  then have "priced_row (at_order_id a) (ur_id u) ?s row"
    using price(1,2) x t(7-13) by (simp add: t(16) priced_row_def order_row_of_def order_gross_def lines_subtotal_def)
  moreover have "discount_used (at_now a) ?s row db ds"
    using price(4) x t(13,14)
    by (auto simp: discount_used_def t(16) order_row_of_def use_discount_def reserved_db_def
        split: option.splits dest!: arg_cong [where f = discounts])
  moreover have "or_idempotency_key row = given (ci_idempotency_key input)" by (simp add: t(16) order_row_of_def)
  ultimately show "checkout_effect (at_now a) (at_order_id a) (ur_id u) cid (ci_idempotency_key input) items db db'"
    using t(4,17,18) unfolding checkout_effect_def final_db_def by blast
  show "ar_id ord = at_order_id a" "\<forall>line \<in> set items. line_available db line" by (rule t(2), rule t(1))
qed

subsection \<open>Retries\<close>

text \<open>\<open>others turn n k db\<close> is the database with only the commits of the others up to attempt \<open>k\<close>.\<close>

definition others :: "(nat \<Rightarrow> attempt) \<Rightarrow> nat \<Rightarrow> nat \<Rightarrow> database \<Rightarrow> database" where
  "others turn n k db = foldl (\<lambda>d i. at_others (turn i) d) db [n..<Suc k]"

lemma others_same [simp]: "others turn n n db = at_others (turn n) db"
  by (simp add: others_def)

lemma others_Suc: "n \<le> k \<Longrightarrow> n < k \<Longrightarrow> others turn (Suc n) k (at_others (turn n) db) = others turn n k db"
  by (simp add: others_def upt_conv_Cons)

lemma run_unit_of_work_cases:
  assumes "run_unit_of_work aborts work db = (r, db')"
  obtains (commit) x where "r = Inr x" "\<not> aborts" "work db = (Inr x, db')"
  | (rollback) e where "r = Inl e" "db' = db"
  using assms
  by (cases "fst (work db)"; cases aborts)
    (auto simp: run_unit_of_work_def transaction_def split: sum.splits prod.splits if_splits)

text \<open>The retry loop ends after at most \<open>MAX_RETRIES\<close> repetitions, and whatever failed left no trace.\<close>

lemma execute_with_retry_trace:
  assumes "execute_with_retry turn work n db = (r, db')" and "n \<le> MAX_RETRIES"
  shows "\<exists>k. n \<le> k \<and> k \<le> MAX_RETRIES
    \<and> (case r of Inl e \<Rightarrow> db' = others turn n k db \<and> (is_conflict e \<longrightarrow> k = MAX_RETRIES)
       | Inr x \<Rightarrow> \<not> at_aborts (turn k) \<and> work (turn k) (others turn n k db) = (Inr x, db'))"
  using assms
proof (induction "MAX_RETRIES - n" arbitrary: n db rule: less_induct)
  case less
  obtain r1 db1 where run: "run_unit_of_work (at_aborts (turn n)) (work (turn n)) (at_others (turn n) db) = (r1, db1)"
    by (cases "run_unit_of_work (at_aborts (turn n)) (work (turn n)) (at_others (turn n) db)")
  show ?case
    using run
  proof (cases rule: run_unit_of_work_cases)
    case (commit x)
    then have "r = Inr x" "db' = db1"
      using less.prems(1) run by (simp_all add: execute_with_retry.simps)
    then show ?thesis
      using commit less.prems(2) by (intro exI [of _ n]) simp
  next
    case (rollback e)
    show ?thesis
    proof (cases "is_conflict e \<and> n < MAX_RETRIES")
      case True
      then have rest: "execute_with_retry turn work (Suc n) (at_others (turn n) db) = (r, db')"
        using less.prems(1) run rollback by (simp add: execute_with_retry.simps)
      obtain k where k: "Suc n \<le> k" "k \<le> MAX_RETRIES"
          "case r of Inl e \<Rightarrow> db' = others turn (Suc n) k (at_others (turn n) db) \<and> (is_conflict e \<longrightarrow> k = MAX_RETRIES)
           | Inr x \<Rightarrow> \<not> at_aborts (turn k) \<and> work (turn k) (others turn (Suc n) k (at_others (turn n) db)) = (Inr x, db')"
        using less.hyps [OF _ rest] True by (metis Suc_leI diff_less_mono2 lessI)
      then show ?thesis
        using others_Suc [of n k turn db] by (intro exI [of _ k]) (simp split: sum.splits)
    next
      case False
      then have "r = Inl e" "db' = at_others (turn n) db"
        using less.prems(1) run rollback by (auto simp: execute_with_retry.simps)
      then show ?thesis
        using less.prems(2) False by (intro exI [of _ n]) auto
    qed
  qed
qed

subsection \<open>The checkout as a whole\<close>

definition cart_lines :: "ident \<Rightarrow> database \<Rightarrow> cart_line list" where
  "cart_lines uid db = (case find_cart_of uid db of
      None \<Rightarrow> [] | Some c \<Rightarrow> map (\<lambda>i. (cir_product_id i, cir_quantity i)) (items_of_cart (cr_id c) db))"

definition cart_id_of :: "ident \<Rightarrow> database \<Rightarrow> ident" where
  "cart_id_of uid db = (case find_cart_of uid db of None \<Rightarrow> [] | Some c \<Rightarrow> cr_id c)"

definition tables_ok :: "database \<Rightarrow> bool" where
  "tables_ok db \<longleftrightarrow> distinct (map prow_id (products db)) \<and> distinct (map dc_id (discounts db))"

lemma rmap_cart_lines:
  "rmap (cart_view_item_of db) rows = Inr items \<Longrightarrow>
   lines_of items = map (\<lambda>i. (cir_product_id i, cir_quantity i)) rows"
  by (induction rows arbitrary: items)
    (auto simp: rbind_Inr_iff lines_of_def cart_view_item_of_def split: option.splits)

lemma find_user_cart_Inr:
  assumes "find_user_cart_for_checkout uid db = (Inr (Some uc), db')"
  shows "db' = db" and "ur_id (uc_user uc) = uid"
    and "uc_cart uc = Some (cid, items) \<Longrightarrow> cid = cart_id_of uid db \<and> lines_of items = cart_lines uid db"
proof -
  obtain u where u: "find_user uid db = Some u"
    using assms by (auto simp: find_user_cart_for_checkout_def dret_def split: option.splits)
  have "ur_id u = uid" using u find_by_SomeD unfolding find_user_def by fast
  then show "db' = db" "ur_id (uc_user uc) = uid"
      "uc_cart uc = Some (cid, items) \<Longrightarrow> cid = cart_id_of uid db \<and> lines_of items = cart_lines uid db"
    using assms u
    by (auto simp: find_user_cart_for_checkout_def dret_def dlift_def rbind_Inr_iff cart_id_of_def cart_lines_def
        dest!: rmap_cart_lines split: option.splits)
qed

lemma read_only:
  "find_user_cart_for_checkout uid db = (r1, db1) \<Longrightarrow> db1 = db"
  "find_order_by_idempotency_key uid k db = (r2, db2) \<Longrightarrow> db2 = db"
  "find_order_with_items oid db = (r3, db3) \<Longrightarrow> db3 = db"
  by (auto simp: find_user_cart_for_checkout_def find_order_by_idempotency_key_def find_order_with_items_def
      dret_def dlift_def split: option.splits)

lemma find_order_with_items_Some:
  "find_order_with_items oid db = (Inr (Some v), db') \<Longrightarrow> or_id (ov_order v) = oid"
  by (auto simp: find_order_with_items_def dret_def dlift_def rbind_Inr_iff to_order_with_items_def
      saved_checkout_order_def find_order_def split: option.splits dest!: find_by_SomeD)

lemma find_by_key_Some:
  assumes "find_order_by_idempotency_key uid k db = (Inr (Some v), db')"
  shows "ov_order v \<in> set (orders db)" and "or_user_id (ov_order v) = uid"
    and "or_idempotency_key (ov_order v) = Some k"
  using assms
  by (auto simp: find_order_by_idempotency_key_def dret_def dlift_def rbind_Inr_iff to_order_with_items_def
      saved_checkout_order_def find_Some_iff split: option.splits)

lemma find_by_key_all:
  "find_order_by_idempotency_key uid k db = (Inr (Some v), db') \<Longrightarrow>
    db' = db \<and> ov_order v \<in> set (orders db) \<and> or_user_id (ov_order v) = uid \<and> or_idempotency_key (ov_order v) = Some k"
  using read_only(2) find_by_key_Some by blast

lemma replay_or_throw_cases:
  assumes "replay_or_throw uid key e db = (r, db')"
  shows "db' = db" and "r = Inr res \<Longrightarrow> ck_idempotent res \<and> (\<exists>k. given key = Some k
     \<and> ov_order (ck_order res) \<in> set (orders db) \<and> or_user_id (ov_order (ck_order res)) = uid
     \<and> or_idempotency_key (ov_order (ck_order res)) = Some k)"
  using assms
  by (auto simp: replay_or_throw_def dthrow_def dret_def split: option.splits if_splits
      elim!: dbind_cases dest!: find_by_key_all dest: read_only)

text \<open>\<open>checkout_committed\<close>: attempt \<open>k\<close> committed the contract on the database the others had left.\<close>

definition base :: "(nat \<Rightarrow> attempt) \<Rightarrow> nat \<Rightarrow> database \<Rightarrow> database" where
  "base turn k db = others turn 0 k db"

definition checkout_committed ::
    "(nat \<Rightarrow> attempt) \<Rightarrow> nat \<Rightarrow> ident \<Rightarrow> checkout_input \<Rightarrow> database \<Rightarrow> database \<Rightarrow> bool" where
  "checkout_committed turn k uid input db db' \<longleftrightarrow> \<not> at_aborts (turn k)
     \<and> checkout_effect (at_now (turn k)) (at_order_id (turn k)) uid (cart_id_of uid db) (ci_idempotency_key input)
         (cart_lines uid db) (base turn k db) db'
     \<and> (\<forall>line \<in> set (cart_lines uid db). line_available (base turn k db) line)"

text \<open>\<open>checkout_outcome\<close>: what a call of \<open>checkout\<close> may do.\<close>

definition replayed :: "ident \<Rightarrow> checkout_input \<Rightarrow> checkout_result \<Rightarrow> database \<Rightarrow> bool" where
  "replayed uid input res db \<longleftrightarrow> ck_idempotent res \<and> given (ci_idempotency_key input) \<noteq> None
     \<and> ov_order (ck_order res) \<in> set (orders db) \<and> or_user_id (ov_order (ck_order res)) = uid
     \<and> or_idempotency_key (ov_order (ck_order res)) = given (ci_idempotency_key input)"

definition checkout_outcome ::
    "(nat \<Rightarrow> attempt) \<Rightarrow> ident \<Rightarrow> checkout_input \<Rightarrow> database \<Rightarrow> error + checkout_result \<Rightarrow> database \<Rightarrow> bool" where
  "checkout_outcome turn uid input db r db' \<longleftrightarrow>
     (db' = db \<and> (\<forall>res. r = Inr res \<longrightarrow> replayed uid input res db))
   \<or> (\<exists>k \<le> MAX_RETRIES. db' = base turn k db \<and> (\<forall>res. r = Inr res \<longrightarrow> replayed uid input res db'))
   \<or> (\<exists>k \<le> MAX_RETRIES. checkout_committed turn k uid input db db'
        \<and> (\<forall>res. r = Inr res \<longrightarrow> \<not> ck_idempotent res \<and> or_id (ov_order (ck_order res)) = at_order_id (turn k)))"

definition checkout_ready :: "(nat \<Rightarrow> attempt) \<Rightarrow> ident \<Rightarrow> database \<Rightarrow> bool" where
  "checkout_ready turn uid db \<longleftrightarrow> distinct (map fst (cart_lines uid db))
     \<and> (\<forall>k \<le> MAX_RETRIES. tables_ok (base turn k db) \<and> lines_subtotal (base turn k db) (cart_lines uid db) < tax_bound)"

lemma checkout_new_outcome:
  assumes ready: "checkout_ready turn uid db" and run: "checkout_new E flag turn uid input db = (r, db')"
  shows "checkout_outcome turn uid input db r db'"
proof (cases "\<exists>uc cid items. find_user_cart_for_checkout uid db = (Inr (Some uc), db) \<and> uc_cart uc = Some (cid, items) \<and> items \<noteq> []")
  case False
  then have "db' = db \<and> (\<exists>e. r = Inl e)"
    using run unfolding checkout_new_def
    by (auto simp: dthrow_def split: option.splits if_splits prod.splits elim!: dbind_cases dest: read_only(1))
  then show ?thesis by (auto simp: checkout_outcome_def)
next
  case True
  then obtain uc cid items where uc: "find_user_cart_for_checkout uid db = (Inr (Some uc), db)"
      "uc_cart uc = Some (cid, items)" "items \<noteq> []" by blast
  have ids: "ur_id (uc_user uc) = uid" "cid = cart_id_of uid db" "lines_of items = cart_lines uid db"
    using find_user_cart_Inr(2,3) uc by blast+
  let ?work = "place_order E flag (uc_user uc) cid (lines_of items) input"
  obtain r1 db1 where ex: "execute_with_retry turn ?work 0 db = (r1, db1)" by force
  obtain k where k: "k \<le> MAX_RETRIES"
      "case r1 of Inl e \<Rightarrow> db1 = base turn k db \<and> (is_conflict e \<longrightarrow> k = MAX_RETRIES)
       | Inr x \<Rightarrow> \<not> at_aborts (turn k) \<and> ?work (turn k) (base turn k db) = (Inr x, db1)"
    using execute_with_retry_trace [OF ex le0] unfolding base_def by blast
  have step: "(case r1 of
        Inl e \<Rightarrow> replay_or_throw uid (ci_idempotency_key input) e db1
      | Inr persisted \<Rightarrow> dbind (find_order_with_items (ar_id persisted)) (\<lambda>full.
          case full of None \<Rightarrow> dthrow (PlainError ''Failed to retrieve created order'')
          | Some v \<Rightarrow> dret \<lparr>ck_order = v, ck_idempotent = False\<rparr>) db1) = (r, db')"
    using run uc ex by (auto simp: checkout_new_def dbind_def [of "find_user_cart_for_checkout uid"] split: sum.splits)
  show ?thesis
  proof (cases r1)
    case (Inl e)
    then have rp: "replay_or_throw uid (ci_idempotency_key input) e db1 = (r, db')" "db1 = base turn k db"
      using step k(2) by simp_all
    then have "db' = base turn k db" "\<forall>res. r = Inr res \<longrightarrow> replayed uid input res db'"
      using replay_or_throw_cases [OF rp(1)] by (auto simp: replayed_def)
    then show ?thesis using k(1) by (auto simp: checkout_outcome_def)
  next
    case (Inr x)
    have w: "?work (turn k) (base turn k db) = (Inr x, db1)" "\<not> at_aborts (turn k)" using k(2) Inr by simp_all
    have t: "distinct (map prow_id (products (base turn k db)))" "distinct (map dc_id (discounts (base turn k db)))"
        "distinct (map fst (lines_of items))" "lines_subtotal (base turn k db) (lines_of items) < tax_bound"
      using ready k(1) ids by (auto simp: checkout_ready_def tables_ok_def)
    note eff = place_order_effect [OF t w(1)]
    have "db' = db1 \<and> (\<forall>res. r = Inr res \<longrightarrow> \<not> ck_idempotent res \<and> or_id (ov_order (ck_order res)) = ar_id x)"
      using step Inr
      by (auto simp: dthrow_def dret_def split: option.splits elim!: dbind_cases
          dest: read_only(3) dest!: find_order_with_items_Some)
    then show ?thesis
      using eff k(1) w(2) ids by (auto simp: checkout_outcome_def checkout_committed_def)
  qed
qed

lemma checkout_outcome_holds:
  assumes ready: "checkout_ready turn uid db" and run: "checkout E flag turn uid input db = (r, db')"
  shows "checkout_outcome turn uid input db r db'"
proof (cases "given (ci_idempotency_key input)")
  case None
  then show ?thesis using run checkout_new_outcome [OF ready] by (simp add: checkout_def)
next
  case (Some key)
  have run': "dbind (find_order_by_idempotency_key uid key) (\<lambda>existing. case existing of
      Some v \<Rightarrow> dret \<lparr>ck_order = v, ck_idempotent = True\<rparr> | None \<Rightarrow> checkout_new E flag turn uid input) db = (r, db')"
    using run Some by (simp add: checkout_def)
  show ?thesis
    using run'
  proof (cases rule: dbind_cases)
    case (fail e)
    then show ?thesis using read_only(2) by (auto simp: checkout_outcome_def)
  next
    case (pass existing db1)
    then have "db1 = db" using read_only(2) by blast
    then show ?thesis
      using pass Some checkout_new_outcome [OF ready, of E flag input]
      by (cases existing) (auto simp: dret_def checkout_outcome_def replayed_def dest!: find_by_key_all)
  qed
qed

subsection \<open>Replays\<close>

lemma find_append_None: "find P xs = None \<Longrightarrow> find P (xs @ ys) = find P ys"
  by (induction xs) (auto split: if_splits)

lemma find_order_by_key_read:
  "find (\<lambda>r. or_user_id r = uid \<and> or_idempotency_key r = Some k) (orders db) = Some row \<Longrightarrow>
   to_order_with_items db row = Inr v \<Longrightarrow> find_order_by_idempotency_key uid k db = (Inr (Some v), db)"
  by (simp add: find_order_by_idempotency_key_def dlift_def)

lemma committed_order_read:
  assumes eff: "checkout_effect now oid uid cid key items db db'" and k: "given key = Some k"
    and f: "find_order_with_items oid db' = (Inr (Some v), db'')"
  shows "find_order_by_idempotency_key uid k db' = (Inr (Some v), db')"
proof -
  obtain row where row: "or_id row = oid" "or_user_id row = uid" "or_idempotency_key row = Some k"
      "fresh_order row (orders db)" "orders db' = orders db @ [row]"
    using eff k by (auto simp: checkout_effect_def priced_row_def)
  have "find_order oid db' = Some row"
    using row by (auto simp: find_order_def find_by_append find_by_None_iff fresh_order_def split: option.splits
        dest!: find_by_SomeD)
  moreover have "find (\<lambda>r. or_user_id r = uid \<and> or_idempotency_key r = Some k) (orders db') = Some row"
  proof -
    have "find (\<lambda>r. or_user_id r = uid \<and> or_idempotency_key r = Some k) (orders db) = None"
      using row by (auto simp: find_None_iff fresh_order_def)
    then show ?thesis using row by (simp add: find_append_None)
  qed
  ultimately show ?thesis
    using f find_order_by_key_read by (auto simp: find_order_with_items_def dlift_def rbind_Inr_iff)
qed

lemma checkout_new_read:
  assumes ready: "checkout_ready turn uid db" and run: "checkout_new E flag turn uid input db = (Inr res, db')"
    and k: "given (ci_idempotency_key input) = Some k"
  shows "find_order_by_idempotency_key uid k db' = (Inr (Some (ck_order res)), db')"
proof -
  obtain uc cid items where uc: "find_user_cart_for_checkout uid db = (Inr (Some uc), db)"
      "uc_cart uc = Some (cid, items)"
      and step: "(case execute_with_retry turn (place_order E flag (uc_user uc) cid (lines_of items) input) 0 db of
        (Inl e, db1) \<Rightarrow> replay_or_throw uid (ci_idempotency_key input) e db1
      | (Inr persisted, db1) \<Rightarrow> dbind (find_order_with_items (ar_id persisted)) (\<lambda>full.
          case full of None \<Rightarrow> dthrow (PlainError ''Failed to retrieve created order'')
          | Some v \<Rightarrow> dret \<lparr>ck_order = v, ck_idempotent = False\<rparr>) db1) = (Inr res, db')"
    using run find_user_cart_Inr(1) unfolding checkout_new_def
    by (fastforce simp: dthrow_def split: option.splits if_splits prod.splits elim!: dbind_Inr_E)
  have ids: "ur_id (uc_user uc) = uid" "cid = cart_id_of uid db" "lines_of items = cart_lines uid db"
    using find_user_cart_Inr(2,3) uc by blast+
  let ?work = "place_order E flag (uc_user uc) cid (lines_of items) input"
  obtain r1 db1 where ex: "execute_with_retry turn ?work 0 db = (r1, db1)" by force
  show ?thesis
  proof (cases r1)
    case (Inl e)
    then have "replay_or_throw uid (ci_idempotency_key input) e db1 = (Inr res, db')"
      using step ex by simp
    then show ?thesis
      using k read_only(2)
      by (fastforce simp: replay_or_throw_def dthrow_def dret_def split: option.splits if_splits elim!: dbind_Inr_E)
  next
    case (Inr x)
    obtain n where n: "n \<le> MAX_RETRIES" "?work (turn n) (base turn n db) = (Inr x, db1)"
      using execute_with_retry_trace [OF ex le0] Inr unfolding base_def by auto
    have t: "distinct (map prow_id (products (base turn n db)))" "distinct (map dc_id (discounts (base turn n db)))"
        "distinct (map fst (lines_of items))" "lines_subtotal (base turn n db) (lines_of items) < tax_bound"
      using ready n(1) ids by (auto simp: checkout_ready_def tables_ok_def)
    note eff = place_order_effect [OF t n(2)]
    obtain v where v: "find_order_with_items (ar_id x) db1 = (Inr (Some v), db1)" "ck_order res = v" "db' = db1"
      using step ex Inr read_only(3)
      by (fastforce simp: dthrow_def dret_def split: option.splits elim!: dbind_Inr_E)
    show ?thesis
      using committed_order_read [OF eff(1) k] v eff(2) ids(1) by simp
  qed
qed

text \<open>C1: A checkout is atomic. Whatever the interleaving with other transactions and however many of its at most six
  attempts the database aborts, it either changes nothing at all (and returns an order only when it replays
  the user's order for the same idempotency key) or commits exactly one order with the contract
  \<open>checkout_effect\<close>, on lines that were available, and returns that order.\<close>

theorem checkout_atomic:
  assumes "checkout_ready turn uid db" and "checkout E flag turn uid input db = (r, db')"
  shows "(db' = db \<and> (\<forall>res. r = Inr res \<longrightarrow> replayed uid input res db))
    \<or> (\<exists>k \<le> MAX_RETRIES. db' = base turn k db \<and> (\<forall>res. r = Inr res \<longrightarrow> replayed uid input res db'))
    \<or> (\<exists>k \<le> MAX_RETRIES. checkout_committed turn k uid input db db'
         \<and> (\<forall>res. r = Inr res \<longrightarrow> \<not> ck_idempotent res \<and> or_id (ov_order (ck_order res)) = at_order_id (turn k)))"
  using checkout_outcome_holds [OF assms] by (simp add: checkout_outcome_def)


subsection \<open>When a checkout goes through\<close>

text \<open>\<open>placeable\<close>: every line is available, the amounts are in range, the customer data pass the order's
  validation, the new order clashes with none, and neither a discount code nor an expected total is given.\<close>

definition placeable :: "user_row \<Rightarrow> cart_line list \<Rightarrow> checkout_input \<Rightarrow> attempt \<Rightarrow> database \<Rightarrow> bool" where
  "placeable u items input a db \<longleftrightarrow> items \<noteq> [] \<and> tables_ok db \<and> distinct (map fst items)
     \<and> (\<forall>line \<in> set items. line_available db line \<and> snd line \<le> max_safe)
     \<and> (\<forall>p \<in> set (products db). 0 \<le> prow_price p \<and> prow_price p \<le> max_safe)
     \<and> lines_subtotal db items < tax_bound
     \<and> (\<exists>fresh. order_create (at_now a) (order_props_of u input a) = Inr fresh
          \<and> (\<forall>r \<in> set (orders db). or_id r \<noteq> at_order_id a \<and> or_order_number r \<noteq> o_order_number fresh
               \<and> \<not> (or_user_id r = ur_id u \<and> given (ci_idempotency_key input) \<noteq> None
                     \<and> or_idempotency_key r = given (ci_idempotency_key input))))
     \<and> given (ci_discount_code input) = None \<and> ci_expected_total input = None"

lemma to_locked_ok: "0 \<le> prow_price p \<Longrightarrow> prow_price p \<le> max_safe \<Longrightarrow> \<exists>l. to_locked p = Inr l"
  by (simp add: to_locked_def money_column_eq)

lemma rmap_ok: "(\<And>x. x \<in> set xs \<Longrightarrow> \<exists>y. f x = Inr y) \<Longrightarrow> \<exists>ys. rmap f xs = Inr ys"
  by (induction xs) fastforce+

lemma reserve_stock_ok:
  assumes dist: "distinct (map prow_id (products db))" "distinct (map fst items)" and ne: "items \<noteq> []"
    and avail: "\<forall>line \<in> set items. line_available db line"
    and price: "\<forall>p \<in> set (products db). 0 \<le> prow_price p \<and> prow_price p \<le> max_safe"
  shows "\<exists>locked db'. reserve_stock E now items db = (Inr locked, db')"
proof -
  let ?ps = "filter (\<lambda>p. prow_id p \<in> set (map fst items)) (products db)"
  obtain locked where locked: "rmap to_locked ?ps = Inr locked"
  proof -
    have "\<exists>l. to_locked p = Inr l" if "p \<in> set ?ps" for p
      using that price by (intro to_locked_ok) auto
    then show thesis using rmap_ok [of ?ps to_locked] that by blast
  qed
  then have lock: "lock_products_for_update (map fst items) db = (Inr locked, db)"
    by (simp add: lock_products_for_update_def dlift_def)
  have line: "\<exists>l p. find_by lk_id i locked = Some l \<and> find_by prow_id i (products db) = Some p \<and> snapshot_of l p
      \<and> prow_is_active p \<and> 0 < q \<and> q \<le> prow_stock p" if m: "(i, q) \<in> set items" for i q
  proof -
    obtain p where p: "find_by prow_id i (products db) = Some p" "prow_is_active p" "0 < q" "q \<le> prow_stock p"
    proof -
      have "line_available db (i, q)" using avail m by blast
      then show thesis using that by (auto simp: line_available_def split: option.splits)
    qed
    have i: "i \<in> set (map fst items)" using m by force
    then have "find_by prow_id i ?ps = Some p"
      using p(1) find_by_filter [of prow_id i "\<lambda>p. prow_id p \<in> set (map fst items)" "products db"] by simp
    then obtain l where "find_by lk_id i locked = Some l"
      using rmap_locked_find(1) [OF locked, of i] by (cases "find_by lk_id i locked") auto
    then show ?thesis using lock_products_spec(2) [OF lock i] p by auto
  qed
  have chk: "\<exists>us. rmap (check_line locked) items = Inr us"
  proof (rule rmap_ok)
    fix x assume "x \<in> set items"
    then obtain l p where l: "find_by lk_id (fst x) locked = Some l" "snapshot_of l p" "prow_is_active p"
        "0 < snd x" "snd x \<le> prow_stock p"
      using line [of "fst x" "snd x"] by auto
    then have "check_line locked (fst x, snd x) = Inr ()"
      unfolding check_line_Inr by (simp add: snapshot_of_def)
    then show "\<exists>y. check_line locked x = Inr y" by simp
  qed
  obtain us db' where "dmap (reserve_line E now locked) items db = (Inr us, db')"
  proof -
    have "\<exists>l p. find_by lk_id i locked = Some l \<and> find_by prow_id i (products db) = Some p \<and> lk_version l = prow_version p"
      if "(i, q) \<in> set items" for i q using line [OF that] by (auto simp: snapshot_of_def)
    then show thesis using reserve_lines_ok [OF dist, of locked E now] that by blast
  qed
  then show ?thesis
    using ne lock chk by (auto simp: reserve_stock_def dbind_def dlift_def dret_def)
qed

lemma fill_lines_ok:
  assumes "distinct (map fst items)" and "\<not> o_placed ord" "o_status ord = PENDING"
    and "\<And>pid. pid \<in> fst ` set items \<Longrightarrow> pid \<notin> oi_product_id ` set (o_items ord)"
    and "\<And>pid q. (pid, q) \<in> set items \<Longrightarrow> 0 < q \<and> q \<le> max_safe \<and>
      (\<exists>l p. find_by lk_id pid locked = Some l \<and> snapshot_of l p)"
  shows "\<exists>ord'. rfold (add_line locked) ord items = Inr ord' \<and> \<not> o_placed ord' \<and> o_status ord' = PENDING"
  using assms
proof (induction items arbitrary: ord)
  case (Cons line items)
  obtain pid q where line: "line = (pid, q)" by (cases line) auto
  obtain l p where lp: "find_by lk_id pid locked = Some l" "snapshot_of l p" and q: "0 < q" "q \<le> max_safe"
    using Cons.prems(5) [of pid q] line by auto
  have am: "assert_mutable ord = Inr ()" using Cons.prems(2,3) by (simp add: assert_mutable_iff)
  have nf: "find_by oi_product_id pid (o_items ord) = None"
    using Cons.prems(4) [of pid] line by (simp add: find_by_None_iff)
  have "js_less (Fin 0) (num_of_int q)" using q by (simp add: num_of_int_def)
  then obtain ord1 where o1: "add_line locked ord (pid, q) = Inr ord1"
      "ord1 = ord\<lparr>o_items := o_items ord @ [\<lparr>oi_product_id = pid, oi_product_name = lk_name l, oi_quantity = q,
         oi_unit_price = vnd (prow_price p)\<rparr>]\<rparr>"
    using lp q am nf by (simp add: add_line_def order_add_item_def snapshot_of_def safe_int_def vnd_def)
  have "\<exists>ord'. rfold (add_line locked) ord1 items = Inr ord' \<and> \<not> o_placed ord' \<and> o_status ord' = PENDING"
  proof (rule Cons.IH)
    show "i \<notin> oi_product_id ` set (o_items ord1)" if "i \<in> fst ` set items" for i
      using Cons.prems(1) Cons.prems(4) [of i] that unfolding o1(2) line by auto
    show "0 < x \<and> x \<le> max_safe \<and> (\<exists>l p. find_by lk_id i locked = Some l \<and> snapshot_of l p)"
      if "(i, x) \<in> set items" for i x using Cons.prems(5) [of i x] that by simp
  qed (use Cons.prems o1(2) in simp_all)
  then show ?case using o1(1) by (simp add: line)
qed simp

lemma item_row_of_ok:
  assumes "item_ok i" and "m_amount (oi_unit_price i) * oi_quantity i \<le> max_safe"
  shows "\<exists>r. item_row_of oid i = Inr r"
proof -
  obtain n where n: "oi_unit_price i = vnd n" "0 \<le> n" "n \<le> max_safe" "0 < oi_quantity i" "oi_quantity i \<le> max_safe"
    using assms(1) by (auto simp: item_ok_def elim: vnd_okE)
  then show ?thesis using assms(2) by (simp add: item_row_of_def order_item_total_def)
qed

lemma item_value_le:
  assumes "\<forall>i \<in> set is. item_ok i" and "i \<in> set is"
  shows "m_amount (oi_unit_price i) * oi_quantity i \<le> items_value is"
  using assms
proof (induction "is")
  case (Cons j js)
  have "0 \<le> items_value js" by (rule items_value_nonneg) (use Cons.prems in simp)
  moreover have "0 \<le> m_amount (oi_unit_price j) * oi_quantity j" by (rule item_value_nonneg) (use Cons.prems in simp)
  ultimately show ?case
    using Cons by (cases "i = j") (auto simp: items_value_def)
qed simp

lemma save_new_order_ok:
  assumes ok: "order_ok ord" and ev: "ar_events ord = [ev]" and tot: "order_total ord = Inr (vnd t)" "0 \<le> t" "t \<le> max_safe"
    and s: "items_value (o_items ord) \<le> max_safe"
    and fresh: "\<forall>r \<in> set (orders db). or_id r \<noteq> ar_id ord \<and> or_order_number r \<noteq> o_order_number ord
      \<and> \<not> (or_user_id r = o_user_id ord \<and> given key \<noteq> None \<and> or_idempotency_key r = given key)"
  shows "\<exists>res db'. save_new_order E now ord key db = (Inr res, db')"
proof -
  have items: "\<forall>i \<in> set (o_items ord). item_ok i" using ok by (simp add: order_ok_def)
  obtain rows where rows: "rmap (item_row_of (ar_id ord)) (o_items ord) = Inr rows"
  proof -
    have "\<exists>r. item_row_of (ar_id ord) i = Inr r" if "i \<in> set (o_items ord)" for i
      by (rule item_row_of_ok) (use items item_value_le [OF items that] s that in auto)
    then show thesis using rmap_ok [of "o_items ord" "item_row_of (ar_id ord)"] that by blast
  qed
  have s0: "0 \<le> items_value (o_items ord)" by (rule items_value_nonneg [OF items])
  let ?row = "order_row_of now ord (vnd (items_value (o_items ord))) (vnd t) key"
  have ins: "insert_order ?row db = (Inr (), db\<lparr>orders := orders db @ [?row]\<rparr>)"
    using fresh by (auto simp: insert_order_def order_row_of_def list_ex_iff)
  have "vnd_ok (o_tax ord)" "vnd_ok (o_shipping_fee ord)" "vnd_ok (o_discount_amount ord)"
    using ok by (simp_all add: order_ok_def)
  then have saved: "saved_checkout_order ?row = Inr ?row"
    using s s0 tot by (simp add: saved_checkout_order_def order_row_of_def money_column_eq vnd_ok_def money_ok_def)
  have sub: "order_subtotal ord = Inr (vnd (items_value (o_items ord)))"
    using order_subtotal_exact [OF ok] s by simp
  show ?thesis
    by (simp add: save_new_order_def sub tot(1) rows dbind_def ins saved Let_def dlift_def dupdate_def dret_def
        persist_domain_events_def persist_events_def)
qed

lemma place_order_ok:
  assumes p: "placeable u items input a db"
  shows "\<exists>ord db'. place_order E flag u cid items input a db = (Inr ord, db')"
proof -
  let ?now = "at_now a" and ?s = "lines_subtotal db items"
  have dist: "distinct (map prow_id (products db))" "distinct (map fst items)" "items \<noteq> []"
    and avail: "\<forall>line \<in> set items. line_available db line"
    and price: "\<forall>q \<in> set (products db). 0 \<le> prow_price q \<and> prow_price q \<le> max_safe"
    and bound: "?s < tax_bound" and code: "given (ci_discount_code input) = None" "ci_expected_total input = None"
    using p by (auto simp: placeable_def tables_ok_def)
  obtain fresh where fresh: "order_create ?now (order_props_of u input a) = Inr fresh"
      "\<forall>r \<in> set (orders db). or_id r \<noteq> at_order_id a \<and> or_order_number r \<noteq> o_order_number fresh
         \<and> \<not> (or_user_id r = ur_id u \<and> given (ci_idempotency_key input) \<noteq> None
               \<and> or_idempotency_key r = given (ci_idempotency_key input))"
    using p by (auto simp: placeable_def)
  note fr = order_create_Inr [OF fresh(1)]
  obtain locked db1 where res: "reserve_stock E ?now items db = (Inr locked, db1)"
    using reserve_stock_ok [OF dist avail price] by blast
  note eff = reserve_stock_effect [OF dist(1,2) res]
  obtain rows where rows: "db1 = db\<lparr>products := map (take_stock items) (products db),
      outbox_events := outbox_events db @ rows, id_supply := id_supply db + length items\<rparr>"
    using eff(1) by (auto simp: stock_change_def)
  have q: "0 < q \<and> q \<le> max_safe" if "(i, q) \<in> set items" for i q
    using p that avail unfolding placeable_def by (fastforce simp: line_available_def split: option.splits)
  have ex: "\<exists>l p. find_by lk_id i locked = Some l \<and> snapshot_of l p" if "(i, q) \<in> set items" for i q
    using eff(3) [OF that] by blast
  obtain filled where fill: "rfold (add_line locked) fresh items = Inr filled" "\<not> o_placed filled" "o_status filled = PENDING"
    using fill_lines_ok [OF dist(2) fr(4,5), of locked] q ex fr(1) by auto
  have fl: "filled = fresh\<lparr>o_items := o_items fresh @ map (line_item db) items\<rparr> \<and> order_ok filled"
    by (rule fill_lines [OF fill(1) dist(2) _ _ fr(6)]) (use eff(3) fr(1) in auto)
  have fi: "o_items filled = map (line_item db) items" using fl fr(1) by simp
  have s0: "0 \<le> ?s" and sm: "?s \<le> max_safe"
    using items_value_nonneg [of "map (line_item db) items"] conjunct2 [OF fl] bound
    unfolding lines_subtotal_def order_ok_def fi by (simp_all add: tax_bound_def max_safe_def)
  have sub: "order_subtotal filled = Inr (vnd ?s)"
    using order_subtotal_exact [OF conjunct2 [OF fl]] sm unfolding fi lines_subtotal_def by simp
  let ?p = "priced ?s (vnd 0) None"
  have pr: "calculate_pricing flag ?now (vnd ?s) (ci_discount_code input) db1 = (Inr ?p, db1)"
    using code(1) by (auto simp: calculate_pricing_def price_eq [OF s0 bound] given_def dret_def split: option.splits if_splits)
  let ?ord = "filled\<lparr>o_tax := vnd (tax_of ?s), o_shipping_fee := vnd (shipping_of ?s),
     o_discount_amount := vnd 0, o_discount_code := None\<rparr>"
  have ap: "order_apply_pricing ?p filled = Inr ?ord"
    using fill sub s0 by (simp add: order_apply_pricing_def assert_mutable_def priced_def)
  have t: "0 \<le> tax_of ?s" "tax_of ?s \<le> max_safe" "0 \<le> shipping_of ?s" "shipping_of ?s \<le> max_safe"
      "?s + tax_of ?s + shipping_of ?s \<le> max_safe"
    using s0 bound by (auto simp: tax_of_def tax_bound_def shipping_of_def SHIPPING_FEE_def max_safe_def)
  have oko: "order_ok ?ord" using conjunct2 [OF fl] t by (simp add: order_ok_def max_safe_def)
  let ?t = "?s + tax_of ?s + shipping_of ?s"
  have tot: "order_total ?ord = Inr (vnd ?t)"
    using order_total_exact [OF oko] t s0 by (simp add: order_gross_def fi lines_subtotal_def)
  have sub': "order_subtotal ?ord = Inr (vnd ?s)" using sub by (simp add: order_subtotal_def)
  obtain placed where pl: "order_place ?now ?ord = Inr placed"
    using fill tot sub' dist(3) by (simp add: order_place_def fi)
  obtain ev where ev: "placed = raise ev (?ord\<lparr>o_placed := True\<rparr>)"
    using order_place_Inr [OF pl] by blast
  have okp: "order_ok placed" using oko by (simp add: ev order_ok_def)
  have same: "order_total placed = order_total ?ord" "o_items placed = map (line_item db) items" "ar_id placed = at_order_id a"
      "o_order_number placed = o_order_number fresh" "o_user_id placed = ur_id u" "ar_events placed = [ev]"
    using fl fr by (simp_all add: ev order_total_def order_subtotal_def fi order_props_of_def cong: if_cong)
  obtain res' db2 where "save_new_order E ?now placed (ci_idempotency_key input) db1 = (Inr res', db2)"
    using save_new_order_ok [OF okp same(6), of ?t db1 "ci_idempotency_key input" E ?now] same tot t s0 sm fresh(2) rows
    by (auto simp: lines_subtotal_def)
  then show ?thesis
    by (simp add: place_order_def dbind_def res fresh(1) fill(1) sub pr ap check_expected_def code(2) pl dlift_def
        clear_cart_items_def dupdate_def dret_def)
qed

lemma retry_survives:
  assumes "\<And>j. n \<le> j \<Longrightarrow> j < k \<Longrightarrow> at_aborts (turn j)" and "\<And>j d. at_others (turn j) d = d"
    and "\<not> at_aborts (turn k)" and "work (turn k) db = (Inr x, db')" and "n \<le> k" and "k \<le> MAX_RETRIES"
  shows "execute_with_retry turn work n db = (Inr x, db')"
  using assms
proof (induction "k - n" arbitrary: n)
  case 0
  then show ?case
    by (simp add: execute_with_retry.simps run_unit_of_work_def transaction_def)
next
  case (Suc m)
  then have n: "n < k" by simp
  have "execute_with_retry turn work (Suc n) db = (Inr x, db')"
    by (rule Suc.hyps(1)) (use Suc.hyps(2) Suc.prems n in auto)
  then show ?case
    using Suc.prems n
    by (simp add: execute_with_retry.simps [of turn work n db] run_unit_of_work_def)
qed

lemma committed_view:
  assumes eff: "checkout_effect now oid uid cid key items db db'" and s: "lines_subtotal db items < tax_bound"
    and ok: "\<forall>i \<in> set (map (line_item db) items). item_ok i"
    and none: "\<forall>i \<in> set (order_items db). oir_order_id i \<noteq> oid"
  shows "\<exists>v. find_order_with_items oid db' = (Inr (Some v), db') \<and> priced_row oid uid (lines_subtotal db items) (ov_order v)"
proof -
  let ?s = "lines_subtotal db items"
  obtain row where row: "priced_row oid uid ?s row" "fresh_order row (orders db)" "orders db' = orders db @ [row]"
      "order_items db' = order_items db @ map (item_row oid \<circ> line_item db) items"
    using eff by (auto simp: checkout_effect_def)
  have f: "find_order oid db' = Some row"
    using row by (auto simp: find_order_def find_by_append find_by_None_iff fresh_order_def priced_row_def
        split: option.splits dest!: find_by_SomeD)
  have its: "items_of_order oid db' = map (item_row oid \<circ> line_item db) items"
    using none row(4) by (simp add: items_of_order_def item_row_def filter_empty_conv)
  have s0: "0 \<le> ?s" unfolding lines_subtotal_def by (rule items_value_nonneg [OF ok])
  have saved: "saved_checkout_order row = Inr row"
    using row(1) s s0 by (auto simp: priced_row_def saved_checkout_order_def money_column_eq tax_bound_def max_safe_def)
  have "\<exists>y. order_item_view_of db' x = Inr y" if m: "x \<in> set (items_of_order oid db')" for x
  proof -
    obtain i where i: "i \<in> set (map (line_item db) items)" "x = item_row oid i"
      using m unfolding its by auto
    have "m_amount (oi_unit_price i) * oi_quantity i \<le> max_safe"
      using item_value_le [OF ok i(1)] s unfolding lines_subtotal_def by (simp add: tax_bound_def max_safe_def)
    moreover have "item_ok i" using ok i(1) by blast
    ultimately show ?thesis
      using item_value_nonneg [of i] unfolding i(2)
      by (auto simp: order_item_view_of_def item_row_def money_column_eq item_ok_def vnd_ok_def money_ok_def)
  qed
  then obtain ys where "rmap (order_item_view_of db') (items_of_order oid db') = Inr ys"
    using rmap_ok [of "items_of_order oid db'" "order_item_view_of db'"] by blast
  then have "to_order_with_items db' row = Inr \<lparr>ov_order = row, ov_items = ys\<rparr>"
    using row(1) saved by (simp add: to_order_with_items_def priced_row_def)
  then show ?thesis
    using f row(1) by (simp add: find_order_with_items_def dlift_def)
qed

lemma cart_view_ok:
  assumes "\<forall>p \<in> set (products db). 0 \<le> prow_price p \<and> prow_price p \<le> max_safe"
    and "\<forall>line \<in> set (map (\<lambda>i. (cir_product_id i, cir_quantity i)) rows). line_available db line"
  shows "\<exists>items. rmap (cart_view_item_of db) rows = Inr items"
proof (rule rmap_ok)
  fix x assume "x \<in> set rows"
  then have "line_available db (cir_product_id x, cir_quantity x)" using assms(2) by auto
  then obtain p where "find_by prow_id (cir_product_id x) (products db) = Some p"
    by (auto simp: line_available_def split: option.splits)
  then show "\<exists>y. cart_view_item_of db x = Inr y"
    using assms(1) by (auto simp: cart_view_item_of_def find_product_def money_column_eq dest!: find_by_SomeD)
qed

lemma line_item_ok:
  assumes "line_available db (pid, q)" and "q \<le> max_safe"
    and "\<forall>p \<in> set (products db). 0 \<le> prow_price p \<and> prow_price p \<le> max_safe"
  shows "item_ok (line_item db (pid, q))"
  using assms by (auto simp: line_available_def line_item_def find_product_def item_ok_def split: option.splits dest!: find_by_SomeD)

lemma checkout_goes_through:
  assumes u: "find_user uid db = Some u" and c: "find_cart_of uid db = Some c"
    and k: "k \<le> MAX_RETRIES" "\<forall>j < k. at_aborts (turn j)" "\<not> at_aborts (turn k)"
    and alone: "\<forall>j d. at_others (turn j) d = d"
    and p: "placeable u (cart_lines uid db) input (turn k) db"
    and none: "\<forall>i \<in> set (order_items db). oir_order_id i \<noteq> at_order_id (turn k)"
  shows "\<exists>res db'. checkout E flag turn uid input db = (Inr res, db') \<and> \<not> ck_idempotent res
    \<and> priced_row (at_order_id (turn k)) uid (lines_subtotal db (cart_lines uid db)) (ov_order (ck_order res))"
proof -
  let ?items = "cart_lines uid db"
  have uid: "ur_id u = uid" using u find_by_SomeD unfolding find_user_def by fast
  have dist: "distinct (map prow_id (products db))" "distinct (map dc_id (discounts db))" "distinct (map fst ?items)"
    and bound: "lines_subtotal db ?items < tax_bound"
    and avail: "\<forall>line \<in> set ?items. line_available db line \<and> snd line \<le> max_safe"
    and price: "\<forall>p \<in> set (products db). 0 \<le> prow_price p \<and> prow_price p \<le> max_safe"
    and ne: "?items \<noteq> []"
    and nokey: "given (ci_idempotency_key input) = Some key \<Longrightarrow>
      \<not> (\<exists>r \<in> set (orders db). or_user_id r = uid \<and> or_idempotency_key r = Some key)" for key
    using p uid by (auto simp: placeable_def tables_ok_def)
  obtain items where items: "rmap (cart_view_item_of db) (items_of_cart (cr_id c) db) = Inr items"
    using cart_view_ok [OF price, of "items_of_cart (cr_id c) db"] avail c by (auto simp: cart_lines_def)
  have lines: "lines_of items = ?items" using rmap_cart_lines [OF items] c by (simp add: cart_lines_def)
  have found: "find_user_cart_for_checkout uid db = (Inr (Some \<lparr>uc_user = u, uc_cart = Some (cr_id c, items)\<rparr>), db)"
    by (simp add: find_user_cart_for_checkout_def u c items dlift_def)
  let ?work = "place_order E flag u (cr_id c) ?items input"
  obtain ord db' where w: "?work (turn k) db = (Inr ord, db')"
    using place_order_ok [OF p] by blast
  note eff = place_order_effect [OF dist bound w]
  have ok: "\<forall>i \<in> set (map (line_item db) ?items). item_ok i"
    using avail line_item_ok [OF _ _ price] by (auto split: prod.splits)
  obtain v where v: "find_order_with_items (ar_id ord) db' = (Inr (Some v), db')"
      "priced_row (at_order_id (turn k)) uid (lines_subtotal db ?items) (ov_order v)"
    using committed_view [OF eff(1) bound ok none] eff(2) uid by auto
  have "execute_with_retry turn ?work 0 db = (Inr ord, db')"
    using k alone w by (intro retry_survives) auto
  then have new: "checkout_new E flag turn uid input db = (Inr \<lparr>ck_order = v, ck_idempotent = False\<rparr>, db')"
    using ne lines by (auto simp: checkout_new_def dbind_def found v(1) dret_def lines_of_def)
  have "checkout E flag turn uid input db = (Inr \<lparr>ck_order = v, ck_idempotent = False\<rparr>, db')"
  proof (cases "given (ci_idempotency_key input)")
    case None
    then show ?thesis using new by (simp add: checkout_def)
  next
    case (Some key)
    then have "find (\<lambda>r. or_user_id r = uid \<and> or_idempotency_key r = Some key) (orders db) = None"
      using nokey by (auto simp: find_None_iff)
    then have "find_order_by_idempotency_key uid key db = (Inr None, db)"
      by (simp add: find_order_by_idempotency_key_def dret_def)
    then show ?thesis using new Some by (simp add: checkout_def dbind_def)
  qed
  then show ?thesis using v(2) by (intro exI conjI) auto
qed

text \<open>C14: A checkout whose cart can be placed goes through, even when the database aborts up to five attempts with a
  serialization failure: it returns a new pending order with the exact total of the cart, tax and shipping.\<close>

theorem checkout_commits:
  assumes u: "find_user uid db = Some u" and c: "find_cart_of uid db = Some c"
    and k: "k \<le> MAX_RETRIES" "\<forall>j < k. at_aborts (turn j)" "\<not> at_aborts (turn k)"
    and alone: "\<forall>j d. at_others (turn j) d = d"
    and p: "placeable u (cart_lines uid db) input (turn k) db"
    and none: "\<forall>i \<in> set (order_items db). oir_order_id i \<noteq> at_order_id (turn k)"
  shows "\<exists>res db'. checkout E flag turn uid input db = (Inr res, db') \<and> \<not> ck_idempotent res
    \<and> priced_row (at_order_id (turn k)) uid (lines_subtotal db (cart_lines uid db)) (ov_order (ck_order res))"
  using assms by (rule checkout_goes_through)

subsection \<open>A sample shop\<close>

definition shop_db :: database where
  "shop_db = empty_db\<lparr>
     users := [\<lparr>ur_id = ''u1'', ur_email = ''an@mail.vn'', ur_password = None, ur_first_name = ''An'',
       ur_last_name = ''Le'', ur_phone = None, ur_role = USER, ur_is_verified = True,
       ur_is_2fa_enabled = False, ur_totp_secret = None, ur_created_at = 0\<rparr>],
     products := [tea_row],
     carts := [\<lparr>cr_id = ''c1'', cr_user_id = ''u1''\<rparr>],
     cart_items := [\<lparr>cir_id = ''ci1'', cir_cart_id = ''c1'', cir_product_id = prow_id tea_row, cir_quantity = 2\<rparr>]\<rparr>"

definition shop_attempt :: attempt where
  "shop_attempt = \<lparr>at_now = 9, at_order_id = ''o1'', at_order_number = ''ORD-1'', at_aborts = False, at_others = (\<lambda>db. db)\<rparr>"

definition shop_input :: checkout_input where
  "shop_input = \<lparr>ci_idempotency_key = Some ''k'', ci_payment_method = ''COD'', ci_address = ''12 Hang Bai'',
     ci_phone = ''0912345678'', ci_notes = None, ci_discount_code = None, ci_expected_total = None\<rparr>"

lemma shop_order_create:
  "order_create 9 (order_props_of (hd (users shop_db)) shop_input shop_attempt) =
    Inr \<lparr>ar_id = ''o1'', ar_events = [], ar_version = 0, o_user_id = ''u1'', o_order_number = ''ORD-1'',
      o_status = PENDING, o_created_at = 9, o_customer_name = ''An Le'', o_customer_email = ''an@mail.vn'',
      o_customer_phone = ''0912345678'', o_customer_address = ''12 Hang Bai'', o_payment_method = ''COD'',
      o_payment_status = PAY_PENDING, o_discount_amount = vnd 0, o_shipping_fee = vnd 0, o_tax = vnd 0,
      o_notes = None, o_discount_code = None, o_items = [], o_placed = False\<rparr>"
  by code_simp

definition shop_turn :: "nat \<Rightarrow> attempt" where
  "shop_turn n = shop_attempt\<lparr>at_aborts := n < 2\<rparr>"

lemma shop_cart: "cart_lines ''u1'' shop_db = [(''p1'', 2)]"
  by code_simp

lemma shop_subtotal: "lines_subtotal shop_db [(''p1'', 2)] = 200000"
  by code_simp

lemma shop_props [simp]:
  "order_props_of u input (shop_turn k) = order_props_of u input shop_attempt" "at_now (shop_turn k) = 9"
  "at_order_id (shop_turn k) = ''o1''" "at_others (shop_turn k) = (\<lambda>db. db)" "at_aborts (shop_turn k) = (k < 2)"
  by (simp_all add: shop_turn_def shop_attempt_def order_props_of_def)

lemma shop_placeable: "placeable (hd (users shop_db)) [(''p1'', 2)] shop_input (shop_turn k) shop_db"
  using shop_order_create
  by (simp add: placeable_def shop_subtotal tax_bound_def)
    (simp add: tables_ok_def shop_db_def empty_db_def shop_input_def given_def line_available_def tea_row_def max_safe_def)

lemma shop_ready: "checkout_ready shop_turn ''u1'' shop_db"
proof -
  have "others shop_turn n k db = db" for n k db
    by (induction k) (simp_all add: others_def)
  then show ?thesis
    by (simp add: checkout_ready_def shop_cart base_def shop_subtotal tax_bound_def)
      (simp add: tables_ok_def shop_db_def empty_db_def)
qed

lemma shop_rows:
  "find_user ''u1'' shop_db = Some (hd (users shop_db))"
  "find_cart_of ''u1'' shop_db = Some \<lparr>cr_id = ''c1'', cr_user_id = ''u1''\<rparr>" "order_items shop_db = []"
  by (simp_all add: find_user_def find_cart_of_def shop_db_def empty_db_def)

lemma shop_checkout:
  obtains res db' where "checkout sample_env True shop_turn ''u1'' shop_input shop_db = (Inr res, db')"
    and "\<not> ck_idempotent res"
proof -
  have "\<exists>res db'. checkout sample_env True shop_turn ''u1'' shop_input shop_db = (Inr res, db') \<and> \<not> ck_idempotent res"
    using checkout_goes_through [of "''u1''" shop_db "hd (users shop_db)" "\<lparr>cr_id = ''c1'', cr_user_id = ''u1''\<rparr>" 2
        shop_turn shop_input sample_env True] shop_placeable [of 2]
    by (auto simp: MAX_RETRIES_def shop_cart shop_rows)
  then show thesis using that by blast
qed

theorem checkout_commits_witness:
  "\<exists>res db'. checkout sample_env True shop_turn ''u1'' shop_input shop_db = (Inr res, db') \<and> \<not> ck_idempotent res
    \<and> priced_row ''o1'' ''u1'' 200000 (ov_order (ck_order res))"
  using checkout_commits [of "''u1''" shop_db _ _ 2 shop_turn shop_input sample_env True] shop_placeable [of 2]
  by (simp add: MAX_RETRIES_def shop_cart shop_subtotal shop_rows)

theorem checkout_atomic_witness:
  "\<exists>res db' k. checkout sample_env True shop_turn ''u1'' shop_input shop_db = (Inr res, db')
    \<and> checkout_committed shop_turn k ''u1'' shop_input shop_db db'"
proof -
  obtain res db' where run: "checkout sample_env True shop_turn ''u1'' shop_input shop_db = (Inr res, db')"
      and new: "\<not> ck_idempotent res"
    by (rule shop_checkout)
  show ?thesis
    using checkout_atomic [OF shop_ready run] new run by (fastforce simp: replayed_def)
qed


end
