(* ===== verification/Checkout_Stock.thy ===== *)
theory Checkout_Stock
  imports Checkout
begin

text \<open>
  What checkouts do to the stock over any number of requests. A request is the surroundings of its
  attempts, the user and the input; \<open>serve\<close> is the database after it. The requests of a sequence commit one
  after the other, as the serializable isolation level has it, and any of their attempts may be aborted.
\<close>

type_synonym request = "(nat \<Rightarrow> attempt) \<times> ident \<times> checkout_input"

definition serve :: "env \<Rightarrow> bool \<Rightarrow> database \<Rightarrow> request \<Rightarrow> database" where
  "serve E flag db req = (case req of (turn, uid, input) \<Rightarrow> snd (checkout E flag turn uid input db))"

definition stock_of :: "ident \<Rightarrow> database \<Rightarrow> int" where
  "stock_of pid db = (case find_product pid db of None \<Rightarrow> 0 | Some p \<Rightarrow> prow_stock p)"

definition sold :: "ident \<Rightarrow> database \<Rightarrow> int" where
  "sold pid db = sum_list (map oir_quantity (filter (\<lambda>i. oir_product_id i = pid) (order_items db)))"

definition shop_ok :: "database \<Rightarrow> bool" where
  "shop_ok db \<longleftrightarrow> tables_ok db \<and> (\<forall>p \<in> set (products db). 0 \<le> prow_stock p)
     \<and> (\<forall>c \<in> set (carts db). let ls = map (\<lambda>i. (cir_product_id i, cir_quantity i)) (items_of_cart (cr_id c) db)
          in distinct (map fst ls) \<and> lines_subtotal db ls < tax_bound)"

subsection \<open>One checkout\<close>

lemma find_product_take:
  "products db' = map (take_stock items) (products db) \<Longrightarrow>
   find_product pid db' = map_option (take_stock items) (find_product pid db)"
  by (simp add: find_product_def find_by_map)

lemma take_stock_price [simp]:
  "prow_price (take_stock items p) = prow_price p" "prow_name (take_stock items p) = prow_name p"
  by (simp_all add: take_stock_def split: option.splits)

lemma lines_subtotal_take:
  assumes "products db' = map (take_stock items) (products db)"
  shows "lines_subtotal db' ls = lines_subtotal db ls"
proof -
  have "line_item db' line = line_item db line" for line
    by (cases line) (simp add: line_item_def find_product_take [OF assms] split: option.splits)
  then have "line_item db' = line_item db" by blast
  then show ?thesis by (simp add: lines_subtotal_def)
qed

lemma take_stock_stock:
  "prow_stock (take_stock items p) = prow_stock p - (case map_of items (prow_id p) of None \<Rightarrow> 0 | Some q \<Rightarrow> q)"
  by (simp add: take_stock_def split: option.splits)

lemma sold_lines:
  assumes "distinct (map fst items)"
  shows "sum_list (map oir_quantity (filter (\<lambda>i. oir_product_id i = pid) (map (item_row oid \<circ> line_item db) items)))
    = (case map_of items pid of None \<Rightarrow> 0 | Some q \<Rightarrow> q)"
  using assms
proof (induction items)
  case (Cons line items)
  obtain i q where line: "line = (i, q)" by (cases line) auto
  have r: "oir_product_id (item_row oid (line_item db line)) = i" "oir_quantity (item_row oid (line_item db line)) = q"
    by (simp_all add: line item_row_def line_item_def split: option.splits)
  have "map_of items i = None" using Cons.prems by (simp add: line map_of_eq_None_iff)
  then show ?case using Cons r by (auto simp: line)
qed simp

lemma effect_tables_ok:
  assumes "checkout_effect now oid uid cid key items db db'" and "tables_ok db"
  shows "tables_ok db'"
proof -
  obtain row ds where e: "products db' = map (take_stock items) (products db)" "discounts db' = ds"
      "discount_used now (lines_subtotal db items) row db ds"
    using assms(1) by (auto simp: checkout_effect_def)
  have "map dc_id ds = map dc_id (discounts db)"
    using e(3) by (auto simp: discount_used_def use_discount_def map_key_update_by split: option.splits)
  then show ?thesis using assms(2) e by (simp add: tables_ok_def comp_def)
qed

lemma effect_stock:
  assumes eff: "checkout_effect now oid uid cid key items db db'" and d: "distinct (map fst items)"
    and avail: "\<forall>line \<in> set items. line_available db line"
  shows "stock_of pid db' + sold pid db' = stock_of pid db + sold pid db"
proof -
  have e: "products db' = map (take_stock items) (products db)"
      "order_items db' = order_items db @ map (item_row oid \<circ> line_item db) items"
    using eff by (auto simp: checkout_effect_def)
  have s: "sold pid db' = sold pid db + (case map_of items pid of None \<Rightarrow> 0 | Some q \<Rightarrow> q)"
    using sold_lines [OF d, of pid oid db] by (simp add: sold_def e(2))
  show ?thesis
  proof (cases "find_product pid db")
    case None
    have "map_of items pid = None"
    proof (rule ccontr)
      assume "map_of items pid \<noteq> None"
      then obtain q where "(pid, q) \<in> set items" by (auto dest: map_of_SomeD)
      then show False using avail None by (auto simp: line_available_def find_product_def)
    qed
    then show ?thesis using None s by (simp add: stock_of_def find_product_take [OF e(1)])
  next
    case (Some p)
    then have "prow_id p = pid" by (auto simp: find_product_def dest: find_by_SomeD)
    then show ?thesis using Some s by (simp add: stock_of_def find_product_take [OF e(1)] take_stock_stock)
  qed
qed

lemma effect_nonneg:
  assumes eff: "checkout_effect now oid uid cid key items db db'" and t: "tables_ok db"
    and avail: "\<forall>line \<in> set items. line_available db line" and nn: "\<forall>p \<in> set (products db). 0 \<le> prow_stock p"
  shows "\<forall>p \<in> set (products db'). 0 \<le> prow_stock p"
proof
  fix p' assume "p' \<in> set (products db')"
  then obtain p where p: "p \<in> set (products db)" "p' = take_stock items p"
    using eff by (auto simp: checkout_effect_def)
  show "0 \<le> prow_stock p'"
  proof (cases "map_of items (prow_id p)")
    case None
    then show ?thesis using p nn by (simp add: take_stock_stock)
  next
    case (Some q)
    then have "line_available db (prow_id p, q)" using avail map_of_SomeD by fastforce
    moreover have "find_by prow_id (prow_id p) (products db) = Some p"
      using t p(1) by (intro find_by_distinct) (simp_all add: tables_ok_def)
    ultimately show ?thesis using p(2) Some by (simp add: take_stock_stock line_available_def)
  qed
qed

lemma effect_shop_ok:
  assumes eff: "checkout_effect now oid uid cid key items db db'" and ok: "shop_ok db"
    and avail: "\<forall>line \<in> set items. line_available db line"
  shows "shop_ok db'"
proof -
  have e: "products db' = map (take_stock items) (products db)" "carts db' = carts db"
      "cart_items db' = delete_where (\<lambda>i. cir_cart_id i = cid) (cart_items db)"
    using eff by (auto simp: checkout_effect_def)
  have its: "items_of_cart c db' = (if c = cid then [] else items_of_cart c db)" for c
    by (auto simp: items_of_cart_def e(3) delete_where_def filter_empty_conv intro: filter_cong)
  have "distinct (map fst ls) \<and> lines_subtotal db' ls < tax_bound"
    if "c \<in> set (carts db')" "ls = map (\<lambda>i. (cir_product_id i, cir_quantity i)) (items_of_cart (cr_id c) db')" for c ls
  proof (cases "cr_id c = cid")
    case True
    then show ?thesis using that by (simp add: its lines_subtotal_def items_value_def tax_bound_def)
  next
    case False
    then show ?thesis
      using ok that unfolding shop_ok_def its e(2) lines_subtotal_take [OF e(1)] by (simp add: Let_def)
  qed
  moreover have "\<forall>p \<in> set (products db'). 0 \<le> prow_stock p"
    using effect_nonneg [OF eff _ avail] ok by (simp add: shop_ok_def)
  moreover have "tables_ok db'" using effect_tables_ok [OF eff] ok by (simp add: shop_ok_def)
  ultimately show ?thesis by (simp add: shop_ok_def Let_def)
qed

subsection \<open>Any number of requests\<close>

definition alone_turn :: "(nat \<Rightarrow> attempt) \<Rightarrow> bool" where
  "alone_turn turn \<longleftrightarrow> (\<forall>n d. at_others (turn n) d = d)"

lemma base_alone: "alone_turn turn \<Longrightarrow> base turn k db = db"
proof -
  assume a: "alone_turn turn"
  have "foldl (\<lambda>d i. at_others (turn i) d) db ns = db" for ns
    using a by (induction ns) (simp_all add: alone_turn_def)
  then show ?thesis unfolding base_def others_def .
qed

lemma shop_ready_alone:
  assumes "shop_ok db" and "alone_turn turn"
  shows "checkout_ready turn uid db"
proof (cases "find_cart_of uid db")
  case None
  then show ?thesis
    using assms by (simp add: checkout_ready_def base_alone cart_lines_def shop_ok_def lines_subtotal_def items_value_def
        tax_bound_def)
next
  case (Some c)
  then have "c \<in> set (carts db)" by (auto simp: find_cart_of_def dest: find_by_SomeD)
  then show ?thesis
    using assms Some by (auto simp: checkout_ready_def base_alone cart_lines_def shop_ok_def Let_def)
qed

lemma serve_step:
  assumes "shop_ok db" and "alone_turn turn"
  shows "shop_ok (serve E flag db (turn, uid, input))"
    and "stock_of pid (serve E flag db (turn, uid, input)) + sold pid (serve E flag db (turn, uid, input))
      = stock_of pid db + sold pid db"
proof -
  obtain r db' where run: "checkout E flag turn uid input db = (r, db')" by force
  have ready: "checkout_ready turn uid db" by (rule shop_ready_alone [OF assms])
  have "shop_ok db' \<and> stock_of pid db' + sold pid db' = stock_of pid db + sold pid db"
    using checkout_outcome_holds [OF ready run] base_alone [OF assms(2)] effect_shop_ok effect_stock ready assms(1)
    unfolding checkout_outcome_def checkout_committed_def checkout_ready_def by metis
  then show "shop_ok (serve E flag db (turn, uid, input))"
      "stock_of pid (serve E flag db (turn, uid, input)) + sold pid (serve E flag db (turn, uid, input))
        = stock_of pid db + sold pid db"
    by (simp_all add: serve_def run)
qed

lemma serve_all:
  assumes "shop_ok db" and "\<forall>req \<in> set reqs. alone_turn (fst req)"
  shows "shop_ok (foldl (serve E flag) db reqs)
    \<and> stock_of pid (foldl (serve E flag) db reqs) + sold pid (foldl (serve E flag) db reqs) = stock_of pid db + sold pid db"
  using assms
proof (induction reqs arbitrary: db)
  case (Cons req reqs)
  obtain turn uid input where req: "req = (turn, uid, input)" by (cases req) auto
  then show ?case
    using Cons.IH [of "serve E flag db req"] Cons.prems serve_step [of db turn] by simp
qed simp

text \<open>C2: The shop neither loses nor oversells stock. Over any sequence of checkouts of any users, whatever fails,
  replays or is aborted on the way, the stock of a product plus the quantity of it in all orders stays
  the same, and no product's stock falls below zero.\<close>

theorem checkouts_conserve_stock:
  assumes "shop_ok db" and "\<forall>req \<in> set reqs. alone_turn (fst req)"
  shows "stock_of pid (foldl (serve E flag) db reqs) + sold pid (foldl (serve E flag) db reqs) = stock_of pid db + sold pid db
    \<and> (\<forall>p \<in> set (products (foldl (serve E flag) db reqs)). 0 \<le> prow_stock p)"
  using serve_all [OF assms] by (auto simp: shop_ok_def)

lemma shop_db_ok: "shop_ok shop_db"
  using shop_subtotal
  by (simp add: shop_ok_def tables_ok_def shop_db_def empty_db_def items_of_cart_def tea_row_def tax_bound_def)

theorem checkouts_conserve_stock_witness:
  "stock_of ''p1'' (serve sample_env True shop_db (shop_turn, ''u1'', shop_input))
    + sold ''p1'' (serve sample_env True shop_db (shop_turn, ''u1'', shop_input)) = 5"
  using checkouts_conserve_stock [OF shop_db_ok, of "[(shop_turn, ''u1'', shop_input)]" "''p1''" sample_env True]
  by (simp add: alone_turn_def stock_of_def sold_def find_product_def shop_db_def empty_db_def tea_row_def)

end
