(* ===== verification/Checkout_Quote.thy ===== *)
theory Checkout_Quote
  imports Checkout_Stock
begin

text \<open>
  The quote of a cart, \<^verbatim>\<open>CheckoutService.quote\<close>, against the order the same cart becomes: the customer is
  charged what was quoted.
\<close>

text \<open>A preview reads nothing but the discount table.\<close>

lemma take_usage_preview_fst: "fst (take_usage False d db1) = fst (take_usage False d db2)"
  by (simp add: take_usage_preview)

lemma preview_reads_discounts:
  assumes "discounts db1 = discounts db2"
  shows "fst (preview_pricing flag now m code db1) = fst (preview_pricing flag now m code db2)"
  using assms
  by (auto simp: preview_pricing_def price_def dbind_def dlift_def dret_def find_discount_by_code_def take_usage_preview
      split: sum.splits option.splits prod.splits if_splits)

lemma preview_pure: "preview_pricing flag now m code db = (r, db') \<Longrightarrow> db' = db"
  by (auto simp: preview_pricing_def price_def dbind_def dlift_def dret_def find_discount_by_code_def take_usage_preview
      split: sum.splits option.splits prod.splits if_splits)

lemma quote_line_exact:
  assumes i: "cart_view_item_of db row = Inr i" and q: "quote_line (vnd acc) i = Inr m"
    and b: "0 \<le> acc" "acc \<le> max_safe" "0 < cv_quantity i" "cv_quantity i \<le> max_safe"
  shows "\<exists>v. m = vnd v \<and> v = acc + items_value [line_item db (cv_product_id i, cv_quantity i)] \<and> 0 \<le> v \<and> v \<le> max_safe"
proof -
  obtain p where p: "find_product (cv_product_id i) db = Some p" "0 \<le> prow_price p" "prow_price p \<le> max_safe"
      "cv_price i = num_of_int (prow_price p)" "cv_product i = p"
    using i by (auto simp: cart_view_item_of_def rbind_Inr_iff money_column_Inr split: option.splits)
  let ?t = "prow_price p * cv_quantity i"
  have t: "0 \<le> ?t" using p b by simp
  have "rbind (money_multiply (vnd (prow_price p)) (num_of_int (cv_quantity i))) (\<lambda>t. money_add (vnd acc) t) = Inr m"
    using q p by (auto simp: quote_line_def vnd_def split: if_splits)
  then have "?t \<le> max_safe \<and> acc + ?t \<le> max_safe \<and> m = vnd (acc + ?t)"
    using p(2,3) b t by (auto split: if_splits)
  then show ?thesis using p(1) b t by (auto simp: items_value_def line_item_def)
qed

lemma quote_fold_exact:
  assumes "rmap (cart_view_item_of db) rows = Inr items" and "rfold quote_line (vnd acc) items = Inr m"
    and "0 \<le> acc" "acc \<le> max_safe" and "\<forall>i \<in> set items. 0 < cv_quantity i \<and> cv_quantity i \<le> max_safe"
  shows "m = vnd (acc + items_value (map (line_item db) (lines_of items)))"
  using assms
proof (induction rows arbitrary: items acc)
  case Nil
  then show ?case by (simp add: lines_of_def items_value_def)
next
  case (Cons row rows)
  obtain i "is" where i: "cart_view_item_of db row = Inr i" "rmap (cart_view_item_of db) rows = Inr is" "items = i # is"
    using Cons.prems(1) by (auto simp: rbind_Inr_iff)
  obtain m1 where m1: "quote_line (vnd acc) i = Inr m1" "rfold quote_line m1 is = Inr m"
    using Cons.prems(2) i(3) by (auto simp: rbind_Inr_iff)
  obtain v where v: "m1 = vnd v" "v = acc + items_value [line_item db (cv_product_id i, cv_quantity i)]" "0 \<le> v" "v \<le> max_safe"
    using quote_line_exact [OF i(1) m1(1)] Cons.prems i(3) by auto
  have "m = vnd (v + items_value (map (line_item db) (lines_of is)))"
    by (rule Cons.IH [OF i(2) m1(2) [unfolded v(1)] v(3,4)]) (use Cons.prems(5) i(3) in simp)
  then show ?case by (simp add: v(2) i(3) lines_of_def items_value_def)
qed

lemma quote_Inr:
  assumes q: "quote flag a uid code db = (Inr q, db')"
  obtains rows items sub p where "rmap (cart_view_item_of db) rows = Inr items" and "lines_of items = cart_lines uid db"
    and "rfold quote_line (vnd 0) items = Inr sub" and "preview_pricing flag (at_now a) sub code db = (Inr p, db)"
    and "db' = db" and "qt_subtotal q = sub" and "qt_tax q = pr_tax p" and "qt_shipping_fee q = pr_shipping_fee p"
    and "qt_discount_amount q = pr_discount_amount p" and "qt_discount_code q = pr_discount_code p"
    and "rbind (money_add sub (pr_tax p)) (\<lambda>t1. rbind (money_add t1 (pr_shipping_fee p)) (\<lambda>t2.
           money_subtract t2 (pr_discount_amount p))) = Inr (qt_total q)"
proof -
  obtain uc cid items where uc: "find_user_cart_for_checkout uid db = (Inr (Some uc), db)" "uc_cart uc = Some (cid, items)"
      and rest: "(if items = [] then dthrow (validation_error ''Cart is empty'')
         else dbind (dlift (rbind (new_money (Fin 0)) (\<lambda>zero. rfold quote_line zero items))) (\<lambda>subtotal.
              dbind (run_unit_of_work (at_aborts a) (preview_pricing flag (at_now a) subtotal code)) (\<lambda>p.
              dlift (rbind (money_add subtotal (pr_tax p)) (\<lambda>t1.
                rbind (money_add t1 (pr_shipping_fee p)) (\<lambda>t2.
                rbind (money_subtract t2 (pr_discount_amount p)) (\<lambda>t.
                Inr \<lparr>qt_subtotal = subtotal, qt_tax = pr_tax p, qt_shipping_fee = pr_shipping_fee p,
                     qt_discount_amount = pr_discount_amount p, qt_discount_code = pr_discount_code p,
                     qt_total = t\<rparr>))))))) db = (Inr q, db')"
    using q find_user_cart_Inr(1) unfolding quote_def
    by (fastforce simp: dthrow_def bind_eq_Some_conv split: option.splits elim!: dbind_Inr_E)
  have lines: "lines_of items = cart_lines uid db" using find_user_cart_Inr(3) uc by blast
  obtain c where "rmap (cart_view_item_of db) (items_of_cart c db) = Inr items"
    using uc by (auto simp: find_user_cart_for_checkout_def dret_def dlift_def rbind_Inr_iff split: option.splits)
  moreover obtain sub p db2 where sub: "rfold quote_line (vnd 0) items = Inr sub"
      and run: "run_unit_of_work (at_aborts a) (preview_pricing flag (at_now a) sub code) db = (Inr p, db2)"
      and fin: "dlift (rbind (money_add sub (pr_tax p)) (\<lambda>t1. rbind (money_add t1 (pr_shipping_fee p)) (\<lambda>t2.
          rbind (money_subtract t2 (pr_discount_amount p)) (\<lambda>t.
          Inr \<lparr>qt_subtotal = sub, qt_tax = pr_tax p, qt_shipping_fee = pr_shipping_fee p,
               qt_discount_amount = pr_discount_amount p, qt_discount_code = pr_discount_code p, qt_total = t\<rparr>)))) db2 = (Inr q, db')"
    using rest by (auto simp: dthrow_def dlift_def split: if_splits elim!: dbind_Inr_E)
  moreover have "preview_pricing flag (at_now a) sub code db = (Inr p, db2) \<and> db2 = db"
    using run preview_pure by (auto elim!: run_unit_of_work_cases)
  ultimately show thesis
    using lines by (intro that [of "items_of_cart c db" items sub p]) (auto simp: dlift_def rbind_Inr_iff)
qed

text \<open>C11: The customer is charged what was quoted: when a quote and the checkout transaction both succeed on the same
  database at the same time with the same discount code, the stored order has exactly the subtotal, tax,
  shipping fee, discount and total of the quote, and quoting changed nothing.\<close>

theorem quote_is_charged:
  assumes tables: "tables_ok db" and dist: "distinct (map fst (cart_lines uid db))"
    and bound: "lines_subtotal db (cart_lines uid db) < tax_bound"
    and qty: "\<forall>line \<in> set (cart_lines uid db). snd line \<le> max_safe"
    and q: "quote flag aq uid (ci_discount_code input) db = (Inr q, db1)" and now: "at_now aq = at_now a"
    and run: "place_order E flag u cid (cart_lines uid db) input a db = (Inr ord, db')"
  shows "db1 = db \<and> (\<exists>row. orders db' = orders db @ [row] \<and> or_subtotal row = m_amount (qt_subtotal q)
    \<and> or_tax row = m_amount (qt_tax q) \<and> or_shipping_fee row = m_amount (qt_shipping_fee q)
    \<and> or_discount_amount row = m_amount (qt_discount_amount q) \<and> or_discount_code row = qt_discount_code q
    \<and> or_total row = m_amount (qt_total q))"
proof -
  let ?items = "cart_lines uid db" and ?s = "lines_subtotal db (cart_lines uid db)"
  have d: "distinct (map prow_id (products db))" "distinct (map dc_id (discounts db))"
    using tables by (simp_all add: tables_ok_def)
  obtain rows r pricing placed tot ds row where t: "\<forall>line \<in> set ?items. line_available db line"
    "0 \<le> ?s"
    "calculate_pricing flag (at_now a) (vnd ?s) (ci_discount_code input) (reserved_db ?items rows db)
      = (Inr pricing, (reserved_db ?items rows db)\<lparr>discounts := ds\<rparr>)"
    "order_ok placed" "o_items placed = map (line_item db) ?items"
    "o_tax placed = pr_tax pricing" "o_shipping_fee placed = pr_shipping_fee pricing"
    "o_discount_amount placed = pr_discount_amount pricing" "o_discount_code placed = pr_discount_code pricing"
    "order_total placed = Inr tot"
    "row = order_row_of (at_now a) placed (vnd ?s) tot (ci_idempotency_key input)"
    "db' = final_db (at_order_id a) cid ?items row ds (rows @ [r]) db"
    by (rule place_order_trace [OF d dist bound run])
  have rd: "distinct (map dc_id (discounts (reserved_db ?items rows db)))" using d by (simp add: reserved_db_def)
  have "preview_pricing flag (at_now a) (vnd ?s) (ci_discount_code input) (reserved_db ?items rows db)
      = (Inr pricing, reserved_db ?items rows db)"
    using preview_agrees [OF t(2) bound rd] t(3) by simp
  then have pv: "fst (preview_pricing flag (at_now a) (vnd ?s) (ci_discount_code input) db) = Inr pricing"
    using preview_reads_discounts [of db "reserved_db ?items rows db"] by (simp add: reserved_db_def)
  obtain crows items sub p where c: "rmap (cart_view_item_of db) crows = Inr items" "lines_of items = ?items"
      "rfold quote_line (vnd 0) items = Inr sub" "preview_pricing flag (at_now a) sub (ci_discount_code input) db = (Inr p, db)"
      "db1 = db" "qt_subtotal q = sub" "qt_tax q = pr_tax p" "qt_shipping_fee q = pr_shipping_fee p"
      "qt_discount_amount q = pr_discount_amount p" "qt_discount_code q = pr_discount_code p"
      "rbind (money_add sub (pr_tax p)) (\<lambda>t1. rbind (money_add t1 (pr_shipping_fee p)) (\<lambda>t2.
         money_subtract t2 (pr_discount_amount p))) = Inr (qt_total q)"
    by (rule quote_Inr [OF q, unfolded now])
  have "\<forall>i \<in> set items. 0 < cv_quantity i \<and> cv_quantity i \<le> max_safe"
  proof
    fix i assume "i \<in> set items"
    then have "(cv_product_id i, cv_quantity i) \<in> set ?items" unfolding c(2) [symmetric] lines_of_def by auto
    then show "0 < cv_quantity i \<and> cv_quantity i \<le> max_safe"
      using t(1) qty by (fastforce simp: line_available_def split: option.splits)
  qed
  then have sub: "sub = vnd ?s"
    using quote_fold_exact [OF c(1,3)] c(2) by (simp add: lines_subtotal_def max_safe_def)
  then have p: "p = pricing" using pv c(4) by simp
  have "order_subtotal placed = Inr (vnd ?s)"
    using order_subtotal_exact [OF t(4)] bound t(5) by (simp add: lines_subtotal_def tax_bound_def max_safe_def)
  then have "order_total placed = Inr (qt_total q)"
    using c(11) t(6-8,10) by (auto simp: order_total_def sub p rbind_Inr_iff split: if_splits)
  then show ?thesis
    using c(5-10) t by (auto simp: final_db_def order_row_of_def sub p)
qed

definition shop_quote :: quote_result where
  "shop_quote = \<lparr>qt_subtotal = vnd 200000, qt_tax = vnd 20000, qt_shipping_fee = vnd 30000, qt_discount_amount = vnd 0,
     qt_discount_code = None, qt_total = vnd 250000\<rparr>"

lemma shop_quoted: "quote True shop_attempt ''u1'' None shop_db = (Inr shop_quote, shop_db)"
proof -
  have cart: "find_user_cart_for_checkout ''u1'' shop_db = (Inr (Some \<lparr>uc_user = hd (users shop_db),
      uc_cart = Some (''c1'', [\<lparr>cv_product_id = ''p1'', cv_quantity = 2, cv_product = tea_row, cv_price = num_of_int 100000\<rparr>])\<rparr>), shop_db)"
    by (simp add: find_user_cart_for_checkout_def find_user_def find_cart_of_def items_of_cart_def cart_view_item_of_def find_product_def
        shop_db_def empty_db_def tea_row_def money_column_eq max_safe_def dlift_def)
  have "preview_pricing True 9 (vnd 200000) None shop_db = (Inr (priced 200000 (vnd 0) None), shop_db)"
    by (simp add: preview_pricing_def price_eq tax_bound_def dret_def)
  then show ?thesis
    by (simp add: quote_def dbind_def cart quote_line_def tea_row_def dlift_def run_unit_of_work_def transaction_def
        shop_attempt_def max_safe_def priced_def tax_of_def shipping_of_def FREE_SHIPPING_THRESHOLD_def SHIPPING_FEE_def
        shop_quote_def vnd_def [symmetric])
qed

theorem quote_is_charged_witness:
  "\<exists>ord db' row. place_order sample_env True (hd (users shop_db)) ''c1'' [(''p1'', 2)] shop_input shop_attempt shop_db
      = (Inr ord, db') \<and> orders db' = [row] \<and> or_total row = 250000"
proof -
  have at: "at_now shop_attempt = at_now (shop_turn 0)" "shop_turn 0 = shop_attempt\<lparr>at_aborts := True\<rparr>"
    by (simp_all add: shop_attempt_def shop_turn_def)
  have pl: "placeable (hd (users shop_db)) [(''p1'', 2)] shop_input shop_attempt shop_db"
    using shop_placeable [of 0] unfolding placeable_def at by (simp add: order_props_of_def)
  obtain ord db' where run: "place_order sample_env True (hd (users shop_db)) ''c1'' [(''p1'', 2)] shop_input shop_attempt shop_db
      = (Inr ord, db')"
    using place_order_ok [OF pl] by blast
  have hyps: "tables_ok shop_db" "ci_discount_code shop_input = None" "orders shop_db = []"
    using shop_db_ok by (simp_all add: shop_ok_def shop_input_def shop_db_def empty_db_def)
  show ?thesis
    using quote_is_charged [of shop_db "''u1''" True shop_attempt shop_input shop_quote shop_db shop_attempt sample_env
        "hd (users shop_db)" "''c1''" ord db'] run shop_quoted hyps
    by (auto simp: shop_cart shop_subtotal tax_bound_def max_safe_def shop_quote_def)
qed

end
