(* ===== verification/Auth_Repository.thy ===== *)
theory Auth_Repository
  imports Checkout_Quote
begin

text \<open>
  The tables behind authentication: \<^verbatim>\<open>modules/auth/infrastructure/repositories/prisma-auth.repository.ts\<close>.
  \<open>hash\<close> is the SHA-256 digest under which a refresh token is stored; \<open>gen\<close> generates identifiers from the
  database's counter. \<open>intf n\<close> is what other connections commit before the statement numbered \<open>n\<close> of an
  operation that is not serializable.
\<close>

subsection \<open>Users\<close>

definition find_user_by_email :: "string \<Rightarrow> database \<Rightarrow> user_row option" where
  "find_user_by_email email db = find_by ur_email email (users db)"

record session_user =
  su_id :: ident
  su_email :: string
  su_role :: role
  su_is_verified :: bool

definition find_session_user :: "ident \<Rightarrow> database \<Rightarrow> session_user option" where
  "find_session_user i db = map_option (\<lambda>u. \<lparr>su_id = ur_id u, su_email = ur_email u, su_role = ur_role u,
     su_is_verified = ur_is_verified u\<rparr>) (find_user i db)"

record create_user_data =
  cu_email :: string
  cu_password :: "string option"
  cu_first_name :: string
  cu_last_name :: string
  cu_phone :: "string option"

text \<open>\<open>insert_user\<close> creates the user row with its empty cart, and the linked account when there is one; a
  violated unique constraint on the email or on the provider's subject fails.\<close>

definition insert_user ::
    "env \<Rightarrow> millis \<Rightarrow> create_user_data \<Rightarrow> bool \<Rightarrow> (oauth_provider \<times> string \<times> string \<times> bool) option \<Rightarrow> user_row db_op" where
  "insert_user E now d verified link db =
     (let uid = gen_id E (id_supply db);
          u = \<lparr>ur_id = uid, ur_email = cu_email d, ur_password = cu_password d, ur_first_name = cu_first_name d,
               ur_last_name = cu_last_name d, ur_phone = cu_phone d, ur_role = USER, ur_is_verified = verified,
               ur_is_2fa_enabled = False, ur_totp_secret = None, ur_created_at = now\<rparr>
      in if list_ex (\<lambda>r. ur_email r = cu_email d) (users db)
           \<or> (case link of None \<Rightarrow> False
              | Some (p, s, _, _) \<Rightarrow> list_ex (\<lambda>a. oa_provider a = p \<and> oa_provider_subject a = s) (oauth_accounts db))
         then (Inl unique_violation, db)
         else (Inr u, db\<lparr>users := users db @ [u],
                carts := carts db @ [\<lparr>cr_id = gen_id E (id_supply db + 1), cr_user_id = uid\<rparr>],
                oauth_accounts := oauth_accounts db @ (case link of None \<Rightarrow> [] | Some (p, s, m, v) \<Rightarrow>
                  [\<lparr>oa_user_id = uid, oa_provider = p, oa_provider_subject = s, oa_provider_email = m,
                    oa_provider_email_verified = v\<rparr>]),
                id_supply := id_supply db + 2\<rparr>))"

definition create_with_event ::
    "env \<Rightarrow> millis \<Rightarrow> create_user_data \<Rightarrow> bool \<Rightarrow> (oauth_provider \<times> string \<times> string \<times> bool) option \<Rightarrow> user_row db_op" where
  "create_with_event E now d verified link =
     transaction (dbind (insert_user E now d verified link) (\<lambda>u.
       dbind (persist_events E [user_registered_event now (ur_id u) (ur_email u)] (\<lambda>_. None)) (\<lambda>_. dret u)))"

definition create_user :: "env \<Rightarrow> millis \<Rightarrow> create_user_data \<Rightarrow> user_row db_op" where
  "create_user E now d = create_with_event E now d False None"

definition create_oauth_user :: "env \<Rightarrow> millis \<Rightarrow> create_user_data \<Rightarrow> user_row db_op" where
  "create_oauth_user E now d = create_with_event E now d True None"

definition update_user :: "ident \<Rightarrow> (user_row \<Rightarrow> user_row) \<Rightarrow> user_row db_op" where
  "update_user i f db =
     (case find_user i db of
        None \<Rightarrow> (Inl record_not_found, db)
      | Some u \<Rightarrow> (Inr (f u), db\<lparr>users := update_by ur_id i f (users db)\<rparr>))"

subsection \<open>Linked accounts\<close>

record oauth_identity =
  id_provider :: oauth_provider
  id_subject :: string
  id_email :: string
  id_email_verified :: bool
  id_first_name :: string
  id_last_name :: string

record oauth_resolution =
  rs_user :: user_row
  rs_created :: bool

definition find_linked :: "oauth_identity \<Rightarrow> user_row option db_op" where
  "find_linked d db =
     (case find (\<lambda>a. oa_provider a = id_provider d \<and> oa_provider_subject a = id_subject d) (oauth_accounts db) of
        None \<Rightarrow> (Inr None, db)
      | Some a \<Rightarrow> (case find_user (oa_user_id a) db of
            None \<Rightarrow> (Inl (PlainError ''Inconsistent query result''), db)
          | Some u \<Rightarrow> (Inr (Some u), db)))"

definition link_account :: "oauth_identity \<Rightarrow> ident \<Rightarrow> unit db_op" where
  "link_account d uid db =
     (if list_ex (\<lambda>a. oa_provider a = id_provider d \<and> oa_provider_subject a = id_subject d) (oauth_accounts db)
      then (Inl unique_violation, db)
      else (Inr (), db\<lparr>oauth_accounts := oauth_accounts db @
             [\<lparr>oa_user_id = uid, oa_provider = id_provider d, oa_provider_subject = id_subject d,
               oa_provider_email = id_email d, oa_provider_email_verified = True\<rparr>]\<rparr>))"

definition identity_data :: "oauth_identity \<Rightarrow> create_user_data" where
  "identity_data d = \<lparr>cu_email = id_email d, cu_password = None, cu_first_name = id_first_name d,
     cu_last_name = id_last_name d, cu_phone = None\<rparr>"

text \<open>The transaction writes in its last statements only, so a failure undoes nothing of the others.\<close>

definition resolve_tx ::
    "env \<Rightarrow> millis \<Rightarrow> (nat \<Rightarrow> database \<Rightarrow> database) \<Rightarrow> oauth_identity \<Rightarrow> oauth_resolution db_op" where
  "resolve_tx E now intf d =
     dbind (find_linked d) (\<lambda>linked.
     case linked of
       Some u \<Rightarrow> dret \<lparr>rs_user = u, rs_created = False\<rparr>
     | None \<Rightarrow>
         dbind (dupdate (intf 0)) (\<lambda>_.
         dbind (dget (find_user_by_email (id_email d))) (\<lambda>existing.
         dbind (dupdate (intf 1)) (\<lambda>_.
         case existing of
           Some u \<Rightarrow>
             if \<not> id_email_verified d then dthrow OAuthIdentityUntrustedError
             else dbind (link_account d (ur_id u)) (\<lambda>_. dret \<lparr>rs_user = u, rs_created = False\<rparr>)
         | None \<Rightarrow>
             dbind (create_with_event E now (identity_data d) (id_email_verified d)
                      (Some (id_provider d, id_subject d, id_email d, id_email_verified d))) (\<lambda>u.
             dret \<lparr>rs_user = u, rs_created = True\<rparr>)))))"

definition resolve_raced :: "(nat \<Rightarrow> database \<Rightarrow> database) \<Rightarrow> oauth_identity \<Rightarrow> error \<Rightarrow> oauth_resolution db_op" where
  "resolve_raced intf d e =
     dbind (dupdate (intf 2)) (\<lambda>_.
     dbind (find_linked d) (\<lambda>linked.
     case linked of
       Some u \<Rightarrow> dret \<lparr>rs_user = u, rs_created = False\<rparr>
     | None \<Rightarrow>
         dbind (dupdate (intf 3)) (\<lambda>_.
         dbind (dget (find_user_by_email (id_email d))) (\<lambda>existing.
         case existing of
           Some u \<Rightarrow>
             if id_email_verified d
             then dbind (dupdate (intf 4)) (\<lambda>_.
                  dcatch (dbind (link_account d (ur_id u)) (\<lambda>_. dret \<lparr>rs_user = u, rs_created = False\<rparr>))
                    (\<lambda>retry_error.
                      if retry_error = unique_violation
                      then dbind (dupdate (intf 5)) (\<lambda>_.
                           dbind (find_linked d) (\<lambda>raced.
                           case raced of
                             Some u' \<Rightarrow> dret \<lparr>rs_user = u', rs_created = False\<rparr>
                           | None \<Rightarrow> dthrow retry_error))
                      else dthrow retry_error))
             else dthrow e
         | None \<Rightarrow> dthrow e))))"

definition resolve_oauth_identity ::
    "env \<Rightarrow> millis \<Rightarrow> (nat \<Rightarrow> database \<Rightarrow> database) \<Rightarrow> oauth_identity \<Rightarrow> oauth_resolution db_op" where
  "resolve_oauth_identity E now intf d =
     dcatch (resolve_tx E now intf d)
       (\<lambda>e. if e \<noteq> unique_violation then dthrow e else resolve_raced intf d e)"

subsection \<open>Refresh tokens\<close>

definition find_refresh_token_with_user ::
    "(string \<Rightarrow> string) \<Rightarrow> string \<Rightarrow> (refresh_token_row \<times> user_row) option db_op" where
  "find_refresh_token_with_user hash token db =
     (case find_by rtk_token (hash token) (refresh_tokens db) of
        None \<Rightarrow> (Inr None, db)
      | Some r \<Rightarrow> (case find_user (rtk_user_id r) db of
            None \<Rightarrow> (Inl (PlainError ''Inconsistent query result''), db)
          | Some u \<Rightarrow> (Inr (Some (r, u)), db)))"

definition delete_refresh_token_by_id :: "ident \<Rightarrow> unit db_op" where
  "delete_refresh_token_by_id i db =
     (if list_ex (\<lambda>r. rtk_id r = i) (refresh_tokens db)
      then (Inr (), db\<lparr>refresh_tokens := delete_where (\<lambda>r. rtk_id r = i) (refresh_tokens db)\<rparr>)
      else (Inl record_not_found, db))"

definition delete_refresh_token_by_token :: "(string \<Rightarrow> string) \<Rightarrow> string \<Rightarrow> unit db_op" where
  "delete_refresh_token_by_token hash token =
     dupdate (\<lambda>db. db\<lparr>refresh_tokens := delete_where (\<lambda>r. rtk_token r = hash token) (refresh_tokens db)\<rparr>)"

definition delete_refresh_tokens_by_user_id :: "ident \<Rightarrow> unit db_op" where
  "delete_refresh_tokens_by_user_id uid =
     dupdate (\<lambda>db. db\<lparr>refresh_tokens := delete_where (\<lambda>r. rtk_user_id r = uid) (refresh_tokens db)\<rparr>)"

definition insert_refresh_token ::
    "env \<Rightarrow> millis \<Rightarrow> string \<Rightarrow> ident \<Rightarrow> ident \<Rightarrow> millis \<Rightarrow> refresh_token_row db_op" where
  "insert_refresh_token E now digest uid family expires db =
     (let r = \<lparr>rtk_id = gen_id E (id_supply db), rtk_token = digest, rtk_family_id = family, rtk_user_id = uid,
               rtk_expires_at = expires, rtk_revoked_at = None, rtk_created_at = now\<rparr>
      in if list_ex (\<lambda>x. rtk_token x = digest) (refresh_tokens db) then (Inl unique_violation, db)
         else (Inr r, db\<lparr>refresh_tokens := refresh_tokens db @ [r], id_supply := id_supply db + 1\<rparr>))"

definition create_refresh_token ::
    "env \<Rightarrow> (string \<Rightarrow> string) \<Rightarrow> millis \<Rightarrow> string \<Rightarrow> ident \<Rightarrow> ident \<Rightarrow> millis \<Rightarrow> refresh_token_row db_op" where
  "create_refresh_token E hash now token uid family expires =
     insert_refresh_token E now (hash token) uid family expires"

definition find_refresh_token_by_token :: "(string \<Rightarrow> string) \<Rightarrow> string \<Rightarrow> database \<Rightarrow> refresh_token_row option" where
  "find_refresh_token_by_token hash token db = find_by rtk_token (hash token) (refresh_tokens db)"

definition find_refresh_token_by_family_and_token ::
    "(string \<Rightarrow> string) \<Rightarrow> ident \<Rightarrow> string \<Rightarrow> database \<Rightarrow> refresh_token_row option" where
  "find_refresh_token_by_family_and_token hash family token db =
     find (\<lambda>r. rtk_family_id r = family \<and> rtk_token r = hash token) (refresh_tokens db)"

text \<open>The newest row of a selection, as \<^verbatim>\<open>findFirst\<close> with \<^verbatim>\<open>orderBy: { createdAt: "desc" }\<close> gives it.\<close>

definition newest :: "(refresh_token_row \<Rightarrow> bool) \<Rightarrow> refresh_token_row list \<Rightarrow> refresh_token_row option" where
  "newest p rs = (case sort_key (\<lambda>r. - rtk_created_at r) (filter p rs) of [] \<Rightarrow> None | r # _ \<Rightarrow> Some r)"

definition find_refresh_token_by_family :: "ident \<Rightarrow> ident \<Rightarrow> database \<Rightarrow> refresh_token_row option" where
  "find_refresh_token_by_family family uid db =
     newest (\<lambda>r. rtk_family_id r = family \<and> rtk_user_id r = uid) (refresh_tokens db)"

definition find_active_refresh_token_by_family :: "millis \<Rightarrow> ident \<Rightarrow> database \<Rightarrow> refresh_token_row option" where
  "find_active_refresh_token_by_family now family db =
     newest (\<lambda>r. rtk_family_id r = family \<and> rtk_revoked_at r = None \<and> now < rtk_expires_at r) (refresh_tokens db)"

definition revoke_refresh_token :: "millis \<Rightarrow> ident \<Rightarrow> bool db_op" where
  "revoke_refresh_token now i db =
     (let p = (\<lambda>r. rtk_id r = i \<and> rtk_revoked_at r = None)
      in (Inr (count_where p (refresh_tokens db) = 1),
          db\<lparr>refresh_tokens := update_where p (\<lambda>r. r\<lparr>rtk_revoked_at := Some now\<rparr>) (refresh_tokens db)\<rparr>))"

definition rotate_refresh_token ::
    "env \<Rightarrow> (string \<Rightarrow> string) \<Rightarrow> millis \<Rightarrow> ident \<Rightarrow> string \<Rightarrow> ident \<Rightarrow> ident \<Rightarrow> millis \<Rightarrow> bool db_op" where
  "rotate_refresh_token E hash now current token uid family expires =
     transaction (dbind (revoke_refresh_token now current) (\<lambda>revoked.
       if \<not> revoked then dret False
       else dbind (insert_refresh_token E now (hash token) uid family expires) (\<lambda>_. dret True)))"

definition revoke_all_tokens_in_family :: "millis \<Rightarrow> ident \<Rightarrow> unit db_op" where
  "revoke_all_tokens_in_family now family =
     dupdate (\<lambda>db. db\<lparr>refresh_tokens :=
       update_where (\<lambda>r. rtk_family_id r = family) (\<lambda>r. r\<lparr>rtk_revoked_at := Some now\<rparr>) (refresh_tokens db)\<rparr>)"

subsection \<open>Linked accounts are not taken over\<close>

text \<open>\<open>linked_to d u db\<close>: the database links the identity to the user.\<close>

definition linked_to :: "oauth_identity \<Rightarrow> user_row \<Rightarrow> database \<Rightarrow> bool" where
  "linked_to d u db \<longleftrightarrow> (\<exists>a \<in> set (oauth_accounts db). oa_provider a = id_provider d
     \<and> oa_provider_subject a = id_subject d \<and> oa_user_id a = ur_id u)"

lemma find_linked_Some: "find_linked d db = (Inr (Some u), db') \<Longrightarrow> linked_to d u db \<and> db' = db"
  by (auto simp: find_linked_def linked_to_def find_Some_iff find_user_def split: option.splits dest!: find_by_SomeD)

lemma find_linked_same: "find_linked d db = (r, db') \<Longrightarrow> db' = db"
  by (auto simp: find_linked_def split: option.splits)

lemma link_account_linked: "link_account d (ur_id u) db = (Inr x, db') \<Longrightarrow> linked_to d u db'"
  by (auto simp: link_account_def linked_to_def split: if_splits)

lemma create_link_linked:
  assumes "create_with_event E now (identity_data d) v (Some (id_provider d, id_subject d, m, w)) db = (Inr u, db')"
  shows "linked_to d u db' \<and> ur_is_verified u = v"
  using assms
  by (auto simp: create_with_event_def transaction_Inr_iff insert_user_def identity_data_def linked_to_def Let_def
      persist_events_def dupdate_def dret_def list_ex_iff split: if_splits elim!: dbind_Inr_E)

text \<open>\<open>entitled\<close>: why a resolution may return a user.\<close>

definition entitled :: "oauth_identity \<Rightarrow> oauth_resolution \<Rightarrow> database \<Rightarrow> bool" where
  "entitled d res db \<longleftrightarrow> linked_to d (rs_user res) db
     \<and> (rs_created res \<longrightarrow> ur_is_verified (rs_user res) = id_email_verified d)"

lemma resolve_tx_entitled: "resolve_tx E now intf d db = (Inr res, db') \<Longrightarrow> entitled d res db'"
  unfolding resolve_tx_def entitled_def
  by (auto simp: dret_def dupdate_def dget_def dthrow_def split: option.splits if_splits elim!: dbind_Inr_E
      dest!: link_account_linked create_link_linked find_linked_Some)

lemma resolve_raced_entitled: "resolve_raced intf d e db = (Inr res, db') \<Longrightarrow> entitled d res db'"
  unfolding resolve_raced_def entitled_def
  by (auto simp: dret_def dupdate_def dget_def dthrow_def dcatch_def split: option.splits if_splits sum.splits prod.splits
      elim!: dbind_Inr_E dest!: link_account_linked find_linked_Some)

lemma resolve_entitled: "resolve_oauth_identity E now intf d db = (Inr res, db') \<Longrightarrow> entitled d res db'"
  unfolding resolve_oauth_identity_def
  by (auto simp: dcatch_def dthrow_def split: sum.splits prod.splits if_splits
      dest: resolve_tx_entitled resolve_raced_entitled)

lemma insert_user_created:
  assumes "create_with_event E now (identity_data d) v link db = (Inr u, db')"
  shows "\<not> list_ex (\<lambda>r. ur_email r = id_email d) (users db)"
  using assms by (auto simp: create_with_event_def transaction_Inr_iff insert_user_def identity_data_def Let_def
      elim!: dbind_Inr_E split: if_splits)

lemma find_user_by_email_Some:
  "find_user_by_email m db = Some u \<Longrightarrow> u \<in> set (users db) \<and> ur_email u = m"
  by (auto simp: find_user_by_email_def dest: find_by_SomeD)

text \<open>Without interference: what entitles a login to the user it gets.\<close>

definition entitled_alone :: "oauth_identity \<Rightarrow> oauth_resolution \<Rightarrow> database \<Rightarrow> bool" where
  "entitled_alone d res db \<longleftrightarrow>
     (if rs_created res
      then (\<forall>u \<in> set (users db). ur_email u \<noteq> id_email d) \<and> ur_is_verified (rs_user res) = id_email_verified d
      else linked_to d (rs_user res) db
           \<or> (id_email_verified d \<and> rs_user res \<in> set (users db) \<and> ur_email (rs_user res) = id_email d))"

lemma find_linked_None: "find_linked d db = (Inr None, db') \<Longrightarrow> db' = db"
  by (rule find_linked_same)

lemma create_link_fresh:
  assumes "create_with_event E now (identity_data d) v (Some (id_provider d, id_subject d, m, w)) db = (Inr u, db')"
  shows "ur_is_verified u = v \<and> (\<forall>r \<in> set (users db). ur_email r \<noteq> id_email d)"
  using create_link_linked [OF assms] insert_user_created [OF assms] by (auto simp: list_ex_iff)

lemma resolve_tx_alone:
  "resolve_tx E now (\<lambda>_. id) d db = (Inr res, db') \<Longrightarrow> entitled_alone d res db"
  unfolding resolve_tx_def entitled_alone_def
  by (auto simp: dret_def dupdate_def dget_def dthrow_def split: option.splits if_splits elim!: dbind_Inr_E
      dest!: create_link_fresh find_linked_Some find_linked_None find_user_by_email_Some)

lemma link_failed: "dbind (link_account d i) (\<lambda>_. dret x) db = (Inl e, db') \<Longrightarrow> db' = db"
  by (auto simp: dbind_def link_account_def dret_def split: if_splits)

lemma create_failed: "create_with_event E now c v link db = (Inl e, db') \<Longrightarrow> db' = db"
  by (auto simp: create_with_event_def transaction_Inl_iff)

lemma resolve_tx_failed:
  "resolve_tx E now (\<lambda>_. id) d db = (Inl e, db') \<Longrightarrow> db' = db"
  unfolding resolve_tx_def
  by (auto simp: dret_def dupdate_def dget_def dthrow_def split: option.splits if_splits elim!: dbind_cases
      dest!: create_failed find_linked_same link_failed
      dest: link_failed [unfolded dbind_def] simp: link_account_def)

lemma resolve_raced_alone:
  "resolve_raced (\<lambda>_. id) d e db = (Inr res, db') \<Longrightarrow> entitled_alone d res db"
  unfolding resolve_raced_def entitled_alone_def
  by (auto simp: dret_def dupdate_def dget_def dthrow_def dcatch_def link_account_def
      split: option.splits if_splits sum.splits prod.splits elim!: dbind_Inr_E
      dest!: find_linked_Some find_linked_None find_user_by_email_Some link_failed)

lemma resolve_alone:
  "resolve_oauth_identity E now (\<lambda>_. id) d db = (Inr res, db') \<Longrightarrow> entitled_alone d res db \<and> entitled d res db'"
  using resolve_entitled [of E now "\<lambda>_. id" d db res db']
  unfolding resolve_oauth_identity_def
  by (auto simp: dcatch_def dthrow_def split: sum.splits prod.splits if_splits
      dest: resolve_tx_alone resolve_raced_alone resolve_tx_failed)


definition google_login :: oauth_identity where
  "google_login = \<lparr>id_provider = GOOGLE, id_subject = ''108'', id_email = ''ann@example.org'', id_email_verified = True,
     id_first_name = ''Ann'', id_last_name = ''Lee''\<rparr>"


end
