(* ===== verification/Token_Store.thy ===== *)
theory Token_Store
  imports Auth_Repository
begin

text \<open>
  The key-value store behind authentication: \<^verbatim>\<open>modules/auth/infrastructure/token-store/redis-token-store.ts\<close>
  on the Redis commands it sends, and the single-use OAuth state kept in it,
  \<^verbatim>\<open>redis-oauth-state-store.ts\<close>. The interface \<^verbatim>\<open>TokenStorePort\<close> is the locale \<open>token_store\<close>; the client's
  lemmas are proved in it once.
\<close>

subsection \<open>Redis\<close>

text \<open>
  An entry is a value with the instant it expires at. A command may be served, be refused, or be served with
  its reply lost; the caller sees the last two as the same error. \<open>rd_fate n\<close> says which, for the command
  numbered \<open>n\<close>.
\<close>

datatype call_fate = Served | Refused | Reply_lost

type_synonym entries = "string \<Rightarrow> (string \<times> millis) option"

record redis =
  rd_entries :: entries
  rd_fate :: "nat \<Rightarrow> call_fate"
  rd_calls :: nat

definition redis_unavailable :: error where
  "redis_unavailable = PlainError ''Connection is closed.''"

definition not_an_integer :: error where
  "not_an_integer = PlainError ''ERR value is not an integer or out of range''"

definition redis_call :: "(entries \<Rightarrow> (error + 'a) \<times> entries) \<Rightarrow> (redis, 'a) st_op" where
  "redis_call cmd rd =
     (let rd1 = rd\<lparr>rd_calls := Suc (rd_calls rd)\<rparr>; (r, es) = cmd (rd_entries rd)
      in case rd_fate rd (rd_calls rd) of
           Served \<Rightarrow> (r, rd1\<lparr>rd_entries := es\<rparr>)
         | Refused \<Rightarrow> (Inl redis_unavailable, rd1)
         | Reply_lost \<Rightarrow> (Inl redis_unavailable, rd1\<lparr>rd_entries := es\<rparr>))"

definition live :: "millis \<Rightarrow> entries \<Rightarrow> string \<Rightarrow> string option" where
  "live now es k = (case es k of Some (v, t) \<Rightarrow> if now < t then Some v else None | None \<Rightarrow> None)"

definition expiry_ok :: "js_num \<Rightarrow> bool" where
  "expiry_ok secs \<longleftrightarrow> is_safe_integer secs \<and> 0 < int_of_num secs"

definition with_expiry :: "millis \<Rightarrow> string \<Rightarrow> string \<Rightarrow> js_num \<Rightarrow> entries \<Rightarrow> entries" where
  "with_expiry now k v secs es = es(k \<mapsto> (v, now + 1000 * int_of_num secs))"

subsection \<open>RedisTokenStore\<close>

definition rts_get :: "millis \<Rightarrow> string \<Rightarrow> (redis, string option) st_op" where
  "rts_get now k = redis_call (\<lambda>es. (Inr (live now es k), es))"

definition rts_set :: "millis \<Rightarrow> string \<Rightarrow> string \<Rightarrow> js_num \<Rightarrow> (redis, unit) st_op" where
  "rts_set now k v secs =
     redis_call (\<lambda>es. if expiry_ok secs then (Inr (), with_expiry now k v secs es) else (Inl not_an_integer, es))"

definition rts_delete :: "string \<Rightarrow> (redis, unit) st_op" where
  "rts_delete k = redis_call (\<lambda>es. (Inr (), es(k := None)))"

definition rts_get_and_delete :: "millis \<Rightarrow> string \<Rightarrow> (redis, string option) st_op" where
  "rts_get_and_delete now k =
     redis_call (\<lambda>es. case live now es k of
        Some v \<Rightarrow> (Inr (Some v), es(k := None))
      | None \<Rightarrow> (Inr None, es))"

definition rts_set_if_absent :: "millis \<Rightarrow> string \<Rightarrow> string \<Rightarrow> js_num \<Rightarrow> (redis, bool) st_op" where
  "rts_set_if_absent now k v secs =
     redis_call (\<lambda>es. if \<not> expiry_ok secs then (Inl not_an_integer, es)
        else if live now es k = None then (Inr True, with_expiry now k v secs es)
        else (Inr False, es))"

subsection \<open>The interface\<close>

text \<open>
  \<open>view t s k\<close> is the value a reader at the instant \<open>t\<close> finds under \<open>k\<close>. The laws of the operations that returned
  say what they did; the others hold whether or not the call failed.
\<close>

locale token_store =
  fixes get :: "millis \<Rightarrow> string \<Rightarrow> ('s, string option) st_op"
    and put :: "millis \<Rightarrow> string \<Rightarrow> string \<Rightarrow> js_num \<Rightarrow> ('s, unit) st_op"
    and remove :: "string \<Rightarrow> ('s, unit) st_op"
    and take_out :: "millis \<Rightarrow> string \<Rightarrow> ('s, string option) st_op"
    and put_new :: "millis \<Rightarrow> string \<Rightarrow> string \<Rightarrow> js_num \<Rightarrow> ('s, bool) st_op"
    and view :: "millis \<Rightarrow> 's \<Rightarrow> string \<Rightarrow> string option"
  assumes get_ok: "get now k s = (Inr r, s') \<Longrightarrow> r = view now s k"
    and get_view: "get now k s = (x, s') \<Longrightarrow> view t s' = view t s"
    and put_ok: "put now k v secs s = (Inr u, s') \<Longrightarrow> 0 < int_of_num secs \<and>
      (\<forall>t. view t s' k = (if t < now + 1000 * int_of_num secs then Some v else None))"
    and put_other: "put now k v secs s = (y, s') \<Longrightarrow> j \<noteq> k \<Longrightarrow> view t s' j = view t s j"
    and remove_ok: "remove k s = (Inr u, s') \<Longrightarrow> view t s' k = None"
    and remove_view: "remove k s = (y, s') \<Longrightarrow> view t s' j = view t s j \<or> j = k \<and> view t s' j = None"
    and take_ok: "take_out now k s = (Inr r, s') \<Longrightarrow> r = view now s k \<and> (\<forall>t \<ge> now. view t s' k = None)"
    and take_view: "take_out now k s = (x, s') \<Longrightarrow> view t s' j = view t s j \<or> j = k \<and> view t s' j = None"
    and put_new_ok: "put_new now k v secs s = (Inr b, s') \<Longrightarrow> (b \<longleftrightarrow> view now s k = None)
      \<and> (b \<longrightarrow> 0 < int_of_num secs \<and>
           (\<forall>t. view t s' k = (if t < now + 1000 * int_of_num secs then Some v else None)))
      \<and> (\<not> b \<longrightarrow> view t s' = view t s)"
    and put_new_other: "put_new now k v secs s = (z, s') \<Longrightarrow> j \<noteq> k \<Longrightarrow> view t s' j = view t s j"
    and view_expires: "t \<le> t' \<Longrightarrow> view t' s k = Some v \<Longrightarrow> view t s k = Some v"

text \<open>The calls of a client, and the state a call leaves.\<close>

datatype store_call =
    Get_key string
  | Put_key string string js_num
  | Remove_key string
  | Take_key string
  | Put_new_key string string js_num

fun writes_key :: "store_call \<Rightarrow> string \<Rightarrow> bool" where
  "writes_key (Put_key k _ _) j = (j = k)"
| "writes_key (Put_new_key k _ _) j = (j = k)"
| "writes_key _ j = False"

fun drops_key :: "store_call \<Rightarrow> string \<Rightarrow> bool" where
  "drops_key (Remove_key k) j = (j = k)"
| "drops_key (Take_key k) j = (j = k)"
| "drops_key _ j = False"

context token_store begin

primrec after :: "millis \<Rightarrow> store_call \<Rightarrow> 's \<Rightarrow> 's" where
  "after now (Get_key k) s = snd (get now k s)"
| "after now (Put_key k v secs) s = snd (put now k v secs s)"
| "after now (Remove_key k) s = snd (remove k s)"
| "after now (Take_key k) s = snd (take_out now k s)"
| "after now (Put_new_key k v secs) s = snd (put_new now k v secs s)"

lemma after_unwritten:
  assumes "\<not> writes_key c k"
  shows "view t (after now c s) k = view t s k \<or> view t (after now c s) k = None"
proof (cases c)
  case (Get_key j)
  then show ?thesis using get_view [of now j s] by (metis after.simps(1) prod.collapse)
next
  case (Put_key j v secs)
  then show ?thesis using assms put_other [of now j v secs s _ _ k t] by (metis after.simps(2) prod.collapse writes_key.simps(1))
next
  case (Remove_key j)
  then show ?thesis using remove_view [of j s _ _ t k] by (metis after.simps(3) prod.collapse)
next
  case (Take_key j)
  then show ?thesis using take_view [of now j s _ _ t k] by (metis after.simps(4) prod.collapse)
next
  case (Put_new_key j v secs)
  then show ?thesis
    using assms put_new_other [of now j v secs s _ _ k t] by (metis after.simps(5) prod.collapse writes_key.simps(2))
qed

lemma after_untouched:
  assumes "\<not> writes_key c k" and "\<not> drops_key c k"
  shows "view t (after now c s) k = view t s k"
proof (cases c)
  case (Get_key j)
  then show ?thesis using get_view [of now j s] by (metis after.simps(1) prod.collapse)
next
  case (Put_key j v secs)
  then show ?thesis using assms put_other [of now j v secs s _ _ k t] by (metis after.simps(2) prod.collapse writes_key.simps(1))
next
  case (Remove_key j)
  then show ?thesis using assms remove_view [of j s _ _ t k] by (metis after.simps(3) prod.collapse drops_key.simps(1))
next
  case (Take_key j)
  then show ?thesis using assms take_view [of now j s _ _ t k] by (metis after.simps(4) prod.collapse drops_key.simps(2))
next
  case (Put_new_key j v secs)
  then show ?thesis
    using assms put_new_other [of now j v secs s _ _ k t] by (metis after.simps(5) prod.collapse writes_key.simps(2))
qed

definition later :: "(millis \<times> store_call) list \<Rightarrow> 's \<Rightarrow> 's" where
  "later cs s = fold (\<lambda>(t, c). after t c) cs s"

lemma later_none:
  assumes "\<forall>(t, c) \<in> set cs. \<not> writes_key c k" and "view t s k = None"
  shows "view t (later cs s) k = None"
  using assms
proof (induction cs arbitrary: s)
  case (Cons tc cs)
  obtain t' c where "tc = (t', c)" by (cases tc)
  then show ?case
    using Cons after_unwritten [of c k t t' s] by (auto simp: later_def)
qed (simp add: later_def)

lemma later_untouched:
  assumes "\<forall>(t, c) \<in> set cs. \<not> writes_key c k \<and> \<not> drops_key c k"
  shows "view t (later cs s) k = view t s k"
  using assms
proof (induction cs arbitrary: s)
  case (Cons tc cs)
  obtain t' c where "tc = (t', c)" by (cases tc)
  then show ?case
    using Cons after_untouched [of c k t t' s] by (auto simp: later_def)
qed (simp add: later_def)

text \<open>A key that was taken is not found again until someone writes it.\<close>

lemma taken_once:
  assumes "take_out now k s = (Inr r, s1)" and "\<forall>(t, c) \<in> set cs. \<not> writes_key c k" and "now \<le> t"
    and "take_out t k (later cs s1) = (Inr r', s2)"
  shows "r' = None"
  using assms take_ok later_none by metis

text \<open>A value that was put stays until it expires, if nobody writes or drops its key.\<close>

lemma put_stays:
  assumes "put now k v secs s = (Inr u, s1)" and "\<forall>(t, c) \<in> set cs. \<not> writes_key c k \<and> \<not> drops_key c k"
    and "t < now + 1000 * int_of_num secs" and "get t k (later cs s1) = (Inr r, s2)"
  shows "r = Some v"
  using put_ok [OF assms(1)] later_untouched [OF assms(2)] get_ok [OF assms(4)] assms(3) by simp

text \<open>Of two \<^verbatim>\<open>setIfAbsent\<close> within the lifetime of the first, the second is turned down.\<close>

lemma put_new_excludes:
  assumes "put_new now k v secs s = (Inr True, s1)" and "\<forall>(t, c) \<in> set cs. \<not> writes_key c k \<and> \<not> drops_key c k"
    and "t < now + 1000 * int_of_num secs" and "put_new t k w secs' (later cs s1) = (Inr b, s2)"
  shows "\<not> b"
proof -
  have "view t (later cs s1) k = Some v"
    using put_new_ok [OF assms(1)] later_untouched [OF assms(2)] assms(3) by simp
  then show ?thesis using put_new_ok [OF assms(4)] by simp
qed

end

text \<open>The store on Redis keeps the contract, whatever the fates of its commands.\<close>

definition redis_view :: "millis \<Rightarrow> redis \<Rightarrow> string \<Rightarrow> string option" where
  "redis_view t rd = live t (rd_entries rd)"

lemma redis_call_E:
  assumes "redis_call cmd rd = (x, rd')"
  obtains (served) "x = fst (cmd (rd_entries rd))" and "rd_entries rd' = snd (cmd (rd_entries rd))"
  | (refused) "x = Inl redis_unavailable" and "rd_entries rd' = rd_entries rd"
  | (lost) "x = Inl redis_unavailable" and "rd_entries rd' = snd (cmd (rd_entries rd))"
  using assms by (auto simp: redis_call_def Let_def split: call_fate.splits prod.splits)

lemma live_upd:
  "live t (es(k := None)) j = (if j = k then None else live t es j)"
  "live t (with_expiry now k v secs es) j =
     (if j = k then (if t < now + 1000 * int_of_num secs then Some v else None) else live t es j)"
  by (simp_all add: live_def with_expiry_def)

lemma live_expires: "t \<le> t' \<Longrightarrow> live t' es k = Some v \<Longrightarrow> live t es k = Some v"
  by (auto simp: live_def split: option.splits if_splits)

lemma live_None_later: "now \<le> t \<Longrightarrow> live now es k = None \<Longrightarrow> live t es k = None"
  using live_expires by (metis not_None_eq)

interpretation rts: token_store rts_get rts_set rts_delete rts_get_and_delete rts_set_if_absent redis_view
proof (unfold_locales, goal_cases)
  case 1 then show ?case unfolding rts_get_def redis_view_def by (auto elim: redis_call_E)
next
  case 2 then show ?case unfolding rts_get_def redis_view_def by (auto elim!: redis_call_E)
next
  case 3 then show ?case unfolding rts_set_def redis_view_def
    by (auto elim!: redis_call_E simp: live_upd expiry_ok_def split: if_splits)
next
  case 4 then show ?case unfolding rts_set_def redis_view_def
    by (auto elim!: redis_call_E simp: live_upd split: if_splits)
next
  case 5 then show ?case unfolding rts_delete_def redis_view_def by (auto elim!: redis_call_E simp: live_upd)
next
  case 6 then show ?case unfolding rts_delete_def redis_view_def by (auto elim!: redis_call_E simp: live_upd split: if_splits)
next
  case 7 then show ?case unfolding rts_get_and_delete_def redis_view_def
    by (auto elim!: redis_call_E simp: live_upd live_None_later split: option.splits)
next
  case 8 then show ?case unfolding rts_get_and_delete_def redis_view_def
    by (auto elim!: redis_call_E simp: live_upd split: option.splits if_splits)
next
  case 9 then show ?case unfolding rts_set_if_absent_def redis_view_def
    by (auto elim!: redis_call_E simp: live_upd expiry_ok_def split: if_splits)
next
  case 10 then show ?case unfolding rts_set_if_absent_def redis_view_def
    by (auto elim!: redis_call_E simp: live_upd split: if_splits)
next
  case 11 then show ?case unfolding redis_view_def by (rule live_expires)
qed

subsection \<open>RedisOAuthStateStore\<close>

definition STATE_TTL_SECONDS :: int where
  "STATE_TTL_SECONDS = 10 * 60"

definition STATE_KEY_PREFIX :: string where
  "STATE_KEY_PREFIX = ''oauth:state:''"

fun provider_name :: "oauth_provider \<Rightarrow> string" where
  "provider_name GOOGLE = ''GOOGLE''"
| "provider_name FACEBOOK = ''FACEBOOK''"

definition oauth_state_issue :: "millis \<Rightarrow> string \<Rightarrow> oauth_provider \<Rightarrow> (redis, string) st_op" where
  "oauth_state_issue now random provider =
     dbind (rts_set now (STATE_KEY_PREFIX @ random) (provider_name provider) (num_of_int STATE_TTL_SECONDS)) (\<lambda>_.
     dret random)"

definition is_state_char :: "char \<Rightarrow> bool" where
  "is_state_char c \<longleftrightarrow> is_upper c \<or> is_lower c \<or> is_digit c \<or> c = CHR ''_'' \<or> c = CHR ''-''"

definition oauth_state_consume :: "millis \<Rightarrow> oauth_provider \<Rightarrow> string \<Rightarrow> (redis, bool) st_op" where
  "oauth_state_consume now provider state =
     (if \<not> (length state = 43 \<and> list_all is_state_char state) then dret False
      else dbind (rts_get_and_delete now (STATE_KEY_PREFIX @ state)) (\<lambda>stored.
           dret (stored = Some (provider_name provider))))"

lemma provider_name_inj [simp]: "provider_name p = provider_name q \<longleftrightarrow> p = q"
  by (cases p; cases q) simp_all

lemma oauth_state_life:
  assumes issue: "oauth_state_issue t0 r p s = (Inr st, s1)"
    and form: "length r = 43 \<and> list_all is_state_char r"
    and quiet: "\<forall>(t, c) \<in> set cs. \<not> writes_key c (STATE_KEY_PREFIX @ r) \<and> \<not> drops_key c (STATE_KEY_PREFIX @ r)"
    and soon: "t < t0 + 600000"
    and consume: "oauth_state_consume t q st (rts.later cs s1) = (Inr b, s2)"
    and unissued: "\<forall>(t, c) \<in> set cs'. \<not> writes_key c (STATE_KEY_PREFIX @ r)" and order: "t \<le> t'"
    and again: "oauth_state_consume t' q' st (rts.later cs' s2) = (Inr b', s3)"
  shows "(b \<longleftrightarrow> q = p) \<and> \<not> b'"
proof -
  let ?k = "STATE_KEY_PREFIX @ r"
  from issue have put: "rts_set t0 ?k (provider_name p) (num_of_int 600) s = (Inr (), s1)" and st: "st = r"
    by (auto simp: oauth_state_issue_def STATE_TTL_SECONDS_def db_monad elim!: dbind_Inr_E)
  from consume form obtain v where taken: "rts_get_and_delete t ?k (rts.later cs s1) = (Inr v, s2)"
    and b: "b = (v = Some (provider_name q))"
    by (auto simp: oauth_state_consume_def st db_monad elim!: dbind_Inr_E)
  from again form obtain v' where taken': "rts_get_and_delete t' ?k (rts.later cs' s2) = (Inr v', s3)"
    and b': "b' = (v' = Some (provider_name q'))"
    by (auto simp: oauth_state_consume_def st db_monad elim!: dbind_Inr_E)
  have "v = Some (provider_name p)"
    using rts.put_ok [OF put] rts.later_untouched [OF quiet] rts.take_ok [OF taken] soon by simp
  moreover have "v' = None"
    using rts.taken_once [OF taken unissued order taken'] .
  ultimately show ?thesis using b b' by auto
qed

text \<open>An OAuth state is good once, for the provider it was issued to: whoever consumes it first within its
  ten minutes succeeds exactly when the provider matches, and no later attempt succeeds, whatever other keys are
  used in between and whichever commands Redis fails.\<close>

theorem oauth_state_single_use:
  assumes "oauth_state_issue t0 r p s = (Inr st, s1)"
    and "length r = 43 \<and> list_all is_state_char r"
    and "\<forall>(t, c) \<in> set cs. \<not> writes_key c (STATE_KEY_PREFIX @ r) \<and> \<not> drops_key c (STATE_KEY_PREFIX @ r)"
    and "t < t0 + 600000"
    and "oauth_state_consume t q st (rts.later cs s1) = (Inr b, s2)"
    and "\<forall>(t, c) \<in> set cs'. \<not> writes_key c (STATE_KEY_PREFIX @ r)" and "t \<le> t'"
    and "oauth_state_consume t' q' st (rts.later cs' s2) = (Inr b', s3)"
  shows "(b \<longleftrightarrow> q = p) \<and> \<not> b'"
  using assms by (rule oauth_state_life)

definition idle_redis :: redis where
  "idle_redis = \<lparr>rd_entries = (\<lambda>_. None), rd_fate = (\<lambda>_. Served), rd_calls = 0\<rparr>"

lemmas oauth_run = oauth_state_issue_def oauth_state_consume_def dbind_def dret_def rts_set_def redis_call_def
  expiry_ok_def idle_redis_def with_expiry_def live_def rts_get_and_delete_def rts.later_def STATE_TTL_SECONDS_def
  Let_def safe_int_def max_safe_def

theorem oauth_state_single_use_witness:
  "\<exists>st s1 s2 b s3 b'. oauth_state_issue 0 (replicate 43 CHR ''a'') GOOGLE idle_redis = (Inr st, s1)
     \<and> oauth_state_consume 500 GOOGLE st s1 = (Inr b, s2) \<and> oauth_state_consume 600 GOOGLE st s2 = (Inr b', s3)
     \<and> b \<and> \<not> b'"
proof -
  let ?r = "replicate 43 CHR ''a''"
  obtain s1 where 1: "oauth_state_issue 0 ?r GOOGLE idle_redis = (Inr ?r, s1)"
    by (simp add: oauth_run)
  have s1: "s1 = idle_redis\<lparr>rd_entries := [STATE_KEY_PREFIX @ ?r \<mapsto> (''GOOGLE'', 600000)], rd_calls := 1\<rparr>"
    using 1 by (auto simp: oauth_run)
  have form: "list_all is_state_char ?r"
    by (auto simp: list_all_iff is_state_char_def is_lower_def code_of_def)
  obtain s2 b where 2: "oauth_state_consume 500 GOOGLE ?r s1 = (Inr b, s2)"
    using form by (simp add: s1 oauth_run)
  have s2: "s2 = idle_redis\<lparr>rd_calls := 2\<rparr>"
    using 2 form by (auto simp: s1 oauth_run fun_eq_iff split: if_splits)
  have "oauth_state_consume 600 GOOGLE ?r s2 = (Inr False, s2\<lparr>rd_calls := 3\<rparr>)"
    using form by (simp add: s2 oauth_run)
  then obtain s3 b' where 3: "oauth_state_consume 600 GOOGLE ?r s2 = (Inr b', s3)" by blast
  have "(b \<longleftrightarrow> GOOGLE = GOOGLE) \<and> \<not> b'"
    using oauth_state_single_use [of 0 ?r GOOGLE idle_redis ?r s1 "[]" 500 GOOGLE b s2 "[]" 600 GOOGLE b' s3] 1 2 3 form
    by (simp add: rts.later_def)
  with 1 2 3 show ?thesis by blast
qed

end
