(* ===== verification/Auth_Token.thy ===== *)
theory Auth_Token
  imports Token_Store
begin

text \<open>
  Tokens: \<^verbatim>\<open>modules/auth/services/token.service.ts\<close> with \<^verbatim>\<open>shared/constants/security.constant.ts\<close> and
  \<^verbatim>\<open>shared/utils/jwt.ts\<close>. JSON web tokens, digests, password hashes and one-time passwords come from
  libraries: they are the fields of \<open>auth_lib\<close>. What the theorems use of \<^verbatim>\<open>jwt.verify\<close> is \<open>jwt_decodes\<close>:
  it answers with the payload the token carries.
\<close>

subsection \<open>Surroundings\<close>

record auth_config =
  JWT_ACCESS_SECRET :: string
  JWT_REFRESH_SECRET :: string
  JWT_PREAUTH_SECRET :: string
  JWT_ISSUER :: string
  JWT_ACCESS_AUDIENCE :: string
  JWT_REFRESH_AUDIENCE :: string
  JWT_PREAUTH_AUDIENCE :: string
  JWT_ACCESS_EXPIRY :: string
  JWT_REFRESH_EXPIRY :: string
  TOTP_ISSUER :: string
  TOTP_ENCRYPTION_KEY :: string
  FRONTEND_URL :: string

record auth_lib =
  jwt_sign :: "fields \<Rightarrow> string \<Rightarrow> string \<Rightarrow> millis \<Rightarrow> string"
  jwt_verify :: "string \<Rightarrow> string \<Rightarrow> string \<Rightarrow> string \<Rightarrow> millis \<Rightarrow> error + json"
  jwt_payload :: "string \<Rightarrow> json"
  random_uuid :: "nat \<Rightarrow> string"
  random_hex :: "nat \<Rightarrow> string"
  sha256_hex :: "string \<Rightarrow> string"
  hmac_hex :: "string \<Rightarrow> string \<Rightarrow> string"
  bcrypt_hash :: "string \<Rightarrow> nat \<Rightarrow> string"
  bcrypt_compare :: "string \<Rightarrow> string \<Rightarrow> bool"
  totp_secret :: "string \<Rightarrow> string \<Rightarrow> nat \<Rightarrow> string \<times> string option"
  totp_verify :: "string \<Rightarrow> string \<Rightarrow> millis \<Rightarrow> bool"
  buffer_from_hex :: "string \<Rightarrow> string"
  buffer_from_base64 :: "string \<Rightarrow> string"
  to_base64url :: "string \<Rightarrow> string"
  from_base64url :: "string \<Rightarrow> string"
  random_iv :: "nat \<Rightarrow> string"
  gcm_seal :: "string \<Rightarrow> string \<Rightarrow> string \<Rightarrow> string \<times> string"
  gcm_open :: "string \<Rightarrow> string \<Rightarrow> string \<Rightarrow> string \<Rightarrow> error + string"

text \<open>\<open>jwt_payload\<close> is \<^verbatim>\<open>jwt.decode\<close>, which reads a token without checking it.\<close>

definition jwt_decodes :: "auth_lib \<Rightarrow> bool" where
  "jwt_decodes L \<longleftrightarrow> (\<forall>token secret iss aud now c. jwt_verify L token secret iss aud now = Inr c \<longrightarrow> c = jwt_payload L token)"

record mail =
  ml_to :: string
  ml_name :: string
  ml_url :: string
  ml_key :: "string option"

record auth_state =
  au_db :: database
  au_redis :: redis
  au_draws :: nat
  au_mails :: "mail list"
  au_mail_up :: bool

definition on_db :: "'a db_op \<Rightarrow> (auth_state, 'a) st_op" where
  "on_db m s = (let (r, db) = m (au_db s) in (r, s\<lparr>au_db := db\<rparr>))"

definition on_store :: "(redis, 'a) st_op \<Rightarrow> (auth_state, 'a) st_op" where
  "on_store m s = (let (r, rd) = m (au_redis s) in (r, s\<lparr>au_redis := rd\<rparr>))"

definition draw :: "(nat \<Rightarrow> 'a) \<Rightarrow> (auth_state, 'a) st_op" where
  "draw f s = (Inr (f (au_draws s)), s\<lparr>au_draws := Suc (au_draws s)\<rparr>)"

subsection \<open>Constants\<close>

definition BLACKLIST_KEY_PREFIX :: string where
  "BLACKLIST_KEY_PREFIX = ''jwt:blacklist:''"

definition REFRESH_TOKEN_TTL_MS :: int where
  "REFRESH_TOKEN_TTL_MS = 7 * 24 * 60 * 60 * 1000"

definition BCRYPT_SALT_ROUNDS :: nat where
  "BCRYPT_SALT_ROUNDS = 10"

definition PREAUTH_KEY_PREFIX :: string where
  "PREAUTH_KEY_PREFIX = ''auth:2fa:preauth:''"

subsection \<open>Claims\<close>

datatype token_type = Access | Refresh | Preauth

fun token_type_name :: "token_type \<Rightarrow> string" where
  "token_type_name Access = ''access''"
| "token_type_name Refresh = ''refresh''"
| "token_type_name Preauth = ''preauth''"

fun fields_of :: "json \<Rightarrow> fields" where
  "fields_of (JObj fs) = fs"
| "fields_of _ = []"

definition has_base_claims :: "auth_config \<Rightarrow> json \<Rightarrow> token_type \<Rightarrow> string \<Rightarrow> bool" where
  "has_base_claims C v ty audience \<longleftrightarrow>
     (case v of
        JObj claims \<Rightarrow>
          req_field is_nonempty_string ''sub'' claims
          \<and> req_field is_nonempty_string ''jti'' claims
          \<and> map_of claims ''iss'' = Some (JStr (JWT_ISSUER C))
          \<and> map_of claims ''aud'' = Some (JStr audience)
          \<and> map_of claims ''tokenType'' = Some (JStr (token_type_name ty))
          \<and> req_field (\<lambda>j. case j of JNum n \<Rightarrow> is_finite_num n | _ \<Rightarrow> False) ''exp'' claims
      | _ \<Rightarrow> False)"

fun is_string :: "json \<Rightarrow> bool" where
  "is_string (JStr _) = True"
| "is_string _ = False"

definition has_access_claims :: "auth_config \<Rightarrow> json \<Rightarrow> bool" where
  "has_access_claims C v \<longleftrightarrow> has_base_claims C v Access (JWT_ACCESS_AUDIENCE C)
     \<and> req_field is_string ''email'' (fields_of v)
     \<and> req_field is_string ''role'' (fields_of v)
     \<and> opt_field is_nonempty_string ''sessionId'' (fields_of v)"

definition has_refresh_claims :: "auth_config \<Rightarrow> json \<Rightarrow> bool" where
  "has_refresh_claims C v \<longleftrightarrow> has_base_claims C v Refresh (JWT_REFRESH_AUDIENCE C)
     \<and> req_field is_nonempty_string ''familyId'' (fields_of v)"

definition has_preauth_claims :: "auth_config \<Rightarrow> json \<Rightarrow> bool" where
  "has_preauth_claims C v \<longleftrightarrow> has_base_claims C v Preauth (JWT_PREAUTH_AUDIENCE C)
     \<and> map_of (fields_of v) ''purpose'' = Some (JStr ''2fa'')"

record access_claims =
  ac_sub :: string
  ac_email :: string
  ac_role :: string
  ac_jti :: string
  ac_exp :: js_num
  ac_session_id :: "string option"

definition num_field :: "fields \<Rightarrow> string \<Rightarrow> js_num" where
  "num_field fs k = (case map_of fs k of Some (JNum n) \<Rightarrow> n | _ \<Rightarrow> NaN)"

definition read_access_claims :: "json \<Rightarrow> access_claims" where
  "read_access_claims v = (let fs = fields_of v in
     \<lparr>ac_sub = str_of fs ''sub'', ac_email = str_of fs ''email'', ac_role = str_of fs ''role'',
      ac_jti = str_of fs ''jti'', ac_exp = num_field fs ''exp'',
      ac_session_id = map_option (\<lambda>_. str_of fs ''sessionId'') (map_of fs ''sessionId'')\<rparr>)"

subsection \<open>Signing\<close>

definition token_claims :: "auth_lib \<Rightarrow> auth_config \<Rightarrow> token_type \<Rightarrow> string \<Rightarrow> (auth_state, fields) st_op" where
  "token_claims L C ty aud = dbind (draw (random_uuid L)) (\<lambda>jti. dret
     [(''tokenType'', JStr (token_type_name ty)), (''jti'', JStr jti), (''iss'', JStr (JWT_ISSUER C)),
      (''aud'', JStr aud)])"

definition sign_access_token ::
    "auth_lib \<Rightarrow> auth_config \<Rightarrow> millis \<Rightarrow> user_row \<Rightarrow> string \<Rightarrow> (auth_state, string) st_op" where
  "sign_access_token L C now u session_id =
     dbind (token_claims L C Access (JWT_ACCESS_AUDIENCE C)) (\<lambda>base. dret
       (jwt_sign L (base @ [(''sub'', JStr (ur_id u)), (''email'', JStr (ur_email u)),
                            (''role'', JStr (role_name (ur_role u))), (''sessionId'', JStr session_id)])
          (JWT_ACCESS_SECRET C) (JWT_ACCESS_EXPIRY C) now))"

definition sign_refresh_token ::
    "auth_lib \<Rightarrow> auth_config \<Rightarrow> millis \<Rightarrow> ident \<Rightarrow> string \<Rightarrow> (auth_state, string) st_op" where
  "sign_refresh_token L C now uid family =
     dbind (token_claims L C Refresh (JWT_REFRESH_AUDIENCE C)) (\<lambda>base. dret
       (jwt_sign L (base @ [(''sub'', JStr uid), (''familyId'', JStr family)])
          (JWT_REFRESH_SECRET C) (JWT_REFRESH_EXPIRY C) now))"

subsection \<open>Verifying\<close>

text \<open>A \<^verbatim>\<open>catch\<close> clause on a computation that changes nothing.\<close>

fun rcatch :: "'e + 'a \<Rightarrow> ('e \<Rightarrow> 'e + 'a) \<Rightarrow> 'e + 'a" where
  "rcatch (Inl e) h = h e"
| "rcatch (Inr a) h = Inr a"

definition verify_access_token :: "auth_lib \<Rightarrow> auth_config \<Rightarrow> millis \<Rightarrow> string \<Rightarrow> error + access_claims" where
  "verify_access_token L C now token =
     rcatch
       (rbind (jwt_verify L token (JWT_ACCESS_SECRET C) (JWT_ISSUER C) (JWT_ACCESS_AUDIENCE C) now) (\<lambda>claims.
        if \<not> has_access_claims C claims then Inl (authentication_error ''Invalid access token claims'')
        else Inr (read_access_claims claims)))
       (\<lambda>_. Inl (authentication_error ''Invalid token''))"

definition verify_refresh_token :: "auth_lib \<Rightarrow> auth_config \<Rightarrow> millis \<Rightarrow> string \<Rightarrow> error + (ident \<times> ident)" where
  "verify_refresh_token L C now token =
     rbind (jwt_verify L token (JWT_REFRESH_SECRET C) (JWT_ISSUER C) (JWT_REFRESH_AUDIENCE C) now) (\<lambda>claims.
     if \<not> has_refresh_claims C claims then Inl (authentication_error ''Invalid refresh token claims'')
     else Inr (str_of (fields_of claims) ''sub'', str_of (fields_of claims) ''familyId''))"

definition verify_preauth_token :: "auth_lib \<Rightarrow> auth_config \<Rightarrow> millis \<Rightarrow> string \<Rightarrow> error + (ident \<times> string)" where
  "verify_preauth_token L C now token =
     rcatch
       (rbind (jwt_verify L token (JWT_PREAUTH_SECRET C) (JWT_ISSUER C) (JWT_PREAUTH_AUDIENCE C) now) (\<lambda>claims.
        if \<not> has_preauth_claims C claims then Inl (authentication_error ''Invalid pre-authentication token'')
        else Inr (str_of (fields_of claims) ''sub'', str_of (fields_of claims) ''jti'')))
       (\<lambda>_. Inl (authentication_error ''Invalid or expired pre-authentication token''))"

subsection \<open>Revocation\<close>

definition revocation_key :: "auth_lib \<Rightarrow> string \<Rightarrow> string" where
  "revocation_key L jti = BLACKLIST_KEY_PREFIX @ sha256_hex L jti"

definition token_store_unavailable :: error where
  "token_store_unavailable = ApplicationError (DependencyUnavailableError ''Authentication temporarily unavailable'')"

definition fail_closed :: "(auth_state, 'a) st_op \<Rightarrow> (auth_state, 'a) st_op" where
  "fail_closed m = dcatch m (\<lambda>_. dthrow token_store_unavailable)"

definition is_access_token_revoked :: "auth_lib \<Rightarrow> auth_config \<Rightarrow> millis \<Rightarrow> string \<Rightarrow> (auth_state, bool) st_op" where
  "is_access_token_revoked L C now token =
     dbind (dlift (verify_access_token L C now token)) (\<lambda>claims.
     fail_closed (dbind (on_store (rts_get now (revocation_key L (ac_jti claims)))) (\<lambda>v. dret (v \<noteq> None))))"

definition blacklist_access_token :: "auth_lib \<Rightarrow> auth_config \<Rightarrow> millis \<Rightarrow> string \<Rightarrow> (auth_state, unit) st_op" where
  "blacklist_access_token L C now token =
     dbind (dlift (verify_access_token L C now token)) (\<lambda>claims.
     let ttl = js_sub (ac_exp claims) (num_of_int (now div 1000))
     in if \<not> js_less (Fin 0) ttl then dret ()
        else fail_closed (on_store (rts_set now (revocation_key L (ac_jti claims)) ''1'' ttl)))"

subsection \<open>Pre-authentication tokens\<close>

definition issue_two_factor_preauth_token ::
    "auth_lib \<Rightarrow> auth_config \<Rightarrow> millis \<Rightarrow> ident \<Rightarrow> (auth_state, string) st_op" where
  "issue_two_factor_preauth_token L C now uid =
     dbind (token_claims L C Preauth (JWT_PREAUTH_AUDIENCE C)) (\<lambda>base.
     dbind (fail_closed (on_store (rts_set now (PREAUTH_KEY_PREFIX @ str_of base ''jti'') uid (num_of_int 300)))) (\<lambda>_.
     dret (jwt_sign L (base @ [(''sub'', JStr uid), (''purpose'', JStr ''2fa'')]) (JWT_PREAUTH_SECRET C) ''5m'' now)))"

definition consume_two_factor_preauth_token ::
    "auth_lib \<Rightarrow> auth_config \<Rightarrow> millis \<Rightarrow> string \<Rightarrow> (auth_state, ident) st_op" where
  "consume_two_factor_preauth_token L C now token =
     dbind (dlift (verify_preauth_token L C now token)) (\<lambda>(sub, jti).
     dbind (fail_closed (on_store (rts_get_and_delete now (PREAUTH_KEY_PREFIX @ jti)))) (\<lambda>consumed.
     if consumed \<noteq> Some sub then dthrow (authentication_error ''Pre-authentication token already used'')
     else dret sub))"

subsection \<open>Token classes\<close>

text \<open>A token that some class of check accepts carries that class's \<^verbatim>\<open>tokenType\<close>.\<close>

lemma verify_access_type:
  assumes "verify_access_token L C now token = Inr c" and "jwt_decodes L"
  shows "has_access_claims C (jwt_payload L token) \<and> c = read_access_claims (jwt_payload L token)"
  using assms
  by (cases "jwt_verify L token (JWT_ACCESS_SECRET C) (JWT_ISSUER C) (JWT_ACCESS_AUDIENCE C) now")
    (auto simp: verify_access_token_def jwt_decodes_def split: if_splits)

lemma verify_refresh_type:
  assumes "verify_refresh_token L C now token = Inr r" and "jwt_decodes L"
  shows "has_refresh_claims C (jwt_payload L token)"
  using assms by (auto simp: verify_refresh_token_def jwt_decodes_def rbind_Inr_iff split: if_splits)

lemma verify_preauth_type:
  assumes "verify_preauth_token L C now token = Inr r" and "jwt_decodes L"
  shows "has_preauth_claims C (jwt_payload L token) \<and> r = (str_of (fields_of (jwt_payload L token)) ''sub'',
    str_of (fields_of (jwt_payload L token)) ''jti'')"
  using assms
  by (cases "jwt_verify L token (JWT_PREAUTH_SECRET C) (JWT_ISSUER C) (JWT_PREAUTH_AUDIENCE C) now")
    (auto simp: verify_preauth_token_def jwt_decodes_def split: if_splits)

lemma base_claims_type: "has_base_claims C v ty a \<Longrightarrow> map_of (fields_of v) ''tokenType'' = Some (JStr (token_type_name ty))"
  by (cases v) (auto simp: has_base_claims_def)

lemma token_type_name_inj [simp]: "token_type_name a = token_type_name b \<longleftrightarrow> a = b"
  by (cases a; cases b) simp_all

lemma base_claims_unique: "has_base_claims C v ty a \<Longrightarrow> has_base_claims C v ty' a' \<Longrightarrow> ty = ty'"
  by (auto dest!: base_claims_type)

text \<open>C36: Token classes do not mix: a token accepted as an access token is accepted neither for a refresh nor as a
  pre-authentication token, and a refresh token is no pre-authentication token, at any two instants, even if the
  deployment configured the same secret and the same audience for all three.\<close>

theorem token_classes_disjoint:
  assumes "jwt_decodes L"
  shows "\<not> (ok (verify_access_token L C t token) \<and> ok (verify_refresh_token L C t' token))
    \<and> \<not> (ok (verify_access_token L C t token) \<and> ok (verify_preauth_token L C t' token))
    \<and> \<not> (ok (verify_refresh_token L C t token) \<and> ok (verify_preauth_token L C t' token))"
proof -
  have A: "\<exists>a. has_base_claims C (jwt_payload L token) Access a" if "ok (verify_access_token L C s token)" for s
    using that assms
    by (cases "verify_access_token L C s token") (auto dest!: verify_access_type simp: has_access_claims_def)
  have R: "\<exists>a. has_base_claims C (jwt_payload L token) Refresh a" if "ok (verify_refresh_token L C s token)" for s
    using that assms
    by (cases "verify_refresh_token L C s token") (auto dest!: verify_refresh_type simp: has_refresh_claims_def)
  have P: "\<exists>a. has_base_claims C (jwt_payload L token) Preauth a" if "ok (verify_preauth_token L C s token)" for s
    using that assms
    by (cases "verify_preauth_token L C s token") (auto dest!: verify_preauth_type simp: has_preauth_claims_def)
  show ?thesis
    using A R P base_claims_unique by blast
qed


subsection \<open>A sample library\<close>

text \<open>For the examples: a token spells out its claims, and its signature is the secret.\<close>

fun split_on :: "char \<Rightarrow> string \<Rightarrow> string list" where
  "split_on c [] = [[]]"
| "split_on c (d # s) = (if d = c then [] # split_on c s
     else case split_on c s of [] \<Rightarrow> [[d]] | p # ps \<Rightarrow> (d # p) # ps)"

definition sample_claim :: "string \<Rightarrow> string \<times> json" where
  "sample_claim p = (case split_on CHR ''='' p of
      [k, v] \<Rightarrow> (k, if k = ''exp'' then jint (int (read_nat 0 v)) else JStr v)
    | _ \<Rightarrow> (p, JNull))"

definition sample_payload :: "string \<Rightarrow> fields" where
  "sample_payload token = map sample_claim (split_on CHR '';'' token)"

definition sample_sign :: "fields \<Rightarrow> string \<Rightarrow> string \<Rightarrow> millis \<Rightarrow> string" where
  "sample_sign fs secret expiry now = ''sig='' @ secret @ '';''
     @ concat (map (\<lambda>(k, j). k @ ''='' @ (case j of JStr s \<Rightarrow> s | _ \<Rightarrow> []) @ '';'') fs)
     @ ''exp='' @ show_nat (nat (now div 1000) + 900)"

definition sample_verify :: "string \<Rightarrow> string \<Rightarrow> string \<Rightarrow> string \<Rightarrow> millis \<Rightarrow> error + json" where
  "sample_verify token secret iss aud now = (let fs = sample_payload token in
     if map_of fs ''sig'' \<noteq> Some (JStr secret) \<or> map_of fs ''iss'' \<noteq> Some (JStr iss) \<or> map_of fs ''aud'' \<noteq> Some (JStr aud)
     then Inl JsonWebTokenError
     else if now < 1000 * int_of_num (num_field fs ''exp'') then Inr (JObj fs) else Inl TokenExpiredError)"

definition sample_lib :: auth_lib where
  "sample_lib = \<lparr>jwt_sign = sample_sign, jwt_verify = sample_verify, jwt_payload = (\<lambda>t. JObj (sample_payload t)),
     random_uuid = (\<lambda>n. ''u'' @ show_nat n), random_hex = (\<lambda>n. ''r'' @ show_nat n), sha256_hex = (\<lambda>s. ''d'' @ s),
     hmac_hex = (\<lambda>k m. ''h'' @ m), bcrypt_hash = (\<lambda>p n. ''b'' @ p), bcrypt_compare = (\<lambda>p h. h = ''b'' @ p),
     totp_secret = (\<lambda>name issuer n. (''S'' @ show_nat n, None)),
     totp_verify = (\<lambda>s t now. \<exists>w \<in> {-1, 0, 1 :: int}. t = s @ show_int (now div 30000 + w)),
     buffer_from_hex = (\<lambda>s. take 32 s), buffer_from_base64 = (\<lambda>s. s), to_base64url = (\<lambda>s. ''e'' @ s),
     from_base64url = (\<lambda>s. drop 1 s), random_iv = (\<lambda>n. ''iv'' @ show_nat n),
     gcm_seal = (\<lambda>k iv p. (p, k @ iv)),
     gcm_open = (\<lambda>k iv tag c. if tag = k @ iv then Inr c else Inl (PlainError ''bad tag''))\<rparr>"

definition sample_auth_config :: auth_config where
  "sample_auth_config = \<lparr>JWT_ACCESS_SECRET = ''a'', JWT_REFRESH_SECRET = ''r'', JWT_PREAUTH_SECRET = ''p'',
     JWT_ISSUER = ''triad'', JWT_ACCESS_AUDIENCE = ''access'', JWT_REFRESH_AUDIENCE = ''refresh'',
     JWT_PREAUTH_AUDIENCE = ''preauth'', JWT_ACCESS_EXPIRY = ''15m'', JWT_REFRESH_EXPIRY = ''7d'',
     TOTP_ISSUER = ''TriAD'', TOTP_ENCRYPTION_KEY = replicate 64 CHR ''0'', FRONTEND_URL = ''https://shop''\<rparr>"

lemma sample_lib_decodes: "jwt_decodes sample_lib"
  by (auto simp: jwt_decodes_def sample_lib_def sample_verify_def Let_def split: if_splits)

definition ann :: user_row where
  "ann = \<lparr>ur_id = ''ann'', ur_email = ''ann@x.io'', ur_password = Some ''bsecret'', ur_first_name = ''Ann'',
     ur_last_name = ''Lee'', ur_phone = None, ur_role = USER, ur_is_verified = True, ur_is_2fa_enabled = False,
     ur_totp_secret = None, ur_created_at = 0\<rparr>"

definition sample_auth :: auth_state where
  "sample_auth = \<lparr>au_db = empty_db\<lparr>users := [ann]\<rparr>, au_redis = idle_redis, au_draws = 0, au_mails = [], au_mail_up = True\<rparr>"

lemmas auth_eval = verify_access_token_def has_access_claims_def has_base_claims_def read_access_claims_def

theorem token_classes_disjoint_witness:
  "ok (verify_access_token sample_lib sample_auth_config 5000
      ''sig=a;tokenType=access;jti=u0;iss=triad;aud=access;sub=ann;email=ann@x.io;role=USER;sessionId=f;exp=905'')
   \<and> \<not> ok (verify_refresh_token sample_lib (sample_auth_config\<lparr>JWT_REFRESH_SECRET := ''a'', JWT_REFRESH_AUDIENCE := ''access''\<rparr>) 5000
      ''sig=a;tokenType=access;jti=u0;iss=triad;aud=access;sub=ann;email=ann@x.io;role=USER;sessionId=f;exp=905'')"
proof -
  let ?t = "''sig=a;tokenType=access;jti=u0;iss=triad;aud=access;sub=ann;email=ann@x.io;role=USER;sessionId=f;exp=905''"
  let ?C = "sample_auth_config\<lparr>JWT_REFRESH_SECRET := ''a'', JWT_REFRESH_AUDIENCE := ''access''\<rparr>"
  have "ok (verify_access_token sample_lib sample_auth_config 5000 ?t)" by code_simp
  moreover have "ok (verify_access_token sample_lib ?C 5000 ?t)" by code_simp
  ultimately show ?thesis
    using token_classes_disjoint [OF sample_lib_decodes, of ?C 5000 ?t 5000] by blast
qed


subsection \<open>Revocation holds until the token expires\<close>

lemma on_store_iff: "on_store m s = (r, s') \<longleftrightarrow> (\<exists>rd. m (au_redis s) = (r, rd) \<and> s' = s\<lparr>au_redis := rd\<rparr>)"
  by (auto simp: on_store_def split: prod.splits)

lemma fail_closed_Inr: "fail_closed m s = (Inr a, s') \<longleftrightarrow> m s = (Inr a, s')"
  by (auto simp: fail_closed_def dcatch_def dthrow_def split: prod.splits sum.splits)

lemma fail_closed_Inl: "fail_closed m s = (Inl e, s') \<Longrightarrow> e = token_store_unavailable"
  by (auto simp: fail_closed_def dcatch_def dthrow_def split: prod.splits sum.splits)

lemma revoked_reads:
  assumes "is_access_token_revoked L C t token s = (Inr b, s')"
  obtains c r rd where "verify_access_token L C t token = Inr c"
    and "rts_get t (revocation_key L (ac_jti c)) (au_redis s) = (Inr r, rd)" and "b \<longleftrightarrow> r \<noteq> None"
  using assms by (auto simp: is_access_token_revoked_def fail_closed_Inr on_store_iff db_monad elim!: dbind_Inr_E)

lemma blacklist_writes:
  assumes "blacklist_access_token L C now token s = (Inr u, s')"
  obtains c where "verify_access_token L C now token = Inr c"
    and "\<not> js_less (Fin 0) (js_sub (ac_exp c) (num_of_int (now div 1000)))"
  | c where "verify_access_token L C now token = Inr c"
    and "rts_set now (revocation_key L (ac_jti c)) ''1'' (js_sub (ac_exp c) (num_of_int (now div 1000))) (au_redis s)
      = (Inr (), au_redis s')"
  using assms
  by (auto simp: blacklist_access_token_def Let_def fail_closed_Inr on_store_iff db_monad elim!: dbind_Inr_E split: if_splits)

lemma revoked_until:
  assumes jwt: "jwt_decodes L"
    and exp: "num_field (fields_of (jwt_payload L token)) ''exp'' = num_of_int e" and near: "\<bar>e - t0 div 1000\<bar> \<le> 2 ^ 53"
    and bl: "blacklist_access_token L C t0 token s = (Inr u, s1)"
    and quiet: "\<forall>(t, c) \<in> set cs. \<not> writes_key c (revocation_key L (str_of (fields_of (jwt_payload L token)) ''jti''))
      \<and> \<not> drops_key c (revocation_key L (str_of (fields_of (jwt_payload L token)) ''jti''))"
    and later: "au_redis s2 = rts.later cs (au_redis s1)" and t: "t0 \<le> t" "t < 1000 * e"
    and rev: "is_access_token_revoked L C t token s2 = (Inr b, s3)"
  shows b
proof -
  let ?c = "read_access_claims (jwt_payload L token)"
  have jti: "ac_jti ?c = str_of (fields_of (jwt_payload L token)) ''jti''" and ex: "ac_exp ?c = num_of_int e"
    using exp by (simp_all add: read_access_claims_def Let_def)
  have sub: "js_sub (ac_exp ?c) (num_of_int (t0 div 1000)) = num_of_int (e - t0 div 1000)"
    using js_sub_int [OF near] ex by simp
  have pos: "0 < e - t0 div 1000"
    using t by linarith
  from rev obtain c r rd where c: "verify_access_token L C t token = Inr c"
    and get: "rts_get t (revocation_key L (ac_jti c)) (au_redis s2) = (Inr r, rd)" and b: "b \<longleftrightarrow> r \<noteq> None"
    by (rule revoked_reads)
  have c': "c = ?c" using verify_access_type [OF c jwt] by simp
  from bl show ?thesis
  proof (cases rule: blacklist_writes)
    case (1 c0)
    then have "c0 = ?c" using verify_access_type jwt by blast
    then show ?thesis using 1 sub pos js_less_num_of_int [of 0 "e - t0 div 1000"] by (simp add: num_of_int_def)
  next
    case (2 c0)
    then have c0: "c0 = ?c" using verify_access_type jwt by blast
    have put: "rts_set t0 (revocation_key L (ac_jti ?c)) ''1'' (num_of_int (e - t0 div 1000)) (au_redis s) = (Inr (), au_redis s1)"
      using 2 c0 sub by simp
    have "t < t0 + 1000 * int_of_num (num_of_int (e - t0 div 1000))"
      using t by simp
    then have "r = Some ''1''"
      using rts.put_stays [OF put quiet [folded jti]] get later c' by simp
    then show ?thesis using b by simp
  qed
qed

text \<open>C35: A revoked access token stays revoked: after a revocation that reported success, every later check that
  completes before the token's expiry finds it revoked, whatever else is written to the store and whichever of
  those commands fail, as long as nothing touches the token's own revocation key. The expiry is the integral
  \<^verbatim>\<open>NumericDate\<close> that the library signs.\<close>

theorem revoked_until_expiry:
  assumes "jwt_decodes L"
    and "num_field (fields_of (jwt_payload L token)) ''exp'' = num_of_int e" and "\<bar>e - t0 div 1000\<bar> \<le> 2 ^ 53"
    and "blacklist_access_token L C t0 token s = (Inr u, s1)"
    and "\<forall>(t, c) \<in> set cs. \<not> writes_key c (revocation_key L (str_of (fields_of (jwt_payload L token)) ''jti''))
      \<and> \<not> drops_key c (revocation_key L (str_of (fields_of (jwt_payload L token)) ''jti''))"
    and "au_redis s2 = rts.later cs (au_redis s1)" and "t0 \<le> t" and "t < 1000 * e"
    and "is_access_token_revoked L C t token s2 = (Inr b, s3)"
  shows b
  using assms by (rule revoked_until)

definition sample_access_token :: string where
  "sample_access_token =
     ''sig=a;tokenType=access;jti=u0;iss=triad;aud=access;sub=ann;email=ann@x.io;role=USER;sessionId=f;exp=905''"

lemma okE: "ok r \<Longrightarrow> (\<And>a. r = Inr a \<Longrightarrow> P) \<Longrightarrow> P"
  by (cases r) auto

lemma redis_call_fate: "redis_call cmd rd = (r, rd') \<Longrightarrow> rd_fate rd' = rd_fate rd"
  by (auto simp: redis_call_def Let_def split: prod.splits call_fate.splits)

lemma blacklist_fate:
  "blacklist_access_token L C now token s = (r, s') \<Longrightarrow> rd_fate (au_redis s') = rd_fate (au_redis s)"
  by (auto simp: blacklist_access_token_def fail_closed_def dcatch_def dbind_def db_monad Let_def on_store_def rts_set_def
      split: prod.splits sum.splits if_splits dest!: redis_call_fate)

lemma served_check:
  assumes "verify_access_token L C now token = Inr c" and "rd_fate (au_redis s) (rd_calls (au_redis s)) = Served"
  shows "ok (fst (is_access_token_revoked L C now token s))"
  using assms by (simp add: is_access_token_revoked_def fail_closed_def dcatch_def on_store_def rts_get_def redis_call_def
      dbind_def db_monad Let_def)

lemma served_blacklist:
  assumes "verify_access_token L C now token = Inr c" and "rd_fate (au_redis s) (rd_calls (au_redis s)) = Served"
    and "expiry_ok (js_sub (ac_exp c) (num_of_int (now div 1000)))"
  shows "fst (blacklist_access_token L C now token s) = Inr ()"
  using assms by (simp add: blacklist_access_token_def fail_closed_def dcatch_def on_store_def rts_set_def redis_call_def
      dbind_def db_monad Let_def)

theorem revoked_until_expiry_witness:
  "fst (blacklist_access_token sample_lib sample_auth_config 5000 sample_access_token sample_auth) = Inr ()
   \<and> fst (is_access_token_revoked sample_lib sample_auth_config 904999 sample_access_token
        (snd (blacklist_access_token sample_lib sample_auth_config 5000 sample_access_token sample_auth))) = Inr True"
proof -
  let ?B = "blacklist_access_token sample_lib sample_auth_config 5000 sample_access_token sample_auth"
  let ?R = "is_access_token_revoked sample_lib sample_auth_config 904999 sample_access_token (snd ?B)"
  have "ok (verify_access_token sample_lib sample_auth_config 5000 sample_access_token)" by code_simp
  then obtain c where "verify_access_token sample_lib sample_auth_config 5000 sample_access_token = Inr c" by (rule okE)
  moreover have "expiry_ok (js_sub (ac_exp (projr (verify_access_token sample_lib sample_auth_config 5000 sample_access_token)))
      (num_of_int (5000 div 1000)))" by code_simp
  ultimately have 1: "fst ?B = Inr ()"
    using served_blacklist by (simp add: sample_auth_def idle_redis_def)
  have "ok (verify_access_token sample_lib sample_auth_config 904999 sample_access_token)" by code_simp
  then obtain c where "verify_access_token sample_lib sample_auth_config 904999 sample_access_token = Inr c" by (rule okE)
  moreover have "rd_fate (au_redis (snd ?B)) = rd_fate (au_redis sample_auth)"
    by (rule blacklist_fate [of _ _ _ _ _ "fst ?B"]) simp
  ultimately have 2: "ok (fst ?R)"
    using served_check by (simp add: sample_auth_def idle_redis_def)
  obtain b where b: "fst ?R = Inr b" using 2 by (rule okE)
  have e: "num_field (fields_of (jwt_payload sample_lib sample_access_token)) ''exp'' = num_of_int 905" by code_simp
  have "?B = (Inr (), snd ?B)" using 1 by (metis prod.collapse)
  moreover have "?R = (Inr b, snd ?R)" using b by (metis prod.collapse)
  ultimately have b
    using revoked_until_expiry [OF sample_lib_decodes e, of 5000 sample_auth_config sample_auth "()" "snd ?B" "[]" "snd ?B"
        904999 b "snd ?R"] by (simp add: rts.later_def)
  then show ?thesis using 1 b by simp
qed

lemma unserved_call:
  "rd_fate rd (rd_calls rd) \<noteq> Served \<Longrightarrow> fst (redis_call cmd rd) = Inl redis_unavailable"
  by (cases "rd_fate rd (rd_calls rd)") (auto simp: redis_call_def Let_def split: prod.splits)

lemma unserved_fails_closed:
  assumes "rd_fate (au_redis s) (rd_calls (au_redis s)) \<noteq> Served"
  shows "fst (fail_closed (on_store (redis_call cmd)) s) = Inl token_store_unavailable"
    and "fst (fail_closed (dbind (on_store (redis_call cmd)) f) s) = Inl token_store_unavailable"
  using unserved_call [OF assms, of cmd]
  by (auto simp: fail_closed_def dcatch_def on_store_def dbind_def dthrow_def split: prod.splits sum.splits)

text \<open>A store that does not answer never lets a request through: when the command behind a revocation check is
  not served, the check fails with the 503 error, and revoking a token that has not expired fails with it too.\<close>

theorem store_failure_fails_closed:
  assumes "verify_access_token L C now token = Inr c"
    and "rd_fate (au_redis s) (rd_calls (au_redis s)) \<noteq> Served"
    and "js_less (Fin 0) (js_sub (ac_exp c) (num_of_int (now div 1000)))"
  shows "fst (is_access_token_revoked L C now token s) = Inl token_store_unavailable
    \<and> fst (blacklist_access_token L C now token s) = Inl token_store_unavailable"
  using assms
  by (simp add: is_access_token_revoked_def blacklist_access_token_def unserved_fails_closed rts_get_def rts_set_def Let_def)

theorem store_failure_fails_closed_witness:
  "fst (is_access_token_revoked sample_lib sample_auth_config 5000 sample_access_token
      (sample_auth\<lparr>au_redis := idle_redis\<lparr>rd_fate := \<lambda>_. Refused\<rparr>\<rparr>)) = Inl token_store_unavailable"
proof -
  have "ok (verify_access_token sample_lib sample_auth_config 5000 sample_access_token)" by code_simp
  then obtain c where c: "verify_access_token sample_lib sample_auth_config 5000 sample_access_token = Inr c"
    by (rule okE)
  have "js_less (Fin 0) (js_sub (ac_exp (projr (verify_access_token sample_lib sample_auth_config 5000 sample_access_token)))
      (num_of_int (5000 div 1000)))" by code_simp
  then show ?thesis
    using store_failure_fails_closed [OF c, of "sample_auth\<lparr>au_redis := idle_redis\<lparr>rd_fate := \<lambda>_. Refused\<rparr>\<rparr>"] c
    by simp
qed

subsection \<open>Pre-authentication tokens are good once\<close>

lemma preauth_takes:
  assumes "consume_two_factor_preauth_token L C now token s = (Inr uid, s')" and "jwt_decodes L"
  shows "rts_get_and_delete now (PREAUTH_KEY_PREFIX @ str_of (fields_of (jwt_payload L token)) ''jti'') (au_redis s)
    = (Inr (Some uid), au_redis s')"
  using assms
  by (auto simp: consume_two_factor_preauth_token_def fail_closed_Inr on_store_iff db_monad elim!: dbind_Inr_E
      dest!: verify_preauth_type split: if_splits)

lemma preauth_once:
  assumes jwt: "jwt_decodes L" and use: "consume_two_factor_preauth_token L C t token s = (Inr uid, s1)"
    and quiet: "\<forall>(t, c) \<in> set cs. \<not> writes_key c (PREAUTH_KEY_PREFIX @ str_of (fields_of (jwt_payload L token)) ''jti'')"
    and later: "au_redis s2 = rts.later cs (au_redis s1)" and "t \<le> t'"
  shows "\<not> ok (fst (consume_two_factor_preauth_token L C t' token s2))"
proof
  assume "ok (fst (consume_two_factor_preauth_token L C t' token s2))"
  then obtain v where "fst (consume_two_factor_preauth_token L C t' token s2) = Inr v" by (rule okE)
  then have "consume_two_factor_preauth_token L C t' token s2
      = (Inr v, snd (consume_two_factor_preauth_token L C t' token s2))" by (metis prod.collapse)
  from preauth_takes [OF this jwt, unfolded later]
  show False
    using rts.taken_once [OF preauth_takes [OF use jwt] quiet \<open>t \<le> t'\<close>] by blast
qed

text \<open>A pre-authentication token is consumed at most once: after one consumption succeeded, every later one of the
  same token fails, whatever happens to other keys of the store in between and whichever commands fail.\<close>

theorem preauth_token_single_use:
  assumes "jwt_decodes L" and "consume_two_factor_preauth_token L C t token s = (Inr uid, s1)"
    and "\<forall>(t, c) \<in> set cs. \<not> writes_key c (PREAUTH_KEY_PREFIX @ str_of (fields_of (jwt_payload L token)) ''jti'')"
    and "au_redis s2 = rts.later cs (au_redis s1)" and "t \<le> t'"
  shows "\<not> ok (fst (consume_two_factor_preauth_token L C t' token s2))"
  using assms by (rule preauth_once)

theorem preauth_token_single_use_witness:
  "\<exists>token s uid s1. issue_two_factor_preauth_token sample_lib sample_auth_config 5000 ''ann'' sample_auth = (Inr token, s)
     \<and> consume_two_factor_preauth_token sample_lib sample_auth_config 6000 token s = (Inr uid, s1)
     \<and> \<not> ok (fst (consume_two_factor_preauth_token sample_lib sample_auth_config 7000 token s1))"
proof -
  let ?I = "issue_two_factor_preauth_token sample_lib sample_auth_config 5000 ''ann'' sample_auth"
  let ?U = "consume_two_factor_preauth_token sample_lib sample_auth_config 6000 (projr (fst ?I)) (snd ?I)"
  have "ok (fst ?I)" by code_simp
  then have I: "?I = (Inr (projr (fst ?I)), snd ?I)" by (metis okE prod.collapse sum.sel(2))
  have "ok (fst ?U)" by code_simp
  then have U: "?U = (Inr (projr (fst ?U)), snd ?U)" by (metis okE prod.collapse sum.sel(2))
  have "\<not> ok (fst (consume_two_factor_preauth_token sample_lib sample_auth_config 7000 (projr (fst ?I)) (snd ?U)))"
    using preauth_token_single_use [OF sample_lib_decodes U, of "[]" "snd ?U" 7000] by (simp add: rts.later_def)
  with I U show ?thesis by blast
qed

end
