(* ===== verification/Refresh_Rotation.thy ===== *)
theory Refresh_Rotation
  imports Auth_Token
begin

text \<open>
  Issuing, refreshing and revoking refresh tokens: the stateful rest of \<^verbatim>\<open>token.service.ts\<close>. A refresh reads the
  token's row, its family's active row, and rotates, in statements of their own: \<open>intf n\<close> is what other requests
  commit before the statement numbered \<open>n\<close>. \<open>token_step\<close> is the step relation of the atomic statements on the
  token table; a refresh is shown to be a sequence of such steps, and the invariants of rotation are proved over
  all sequences.
\<close>

subsection \<open>Issuing\<close>

record auth_user_response =
  ax_id :: ident
  ax_email :: string
  ax_first_name :: string
  ax_last_name :: string
  ax_role :: role
  ax_is_2fa_enabled :: bool

definition to_auth_user_response :: "user_row \<Rightarrow> auth_user_response" where
  "to_auth_user_response u = \<lparr>ax_id = ur_id u, ax_email = ur_email u, ax_first_name = ur_first_name u,
     ax_last_name = ur_last_name u, ax_role = ur_role u, ax_is_2fa_enabled = ur_is_2fa_enabled u\<rparr>"

record auth_tokens =
  at_access :: string
  at_refresh :: string
  at_user :: auth_user_response

definition generate_tokens ::
    "env \<Rightarrow> auth_lib \<Rightarrow> auth_config \<Rightarrow> millis \<Rightarrow> user_row \<Rightarrow> string option \<Rightarrow> (auth_state, auth_tokens) st_op" where
  "generate_tokens E L C now u family =
     dbind (if truthy family then dret (the family) else draw (random_uuid L)) (\<lambda>final_family.
     dbind (sign_access_token L C now u final_family) (\<lambda>access.
     dbind (sign_refresh_token L C now (ur_id u) final_family) (\<lambda>refresh.
     dbind (on_db (create_refresh_token E (sha256_hex L) now refresh (ur_id u) final_family (now + REFRESH_TOKEN_TTL_MS))) (\<lambda>_.
     dret \<lparr>at_access = access, at_refresh = refresh, at_user = to_auth_user_response u\<rparr>))))"

subsection \<open>Refreshing\<close>

definition REFRESH_GRACE_PERIOD_SECONDS :: int where
  "REFRESH_GRACE_PERIOD_SECONDS = 30"

definition others_commit :: "(database \<Rightarrow> database) \<Rightarrow> (auth_state, unit) st_op" where
  "others_commit f = on_db (dupdate f)"

fun is_authentication_error :: "error \<Rightarrow> bool" where
  "is_authentication_error (ApplicationError (AuthenticationError _)) = True"
| "is_authentication_error _ = False"

text \<open>A superseded token: the family has another active row; after the grace period the family is revoked.\<close>

definition check_superseded ::
    "(nat \<Rightarrow> database \<Rightarrow> database) \<Rightarrow> millis \<Rightarrow> refresh_token_row \<Rightarrow> refresh_token_row option \<Rightarrow> (auth_state, unit) st_op" where
  "check_superseded intf now r latest =
     (case latest of
        None \<Rightarrow> dret ()
      | Some l \<Rightarrow>
          if rtk_id l \<noteq> rtk_id r \<and> REFRESH_GRACE_PERIOD_SECONDS * 1000 \<le> now - rtk_created_at l
          then dbind (others_commit (intf 3)) (\<lambda>_.
               dbind (on_db (revoke_all_tokens_in_family now (rtk_family_id r))) (\<lambda>_.
               dthrow (authentication_error ''Token has been superseded - possible theft'')))
          else dret ())"

definition rotate_for ::
    "env \<Rightarrow> auth_lib \<Rightarrow> auth_config \<Rightarrow> millis \<Rightarrow> (nat \<Rightarrow> database \<Rightarrow> database) \<Rightarrow> refresh_token_row \<Rightarrow> user_row
      \<Rightarrow> (auth_state, auth_tokens) st_op" where
  "rotate_for E L C now intf r u =
     dbind (sign_access_token L C now u (rtk_family_id r)) (\<lambda>access.
     dbind (sign_refresh_token L C now (ur_id u) (rtk_family_id r)) (\<lambda>new_refresh.
     dbind (others_commit (intf 4)) (\<lambda>_.
     dbind (on_db (rotate_refresh_token E (sha256_hex L) now (rtk_id r) new_refresh (ur_id u) (rtk_family_id r)
                     (now + REFRESH_TOKEN_TTL_MS))) (\<lambda>rotated.
     if \<not> rotated then dthrow (authentication_error ''Refresh token already used'')
     else dret \<lparr>at_access = access, at_refresh = new_refresh, at_user = to_auth_user_response u\<rparr>))))"

definition refresh_checked ::
    "env \<Rightarrow> auth_lib \<Rightarrow> auth_config \<Rightarrow> millis \<Rightarrow> (nat \<Rightarrow> database \<Rightarrow> database) \<Rightarrow> ident \<Rightarrow> ident
      \<Rightarrow> refresh_token_row \<Rightarrow> user_row \<Rightarrow> (auth_state, auth_tokens) st_op" where
  "refresh_checked E L C now intf sub family r u =
     (if rtk_revoked_at r \<noteq> None
      then dbind (others_commit (intf 1)) (\<lambda>_.
           dbind (on_db (revoke_all_tokens_in_family now (rtk_family_id r))) (\<lambda>_.
           dthrow (authentication_error ''Token revoked - possible theft detected'')))
      else if rtk_expires_at r < now then dthrow (authentication_error ''Refresh token expired'')
      else if rtk_family_id r \<noteq> family then dthrow (authentication_error ''Family ID mismatch'')
      else if rtk_user_id r \<noteq> sub then dthrow (authentication_error ''User ID mismatch'')
      else dbind (others_commit (intf 2)) (\<lambda>_.
           dbind (on_db (dget (find_active_refresh_token_by_family now (rtk_family_id r)))) (\<lambda>latest.
           dbind (check_superseded intf now r latest) (\<lambda>_.
           rotate_for E L C now intf r u))))"

definition refresh_token ::
    "env \<Rightarrow> auth_lib \<Rightarrow> auth_config \<Rightarrow> millis \<Rightarrow> (nat \<Rightarrow> database \<Rightarrow> database) \<Rightarrow> string \<Rightarrow> (auth_state, auth_tokens) st_op" where
  "refresh_token E L C now intf token =
     dcatch
       (dbind (dlift (verify_refresh_token L C now token)) (\<lambda>(sub, family).
        dbind (others_commit (intf 0)) (\<lambda>_.
        dbind (on_db (find_refresh_token_with_user (sha256_hex L) token)) (\<lambda>record.
        case record of
          None \<Rightarrow> dthrow (authentication_error ''Invalid refresh token'')
        | Some (r, u) \<Rightarrow> refresh_checked E L C now intf sub family r u))))
       (\<lambda>e. if is_authentication_error e then dthrow e else dthrow (authentication_error ''Invalid refresh token''))"

definition invalidate_all_user_tokens :: "ident \<Rightarrow> (auth_state, unit) st_op" where
  "invalidate_all_user_tokens uid = on_db (delete_refresh_tokens_by_user_id uid)"

subsection \<open>The steps of the token table\<close>

text \<open>
  \<open>token_step E H (db, spent) (db', spent')\<close>: one statement of one request, or a change outside the token table. \<open>spent\<close>
  collects the identifiers of the rows that a rotation has consumed. A new family starts under a fresh
  identifier, a random UUID; a rotation continues the family of the row it consumes.
\<close>

inductive token_step :: "env \<Rightarrow> (string \<Rightarrow> string) \<Rightarrow> database \<times> ident list \<Rightarrow> database \<times> ident list \<Rightarrow> bool"
  for E H where
  start: "create_refresh_token E H now token uid family expires db = (Inr r, db')
    \<Longrightarrow> family \<notin> rtk_family_id ` set (refresh_tokens db) \<Longrightarrow> token_step E H (db, spent) (db', spent)"
| rotate: "rotate_refresh_token E H now i token uid family expires db = (Inr b, db')
    \<Longrightarrow> (\<And>r. r \<in> set (refresh_tokens db) \<Longrightarrow> rtk_id r = i \<Longrightarrow> rtk_family_id r = family)
    \<Longrightarrow> token_step E H (db, spent) (db', if b then i # spent else spent)"
| revoke: "revoke_refresh_token now i db = (Inr b, db') \<Longrightarrow> token_step E H (db, spent) (db', spent)"
| revoke_family: "revoke_all_tokens_in_family now family db = (Inr (), db') \<Longrightarrow> token_step E H (db, spent) (db', spent)"
| delete_one: "delete_refresh_token_by_id i db = (Inr (), db') \<Longrightarrow> token_step E H (db, spent) (db', spent)"
| delete_token: "delete_refresh_token_by_token H token db = (Inr (), db') \<Longrightarrow> token_step E H (db, spent) (db', spent)"
| delete_user: "delete_refresh_tokens_by_user_id uid db = (Inr (), db') \<Longrightarrow> token_step E H (db, spent) (db', spent)"
| elsewhere: "refresh_tokens db' = refresh_tokens db \<Longrightarrow> id_supply db \<le> id_supply db' \<Longrightarrow> token_step E H (db, spent) (db', spent)"

definition token_steps :: "env \<Rightarrow> (string \<Rightarrow> string) \<Rightarrow> database \<times> ident list \<Rightarrow> database \<times> ident list \<Rightarrow> bool" where
  "token_steps E H = (token_step E H)\<^sup>*\<^sup>*"

definition drawn :: "env \<Rightarrow> database \<Rightarrow> ident \<Rightarrow> bool" where
  "drawn E db i \<longleftrightarrow> (\<exists>n < id_supply db. i = gen_id E n)"

text \<open>The invariant: identifiers are never reused, a family has one active token at most, and a consumed row is
  consumed once and stays revoked.\<close>

definition tokens_ok :: "env \<Rightarrow> database \<times> ident list \<Rightarrow> bool" where
  "tokens_ok E S \<longleftrightarrow> (case S of (db, spent) \<Rightarrow>
     distinct (map rtk_id (refresh_tokens db)) \<and> (\<forall>r \<in> set (refresh_tokens db). drawn E db (rtk_id r))
     \<and> (\<forall>r \<in> set (refresh_tokens db). \<forall>r' \<in> set (refresh_tokens db).
          rtk_family_id r = rtk_family_id r' \<longrightarrow> rtk_revoked_at r = None \<longrightarrow> rtk_revoked_at r' = None \<longrightarrow> r = r')
     \<and> distinct spent \<and> (\<forall>i \<in> set spent. drawn E db i)
     \<and> (\<forall>r \<in> set (refresh_tokens db). rtk_id r \<in> set spent \<longrightarrow> rtk_revoked_at r \<noteq> None))"

lemma drawn_mono: "drawn E db i \<Longrightarrow> id_supply db \<le> id_supply db' \<Longrightarrow> drawn E db' i"
  unfolding drawn_def using order_less_le_trans by blast

lemma not_drawn: "inj (gen_id E) \<Longrightarrow> \<not> drawn E db (gen_id E (id_supply db))"
  by (auto simp: drawn_def dest: injD)

lemma drawn_new: "id_supply db' = Suc (id_supply db) \<Longrightarrow> drawn E db' (gen_id E (id_supply db))"
  by (auto simp: drawn_def)

text \<open>A statement that only drops or revokes rows keeps the invariant.\<close>

lemma tokens_ok_shrink:
  assumes "tokens_ok E (db, spent)" and "id_supply db \<le> id_supply db'"
    and "distinct (map rtk_id (refresh_tokens db'))"
    and "\<And>r'. r' \<in> set (refresh_tokens db') \<Longrightarrow> \<exists>r \<in> set (refresh_tokens db). rtk_id r' = rtk_id r
      \<and> rtk_family_id r' = rtk_family_id r \<and> (rtk_revoked_at r' = None \<longrightarrow> r' = r)
      \<and> (rtk_revoked_at r \<noteq> None \<longrightarrow> rtk_revoked_at r' \<noteq> None)"
  shows "tokens_ok E (db', spent)"
  unfolding tokens_ok_def prod.case
proof (intro conjI ballI impI)
  show "distinct (map rtk_id (refresh_tokens db'))" by (rule assms(3))
  show "distinct spent" using assms(1) by (simp add: tokens_ok_def)
next
  fix r' assume "r' \<in> set (refresh_tokens db')"
  then show "drawn E db' (rtk_id r')"
    using assms(1,2) assms(4) [of r'] drawn_mono unfolding tokens_ok_def by fastforce
next
  fix r1 r2 assume "r1 \<in> set (refresh_tokens db')" "r2 \<in> set (refresh_tokens db')"
    "rtk_family_id r1 = rtk_family_id r2" "rtk_revoked_at r1 = None" "rtk_revoked_at r2 = None"
  then show "r1 = r2"
    using assms(1) assms(4) [of r1] assms(4) [of r2] unfolding tokens_ok_def by fastforce
next
  fix i assume "i \<in> set spent"
  then show "drawn E db' i" using assms(1,2) drawn_mono unfolding tokens_ok_def by fastforce
next
  fix r' assume "r' \<in> set (refresh_tokens db')" "rtk_id r' \<in> set spent"
  then show "rtk_revoked_at r' \<noteq> None"
    using assms(1) assms(4) [of r'] unfolding tokens_ok_def by fastforce
qed

text \<open>Adding an active row under a fresh identifier to a family without active rows keeps the invariant.\<close>

lemma tokens_ok_add:
  assumes "tokens_ok E (db, spent)" and "inj (gen_id E)"
    and "refresh_tokens db' = refresh_tokens db @ [r]" and "id_supply db' = Suc (id_supply db)"
    and "rtk_id r = gen_id E (id_supply db)"
    and "\<And>r'. r' \<in> set (refresh_tokens db) \<Longrightarrow> rtk_family_id r' = rtk_family_id r \<Longrightarrow> rtk_revoked_at r' \<noteq> None"
  shows "tokens_ok E (db', spent)"
proof -
  have old: "drawn E db i \<Longrightarrow> drawn E db' i \<and> i \<noteq> rtk_id r" for i
    using drawn_mono [of E db i db'] not_drawn [OF assms(2)] assms(4,5) by auto
  have new: "drawn E db' (rtk_id r)"
    using drawn_new assms(4,5) by simp
  have rows: "set (refresh_tokens db') = insert r (set (refresh_tokens db))"
    using assms(3) by simp
  note ok = assms(1) [unfolded tokens_ok_def prod.case]
  show ?thesis
    unfolding tokens_ok_def prod.case rows
  proof (intro conjI ballI impI)
    show "distinct (map rtk_id (refresh_tokens db'))"
      using ok old assms(3) by (auto dest: sym)
    show "distinct spent" using ok by simp
  next
    fix r' assume "r' \<in> insert r (set (refresh_tokens db))"
    then show "drawn E db' (rtk_id r')" using ok old new by auto
  next
    fix r1 r2 assume "r1 \<in> insert r (set (refresh_tokens db))" "r2 \<in> insert r (set (refresh_tokens db))"
      "rtk_family_id r1 = rtk_family_id r2" "rtk_revoked_at r1 = None" "rtk_revoked_at r2 = None"
    then show "r1 = r2" using ok assms(6) by (metis insertE)
  next
    fix i assume "i \<in> set spent"
    then show "drawn E db' i" using ok old by blast
  next
    fix r' assume "r' \<in> insert r (set (refresh_tokens db))" "rtk_id r' \<in> set spent"
    then show "rtk_revoked_at r' \<noteq> None" using ok old by blast
  qed
qed

lemma insert_refresh_token_Inr:
  assumes "insert_refresh_token E now digest uid family expires db = (Inr r, db')"
  shows "db' = db\<lparr>refresh_tokens := refresh_tokens db @ [r], id_supply := id_supply db + 1\<rparr>
    \<and> rtk_id r = gen_id E (id_supply db) \<and> rtk_family_id r = family \<and> rtk_token r = digest \<and> rtk_revoked_at r = None
    \<and> rtk_user_id r = uid \<and> rtk_created_at r = now \<and> rtk_expires_at r = expires"
  using assms by (auto simp: insert_refresh_token_def Let_def split: if_splits)

lemma update_where_shrinks:
  assumes "r' \<in> set (update_where p (\<lambda>r. r\<lparr>rtk_revoked_at := Some now\<rparr>) rs)"
  shows "\<exists>r \<in> set rs. rtk_id r' = rtk_id r \<and> rtk_family_id r' = rtk_family_id r
    \<and> (rtk_revoked_at r' = None \<longrightarrow> r' = r) \<and> (rtk_revoked_at r \<noteq> None \<longrightarrow> rtk_revoked_at r' \<noteq> None)"
  using assms by (auto simp: set_update_where)

lemma tokens_ok_revoking:
  assumes "tokens_ok E (db, spent)"
  shows "tokens_ok E (db\<lparr>refresh_tokens := update_where p (\<lambda>r. r\<lparr>rtk_revoked_at := Some now\<rparr>) (refresh_tokens db)\<rparr>, spent)"
  by (rule tokens_ok_shrink [OF assms])
    (use assms in \<open>auto simp: map_update_where tokens_ok_def dest!: update_where_shrinks\<close>)

lemma tokens_ok_deleting:
  assumes "tokens_ok E (db, spent)"
  shows "tokens_ok E (db\<lparr>refresh_tokens := delete_where p (refresh_tokens db)\<rparr>, spent)"
  by (rule tokens_ok_shrink [OF assms]) (use assms in \<open>auto simp: delete_where_def tokens_ok_def distinct_map_filter\<close>)

text \<open>What a rotation that succeeded has done.\<close>

lemma rotate_Inr:
  assumes "rotate_refresh_token E H now i token uid family expires db = (Inr b, db')"
  defines "p \<equiv> \<lambda>r. rtk_id r = i \<and> rtk_revoked_at r = None"
  defines "db1 \<equiv> db\<lparr>refresh_tokens := update_where p (\<lambda>r. r\<lparr>rtk_revoked_at := Some now\<rparr>) (refresh_tokens db)\<rparr>"
  shows "if b then count_where p (refresh_tokens db) = 1
              \<and> (\<exists>r. insert_refresh_token E now (H token) uid family expires db1 = (Inr r, db'))
         else count_where p (refresh_tokens db) \<noteq> 1 \<and> db' = db1"
proof -
  have rev: "revoke_refresh_token now i db = (Inr (count_where p (refresh_tokens db) = 1), db1)"
    by (simp add: revoke_refresh_token_def p_def db1_def Let_def)
  have step: "(if count_where p (refresh_tokens db) \<noteq> 1 then dret False
       else dbind (insert_refresh_token E now (H token) uid family expires) (\<lambda>_. dret True)) db1 = (Inr b, db')"
    using assms(1) by (simp add: rotate_refresh_token_def transaction_Inr_iff dbind_def rev)
  show ?thesis
  proof (cases "count_where p (refresh_tokens db) = 1")
    case True
    then have "dbind (insert_refresh_token E now (H token) uid family expires) (\<lambda>_. dret True) db1 = (Inr b, db')"
      using step by simp
    then show ?thesis using True by (auto simp: dret_def elim!: dbind_Inr_E)
  qed (use step in \<open>auto simp: dret_def\<close>)
qed

lemma count_where_1_E:
  assumes "count_where p rs = 1"
  obtains r where "r \<in> set rs" and "p r"
proof -
  have "\<not> (\<forall>r \<in> set rs. \<not> p r)" using assms count_where_0_iff by (metis zero_neq_one)
  then show thesis using that by blast
qed

lemma tokens_ok_spend:
  assumes "tokens_ok E (db, spent)" and "\<And>r. r \<in> set (refresh_tokens db) \<Longrightarrow> rtk_id r = i \<Longrightarrow> rtk_revoked_at r \<noteq> None"
    and "drawn E db i" and "i \<notin> set spent"
  shows "tokens_ok E (db, i # spent)"
  using assms unfolding tokens_ok_def by auto

lemma update_where_E:
  assumes "r' \<in> set (update_where p f rs)"
  obtains r where "r \<in> set rs" and "r' = (if p r then f r else r)"
  using assms unfolding set_update_where by blast

lemma revoked_by_update:
  assumes "r' \<in> set (update_where (\<lambda>r. rtk_id r = i \<and> rtk_revoked_at r = None) (\<lambda>r. r\<lparr>rtk_revoked_at := Some now\<rparr>) rs)"
    and "rtk_id r' = i"
  shows "rtk_revoked_at r' \<noteq> None"
  using assms by (elim update_where_E) (simp split: if_splits)

lemma tokens_ok_rotate:
  assumes ok: "tokens_ok E (db, spent)" and inj: "inj (gen_id E)"
    and run: "rotate_refresh_token E H now i token uid family expires db = (Inr b, db')"
    and fam: "\<And>r. r \<in> set (refresh_tokens db) \<Longrightarrow> rtk_id r = i \<Longrightarrow> rtk_family_id r = family"
  shows "tokens_ok E (db', if b then i # spent else spent)"
proof -
  let ?p = "\<lambda>r. rtk_id r = i \<and> rtk_revoked_at r = None"
  let ?db1 = "db\<lparr>refresh_tokens := update_where ?p (\<lambda>r. r\<lparr>rtk_revoked_at := Some now\<rparr>) (refresh_tokens db)\<rparr>"
  have ok1: "tokens_ok E (?db1, spent)" by (rule tokens_ok_revoking [OF ok])
  show ?thesis
  proof (cases b)
    case True
    then obtain r where one: "count_where ?p (refresh_tokens db) = 1"
      and ins: "insert_refresh_token E now (H token) uid family expires ?db1 = (Inr r, db')"
      using rotate_Inr [OF run] by auto
    from one obtain r0 where r0: "r0 \<in> set (refresh_tokens db)" "rtk_id r0 = i" "rtk_revoked_at r0 = None"
      by (rule count_where_1_E) auto
    have idle: "rtk_revoked_at r' \<noteq> None"
      if "r' \<in> set (refresh_tokens ?db1)" "rtk_family_id r' = family" for r'
    proof
      assume none: "rtk_revoked_at r' = None"
      have "r' \<in> set (update_where ?p (\<lambda>r. r\<lparr>rtk_revoked_at := Some now\<rparr>) (refresh_tokens db))"
        using that(1) by simp
      then obtain x where x: "x \<in> set (refresh_tokens db)" "r' = (if ?p x then x\<lparr>rtk_revoked_at := Some now\<rparr> else x)"
        by (rule update_where_E)
      have np: "\<not> ?p x" using none x(2) by (cases "?p x") simp_all
      then have "r' = x" using x(2) by (simp only: if_False)
      then have old: "r' \<in> set (refresh_tokens db)" "\<not> ?p r'" using x(1) np by simp_all
      have "r' = r0"
        using ok old none that(2) r0 fam [OF r0(1,2)] unfolding tokens_ok_def by auto
      then show False using r0 old by simp
    qed
    have ok2: "tokens_ok E (?db1, i # spent)"
    proof (rule tokens_ok_spend [OF ok1])
      show "rtk_revoked_at r' \<noteq> None" if "r' \<in> set (refresh_tokens ?db1)" "rtk_id r' = i" for r'
        using that revoked_by_update [of r' i now] by simp
      show "i \<notin> set spent" using ok r0 unfolding tokens_ok_def by auto
      have "drawn E db i" using ok r0 unfolding tokens_ok_def by auto
      then show "drawn E ?db1 i" by (simp add: drawn_def)
    qed
    note new = insert_refresh_token_Inr [OF ins]
    have "tokens_ok E (db', i # spent)"
    proof (rule tokens_ok_add [OF ok2 inj, of _ r])
      show "rtk_revoked_at r' \<noteq> None" if "r' \<in> set (refresh_tokens ?db1)" "rtk_family_id r' = rtk_family_id r" for r'
        using idle that new by simp
    qed (use new in simp_all)
    then show ?thesis using True by simp
  qed (use rotate_Inr [OF run] ok1 in simp)
qed

lemma tokens_ok_step:
  assumes "token_step E H S S'" and "inj (gen_id E)" and "tokens_ok E S"
  shows "tokens_ok E S'"
  using assms(1,3)
proof cases
  case (start now token uid family expires db r db' spent)
  then have "insert_refresh_token E now (H token) uid family expires db = (Inr r, db')"
    by (simp add: create_refresh_token_def)
  note new = insert_refresh_token_Inr [OF this]
  have "tokens_ok E (db', spent)"
  proof (rule tokens_ok_add [OF _ assms(2), of db _ _ r])
    show "tokens_ok E (db, spent)" using start assms(3) by simp
    show "rtk_revoked_at r' \<noteq> None" if "r' \<in> set (refresh_tokens db)" "rtk_family_id r' = rtk_family_id r" for r'
      using start(4) new that by (metis imageI)
  qed (use new in simp_all)
  then show ?thesis using start by simp
next
  case (rotate now i token uid family expires db b db' spent)
  then show ?thesis using tokens_ok_rotate [OF _ assms(2) rotate(3)] assms(3) by auto
next
  case (revoke now i db b db' spent)
  then show ?thesis using tokens_ok_revoking assms(3) by (auto simp: revoke_refresh_token_def Let_def)
next
  case (revoke_family now family db db' spent)
  then show ?thesis using tokens_ok_revoking assms(3) by (auto simp: revoke_all_tokens_in_family_def dupdate_def)
next
  case (delete_one i db db' spent)
  then show ?thesis
    using tokens_ok_deleting assms(3) by (auto simp: delete_refresh_token_by_id_def split: if_splits)
next
  case (delete_token token db db' spent)
  then show ?thesis using tokens_ok_deleting assms(3) by (auto simp: delete_refresh_token_by_token_def dupdate_def)
next
  case (delete_user uid db db' spent)
  then show ?thesis using tokens_ok_deleting assms(3) by (auto simp: delete_refresh_tokens_by_user_id_def dupdate_def)
next
  case (elsewhere db' db spent)
  then show ?thesis
    using tokens_ok_shrink [of E db spent db'] assms(3) by (auto simp: tokens_ok_def)
qed

lemma tokens_ok_steps:
  assumes "token_steps E H S S'" and "inj (gen_id E)" and "tokens_ok E S"
  shows "tokens_ok E S'"
  using assms unfolding token_steps_def by (induction rule: rtranclp_induct) (auto intro: tokens_ok_step)

subsection \<open>A refresh is a sequence of steps\<close>

lemma step_extends: "token_step E H (db, spent) (db', spent') \<Longrightarrow> \<exists>new. spent' = new @ spent"
  by (cases rule: token_step.cases) (auto intro: exI [of _ "[_]"])

lemma steps_extend:
  assumes "token_steps E H S S'"
  shows "\<exists>new. snd S' = new @ snd S"
  using assms unfolding token_steps_def
proof (induction rule: rtranclp_induct)
  case (step S' S'')
  then obtain new where "snd S' = new @ snd S" by blast
  moreover obtain new' where "snd S'' = new' @ snd S'"
    using step_extends [of E H "fst S'" "snd S'" "fst S''" "snd S''"] step(2) by auto
  ultimately show ?case by auto
qed simp

text \<open>\<open>in_family E i f db\<close>: an identifier that has been given out names, for good, rows of one family only.\<close>

definition in_family :: "env \<Rightarrow> ident \<Rightarrow> ident \<Rightarrow> database \<Rightarrow> bool" where
  "in_family E i f db \<longleftrightarrow> drawn E db i \<and> (\<forall>r \<in> set (refresh_tokens db). rtk_id r = i \<longrightarrow> rtk_family_id r = f)"

lemma in_family_shrink:
  assumes "in_family E i f db" and "id_supply db \<le> id_supply db'"
    and "\<And>r'. r' \<in> set (refresh_tokens db') \<Longrightarrow> \<exists>r \<in> set (refresh_tokens db). rtk_id r' = rtk_id r
      \<and> rtk_family_id r' = rtk_family_id r"
  shows "in_family E i f db'"
  using assms drawn_mono unfolding in_family_def by metis

lemma in_family_revoking:
  "in_family E i f db \<Longrightarrow>
   in_family E i f (db\<lparr>refresh_tokens := update_where p (\<lambda>r. r\<lparr>rtk_revoked_at := Some now\<rparr>) (refresh_tokens db)\<rparr>)"
  by (erule in_family_shrink) (auto dest!: update_where_shrinks)

lemma in_family_deleting:
  "in_family E i f db \<Longrightarrow> in_family E i f (db\<lparr>refresh_tokens := delete_where p (refresh_tokens db)\<rparr>)"
  by (erule in_family_shrink) (auto simp: delete_where_def)

lemma in_family_insert:
  assumes "insert_refresh_token E now digest uid family expires db = (Inr r, db')" and "in_family E i f db" and "inj (gen_id E)"
  shows "in_family E i f db'"
proof -
  note new = insert_refresh_token_Inr [OF assms(1)]
  have "i \<noteq> rtk_id r"
    using assms(2) not_drawn [OF assms(3)] new by (auto simp: in_family_def)
  moreover have "drawn E db' i"
    using assms(2) new drawn_mono [of E db i db'] by (auto simp: in_family_def)
  ultimately show ?thesis
    using assms(2) new by (auto simp: in_family_def)
qed

lemma in_family_step:
  assumes "token_step E H S S'" and "inj (gen_id E)" and "in_family E i f (fst S)"
  shows "in_family E i f (fst S')"
  using assms(1,3)
proof cases
  case (start now token uid family expires db r db' spent)
  then show ?thesis using in_family_insert assms(2,3) by (auto simp: create_refresh_token_def)
next
  case (rotate now j token uid family expires db b db' spent)
  note rotate_Inr [OF rotate(3)]
  moreover have "in_family E i f db" using rotate assms(3) by simp
  ultimately have "in_family E i f db'"
    using in_family_insert [OF _ in_family_revoking assms(2)] in_family_revoking by (auto split: if_splits)
  then show ?thesis using rotate by simp
next
  case (revoke now j db b db' spent)
  then show ?thesis using in_family_revoking assms(3) by (auto simp: revoke_refresh_token_def Let_def)
next
  case (revoke_family now family db db' spent)
  then show ?thesis using in_family_revoking assms(3) by (auto simp: revoke_all_tokens_in_family_def dupdate_def)
next
  case (delete_one j db db' spent)
  then show ?thesis using in_family_deleting assms(3) by (auto simp: delete_refresh_token_by_id_def split: if_splits)
next
  case (delete_token token db db' spent)
  then show ?thesis using in_family_deleting assms(3) by (auto simp: delete_refresh_token_by_token_def dupdate_def)
next
  case (delete_user uid db db' spent)
  then show ?thesis using in_family_deleting assms(3) by (auto simp: delete_refresh_tokens_by_user_id_def dupdate_def)
next
  case (elsewhere db' db spent)
  then show ?thesis using in_family_shrink [of E i f db db'] assms(3) by auto
qed

lemma in_family_steps:
  assumes "token_steps E H S S'" and "inj (gen_id E)" and "in_family E i f (fst S)"
  shows "in_family E i f (fst S')"
  using assms unfolding token_steps_def by (induction rule: rtranclp_induct) (auto intro: in_family_step)

lemma token_steps_refl: "token_steps E H S S"
  by (simp add: token_steps_def)

lemma token_steps_trans: "token_steps E H S S' \<Longrightarrow> token_steps E H S' S'' \<Longrightarrow> token_steps E H S S''"
  unfolding token_steps_def by (rule rtranclp_trans)

lemma token_steps_one: "token_step E H S S' \<Longrightarrow> token_steps E H S S'"
  by (simp add: token_steps_def r_into_rtranclp)

text \<open>\<open>well_behaved\<close>: what other requests commit is itself made of steps.\<close>

definition well_behaved :: "env \<Rightarrow> (string \<Rightarrow> string) \<Rightarrow> (nat \<Rightarrow> database \<Rightarrow> database) \<Rightarrow> bool" where
  "well_behaved E H intf \<longleftrightarrow> (\<forall>n db spent. \<exists>spent'. token_steps E H (db, spent) (intf n db, spent'))"

lemma on_db_iff: "on_db m s = (r, s') \<longleftrightarrow> (\<exists>db. m (au_db s) = (r, db) \<and> s' = s\<lparr>au_db := db\<rparr>)"
  by (auto simp: on_db_def split: prod.splits)

lemma signing_keeps_db:
  "sign_access_token L C now u f s = (r, s') \<Longrightarrow> au_db s' = au_db s"
  "sign_refresh_token L C now uid f s = (r, s') \<Longrightarrow> au_db s' = au_db s"
  by (auto simp: sign_access_token_def sign_refresh_token_def token_claims_def draw_def dbind_def dret_def)

lemma others_commit_iff: "others_commit f s = (r, s') \<longleftrightarrow> r = Inr () \<and> s' = s\<lparr>au_db := f (au_db s)\<rparr>"
  by (auto simp: others_commit_def on_db_iff dupdate_def)

lemma others_step:
  assumes "well_behaved E H intf" and "others_commit (intf n) s = (r, s')"
  obtains spent' where "token_steps E H (au_db s, spent) (au_db s', spent')"
proof -
  have s': "au_db s' = intf n (au_db s)" using assms(2) by (simp add: others_commit_iff)
  obtain spent' where "token_steps E H (au_db s, spent) (intf n (au_db s), spent')"
    using assms(1) unfolding well_behaved_def by blast
  then show thesis using that s' by simp
qed

lemma rotate_fails_same:
  "rotate_refresh_token E H now i token uid family expires db = (Inl e, db') \<Longrightarrow> db' = db"
  by (simp add: rotate_refresh_token_def transaction_Inl_iff)

lemma rotate_for_steps:
  assumes inj: "inj (gen_id E)" and others: "well_behaved E (sha256_hex L) intf"
    and ok: "tokens_ok E (au_db s, spent)" and fam: "in_family E (rtk_id r) (rtk_family_id r) (au_db s)"
    and run: "rotate_for E L C now intf r u s = (x, s')"
  shows "\<exists>spent'. token_steps E (sha256_hex L) (au_db s, spent) (au_db s', spent')
    \<and> (ok x \<longrightarrow> rtk_id r \<in> set spent' \<and> rtk_id r \<notin> set spent)"
proof -
  let ?H = "sha256_hex L"
  obtain access s1 where 1: "sign_access_token L C now u (rtk_family_id r) s = (Inr access, s1)"
    by (auto simp: sign_access_token_def token_claims_def draw_def dbind_def dret_def)
  obtain refresh s2 where 2: "sign_refresh_token L C now (ur_id u) (rtk_family_id r) s1 = (Inr refresh, s2)"
    by (auto simp: sign_refresh_token_def token_claims_def draw_def dbind_def dret_def)
  have db2: "au_db s2 = au_db s" using signing_keeps_db(1) [OF 1] signing_keeps_db(2) [OF 2] by simp
  obtain s3 where 3: "others_commit (intf 4) s2 = (Inr (), s3)" by (simp add: others_commit_iff)
  obtain sp3 where st3: "token_steps E ?H (au_db s, spent) (au_db s3, sp3)"
    using others_step [OF others 3, of spent] db2 by auto
  let ?rot = "rotate_refresh_token E ?H now (rtk_id r) refresh (ur_id u) (rtk_family_id r) (now + REFRESH_TOKEN_TTL_MS)"
  obtain y db4 where 4: "?rot (au_db s3) = (y, db4)" by fastforce
  have x: "(x, s') = (case y of Inl e \<Rightarrow> (Inl e, s3\<lparr>au_db := db4\<rparr>)
      | Inr b \<Rightarrow> (if b then (Inr \<lparr>at_access = access, at_refresh = refresh, at_user = to_auth_user_response u\<rparr>, s3\<lparr>au_db := db4\<rparr>)
                   else (Inl (authentication_error ''Refresh token already used''), s3\<lparr>au_db := db4\<rparr>)))"
    using run 4 by (simp add: rotate_for_def 1 2 3 dbind_def on_db_def db_monad
        split: sum.splits if_splits)
  have ok3: "tokens_ok E (au_db s3, sp3)" by (rule tokens_ok_steps [OF st3 inj ok])
  have fam3: "in_family E (rtk_id r) (rtk_family_id r) (au_db s3)"
    using in_family_steps [OF st3 inj] fam by simp
  show ?thesis
  proof (cases y)
    case (Inl e)
    then have "db4 = au_db s3" and "\<not> ok x" and "au_db s' = db4"
      using x rotate_fails_same 4 by auto
    then show ?thesis using st3 by auto
  next
    case (Inr b)
    have step: "token_step E ?H (au_db s3, sp3) (db4, if b then rtk_id r # sp3 else sp3)"
      using token_step.rotate [OF 4 [unfolded Inr]] fam3 by (simp add: in_family_def)
    have st4: "token_steps E ?H (au_db s, spent) (au_db s', if b then rtk_id r # sp3 else sp3)"
      using token_steps_trans [OF st3 token_steps_one [OF step]] x Inr by (auto split: if_splits)
    have "distinct (if b then rtk_id r # sp3 else sp3)"
      using tokens_ok_step [OF step inj ok3] by (simp add: tokens_ok_def)
    moreover have "set spent \<subseteq> set sp3" using steps_extend [OF st3] by auto
    moreover have "ok x \<longleftrightarrow> b" using x Inr by (auto split: if_splits)
    ultimately show ?thesis using st4 by (cases b) auto
  qed
qed

lemma check_superseded_steps:
  assumes others: "well_behaved E H intf" and run: "check_superseded intf now r latest s = (x, s')"
  shows "\<exists>spent'. token_steps E H (au_db s, spent) (au_db s', spent')"
proof (cases "\<exists>l. latest = Some l \<and> rtk_id l \<noteq> rtk_id r \<and> REFRESH_GRACE_PERIOD_SECONDS * 1000 \<le> now - rtk_created_at l")
  case True
  obtain s1 where 1: "others_commit (intf 3) s = (Inr (), s1)" by (simp add: others_commit_iff)
  obtain sp1 where st1: "token_steps E H (au_db s, spent) (au_db s1, sp1)"
    using others_step [OF others 1] by blast
  have "au_db s' = snd (revoke_all_tokens_in_family now (rtk_family_id r) (au_db s1))"
    using run True by (auto simp: check_superseded_def 1 on_db_def dbind_def db_monad
        revoke_all_tokens_in_family_def)
  then have "token_step E H (au_db s1, sp1) (au_db s', sp1)"
    by (intro token_step.revoke_family [of now "rtk_family_id r"]) (simp add: revoke_all_tokens_in_family_def dupdate_def)
  then show ?thesis using token_steps_trans [OF st1 token_steps_one] by blast
next
  case False
  then have "s' = s" using run by (auto simp: check_superseded_def db_monad split: option.splits if_splits)
  then show ?thesis using token_steps_refl by blast
qed

lemma refresh_checked_steps:
  assumes inj: "inj (gen_id E)" and others: "well_behaved E (sha256_hex L) intf"
    and ok: "tokens_ok E (au_db s, spent)" and row: "r \<in> set (refresh_tokens (au_db s))"
    and run: "refresh_checked E L C now intf sub family r u s = (x, s')"
  shows "\<exists>spent'. token_steps E (sha256_hex L) (au_db s, spent) (au_db s', spent')
    \<and> (ok x \<longrightarrow> rtk_id r \<in> set spent' \<and> rtk_id r \<notin> set spent)"
proof -
  let ?H = "sha256_hex L"
  have fam: "in_family E (rtk_id r) (rtk_family_id r) (au_db s)"
    using ok row by (auto simp: in_family_def tokens_ok_def distinct_map dest: inj_onD)
  consider (revoked) "rtk_revoked_at r \<noteq> None"
    | (stop) e where "(x, s') = (Inl e, s)"
    | (go) "dbind (others_commit (intf 2)) (\<lambda>_.
           dbind (on_db (dget (find_active_refresh_token_by_family now (rtk_family_id r)))) (\<lambda>latest.
           dbind (check_superseded intf now r latest) (\<lambda>_. rotate_for E L C now intf r u))) s = (x, s')"
    using run by (auto simp: refresh_checked_def dthrow_def split: if_splits)
  then show ?thesis
  proof cases
    case revoked
    obtain s1 where 1: "others_commit (intf 1) s = (Inr (), s1)" by (simp add: others_commit_iff)
    obtain sp1 where st1: "token_steps E ?H (au_db s, spent) (au_db s1, sp1)"
      using others_step [OF others 1] by blast
    have "au_db s' = snd (revoke_all_tokens_in_family now (rtk_family_id r) (au_db s1))" and x: "\<not> ok x"
      using run revoked by (auto simp: refresh_checked_def 1 [unfolded One_nat_def] on_db_def dbind_def db_monad
          revoke_all_tokens_in_family_def)
    then have "token_step E ?H (au_db s1, sp1) (au_db s', sp1)"
      by (intro token_step.revoke_family [of now "rtk_family_id r"]) (simp add: revoke_all_tokens_in_family_def dupdate_def)
    then show ?thesis using token_steps_trans [OF st1 token_steps_one] x by blast
  next
    case stop
    then show ?thesis using token_steps_refl by fastforce
  next
    case go
    obtain s1 where 1: "others_commit (intf 2) s = (Inr (), s1)" by (simp add: others_commit_iff)
    obtain sp1 where st1: "token_steps E ?H (au_db s, spent) (au_db s1, sp1)"
      using others_step [OF others 1] by blast
    let ?latest = "find_active_refresh_token_by_family now (rtk_family_id r) (au_db s1)"
    have 2: "dbind (check_superseded intf now r ?latest) (\<lambda>_. rotate_for E L C now intf r u) s1 = (x, s')"
      using go by (simp add: 1 on_db_def dbind_def db_monad)
    then show ?thesis
    proof (cases rule: dbind_cases)
      case (fail e)
      then show ?thesis
        using check_superseded_steps [OF others fail(1), of sp1] token_steps_trans [OF st1] by fastforce
    next
      case (pass y s2)
      obtain sp2 where "token_steps E ?H (au_db s1, sp1) (au_db s2, sp2)"
        using check_superseded_steps [OF others pass(1)] by blast
      then have st2: "token_steps E ?H (au_db s, spent) (au_db s2, sp2)" by (rule token_steps_trans [OF st1])
      have "tokens_ok E (au_db s2, sp2)" by (rule tokens_ok_steps [OF st2 inj ok])
      moreover have "in_family E (rtk_id r) (rtk_family_id r) (au_db s2)"
        using in_family_steps [OF st2 inj] fam by simp
      ultimately obtain sp3 where "token_steps E ?H (au_db s2, sp2) (au_db s', sp3)"
        and "ok x \<longrightarrow> rtk_id r \<in> set sp3 \<and> rtk_id r \<notin> set sp2"
        using rotate_for_steps [OF inj others _ _ pass(2)] by blast
      moreover have "set spent \<subseteq> set sp2" using steps_extend [OF st2] by auto
      ultimately show ?thesis using token_steps_trans [OF st2] by blast
    qed
  qed
qed

lemma dcatch_rethrow:
  assumes "dcatch m (\<lambda>e. dthrow (f e)) s = (x, s')"
  obtains y where "m s = (y, s')" and "ok x \<longleftrightarrow> ok y"
  using assms by (auto simp: dcatch_def dthrow_def split: prod.splits sum.splits)

lemma refresh_steps:
  assumes inj: "inj (gen_id E)" and others: "well_behaved E (sha256_hex L) intf"
    and ok: "tokens_ok E (au_db s, spent)"
    and run: "refresh_token E L C now intf token s = (x, s')"
  shows "\<exists>spent'. token_steps E (sha256_hex L) (au_db s, spent) (au_db s', spent')
    \<and> (ok x \<longrightarrow> (\<exists>r \<in> set (refresh_tokens (intf 0 (au_db s))). rtk_token r = sha256_hex L token
         \<and> rtk_id r \<in> set spent' \<and> rtk_id r \<notin> set spent))"
proof -
  let ?H = "sha256_hex L"
  let ?body = "dbind (dlift (verify_refresh_token L C now token)) (\<lambda>(sub, family).
        dbind (others_commit (intf 0)) (\<lambda>_.
        dbind (on_db (find_refresh_token_with_user ?H token)) (\<lambda>record.
        case record of
          None \<Rightarrow> dthrow (authentication_error ''Invalid refresh token'')
        | Some (r, u) \<Rightarrow> refresh_checked E L C now intf sub family r u)))"
  from run obtain y where body: "?body s = (y, s')" and xy: "ok x \<longleftrightarrow> ok y"
    unfolding refresh_token_def
    by (elim dcatch_rethrow [where f = "\<lambda>e. if is_authentication_error e then e else authentication_error ''Invalid refresh token''",
          unfolded if_distrib [of dthrow]]) auto
  obtain s1 where 1: "others_commit (intf 0) s = (Inr (), s1)" and db1: "au_db s1 = intf 0 (au_db s)"
    by (simp add: others_commit_iff)
  obtain sp1 where st1: "token_steps E ?H (au_db s, spent) (au_db s1, sp1)"
    using others_step [OF others 1] by blast
  consider (bad) "\<not> ok y" "s' = s"
    | (missing) "\<not> ok y" "s' = s1"
    | (found) sub family r u where "r \<in> set (refresh_tokens (au_db s1))" "rtk_token r = ?H token"
        "refresh_checked E L C now intf sub family r u s1 = (y, s')"
  proof (cases "verify_refresh_token L C now token")
    case (Inl e)
    then show thesis using body that(1) by (auto simp: db_monad)
  next
    case (Inr p)
    obtain sub family where p: "p = (sub, family)" by (cases p)
    let ?go = "\<lambda>record. case record of
          None \<Rightarrow> dthrow (authentication_error ''Invalid refresh token'')
        | Some (r, u) \<Rightarrow> refresh_checked E L C now intf sub family r u"
    have b: "dbind (on_db (find_refresh_token_with_user ?H token)) ?go s1 = (y, s')"
      using body Inr p by (simp add: dbind_def db_monad 1)
    show thesis
    proof (cases "find_by rtk_token (?H token) (refresh_tokens (au_db s1))")
      case None
      then have "on_db (find_refresh_token_with_user ?H token) s1 = (Inr None, s1)"
        by (simp add: on_db_def find_refresh_token_with_user_def)
      from dbind_step [of "on_db (find_refresh_token_with_user ?H token)", OF this, of ?go] b
      have "\<not> ok y \<and> s' = s1" by (auto simp: dthrow_def)
      then show thesis using that(2) by blast
    next
      case (Some r)
      then have row: "r \<in> set (refresh_tokens (au_db s1))" "rtk_token r = ?H token"
        by (auto dest: find_by_SomeD)
      show thesis
      proof (cases "find_user (rtk_user_id r) (au_db s1)")
        case None
        then have "on_db (find_refresh_token_with_user ?H token) s1 = (Inl (PlainError ''Inconsistent query result''), s1)"
          using Some by (simp add: on_db_def find_refresh_token_with_user_def)
        from dbind_fail [of "on_db (find_refresh_token_with_user ?H token)", OF this, of ?go] b
        have "\<not> ok y \<and> s' = s1" by auto
        then show thesis using that(2) by blast
      next
        case (Some u)
        then have "on_db (find_refresh_token_with_user ?H token) s1 = (Inr (Some (r, u)), s1)"
          using \<open>find_by rtk_token (?H token) (refresh_tokens (au_db s1)) = Some r\<close>
          by (simp add: on_db_def find_refresh_token_with_user_def)
        from dbind_step [of "on_db (find_refresh_token_with_user ?H token)", OF this, of ?go] b
        have "refresh_checked E L C now intf sub family r u s1 = (y, s')" by simp
        then show thesis using row that(3) by blast
      qed
    qed
  qed
  then show ?thesis
  proof cases
    case bad
    then show ?thesis using xy token_steps_refl by blast
  next
    case missing
    then show ?thesis using xy st1 by blast
  next
    case found
    have ok1: "tokens_ok E (au_db s1, sp1)" by (rule tokens_ok_steps [OF st1 inj ok])
    obtain sp2 where st2: "token_steps E ?H (au_db s1, sp1) (au_db s', sp2)"
      and spent: "ok y \<longrightarrow> rtk_id r \<in> set sp2 \<and> rtk_id r \<notin> set sp1"
      using refresh_checked_steps [OF inj others ok1 found(1) found(3)] by blast
    have "set spent \<subseteq> set sp1" using steps_extend [OF st1] by auto
    then show ?thesis
      using token_steps_trans [OF st1 st2] spent xy found(1,2) db1 by (metis subsetD)
  qed
qed

text \<open>C10: Whatever requests interleave, starting families, rotating, revoking and deleting tokens, a refresh-token
  family never has two active tokens, and no token is consumed by two rotations: of competing rotations of one
  token at most one succeeds.\<close>

theorem rotation_is_single_use:
  assumes "token_steps E H (empty_db, []) (db, spent)" and "inj (gen_id E)"
  shows "distinct spent
    \<and> (\<forall>r \<in> set (refresh_tokens db). \<forall>r' \<in> set (refresh_tokens db). rtk_family_id r = rtk_family_id r'
         \<longrightarrow> rtk_revoked_at r = None \<longrightarrow> rtk_revoked_at r' = None \<longrightarrow> r = r')
    \<and> (\<forall>r \<in> set (refresh_tokens db). rtk_id r \<in> set spent \<longrightarrow> rtk_revoked_at r \<noteq> None)"
proof -
  have "tokens_ok E (empty_db, [])" by (simp add: tokens_ok_def empty_db_def)
  then have "tokens_ok E (db, spent)" by (rule tokens_ok_steps [OF assms])
  then show ?thesis by (simp add: tokens_ok_def)
qed

text \<open>C4: A refresh request, interleaved with any others, changes the token table by a sequence of the atomic steps; when
  it succeeds it has consumed the row of the token it was given, which no request had consumed before.\<close>

theorem refresh_is_a_rotation:
  assumes "inj (gen_id E)" and "well_behaved E (sha256_hex L) intf" and "tokens_ok E (au_db s, spent)"
    and "refresh_token E L C now intf token s = (x, s')"
  shows "\<exists>spent'. token_steps E (sha256_hex L) (au_db s, spent) (au_db s', spent')
    \<and> (ok x \<longrightarrow> (\<exists>r \<in> set (refresh_tokens (intf 0 (au_db s))). rtk_token r = sha256_hex L token
         \<and> rtk_id r \<in> set spent' \<and> rtk_id r \<notin> set spent))"
  using assms by (rule refresh_steps)

end
