(* ===== verification/Refresh_Reuse.thy ===== *)
theory Refresh_Reuse
  imports Refresh_Rotation
begin

text \<open>
  Refreshing without interference: what a successful refresh has checked and written, and the reaction to a token
  that is presented again.
\<close>

abbreviation alone :: "nat \<Rightarrow> database \<Rightarrow> database" where
  "alone \<equiv> (\<lambda>_. id)"

lemma others_alone [simp]: "others_commit id s = (Inr (), s)"
  by (simp add: others_commit_iff)

lemma dcatch_Inr_dthrow:
  assumes "dcatch m (\<lambda>e. if p e then dthrow e else dthrow e') s = (Inr x, s')"
  shows "m s = (Inr x, s')"
  using assms by (auto simp: dcatch_def dthrow_def split: prod.splits sum.splits if_splits)

lemma rotate_for_Inr:
  assumes "rotate_for E L C now alone r u s = (Inr tk, s')"
  shows "\<exists>new. insert_refresh_token E now (sha256_hex L (at_refresh tk)) (ur_id u) (rtk_family_id r) (now + REFRESH_TOKEN_TTL_MS)
      (au_db s\<lparr>refresh_tokens := update_where (\<lambda>x. rtk_id x = rtk_id r \<and> rtk_revoked_at x = None)
         (\<lambda>r. r\<lparr>rtk_revoked_at := Some now\<rparr>) (refresh_tokens (au_db s))\<rparr>) = (Inr new, au_db s')
    \<and> at_user tk = to_auth_user_response u"
proof -
  from assms obtain access s1 refresh s2 b s3 where
    1: "sign_access_token L C now u (rtk_family_id r) s = (Inr access, s1)" and
    2: "sign_refresh_token L C now (ur_id u) (rtk_family_id r) s1 = (Inr refresh, s2)" and
    4: "on_db (rotate_refresh_token E (sha256_hex L) now (rtk_id r) refresh (ur_id u) (rtk_family_id r)
          (now + REFRESH_TOKEN_TTL_MS)) s2 = (Inr b, s3)"
    and b: "b" "s' = s3" "tk = \<lparr>at_access = access, at_refresh = refresh, at_user = to_auth_user_response u\<rparr>"
    unfolding rotate_for_def by (auto simp: dthrow_def dret_def elim!: dbind_Inr_E split: if_splits)
  have db2: "au_db s2 = au_db s" using signing_keeps_db(1) [OF 1] signing_keeps_db(2) [OF 2] by simp
  from 4 have "rotate_refresh_token E (sha256_hex L) now (rtk_id r) refresh (ur_id u) (rtk_family_id r)
          (now + REFRESH_TOKEN_TTL_MS) (au_db s) = (Inr True, au_db s')"
    using b db2 by (auto simp: on_db_iff)
  from rotate_Inr [OF this] show ?thesis
    using b by simp
qed

lemma refresh_checked_Inr:
  assumes "refresh_checked E L C now alone sub family r u s = (Inr tk, s')"
  shows "rtk_revoked_at r = None \<and> now \<le> rtk_expires_at r \<and> rtk_family_id r = family \<and> rtk_user_id r = sub
    \<and> rotate_for E L C now alone r u s = (Inr tk, s')"
  using assms
  by (auto simp: refresh_checked_def check_superseded_def dthrow_def dret_def on_db_iff dget_def
      split: if_splits option.splits elim!: dbind_Inr_E)

lemma refresh_found:
  assumes "refresh_token E L C now alone token s = (Inr tk, s')"
  shows "\<exists>sub family r u. verify_refresh_token L C now token = Inr (sub, family)
    \<and> find_by rtk_token (sha256_hex L token) (refresh_tokens (au_db s)) = Some r
    \<and> find_user (rtk_user_id r) (au_db s) = Some u
    \<and> refresh_checked E L C now alone sub family r u s = (Inr tk, s')"
  using dcatch_Inr_dthrow [OF assms [unfolded refresh_token_def]]
  by (auto simp: dthrow_def dlift_def on_db_iff find_refresh_token_with_user_def
      split: option.splits elim!: dbind_Inr_E)

text \<open>\<open>refreshed\<close>: the checks a refresh has passed and the rows it leaves.\<close>

definition refreshed ::
    "(string \<Rightarrow> string) \<Rightarrow> millis \<Rightarrow> string \<Rightarrow> auth_state \<Rightarrow> auth_tokens \<Rightarrow> auth_state \<Rightarrow> refresh_token_row \<Rightarrow> user_row
      \<Rightarrow> refresh_token_row \<Rightarrow> bool" where
  "refreshed H now token s tk s' r u new \<longleftrightarrow>
     find_by rtk_token (H token) (refresh_tokens (au_db s)) = Some r \<and> find_user (rtk_user_id r) (au_db s) = Some u
     \<and> rtk_revoked_at r = None \<and> now \<le> rtk_expires_at r \<and> at_user tk = to_auth_user_response u
     \<and> rtk_token new = H (at_refresh tk) \<and> rtk_token new \<notin> rtk_token ` set (refresh_tokens (au_db s))
     \<and> rtk_family_id new = rtk_family_id r \<and> rtk_user_id new = ur_id u \<and> rtk_revoked_at new = None
     \<and> rtk_expires_at new = now + REFRESH_TOKEN_TTL_MS
     \<and> refresh_tokens (au_db s') = update_where (\<lambda>x. rtk_id x = rtk_id r \<and> rtk_revoked_at x = None)
         (\<lambda>r. r\<lparr>rtk_revoked_at := Some now\<rparr>) (refresh_tokens (au_db s)) @ [new]
     \<and> users (au_db s') = users (au_db s)"

lemma insert_fresh:
  "insert_refresh_token E now digest uid family expires db = (Inr r, db') \<Longrightarrow> digest \<notin> rtk_token ` set (refresh_tokens db)"
  by (auto simp: insert_refresh_token_def Let_def list_ex_iff split: if_splits)

lemma tokens_update_where:
  "rtk_token ` set (update_where p (\<lambda>r. r\<lparr>rtk_revoked_at := x\<rparr>) rs) = rtk_token ` set rs"
  unfolding list.set_map [symmetric] by (simp add: map_update_where del: list.set_map)

lemma refresh_effect:
  assumes "refresh_token E L C now alone token s = (Inr tk, s')"
  shows "\<exists>sub family r u new. verify_refresh_token L C now token = Inr (sub, family)
    \<and> rtk_family_id r = family \<and> rtk_user_id r = sub \<and> refreshed (sha256_hex L) now token s tk s' r u new"
proof -
  obtain sub family r u where v: "verify_refresh_token L C now token = Inr (sub, family)"
    and r: "find_by rtk_token (sha256_hex L token) (refresh_tokens (au_db s)) = Some r"
    and u: "find_user (rtk_user_id r) (au_db s) = Some u"
    and c: "refresh_checked E L C now alone sub family r u s = (Inr tk, s')"
    using refresh_found [OF assms] by blast
  note checked = refresh_checked_Inr [OF c]
  then obtain new where ins: "insert_refresh_token E now (sha256_hex L (at_refresh tk)) (ur_id u) (rtk_family_id r) (now + REFRESH_TOKEN_TTL_MS)
      (au_db s\<lparr>refresh_tokens := update_where (\<lambda>x. rtk_id x = rtk_id r \<and> rtk_revoked_at x = None)
         (\<lambda>r. r\<lparr>rtk_revoked_at := Some now\<rparr>) (refresh_tokens (au_db s))\<rparr>) = (Inr new, au_db s')"
    and user: "at_user tk = to_auth_user_response u"
    using rotate_for_Inr by blast
  have fresh: "sha256_hex L (at_refresh tk) \<notin> rtk_token ` set (refresh_tokens (au_db s))"
    using insert_fresh [OF ins] by (simp add: tokens_update_where)
  have "refreshed (sha256_hex L) now token s tk s' r u new"
    using insert_refresh_token_Inr [OF ins] fresh r u checked user by (simp add: refreshed_def)
  then show ?thesis using v checked by blast
qed

definition theft_detected :: error where
  "theft_detected = authentication_error ''Token revoked - possible theft detected''"

lemma refresh_revoked_row:
  assumes "verify_refresh_token L C now token = Inr (sub, family)"
    and "find_by rtk_token (sha256_hex L token) (refresh_tokens (au_db s)) = Some r"
    and "find_user (rtk_user_id r) (au_db s) = Some u" and "rtk_revoked_at r \<noteq> None"
  shows "refresh_token E L C now alone token s = (Inl theft_detected,
    s\<lparr>au_db := au_db s\<lparr>refresh_tokens := update_where (\<lambda>x. rtk_family_id x = rtk_family_id r)
       (\<lambda>r. r\<lparr>rtk_revoked_at := Some now\<rparr>) (refresh_tokens (au_db s))\<rparr>\<rparr>)"
proof -
  have f: "on_db (find_refresh_token_with_user (sha256_hex L) token) s = (Inr (Some (r, u)), s)"
    using assms by (simp add: on_db_def find_refresh_token_with_user_def)
  have "refresh_checked E L C now alone sub family r u s = (Inl theft_detected,
    s\<lparr>au_db := au_db s\<lparr>refresh_tokens := update_where (\<lambda>x. rtk_family_id x = rtk_family_id r)
       (\<lambda>r. r\<lparr>rtk_revoked_at := Some now\<rparr>) (refresh_tokens (au_db s))\<rparr>\<rparr>)"
    using assms(4) by (simp add: refresh_checked_def dbind_def on_db_def revoke_all_tokens_in_family_def dupdate_def
        dthrow_def theft_detected_def)
  then show ?thesis
    using assms(1) f by (simp add: refresh_token_def dcatch_def dbind_def dlift_def dthrow_def theft_detected_def)
qed

lemma reuse_detected:
  assumes run: "refresh_token E L C now alone token s = (Inr tk, s1)" and "verify_refresh_token L C t' token = Inr p"
  shows "\<exists>s2 f. refresh_token E L C t' alone token s1 = (Inl theft_detected, s2)
    \<and> (\<exists>x \<in> set (refresh_tokens (au_db s2)). rtk_token x = sha256_hex L (at_refresh tk) \<and> rtk_family_id x = f)
    \<and> (\<forall>x \<in> set (refresh_tokens (au_db s2)). rtk_family_id x = f \<longrightarrow> rtk_revoked_at x \<noteq> None)"
proof -
  obtain r u new where ref: "refreshed (sha256_hex L) now token s tk s1 r u new"
    using refresh_effect [OF run] by blast
  obtain sub family where p: "verify_refresh_token L C t' token = Inr (sub, family)"
    using assms(2) by (cases p) auto
  let ?r = "r\<lparr>rtk_revoked_at := Some now\<rparr>"
  have "find_by rtk_token (sha256_hex L token) (refresh_tokens (au_db s1)) = Some ?r"
    using ref by (simp add: refreshed_def find_by_append find_by_update_where)
  moreover have "find_user (rtk_user_id ?r) (au_db s1) = Some u"
    using ref by (simp add: refreshed_def find_user_def)
  ultimately have run2: "refresh_token E L C t' alone token s1 = (Inl theft_detected,
    s1\<lparr>au_db := au_db s1\<lparr>refresh_tokens := update_where (\<lambda>x. rtk_family_id x = rtk_family_id r)
       (\<lambda>r. r\<lparr>rtk_revoked_at := Some t'\<rparr>) (refresh_tokens (au_db s1))\<rparr>\<rparr>)"
    using refresh_revoked_row [OF p, of s1 ?r u E] by simp
  have new: "new \<in> set (refresh_tokens (au_db s1))" "rtk_token new = sha256_hex L (at_refresh tk)"
    "rtk_family_id new = rtk_family_id r"
    using ref by (simp_all add: refreshed_def)
  let ?rows = "update_where (\<lambda>x. rtk_family_id x = rtk_family_id r) (\<lambda>r. r\<lparr>rtk_revoked_at := Some t'\<rparr>) (refresh_tokens (au_db s1))"
  have "new\<lparr>rtk_revoked_at := Some t'\<rparr> \<in> set ?rows"
    using new by (force simp: set_update_where)
  moreover have "\<forall>x \<in> set ?rows. rtk_family_id x = rtk_family_id r \<longrightarrow> rtk_revoked_at x \<noteq> None"
    by (auto elim!: update_where_E split: if_splits)
  ultimately show ?thesis
    using run2 new by (intro exI [of _ "rtk_family_id r"] exI conjI) (auto intro!: bexI [of _ "new\<lparr>rtk_revoked_at := Some t'\<rparr>"])
qed

text \<open>A refresh that succeeds had a live row of the presented token, whose owner, family and expiry agree with the
  token; it leaves that row revoked and one new active row of the same family, under the digest of the new token,
  and the user it answers with is the owner of the row.\<close>

theorem refresh_success_effect:
  assumes "refresh_token E L C now alone token s = (Inr tk, s')"
  shows "\<exists>sub family r u new. verify_refresh_token L C now token = Inr (sub, family)
    \<and> rtk_family_id r = family \<and> rtk_user_id r = sub \<and> refreshed (sha256_hex L) now token s tk s' r u new"
  using assms by (rule refresh_effect)

text \<open>C15: Presenting a refresh token a second time is detected: the second call fails as a possible theft and every
  token of the family, the replacement handed out by the first call included, is revoked.\<close>

theorem reuse_revokes_family:
  assumes "refresh_token E L C now alone token s = (Inr tk, s1)" and "verify_refresh_token L C t' token = Inr p"
  shows "\<exists>s2 f. refresh_token E L C t' alone token s1 = (Inl theft_detected, s2)
    \<and> (\<exists>x \<in> set (refresh_tokens (au_db s2)). rtk_token x = sha256_hex L (at_refresh tk) \<and> rtk_family_id x = f)
    \<and> (\<forall>x \<in> set (refresh_tokens (au_db s2)). rtk_family_id x = f \<longrightarrow> rtk_revoked_at x \<noteq> None)"
  using assms by (rule reuse_detected)

subsection \<open>Examples\<close>

definition sample_refresh_token :: string where
  "sample_refresh_token =
     ''sig=r;tokenType=refresh;jti=u2;iss=triad;aud=refresh;sub=ann;familyId=u0;exp=905''"

definition sample_session :: auth_state where
  "sample_session = sample_auth\<lparr>au_draws := 3, au_db := empty_db\<lparr>users := [ann], id_supply := 1, refresh_tokens :=
     [\<lparr>rtk_id = ''row-0'', rtk_token = CHR ''d'' # sample_refresh_token, rtk_family_id = ''u0'', rtk_user_id = ''ann'',
       rtk_expires_at = 604805000, rtk_revoked_at = None, rtk_created_at = 5000\<rparr>]\<rparr>\<rparr>"

lemma sample_env_inj: "inj (gen_id sample_env)"
  by (auto simp: sample_env_def inj_def)

lemma sample_session_ok: "tokens_ok sample_env (au_db sample_session, [])"
proof -
  have "''row-0'' = gen_id sample_env 0" by code_simp
  then show ?thesis by (auto simp: tokens_ok_def sample_session_def drawn_def)
qed

lemma alone_well_behaved: "well_behaved E H alone"
  unfolding well_behaved_def id_apply using token_steps_refl by blast

lemma run_Inr: "ok (fst m) \<Longrightarrow> m = (Inr (projr (fst m)), snd m)"
  by (cases m) (auto simp: ok_def split: sum.splits)

lemma sample_refresh: "ok (fst (refresh_token sample_env sample_lib sample_auth_config 6000 alone sample_refresh_token sample_session))"
  by code_simp

theorem rotation_is_single_use_witness:
  "\<exists>db spent. token_steps sample_env id (empty_db, []) (db, spent) \<and> spent = [''row-0''] \<and> length (refresh_tokens db) = 2
     \<and> (\<forall>r \<in> set (refresh_tokens db). rtk_id r \<in> set spent \<longrightarrow> rtk_revoked_at r \<noteq> None)"
proof -
  let ?c = "create_refresh_token sample_env id 0 ''t0'' ''ann'' ''f'' 100 empty_db"
  let ?o = "rotate_refresh_token sample_env id 10 ''row-0'' ''t1'' ''ann'' ''f'' 110 (snd ?c)"
  have "ok (fst ?c)" by code_simp
  then have c: "?c = (Inr (projr (fst ?c)), snd ?c)" by (rule run_Inr)
  have o: "?o = (Inr True, snd ?o)"
  proof -
    have "fst ?o = Inr True" by code_simp
    then show ?thesis by (metis prod.collapse)
  qed
  have 1: "token_step sample_env id (empty_db, []) (snd ?c, [])"
    by (rule token_step.start [OF c]) (simp add: empty_db_def)
  have "list_all (\<lambda>r. rtk_family_id r = ''f'') (refresh_tokens (snd ?c))" by code_simp
  then have 2: "token_step sample_env id (snd ?c, []) (snd ?o, if True then ''row-0'' # [] else [])"
    by (intro token_step.rotate [OF o]) (auto simp: list_all_iff)
  have steps: "token_steps sample_env id (empty_db, []) (snd ?o, [''row-0''])"
    using token_steps_trans [OF token_steps_one [OF 1] token_steps_one [OF 2]] by simp
  have "length (refresh_tokens (snd ?o)) = 2" by code_simp
  then show ?thesis using rotation_is_single_use [OF steps sample_env_inj] steps by blast
qed

theorem refresh_is_a_rotation_witness:
  "\<exists>tk s' spent'. refresh_token sample_env sample_lib sample_auth_config 6000 alone sample_refresh_token sample_session = (Inr tk, s')
     \<and> token_steps sample_env (sha256_hex sample_lib) (au_db sample_session, []) (au_db s', spent') \<and> spent' \<noteq> []"
proof -
  note run = run_Inr [OF sample_refresh]
  show ?thesis
    using refresh_is_a_rotation [OF sample_env_inj alone_well_behaved sample_session_ok run] run by fastforce
qed

theorem refresh_success_effect_witness:
  "\<exists>tk s' r u new. refresh_token sample_env sample_lib sample_auth_config 6000 alone sample_refresh_token sample_session = (Inr tk, s')
     \<and> refreshed (sha256_hex sample_lib) 6000 sample_refresh_token sample_session tk s' r u new"
  using refresh_success_effect [OF run_Inr [OF sample_refresh]] run_Inr [OF sample_refresh] by blast

theorem reuse_revokes_family_witness:
  "\<exists>tk s1 s2. refresh_token sample_env sample_lib sample_auth_config 6000 alone sample_refresh_token sample_session = (Inr tk, s1)
     \<and> refresh_token sample_env sample_lib sample_auth_config 7000 alone sample_refresh_token s1 = (Inl theft_detected, s2)"
proof -
  have "ok (verify_refresh_token sample_lib sample_auth_config 7000 sample_refresh_token)" by code_simp
  then obtain p where p: "verify_refresh_token sample_lib sample_auth_config 7000 sample_refresh_token = Inr p" by (rule okE)
  show ?thesis
    using reuse_revokes_family [OF run_Inr [OF sample_refresh] p] run_Inr [OF sample_refresh] by blast
qed

end
