(* ===== verification/Two_Factor.thy ===== *)
theory Two_Factor
  imports Refresh_Reuse
begin

text \<open>
  Two-factor authentication: the encryption of one-time-password secrets,
  \<^verbatim>\<open>modules/auth/services/totp-secret.crypto.ts\<close>, and the service, \<^verbatim>\<open>two-factor.service.ts\<close>. Ciphers, encodings and
  one-time passwords are library functions of \<open>auth_lib\<close>; byte strings are character lists.
\<close>

subsection \<open>Secrets\<close>

definition VERSION :: string where
  "VERSION = ''v1''"

definition is_hex_char :: "char \<Rightarrow> bool" where
  "is_hex_char c \<longleftrightarrow> is_digit c \<or> (97 \<le> code_of c \<and> code_of c \<le> 102) \<or> (65 \<le> code_of c \<and> code_of c \<le> 70)"

definition key_bytes :: "auth_lib \<Rightarrow> string \<Rightarrow> error + string" where
  "key_bytes L key =
     (let decoded = (if length key = 64 \<and> list_all is_hex_char key then buffer_from_hex L key else buffer_from_base64 L key)
      in if length decoded \<noteq> 32 then Inl (PlainError ''TOTP encryption key must be 32 bytes'') else Inr decoded)"

definition join_dots :: "string list \<Rightarrow> string" where
  "join_dots ps = (case ps of [] \<Rightarrow> [] | p # qs \<Rightarrow> p @ concat (map (\<lambda>q. CHR ''.'' # q) qs))"

definition encrypt_totp_secret :: "auth_lib \<Rightarrow> string \<Rightarrow> string \<Rightarrow> string \<Rightarrow> error + string" where
  "encrypt_totp_secret L iv secret key =
     rbind (key_bytes L key) (\<lambda>k.
     let (ciphertext, tag) = gcm_seal L k iv secret
     in Inr (join_dots [VERSION, to_base64url L iv, to_base64url L tag, to_base64url L ciphertext]))"

text \<open>\<open>part n ps\<close> is the destructured element number \<open>n\<close>; a missing one is as falsy as an empty one.\<close>

definition part :: "nat \<Rightarrow> string list \<Rightarrow> string" where
  "part n ps = (if n < length ps then ps ! n else [])"

definition decrypt_totp_secret :: "auth_lib \<Rightarrow> string \<Rightarrow> string \<Rightarrow> error + string" where
  "decrypt_totp_secret L payload key =
     (let ps = split_on CHR ''.'' payload
      in if part 0 ps \<noteq> VERSION \<or> part 1 ps = [] \<or> part 2 ps = [] \<or> part 3 ps = []
         then Inl (PlainError ''Unsupported TOTP secret format'')
         else rbind (key_bytes L key) (\<lambda>k.
              gcm_open L k (from_base64url L (part 1 ps)) (from_base64url L (part 2 ps)) (from_base64url L (part 3 ps))))"

text \<open>What the code relies on: \<^verbatim>\<open>base64url\<close> decodes what it encoded, uses no dot and makes something of something, and
  the cipher opens what it sealed.\<close>

definition cipher_laws :: "auth_lib \<Rightarrow> bool" where
  "cipher_laws L \<longleftrightarrow> (\<forall>b. from_base64url L (to_base64url L b) = b \<and> CHR ''.'' \<notin> set (to_base64url L b)
       \<and> (to_base64url L b = [] \<longrightarrow> b = []))
     \<and> (\<forall>k iv p. gcm_open L k iv (snd (gcm_seal L k iv p)) (fst (gcm_seal L k iv p)) = Inr p
          \<and> snd (gcm_seal L k iv p) \<noteq> [] \<and> (fst (gcm_seal L k iv p) = [] \<longrightarrow> p = []))"

lemma split_on_plain: "c \<notin> set s \<Longrightarrow> split_on c s = [s]"
  by (induction s) auto

lemma split_on_cons: "c \<notin> set s \<Longrightarrow> split_on c (s @ c # t) = s # split_on c t"
  by (induction s) auto

lemma totp_secret_round_trip:
  assumes laws: "cipher_laws L" and key: "key_bytes L key = Inr k" and secret: "secret \<noteq> []" and iv: "iv \<noteq> []"
  shows "\<exists>payload. encrypt_totp_secret L iv secret key = Inr payload \<and> decrypt_totp_secret L payload key = Inr secret"
proof -
  obtain ct tag where sealed: "gcm_seal L k iv secret = (ct, tag)" by fastforce
  have opened: "gcm_open L k iv tag ct = Inr secret" and ne: "tag \<noteq> []" "ct \<noteq> []"
    using laws secret sealed unfolding cipher_laws_def by (metis fst_conv snd_conv)+
  have b64: "from_base64url L (to_base64url L b) = b" "CHR ''.'' \<notin> set (to_base64url L b)"
    "b \<noteq> [] \<Longrightarrow> to_base64url L b \<noteq> []" for b
    using laws unfolding cipher_laws_def by blast+
  have "encrypt_totp_secret L iv secret key
      = Inr (VERSION @ CHR ''.'' # to_base64url L iv @ CHR ''.'' # to_base64url L tag @ CHR ''.'' # to_base64url L ct)"
    by (simp add: encrypt_totp_secret_def key sealed join_dots_def)
  moreover have "split_on CHR ''.''
        (VERSION @ CHR ''.'' # to_base64url L iv @ CHR ''.'' # to_base64url L tag @ CHR ''.'' # to_base64url L ct)
      = [VERSION, to_base64url L iv, to_base64url L tag, to_base64url L ct]"
    using b64(2) by (simp add: split_on_cons split_on_plain VERSION_def)
  ultimately show ?thesis
    using b64 ne iv opened key by (simp add: decrypt_totp_secret_def part_def nth_Cons')
qed

text \<open>A one-time-password secret survives storage: what was encrypted under a valid key, with any initialisation vector,
  decrypts to the same secret under that key.\<close>

theorem totp_secret_survives:
  assumes "cipher_laws L" and "key_bytes L key = Inr k" and "secret \<noteq> []" and "iv \<noteq> []"
  shows "\<exists>payload. encrypt_totp_secret L iv secret key = Inr payload \<and> decrypt_totp_secret L payload key = Inr secret"
  using assms by (rule totp_secret_round_trip)

fun dot_escape :: "string \<Rightarrow> string" where
  "dot_escape [] = []"
| "dot_escape (c # s) = (if c = CHR ''.'' then ''ab'' else if c = CHR ''a'' then ''aa'' else [c]) @ dot_escape s"

fun dot_unescape :: "string \<Rightarrow> string" where
  "dot_unescape [] = []"
| "dot_unescape [c] = [c]"
| "dot_unescape (c # d # s) = (if c = CHR ''a'' then (if d = CHR ''b'' then CHR ''.'' else CHR ''a'') # dot_unescape s
     else c # dot_unescape (d # s))"

definition plain_cipher_lib :: auth_lib where
  "plain_cipher_lib = sample_lib\<lparr>to_base64url := dot_escape, from_base64url := dot_unescape,
     gcm_seal := \<lambda>k iv p. (p, CHR ''t'' # k @ iv),
     gcm_open := \<lambda>k iv tag c. if tag = CHR ''t'' # k @ iv then Inr c else Inl (PlainError ''bad tag'')\<rparr>"

lemma dot_unescape_cons: "c \<noteq> CHR ''a'' \<Longrightarrow> dot_unescape (c # s) = c # dot_unescape s"
  by (cases s) auto

lemma dot_escape_laws: "dot_unescape (dot_escape b) = b \<and> CHR ''.'' \<notin> set (dot_escape b)"
  by (induction b) (auto simp: dot_unescape_cons)

lemma plain_cipher_laws: "cipher_laws plain_cipher_lib"
proof -
  have "dot_escape b = [] \<Longrightarrow> b = []" for b by (cases b) (auto split: if_splits)
  then show ?thesis using dot_escape_laws by (simp add: cipher_laws_def plain_cipher_lib_def)
qed

theorem totp_secret_survives_witness:
  "\<exists>payload. encrypt_totp_secret plain_cipher_lib ''iv'' ''JBSWY3DP'' (replicate 64 CHR ''0'') = Inr payload
     \<and> decrypt_totp_secret plain_cipher_lib payload (replicate 64 CHR ''0'') = Inr ''JBSWY3DP''"
proof -
  have "key_bytes plain_cipher_lib (replicate 64 CHR ''0'') = Inr (replicate 32 CHR ''0'')" by code_simp
  from totp_secret_survives [OF plain_cipher_laws this, of "''JBSWY3DP''" "''iv''"] show ?thesis by simp
qed

subsection \<open>The service\<close>

record totp_setup =
  ts_otpauth_url :: string
  ts_secret :: string

definition enable_2fa :: "auth_lib \<Rightarrow> auth_config \<Rightarrow> ident \<Rightarrow> (auth_state, totp_setup) st_op" where
  "enable_2fa L C uid =
     dbind (on_db (dget (find_user uid))) (\<lambda>user.
     case user of
       None \<Rightarrow> dthrow (validation_error ''User not found'')
     | Some u \<Rightarrow>
         dbind (draw (totp_secret L (TOTP_ISSUER C @ '':'' @ ur_email u) (TOTP_ISSUER C))) (\<lambda>(base32, url).
         dbind (draw (random_iv L)) (\<lambda>iv.
         dbind (dlift (encrypt_totp_secret L iv base32 (TOTP_ENCRYPTION_KEY C))) (\<lambda>stored.
         dbind (on_db (update_user uid (\<lambda>u. u\<lparr>ur_totp_secret := Some stored, ur_is_2fa_enabled := False\<rparr>))) (\<lambda>_.
         dret \<lparr>ts_otpauth_url = (case url of None \<Rightarrow> [] | Some l \<Rightarrow> l), ts_secret = base32\<rparr>)))))"

definition verify_2fa :: "auth_lib \<Rightarrow> auth_config \<Rightarrow> millis \<Rightarrow> ident \<Rightarrow> string \<Rightarrow> (auth_state, bool) st_op" where
  "verify_2fa L C now uid token =
     dbind (on_db (dget (find_user uid))) (\<lambda>user.
     case user of
       None \<Rightarrow> dthrow (validation_error ''2FA not set up'')
     | Some u \<Rightarrow>
         if \<not> truthy (ur_totp_secret u) then dthrow (validation_error ''2FA not set up'')
         else dbind (dlift (decrypt_totp_secret L (the (ur_totp_secret u)) (TOTP_ENCRYPTION_KEY C))) (\<lambda>secret.
           if \<not> totp_verify L secret token now then dthrow (validation_error ''Invalid TOTP token'')
           else dbind (on_db (update_user uid (\<lambda>u. u\<lparr>ur_is_2fa_enabled := True\<rparr>))) (\<lambda>_. dret True)))"

definition replay_key :: "ident \<Rightarrow> millis \<Rightarrow> string" where
  "replay_key uid now = ''auth:2fa:totp:'' @ uid @ '':'' @ show_int (now div 30000)"

definition verify_totp ::
    "env \<Rightarrow> auth_lib \<Rightarrow> auth_config \<Rightarrow> millis \<Rightarrow> string \<Rightarrow> string \<Rightarrow> (auth_state, auth_tokens) st_op" where
  "verify_totp E L C now preauth token =
     dbind (consume_two_factor_preauth_token L C now preauth) (\<lambda>uid.
     dbind (on_db (dget (find_user uid))) (\<lambda>user.
     case user of
       None \<Rightarrow> dthrow (authentication_error ''2FA is not enabled'')
     | Some u \<Rightarrow>
         if \<not> truthy (ur_totp_secret u) \<or> \<not> ur_is_2fa_enabled u then dthrow (authentication_error ''2FA is not enabled'')
         else dbind (dlift (decrypt_totp_secret L (the (ur_totp_secret u)) (TOTP_ENCRYPTION_KEY C))) (\<lambda>secret.
           if \<not> totp_verify L secret token now then dthrow (authentication_error ''Invalid TOTP token'')
           else dbind (on_store (rts_set_if_absent now (replay_key uid now) ''1'' (num_of_int 90))) (\<lambda>accepted.
                if \<not> accepted then dthrow (authentication_error ''TOTP token already used'')
                else generate_tokens E L C now u None))))"

subsection \<open>A one-time password is accepted once per time step\<close>

lemma generate_tokens_Inr:
  assumes "generate_tokens E L C now u family s = (Inr tk, s')"
  shows "au_redis s' = au_redis s \<and> at_user tk = to_auth_user_response u"
  using assms
  by (auto simp: generate_tokens_def sign_access_token_def sign_refresh_token_def token_claims_def draw_def dret_def on_db_iff
      split: if_splits elim!: dbind_Inr_E)

lemma consume_Inr:
  assumes "consume_two_factor_preauth_token L C now token s = (Inr uid, s')"
  shows "\<exists>jti x. rts_get_and_delete now (PREAUTH_KEY_PREFIX @ jti) (au_redis s) = (x, au_redis s') \<and> au_db s' = au_db s"
  using assms
  by (fastforce simp: consume_two_factor_preauth_token_def fail_closed_Inr on_store_iff db_monad elim!: dbind_Inr_E
      split: if_splits)

lemma verify_totp_Inr:
  assumes "verify_totp E L C now preauth token s = (Inr tk, s')"
  obtains u secret s1 where "consume_two_factor_preauth_token L C now preauth s = (Inr (ur_id u), s1)"
    and "find_user (ur_id u) (au_db s) = Some u" and "ur_is_2fa_enabled u"
    and "decrypt_totp_secret L (the (ur_totp_secret u)) (TOTP_ENCRYPTION_KEY C) = Inr secret" and "totp_verify L secret token now"
    and "rts_set_if_absent now (replay_key (ur_id u) now) ''1'' (num_of_int 90) (au_redis s1) = (Inr True, au_redis s')"
    and "at_user tk = to_auth_user_response u"
proof -
  from assms [unfolded verify_totp_def] obtain uid s1 where c: "consume_two_factor_preauth_token L C now preauth s = (Inr uid, s1)"
    and rest: "dbind (on_db (dget (find_user uid))) (\<lambda>user.
     case user of
       None \<Rightarrow> dthrow (authentication_error ''2FA is not enabled'')
     | Some u \<Rightarrow>
         if \<not> truthy (ur_totp_secret u) \<or> \<not> ur_is_2fa_enabled u then dthrow (authentication_error ''2FA is not enabled'')
         else dbind (dlift (decrypt_totp_secret L (the (ur_totp_secret u)) (TOTP_ENCRYPTION_KEY C))) (\<lambda>secret.
           if \<not> totp_verify L secret token now then dthrow (authentication_error ''Invalid TOTP token'')
           else dbind (on_store (rts_set_if_absent now (replay_key uid now) ''1'' (num_of_int 90))) (\<lambda>accepted.
                if \<not> accepted then dthrow (authentication_error ''TOTP token already used'')
                else generate_tokens E L C now u None))) s1 = (Inr tk, s')"
    by (rule dbind_Inr_E)
  obtain u where u: "find_user uid (au_db s1) = Some u"
    using rest by (auto simp: on_db_iff dget_def dthrow_def elim!: dbind_Inr_E split: option.splits)
  then have uid: "uid = ur_id u" by (auto simp: find_user_def dest: find_by_SomeD)
  have "on_db (dget (find_user uid)) s1 = (Inr (Some u), s1)"
    using u by (simp add: on_db_def dget_def)
  from rest [unfolded dbind_step [of "on_db (dget (find_user uid))", OF this]] obtain secret rd where
    checks: "ur_is_2fa_enabled u" "decrypt_totp_secret L (the (ur_totp_secret u)) (TOTP_ENCRYPTION_KEY C) = Inr secret"
      "totp_verify L secret token now"
    and put: "rts_set_if_absent now (replay_key uid now) ''1'' (num_of_int 90) (au_redis s1) = (Inr True, rd)"
    and gen: "generate_tokens E L C now u None (s1\<lparr>au_redis := rd\<rparr>) = (Inr tk, s')"
    by (auto simp: on_store_iff dthrow_def dlift_def elim!: dbind_Inr_E split: if_splits)
  have rd: "rd = au_redis s'" and tk: "at_user tk = to_auth_user_response u"
    using generate_tokens_Inr [OF gen] by simp_all
  have found: "find_user (ur_id u) (au_db s) = Some u"
    using u uid consume_Inr [OF c] by auto
  show thesis
    by (rule that [OF c [unfolded uid] found checks put [unfolded rd uid] tk])
qed

lemma totp_keys_differ: "replay_key uid now \<noteq> PREAUTH_KEY_PREFIX @ jti"
  by (simp add: replay_key_def PREAUTH_KEY_PREFIX_def)

lemma totp_excludes:
  assumes first: "verify_totp E L C t preauth token s = (Inr tk, s1)"
    and quiet: "\<forall>(t0, c) \<in> set cs. \<not> writes_key c (replay_key (ax_id (at_user tk)) t) \<and> \<not> drops_key c (replay_key (ax_id (at_user tk)) t)"
    and later: "au_redis s2 = rts.later cs (au_redis s1)" and step: "t' div 30000 = t div 30000"
    and second: "verify_totp E L C t' preauth' token' s2 = (Inr tk', s3)"
  shows "ax_id (at_user tk') \<noteq> ax_id (at_user tk)"
proof
  assume same: "ax_id (at_user tk') = ax_id (at_user tk)"
  from first obtain u and sa :: auth_state where put: "rts_set_if_absent t (replay_key (ur_id u) t) ''1'' (num_of_int 90) (au_redis sa)
      = (Inr True, au_redis s1)" and u: "at_user tk = to_auth_user_response u"
    by (rule verify_totp_Inr)
  from second obtain u' and sb :: auth_state where con: "consume_two_factor_preauth_token L C t' preauth' s2 = (Inr (ur_id u'), sb)"
    and put': "rts_set_if_absent t' (replay_key (ur_id u') t') ''1'' (num_of_int 90) (au_redis sb) = (Inr True, au_redis s3)"
    and u': "at_user tk' = to_auth_user_response u'"
    using verify_totp_Inr [OF second] by metis
  let ?k = "replay_key (ur_id u) t"
  have k: "replay_key (ur_id u') t' = ?k"
    using same u u' step by (simp add: to_auth_user_response_def replay_key_def)
  have q: "\<forall>(t0, c) \<in> set cs. \<not> writes_key c ?k \<and> \<not> drops_key c ?k"
    using quiet u by (simp add: to_auth_user_response_def)
  have "t' < t + 90000" using step by presburger
  then have "redis_view t' (au_redis s2) ?k = Some ''1''"
    using rts.put_new_ok [OF put] rts.later_untouched [OF q] later by simp
  moreover obtain jti x where "rts_get_and_delete t' (PREAUTH_KEY_PREFIX @ jti) (au_redis s2) = (x, au_redis sb)"
    using consume_Inr [OF con] by blast
  ultimately have "redis_view t' (au_redis sb) ?k = Some ''1''"
    using rts.take_view totp_keys_differ by metis
  then show False using rts.put_new_ok [OF put'] k by simp
qed

lemma totp_blocked:
  assumes first: "verify_totp E L C t preauth token s = (Inr tk, s1)"
    and quiet: "\<forall>(t0, c) \<in> set cs. \<not> writes_key c (replay_key (ax_id (at_user tk)) t) \<and> \<not> drops_key c (replay_key (ax_id (at_user tk)) t)"
    and later: "au_redis s2 = rts.later cs (au_redis s1)" and step: "t' div 30000 = t div 30000"
    and con: "consume_two_factor_preauth_token L C t' preauth' s2 = (Inr (ax_id (at_user tk)), s3)"
  shows "\<not> ok (fst (verify_totp E L C t' preauth' token' s2))"
proof
  assume "ok (fst (verify_totp E L C t' preauth' token' s2))"
  from run_Inr [OF this] obtain tk' s4 where second: "verify_totp E L C t' preauth' token' s2 = (Inr tk', s4)" by blast
  from verify_totp_Inr [OF second] con have "ax_id (at_user tk') = ax_id (at_user tk)"
    by (metis Pair_inject auth_user_response.select_convs(1) sum.inject(2) to_auth_user_response_def)
  then show False using totp_excludes [OF first quiet later step second] by simp
qed

subsection \<open>A code is accepted again in the next time step\<close>

definition bob :: user_row where
  "bob = ann\<lparr>ur_id := ''bob'', ur_is_2fa_enabled := True, ur_totp_secret := Some ''v1.iv.t000.K''\<rparr>"

definition totp_lib :: auth_lib where
  "totp_lib = plain_cipher_lib\<lparr>buffer_from_base64 := \<lambda>s. replicate 32 CHR ''0'', gcm_open := \<lambda>k iv tag c. Inr c\<rparr>"

definition preauth_token :: "string \<Rightarrow> string" where
  "preauth_token jti = ''sig=p;tokenType=preauth;jti='' @ jti @ '';iss=triad;aud=preauth;sub=bob;purpose=2fa;exp=305''"

definition bobs_state :: auth_state where
  "bobs_state = sample_auth\<lparr>au_db := empty_db\<lparr>users := [bob]\<rparr>, au_redis := idle_redis\<lparr>rd_entries :=
     [''auth:2fa:preauth:u1'' \<mapsto> (''bob'', 300000), ''auth:2fa:preauth:u2'' \<mapsto> (''bob'', 300000)]\<rparr>\<rparr>"

lemma totp_consumes:
  assumes "verify_preauth_token L C now preauth = Inr (uid, jti)" and "rd_fate (au_redis s) = (\<lambda>_. Served)"
    and "live now (rd_entries (au_redis s)) (PREAUTH_KEY_PREFIX @ jti) = Some uid"
  shows "consume_two_factor_preauth_token L C now preauth s = (Inr uid, s\<lparr>au_redis := au_redis s
    \<lparr>rd_entries := (rd_entries (au_redis s))(PREAUTH_KEY_PREFIX @ jti := None), rd_calls := Suc (rd_calls (au_redis s))\<rparr>\<rparr>)"
  using assms
  by (simp add: consume_two_factor_preauth_token_def fail_closed_def dcatch_def on_store_def rts_get_and_delete_def
      redis_call_def dbind_def db_monad Let_def)

lemma totp_accepts:
  assumes "verify_preauth_token L C now preauth = Inr (uid, jti)" and "rd_fate (au_redis s) = (\<lambda>_. Served)"
    and "live now (rd_entries (au_redis s)) (PREAUTH_KEY_PREFIX @ jti) = Some uid"
    and "live now (rd_entries (au_redis s)) (replay_key uid now) = None"
    and "find_user uid (au_db s) = Some u" and "truthy (ur_totp_secret u)" and "ur_is_2fa_enabled u"
    and "decrypt_totp_secret L (the (ur_totp_secret u)) (TOTP_ENCRYPTION_KEY C) = Inr secret" and "totp_verify L secret token now"
  shows "verify_totp E L C now preauth token s = generate_tokens E L C now u None (s\<lparr>au_redis := au_redis s
    \<lparr>rd_calls := Suc (Suc (rd_calls (au_redis s))), rd_entries := (rd_entries (au_redis s))
       (PREAUTH_KEY_PREFIX @ jti := None, replay_key uid now \<mapsto> (''1'', now + 90000))\<rparr>\<rparr>)"
proof -
  have "live now ((rd_entries (au_redis s))(PREAUTH_KEY_PREFIX @ jti := None)) (replay_key uid now) = None"
    using assms(4) totp_keys_differ by (simp add: live_upd)
  moreover have "expiry_ok (num_of_int 90)" by (simp add: expiry_ok_def safe_int_def max_safe_def)
  ultimately show ?thesis
    using assms totp_consumes [OF assms(1-3)]
    by (simp add: verify_totp_def dbind_step [of "consume_two_factor_preauth_token L C now preauth", OF totp_consumes [OF assms(1-3)]]
        dbind_def on_db_def on_store_def dget_def dlift_def rts_set_if_absent_def redis_call_def with_expiry_def Let_def)
qed

definition refresh_text :: "auth_lib \<Rightarrow> auth_config \<Rightarrow> millis \<Rightarrow> ident \<Rightarrow> nat \<Rightarrow> string" where
  "refresh_text L C now uid n = jwt_sign L
     [(''tokenType'', JStr ''refresh''), (''jti'', JStr (random_uuid L (n + 2))), (''iss'', JStr (JWT_ISSUER C)),
      (''aud'', JStr (JWT_REFRESH_AUDIENCE C)), (''sub'', JStr uid), (''familyId'', JStr (random_uuid L n))]
     (JWT_REFRESH_SECRET C) (JWT_REFRESH_EXPIRY C) now"

lemma token_unused: "d \<notin> rtk_token ` set rs \<Longrightarrow> \<not> list_ex (\<lambda>x. rtk_token x = d) rs"
  by (auto simp: list_ex_iff)

lemma generate_tokens_accepts:
  assumes "sha256_hex L (refresh_text L C now (ur_id u) (au_draws s)) \<notin> rtk_token ` set (refresh_tokens (au_db s))"
  shows "\<exists>tk s'. generate_tokens E L C now u None s = (Inr tk, s') \<and> au_redis s' = au_redis s
    \<and> at_user tk = to_auth_user_response u \<and> users (au_db s') = users (au_db s) \<and> au_draws s' = au_draws s + 3
    \<and> rtk_token ` set (refresh_tokens (au_db s')) = insert (sha256_hex L (refresh_text L C now (ur_id u) (au_draws s)))
         (rtk_token ` set (refresh_tokens (au_db s)))"
proof -
  have "\<not> list_ex (\<lambda>x. rtk_token x = sha256_hex L (refresh_text L C now (ur_id u) (au_draws s))) (refresh_tokens (au_db s))"
    by (rule token_unused [OF assms])
  then show ?thesis
    by (simp add: generate_tokens_def sign_access_token_def sign_refresh_token_def token_claims_def draw_def dret_def dbind_def
        truthy_def on_db_def create_refresh_token_def insert_refresh_token_def refresh_text_def Let_def)
qed

definition bobs_redis :: redis where
  "bobs_redis = (au_redis bobs_state)\<lparr>rd_calls := Suc (Suc 0), rd_entries := (rd_entries (au_redis bobs_state))
    (PREAUTH_KEY_PREFIX @ ''u1'' := None, replay_key ''bob'' 59000 \<mapsto> (''1'', 149000))\<rparr>"

lemma bobs_facts:
  "verify_preauth_token totp_lib sample_auth_config 59000 (preauth_token ''u1'') = Inr (''bob'', ''u1'')"
  "decrypt_totp_secret totp_lib (the (ur_totp_secret bob)) (TOTP_ENCRYPTION_KEY sample_auth_config) = Inr ''K''"
  "totp_verify totp_lib ''K'' ''K1'' 59000"
  "replay_key ''bob'' 59000 = ''auth:2fa:totp:bob:1''"
  "truthy (ur_totp_secret bob)" "ur_is_2fa_enabled bob"
  by code_simp+

lemma bobs_login:
  "\<exists>tk s. verify_totp sample_env totp_lib sample_auth_config 59000 (preauth_token ''u1'') ''K1'' bobs_state = (Inr tk, s)
    \<and> au_redis s = bobs_redis \<and> users (au_db s) = [bob] \<and> au_draws s = 3 \<and> at_user tk = to_auth_user_response bob
    \<and> rtk_token ` set (refresh_tokens (au_db s)) = {sha256_hex totp_lib (refresh_text totp_lib sample_auth_config 59000 ''bob'' 0)}"
proof -
  have u: "find_user ''bob'' (au_db bobs_state) = Some bob"
    by (simp add: bobs_state_def find_user_def bob_def)
  have "verify_totp sample_env totp_lib sample_auth_config 59000 (preauth_token ''u1'') ''K1'' bobs_state
      = generate_tokens sample_env totp_lib sample_auth_config 59000 bob None (bobs_state\<lparr>au_redis := bobs_redis\<rparr>)"
    by (subst totp_accepts [OF bobs_facts(1) _ _ _ u bobs_facts(5,6,2,3)])
      (simp_all add: bobs_state_def idle_redis_def live_def bobs_facts(4) PREAUTH_KEY_PREFIX_def bobs_redis_def)
  then show ?thesis
    using generate_tokens_accepts [of totp_lib sample_auth_config 59000 bob "bobs_state\<lparr>au_redis := bobs_redis\<rparr>" sample_env]
    by (auto simp: bobs_state_def empty_db_def sample_auth_def bob_def)
qed



text \<open>The replay key is built from the time step of the request, while a code is good for the steps around its own: a code
  that was used is accepted once more when the next 30-second step begins.\<close>

theorem totp_code_accepted_twice:
  "\<exists>tk1 s1 tk2 s2. verify_totp sample_env totp_lib sample_auth_config 59000 (preauth_token ''u1'') ''K1'' bobs_state = (Inr tk1, s1)
     \<and> verify_totp sample_env totp_lib sample_auth_config 61000 (preauth_token ''u2'') ''K1'' s1 = (Inr tk2, s2)
     \<and> at_user tk1 = at_user tk2"
proof -
  have v2: "verify_preauth_token totp_lib sample_auth_config 61000 (preauth_token ''u2'') = Inr (''bob'', ''u2'')" by code_simp
  have c2: "totp_verify totp_lib ''K'' ''K1'' 61000" by code_simp
  have k2: "replay_key ''bob'' 61000 = ''auth:2fa:totp:bob:2''" by code_simp
  obtain tk1 s1 where run1: "verify_totp sample_env totp_lib sample_auth_config 59000 (preauth_token ''u1'') ''K1'' bobs_state = (Inr tk1, s1)"
    and s1: "au_redis s1 = bobs_redis" "users (au_db s1) = [bob]" "au_draws s1 = 3" "at_user tk1 = to_auth_user_response bob"
      "rtk_token ` set (refresh_tokens (au_db s1)) = {sha256_hex totp_lib (refresh_text totp_lib sample_auth_config 59000 ''bob'' 0)}"
    using bobs_login by blast
  define r2 where "r2 = bobs_redis\<lparr>rd_calls := Suc (Suc (rd_calls bobs_redis)), rd_entries := (rd_entries bobs_redis)
    (PREAUTH_KEY_PREFIX @ ''u2'' := None, replay_key ''bob'' 61000 \<mapsto> (''1'', 151000))\<rparr>"
  have run2: "verify_totp sample_env totp_lib sample_auth_config 61000 (preauth_token ''u2'') ''K1'' s1
      = generate_tokens sample_env totp_lib sample_auth_config 61000 bob None (s1\<lparr>au_redis := r2\<rparr>)"
    by (subst totp_accepts [OF v2 _ _ _ _ bobs_facts(5,6,2) c2])
      (simp_all add: s1 find_user_def bobs_redis_def bobs_state_def idle_redis_def live_def bobs_facts(4) k2 PREAUTH_KEY_PREFIX_def
        bob_def r2_def)
  have "refresh_text totp_lib sample_auth_config 61000 ''bob'' 3 \<noteq> refresh_text totp_lib sample_auth_config 59000 ''bob'' 0"
    by code_simp
  then have "sha256_hex totp_lib (refresh_text totp_lib sample_auth_config 61000 ''bob'' 3)
      \<notin> rtk_token ` set (refresh_tokens (au_db s1))"
    by (simp add: s1 totp_lib_def plain_cipher_lib_def sample_lib_def)
  then obtain tk2 s2 where "generate_tokens sample_env totp_lib sample_auth_config 61000 bob None (s1\<lparr>au_redis := r2\<rparr>) = (Inr tk2, s2)"
    and "at_user tk2 = to_auth_user_response bob"
    using generate_tokens_accepts [of totp_lib sample_auth_config 61000 bob "s1\<lparr>au_redis := r2\<rparr>" sample_env] s1(3)
    by (auto simp: bob_def)
  then show ?thesis using run1 run2 s1 by metis
qed

end
