(* ===== verification/Auth_Service.thy ===== *)
theory Auth_Service
  imports Two_Factor
begin

text \<open>
  The authentication service, \<^verbatim>\<open>modules/auth/auth.service.ts\<close>, with its mapper \<^verbatim>\<open>auth.mapper.ts\<close>, the profile
  mappings of \<^verbatim>\<open>strategies/oauth2.strategy.ts\<close>, and the outbox handler that sends the verification mail of a
  registration, \<^verbatim>\<open>event-handlers/registration-verification.handler.ts\<close>. The mail queue keeps what it accepted;
  \<open>au_mail_up\<close> says whether it accepts.
\<close>

subsection \<open>Mail\<close>

definition mail_queue_down :: error where
  "mail_queue_down = PlainError ''email queue unavailable''"

definition send_verification_mail :: "string \<Rightarrow> string \<Rightarrow> string \<Rightarrow> string option \<Rightarrow> (auth_state, unit) st_op" where
  "send_verification_mail email first_name url key s =
     (if au_mail_up s
      then (Inr (), s\<lparr>au_mails := au_mails s @ [\<lparr>ml_to = email, ml_name = first_name, ml_url = url, ml_key = key\<rparr>]\<rparr>)
      else (Inl mail_queue_down, s))"

definition verify_key :: "string \<Rightarrow> string" where
  "verify_key token = ''email-verify:'' @ token"

definition VERIFY_EMAIL_TTL_SECONDS :: int where
  "VERIFY_EMAIL_TTL_SECONDS = 15 * 60"

definition verify_url :: "auth_config \<Rightarrow> string \<Rightarrow> string" where
  "verify_url C token = FRONTEND_URL C @ ''/verify-email?token='' @ token"

definition send_verification_email :: "auth_lib \<Rightarrow> auth_config \<Rightarrow> millis \<Rightarrow> user_row \<Rightarrow> (auth_state, unit) st_op" where
  "send_verification_email L C now u =
     dbind (draw (random_hex L)) (\<lambda>token.
     dbind (on_store (rts_set now (verify_key token) (ur_id u) (num_of_int (15 * 60)))) (\<lambda>_.
     send_verification_mail (ur_email u) (ur_first_name u) (verify_url C token) None))"

subsection \<open>Registration and verification\<close>

record registration_response =
  rg_user :: auth_user_response
  rg_message :: string

definition register :: "env \<Rightarrow> auth_lib \<Rightarrow> millis \<Rightarrow> create_user_data \<Rightarrow> string \<Rightarrow> (auth_state, registration_response) st_op" where
  "register E L now d password =
     dbind (on_db (dget (find_user_by_email (cu_email d)))) (\<lambda>existing.
     if existing \<noteq> None then dthrow (validation_error ''Email already registered'')
     else dbind (on_db (create_user E now (d\<lparr>cu_password := Some (bcrypt_hash L password BCRYPT_SALT_ROUNDS)\<rparr>))) (\<lambda>u.
          dret \<lparr>rg_user = to_auth_user_response u,
                rg_message = ''Registered successfully. Please check your email to verify your account.''\<rparr>))"

definition to_entity_data :: "user_row \<Rightarrow> user_data" where
  "to_entity_data u = \<lparr>ud_id = ur_id u, ud_email = ur_email u, ud_first_name = ur_first_name u, ud_last_name = ur_last_name u,
     ud_password = ur_password u, ud_role = ur_role u, ud_is_verified = ur_is_verified u, ud_is_2fa_enabled = ur_is_2fa_enabled u,
     ud_totp_secret = ur_totp_secret u, ud_phone = ur_phone u, ud_created_at = ur_created_at u, ud_updated_at = ur_created_at u\<rparr>"

definition verify_email :: "env \<Rightarrow> auth_lib \<Rightarrow> auth_config \<Rightarrow> millis \<Rightarrow> string \<Rightarrow> (auth_state, auth_tokens) st_op" where
  "verify_email E L C now token =
     dbind (on_store (rts_get now (verify_key token))) (\<lambda>uid.
     if \<not> truthy uid then dthrow (validation_error ''Verification link is invalid or has expired'')
     else dbind (on_db (dget (find_user (the uid)))) (\<lambda>found.
     case found of
       None \<Rightarrow> dthrow (validation_error ''User not found'')
     | Some u \<Rightarrow>
         if ur_is_verified u
         then dbind (on_store (rts_delete (verify_key token))) (\<lambda>_. generate_tokens E L C now u None)
         else dbind (dlift (rbind (user_hydrate (to_entity_data u)) (user_verify now))) (\<lambda>user.
              dbind (on_db (update_user (ar_id user) (\<lambda>u. u\<lparr>ur_is_verified := True\<rparr>))) (\<lambda>updated.
              dbind (on_store (rts_delete (verify_key token))) (\<lambda>_.
              generate_tokens E L C now updated None)))))"

definition RESEND_MESSAGE :: string where
  "RESEND_MESSAGE = ''If that account exists and is not verified yet, a new verification email has been sent.''"

definition resend_verification_email :: "auth_lib \<Rightarrow> auth_config \<Rightarrow> millis \<Rightarrow> string \<Rightarrow> (auth_state, string) st_op" where
  "resend_verification_email L C now email =
     dbind (on_db (dget (find_user_by_email email))) (\<lambda>user.
     dbind (case user of
              Some u \<Rightarrow> if \<not> ur_is_verified u then send_verification_email L C now u else dret ()
            | None \<Rightarrow> dret ()) (\<lambda>_.
     dret RESEND_MESSAGE))"

subsection \<open>Login and logout\<close>

datatype login_result = Logged_in auth_tokens | Two_factor_required string

definition login :: "env \<Rightarrow> auth_lib \<Rightarrow> auth_config \<Rightarrow> millis \<Rightarrow> string \<Rightarrow> string \<Rightarrow> (auth_state, login_result) st_op" where
  "login E L C now email password =
     dbind (on_db (dget (find_user_by_email email))) (\<lambda>user.
     case user of
       None \<Rightarrow> dthrow (authentication_error ''Invalid credentials'')
     | Some u \<Rightarrow>
         if \<not> bcrypt_compare L password (case ur_password u of None \<Rightarrow> [] | Some h \<Rightarrow> h)
         then dthrow (authentication_error ''Invalid credentials'')
         else if \<not> ur_is_verified u then dthrow (authentication_error ''Please verify your email'')
         else if ur_is_2fa_enabled u
         then dbind (issue_two_factor_preauth_token L C now (ur_id u)) (\<lambda>token. dret (Two_factor_required token))
         else dbind (generate_tokens E L C now u None) (\<lambda>tokens. dret (Logged_in tokens)))"

definition logout ::
    "auth_lib \<Rightarrow> auth_config \<Rightarrow> millis \<Rightarrow> ident \<Rightarrow> string option \<Rightarrow> string option \<Rightarrow> (auth_state, unit) st_op" where
  "logout L C now uid access refresh =
     dbind (if truthy access then blacklist_access_token L C now (the access) else dret ()) (\<lambda>_.
     if truthy refresh then on_db (delete_refresh_token_by_token (sha256_hex L) (the refresh))
     else invalidate_all_user_tokens uid)"

subsection \<open>Linked accounts\<close>

record google_profile =
  gp_id :: string
  gp_emails :: "(string \<times> bool option) list option"
  gp_given_name :: "string option"
  gp_family_name :: "string option"

record facebook_profile =
  fp_id :: string
  fp_emails :: "string list option"
  fp_given_name :: "string option"
  fp_family_name :: "string option"

definition or_default :: "string option \<Rightarrow> string \<Rightarrow> string" where
  "or_default v d = (if truthy v then the v else d)"

definition first_of :: "'a list option \<Rightarrow> 'a option" where
  "first_of xs = (case xs of Some (x # _) \<Rightarrow> Some x | _ \<Rightarrow> None)"

definition identity_incomplete :: error where
  "identity_incomplete = PlainError ''OAuth identity is incomplete''"

definition map_google_profile :: "google_profile \<Rightarrow> error + oauth_identity" where
  "map_google_profile p = (case first_of (gp_emails p) of
      None \<Rightarrow> Inl identity_incomplete
    | Some (email, verified) \<Rightarrow>
        if gp_id p = [] \<or> email = [] then Inl identity_incomplete
        else Inr \<lparr>id_provider = GOOGLE, id_subject = gp_id p, id_email = to_lower (trim email),
                  id_email_verified = (verified = Some True), id_first_name = or_default (gp_given_name p) ''Google'',
                  id_last_name = or_default (gp_family_name p) ''User''\<rparr>)"

definition map_facebook_profile :: "facebook_profile \<Rightarrow> error + oauth_identity" where
  "map_facebook_profile p = (case first_of (fp_emails p) of
      None \<Rightarrow> Inl identity_incomplete
    | Some email \<Rightarrow>
        if fp_id p = [] \<or> email = [] then Inl identity_incomplete
        else Inr \<lparr>id_provider = FACEBOOK, id_subject = fp_id p, id_email = to_lower (trim email),
                  id_email_verified = False, id_first_name = or_default (fp_given_name p) ''Facebook'',
                  id_last_name = or_default (fp_family_name p) ''User''\<rparr>)"

definition resolve_identity ::
    "env \<Rightarrow> millis \<Rightarrow> (nat \<Rightarrow> database \<Rightarrow> database) \<Rightarrow> oauth_identity \<Rightarrow> (auth_state, user_row) st_op" where
  "resolve_identity E now intf d =
     dbind (on_db (resolve_oauth_identity E now intf d)) (\<lambda>res.
     if \<not> ur_is_verified (rs_user res) then dthrow OAuthIdentityUntrustedError else dret (rs_user res))"

definition google_sign_in ::
    "env \<Rightarrow> auth_lib \<Rightarrow> auth_config \<Rightarrow> millis \<Rightarrow> (nat \<Rightarrow> database \<Rightarrow> database) \<Rightarrow> google_profile \<Rightarrow> (auth_state, user_row \<times> auth_tokens) st_op" where
  "google_sign_in E L C now intf p =
     dbind (dlift (map_google_profile p)) (\<lambda>d. dbind (resolve_identity E now intf d) (\<lambda>u.
     dbind (generate_tokens E L C now u None) (\<lambda>tokens. dret (u, tokens))))"

definition facebook_sign_in ::
    "env \<Rightarrow> auth_lib \<Rightarrow> auth_config \<Rightarrow> millis \<Rightarrow> (nat \<Rightarrow> database \<Rightarrow> database) \<Rightarrow> facebook_profile \<Rightarrow> (auth_state, user_row \<times> auth_tokens) st_op" where
  "facebook_sign_in E L C now intf p =
     dbind (dlift (map_facebook_profile p)) (\<lambda>d. dbind (resolve_identity E now intf d) (\<lambda>u.
     dbind (generate_tokens E L C now u None) (\<lambda>tokens. dret (u, tokens))))"

subsection \<open>The registration handler\<close>

definition registration_token :: "env \<Rightarrow> auth_lib \<Rightarrow> auth_config \<Rightarrow> domain_event \<Rightarrow> string" where
  "registration_token E L C ev = hmac_hex L (JWT_PREAUTH_SECRET C)
     (''registration-verification:v1:'' @ ev_aggregate_id ev @ '':'' @ iso_of E (ev_occurred_at ev))"

definition handle_registration ::
    "env \<Rightarrow> auth_lib \<Rightarrow> auth_config \<Rightarrow> millis \<Rightarrow> domain_event \<Rightarrow> (auth_state, unit) st_op" where
  "handle_registration E L C now ev =
     dbind (on_db (dget (find_user (ev_aggregate_id ev)))) (\<lambda>user.
     case user of
       None \<Rightarrow> dret ()
     | Some u \<Rightarrow>
         if ur_is_verified u then dret ()
         else let token = registration_token E L C ev
              in dbind (on_store (rts_set now (verify_key token) (ur_id u) (num_of_int VERIFY_EMAIL_TTL_SECONDS))) (\<lambda>_.
                 send_verification_mail (ur_email u) (ur_first_name u) (verify_url C token)
                   (Some (''registration-verification-'' @ ur_id u))))"

subsection \<open>What a login has checked\<close>

lemma preauth_keeps_db:
  "issue_two_factor_preauth_token L C now uid s = (r, s') \<Longrightarrow> au_db s' = au_db s"
  by (auto simp: issue_two_factor_preauth_token_def token_claims_def draw_def dbind_def dret_def dthrow_def fail_closed_def
      dcatch_def on_store_def split: sum.splits prod.splits)

lemma login_checks:
  assumes "login E L C now email password s = (Inr r, s')"
  shows "\<exists>u. find_user_by_email email (au_db s) = Some u \<and> ur_is_verified u
    \<and> bcrypt_compare L password (case ur_password u of None \<Rightarrow> [] | Some h \<Rightarrow> h)
    \<and> (case r of Logged_in tk \<Rightarrow> \<not> ur_is_2fa_enabled u \<and> at_user tk = to_auth_user_response u
       | Two_factor_required token \<Rightarrow> ur_is_2fa_enabled u \<and> au_db s' = au_db s)"
  using assms
  by (fastforce simp: login_def on_db_iff dget_def dthrow_def dret_def dest: generate_tokens_Inr preauth_keeps_db
      split: option.splits if_splits elim!: dbind_Inr_E)

lemma login_unknown:
  "find_user_by_email email (au_db s) = None \<Longrightarrow>
   login E L C now email password s = (Inl (authentication_error ''Invalid credentials''), s)"
  by (simp add: login_def dbind_def on_db_def dget_def dthrow_def)

lemma login_wrong_password:
  "find_user_by_email email (au_db s) = Some u \<Longrightarrow> \<not> bcrypt_compare L password (case ur_password u of None \<Rightarrow> [] | Some h \<Rightarrow> h) \<Longrightarrow>
   login E L C now email password s = (Inl (authentication_error ''Invalid credentials''), s)"
  by (simp add: login_def dbind_def on_db_def dget_def dthrow_def)

subsection \<open>Logout\<close>

lemma blacklist_keeps_db: "blacklist_access_token L C now token s = (r, s') \<Longrightarrow> au_db s' = au_db s"
  by (auto simp: blacklist_access_token_def Let_def dbind_def db_monad fail_closed_def dcatch_def on_store_def
      split: sum.splits prod.splits if_splits)

lemma logout_drops:
  assumes "(if truthy refresh then on_db (delete_refresh_token_by_token H (the refresh)) else invalidate_all_user_tokens uid) s1 = (r, s')"
  shows "r = Inr () \<and> au_redis s' = au_redis s1
    \<and> (\<forall>x \<in> set (refresh_tokens (au_db s')). if truthy refresh then rtk_token x \<noteq> H (the refresh) else rtk_user_id x \<noteq> uid)"
  using assms
  by (auto simp: on_db_iff invalidate_all_user_tokens_def delete_refresh_token_by_token_def
      delete_refresh_tokens_by_user_id_def dupdate_def delete_where_def split: if_splits)

lemma logout_effect:
  assumes "logout L C now uid access refresh s = (r, s')"
  shows "case r of Inl e \<Rightarrow> au_db s' = au_db s
    | Inr _ \<Rightarrow> (truthy access \<longrightarrow> (\<exists>s1. blacklist_access_token L C now (the access) s = (Inr (), s1) \<and> au_redis s' = au_redis s1))
        \<and> (\<forall>x \<in> set (refresh_tokens (au_db s')). if truthy refresh then rtk_token x \<noteq> sha256_hex L (the refresh) else rtk_user_id x \<noteq> uid)"
  using assms unfolding logout_def
proof (cases rule: dbind_cases)
  case (fail e)
  then show ?thesis using blacklist_keeps_db by (auto simp: dret_def split: if_splits)
next
  case (pass x s1)
  then show ?thesis using logout_drops [OF pass(2)] by (cases "truthy access") auto
qed

subsection \<open>Sign-in by an unverified identity\<close>

lemma facebook_unverified: "map_facebook_profile p = Inr d \<Longrightarrow> \<not> id_email_verified d"
  by (auto simp: map_facebook_profile_def split: option.splits if_splits)

lemma facebook_signs_in_linked:
  assumes "facebook_sign_in E L C now alone p s = (Inr (u, tokens), s')"
  shows "\<exists>d. map_facebook_profile p = Inr d \<and> linked_to d u (au_db s) \<and> ur_is_verified u \<and> at_user tokens = to_auth_user_response u"
proof -
  from assms obtain d res db where d: "map_facebook_profile p = Inr d"
    and res: "resolve_oauth_identity E now alone d (au_db s) = (Inr res, db)"
    and u: "u = rs_user res" "ur_is_verified u" and tk: "generate_tokens E L C now u None (s\<lparr>au_db := db\<rparr>) = (Inr tokens, s')"
    by (auto simp: facebook_sign_in_def resolve_identity_def on_db_iff dlift_def dret_def dthrow_def
        elim!: dbind_Inr_E split: if_splits)
  have "entitled_alone d res (au_db s)"
    using resolve_alone [OF res] by simp
  then show ?thesis
    using facebook_unverified [OF d] d u generate_tokens_Inr [OF tk] by (auto simp: entitled_alone_def split: if_splits)
qed

subsection \<open>Verification mails\<close>

text \<open>The deliveries of one registration event by the outbox: one attempt per instant of the list.\<close>

fun deliver :: "env \<Rightarrow> auth_lib \<Rightarrow> auth_config \<Rightarrow> domain_event \<Rightarrow> millis list \<Rightarrow> auth_state \<Rightarrow> auth_state" where
  "deliver E L C ev [] s = s"
| "deliver E L C ev (t # ts) s = deliver E L C ev ts (snd (handle_registration E L C t ev s))"

definition registration_mail :: "env \<Rightarrow> auth_lib \<Rightarrow> auth_config \<Rightarrow> domain_event \<Rightarrow> user_row \<Rightarrow> mail" where
  "registration_mail E L C ev u = \<lparr>ml_to = ur_email u, ml_name = ur_first_name u,
     ml_url = verify_url C (registration_token E L C ev), ml_key = Some (''registration-verification-'' @ ur_id u)\<rparr>"

lemma handle_registration_step:
  assumes "find_user (ev_aggregate_id ev) (au_db s) = Some u" and "\<not> ur_is_verified u"
    and "handle_registration E L C now ev s = (r, s')"
  shows "au_db s' = au_db s \<and> (au_mails s' = au_mails s \<or> au_mails s' = au_mails s @ [registration_mail E L C ev u])
    \<and> (ok r \<longrightarrow> au_mails s' = au_mails s @ [registration_mail E L C ev u]
         \<and> (\<forall>t. redis_view t (au_redis s') (verify_key (registration_token E L C ev))
              = (if t < now + 900000 then Some (ur_id u) else None)))"
proof -
  let ?token = "registration_token E L C ev"
  let ?set = "on_store (rts_set now (verify_key ?token) (ur_id u) (num_of_int VERIFY_EMAIL_TTL_SECONDS))"
  let ?mail = "send_verification_mail (ur_email u) (ur_first_name u) (verify_url C ?token)
                   (Some (''registration-verification-'' @ ur_id u))"
  have "dbind ?set (\<lambda>_. ?mail) s = (r, s')"
    using assms by (simp add: handle_registration_def dbind_def on_db_def dget_def Let_def)
  then show ?thesis
  proof (cases rule: dbind_cases)
    case (fail e)
    then show ?thesis by (auto simp: on_store_iff)
  next
    case (pass x s1)
    obtain rd where rd: "rts_set now (verify_key ?token) (ur_id u) (num_of_int VERIFY_EMAIL_TTL_SECONDS) (au_redis s) = (Inr x, rd)"
      and s1: "s1 = s\<lparr>au_redis := rd\<rparr>"
      using pass(1) by (auto simp: on_store_iff)
    show ?thesis
      using pass(2) rts.put_ok [OF rd]
      by (auto simp: send_verification_mail_def s1 registration_mail_def VERIFY_EMAIL_TTL_SECONDS_def split: if_splits)
  qed
qed

lemma deliver_mails:
  assumes "find_user (ev_aggregate_id ev) (au_db s) = Some u" and "\<not> ur_is_verified u"
  shows "\<exists>k. au_mails (deliver E L C ev ts s) = au_mails s @ replicate k (registration_mail E L C ev u)
    \<and> au_db (deliver E L C ev ts s) = au_db s"
  using assms
proof (induction ts arbitrary: s)
  case Nil
  then show ?case by (auto intro: exI [of _ 0])
next
  case (Cons t ts)
  obtain r s1 where h: "handle_registration E L C t ev s = (r, s1)" by fastforce
  note step = handle_registration_step [OF Cons.prems h]
  obtain k where k: "au_mails (deliver E L C ev ts s1) = au_mails s1 @ replicate k (registration_mail E L C ev u)"
    "au_db (deliver E L C ev ts s1) = au_db s1"
    using Cons.IH [of s1] step Cons.prems by auto
  show ?case
  proof (cases "au_mails s1 = au_mails s")
    case True
    then show ?thesis using k h step by auto
  next
    case False
    then show ?thesis using k h step by (auto intro!: exI [of _ "Suc k"])
  qed
qed

subsection \<open>A verification link is not lost\<close>

lemma store_call_keeps:
  "on_store m s = (r, s') \<Longrightarrow> au_db s' = au_db s"
  by (auto simp: on_store_iff)

lemma generate_tokens_keeps_users:
  "generate_tokens E L C now u family s = (r, s') \<Longrightarrow> users (au_db s') = users (au_db s)"
  by (auto simp: generate_tokens_def sign_access_token_def sign_refresh_token_def token_claims_def draw_def dret_def on_db_def
      dbind_def create_refresh_token_def insert_refresh_token_def Let_def split: if_splits sum.splits prod.splits)

lemma hydrated_id:
  "rbind (user_hydrate (to_entity_data u)) (user_verify now) = Inr user \<Longrightarrow> ar_id user = ur_id u"
  by (auto simp: rbind_Inr_iff user_hydrate_def user_verify_def to_entity_data_def raise_def split: if_splits)

lemma verified_after_update:
  assumes "find_user uid db = Some u"
  shows "\<exists>u' db'. update_user uid (\<lambda>u. u\<lparr>ur_is_verified := True\<rparr>) db = (Inr u', db')
    \<and> find_user uid db' = Some u' \<and> ur_is_verified u'"
  using assms by (simp add: update_user_def find_user_def find_by_update_by)

lemma verify_email_keeps_link:
  assumes run: "verify_email E L C now token s = (r, s')"
    and link: "redis_view now (au_redis s) (verify_key token) = Some uid"
  shows "redis_view now (au_redis s') (verify_key token) = Some uid
    \<or> (\<exists>u. find_user uid (au_db s') = Some u \<and> ur_is_verified u)"
  using run unfolding verify_email_def
proof (cases rule: dbind_cases)
  case (fail e)
  then show ?thesis using link rts.get_view by (auto simp: on_store_iff)
next
  case (pass v s1)
  obtain rd where get: "rts_get now (verify_key token) (au_redis s) = (Inr v, rd)" and s1: "s1 = s\<lparr>au_redis := rd\<rparr>"
    using pass(1) by (auto simp: on_store_iff)
  have v: "v = Some uid" using rts.get_ok [OF get] link by simp
  have link1: "redis_view now (au_redis s1) (verify_key token) = Some uid"
    using rts.get_view [OF get] link s1 by simp
  show ?thesis
  proof (cases "\<exists>u. truthy v \<and> find_user uid (au_db s1) = Some u")
    case False
    then have "s' = s1"
      using pass(2) v by (auto simp: dbind_def on_db_def dget_def dthrow_def split: if_splits option.splits)
    then show ?thesis using link1 by simp
  next
    case True
    then obtain u where u: "find_user uid (au_db s1) = Some u" and t: "truthy v" by blast
    have uid: "ur_id u = uid" using u by (auto simp: find_user_def dest: find_by_SomeD)
    show ?thesis
    proof (cases "ur_is_verified u")
      case True
      then have "dbind (on_store (rts_delete (verify_key token))) (\<lambda>_. generate_tokens E L C now u None) s1 = (r, s')"
        using pass(2) t u v by (simp add: dbind_def on_db_def dget_def)
      then have "users (au_db s') = users (au_db s1)"
        by (cases rule: dbind_cases) (auto dest!: store_call_keeps generate_tokens_keeps_users)
      then show ?thesis using u True by (auto simp: find_user_def)
    next
      case False
      let ?v = "rbind (user_hydrate (to_entity_data u)) (user_verify now)"
      have rest: "dbind (dlift ?v) (\<lambda>user.
              dbind (on_db (update_user (ar_id user) (\<lambda>u. u\<lparr>ur_is_verified := True\<rparr>))) (\<lambda>updated.
              dbind (on_store (rts_delete (verify_key token))) (\<lambda>_.
              generate_tokens E L C now updated None))) s1 = (r, s')"
        using pass(2) t u v False by (simp add: dbind_def on_db_def dget_def)
      show ?thesis
      proof (cases ?v)
        case (Inl e)
        then show ?thesis using rest link1 by simp
      next
        case (Inr user)
        obtain u' db' where upd: "update_user uid (\<lambda>u. u\<lparr>ur_is_verified := True\<rparr>) (au_db s1) = (Inr u', db')"
          and u': "find_user uid db' = Some u'" "ur_is_verified u'"
          using verified_after_update [OF u] by blast
        have "dbind (on_store (rts_delete (verify_key token))) (\<lambda>_. generate_tokens E L C now u' None) (s1\<lparr>au_db := db'\<rparr>) = (r, s')"
          using rest Inr hydrated_id [OF Inr] uid upd by (simp add: dbind_def dlift_def on_db_def)
        then have "users (au_db s') = users db'"
          by (cases rule: dbind_cases) (auto dest!: store_call_keeps generate_tokens_keeps_users)
        then show ?thesis using u' by (auto simp: find_user_def)
      qed
    qed
  qed
qed

subsection \<open>Properties\<close>

text \<open>A Facebook profile, whose email nobody has verified, signs in only to a user its subject was already linked to:
  having the email of an existing account is not enough, and an account it creates is not signed in to.\<close>

theorem facebook_needs_a_link:
  assumes "facebook_sign_in E L C now alone p s = (Inr (u, tokens), s')"
  shows "\<exists>d. map_facebook_profile p = Inr d \<and> linked_to d u (au_db s) \<and> ur_is_verified u \<and> at_user tokens = to_auth_user_response u"
  using assms by (rule facebook_signs_in_linked)

text \<open>A login that answers has found a verified user under the email whose password hash accepts the password; it hands
  out a session only if two-factor authentication is off, and with it on it hands out a pre-authentication token and
  leaves the database, and so its sessions, as it was.\<close>

theorem login_guards:
  assumes "login E L C now email password s = (Inr r, s')"
  shows "\<exists>u. find_user_by_email email (au_db s) = Some u \<and> ur_is_verified u
    \<and> bcrypt_compare L password (case ur_password u of None \<Rightarrow> [] | Some h \<Rightarrow> h)
    \<and> (case r of Logged_in tk \<Rightarrow> \<not> ur_is_2fa_enabled u \<and> at_user tk = to_auth_user_response u
       | Two_factor_required token \<Rightarrow> ur_is_2fa_enabled u \<and> au_db s' = au_db s)"
  using assms by (rule login_checks)

text \<open>However often the outbox delivers a registration to its handler, and whichever attempts fail, all the mails it queues
  are the same, with the same link and the same queue key, and nothing else of the database changes.\<close>

theorem registration_mail_is_retry_safe:
  assumes "find_user (ev_aggregate_id ev) (au_db s) = Some u" and "\<not> ur_is_verified u"
  shows "\<exists>k. au_mails (deliver E L C ev ts s) = au_mails s @ replicate k (registration_mail E L C ev u)
    \<and> au_db (deliver E L C ev ts s) = au_db s"
  using assms by (rule deliver_mails)

text \<open>Following a verification link never loses it: whatever fails on the way, afterwards the link still works or the user
  is verified.\<close>

theorem verification_link_not_lost:
  assumes "verify_email E L C now token s = (r, s')"
    and "redis_view now (au_redis s) (verify_key token) = Some uid"
  shows "redis_view now (au_redis s') (verify_key token) = Some uid
    \<or> (\<exists>u. find_user uid (au_db s') = Some u \<and> ur_is_verified u)"
  using assms by (rule verify_email_keeps_link)

definition fb_profile :: facebook_profile where
  "fb_profile = \<lparr>fp_id = ''7'', fp_emails = Some [''ann@x.io''], fp_given_name = None, fp_family_name = None\<rparr>"

definition linked_state :: auth_state where
  "linked_state = sample_auth\<lparr>au_db := empty_db\<lparr>users := [ann], oauth_accounts := [\<lparr>oa_user_id = ''ann'', oa_provider = FACEBOOK,
     oa_provider_subject = ''7'', oa_provider_email = ''ann@x.io'', oa_provider_email_verified = False\<rparr>]\<rparr>\<rparr>"

theorem facebook_needs_a_link_witness:
  "\<exists>u tokens s'. facebook_sign_in sample_env sample_lib sample_auth_config 5000 alone fb_profile linked_state = (Inr (u, tokens), s')
     \<and> ur_is_verified u"
proof -
  have "map_facebook_profile fb_profile = Inr \<lparr>id_provider = FACEBOOK, id_subject = ''7'', id_email = ''ann@x.io'',
      id_email_verified = False, id_first_name = ''Facebook'', id_last_name = ''User''\<rparr>" by code_simp
  moreover have "resolve_oauth_identity sample_env 5000 alone \<lparr>id_provider = FACEBOOK, id_subject = ''7'', id_email = ''ann@x.io'',
      id_email_verified = False, id_first_name = ''Facebook'', id_last_name = ''User''\<rparr> (au_db linked_state)
      = (Inr \<lparr>rs_user = ann, rs_created = False\<rparr>, au_db linked_state)"
    by (simp add: resolve_oauth_identity_def dcatch_def resolve_tx_def dbind_def dret_def find_linked_def find_user_def
        linked_state_def ann_def)
  moreover obtain tokens s' where "generate_tokens sample_env sample_lib sample_auth_config 5000 ann None linked_state = (Inr tokens, s')"
    using generate_tokens_accepts [of sample_lib sample_auth_config 5000 ann linked_state sample_env]
    by (auto simp: linked_state_def empty_db_def)
  moreover have "ur_is_verified ann" by (simp add: ann_def)
  ultimately have run: "facebook_sign_in sample_env sample_lib sample_auth_config 5000 alone fb_profile linked_state
      = (Inr (ann, tokens), s')"
    by (simp add: facebook_sign_in_def dbind_def dlift_def dret_def resolve_identity_def on_db_def)
  then show ?thesis using facebook_needs_a_link [OF run] by blast
qed

theorem login_guards_witness:
  "\<exists>r s'. login sample_env sample_lib sample_auth_config 5000 ''ann@x.io'' ''secret'' sample_auth = (Inr r, s')
     \<and> (\<exists>tk. r = Logged_in tk)"
proof -
  obtain tk s' where gen: "generate_tokens sample_env sample_lib sample_auth_config 5000 ann None sample_auth = (Inr tk, s')"
    using generate_tokens_accepts [of sample_lib sample_auth_config 5000 ann sample_auth sample_env]
    by (auto simp: sample_auth_def empty_db_def)
  have "find_user_by_email ''ann@x.io'' (au_db sample_auth) = Some ann" and "bcrypt_compare sample_lib ''secret'' ''bsecret''"
    and "ur_password ann = Some ''bsecret''" and "ur_is_verified ann" and "\<not> ur_is_2fa_enabled ann" by code_simp+
  then have run: "login sample_env sample_lib sample_auth_config 5000 ''ann@x.io'' ''secret'' sample_auth = (Inr (Logged_in tk), s')"
    using gen by (simp add: login_def dbind_def on_db_def dget_def dret_def)
  then show ?thesis using login_guards [OF run] by blast
qed

definition new_user :: user_row where
  "new_user = ann\<lparr>ur_is_verified := False\<rparr>"

theorem registration_mail_is_retry_safe_witness:
  "\<exists>k. au_mails (deliver sample_env sample_lib sample_auth_config (user_registered_event 5 ''ann'' ''ann@x.io'') [10, 20, 30]
      (sample_auth\<lparr>au_db := empty_db\<lparr>users := [new_user]\<rparr>\<rparr>))
    = replicate k (registration_mail sample_env sample_lib sample_auth_config (user_registered_event 5 ''ann'' ''ann@x.io'') new_user)"
  using registration_mail_is_retry_safe [of "user_registered_event 5 ''ann'' ''ann@x.io''"
      "sample_auth\<lparr>au_db := empty_db\<lparr>users := [new_user]\<rparr>\<rparr>" new_user sample_env sample_lib sample_auth_config "[10, 20, 30]"]
  by (auto simp: user_registered_event_def base_domain_event_def find_user_def new_user_def ann_def sample_auth_def)

theorem verification_link_not_lost_witness:
  "\<exists>r s'. verify_email sample_env sample_lib sample_auth_config 10 ''k''
       (sample_auth\<lparr>au_redis := idle_redis\<lparr>rd_entries := [verify_key ''k'' \<mapsto> (''ann'', 900)], rd_fate := \<lambda>n. if n = 0 then Served else Refused\<rparr>\<rparr>) = (r, s')
     \<and> (redis_view 10 (au_redis s') (verify_key ''k'') = Some ''ann'' \<or> (\<exists>u. find_user ''ann'' (au_db s') = Some u \<and> ur_is_verified u))"
proof -
  let ?s = "sample_auth\<lparr>au_redis := idle_redis\<lparr>rd_entries := [verify_key ''k'' \<mapsto> (''ann'', 900)], rd_fate := \<lambda>n. if n = 0 then Served else Refused\<rparr>\<rparr>"
  obtain r s' where run: "verify_email sample_env sample_lib sample_auth_config 10 ''k'' ?s = (r, s')" by fastforce
  moreover have "redis_view 10 (au_redis ?s) (verify_key ''k'') = Some ''ann''"
    by (simp add: redis_view_def live_def)
  ultimately show ?thesis using verification_link_not_lost by blast
qed

end
