(* ===== verification/Orders_Service.thy ===== *)
theory Orders_Service
  imports Auth_Service
begin

text \<open>
  Orders: \<^verbatim>\<open>modules/orders/orders.service.ts\<close> on \<^verbatim>\<open>prisma-orders.repository.ts\<close> and the read side
  \<^verbatim>\<open>prisma-order-history-read.repository.ts\<close>. A status update reads the order, lets the aggregate decide, and
  commits on the condition that the order still has the version that was read; \<open>intf\<close> is what others commit
  between the read and the commit.
\<close>

subsection \<open>Repository\<close>

definition find_view_by_id :: "ident \<Rightarrow> order_view option db_op" where
  "find_view_by_id oid = find_order_with_items oid"

definition find_view_by_id_and_user :: "ident \<Rightarrow> ident \<Rightarrow> order_view option db_op" where
  "find_view_by_id_and_user oid uid = find_order_by_user_and_id oid uid"

definition orders_by_user :: "ident \<Rightarrow> nat \<Rightarrow> nat \<Rightarrow> order_view list db_op" where
  "orders_by_user uid skip n db =
     dlift (rmap (to_order_with_items db)
       (take n (drop skip (sort_key (\<lambda>o'. - or_created_at o') (filter (\<lambda>o'. or_user_id o' = uid) (orders db)))))) db"

definition count_user_orders :: "ident \<Rightarrow> database \<Rightarrow> nat" where
  "count_user_orders uid db = count_where (\<lambda>o'. or_user_id o' = uid) (orders db)"

record admin_order_filters =
  af_status :: "order_status option"
  af_user_id :: "string option"

definition admin_where :: "admin_order_filters \<Rightarrow> order_row \<Rightarrow> bool" where
  "admin_where f o' \<longleftrightarrow> (case af_status f of None \<Rightarrow> True | Some st \<Rightarrow> or_status o' = st)
     \<and> (truthy (af_user_id f) \<longrightarrow> or_user_id o' = the (af_user_id f))"

record admin_order_view =
  aov_view :: order_view
  aov_user :: "(ident \<times> string \<times> string \<times> string) option"

definition find_many_admin :: "admin_order_filters \<Rightarrow> nat \<Rightarrow> nat \<Rightarrow> admin_order_view list db_op" where
  "find_many_admin f skip n db =
     dlift (rmap (\<lambda>o'. rbind (to_order_with_items db o') (\<lambda>v.
         Inr \<lparr>aov_view = v, aov_user = map_option (\<lambda>u. (ur_id u, ur_email u, ur_first_name u, ur_last_name u))
                (find_user (or_user_id o') db)\<rparr>))
       (take n (drop skip (sort_key (\<lambda>o'. - or_created_at o') (filter (admin_where f) (orders db)))))) db"

definition count_admin :: "admin_order_filters \<Rightarrow> database \<Rightarrow> nat" where
  "count_admin f db = count_where (admin_where f) (orders db)"

definition order_conflict :: error where
  "order_conflict = conflict_error ''Order was modified by another request. Please retry.''"

definition set_status :: "ident \<Rightarrow> int \<Rightarrow> order_status \<Rightarrow> order_row list \<Rightarrow> order_row list" where
  "set_status oid expected st = update_where (\<lambda>o'. or_id o' = oid \<and> or_version o' = expected)
     (\<lambda>o'. o'\<lparr>or_status := st, or_version := or_version o' + 1\<rparr>)"

definition update_status_with_events :: "env \<Rightarrow> ident \<Rightarrow> int \<Rightarrow> order \<Rightarrow> order_view db_op" where
  "update_status_with_events E oid expected aggregate =
     transaction
       (dbind (dget (\<lambda>db. count_where (\<lambda>o'. or_id o' = oid \<and> or_version o' = expected) (orders db))) (\<lambda>n.
        dbind (dupdate (\<lambda>db. db\<lparr>orders := set_status oid expected (o_status aggregate) (orders db)\<rparr>)) (\<lambda>_.
        if n \<noteq> 1 then dthrow order_conflict
        else dbind (persist_domain_events E [aggregate] [oid \<mapsto> expected + 1]) (\<lambda>_.
             dbind (find_order_with_items oid) (\<lambda>updated.
             case updated of
               None \<Rightarrow> dthrow (conflict_error ''Order disappeared during status update.'')
             | Some v \<Rightarrow> dret v)))))"

subsection \<open>Read side\<close>

record order_history_item =
  hi_product_id :: ident
  hi_product_name :: string
  hi_quantity :: js_num
  hi_unit_price :: js_num

definition parse_history_item :: "json \<Rightarrow> order_history_item option" where
  "parse_history_item j = (case j of
      JObj fs \<Rightarrow> (case (map_of fs ''productId'', map_of fs ''productName'', map_of fs ''quantity'', map_of fs ''unitPrice'') of
          (Some (JStr pid), Some (JStr name), Some (JNum q), Some (JNum p)) \<Rightarrow>
            if pid \<noteq> [] \<and> is_safe_integer q \<and> 0 < int_of_num q \<and> is_finite_num p \<and> \<not> js_less p (Fin 0)
            then Some \<lparr>hi_product_id = pid, hi_product_name = name, hi_quantity = q, hi_unit_price = p\<rparr> else None
        | _ \<Rightarrow> None)
    | _ \<Rightarrow> None)"

definition invalid_history_items :: error where
  "invalid_history_items = PlainError ''Invalid order history projection items''"

definition parse_order_history_items :: "json \<Rightarrow> error + order_history_item list" where
  "parse_order_history_items j = (case j of
      JArr xs \<Rightarrow> rmap (\<lambda>x. case parse_history_item x of None \<Rightarrow> Inl invalid_history_items | Some i \<Rightarrow> Inr i) xs
    | _ \<Rightarrow> Inl invalid_history_items)"

record order_history_view =
  hv_order_id :: ident
  hv_user_id :: ident
  hv_order_number :: string
  hv_status :: order_status
  hv_payment_status :: payment_status
  hv_subtotal :: js_num
  hv_tax :: js_num
  hv_shipping_fee :: js_num
  hv_total :: js_num
  hv_items :: "order_history_item list"
  hv_placed_at :: millis

definition to_order_history_view :: "history_row \<Rightarrow> error + order_history_view" where
  "to_order_history_view r =
     rbind (parse_order_history_items (oh_items r)) (\<lambda>items.
     rbind (money_column (oh_subtotal r)) (\<lambda>sub.
     rbind (money_column (oh_tax r)) (\<lambda>tax.
     rbind (money_column (oh_shipping_fee r)) (\<lambda>ship.
     rbind (money_column (oh_total r)) (\<lambda>tot.
     Inr \<lparr>hv_order_id = oh_order_id r, hv_user_id = oh_user_id r, hv_order_number = oh_order_number r,
          hv_status = oh_status r, hv_payment_status = oh_payment_status r, hv_subtotal = sub, hv_tax = tax,
          hv_shipping_fee = ship, hv_total = tot, hv_items = items, hv_placed_at = oh_placed_at r\<rparr>)))))"

definition history_by_user :: "ident \<Rightarrow> nat \<Rightarrow> nat \<Rightarrow> order_history_view list db_op" where
  "history_by_user uid skip n db =
     dlift (rmap to_order_history_view
       (take n (drop skip (sort_key (\<lambda>r. - oh_placed_at r) (filter (\<lambda>r. oh_user_id r = uid) (order_history db)))))) db"

definition count_history_by_user :: "ident \<Rightarrow> database \<Rightarrow> nat" where
  "count_history_by_user uid db = count_where (\<lambda>r. oh_user_id r = uid) (order_history db)"

definition history_by_id_and_user :: "ident \<Rightarrow> ident \<Rightarrow> order_history_view option db_op" where
  "history_by_id_and_user oid uid db =
     (case find (\<lambda>r. oh_order_id r = oid \<and> oh_user_id r = uid) (order_history db) of
        None \<Rightarrow> dret None db
      | Some r \<Rightarrow> dlift (rbind (to_order_history_view r) (\<lambda>v. Inr (Some v))) db)"

subsection \<open>The service\<close>

record 'a page_of =
  pg_rows :: "'a list"
  pg_total :: nat
  pg_page :: nat
  pg_limit :: nat
  pg_total_pages :: nat

text \<open>\<^verbatim>\<open>Math.ceil(total / limit)\<close> for a positive limit.\<close>

definition total_pages :: "nat \<Rightarrow> nat \<Rightarrow> nat" where
  "total_pages n limit = (n + limit - 1) div limit"

definition get_order_history :: "ident \<Rightarrow> nat \<Rightarrow> nat \<Rightarrow> order_history_view page_of db_op" where
  "get_order_history uid pg limit =
     dbind (history_by_user uid ((pg - 1) * limit) limit) (\<lambda>rows.
     dbind (dget (count_history_by_user uid)) (\<lambda>n.
     dret \<lparr>pg_rows = rows, pg_total = n, pg_page = pg, pg_limit = limit, pg_total_pages = total_pages n limit\<rparr>))"

definition missing_product :: error where
  "missing_product = PlainError ''Cannot read properties of null''"

definition to_history_view :: "order_view \<Rightarrow> error + order_history_view" where
  "to_history_view v =
     rbind (rmap (\<lambda>i. case oiv_product i of
              None \<Rightarrow> Inl missing_product
            | Some (_, name, _, _) \<Rightarrow> Inr \<lparr>hi_product_id = oir_product_id (oiv_item i), hi_product_name = name,
                hi_quantity = num_of_int (oir_quantity (oiv_item i)), hi_unit_price = num_of_int (oir_price (oiv_item i))\<rparr>)
          (ov_items v)) (\<lambda>items. let o' = ov_order v in
     Inr \<lparr>hv_order_id = or_id o', hv_user_id = or_user_id o', hv_order_number = or_order_number o', hv_status = or_status o',
          hv_payment_status = or_payment_status o', hv_subtotal = num_of_int (or_subtotal o'), hv_tax = num_of_int (or_tax o'),
          hv_shipping_fee = num_of_int (or_shipping_fee o'), hv_total = num_of_int (or_total o'), hv_items = items,
          hv_placed_at = or_created_at o'\<rparr>)"

definition get_order_by_id :: "ident \<Rightarrow> ident \<Rightarrow> order_history_view db_op" where
  "get_order_by_id oid uid =
     dbind (history_by_id_and_user oid uid) (\<lambda>projected.
     case projected of
       Some v \<Rightarrow> dret v
     | None \<Rightarrow>
         dbind (find_view_by_id_and_user oid uid) (\<lambda>persisted.
         case persisted of
           None \<Rightarrow> dthrow (not_found_error ''Order not found'')
         | Some p \<Rightarrow> dlift (to_history_view p)))"

definition admin_get_orders :: "admin_order_filters \<Rightarrow> nat \<Rightarrow> nat \<Rightarrow> admin_order_view page_of db_op" where
  "admin_get_orders f pg limit =
     dbind (find_many_admin f ((pg - 1) * limit) limit) (\<lambda>rows.
     dbind (dget (count_admin f)) (\<lambda>n.
     dret \<lparr>pg_rows = rows, pg_total = n, pg_page = pg, pg_limit = limit, pg_total_pages = total_pages n limit\<rparr>))"

definition hydrate_view :: "order_view \<Rightarrow> error + order" where
  "hydrate_view v =
     (let o' = ov_order v in
      rbind (rmap (\<lambda>i. case oiv_product i of
              None \<Rightarrow> Inl missing_product
            | Some (_, name, _, _) \<Rightarrow> Inr (oir_product_id (oiv_item i), name, oir_quantity (oiv_item i),
                num_of_int (oir_price (oiv_item i)))) (ov_items v)) (\<lambda>items.
      order_hydrate \<lparr>od_id = or_id o', od_user_id = or_user_id o', od_order_number = or_order_number o', od_status = or_status o',
        od_created_at = or_created_at o', od_customer_name = or_customer_name o', od_customer_email = or_customer_email o',
        od_customer_phone = or_customer_phone o', od_customer_address = or_customer_address o',
        od_payment_method = or_payment_method o', od_payment_status = or_payment_status o',
        od_discount_amount = num_of_int (or_discount_amount o'), od_shipping_fee = num_of_int (or_shipping_fee o'),
        od_tax = num_of_int (or_tax o'), od_notes = or_notes o', od_discount_code = or_discount_code o', od_items = items,
        od_version = Some (or_version o')\<rparr>))"

definition apply_status :: "millis \<Rightarrow> order_status \<Rightarrow> order \<Rightarrow> error + order" where
  "apply_status now st ord = (case st of
      PROCESSING \<Rightarrow> order_confirm now ord
    | SHIPPED \<Rightarrow> order_ship now ord
    | DELIVERED \<Rightarrow> order_deliver now ord
    | CANCELLED \<Rightarrow> order_cancel now ord
    | PENDING \<Rightarrow> Inl (DomainError (InvalidOrderTransitionError (order_status_name (o_status ord)) (order_status_name st))))"

definition update_order_status_service ::
    "env \<Rightarrow> millis \<Rightarrow> (database \<Rightarrow> database) \<Rightarrow> ident \<Rightarrow> order_status \<Rightarrow> order_view db_op" where
  "update_order_status_service E now intf oid st =
     dbind (find_view_by_id oid) (\<lambda>persisted.
     case persisted of
       None \<Rightarrow> dthrow (not_found_error ''Order not found'')
     | Some v \<Rightarrow>
         dbind (dlift (hydrate_view v)) (\<lambda>ord.
         dbind (dlift (apply_status now st ord)) (\<lambda>ord'.
         dbind (dupdate intf) (\<lambda>_.
         update_status_with_events E oid (ar_version ord) ord'))))"

subsection \<open>What a status update does\<close>

definition status_events :: "millis \<Rightarrow> order_status \<Rightarrow> order_row \<Rightarrow> domain_event list" where
  "status_events now st o' = order_status_changed_event now (or_id o') (or_status o') st (or_user_id o')
     # (if st = CANCELLED then [order_cancelled_event now (or_id o') (or_user_id o')] else [])"

lemma transition_Inr:
  "transition_status now new ord = Inr ord' \<longleftrightarrow> can_transition (o_status ord) new
     \<and> ord' = raise (order_status_changed_event now (ar_id ord) (o_status ord) new (o_user_id ord)) (ord\<lparr>o_status := new\<rparr>)"
  by (auto simp: transition_status_def Let_def)

lemma apply_status_Inr:
  assumes "apply_status now st ord = Inr ord'"
  shows "can_transition (o_status ord) st \<and> o_status ord' = st \<and> ar_id ord' = ar_id ord
    \<and> ar_events ord' = ar_events ord @ order_status_changed_event now (ar_id ord) (o_status ord) st (o_user_id ord)
        # (if st = CANCELLED then [order_cancelled_event now (ar_id ord) (o_user_id ord)] else [])"
  using assms
  by (cases st) (auto simp: apply_status_def order_confirm_def order_ship_def order_deliver_def order_cancel_def transition_Inr
      rbind_Inr_iff raise_def split: if_splits)

lemma hydrate_view_Inr:
  assumes "hydrate_view v = Inr ord"
  shows "ar_id ord = or_id (ov_order v) \<and> o_status ord = or_status (ov_order v) \<and> o_user_id ord = or_user_id (ov_order v)
    \<and> ar_version ord = or_version (ov_order v) \<and> ar_events ord = []"
  using assms by (auto simp: hydrate_view_def order_hydrate_def set_version_from_persistence_def Let_def rbind_Inr_iff)

definition with_events :: "env \<Rightarrow> (ident \<Rightarrow> int option) \<Rightarrow> domain_event list \<Rightarrow> database \<Rightarrow> database" where
  "with_events E sv evs db = db\<lparr>outbox_events := outbox_events db @ number_rows (gen_id E) (iso_of E) sv (id_supply db) evs,
     id_supply := id_supply db + length evs\<rparr>"

lemma persist_domain_events_one:
  "ar_events a \<noteq> [] \<Longrightarrow> persist_domain_events E [a] sv db = (Inr [snd (pull_events a)], with_events E sv (ar_events a) db)"
  by (simp add: persist_domain_events_def persist_events_def dbind_def dupdate_def dret_def with_events_def Let_def)

lemma update_status_Inr:
  assumes run: "update_status_with_events E oid expected a db = (Inr v, db')" and "ar_events a \<noteq> []"
  shows "count_where (\<lambda>o'. or_id o' = oid \<and> or_version o' = expected) (orders db) = 1
    \<and> db' = with_events E [oid \<mapsto> expected + 1] (ar_events a) (db\<lparr>orders := set_status oid expected (o_status a) (orders db)\<rparr>)"
proof -
  let ?db1 = "db\<lparr>orders := set_status oid expected (o_status a) (orders db)\<rparr>"
  have one: "count_where (\<lambda>o'. or_id o' = oid \<and> or_version o' = expected) (orders db) = 1"
    using run by (auto simp: update_status_with_events_def transaction_Inr_iff dthrow_def split: if_splits)
  then have "dbind (persist_domain_events E [a] [oid \<mapsto> expected + 1]) (\<lambda>_.
             dbind (find_order_with_items oid) (\<lambda>updated.
             case updated of
               None \<Rightarrow> dthrow (conflict_error ''Order disappeared during status update.'')
             | Some v \<Rightarrow> dret v)) ?db1 = (Inr v, db')"
    using run by (simp add: update_status_with_events_def transaction_Inr_iff)
  then have rest: "dbind (find_order_with_items oid) (\<lambda>updated.
             case updated of
               None \<Rightarrow> dthrow (conflict_error ''Order disappeared during status update.'')
             | Some v \<Rightarrow> dret v) (with_events E [oid \<mapsto> expected + 1] (ar_events a) ?db1) = (Inr v, db')"
    by (simp add: dbind_step [of "persist_domain_events E [a] [oid \<mapsto> expected + 1]", OF persist_domain_events_one [OF assms(2)]])
  have "db' = with_events E [oid \<mapsto> expected + 1] (ar_events a) ?db1"
    using rest by (auto simp: find_order_with_items_def dret_def dlift_def dthrow_def rbind_Inr_iff
        elim!: dbind_Inr_E split: option.splits)
  then show ?thesis using one by simp
qed

lemma update_status_Inl:
  "update_status_with_events E oid expected a db = (Inl e, db') \<Longrightarrow> db' = db"
  by (simp add: update_status_with_events_def transaction_Inl_iff)

lemma update_status_conflict:
  "count_where (\<lambda>o'. or_id o' = oid \<and> or_version o' = expected) (orders db) \<noteq> 1 \<Longrightarrow>
   update_status_with_events E oid expected a db = (Inl order_conflict, db)"
  by (simp add: update_status_with_events_def transaction_def dthrow_def)

lemma find_with_events: "find_order_with_items oid (with_events E sv evs db)
    = (fst (find_order_with_items oid db), with_events E sv evs db)"
proof -
  have "order_item_view_of (with_events E sv evs db) = order_item_view_of db"
    by (rule ext) (simp add: order_item_view_of_def with_events_def find_product_def)
  then have "to_order_with_items (with_events E sv evs db) = to_order_with_items db"
    by (intro ext) (simp add: to_order_with_items_def with_events_def items_of_order_def)
  then show ?thesis
    by (simp add: find_order_with_items_def find_order_def with_events_def dret_def dlift_def split: option.splits)
qed

lemma update_status_success:
  assumes "count_where (\<lambda>o'. or_id o' = oid \<and> or_version o' = expected) (orders db) = 1" and "ar_events a \<noteq> []"
    and "fst (find_order_with_items oid (db\<lparr>orders := set_status oid expected (o_status a) (orders db)\<rparr>)) = Inr (Some w)"
  shows "fst (update_status_with_events E oid expected a db) = Inr w"
  using assms
  by (simp add: update_status_with_events_def transaction_def find_with_events
      dbind_step [of "persist_domain_events E [a] [oid \<mapsto> expected + 1]", OF persist_domain_events_one [OF assms(2)]]
      dbind_step [of "find_order_with_items oid"] dret_def)

text \<open>\<open>status_updated\<close>: the database after a status update of the order that was read as \<open>o'\<close>.\<close>

definition status_updated :: "env \<Rightarrow> millis \<Rightarrow> order_status \<Rightarrow> order_row \<Rightarrow> database \<Rightarrow> database" where
  "status_updated E now st o' db = with_events E [or_id o' \<mapsto> or_version o' + 1] (status_events now st o')
     (db\<lparr>orders := set_status (or_id o') (or_version o') st (orders db)\<rparr>)"

lemma find_view_Some:
  assumes "find_view_by_id oid db = (Inr (Some v), db1)"
  shows "db1 = db \<and> find_order oid db = Some (ov_order v)"
  using assms by (auto simp: find_view_by_id_def find_order_with_items_def to_order_with_items_def saved_checkout_order_def
      dret_def dlift_def rbind_Inr_iff split: option.splits)

lemma find_view_same: "find_view_by_id oid db = (x, db1) \<Longrightarrow> db1 = db"
  by (auto simp: find_view_by_id_def find_order_with_items_def dret_def dlift_def split: option.splits)

lemma status_update_outcome:
  assumes "update_order_status_service E now intf oid st db = (x, db')"
  shows "case x of
      Inl e \<Rightarrow> db' = db \<or> db' = intf db
    | Inr v \<Rightarrow> (\<exists>o'. find_order oid db = Some o' \<and> can_transition (or_status o') st
        \<and> count_where (\<lambda>r. or_id r = oid \<and> or_version r = or_version o') (orders (intf db)) = 1
        \<and> db' = status_updated E now st o' (intf db))"
  using assms unfolding update_order_status_service_def
proof (cases rule: dbind_cases)
  case (fail e)
  then show ?thesis using find_view_same by auto
next
  case (pass p db1)
  have db1: "db1 = db" by (rule find_view_same [OF pass(1)])
  show ?thesis
  proof (cases p)
    case None
    then show ?thesis using pass(2) db1 by (auto simp: dthrow_def)
  next
    case (Some v)
    have found: "find_order oid db = Some (ov_order v)" using find_view_Some pass(1) Some by simp
    have oid: "or_id (ov_order v) = oid" using found by (auto simp: find_order_def dest: find_by_SomeD)
    show ?thesis
    proof (cases "hydrate_view v")
      case (Inl e)
      then show ?thesis using pass(2) Some db1 by auto
    next
      case (Inr ord)
      note h = hydrate_view_Inr [OF Inr]
      show ?thesis
      proof (cases "apply_status now st ord")
        case (Inl e)
        then show ?thesis using pass(2) Some Inr db1 by auto
      next
        case (Inr ord')
        note a = apply_status_Inr [OF Inr]
        have evs: "ar_events ord' = status_events now st (ov_order v)" using a h by (simp add: status_events_def)
        then have ne: "ar_events ord' \<noteq> []" by (simp add: status_events_def)
        have upd: "update_status_with_events E oid (or_version (ov_order v)) ord' (intf db) = (x, db')"
          using pass(2) Some \<open>hydrate_view v = Inr ord\<close> Inr db1 h by simp
        show ?thesis
        proof (cases x)
          case (Inl e)
          then show ?thesis using update_status_Inl upd by auto
        next
          case (Inr w)
          then show ?thesis
            using update_status_Inr [OF upd [unfolded Inr] ne] found a h evs oid by (auto simp: status_updated_def)
        qed
      qed
    qed
  qed
qed

subsection \<open>The read model follows the order\<close>

text \<open>Status updates of one order, one after another; a refused one leaves no trace.\<close>

fun run_updates :: "env \<Rightarrow> ident \<Rightarrow> (millis \<times> order_status) list \<Rightarrow> database \<Rightarrow> database" where
  "run_updates E oid [] db = db"
| "run_updates E oid ((now, st) # us) db = run_updates E oid us (snd (update_order_status_service E now id oid st db))"

text \<open>A logged change: instant, old status, new status. \<open>changed_event oid uid v c\<close> is its event at version \<open>v\<close>.\<close>

type_synonym change = "millis \<times> order_status \<times> order_status"

fun changed_event :: "ident \<Rightarrow> ident \<Rightarrow> int \<Rightarrow> change \<Rightarrow> domain_event" where
  "changed_event oid uid v (now, old, new) = (order_status_changed_event now oid old new uid)\<lparr>ev_source_version := Some v\<rparr>"

definition recorded :: "env \<Rightarrow> database \<Rightarrow> domain_event \<Rightarrow> bool" where
  "recorded E db ev \<longleftrightarrow> (\<exists>r \<in> set (outbox_events db).
     deserialize_outbox_event E (ob_payload r) (ob_event_name r) (ob_aggregate_id r) = Inr ev)"

fun last_status :: "order_status \<Rightarrow> change list \<Rightarrow> order_status" where
  "last_status st [] = st"
| "last_status st ((_, _, new) # cs) = last_status new cs"

lemma changed_event_ok: "oid \<noteq> [] \<Longrightarrow> event_ok (order_status_changed_event now oid old new uid)"
  by (auto simp: event_ok_def order_status_changed_event_def base_domain_event_def known_keys_def Let_def)

lemma status_updated_records:
  assumes "env_ok E" and "or_id o' \<noteq> []" and "0 \<le> or_version o'" and "or_version o' < max_safe"
  shows "recorded E (status_updated E now st o' db)
    (changed_event (or_id o') (or_user_id o') (or_version o' + 1) (now, or_status o', st))"
proof -
  let ?ev = "order_status_changed_event now (or_id o') (or_status o') st (or_user_id o')"
  let ?sv = "[or_id o' \<mapsto> or_version o' + 1]"
  let ?row = "outbox_row_of (iso_of E) ?sv (gen_id E (id_supply db)) ?ev"
  have "?row \<in> set (outbox_events (status_updated E now st o' db))"
    by (simp add: status_updated_def with_events_def status_events_def)
  moreover have "deserialize_outbox_event E (ob_payload ?row) (ob_event_name ?row) (ob_aggregate_id ?row)
      = Inr (with_source_version ?sv ?ev)"
  proof -
    have "deserialize_outbox_event E (to_stored (iso_of E) (event_payload ?ev ?sv)) (ev_name ?ev) (ev_aggregate_id ?ev)
        = Inr (with_source_version ?sv ?ev)"
      by (rule deserialize_stored [OF changed_event_ok [OF assms(2)] assms(1)]) (use assms(3,4) in \<open>auto split: if_splits\<close>)
    then show ?thesis by (simp add: outbox_row_of_def)
  qed
  moreover have "with_source_version ?sv ?ev = changed_event (or_id o') (or_user_id o') (or_version o' + 1) (now, or_status o', st)"
    by (simp add: with_source_version_def order_status_changed_event_def base_domain_event_def Let_def)
  ultimately show ?thesis unfolding recorded_def by metis
qed

lemma status_updated_order:
  assumes "find_order oid db = Some o'"
  shows "find_order oid (status_updated E now st o' db) = Some (o'\<lparr>or_status := st, or_version := or_version o' + 1\<rparr>)"
proof -
  have "or_id o' = oid" using assms by (auto simp: find_order_def dest: find_by_SomeD)
  then show ?thesis
    using assms by (simp add: find_order_def status_updated_def with_events_def set_status_def find_by_update_where)
qed

lemma recorded_mono: "recorded E db ev \<Longrightarrow> set (outbox_events db) \<subseteq> set (outbox_events db') \<Longrightarrow> recorded E db' ev"
  by (auto simp: recorded_def)

lemma update_keeps_outbox:
  "update_order_status_service E now id oid st db = (x, db') \<Longrightarrow> set (outbox_events db) \<subseteq> set (outbox_events db')"
  using status_update_outcome [of E now id oid st db x db']
  by (auto simp: status_updated_def with_events_def split: sum.splits)

lemma run_updates_keep_outbox: "set (outbox_events db) \<subseteq> set (outbox_events (run_updates E oid us db))"
proof (induction us arbitrary: db)
  case (Cons u us)
  obtain now st where u: "u = (now, st)" by (cases u)
  have "set (outbox_events db) \<subseteq> set (outbox_events (snd (update_order_status_service E now id oid st db)))"
    using update_keeps_outbox [of E now oid st db "fst (update_order_status_service E now id oid st db)"] by simp
  then show ?case using Cons [of "snd (update_order_status_service E now id oid st db)"] u by auto
qed simp

lemma run_updates_logged:
  assumes "env_ok E" and "oid \<noteq> []" and "find_order oid db = Some o'" and "0 \<le> or_version o'"
    and "or_version o' + int (length us) \<le> max_safe"
  shows "\<exists>cs. find_order oid (run_updates E oid us db)
      = Some (o'\<lparr>or_status := last_status (or_status o') cs, or_version := or_version o' + int (length cs)\<rparr>)
    \<and> length cs \<le> length us
    \<and> (\<forall>k < length cs. recorded E (run_updates E oid us db) (changed_event oid (or_user_id o') (or_version o' + int k + 1) (cs ! k)))"
  using assms(3-)
proof (induction us arbitrary: db o')
  case Nil
  then show ?case by (intro exI [of _ "[]"]) simp
next
  case (Cons u us)
  obtain now st where u: "u = (now, st)" by (cases u)
  obtain x db1 where run: "update_order_status_service E now id oid st db = (x, db1)" by fastforce
  have oid: "or_id o' = oid" using Cons.prems(1) by (auto simp: find_order_def dest: find_by_SomeD)
  show ?case
  proof (cases x)
    case (Inl e)
    then have "db1 = db" using status_update_outcome [OF run] by simp
    then show ?thesis using Cons.IH [OF Cons.prems(1,2)] Cons.prems(3) run u by fastforce
  next
    case (Inr v)
    let ?o = "o'\<lparr>or_status := st, or_version := or_version o' + 1\<rparr>"
    have db1: "db1 = status_updated E now st o' db"
      using status_update_outcome [OF run] Inr Cons.prems(1) by auto
    have next1: "find_order oid db1 = Some ?o"
      unfolding db1 by (rule status_updated_order [OF Cons.prems(1)])
    obtain cs where cs: "find_order oid (run_updates E oid us db1)
        = Some (?o\<lparr>or_status := last_status st cs, or_version := or_version o' + 1 + int (length cs)\<rparr>)"
      "length cs \<le> length us"
      "\<forall>k < length cs. recorded E (run_updates E oid us db1) (changed_event oid (or_user_id o') (or_version o' + 1 + int k + 1) (cs ! k))"
      using Cons.IH [OF next1] Cons.prems(2,3) by auto
    have rec: "recorded E (run_updates E oid us db1) (changed_event oid (or_user_id o') (or_version o' + 1) (now, or_status o', st))"
      using status_updated_records [OF assms(1), of o' now st db] assms(2) Cons.prems(2,3) oid
        recorded_mono run_updates_keep_outbox [of db1 E oid us] unfolding db1 by auto
    have "recorded E (run_updates E oid us db1)
        (changed_event oid (or_user_id o') (or_version o' + int k + 1) (((now, or_status o', st) # cs) ! k))"
      if "k < Suc (length cs)" for k
      using that cs(3) rec by (cases k) (auto simp: algebra_simps)
    then show ?thesis
      using cs(1,2) run u by (intro exI [of _ "(now, or_status o', st) # cs"]) (simp add: algebra_simps)
  qed
qed

text \<open>The events of the order by version: the placing event, the recorded changes, and for versions the order has not
  reached yet, a change that leaves it as it is.\<close>

definition events_by_version :: "domain_event \<Rightarrow> ident \<Rightarrow> ident \<Rightarrow> order_status \<Rightarrow> change list \<Rightarrow> int \<Rightarrow> domain_event" where
  "events_by_version placed oid uid st0 cs v =
     (if v = 0 then placed
      else changed_event oid uid v (if 0 < v \<and> nat v \<le> length cs then cs ! nat (v - 1)
             else (0, last_status st0 cs, last_status st0 cs)))"

definition status_by_version :: "order_status \<Rightarrow> change list \<Rightarrow> int \<Rightarrow> order_status" where
  "status_by_version st0 cs v = (if 0 < v \<and> nat v \<le> length cs then snd (snd (cs ! nat (v - 1)))
     else if v \<le> 0 then st0 else last_status st0 cs)"

lemma last_status_nth: "cs \<noteq> [] \<Longrightarrow> last_status st cs = snd (snd (cs ! (length cs - 1)))"
proof (induction cs arbitrary: st)
  case (Cons c cs)
  obtain t a b where "c = (t, a, b)" by (cases c)
  then show ?case using Cons by (cases cs) (auto simp: nth_Cons')
qed simp

lemma status_by_version_last: "status_by_version st cs (int (length cs)) = last_status st cs"
proof (cases "cs = []")
  case False
  have "nat (int (length cs) - 1) = length cs - 1" by simp
  then show ?thesis using False by (simp add: status_by_version_def last_status_nth)
qed (simp add: status_by_version_def)

lemma changed_event_fields:
  "ev_name (changed_event oid uid v c) = ''OrderStatusChanged'' \<and> str_field ''orderId'' (changed_event oid uid v c) = Some oid
   \<and> str_field ''newStatus'' (changed_event oid uid v c) = Some (order_status_name (snd (snd c)))
   \<and> ev_source_version (changed_event oid uid v c) = Some v"
  by (cases c) (simp add: order_status_changed_event_def base_domain_event_def str_field_def Let_def)

lemma order_events_life:
  assumes "placed_history_row placed = Some hrow" and "oh_order_id hrow = oid" and "ev_name placed = ''OrderPlaced''"
    and "ev_source_version placed = Some 0"
  shows "history_life hrow 0 (status_by_version (oh_status hrow) cs) (events_by_version placed oid uid (oh_status hrow) cs)"
  unfolding history_life_def
  using assms changed_event_fields by (auto simp: events_by_version_def status_by_version_def)

lemma read_model:
  assumes env: "env_ok E" and oid: "oid \<noteq> []" and start: "find_order oid db = Some o'" "or_version o' = 0"
    and few: "int (length us) \<le> max_safe"
    and placed: "placed_history_row placed = Some hrow" "oh_order_id hrow = oid" "ev_name placed = ''OrderPlaced''"
      "ev_source_version placed = Some 0" "oh_status hrow = or_status o'"
    and reads: "distinct (map oh_order_id (order_history rdb))" "find_by oh_order_id oid (order_history rdb) = None"
  shows "\<exists>fin evs. find_order oid (run_updates E oid us db) = Some fin \<and> evs 0 = placed
    \<and> (\<forall>v. 0 < v \<and> v \<le> or_version fin \<longrightarrow> recorded E (run_updates E oid us db) (evs v))
    \<and> (\<forall>vs. 0 \<in> set vs \<and> set (dropWhile (\<lambda>v. v \<noteq> 0) vs) = {0..or_version fin} \<and> set vs \<subseteq> {0..or_version fin}
         \<longrightarrow> find_by oh_order_id oid (order_history (deliver_all evs vs rdb))
             = Some (hrow\<lparr>oh_status := or_status fin, oh_source_version := or_version fin\<rparr>))"
proof -
  obtain cs where cs: "find_order oid (run_updates E oid us db)
      = Some (o'\<lparr>or_status := last_status (or_status o') cs, or_version := int (length cs)\<rparr>)"
    "length cs \<le> length us"
    "\<forall>k < length cs. recorded E (run_updates E oid us db) (changed_event oid (or_user_id o') (int k + 1) (cs ! k))"
    using run_updates_logged [OF env oid start(1), of us] start(2) few by auto
  let ?fin = "o'\<lparr>or_status := last_status (or_status o') cs, or_version := int (length cs)\<rparr>"
  let ?evs = "events_by_version placed oid (or_user_id o') (oh_status hrow) cs"
  have life: "history_life hrow 0 (status_by_version (oh_status hrow) cs) ?evs"
    by (rule order_events_life [OF placed(1-4)])
  have rec: "recorded E (run_updates E oid us db) (?evs v)" if "0 < v \<and> v \<le> int (length cs)" for v
  proof -
    have "nat (v - 1) < length cs" and "int (nat (v - 1)) + 1 = v" using that by auto
    then have "recorded E (run_updates E oid us db) (changed_event oid (or_user_id o') v (cs ! nat (v - 1)))"
      using cs(3) by metis
    then show ?thesis using that by (auto simp: events_by_version_def)
  qed
  have conv: "find_by oh_order_id oid (order_history (deliver_all ?evs vs rdb))
      = Some (hrow\<lparr>oh_status := or_status ?fin, oh_source_version := or_version ?fin\<rparr>)"
    if "0 \<in> set vs \<and> set (dropWhile (\<lambda>v. v \<noteq> 0) vs) = {0..or_version ?fin} \<and> set vs \<subseteq> {0..or_version ?fin}" for vs
  proof -
    have all: "set (dropWhile (\<lambda>v. v \<noteq> 0) vs) = {0..int (length cs)}" and sub: "set vs \<subseteq> {0..int (length cs)}"
      using that by simp_all
    have "Max {0..int (length cs)} = int (length cs)"
      by (rule Max_eqI) auto
    moreover have "\<forall>v \<in> set vs. good_version 0 v"
      using sub cs(2) few by (auto simp: good_version_def)
    ultimately show ?thesis
      using history_converges [OF life, of vs rdb] that reads placed(2,5)
      by (simp add: all status_by_version_last)
  qed
  show ?thesis
    using cs(1) rec conv by (intro exI [of _ ?fin] exI [of _ ?evs]) (simp add: events_by_version_def)
qed


text \<open>C28: A status update is atomic and loses no other: if it fails it changes nothing; if it succeeds, the order still had
  the version it was read at, its status moves along an allowed transition and its version by one, and the change's
  events, with the new version, are in the outbox with it.\<close>

theorem status_update_is_atomic:
  assumes "update_order_status_service E now intf oid st db = (x, db')"
  shows "case x of
      Inl e \<Rightarrow> db' = db \<or> db' = intf db
    | Inr v \<Rightarrow> (\<exists>o'. find_order oid db = Some o' \<and> can_transition (or_status o') st
        \<and> count_where (\<lambda>r. or_id r = oid \<and> or_version r = or_version o') (orders (intf db)) = 1
        \<and> db' = status_updated E now st o' (intf db))"
  using assms by (rule status_update_outcome)

definition kept_order :: order_row where
  "kept_order = \<lparr>or_id = ''o1'', or_order_number = ''ORD-0001'', or_user_id = ''u1'', or_status = PENDING, or_payment_method = ''COD'',
     or_payment_status = PAY_PENDING, or_subtotal = 250000, or_tax = 25000, or_shipping_fee = 30000, or_total = 305000,
     or_discount_amount = 0, or_discount_code = None, or_customer_name = ''Lan'', or_customer_email = ''lan@example.com'',
     or_customer_phone = ''0901234567'', or_customer_address = ''12 Nguyen Hue, Quan 1'', or_notes = None, or_idempotency_key = None,
     or_created_at = 7, or_version = 0\<rparr>"

definition kept_db :: database where
  "kept_db = empty_db\<lparr>orders := [kept_order]\<rparr>"


definition kept_view :: "order_status \<Rightarrow> int \<Rightarrow> order_view" where
  "kept_view st v = \<lparr>ov_order = kept_order\<lparr>or_status := st, or_version := v\<rparr>, ov_items = []\<rparr>"

lemmas kept_simps = find_order_with_items_def to_order_with_items_def saved_checkout_order_def money_column_eq kept_view_def
  kept_db_def kept_order_def empty_db_def find_order_def items_of_order_def dlift_def dret_def max_safe_def

lemma kept_update: "ok (fst (update_order_status_service sample_env 8 id ''o1'' PROCESSING kept_db))"
proof -
  have "fst (find_view_by_id ''o1'' kept_db) = Inr (Some (kept_view PENDING 0))"
    by (simp add: find_view_by_id_def kept_simps)
  then have read: "find_view_by_id ''o1'' kept_db = (Inr (Some (kept_view PENDING 0)), kept_db)"
    by (metis find_view_same prod.collapse)
  have "ok (rbind (hydrate_view (kept_view PENDING 0)) (apply_status 8 PROCESSING))" by code_simp
  then obtain ord ord' where ord: "hydrate_view (kept_view PENDING 0) = Inr ord" and ord': "apply_status 8 PROCESSING ord = Inr ord'"
    by (auto elim!: okE simp: rbind_Inr_iff)
  have v: "ar_version ord = 0" using hydrate_view_Inr [OF ord] by (simp add: kept_view_def)
  have st: "o_status ord' = PROCESSING" and evs: "ar_events ord' \<noteq> []" using apply_status_Inr [OF ord'] by auto
  have "fst (find_order_with_items ''o1'' (kept_db\<lparr>orders := set_status ''o1'' 0 PROCESSING (orders kept_db)\<rparr>))
      = Inr (Some (kept_view PROCESSING 1))" by (simp add: kept_simps set_status_def update_where_def)
  then have "fst (update_status_with_events sample_env ''o1'' 0 ord' kept_db) = Inr (kept_view PROCESSING 1)"
    using st evs by (intro update_status_success) (simp_all add: kept_db_def kept_order_def count_where_def)
  then show ?thesis
    by (simp add: update_order_status_service_def read dbind_def ord ord' v dlift_def dupdate_def ok_def)
qed

theorem status_update_is_atomic_witness:
  "\<exists>v db'. update_order_status_service sample_env 8 id ''o1'' PROCESSING kept_db = (Inr v, db')
     \<and> db' = status_updated sample_env 8 PROCESSING kept_order kept_db"
proof -
  obtain v db' where run: "update_order_status_service sample_env 8 id ''o1'' PROCESSING kept_db = (Inr v, db')"
    using run_Inr [OF kept_update] by blast
  have "find_order ''o1'' kept_db = Some kept_order" by (simp add: kept_db_def find_order_def kept_order_def)
  then show ?thesis using status_update_is_atomic [OF run] run by auto
qed

end
