(* ===== verification/Saga.thy ===== *)
theory Saga
  imports Database
begin

text \<open>
  Sagas: \<^verbatim>\<open>shared/application/saga/saga-state.ts\<close>, the two state stores, \<^verbatim>\<open>checkout.saga.ts\<close> and
  \<^verbatim>\<open>cancellation-refund.saga.ts\<close>. The ports of a saga are services outside of \<^verbatim>\<open>src/\<close>: they are parameters, functions
  on an arbitrary world. What the process cannot decide is in \<open>saga_env\<close>, by the number of the call to the outside: how
  long the call takes (\<open>None\<close>: it never settles), what else happens to the world before it (another process, or
  the late effect of a call that was given up), whether the state store fails, and whether the process dies after it.
  A dead process calls nothing any more. Spans and counters are left out.
\<close>

subsection \<open>The world of a saga\<close>

record 'w saga_env =
  call_time :: "nat \<Rightarrow> nat option"
  meanwhile :: "nat \<Rightarrow> 'w \<Rightarrow> 'w"
  store_fails :: "nat \<Rightarrow> error option"
  dies_after :: "nat \<Rightarrow> bool"

text \<open>\<open>sg_var\<close> is the variable \<^verbatim>\<open>state\<close> of the method that runs. \<open>sg_log\<close> is a ghost: the port calls that were
  made, by step name, with whether their success arrived in time.\<close>

record ('w, 'st, 'v) saga_world =
  sg_now :: millis
  sg_calls :: nat
  sg_alive :: bool
  sg_ports :: 'w
  sg_store :: 'st
  sg_var :: 'v
  sg_log :: "(string \<times> bool) list"

type_synonym ('w, 'st, 'v, 'a) saga_op = "(('w, 'st, 'v) saga_world, 'a) st_op"

definition process_gone :: error where
  "process_gone = PlainError ''process gone''"

record saga_step_policy =
  sp_timeout_ms :: int
  sp_max_attempts :: nat
  sp_backoff_ms :: int

text \<open>One attempt: the call raced against a timer of \<open>limit\<close> milliseconds.\<close>

definition race_port :: "'w saga_env \<Rightarrow> string \<Rightarrow> ('w, 'a) st_op \<Rightarrow> int \<Rightarrow> ('w, 'st, 'v, 'a) saga_op" where
  "race_port E name port limit s =
     (if \<not> sg_alive s then (Inl process_gone, s)
      else let k = sg_calls s; (r, w) = port (meanwhile E k (sg_ports s));
               arrives = (case call_time E k of None \<Rightarrow> False | Some t \<Rightarrow> int t < limit);
               s' = s\<lparr>sg_calls := Suc k, sg_ports := w, sg_log := sg_log s @ [(name, arrives \<and> ok r)],
                      sg_now := sg_now s + (if arrives then int (the (call_time E k)) else limit)\<rparr>
           in if dies_after E k then (Inl process_gone, s'\<lparr>sg_alive := False\<rparr>)
              else if arrives then (r, s') else (Inl (SagaTimeoutError (name @ '' timed out'')), s'))"

text \<open>\<open>saga_attempts ... left attempt\<close>: the loop of \<^verbatim>\<open>executeSagaStep\<close> from attempt \<open>attempt\<close> on, with \<open>left\<close> attempts left.\<close>

fun saga_attempts :: "'w saga_env \<Rightarrow> string \<Rightarrow> ('w, 'a) st_op \<Rightarrow> saga_step_policy \<Rightarrow> millis \<Rightarrow> nat \<Rightarrow> nat
    \<Rightarrow> ('w, 'st, 'v, 'a) saga_op" where
  "saga_attempts E name port pol deadline 0 attempt s = (Inl (PlainError (''Saga step '' @ name @ '' failed'')), s)"
| "saga_attempts E name port pol deadline (Suc left) attempt s =
     (let remaining = deadline - sg_now s in
      if remaining \<le> 0 then (Inl (SagaTimeoutError (''Saga deadline exceeded before '' @ name)), s)
      else case race_port E name port (min (sp_timeout_ms pol) remaining) s of
          (Inr a, s') \<Rightarrow> (Inr a, s')
        | (Inl e, s') \<Rightarrow>
            if left = 0 then (Inl e, s')
            else saga_attempts E name port pol deadline left (Suc attempt)
              (s'\<lparr>sg_now := sg_now s' + min (sp_backoff_ms pol * 2 ^ (attempt - 1)) (max 0 (deadline - sg_now s'))\<rparr>))"

definition execute_saga_step :: "'w saga_env \<Rightarrow> string \<Rightarrow> ('w, 'a) st_op \<Rightarrow> saga_step_policy \<Rightarrow> millis \<Rightarrow> ('w, 'st, 'v, 'a) saga_op" where
  "execute_saga_step E name port pol deadline = saga_attempts E name port pol deadline (sp_max_attempts pol) 1"

definition STEP_POLICY :: saga_step_policy where
  "STEP_POLICY = \<lparr>sp_timeout_ms = 15000, sp_max_attempts = 3, sp_backoff_ms = 100\<rparr>"

definition SAGA_TIMEOUT_MS :: int where
  "SAGA_TIMEOUT_MS = 120000"

subsection \<open>State stores\<close>

text \<open>\<open>SagaStateStore\<close>: \<open>load\<close> and \<open>save\<close> of a store. \<open>usable i\<close> holds of a store in which the saga \<open>i\<close> may keep its state.\<close>

locale saga_state_store =
  fixes load :: "ident \<Rightarrow> 'st \<Rightarrow> 'v option"
    and save :: "millis \<Rightarrow> ident \<Rightarrow> 'v \<Rightarrow> 'st \<Rightarrow> 'st"
    and usable :: "ident \<Rightarrow> 'st \<Rightarrow> bool"
  assumes load_save: "usable i st \<Longrightarrow> load i (save now i v st) = Some v"
    and save_usable: "usable i st \<Longrightarrow> usable i (save now j v st)"
    and load_other: "j \<noteq> i \<Longrightarrow> load j (save now i v st) = load j st"
begin

text \<open>What a saga saved last is what it finds when it is executed again, whatever the sagas beside it saved.\<close>

lemma load_after_saves:
  assumes "usable i st" and "\<forall>(now, j, v) \<in> set ws. j \<noteq> i"
  shows "load i (foldl (\<lambda>st (now, j, v). save now j v st) (save now0 i v0 st) ws) = Some v0"
proof -
  have "load i (foldl (\<lambda>st (now, j, v). save now j v st) st0 ws) = load i st0" for st0
    using assms(2)
  proof (induction ws arbitrary: st0)
    case (Cons w ws)
    obtain now j v where "w = (now, j, v)" by (cases w)
    then show ?case using Cons load_other [of i j now v st0] by auto
  qed simp
  then show ?thesis using load_save [OF assms(1)] by simp
qed

end

text \<open>\<open>InMemorySagaStateStore\<close>.\<close>

definition memory_load :: "ident \<Rightarrow> (ident \<rightharpoonup> 'v) \<Rightarrow> 'v option" where
  "memory_load i st = st i"

definition memory_save :: "millis \<Rightarrow> ident \<Rightarrow> 'v \<Rightarrow> (ident \<rightharpoonup> 'v) \<Rightarrow> (ident \<rightharpoonup> 'v)" where
  "memory_save now i v st = st(i \<mapsto> v)"

interpretation memory_store: saga_state_store memory_load memory_save "\<lambda>i st. True"
  by unfold_locales (simp_all add: memory_load_def memory_save_def)

text \<open>\<open>PrismaSagaStateStore\<close>: the rows of the table \<^verbatim>\<open>SagaState\<close>. The JSON column keeps the state with its absent fields left
  out, which reads back as the same state, so the row holds the state itself.\<close>

record 'v saga_row =
  sgr_id :: ident
  sgr_saga_type :: string
  sgr_state :: 'v
  sgr_version :: int
  sgr_completed_at :: "millis option"

definition prisma_load :: "string \<Rightarrow> ident \<Rightarrow> 'v saga_row list \<Rightarrow> 'v option" where
  "prisma_load ty i rows = (case find_by sgr_id i rows of
      None \<Rightarrow> None
    | Some r \<Rightarrow> if sgr_saga_type r \<noteq> ty then None else Some (sgr_state r))"

definition prisma_save :: "string \<Rightarrow> ('v \<Rightarrow> string) \<Rightarrow> millis \<Rightarrow> ident \<Rightarrow> 'v \<Rightarrow> 'v saga_row list \<Rightarrow> 'v saga_row list" where
  "prisma_save ty step_of now i v rows =
     (let completed = (if step_of v = ''COMPLETED'' \<or> step_of v = ''COMPENSATED'' then Some now else None) in
      case find_by sgr_id i rows of
        None \<Rightarrow> rows @ [\<lparr>sgr_id = i, sgr_saga_type = ty, sgr_state = v, sgr_version = 0, sgr_completed_at = completed\<rparr>]
      | Some _ \<Rightarrow> update_by sgr_id i (\<lambda>r. r\<lparr>sgr_state := v, sgr_completed_at := completed, sgr_version := sgr_version r + 1\<rparr>) rows)"

text \<open>No saga of another type uses the id.\<close>

definition id_free_for :: "string \<Rightarrow> ident \<Rightarrow> 'v saga_row list \<Rightarrow> bool" where
  "id_free_for ty i rows \<longleftrightarrow> (\<forall>r. find_by sgr_id i rows = Some r \<longrightarrow> sgr_saga_type r = ty)"

lemma find_prisma_save:
  "find_by sgr_id j (prisma_save ty step_of now i v rows) =
     (if j = i then Some (case find_by sgr_id i rows of
          None \<Rightarrow> \<lparr>sgr_id = i, sgr_saga_type = ty, sgr_state = v, sgr_version = 0,
            sgr_completed_at = (if step_of v = ''COMPLETED'' \<or> step_of v = ''COMPENSATED'' then Some now else None)\<rparr>
        | Some r \<Rightarrow> r\<lparr>sgr_state := v, sgr_version := sgr_version r + 1,
            sgr_completed_at := (if step_of v = ''COMPLETED'' \<or> step_of v = ''COMPENSATED'' then Some now else None)\<rparr>)
      else find_by sgr_id j rows)"
  by (simp add: prisma_save_def Let_def find_by_append find_by_update_by split: option.splits)

interpretation prisma_store: saga_state_store "prisma_load ty" "prisma_save ty step_of" "id_free_for ty"
  for ty :: string and step_of :: "'v \<Rightarrow> string"
  by unfold_locales (auto simp: prisma_load_def id_free_for_def find_prisma_save split: option.splits)

text \<open>A saga that reuses the id of a saga of another type never finds its progress again.\<close>

lemma foreign_id_forgets:
  "find_by sgr_id i rows = Some r \<Longrightarrow> sgr_saga_type r \<noteq> ty \<Longrightarrow> prisma_load ty i (prisma_save ty step_of now i v rows) = None"
  by (simp add: prisma_load_def find_prisma_save)

subsection \<open>Calls of the store\<close>

record ('st, 'v) store_ops =
  so_load :: "ident \<Rightarrow> 'st \<Rightarrow> 'v option"
  so_save :: "millis \<Rightarrow> ident \<Rightarrow> 'v \<Rightarrow> 'st \<Rightarrow> 'st"

text \<open>A call of the store: it may fail, or never be answered, and the process may die after it.\<close>

definition store_call :: "'w saga_env \<Rightarrow> (('w, 'st, 'v) saga_world \<Rightarrow> 'a \<times> 'st) \<Rightarrow> ('w, 'st, 'v, 'a) saga_op" where
  "store_call E f s =
     (if \<not> sg_alive s then (Inl process_gone, s)
      else let k = sg_calls s; s' = s\<lparr>sg_calls := Suc k\<rparr> in
        case store_fails E k of
          Some e \<Rightarrow> (Inl e, s')
        | None \<Rightarrow> (let (a, st) = f s; s'' = s'\<lparr>sg_store := st\<rparr> in
            if dies_after E k then (Inl process_gone, s''\<lparr>sg_alive := False\<rparr>) else (Inr a, s'')))"

definition load_state :: "'w saga_env \<Rightarrow> ('st, 'v) store_ops \<Rightarrow> ident \<Rightarrow> ('w, 'st, 'v, 'v option) saga_op" where
  "load_state E S i = store_call E (\<lambda>s. (so_load S i (sg_store s), sg_store s))"

definition save_state :: "'w saga_env \<Rightarrow> ('st, 'v) store_ops \<Rightarrow> ident \<Rightarrow> 'v \<Rightarrow> ('w, 'st, 'v, unit) saga_op" where
  "save_state E S i v = store_call E (\<lambda>s. ((), so_save S (sg_now s) i v (sg_store s)))"

definition set_var :: "('v \<Rightarrow> 'v) \<Rightarrow> ('w, 'st, 'v, unit) saga_op" where
  "set_var f = dupdate (\<lambda>s. s\<lparr>sg_var := f (sg_var s)\<rparr>)"

subsection \<open>What a step does\<close>

text \<open>\<open>step_effect name b ls s s'\<close>: from \<open>s\<close> to \<open>s'\<close> at most \<open>b\<close> calls were made, all of the port \<open>name\<close>, with the successes \<open>ls\<close>;
  the saga's variable and its stored state are as they were.\<close>

definition step_effect :: "string \<Rightarrow> nat \<Rightarrow> bool list \<Rightarrow> ('w, 'st, 'v) saga_world \<Rightarrow> ('w, 'st, 'v) saga_world \<Rightarrow> bool" where
  "step_effect name b ls s s' \<longleftrightarrow> sg_var s' = sg_var s \<and> sg_store s' = sg_store s \<and> sg_log s' = sg_log s @ map (Pair name) ls
     \<and> sg_calls s' = sg_calls s + length ls \<and> length ls \<le> b \<and> sg_now s \<le> sg_now s' \<and> (sg_alive s' \<longrightarrow> sg_alive s)"

lemma race_effect:
  assumes "race_port E name port limit s = (x, s')" and "0 \<le> limit"
  shows "\<exists>ls. step_effect name 1 ls s s' \<and> sg_now s' \<le> sg_now s + limit
    \<and> (ok x \<longrightarrow> sg_alive s' \<and> ls = [True]) \<and> (\<not> ok x \<and> sg_alive s' \<longrightarrow> ls = [False]) \<and> (\<not> sg_alive s \<longrightarrow> s' = s \<and> \<not> ok x)"
proof (cases "sg_alive s")
  case False
  then show ?thesis
    using assms by (intro exI [of _ "[]"]) (auto simp: race_port_def step_effect_def)
next
  case True
  obtain r w where "port (meanwhile E (sg_calls s) (sg_ports s)) = (r, w)" by fastforce
  then show ?thesis
    using assms True
    by (intro exI [of _ "[(case call_time E (sg_calls s) of None \<Rightarrow> False | Some t \<Rightarrow> int t < limit) \<and> ok r]"])
      (auto simp: race_port_def step_effect_def Let_def split: if_splits option.splits prod.splits)
qed

lemma step_effect_trans:
  "step_effect name b ls s s' \<Longrightarrow> step_effect name b' ls' s' s'' \<Longrightarrow> step_effect name (b + b') (ls @ ls') s s''"
  by (auto simp: step_effect_def)

lemma step_effect_wait: "step_effect name b ls s s' \<Longrightarrow> 0 \<le> d \<Longrightarrow> step_effect name b ls s (s'\<lparr>sg_now := sg_now s' + d\<rparr>)"
  by (auto simp: step_effect_def)

lemma attempts_effect:
  assumes "saga_attempts E name port pol deadline left attempt s = (x, s')"
    and "0 \<le> sp_timeout_ms pol" and "0 \<le> sp_backoff_ms pol"
  shows "\<exists>ls. step_effect name left ls s s' \<and> (sg_now s \<le> deadline \<longrightarrow> sg_now s' \<le> deadline) \<and> (deadline \<le> sg_now s \<longrightarrow> s' = s \<and> \<not> ok x)
    \<and> (ok x \<longrightarrow> sg_alive s' \<and> ls \<noteq> [] \<and> List.last ls) \<and> (\<not> ok x \<and> sg_alive s' \<longrightarrow> True \<notin> set ls)"
  using assms
proof (induction E name port pol deadline left attempt s arbitrary: x rule: saga_attempts.induct)
  case (1 E name port pol deadline attempt s)
  then show ?case by (intro exI [of _ "[]"]) (auto simp: step_effect_def)
next
  case (2 E name port pol deadline left attempt s)
  show ?case
  proof (cases "deadline - sg_now s \<le> 0")
    case True
    then show ?thesis using "2.prems" by (intro exI [of _ "[]"]) (auto simp: step_effect_def)
  next
    case False
    obtain y s1 where race: "race_port E name port (min (sp_timeout_ms pol) (deadline - sg_now s)) s = (y, s1)" by fastforce
    obtain ls where ls: "step_effect name 1 ls s s1" "sg_now s1 \<le> sg_now s + min (sp_timeout_ms pol) (deadline - sg_now s)"
      "ok y \<longrightarrow> sg_alive s1 \<and> ls = [True]" "\<not> ok y \<and> sg_alive s1 \<longrightarrow> ls = [False]"
      using race_effect [OF race] False "2.prems"(2) by auto
    have dl: "sg_now s1 \<le> deadline" using ls(2) by linarith
    show ?thesis
    proof (cases y)
      case (Inr a)
      then show ?thesis
        using "2.prems" race False ls dl by (intro exI [of _ ls]) (auto simp: Let_def step_effect_def)
    next
      case (Inl e)
      show ?thesis
      proof (cases "left = 0")
        case True
        then show ?thesis
          using "2.prems" race False ls dl Inl by (intro exI [of _ ls]) (auto simp: Let_def step_effect_def)
      next
        case more: False
        let ?d = "min (sp_backoff_ms pol * 2 ^ (attempt - 1)) (max 0 (deadline - sg_now s1))"
        let ?s2 = "s1\<lparr>sg_now := sg_now s1 + ?d\<rparr>"
        have d: "0 \<le> ?d" "sg_now ?s2 \<le> deadline" using "2.prems"(3) dl by auto
        have "saga_attempts E name port pol deadline left (Suc attempt) ?s2 = (x, s')"
          using "2.prems"(1) race False Inl more by (simp add: Let_def)
        then obtain ls2 where ls2: "step_effect name left ls2 ?s2 s'" "sg_now s' \<le> deadline"
          "ok x \<longrightarrow> sg_alive s' \<and> ls2 \<noteq> [] \<and> List.last ls2" "\<not> ok x \<and> sg_alive s' \<longrightarrow> True \<notin> set ls2"
          using "2.IH" [OF refl False race [symmetric] Inl more] "2.prems"(2,3) d(2) by blast
        have "step_effect name (1 + left) (ls @ ls2) s s'"
          by (rule step_effect_trans [OF step_effect_wait [OF ls(1) d(1)] ls2(1)])
        moreover have "sg_alive s' \<longrightarrow> ls = [False]" using ls(4) Inl ls2(1) by (auto simp: step_effect_def)
        ultimately show ?thesis
          using ls2 False by (intro exI [of _ "ls @ ls2"]) auto
      qed
    qed
  qed
qed

text \<open>The shape of a forward step: unless its result is known already, call the port, note the result, save.\<close>

definition acquire_stage :: "'w saga_env \<Rightarrow> ('st, 'v) store_ops \<Rightarrow> ident \<Rightarrow> string \<Rightarrow> ('v \<Rightarrow> bool) \<Rightarrow> ('v \<Rightarrow> ('w, 'a) st_op)
    \<Rightarrow> ('a \<Rightarrow> 'v \<Rightarrow> 'v) \<Rightarrow> saga_step_policy \<Rightarrow> millis \<Rightarrow> ('w, 'st, 'v, unit) saga_op" where
  "acquire_stage E S i name known port note pol deadline =
     dbind (dget sg_var) (\<lambda>st.
     if known st then dret ()
     else dbind (execute_saga_step E name (port st) pol deadline) (\<lambda>r.
          dbind (set_var (note r)) (\<lambda>_.
          dbind (dget sg_var) (\<lambda>st. save_state E S i st))))"

definition policy_ok :: "saga_step_policy \<Rightarrow> bool" where
  "policy_ok pol \<longleftrightarrow> 0 \<le> sp_timeout_ms pol \<and> 0 \<le> sp_backoff_ms pol"

lemma STEP_POLICY_ok [simp]: "policy_ok STEP_POLICY" "sp_max_attempts STEP_POLICY = 3"
  by (simp_all add: policy_ok_def STEP_POLICY_def)

lemma step_effect_of:
  assumes "execute_saga_step E name port pol deadline s = (x, s')" and "policy_ok pol"
  shows "\<exists>ls. step_effect name (sp_max_attempts pol) ls s s' \<and> (sg_now s \<le> deadline \<longrightarrow> sg_now s' \<le> deadline)
    \<and> (deadline \<le> sg_now s \<longrightarrow> s' = s \<and> \<not> ok x) \<and> (ok x \<longrightarrow> sg_alive s' \<and> True \<in> set ls)
    \<and> (\<not> ok x \<and> sg_alive s' \<longrightarrow> True \<notin> set ls)"
proof -
  obtain ls where "step_effect name (sp_max_attempts pol) ls s s' \<and> (sg_now s \<le> deadline \<longrightarrow> sg_now s' \<le> deadline)
    \<and> (deadline \<le> sg_now s \<longrightarrow> s' = s \<and> \<not> ok x) \<and> (ok x \<longrightarrow> sg_alive s' \<and> ls \<noteq> [] \<and> List.last ls)
    \<and> (\<not> ok x \<and> sg_alive s' \<longrightarrow> True \<notin> set ls)"
    using attempts_effect [OF assms(1) [unfolded execute_saga_step_def]] assms(2) by (auto simp: policy_ok_def)
  moreover have "ls \<noteq> [] \<Longrightarrow> List.last ls \<Longrightarrow> True \<in> set ls" using last_in_set [of ls] by simp
  ultimately show ?thesis by blast
qed

definition store_works :: "'w saga_env \<Rightarrow> bool" where
  "store_works E \<longleftrightarrow> (\<forall>k. store_fails E k = None)"

lemma save_state_alive:
  assumes "save_state E S i v s = (x, s')" and "sg_alive s'" and "store_works E"
  shows "x = Inr () \<and> s' = s\<lparr>sg_calls := Suc (sg_calls s), sg_store := so_save S (sg_now s) i v (sg_store s)\<rparr> \<and> sg_alive s"
  using assms by (auto simp: save_state_def store_call_def store_works_def Let_def split: if_splits)

lemma load_state_alive:
  assumes "load_state E S i s = (x, s')" and "sg_alive s'" and "store_works E"
  shows "x = Inr (so_load S i (sg_store s)) \<and> s' = s\<lparr>sg_calls := Suc (sg_calls s)\<rparr> \<and> sg_alive s"
  using assms by (auto simp: load_state_def store_call_def store_works_def Let_def split: if_splits)

lemma expired_step:
  "deadline \<le> sg_now s \<Longrightarrow> execute_saga_step E name port STEP_POLICY deadline s
     = (Inl (SagaTimeoutError (''Saga deadline exceeded before '' @ name)), s)"
  by (simp add: execute_saga_step_def STEP_POLICY_def numeral_3_eq_3)

text \<open>\<open>mortal m\<close>: a process that is alive after \<open>m\<close> was alive before.\<close>

definition mortal :: "('w, 'st, 'v, 'a) saga_op \<Rightarrow> bool" where
  "mortal m \<longleftrightarrow> (\<forall>s. sg_alive (snd (m s)) \<longrightarrow> sg_alive s)"

lemma mortalD: "mortal m \<Longrightarrow> m s = (x, s') \<Longrightarrow> sg_alive s' \<Longrightarrow> sg_alive s"
  unfolding mortal_def by (metis snd_conv)

lemma mortal_bind:
  assumes "mortal m" and "\<And>a. mortal (f a)"
  shows "mortal (dbind m f)"
  unfolding mortal_def
proof (intro allI impI)
  fix s
  assume alive: "sg_alive (snd (dbind m f s))"
  obtain x s' where run: "dbind m f s = (x, s')" by fastforce
  from run show "sg_alive s"
  proof (cases rule: dbind_cases)
    case (fail e)
    then show ?thesis using alive run mortalD [OF assms(1)] by simp
  next
    case (pass a s1)
    then show ?thesis using alive run mortalD [OF assms(1) pass(1)] mortalD [OF assms(2) pass(2)] by simp
  qed
qed

lemma mortal_catch:
  assumes "mortal m" and "\<And>e. mortal (h e)"
  shows "mortal (dcatch m h)"
  unfolding mortal_def
proof (intro allI impI)
  fix s
  assume alive: "sg_alive (snd (dcatch m h s))"
  obtain x s1 where run: "m s = (x, s1)" by fastforce
  have "sg_alive s1"
    using alive run mortalD [OF assms(2), of _ s1 _ "snd (h _ s1)"] by (cases x) (auto simp: dcatch_def intro: mortalD [OF assms(2) prod.collapse [symmetric]])
  then show "sg_alive s" by (rule mortalD [OF assms(1) run])
qed

lemma mortal_basic [simp]: "mortal (dget g)" "mortal (dret a)" "mortal (dthrow e)" "mortal (set_var h)" "mortal (store_call E k)"
  by (auto simp: mortal_def dget_def dret_def dthrow_def set_var_def dupdate_def store_call_def Let_def split: option.splits prod.splits)

lemma mortal_step [simp]:
  assumes "policy_ok pol"
  shows "mortal (execute_saga_step E name port pol deadline)"
  unfolding mortal_def
proof (intro allI impI)
  fix s
  assume alive: "sg_alive (snd (execute_saga_step E name port pol deadline s))"
  obtain x s' where run: "execute_saga_step E name port pol deadline s = (x, s')" by fastforce
  show "sg_alive s"
    using step_effect_of [OF run assms] alive run by (auto simp: step_effect_def)
qed

lemma mortal_acquire [simp]: "policy_ok pol \<Longrightarrow> mortal (acquire_stage E S i name known port note pol deadline)"
  by (auto simp: acquire_stage_def save_state_def intro!: mortal_bind)

lemma mortal_save [simp]: "mortal (save_state E S i v)" "mortal (load_state E S i)"
  by (simp_all add: save_state_def load_state_def)

text \<open>The store has the saga's state as the variable has it.\<close>

definition synced :: "(ident \<Rightarrow> 'st \<Rightarrow> 'v option) \<Rightarrow> (ident \<Rightarrow> 'st \<Rightarrow> bool) \<Rightarrow> ident \<Rightarrow> ('w, 'st, 'v) saga_world \<Rightarrow> bool" where
  "synced load usable i s \<longleftrightarrow> usable i (sg_store s) \<and> load i (sg_store s) = Some (sg_var s)"

context saga_state_store
begin

abbreviation ops :: "('st, 'v) store_ops" where
  "ops \<equiv> \<lparr>so_load = load, so_save = save\<rparr>"

lemma save_synced:
  assumes "save_state E ops i (sg_var s) s = (x, s')" and "sg_alive s'" and "store_works E" and "usable i (sg_store s)"
  shows "x = Inr () \<and> synced load usable i s' \<and> sg_var s' = sg_var s \<and> sg_log s' = sg_log s \<and> sg_alive s \<and> sg_now s' = sg_now s"
  using save_state_alive [OF assms(1-3)] assms(4) by (simp add: synced_def load_save save_usable)

lemma acquire_effect:
  assumes run: "acquire_stage E ops i name known port note pol deadline s = (x, s')" and alive: "sg_alive s'"
    and "store_works E" and "policy_ok pol" and sync: "synced load usable i s"
  shows "\<exists>ls. sg_log s' = sg_log s @ map (Pair name) ls \<and> synced load usable i s' \<and> sg_alive s \<and> length ls \<le> sp_max_attempts pol \<and>
    (if known (sg_var s) then ok x \<and> sg_var s' = sg_var s \<and> ls = []
     else if ok x then \<exists>r. sg_var s' = note r (sg_var s) \<and> True \<in> set ls
     else sg_var s' = sg_var s \<and> True \<notin> set ls)"
proof (cases "known (sg_var s)")
  case True
  then show ?thesis
    using assms by (intro exI [of _ "[]"]) (auto simp: acquire_stage_def dret_def)
next
  case False
  obtain y s1 where step: "execute_saga_step E name (port (sg_var s)) pol deadline s = (y, s1)" by fastforce
  obtain ls where ls: "step_effect name (sp_max_attempts pol) ls s s1" "ok y \<longrightarrow> sg_alive s1 \<and> True \<in> set ls"
      "\<not> ok y \<and> sg_alive s1 \<longrightarrow> True \<notin> set ls"
    using step_effect_of [OF step assms(4)] by blast
  have unfold: "acquire_stage E ops i name known port note pol deadline s = (case y of Inl e \<Rightarrow> (Inl e, s1)
      | Inr r \<Rightarrow> save_state E ops i (note r (sg_var s1)) (s1\<lparr>sg_var := note r (sg_var s1)\<rparr>))"
  proof (cases y)
    case (Inl e)
    show ?thesis using False step Inl by (simp add: acquire_stage_def dbind_def db_monad)
  next
    case (Inr r)
    show ?thesis using False step Inr by (simp add: acquire_stage_def set_var_def dbind_def db_monad)
  qed
  have same: "sg_var s1 = sg_var s" "sg_store s1 = sg_store s" "sg_log s1 = sg_log s @ map (Pair name) ls"
      "length ls \<le> sp_max_attempts pol" "sg_alive s1 \<Longrightarrow> sg_alive s"
    using ls(1) by (simp_all add: step_effect_def)
  show ?thesis
  proof (cases y)
    case (Inl e)
    then have "x = Inl e" "s' = s1" using run unfold by simp_all
    then show ?thesis
      using ls(3) False alive sync Inl same by (intro exI [of _ ls]) (simp add: synced_def)
  next
    case (Inr r)
    let ?s2 = "s1\<lparr>sg_var := note r (sg_var s1)\<rparr>"
    have "save_state E ops i (sg_var ?s2) ?s2 = (x, s')" using run unfold Inr by simp
    note saved = save_synced [OF this alive assms(3)]
    show ?thesis
      using ls(2) Inr saved False sync same by (intro exI [of _ ls]) (auto simp: synced_def)
  qed
qed

end

end
