(* ===== verification/Checkout_Saga.thy ===== *)
theory Checkout_Saga
  imports Saga
begin

text \<open>
  \<^verbatim>\<open>modules/checkout/application/checkout.saga.ts\<close>: reserve, place, authorise, confirm; on an error, the undo calls. The state
  is saved after each step, so an execution of the same saga goes on where an earlier one stopped. The methods of
  \<open>CheckoutSagaPorts\<close> are parameters, and so are the store's \<open>load\<close> and \<open>save\<close>.
\<close>

datatype checkout_saga_step = STARTED | STOCK_RESERVED | ORDER_PLACED | PAYMENT_AUTHORIZED | COMPLETED | COMPENSATED

record checkout_saga_state =
  cs_saga_id :: ident
  cs_order_id :: "ident option"
  cs_step :: checkout_saga_step
  cs_reservation_id :: "ident option"
  cs_payment_id :: "ident option"
  cs_deadline_at :: "millis option"

record saga_input =
  ci_saga_id :: ident
  ci_user_id :: ident
  ci_total :: js_num
  ci_payment_method :: string
  ci_items :: "(ident \<times> int) list"

record 'w checkout_ports =
  reserve_stock_port :: "saga_input \<Rightarrow> ('w, ident) st_op"
  release_stock_port :: "ident \<Rightarrow> ('w, unit) st_op"
  place_order_port :: "saga_input \<Rightarrow> ('w, ident) st_op"
  cancel_order_port :: "ident \<Rightarrow> ('w, unit) st_op"
  authorize_payment_port :: "saga_input \<Rightarrow> ident \<Rightarrow> ('w, ident) st_op"
  refund_payment_port :: "ident \<Rightarrow> ('w, unit) st_op"
  confirm_order_port :: "ident \<Rightarrow> ('w, unit) st_op"

subsection \<open>The saga\<close>

definition saga_deadline :: "checkout_saga_state \<Rightarrow> ('w, 'st, checkout_saga_state) saga_world \<Rightarrow> millis" where
  "saga_deadline st s = (case cs_deadline_at st of Some d \<Rightarrow> d | None \<Rightarrow> sg_now s + SAGA_TIMEOUT_MS)"

definition reserve_stage where
  "reserve_stage E S P inp deadline =
     dbind (dget sg_var) (\<lambda>st.
     if truthy (cs_reservation_id st) then dret ()
     else dbind (execute_saga_step E ''checkout.reserve-stock'' (reserve_stock_port P inp) STEP_POLICY deadline) (\<lambda>r.
          dbind (set_var (\<lambda>st. st\<lparr>cs_step := STOCK_RESERVED, cs_reservation_id := Some r\<rparr>)) (\<lambda>_.
          dbind (dget sg_var) (\<lambda>st. save_state E S (ci_saga_id inp) st))))"

definition place_stage where
  "place_stage E S P inp deadline =
     dbind (dget sg_var) (\<lambda>st.
     if truthy (cs_order_id st) then dret ()
     else dbind (execute_saga_step E ''checkout.place-order'' (place_order_port P inp) STEP_POLICY deadline) (\<lambda>oid.
          dbind (set_var (\<lambda>st. st\<lparr>cs_step := ORDER_PLACED, cs_order_id := Some oid\<rparr>)) (\<lambda>_.
          dbind (dget sg_var) (\<lambda>st. save_state E S (ci_saga_id inp) st))))"

definition authorize_stage where
  "authorize_stage E S P inp deadline =
     dbind (dget sg_var) (\<lambda>st.
     if truthy (cs_payment_id st) \<or> ci_payment_method inp = ''COD'' then dret ()
     else dbind (execute_saga_step E ''checkout.authorize-payment'' (authorize_payment_port P inp (the (cs_order_id st)))
            STEP_POLICY deadline) (\<lambda>pid.
          dbind (set_var (\<lambda>st. st\<lparr>cs_step := PAYMENT_AUTHORIZED, cs_payment_id := Some pid\<rparr>)) (\<lambda>_.
          dbind (dget sg_var) (\<lambda>st. save_state E S (ci_saga_id inp) st))))"

definition confirm_stage where
  "confirm_stage E S P inp deadline =
     dbind (dget sg_var) (\<lambda>st.
     dbind (execute_saga_step E ''checkout.confirm-order'' (confirm_order_port P (the (cs_order_id st))) STEP_POLICY deadline) (\<lambda>_.
     dbind (set_var (\<lambda>st. st\<lparr>cs_step := COMPLETED\<rparr>)) (\<lambda>_.
     dbind (dget sg_var) (\<lambda>st.
     dbind (save_state E S (ci_saga_id inp) st) (\<lambda>_. dret st)))))"

definition compensate_step where
  "compensate_step E name port st i =
     (if truthy i
      then dbind (dget (saga_deadline st)) (\<lambda>d. execute_saga_step E name (port (the i)) STEP_POLICY d)
      else dret ())"

definition compensate where
  "compensate E S P st =
     dbind (compensate_step E ''checkout.refund-payment'' (refund_payment_port P) st (cs_payment_id st)) (\<lambda>_.
     dbind (compensate_step E ''checkout.cancel-order'' (cancel_order_port P) st (cs_order_id st)) (\<lambda>_.
     dbind (compensate_step E ''checkout.release-stock'' (release_stock_port P) st (cs_reservation_id st)) (\<lambda>_.
     save_state E S (cs_saga_id st) (st\<lparr>cs_step := COMPENSATED\<rparr>))))"

definition execute_stages where
  "execute_stages E S P inp deadline =
     dbind (reserve_stage E S P inp deadline) (\<lambda>_.
     dbind (place_stage E S P inp deadline) (\<lambda>_.
     dbind (authorize_stage E S P inp deadline) (\<lambda>_.
     confirm_stage E S P inp deadline)))"

definition started_state :: "saga_input \<Rightarrow> millis \<Rightarrow> checkout_saga_state" where
  "started_state inp now = \<lparr>cs_saga_id = ci_saga_id inp, cs_order_id = None, cs_step = STARTED, cs_reservation_id = None,
     cs_payment_id = None, cs_deadline_at = Some (now + SAGA_TIMEOUT_MS)\<rparr>"

definition execute_checkout_saga ::
    "'w saga_env \<Rightarrow> ('st, checkout_saga_state) store_ops \<Rightarrow> 'w checkout_ports \<Rightarrow> saga_input
      \<Rightarrow> ('w, 'st, checkout_saga_state, checkout_saga_state) saga_op" where
  "execute_checkout_saga E S P inp =
     dbind (load_state E S (ci_saga_id inp)) (\<lambda>found.
     dbind (dget sg_now) (\<lambda>now.
     let st = (case found of Some st \<Rightarrow> st | None \<Rightarrow> started_state inp now) in
     dbind (dget (saga_deadline st)) (\<lambda>deadline.
     dbind (set_var (\<lambda>_. st\<lparr>cs_deadline_at := Some deadline\<rparr>)) (\<lambda>_.
     dbind (dget sg_var) (\<lambda>st. dbind (save_state E S (ci_saga_id inp) st) (\<lambda>_.
     dcatch (execute_stages E S P inp deadline)
       (\<lambda>e. dbind (dget sg_var) (\<lambda>st. dbind (compensate E S P st) (\<lambda>_. dthrow e)))))))))"

subsection \<open>All or nothing\<close>

text \<open>\<open>undone v ls\<close>: for everything the state \<open>v\<close> says was acquired, the undo call succeeded in \<open>ls\<close>. \<open>noted v ls\<close>:
  what was acquired in \<open>ls\<close> is in the state \<open>v\<close>.\<close>

definition undone :: "checkout_saga_state \<Rightarrow> (string \<times> bool) list \<Rightarrow> bool" where
  "undone v ls \<longleftrightarrow> (truthy (cs_payment_id v) \<longrightarrow> (''checkout.refund-payment'', True) \<in> set ls)
     \<and> (truthy (cs_order_id v) \<longrightarrow> (''checkout.cancel-order'', True) \<in> set ls)
     \<and> (truthy (cs_reservation_id v) \<longrightarrow> (''checkout.release-stock'', True) \<in> set ls)"

definition noted :: "checkout_saga_state \<Rightarrow> (string \<times> bool) list \<Rightarrow> bool" where
  "noted v ls \<longleftrightarrow> ((''checkout.reserve-stock'', True) \<in> set ls \<longrightarrow> cs_reservation_id v \<noteq> None)
     \<and> ((''checkout.place-order'', True) \<in> set ls \<longrightarrow> cs_order_id v \<noteq> None)
     \<and> ((''checkout.authorize-payment'', True) \<in> set ls \<longrightarrow> cs_payment_id v \<noteq> None)"

text \<open>\<open>resumes v ls\<close>: no call of \<open>ls\<close> acquires what the state \<open>v\<close> has already.\<close>

definition resumes :: "checkout_saga_state \<Rightarrow> (string \<times> bool) list \<Rightarrow> bool" where
  "resumes v ls \<longleftrightarrow> (truthy (cs_reservation_id v) \<longrightarrow> ''checkout.reserve-stock'' \<notin> fst ` set ls)
     \<and> (truthy (cs_order_id v) \<longrightarrow> ''checkout.place-order'' \<notin> fst ` set ls)
     \<and> (truthy (cs_payment_id v) \<longrightarrow> ''checkout.authorize-payment'' \<notin> fst ` set ls)"

lemma stages_acquire:
  "reserve_stage E S P inp d = acquire_stage E S (ci_saga_id inp) ''checkout.reserve-stock'' (\<lambda>v. truthy (cs_reservation_id v))
     (\<lambda>v. reserve_stock_port P inp) (\<lambda>r v. v\<lparr>cs_step := STOCK_RESERVED, cs_reservation_id := Some r\<rparr>) STEP_POLICY d"
  "place_stage E S P inp d = acquire_stage E S (ci_saga_id inp) ''checkout.place-order'' (\<lambda>v. truthy (cs_order_id v))
     (\<lambda>v. place_order_port P inp) (\<lambda>r v. v\<lparr>cs_step := ORDER_PLACED, cs_order_id := Some r\<rparr>) STEP_POLICY d"
  "authorize_stage E S P inp d = acquire_stage E S (ci_saga_id inp) ''checkout.authorize-payment''
     (\<lambda>v. truthy (cs_payment_id v) \<or> ci_payment_method inp = ''COD'')
     (\<lambda>v. authorize_payment_port P inp (the (cs_order_id v)))
     (\<lambda>r v. v\<lparr>cs_step := PAYMENT_AUTHORIZED, cs_payment_id := Some r\<rparr>) STEP_POLICY d"
  by (simp_all add: reserve_stage_def place_stage_def authorize_stage_def acquire_stage_def)

lemma compensate_step_effect:
  assumes "compensate_step E name port st i s = (x, s')" and "sg_alive s'"
  shows "\<exists>bs. sg_log s' = sg_log s @ map (Pair name) bs \<and> sg_var s' = sg_var s \<and> sg_store s' = sg_store s \<and> sg_alive s
    \<and> (ok x \<longleftrightarrow> (truthy i \<longrightarrow> True \<in> set bs)) \<and> (saga_deadline st s \<le> sg_now s \<longrightarrow> bs = [])"
proof (cases "truthy i")
  case False
  then show ?thesis using assms by (intro exI [of _ "[]"]) (auto simp: compensate_step_def dret_def)
next
  case True
  then have "execute_saga_step E name (port (the i)) STEP_POLICY (saga_deadline st s) s = (x, s')"
    using assms(1) by (simp add: compensate_step_def)
  from step_effect_of [OF this STEP_POLICY_ok(1)] show ?thesis
    using assms(2) True by (auto simp: step_effect_def)
qed

text \<open>\<open>completed inp v ls\<close>: the saga is through, with an order, a reservation and, unless paid on delivery, a payment.\<close>

definition completed :: "saga_input \<Rightarrow> checkout_saga_state \<Rightarrow> (string \<times> bool) list \<Rightarrow> bool" where
  "completed inp v ls \<longleftrightarrow> cs_step v = COMPLETED \<and> cs_reservation_id v \<noteq> None \<and> cs_order_id v \<noteq> None
     \<and> (cs_payment_id v \<noteq> None \<or> ci_payment_method inp = ''COD'') \<and> (''checkout.confirm-order'', True) \<in> set ls"

text \<open>\<open>grows v v'\<close>: the state \<open>v'\<close> keeps what \<open>v\<close> has. \<open>advance\<close>: what any sequence of forward stages does.\<close>

definition keeps :: "ident option \<Rightarrow> ident option \<Rightarrow> bool" where
  "keeps i i' \<longleftrightarrow> (truthy i \<longrightarrow> i' = i) \<and> (i \<noteq> None \<longrightarrow> i' \<noteq> None)"

lemma truthy_Some: "truthy i \<Longrightarrow> \<exists>y. i = Some y"
  by (auto simp: truthy_def)

lemma keeps_refl [simp]: "keeps i i"
  by (simp add: keeps_def)

lemma keeps_trans: "keeps i i' \<Longrightarrow> keeps i' i'' \<Longrightarrow> keeps i i''"
  by (auto simp: keeps_def)

lemma keeps_new [simp]: "\<not> truthy i \<Longrightarrow> keeps i (Some r)"
  by (simp add: keeps_def)

lemma keepsD: "keeps i i' \<Longrightarrow> truthy i \<Longrightarrow> truthy i'" "keeps i i' \<Longrightarrow> i \<noteq> None \<Longrightarrow> i' \<noteq> None"
  by (auto simp: keeps_def)

definition grows :: "checkout_saga_state \<Rightarrow> checkout_saga_state \<Rightarrow> bool" where
  "grows v v' \<longleftrightarrow> cs_saga_id v' = cs_saga_id v \<and> cs_deadline_at v' = cs_deadline_at v
     \<and> keeps (cs_reservation_id v) (cs_reservation_id v') \<and> keeps (cs_order_id v) (cs_order_id v')
     \<and> keeps (cs_payment_id v) (cs_payment_id v')"

definition forward_names :: "string set" where
  "forward_names = {''checkout.reserve-stock'', ''checkout.place-order'', ''checkout.authorize-payment'', ''checkout.confirm-order''}"

definition advance :: "(ident \<Rightarrow> 'st \<Rightarrow> checkout_saga_state option) \<Rightarrow> (ident \<Rightarrow> 'st \<Rightarrow> bool) \<Rightarrow> ident
    \<Rightarrow> ('w, 'st, checkout_saga_state) saga_world \<Rightarrow> ('w, 'st, checkout_saga_state) saga_world \<Rightarrow> (string \<times> bool) list \<Rightarrow> bool" where
  "advance load usable i s s' ls \<longleftrightarrow> sg_log s' = sg_log s @ ls \<and> synced load usable i s' \<and> sg_alive s \<and> grows (sg_var s) (sg_var s')
     \<and> noted (sg_var s') ls \<and> resumes (sg_var s) ls \<and> fst ` set ls \<subseteq> forward_names"

lemma state_grows_trans: "grows v v' \<Longrightarrow> grows v' v'' \<Longrightarrow> grows v v''"
  unfolding grows_def by (metis keeps_trans)

lemma grows_not_None:
  assumes "grows v v'"
  shows "cs_reservation_id v \<noteq> None \<Longrightarrow> cs_reservation_id v' \<noteq> None" and "cs_order_id v \<noteq> None \<Longrightarrow> cs_order_id v' \<noteq> None"
    and "cs_payment_id v \<noteq> None \<Longrightarrow> cs_payment_id v' \<noteq> None"
  using assms by (simp_all add: grows_def keeps_def)

lemma noted_one: "(a \<in> set ls \<longrightarrow> i \<noteq> None) \<Longrightarrow> keeps i i' \<Longrightarrow> (a \<in> set ls' \<longrightarrow> i' \<noteq> None) \<Longrightarrow> (a \<in> set (ls @ ls') \<longrightarrow> i' \<noteq> None)"
  by (auto simp: keeps_def)

lemma noted_append:
  assumes "grows v v'" and "noted v ls" and "noted v' ls'"
  shows "noted v' (ls @ ls')"
proof -
  note g = assms(1) [unfolded grows_def] and n = assms(2) [unfolded noted_def] and n' = assms(3) [unfolded noted_def]
  show ?thesis
    unfolding noted_def
    using noted_one [OF n [THEN conjunct1] _ n' [THEN conjunct1]] noted_one [OF n [THEN conjunct2, THEN conjunct1] _ n' [THEN conjunct2, THEN conjunct1]]
      noted_one [OF n [THEN conjunct2, THEN conjunct2] _ n' [THEN conjunct2, THEN conjunct2]] g by simp
qed

lemma resumes_one: "(truthy i \<longrightarrow> a \<notin> fst ` set ls) \<Longrightarrow> keeps i i' \<Longrightarrow> (truthy i' \<longrightarrow> a \<notin> fst ` set ls')
    \<Longrightarrow> (truthy i \<longrightarrow> a \<notin> fst ` set (ls @ ls'))"
  by (auto simp: keeps_def image_Un)

lemma resumes_append:
  assumes "grows v v'" and "resumes v ls" and "resumes v' ls'"
  shows "resumes v (ls @ ls')"
proof -
  note g = assms(1) [unfolded grows_def] and n = assms(2) [unfolded resumes_def] and n' = assms(3) [unfolded resumes_def]
  show ?thesis
    unfolding resumes_def
    using resumes_one [OF n [THEN conjunct1] _ n' [THEN conjunct1]] resumes_one [OF n [THEN conjunct2, THEN conjunct1] _ n' [THEN conjunct2, THEN conjunct1]]
      resumes_one [OF n [THEN conjunct2, THEN conjunct2] _ n' [THEN conjunct2, THEN conjunct2]] g by simp
qed

lemma advance_trans:
  assumes "advance load usable i s s1 ls" and "advance load usable i s1 s2 ls'"
  shows "advance load usable i s s2 (ls @ ls')"
proof -
  note a = assms(1) [unfolded advance_def] and b = assms(2) [unfolded advance_def]
  have "grows (sg_var s) (sg_var s2)" "noted (sg_var s2) (ls @ ls')" "resumes (sg_var s) (ls @ ls')"
    using a b by (blast intro: state_grows_trans noted_append resumes_append)+
  then show ?thesis using a b by (simp add: advance_def image_Un)
qed

text \<open>\<open>stage load usable i m Q\<close>: run on a saga whose stored state is its variable, \<open>m\<close> advances it, and establishes \<open>Q\<close> if it succeeds.\<close>

definition stage :: "(ident \<Rightarrow> 'st \<Rightarrow> checkout_saga_state option) \<Rightarrow> (ident \<Rightarrow> 'st \<Rightarrow> bool) \<Rightarrow> ident
    \<Rightarrow> ('w, 'st, checkout_saga_state, 'a) saga_op \<Rightarrow> (checkout_saga_state \<Rightarrow> bool) \<Rightarrow> bool" where
  "stage load usable i m Q \<longleftrightarrow> (\<forall>s x s'. synced load usable i s \<and> m s = (x, s') \<and> sg_alive s' \<longrightarrow>
     (\<exists>ls. advance load usable i s s' ls \<and> (ok x \<longrightarrow> Q (sg_var s'))))"

lemma stageD: "stage load usable i m Q \<Longrightarrow> synced load usable i s \<Longrightarrow> m s = (x, s') \<Longrightarrow> sg_alive s'
    \<Longrightarrow> \<exists>ls. advance load usable i s s' ls \<and> (ok x \<longrightarrow> Q (sg_var s'))"
  by (simp add: stage_def)

lemma stage_cases:
  assumes st: "stage load usable i m Q" and sync: "synced load usable i s" and f: "\<And>a. mortal (f a)"
    and run: "dbind m f s = (x, s')" and alive: "sg_alive s'"
  shows "(\<exists>e ls. x = Inl e \<and> advance load usable i s s' ls)
    \<or> (\<exists>a s1 ls. f a s1 = (x, s') \<and> advance load usable i s s1 ls \<and> synced load usable i s1 \<and> Q (sg_var s1))"
  using run
proof (cases rule: dbind_cases)
  case (fail e)
  then show ?thesis using stageD [OF st sync fail(1) alive] by blast
next
  case (pass a s1)
  have "sg_alive s1" by (rule mortalD [OF f pass(2) alive])
  from stageD [OF st sync pass(1) this] obtain ls where "advance load usable i s s1 ls" "Q (sg_var s1)" by auto
  then show ?thesis using pass(2) unfolding advance_def by blast
qed

lemma advance_grows: "advance load usable i s s' ls \<Longrightarrow> grows (sg_var s) (sg_var s')"
  by (simp add: advance_def)

lemma mem_Pair: "(m, b) \<in> set (map (Pair n) bs) \<longleftrightarrow> m = n \<and> b \<in> set bs" "m \<in> fst ` set (map (Pair n) bs) \<Longrightarrow> m = n"
  by auto

lemma noted_map: "noted v (map (Pair n) bs) \<longleftrightarrow> True \<notin> set bs \<or> noted v [(n, True)]"
proof (cases "True \<in> set bs")
  case True
  then have "(m, True) \<in> set (map (Pair n) bs) \<longleftrightarrow> (m, True) \<in> set [(n, True)]" for m by auto
  then show ?thesis using True unfolding noted_def by (simp only: simp_thms)
next
  case False
  then have "(m, True) \<notin> set (map (Pair n) bs)" for m by auto
  then show ?thesis using False unfolding noted_def by (simp only: simp_thms)
qed

lemma resumes_mono:
  assumes "resumes v ls" and sub: "fst ` set ls' \<subseteq> fst ` set ls"
  shows "resumes v ls'"
proof -
  have "m \<notin> fst ` set ls \<Longrightarrow> m \<notin> fst ` set ls'" for m using sub by blast
  then show ?thesis using assms(1) unfolding resumes_def by (simp del: set_map)
qed

lemma resumes_map: "resumes v [(n, True)] \<Longrightarrow> resumes v (map (Pair n) bs)"
  by (erule resumes_mono) auto

lemma advance_names: "fst ` set (map (Pair n) bs) \<subseteq> {n}"
  by auto

definition undo_names :: "string set" where
  "undo_names = {''checkout.refund-payment'', ''checkout.cancel-order'', ''checkout.release-stock''}"

lemma names_apart: "forward_names \<inter> undo_names = {}"
  by (simp add: forward_names_def undo_names_def)

lemma undo_calls:
  assumes "fst ` set ls' \<subseteq> undo_names"
  shows "noted v (ls @ ls') \<longleftrightarrow> noted v ls" and "resumes v (ls @ ls') \<longleftrightarrow> resumes v ls"
proof -
  have "(m, True) \<in> set (ls @ ls') \<longleftrightarrow> (m, True) \<in> set ls" "m \<in> fst ` set (ls @ ls') \<longleftrightarrow> m \<in> fst ` set ls" if "m \<in> forward_names" for m
    using assms names_apart that by force+
  then show "noted v (ls @ ls') \<longleftrightarrow> noted v ls" and "resumes v (ls @ ls') \<longleftrightarrow> resumes v ls"
    unfolding noted_def resumes_def forward_names_def by simp_all
qed

lemma forward_calls:
  assumes "fst ` set ls \<subseteq> forward_names"
  shows "undone v (ls @ ls') \<longleftrightarrow> undone v ls'"
proof -
  have "(m, True) \<in> set (ls @ ls') \<longleftrightarrow> (m, True) \<in> set ls'" if "m \<in> undo_names" for m
    using assms names_apart that by force
  then show ?thesis unfolding undone_def undo_names_def by simp
qed

text \<open>The store holds the states of sagas under their own ids.\<close>

definition kept :: "(ident \<Rightarrow> 'st \<Rightarrow> checkout_saga_state option) \<Rightarrow> (ident \<Rightarrow> 'st \<Rightarrow> bool) \<Rightarrow> ident \<Rightarrow> 'st \<Rightarrow> bool" where
  "kept load usable i st \<longleftrightarrow> usable i st \<and> (\<forall>v. load i st = Some v \<longrightarrow> cs_saga_id v = i)"

text \<open>The state an execution starts from.\<close>

definition found_state :: "(ident \<Rightarrow> 'st \<Rightarrow> checkout_saga_state option) \<Rightarrow> saga_input \<Rightarrow> ('w, 'st, checkout_saga_state) saga_world
    \<Rightarrow> checkout_saga_state" where
  "found_state load inp s = (let st = (case load (ci_saga_id inp) (sg_store s) of Some st \<Rightarrow> st | None \<Rightarrow> started_state inp (sg_now s))
     in st\<lparr>cs_deadline_at := Some (saga_deadline st s)\<rparr>)"

locale checkout_saga_store = saga_state_store load save usable
  for load :: "ident \<Rightarrow> 'st \<Rightarrow> checkout_saga_state option" and save :: "millis \<Rightarrow> ident \<Rightarrow> checkout_saga_state \<Rightarrow> 'st \<Rightarrow> 'st"
    and usable :: "ident \<Rightarrow> 'st \<Rightarrow> bool"
begin

lemma compensate_effect:
  assumes run: "compensate E ops P (sg_var s) s = (x, s')" and alive: "sg_alive s'" and works: "store_works E"
    and sync: "synced load usable i s" and i: "cs_saga_id (sg_var s) = i"
  shows "\<exists>ls. sg_log s' = sg_log s @ ls \<and> sg_var s' = sg_var s \<and> sg_alive s \<and> usable i (sg_store s')
    \<and> fst ` set ls \<subseteq> undo_names
    \<and> load i (sg_store s') = Some (if undone (sg_var s) ls then (sg_var s)\<lparr>cs_step := COMPENSATED\<rparr> else sg_var s)"
proof -
  let ?v = "sg_var s"
  have done_iff: "undone ?v (map (Pair ''checkout.refund-payment'') b1 @ map (Pair ''checkout.cancel-order'') b2 @ map (Pair ''checkout.release-stock'') b3)
      \<longleftrightarrow> (truthy (cs_payment_id ?v) \<longrightarrow> True \<in> set b1) \<and> (truthy (cs_order_id ?v) \<longrightarrow> True \<in> set b2)
        \<and> (truthy (cs_reservation_id ?v) \<longrightarrow> True \<in> set b3)" for b1 b2 b3
    by (auto simp: undone_def)
  from run show ?thesis
    unfolding compensate_def
  proof (cases rule: dbind_cases)
    case (fail e)
    obtain b1 where "sg_log s' = sg_log s @ map (Pair ''checkout.refund-payment'') b1" "sg_var s' = ?v" "sg_store s' = sg_store s"
        "sg_alive s" "\<not> (truthy (cs_payment_id ?v) \<longrightarrow> True \<in> set b1)"
      using compensate_step_effect [OF fail(1) alive] by auto
    then show ?thesis
      using sync done_iff [of b1 "[]" "[]"] by (intro exI [of _ "map (Pair ''checkout.refund-payment'') b1"]) (auto simp: undo_names_def synced_def)
  next
    case (pass u1 s1)
    from pass(2) show ?thesis
    proof (cases rule: dbind_cases)
      case (fail e)
      obtain b2 where b2: "sg_log s' = sg_log s1 @ map (Pair ''checkout.cancel-order'') b2" "sg_var s' = sg_var s1" "sg_store s' = sg_store s1"
          "sg_alive s1" "\<not> (truthy (cs_order_id ?v) \<longrightarrow> True \<in> set b2)"
        using compensate_step_effect [OF fail(1) alive] by auto
      obtain b1 where "sg_log s1 = sg_log s @ map (Pair ''checkout.refund-payment'') b1" "sg_var s1 = ?v" "sg_store s1 = sg_store s"
          "sg_alive s"
        using compensate_step_effect [OF pass(1) b2(4)] by auto
      then show ?thesis
        using b2 sync done_iff [of b1 b2 "[]"]
        by (intro exI [of _ "map (Pair ''checkout.refund-payment'') b1 @ map (Pair ''checkout.cancel-order'') b2"]) (auto simp: undo_names_def synced_def)
    next
      case pass2: (pass u2 s2)
      from pass2(2) show ?thesis
      proof (cases rule: dbind_cases)
        case (fail e)
        obtain b3 where b3: "sg_log s' = sg_log s2 @ map (Pair ''checkout.release-stock'') b3" "sg_var s' = sg_var s2" "sg_store s' = sg_store s2"
            "sg_alive s2" "\<not> (truthy (cs_reservation_id ?v) \<longrightarrow> True \<in> set b3)"
          using compensate_step_effect [OF fail(1) alive] by auto
        obtain b2 where b2: "sg_log s2 = sg_log s1 @ map (Pair ''checkout.cancel-order'') b2" "sg_var s2 = sg_var s1" "sg_store s2 = sg_store s1"
            "sg_alive s1"
          using compensate_step_effect [OF pass2(1) b3(4)] by auto
        obtain b1 where "sg_log s1 = sg_log s @ map (Pair ''checkout.refund-payment'') b1" "sg_var s1 = ?v" "sg_store s1 = sg_store s"
            "sg_alive s"
          using compensate_step_effect [OF pass(1) b2(4)] by auto
        then show ?thesis
          using b3 b2 sync done_iff [of b1 b2 b3]
          by (intro exI [of _ "map (Pair ''checkout.refund-payment'') b1 @ map (Pair ''checkout.cancel-order'') b2
              @ map (Pair ''checkout.release-stock'') b3"]) (auto simp: undo_names_def synced_def)
      next
        case pass3: (pass u3 s3)
        note saved = save_state_alive [OF pass3(2) [unfolded i] alive works]
        then have a3: "sg_alive s3" by simp
        obtain b3 where b3: "sg_log s3 = sg_log s2 @ map (Pair ''checkout.release-stock'') b3" "sg_var s3 = sg_var s2" "sg_store s3 = sg_store s2"
            "sg_alive s2" "truthy (cs_reservation_id ?v) \<longrightarrow> True \<in> set b3"
          using compensate_step_effect [OF pass3(1) a3] by auto
        obtain b2 where b2: "sg_log s2 = sg_log s1 @ map (Pair ''checkout.cancel-order'') b2" "sg_var s2 = sg_var s1" "sg_store s2 = sg_store s1"
            "sg_alive s1" "truthy (cs_order_id ?v) \<longrightarrow> True \<in> set b2"
          using compensate_step_effect [OF pass2(1) b3(4)] by auto
        obtain b1 where "sg_log s1 = sg_log s @ map (Pair ''checkout.refund-payment'') b1" "sg_var s1 = ?v" "sg_store s1 = sg_store s"
            "sg_alive s" "truthy (cs_payment_id ?v) \<longrightarrow> True \<in> set b1"
          using compensate_step_effect [OF pass(1) b2(4)] by auto
        then show ?thesis
          using b3 b2 sync saved done_iff [of b1 b2 b3]
          by (intro exI [of _ "map (Pair ''checkout.refund-payment'') b1 @ map (Pair ''checkout.cancel-order'') b2
              @ map (Pair ''checkout.release-stock'') b3"]) (auto simp: undo_names_def synced_def load_save save_usable)
      qed
    qed
  qed
qed

lemma acquire_advance:
  assumes run: "acquire_stage E ops i name known port note STEP_POLICY d s = (x, s')"
    and alive: "sg_alive s'" and works: "store_works E" and sync: "synced load usable i s" and name: "name \<in> forward_names"
    and fits: "\<And>v r. \<not> known v \<Longrightarrow> grows v (note r v) \<and> noted (note r v) [(name, True)]"
    and fresh: "\<And>v. \<not> known v \<Longrightarrow> resumes v [(name, True)]"
  shows "\<exists>ls. advance load usable i s s' ls \<and> (ok x \<longrightarrow> known (sg_var s) \<and> sg_var s' = sg_var s \<or> (\<exists>r. sg_var s' = note r (sg_var s)))"
proof -
  obtain bs where bs: "sg_log s' = sg_log s @ map (Pair name) bs" "synced load usable i s'" "sg_alive s"
    "if known (sg_var s) then ok x \<and> sg_var s' = sg_var s \<and> bs = []
     else if ok x then \<exists>r. sg_var s' = note r (sg_var s) \<and> True \<in> set bs
     else sg_var s' = sg_var s \<and> True \<notin> set bs"
    using acquire_effect [OF run alive works STEP_POLICY_ok(1) sync] by blast
  have "grows (sg_var s) (sg_var s') \<and> noted (sg_var s') (map (Pair name) bs) \<and> resumes (sg_var s) (map (Pair name) bs)
      \<and> (ok x \<longrightarrow> known (sg_var s) \<and> sg_var s' = sg_var s \<or> (\<exists>r. sg_var s' = note r (sg_var s)))"
  proof (cases "known (sg_var s)")
    case True
    then show ?thesis using bs(4) by (simp add: grows_def noted_def resumes_def)
  next
    case False
    then show ?thesis
      using bs(4) fits [OF False] resumes_map [OF fresh [OF False]]
      by (cases "ok x") (auto simp: noted_map grows_def)
  qed
  then show ?thesis
    using bs(1-3) advance_names name by (intro exI [of _ "map (Pair name) bs"]) (auto simp: advance_def)
qed

lemma acquire_stages:
  assumes works: "store_works E"
  shows reserve_ok: "stage load usable (ci_saga_id inp) (reserve_stage E ops P inp d) (\<lambda>v. cs_reservation_id v \<noteq> None)"
    and place_ok: "stage load usable (ci_saga_id inp) (place_stage E ops P inp d) (\<lambda>v. cs_order_id v \<noteq> None)"
    and authorize_ok: "stage load usable (ci_saga_id inp) (authorize_stage E ops P inp d)
      (\<lambda>v. cs_payment_id v \<noteq> None \<or> ci_payment_method inp = ''COD'')"
  unfolding stages_acquire stage_def
  by (safe, drule acquire_advance [OF _ _ works]; auto simp: forward_names_def grows_def noted_def resumes_def dest: truthy_Some)+

lemma confirm_acquires_nothing: "noted v [(''checkout.confirm-order'', True)]" "resumes v [(''checkout.confirm-order'', True)]"
  by (simp_all add: noted_def resumes_def)

lemma confirm_effect:
  assumes run: "confirm_stage E ops P inp d s = (x, s')" and alive: "sg_alive s'" and works: "store_works E"
    and sync: "synced load usable (ci_saga_id inp) s"
  shows "\<exists>ls. advance load usable (ci_saga_id inp) s s' ls \<and>
    (\<forall>st. x = Inr st \<longrightarrow> st = sg_var s' \<and> cs_step st = COMPLETED \<and> (''checkout.confirm-order'', True) \<in> set ls)"
proof -
  obtain y s1 where step: "execute_saga_step E ''checkout.confirm-order'' (confirm_order_port P (the (cs_order_id (sg_var s)))) STEP_POLICY d s
      = (y, s1)" by fastforce
  obtain ls where ls: "step_effect ''checkout.confirm-order'' 3 ls s s1" "ok y \<longrightarrow> True \<in> set ls"
    using step_effect_of [OF step STEP_POLICY_ok(1)] by auto
  have same: "sg_var s1 = sg_var s" "sg_store s1 = sg_store s" "sg_log s1 = sg_log s @ map (Pair ''checkout.confirm-order'') ls"
      "sg_alive s1 \<Longrightarrow> sg_alive s"
    using ls(1) by (simp_all add: step_effect_def)
  have adv: "advance load usable (ci_saga_id inp) s s' (map (Pair ''checkout.confirm-order'') ls)"
    if "sg_log s' = sg_log s1" "synced load usable (ci_saga_id inp) s'" "sg_alive s1" "grows (sg_var s) (sg_var s')"
  proof -
    have "fst ` set (map (Pair ''checkout.confirm-order'') ls) \<subseteq> forward_names"
      using advance_names [of "''checkout.confirm-order''" ls] by (rule subset_trans) (simp add: forward_names_def)
    then show ?thesis
      using that same confirm_acquires_nothing resumes_map [OF confirm_acquires_nothing(2)] by (simp add: advance_def noted_map del: set_map)
  qed
  show ?thesis
  proof (cases y)
    case (Inl e)
    then have xs: "x = Inl e" "s' = s1" using run step by (simp_all add: confirm_stage_def dbind_def db_monad)
    then have "synced load usable (ci_saga_id inp) s'" "grows (sg_var s) (sg_var s')"
      using same sync by (simp_all add: synced_def grows_def)
    then show ?thesis using adv xs alive by blast
  next
    case (Inr u)
    let ?s2 = "s1\<lparr>sg_var := (sg_var s1)\<lparr>cs_step := COMPLETED\<rparr>\<rparr>"
    obtain z s3 where save: "save_state E ops (ci_saga_id inp) (sg_var ?s2) ?s2 = (z, s3)" by fastforce
    have "(x, s') = (case z of Inl e \<Rightarrow> (Inl e, s3) | Inr u \<Rightarrow> (Inr (sg_var ?s2), s3))"
      using run step Inr save by (simp add: confirm_stage_def set_var_def dbind_def db_monad split: sum.splits)
    then have xs: "s' = s3" "\<And>st. x = Inr st \<Longrightarrow> st = sg_var ?s2" by (auto split: sum.splits)
    have "usable (ci_saga_id inp) (sg_store ?s2)" using same sync by (simp add: synced_def)
    note saved = save_synced [OF save _ works this]
    have "grows (sg_var s) (sg_var ?s2)" using same by (simp add: grows_def)
    then have "advance load usable (ci_saga_id inp) s s' (map (Pair ''checkout.confirm-order'') ls)"
      using saved alive xs(1) by (intro adv) auto
    moreover have "st = sg_var s' \<and> cs_step st = COMPLETED \<and> (''checkout.confirm-order'', True) \<in> set (map (Pair ''checkout.confirm-order'') ls)"
      if "x = Inr st" for st
      using xs(2) [OF that] saved alive xs(1) ls(2) Inr by simp
    ultimately show ?thesis by blast
  qed
qed

lemma mortal_stages [simp]: "mortal (place_stage E ops P inp d)" "mortal (authorize_stage E ops P inp d)" "mortal (confirm_stage E ops P inp d)"
    "mortal (reserve_stage E ops P inp d)"
  by (auto simp: stages_acquire confirm_stage_def intro!: mortal_bind)

lemma mortal_compensate [simp]: "mortal (compensate E ops P st)"
  by (auto simp: compensate_def compensate_step_def intro!: mortal_bind)

lemma mortal_rest:
  "mortal (dbind (authorize_stage E ops P inp d) (\<lambda>_. confirm_stage E ops P inp d))"
  "mortal (dbind (place_stage E ops P inp d) (\<lambda>_. dbind (authorize_stage E ops P inp d) (\<lambda>_. confirm_stage E ops P inp d)))"
  by (intro mortal_bind mortal_stages)+

lemma mortal_execute [simp]: "mortal (execute_stages E ops P inp d)"
  unfolding execute_stages_def by (intro mortal_bind mortal_stages)

lemma stages_effect:
  assumes run: "execute_stages E ops P inp d s = (x, s')" and alive: "sg_alive s'" and works: "store_works E"
    and sync: "synced load usable (ci_saga_id inp) s"
  shows "\<exists>ls. advance load usable (ci_saga_id inp) s s' ls \<and> (\<forall>st. x = Inr st \<longrightarrow> st = sg_var s' \<and> completed inp st ls)"
proof -
  let ?adv = "advance load usable (ci_saga_id inp)"
  let ?goal = "\<exists>ls. ?adv s s' ls \<and> (\<forall>st. x = Inr st \<longrightarrow> st = sg_var s' \<and> completed inp st ls)"
  have failed: ?goal if "\<exists>e ls. x = Inl e \<and> ?adv s s' ls" using that by blast
  from stage_cases [OF reserve_ok [OF works] sync mortal_rest(2) run [unfolded execute_stages_def] alive]
  show ?goal
  proof (rule disjE; elim exE conjE)
    fix s1 ls1
    assume adv1: "?adv s s1 ls1" and sync1: "synced load usable (ci_saga_id inp) s1" and r1: "cs_reservation_id (sg_var s1) \<noteq> None"
      and rest: "dbind (place_stage E ops P inp d) (\<lambda>_. dbind (authorize_stage E ops P inp d) (\<lambda>_. confirm_stage E ops P inp d)) s1 = (x, s')"
    from stage_cases [OF place_ok [OF works] sync1 mortal_rest(1) rest alive]
    show ?goal
    proof (rule disjE; elim exE conjE)
      fix s2 ls2
      assume adv2: "?adv s1 s2 ls2" and sync2: "synced load usable (ci_saga_id inp) s2" and r2: "cs_order_id (sg_var s2) \<noteq> None"
        and rest: "dbind (authorize_stage E ops P inp d) (\<lambda>_. confirm_stage E ops P inp d) s2 = (x, s')"
      note to2 = advance_trans [OF adv1 adv2]
      from stage_cases [OF authorize_ok [OF works] sync2 mortal_stages(3) rest alive]
      show ?goal
      proof (rule disjE; elim exE conjE)
        fix s3 ls3
        assume adv3: "?adv s2 s3 ls3" and sync3: "synced load usable (ci_saga_id inp) s3"
          and r3: "cs_payment_id (sg_var s3) \<noteq> None \<or> ci_payment_method inp = ''COD''" and run3: "confirm_stage E ops P inp d s3 = (x, s')"
        obtain ls4 where adv4: "?adv s3 s' ls4"
          "\<And>st. x = Inr st \<Longrightarrow> st = sg_var s' \<and> cs_step st = COMPLETED \<and> (''checkout.confirm-order'', True) \<in> set ls4"
          using confirm_effect [OF run3 alive works sync3] by blast
        have g: "grows (sg_var s1) (sg_var s')" "grows (sg_var s2) (sg_var s')" "grows (sg_var s3) (sg_var s')"
          using state_grows_trans advance_grows [OF adv2] advance_grows [OF adv3] advance_grows [OF adv4(1)] by metis+
        have "cs_reservation_id (sg_var s') \<noteq> None" by (rule grows_not_None(1) [OF g(1) r1])
        moreover have "cs_order_id (sg_var s') \<noteq> None" by (rule grows_not_None(2) [OF g(2) r2])
        moreover have "cs_payment_id (sg_var s') \<noteq> None \<or> ci_payment_method inp = ''COD''"
          using r3 grows_not_None(3) [OF g(3)] by (elim disjE) simp_all
        ultimately have "completed inp st (((ls1 @ ls2) @ ls3) @ ls4) \<and> st = sg_var s'" if "x = Inr st" for st
          using adv4(2) [OF that] by (clarsimp simp: completed_def)
        then show ?goal
          using advance_trans [OF advance_trans [OF to2 adv3] adv4(1)] by (intro exI [of _ "((ls1 @ ls2) @ ls3) @ ls4"]) simp
      qed (use failed advance_trans [OF to2] in blast)
    qed (use failed advance_trans [OF adv1] in blast)
  qed (use failed in blast)
qed

lemma start_effect:
  assumes run: "execute_checkout_saga E ops P inp s = (x, s')" and alive: "sg_alive s'" and works: "store_works E"
    and kept: "kept load usable (ci_saga_id inp) (sg_store s)"
  shows "\<exists>s1. synced load usable (ci_saga_id inp) s1 \<and> sg_var s1 = found_state load inp s \<and> sg_log s1 = sg_log s
    \<and> sg_now s \<le> sg_now s1 \<and> cs_saga_id (sg_var s1) = ci_saga_id inp
    \<and> dcatch (execute_stages E ops P inp (the (cs_deadline_at (found_state load inp s))))
       (\<lambda>e. dbind (dget sg_var) (\<lambda>st. dbind (compensate E ops P st) (\<lambda>_. dthrow e))) s1 = (x, s')"
proof -
  let ?i = "ci_saga_id inp" and ?v = "found_state load inp s" and ?d = "the (cs_deadline_at (found_state load inp s))"
  let ?body = "\<lambda>d. dcatch (execute_stages E ops P inp d)
       (\<lambda>e. dbind (dget sg_var) (\<lambda>st. dbind (compensate E ops P st) (\<lambda>_. dthrow e)))"
  have mort: "mortal (?body d)" for d
    by (intro mortal_catch mortal_bind mortal_execute mortal_basic mortal_compensate)
  obtain y s0 where l: "load_state E ops ?i s = (y, s0)" by fastforce
  have "sg_alive s0"
  proof (rule ccontr)
    assume dead: "\<not> sg_alive s0"
    show False
    proof (cases y)
      case (Inl e)
      then show ?thesis using run l dead alive by (simp add: execute_checkout_saga_def dbind_def)
    next
      case (Inr found)
      let ?rest = "dbind (dget sg_now) (\<lambda>now. let st = (case found of Some st \<Rightarrow> st | None \<Rightarrow> started_state inp now) in
         dbind (dget (saga_deadline st)) (\<lambda>deadline.
         dbind (set_var (\<lambda>_. st\<lparr>cs_deadline_at := Some deadline\<rparr>)) (\<lambda>_.
         dbind (dget sg_var) (\<lambda>st. dbind (save_state E ops ?i st) (\<lambda>_. ?body deadline)))))"
      have m: "mortal ?rest"
        by (auto simp: Let_def intro!: mortal_bind mort)
      have "?rest s0 = (x, s')"
        using run unfolding execute_checkout_saga_def dbind_def [of "load_state E ops ?i"] l Inr prod.case sum.case .
      then show ?thesis using m [unfolded mortal_def, rule_format, of s0] dead alive by simp
    qed
  qed
  note loaded = load_state_alive [OF l this works]
  define st where "st = (case load ?i (sg_store s) of Some st \<Rightarrow> st | None \<Rightarrow> started_state inp (sg_now s))"
  have v: "?v = st\<lparr>cs_deadline_at := Some (saga_deadline st s)\<rparr>" by (simp add: found_state_def st_def Let_def)
  have s0: "s0 = s\<lparr>sg_calls := Suc (sg_calls s)\<rparr>" "y = Inr (load ?i (sg_store s))" using loaded by simp_all
  have dl: "saga_deadline st s0 = saga_deadline st s" "sg_now s0 = sg_now s" using s0(1)
    by (simp_all add: saga_deadline_def split: option.split)
  let ?s1 = "s0\<lparr>sg_var := ?v\<rparr>"
  obtain z s2 where sv: "save_state E ops ?i ?v ?s1 = (z, s2)" by fastforce
  have "(let st' = (case load ?i (sg_store s) of Some st \<Rightarrow> st | None \<Rightarrow> started_state inp (sg_now s0)) in
         dbind (dget (saga_deadline st')) (\<lambda>deadline.
         dbind (set_var (\<lambda>_. st'\<lparr>cs_deadline_at := Some deadline\<rparr>)) (\<lambda>_.
         dbind (dget sg_var) (\<lambda>st. dbind (save_state E ops ?i st) (\<lambda>_. ?body deadline))))) s0 = (x, s')"
    using run unfolding execute_checkout_saga_def dbind_def [of "load_state E ops ?i"] l s0(2) prod.case sum.case by simp
  then have "dbind (save_state E ops ?i ?v) (\<lambda>_. ?body ?d) ?s1 = (x, s')"
    unfolding dl(2) st_def [symmetric] Let_def by (simp add: set_var_def v dl)
  then have rest: "(case z of Inl e \<Rightarrow> (Inl e, s2) | Inr _ \<Rightarrow> ?body ?d s2) = (x, s')"
    unfolding dbind_def sv by simp
  have "sg_alive s2" using rest alive mort [of ?d, unfolded mortal_def, rule_format, of s2] by (cases z) simp_all
  moreover have "usable ?i (sg_store ?s1)" using s0 kept by (simp add: kept_def)
  ultimately have "z = Inr () \<and> synced load usable ?i s2 \<and> sg_var s2 = ?v \<and> sg_log s2 = sg_log s \<and> sg_now s2 = sg_now s"
    using save_synced [of E ?i ?s1 z s2] sv works s0 by simp
  moreover have "cs_saga_id ?v = ?i"
    using kept by (auto simp: kept_def v st_def started_state_def split: option.splits)
  ultimately show ?thesis using rest by auto
qed

lemma saga_outcome:
  assumes run: "execute_checkout_saga E ops P inp s = (x, s')" and alive: "sg_alive s'" and works: "store_works E"
    and kept: "kept load usable (ci_saga_id inp) (sg_store s)"
  shows "\<exists>ls v. sg_log s' = sg_log s @ ls \<and> resumes (found_state load inp s) ls \<and> grows (found_state load inp s) v \<and> noted v ls
    \<and> kept load usable (ci_saga_id inp) (sg_store s')
    \<and> (case x of
        Inr st \<Rightarrow> st = v \<and> completed inp v ls \<and> load (ci_saga_id inp) (sg_store s') = Some v
      | Inl e \<Rightarrow> load (ci_saga_id inp) (sg_store s') = Some (if undone v ls then v\<lparr>cs_step := COMPENSATED\<rparr> else v))"
proof -
  let ?i = "ci_saga_id inp" and ?v = "found_state load inp s" and ?d = "the (cs_deadline_at (found_state load inp s))"
  obtain s1 where s1: "synced load usable ?i s1" "sg_var s1 = ?v" "sg_log s1 = sg_log s" "cs_saga_id (sg_var s1) = ?i"
    and body: "dcatch (execute_stages E ops P inp ?d)
       (\<lambda>e. dbind (dget sg_var) (\<lambda>st. dbind (compensate E ops P st) (\<lambda>_. dthrow e))) s1 = (x, s')"
    using start_effect [OF run alive works kept] by blast
  obtain y s2 where st: "execute_stages E ops P inp ?d s1 = (y, s2)" by fastforce
  show ?thesis
  proof (cases y)
    case (Inr r)
    then have xs: "x = Inr r" "s2 = s'" using body st by (simp_all add: dcatch_def)
    then obtain ls where "advance load usable ?i s1 s' ls" "r = sg_var s'" "completed inp r ls"
      using stages_effect [OF st _ works s1(1)] alive Inr by auto
    then show ?thesis
      using xs s1 by (intro exI [of _ ls] exI [of _ r]) (simp add: advance_def synced_def kept_def grows_def)
  next
    case (Inl e)
    obtain z s3 where comp: "compensate E ops P (sg_var s2) s2 = (z, s3)" by fastforce
    have "(case z of Inl e' \<Rightarrow> (Inl e', s3) | Inr _ \<Rightarrow> (Inl e, s3)) = (x, s')"
      using body st Inl comp by (simp add: dcatch_def dbind_def db_monad split: sum.splits)
    then have xs: "s3 = s'" "\<exists>e'. x = Inl e'" by (auto split: sum.splits)
    have a2: "sg_alive s2" using mortal_compensate [of E P "sg_var s2", unfolded mortal_def, rule_format, of s2] comp alive xs(1) by simp
    obtain ls1 where adv: "advance load usable ?i s1 s2 ls1" using stages_effect [OF st a2 works s1(1)] by blast
    then have id: "cs_saga_id (sg_var s2) = ?i" and sync2: "synced load usable ?i s2" using s1(4) by (simp_all add: advance_def grows_def)
    obtain ls2 where c: "sg_log s3 = sg_log s2 @ ls2" "usable ?i (sg_store s3)" "fst ` set ls2 \<subseteq> undo_names"
      "load ?i (sg_store s3) = Some (if undone (sg_var s2) ls2 then (sg_var s2)\<lparr>cs_step := COMPENSATED\<rparr> else sg_var s2)"
      using compensate_effect [OF comp _ works sync2 id] alive xs(1) by auto
    have f: "fst ` set ls1 \<subseteq> forward_names" using adv by (simp add: advance_def)
    have "load ?i (sg_store s') = Some (if undone (sg_var s2) (ls1 @ ls2) then (sg_var s2)\<lparr>cs_step := COMPENSATED\<rparr> else sg_var s2)"
      using c(4) xs(1) forward_calls [OF f] by simp
    moreover have "resumes ?v (ls1 @ ls2)" "noted (sg_var s2) (ls1 @ ls2)" "grows ?v (sg_var s2)" "sg_log s' = sg_log s @ ls1 @ ls2"
      using adv s1 c(1) xs(1) undo_calls [OF c(3)] by (simp_all add: advance_def)
    ultimately show ?thesis
      using xs id c(2) by (intro exI [of _ "ls1 @ ls2"] exI [of _ "sg_var s2"]) (auto simp: kept_def)
  qed
qed

text \<open>After the deadline no stage makes a call.\<close>

lemma expired_saga:
  assumes run: "execute_checkout_saga E ops P inp s = (x, s')" and alive: "sg_alive s'" and works: "store_works E"
    and kept: "kept load usable (ci_saga_id inp) (sg_store s)" and found: "load (ci_saga_id inp) (sg_store s) = Some v"
    and expired: "cs_deadline_at v = Some d" "d \<le> sg_now s"
    and holds: "truthy (cs_reservation_id v) \<or> truthy (cs_order_id v) \<or> truthy (cs_payment_id v)"
  shows "\<not> ok x \<and> sg_log s' = sg_log s \<and> load (ci_saga_id inp) (sg_store s') = Some v"
proof -
  let ?i = "ci_saga_id inp"
  have fv: "found_state load inp s = v" using found expired(1) by (simp add: found_state_def saga_deadline_def)
  obtain s1 where s1: "synced load usable ?i s1" "sg_var s1 = v" "sg_log s1 = sg_log s" "sg_now s \<le> sg_now s1"
    and body: "dcatch (execute_stages E ops P inp d)
       (\<lambda>e. dbind (dget sg_var) (\<lambda>st. dbind (compensate E ops P st) (\<lambda>_. dthrow e))) s1 = (x, s')"
    using start_effect [OF run alive works kept] unfolding fv expired(1) by auto
  have late: "d \<le> sg_now s1" using s1(4) expired(2) by simp
  obtain e where e: "execute_stages E ops P inp d s1 = (Inl e, s1)"
    using late s1(2)
    by (cases "truthy (cs_reservation_id v)"; cases "truthy (cs_order_id v)"; cases "truthy (cs_payment_id v) \<or> ci_payment_method inp = ''COD''")
      (auto simp: execute_stages_def reserve_stage_def place_stage_def authorize_stage_def confirm_stage_def dbind_def db_monad expired_step)
  obtain e' where "compensate E ops P v s1 = (Inl e', s1)"
    using late s1(2) expired(1) holds
    by (cases "truthy (cs_payment_id v)"; cases "truthy (cs_order_id v)"; cases "truthy (cs_reservation_id v)")
      (auto simp: compensate_def compensate_step_def saga_deadline_def dbind_def db_monad expired_step)
  then have "x = Inl e'" "s' = s1" using body e s1(2) by (simp_all add: dcatch_def dbind_def db_monad)
  then show ?thesis using s1 by (simp add: synced_def)
qed

end

subsection \<open>The saga on the two stores\<close>

definition checkout_step_name :: "checkout_saga_state \<Rightarrow> string" where
  "checkout_step_name v = (case cs_step v of STARTED \<Rightarrow> ''STARTED'' | STOCK_RESERVED \<Rightarrow> ''STOCK_RESERVED''
     | ORDER_PLACED \<Rightarrow> ''ORDER_PLACED'' | PAYMENT_AUTHORIZED \<Rightarrow> ''PAYMENT_AUTHORIZED'' | COMPLETED \<Rightarrow> ''COMPLETED''
     | COMPENSATED \<Rightarrow> ''COMPENSATED'')"

definition prisma_ops :: "string \<Rightarrow> (checkout_saga_state saga_row list, checkout_saga_state) store_ops" where
  "prisma_ops ty = \<lparr>so_load = prisma_load ty, so_save = prisma_save ty checkout_step_name\<rparr>"

interpretation prisma_checkout: checkout_saga_store "prisma_load ty" "prisma_save ty checkout_step_name" "id_free_for ty"
  for ty :: string
  by unfold_locales

interpretation memory_checkout: checkout_saga_store memory_load memory_save "\<lambda>i st. True"
  by unfold_locales

abbreviation prisma_found where "prisma_found ty \<equiv> found_state (prisma_load ty)"

abbreviation prisma_kept where "prisma_kept ty \<equiv> kept (prisma_load ty) (id_free_for ty)"


text \<open>An expired saga keeps what it holds: executed after the deadline in its stored state, it makes no call at all, not even
  to undo, and its state stays as it is.\<close>

theorem expired_saga_keeps_its_resources:
  assumes "execute_checkout_saga E (prisma_ops ty) P inp s = (x, s')" and "sg_alive s'" and "store_works E"
    and "prisma_kept ty (ci_saga_id inp) (sg_store s)" and "prisma_load ty (ci_saga_id inp) (sg_store s) = Some v"
    and "cs_deadline_at v = Some d" and "d \<le> sg_now s"
    and "truthy (cs_reservation_id v) \<or> truthy (cs_order_id v) \<or> truthy (cs_payment_id v)"
  shows "\<not> ok x \<and> sg_log s' = sg_log s \<and> prisma_load ty (ci_saga_id inp) (sg_store s') = Some v"
  using assms unfolding prisma_ops_def by (rule prisma_checkout.expired_saga)

subsection \<open>Sample runs\<close>

text \<open>The world is the list of the effects that the ports had; \<open>down\<close> names the ports that refuse.\<close>

definition sample_port :: "string list \<Rightarrow> string \<Rightarrow> 'a \<Rightarrow> (string list, 'a) st_op" where
  "sample_port down name a w = (if name \<in> set down then (Inl (PlainError ''refused''), w) else (Inr a, w @ [name]))"

definition sample_ports :: "string list \<Rightarrow> string list checkout_ports" where
  "sample_ports down = \<lparr>reserve_stock_port = \<lambda>_. sample_port down ''reserve'' ''r1'', release_stock_port = \<lambda>_. sample_port down ''release'' (),
     place_order_port = \<lambda>_. sample_port down ''place'' ''o1'', cancel_order_port = \<lambda>_. sample_port down ''cancel'' (),
     authorize_payment_port = \<lambda>_ _. sample_port down ''authorize'' ''p1'', refund_payment_port = \<lambda>_. sample_port down ''refund'' (),
     confirm_order_port = \<lambda>_. sample_port down ''confirm'' ()\<rparr>"

definition quiet_env :: "'w saga_env" where
  "quiet_env = \<lparr>call_time = \<lambda>_. Some 5, meanwhile = \<lambda>_. id, store_fails = \<lambda>_. None, dies_after = \<lambda>_. False\<rparr>"

definition sample_input :: saga_input where
  "sample_input = \<lparr>ci_saga_id = ''s1'', ci_user_id = ''u1'', ci_total = Fin 250000, ci_payment_method = ''CARD'', ci_items = [(''p1'', 2)]\<rparr>"

definition sample_world :: "(string list, checkout_saga_state saga_row list, checkout_saga_state) saga_world" where
  "sample_world = \<lparr>sg_now = 1000, sg_calls = 0, sg_alive = True, sg_ports = [], sg_store = [],
     sg_var = started_state sample_input 1000, sg_log = []\<rparr>"

lemma quiet_works [simp]: "store_works quiet_env"
  by (simp add: store_works_def quiet_env_def)

definition refused_run where
  "refused_run = execute_checkout_saga quiet_env (prisma_ops ''checkout'') (sample_ports [''confirm'']) sample_input sample_world"


text \<open>An execution of a saga that has been compensated goes on as if nothing had happened: it makes none of the forward calls
  again, confirms the order that was cancelled and reports the saga COMPLETED, with the stock released and the payment refunded.\<close>

definition repeated_run where
  "repeated_run = execute_checkout_saga quiet_env (prisma_ops ''checkout'') (sample_ports []) sample_input (snd refused_run)"

theorem compensated_saga_confirms_the_cancelled_order:
  "map_option cs_step (prisma_load ''checkout'' ''s1'' (sg_store (snd refused_run))) = Some COMPENSATED
   \<and> (case fst repeated_run of Inl _ \<Rightarrow> False | Inr st \<Rightarrow> cs_step st = COMPLETED \<and> cs_order_id st = Some ''o1'')
   \<and> sg_ports (snd repeated_run) = [''reserve'', ''place'', ''authorize'', ''refund'', ''cancel'', ''release'', ''confirm'']"
  by code_simp

definition held_state :: checkout_saga_state where
  "held_state = (started_state sample_input 1000)\<lparr>cs_step := STOCK_RESERVED, cs_reservation_id := Some ''r1'', cs_deadline_at := Some 900\<rparr>"

definition held_world :: "(string list, checkout_saga_state saga_row list, checkout_saga_state) saga_world" where
  "held_world = sample_world\<lparr>sg_store := prisma_save ''checkout'' checkout_step_name 800 ''s1'' held_state []\<rparr>"

definition expired_run where
  "expired_run = execute_checkout_saga quiet_env (prisma_ops ''checkout'') (sample_ports []) sample_input held_world"

theorem expired_saga_keeps_its_resources_witness:
  "\<not> ok (fst expired_run) \<and> sg_log (snd expired_run) = sg_log held_world
     \<and> prisma_load ''checkout'' ''s1'' (sg_store (snd expired_run)) = Some held_state"
proof -
  have alive: "sg_alive (snd expired_run)" by code_simp
  have run: "execute_checkout_saga quiet_env (prisma_ops ''checkout'') (sample_ports []) sample_input held_world
      = (fst expired_run, snd expired_run)"
    by (simp add: expired_run_def)
  have i: "ci_saga_id sample_input = ''s1''" by (simp add: sample_input_def)
  have found: "prisma_load ''checkout'' (ci_saga_id sample_input) (sg_store held_world) = Some held_state"
    by (simp add: i held_world_def prisma_save_def prisma_load_def)
  have kept: "prisma_kept ''checkout'' (ci_saga_id sample_input) (sg_store held_world)"
    by (simp add: kept_def id_free_for_def i held_world_def prisma_save_def prisma_load_def held_state_def started_state_def)
  show ?thesis
    using expired_saga_keeps_its_resources [OF run alive quiet_works kept found, of 900]
    by (simp add: i held_state_def held_world_def sample_world_def truthy_def)
qed

text \<open>C27: A step of a saga is bounded: it makes at most as many calls as the policy allows, all of its own port, changes neither the
  saga's state nor the store, ends by the deadline if it starts before, and makes no call if it does not; it succeeds only
  with an answer that arrived in time.\<close>

theorem saga_step_is_bounded:
  assumes "execute_saga_step E name port pol deadline s = (x, s')" and "0 \<le> sp_timeout_ms pol" and "0 \<le> sp_backoff_ms pol"
  shows "\<exists>ls. step_effect name (sp_max_attempts pol) ls s s' \<and> (sg_now s \<le> deadline \<longrightarrow> sg_now s' \<le> deadline)
    \<and> (deadline \<le> sg_now s \<longrightarrow> s' = s \<and> \<not> ok x) \<and> (ok x \<longrightarrow> sg_alive s' \<and> True \<in> set ls)
    \<and> (\<not> ok x \<and> sg_alive s' \<longrightarrow> True \<notin> set ls)"
  using step_effect_of [OF assms(1)] assms(2,3) by (simp add: policy_ok_def)

theorem saga_step_is_bounded_witness:
  "\<exists>ls. step_effect ''confirm'' 3 ls sample_world
     (snd (execute_saga_step quiet_env ''confirm'' (sample_port [''confirm''] ''confirm'' ()) STEP_POLICY 2000 sample_world))"
  using saga_step_is_bounded [of quiet_env "''confirm''" "sample_port [''confirm''] ''confirm'' ()" STEP_POLICY 2000 sample_world, OF prod.collapse [symmetric]]
  by (auto simp: STEP_POLICY_def)

end
