(* ===== verification/Refund_Saga.thy ===== *)
theory Refund_Saga
  imports Saga
begin

text \<open>
  \<^verbatim>\<open>modules/orders/application/cancellation-refund.saga.ts\<close>: cancel the order, release its stock, refund it. There is no way
  back: an execution that fails is to be repeated, and goes on at the step the stored state says.
\<close>

datatype refund_saga_step = R_STARTED | R_ORDER_CANCELLED | R_STOCK_RELEASED | R_REFUNDED | R_COMPLETED

record refund_state =
  rs_saga_id :: ident
  rs_order_id :: ident
  rs_step :: refund_saga_step
  rs_payment_id :: "ident option"
  rs_deadline_at :: "millis option"

record refund_input =
  ri_saga_id :: ident
  ri_order_id :: ident
  ri_payment_id :: "ident option"

record 'w refund_ports =
  rp_cancel_order :: "ident \<Rightarrow> ('w, unit) st_op"
  rp_release_stock :: "ident \<Rightarrow> ('w, unit) st_op"
  rp_refund :: "ident \<Rightarrow> ('w, unit) st_op"

definition started_refund :: "refund_input \<Rightarrow> millis \<Rightarrow> refund_state" where
  "started_refund inp now = \<lparr>rs_saga_id = ri_saga_id inp, rs_order_id = ri_order_id inp, rs_step = R_STARTED,
     rs_payment_id = ri_payment_id inp, rs_deadline_at = Some (now + SAGA_TIMEOUT_MS)\<rparr>"

definition refund_deadline :: "refund_state \<Rightarrow> ('w, 'st, refund_state) saga_world \<Rightarrow> millis" where
  "refund_deadline v s = (case rs_deadline_at v of Some d \<Rightarrow> d | None \<Rightarrow> sg_now s + SAGA_TIMEOUT_MS)"

text \<open>One of the three guarded blocks: the port's call, then the new step is noted and saved.\<close>

definition refund_block :: "'w saga_env \<Rightarrow> ('st, refund_state) store_ops \<Rightarrow> ident \<Rightarrow> string \<Rightarrow> (refund_state \<Rightarrow> bool)
    \<Rightarrow> (refund_state \<Rightarrow> ('w, unit) st_op) \<Rightarrow> refund_saga_step \<Rightarrow> millis \<Rightarrow> ('w, 'st, refund_state, unit) saga_op" where
  "refund_block E S i name guard port new deadline =
     dbind (dget sg_var) (\<lambda>v.
     if guard v
     then dbind (execute_saga_step E name (port v) STEP_POLICY deadline) (\<lambda>_.
          dbind (set_var (\<lambda>v. v\<lparr>rs_step := new\<rparr>)) (\<lambda>_.
          dbind (dget sg_var) (\<lambda>v. save_state E S i v)))
     else dret ())"

definition refund_body where
  "refund_body E S P i deadline =
     dbind (refund_block E S i ''cancellation.cancel-order'' (\<lambda>v. rs_step v = R_STARTED)
       (\<lambda>v. rp_cancel_order P (rs_order_id v)) R_ORDER_CANCELLED deadline) (\<lambda>_.
     dbind (refund_block E S i ''cancellation.release-stock'' (\<lambda>v. rs_step v = R_ORDER_CANCELLED)
       (\<lambda>v. rp_release_stock P (rs_order_id v)) R_STOCK_RELEASED deadline) (\<lambda>_.
     dbind (refund_block E S i ''cancellation.refund'' (\<lambda>v. rs_step v = R_STOCK_RELEASED \<and> truthy (rs_payment_id v))
       (\<lambda>v. rp_refund P (the (rs_payment_id v))) R_REFUNDED deadline) (\<lambda>_.
     dbind (set_var (\<lambda>v. v\<lparr>rs_step := R_COMPLETED\<rparr>)) (\<lambda>_.
     dbind (dget sg_var) (\<lambda>v.
     dbind (save_state E S i v) (\<lambda>_. dret v))))))"

definition execute_refund_saga :: "'w saga_env \<Rightarrow> ('st, refund_state) store_ops \<Rightarrow> 'w refund_ports \<Rightarrow> refund_input
    \<Rightarrow> ('w, 'st, refund_state, refund_state) saga_op" where
  "execute_refund_saga E S P inp =
     dbind (load_state E S (ri_saga_id inp)) (\<lambda>found.
     dbind (dget sg_now) (\<lambda>now.
     let v = (case found of Some v \<Rightarrow> v | None \<Rightarrow> started_refund inp now) in
     dbind (dget (refund_deadline v)) (\<lambda>deadline.
     dbind (set_var (\<lambda>_. v\<lparr>rs_deadline_at := Some deadline\<rparr>)) (\<lambda>_.
     refund_body E S P (ri_saga_id inp) deadline))))"

subsection \<open>Progress that was made\<close>

text \<open>\<open>earned v ls\<close>: every step the state \<open>v\<close> is past was paid for by a call that succeeded in \<open>ls\<close>.\<close>

definition earned :: "refund_state \<Rightarrow> (string \<times> bool) list \<Rightarrow> bool" where
  "earned v ls \<longleftrightarrow> (rs_step v \<noteq> R_STARTED \<longrightarrow> (''cancellation.cancel-order'', True) \<in> set ls)
     \<and> (rs_step v \<in> {R_STOCK_RELEASED, R_REFUNDED, R_COMPLETED} \<longrightarrow> (''cancellation.release-stock'', True) \<in> set ls)
     \<and> (rs_step v \<in> {R_REFUNDED, R_COMPLETED} \<and> truthy (rs_payment_id v) \<longrightarrow> (''cancellation.refund'', True) \<in> set ls)"

text \<open>\<open>in_order ls\<close>: stock is released only once the order is cancelled, and refunded only once the stock is released.\<close>

fun after :: "string \<Rightarrow> string \<Rightarrow> bool \<Rightarrow> (string \<times> bool) list \<Rightarrow> bool" where
  "after a b seen [] = True"
| "after a b seen ((n, r) # ls) = ((n = b \<longrightarrow> seen) \<and> after a b (seen \<or> (n = a \<and> r)) ls)"

definition in_order :: "(string \<times> bool) list \<Rightarrow> bool" where
  "in_order ls \<longleftrightarrow> after ''cancellation.cancel-order'' ''cancellation.release-stock'' False ls
     \<and> after ''cancellation.release-stock'' ''cancellation.refund'' False ls"

lemma after_seen: "after a b True ls"
  by (induction ls) auto

lemma after_append: "after a b seen (xs @ ys) \<longleftrightarrow> after a b seen xs \<and> after a b (seen \<or> (a, True) \<in> set xs) ys"
proof (induction xs arbitrary: seen)
  case (Cons x xs)
  obtain n r where x: "x = (n, r)" by (cases x)
  have "(seen \<or> (n = a \<and> r)) \<or> (a, True) \<in> set xs \<longleftrightarrow> seen \<or> (a, True) \<in> set (x # xs)" using x by auto
  then show ?case using Cons.IH [of "seen \<or> (n = a \<and> r)"] x by simp
qed simp

lemma after_none: "b \<notin> fst ` set ls \<Longrightarrow> after a b seen ls"
  by (induction a b seen ls rule: after.induct) auto

text \<open>What holds at every moment: the stored state and the variable are earned by the calls of the log, and those are in order.\<close>

definition honest :: "(ident \<Rightarrow> 'st \<Rightarrow> refund_state option) \<Rightarrow> (ident \<Rightarrow> 'st \<Rightarrow> bool) \<Rightarrow> ident
    \<Rightarrow> ('w, 'st, refund_state) saga_world \<Rightarrow> bool" where
  "honest load usable i s \<longleftrightarrow> usable i (sg_store s) \<and> (\<forall>v. load i (sg_store s) = Some v \<longrightarrow> earned v (sg_log s)) \<and> in_order (sg_log s)"

definition var_honest :: "(ident \<Rightarrow> 'st \<Rightarrow> refund_state option) \<Rightarrow> (ident \<Rightarrow> 'st \<Rightarrow> bool) \<Rightarrow> ident
    \<Rightarrow> ('w, 'st, refund_state) saga_world \<Rightarrow> bool" where
  "var_honest load usable i s \<longleftrightarrow> honest load usable i s \<and> earned (sg_var s) (sg_log s)"

lemma earned_mono: "earned v ls \<Longrightarrow> earned v (ls @ ls')"
  unfolding earned_def by simp

lemma earned_steps:
  "earned (v\<lparr>rs_step := R_ORDER_CANCELLED\<rparr>) ls \<longleftrightarrow> (''cancellation.cancel-order'', True) \<in> set ls"
  "earned (v\<lparr>rs_step := R_STOCK_RELEASED\<rparr>) ls \<longleftrightarrow> (''cancellation.cancel-order'', True) \<in> set ls \<and> (''cancellation.release-stock'', True) \<in> set ls"
  "rs_step v = R_STARTED \<Longrightarrow> earned v ls"
  by (simp_all add: earned_def)

lemma in_order_more:
  assumes "in_order ls"
  shows "in_order (ls @ map (Pair ''cancellation.cancel-order'') bs)"
    and "(''cancellation.cancel-order'', True) \<in> set ls \<Longrightarrow> in_order (ls @ map (Pair ''cancellation.release-stock'') bs)"
    and "(''cancellation.release-stock'', True) \<in> set ls \<Longrightarrow> in_order (ls @ map (Pair ''cancellation.refund'') bs)"
proof -
  have "b \<noteq> c \<Longrightarrow> after a b seen (map (Pair c) bs)" for a b c seen by (rule after_none) auto
  then show "in_order (ls @ map (Pair ''cancellation.cancel-order'') bs)"
    and "(''cancellation.cancel-order'', True) \<in> set ls \<Longrightarrow> in_order (ls @ map (Pair ''cancellation.release-stock'') bs)"
    and "(''cancellation.release-stock'', True) \<in> set ls \<Longrightarrow> in_order (ls @ map (Pair ''cancellation.refund'') bs)"
    using assms by (simp_all add: in_order_def after_append after_seen)
qed

lemma save_state_effect:
  assumes "save_state E S i v s = (x, s')"
  shows "sg_var s' = sg_var s \<and> sg_log s' = sg_log s \<and> (sg_store s' = sg_store s \<or> sg_store s' = so_save S (sg_now s) i v (sg_store s))"
  using assms by (auto simp: save_state_def store_call_def Let_def split: if_splits option.splits)

subsection \<open>Repeated executions\<close>

text \<open>Executions of one saga one after another, each in a process of its own and some time after the one before.\<close>

fun refund_runs :: "('st, refund_state) store_ops \<Rightarrow> 'w refund_ports \<Rightarrow> refund_input \<Rightarrow> ('w saga_env \<times> nat) list
    \<Rightarrow> ('w, 'st, refund_state) saga_world \<Rightarrow> ('w, 'st, refund_state) saga_world" where
  "refund_runs S P inp [] s = s"
| "refund_runs S P inp ((E, wait) # rs) s =
     refund_runs S P inp rs (snd (execute_refund_saga E S P inp (s\<lparr>sg_alive := True, sg_now := sg_now s + int wait\<rparr>)))"

text \<open>Every call is answered within a second and succeeds; the store works, and the process lives.\<close>

definition prompt :: "'w saga_env \<Rightarrow> 'w refund_ports \<Rightarrow> bool" where
  "prompt E P \<longleftrightarrow> (\<forall>k. case call_time E k of None \<Rightarrow> False | Some t \<Rightarrow> t \<le> 1000) \<and> (\<forall>k. store_fails E k = None) \<and> (\<forall>k. \<not> dies_after E k)
     \<and> (\<forall>i w. ok (fst (rp_cancel_order P i w)) \<and> ok (fst (rp_release_stock P i w)) \<and> ok (fst (rp_refund P i w)))"

lemma prompt_step:
  assumes "prompt E P" and "\<And>w. ok (fst (port w))" and alive: "sg_alive s" and time: "sg_now s + 1000 < d"
  shows "\<exists>a s'. execute_saga_step E name port STEP_POLICY d s = (Inr a, s') \<and> sg_alive s' \<and> sg_now s' \<le> sg_now s + 1000
    \<and> sg_var s' = sg_var s \<and> sg_store s' = sg_store s"
proof -
  let ?k = "sg_calls s"
  obtain t where t: "call_time E ?k = Some t" "t \<le> 1000" using assms(1) by (auto simp: prompt_def dest: spec [of _ ?k] split: option.splits)
  obtain a w where p: "port (meanwhile E ?k (sg_ports s)) = (Inr a, w)"
    using assms(2) [of "meanwhile E ?k (sg_ports s)"] by (cases "port (meanwhile E ?k (sg_ports s))") (auto simp: ok_def split: sum.splits)
  have live: "\<not> dies_after E ?k" using assms(1) by (simp add: prompt_def)
  have "int t < min 15000 (d - sg_now s)" using t(2) time by simp
  then have "race_port E name port (min 15000 (d - sg_now s)) s = (Inr a, s\<lparr>sg_calls := Suc ?k, sg_ports := w,
      sg_log := sg_log s @ [(name, True)], sg_now := sg_now s + int t\<rparr>)"
    using alive t(1) p live by (simp add: race_port_def Let_def)
  then show ?thesis
    using time t(2) alive by (simp add: execute_saga_step_def STEP_POLICY_def numeral_3_eq_3)
qed

lemma prompt_save:
  assumes "prompt E P" and "sg_alive s"
  shows "save_state E S i v s = (Inr (), s\<lparr>sg_calls := Suc (sg_calls s), sg_store := so_save S (sg_now s) i v (sg_store s)\<rparr>)"
    and "load_state E S i s = (Inr (so_load S i (sg_store s)), s\<lparr>sg_calls := Suc (sg_calls s)\<rparr>)"
  using assms by (simp_all add: prompt_def save_state_def load_state_def store_call_def Let_def)

locale refund_saga_store = saga_state_store load save usable
  for load :: "ident \<Rightarrow> 'st \<Rightarrow> refund_state option" and save :: "millis \<Rightarrow> ident \<Rightarrow> refund_state \<Rightarrow> 'st \<Rightarrow> 'st"
    and usable :: "ident \<Rightarrow> 'st \<Rightarrow> bool"
begin

lemma save_honest:
  assumes "var_honest load usable i s" and "save_state E ops i (sg_var s) s = (x, s')"
  shows "var_honest load usable i s' \<and> sg_var s' = sg_var s"
  using save_state_effect [OF assms(2)] assms(1) by (auto simp: var_honest_def honest_def load_save save_usable)

lemma block_honest:
  assumes order: "\<And>v ls bs. guard v \<Longrightarrow> earned v ls \<Longrightarrow> in_order ls \<Longrightarrow> in_order (ls @ map (Pair name) bs)"
    and pays: "\<And>v ls. guard v \<Longrightarrow> earned v ls \<Longrightarrow> (name, True) \<in> set ls \<Longrightarrow> earned (v\<lparr>rs_step := new\<rparr>) ls"
    and skip: "\<And>v. R v \<Longrightarrow> \<not> guard v \<Longrightarrow> R' v" and step: "\<And>v. R v \<Longrightarrow> guard v \<Longrightarrow> R' (v\<lparr>rs_step := new\<rparr>)"
  shows "triple (var_honest load usable i) (\<lambda>s. R (sg_var s)) (refund_block E ops i name guard port new d) (\<lambda>_ s. R' (sg_var s))"
proof (rule tripleI)
  fix s x s'
  assume inv: "var_honest load usable i s" and r: "R (sg_var s)" and run: "refund_block E ops i name guard port new d s = (x, s')"
  show "var_honest load usable i s' \<and> (\<forall>a. x = Inr a \<longrightarrow> R' (sg_var s'))"
  proof (cases "guard (sg_var s)")
    case False
    then show ?thesis using run inv r skip by (auto simp: refund_block_def dret_def)
  next
    case g: True
    obtain y s1 where call: "execute_saga_step E name (port (sg_var s)) STEP_POLICY d s = (y, s1)" by fastforce
    obtain bs where bs: "step_effect name 3 bs s s1" "ok y \<longrightarrow> True \<in> set bs"
      using step_effect_of [OF call STEP_POLICY_ok(1)] by auto
    have same: "sg_var s1 = sg_var s" "sg_store s1 = sg_store s" "sg_log s1 = sg_log s @ map (Pair name) bs"
      using bs(1) by (simp_all add: step_effect_def)
    have inv1: "var_honest load usable i s1"
      using inv same earned_mono order [OF g] by (auto simp: var_honest_def honest_def)
    show ?thesis
    proof (cases y)
      case (Inl e)
      then have "x = Inl e" "s' = s1" using run g call by (simp_all add: refund_block_def dbind_def db_monad)
      then show ?thesis using inv1 by simp
    next
      case (Inr u)
      let ?s2 = "s1\<lparr>sg_var := (sg_var s)\<lparr>rs_step := new\<rparr>\<rparr>"
      have sv: "save_state E ops i (sg_var ?s2) ?s2 = (x, s')"
        using run g call Inr same(1) by (simp add: refund_block_def set_var_def dbind_def db_monad)
      have "earned (sg_var s) (sg_log s1)" using inv1 same(1) by (simp add: var_honest_def)
      moreover have "(name, True) \<in> set (sg_log s1)" using bs(2) Inr same(3) by simp
      ultimately have "var_honest load usable i ?s2" using inv1 pays [OF g] by (simp add: var_honest_def honest_def)
      from save_honest [OF this sv] show ?thesis using step [OF r g] by simp
    qed
  qed
qed

lemma cancel_honest: "triple (var_honest load usable i) (\<lambda>_. True)
     (refund_block E ops i ''cancellation.cancel-order'' (\<lambda>v. rs_step v = R_STARTED)
       (\<lambda>v. rp_cancel_order P (rs_order_id v)) R_ORDER_CANCELLED d) (\<lambda>_ s. rs_step (sg_var s) \<noteq> R_STARTED)"
  by (rule block_honest [where R = "\<lambda>_. True"]) (simp_all add: in_order_more earned_steps)

lemma release_honest: "triple (var_honest load usable i) (\<lambda>s. rs_step (sg_var s) \<noteq> R_STARTED)
     (refund_block E ops i ''cancellation.release-stock'' (\<lambda>v. rs_step v = R_ORDER_CANCELLED)
       (\<lambda>v. rp_release_stock P (rs_order_id v)) R_STOCK_RELEASED d)
     (\<lambda>_ s. rs_step (sg_var s) \<noteq> R_STARTED \<and> rs_step (sg_var s) \<noteq> R_ORDER_CANCELLED)"
  by (rule block_honest [where R = "\<lambda>v. rs_step v \<noteq> R_STARTED"]) (simp_all add: in_order_more earned_def)

lemma refund_honest: "triple (var_honest load usable i) (\<lambda>s. rs_step (sg_var s) \<noteq> R_STARTED \<and> rs_step (sg_var s) \<noteq> R_ORDER_CANCELLED)
     (refund_block E ops i ''cancellation.refund'' (\<lambda>v. rs_step v = R_STOCK_RELEASED \<and> truthy (rs_payment_id v))
       (\<lambda>v. rp_refund P (the (rs_payment_id v))) R_REFUNDED d)
     (\<lambda>_ s. rs_step (sg_var s) \<noteq> R_STARTED \<and> rs_step (sg_var s) \<noteq> R_ORDER_CANCELLED
        \<and> (rs_step (sg_var s) = R_STOCK_RELEASED \<longrightarrow> \<not> truthy (rs_payment_id (sg_var s))))"
  by (rule block_honest [where R = "\<lambda>v. rs_step v \<noteq> R_STARTED \<and> rs_step v \<noteq> R_ORDER_CANCELLED"])
    (simp_all add: in_order_more earned_def)

lemma finish_honest: "triple (var_honest load usable i) (\<lambda>s :: ('w, 'st, refund_state) saga_world. rs_step (sg_var s) \<noteq> R_STARTED \<and> rs_step (sg_var s) \<noteq> R_ORDER_CANCELLED
        \<and> (rs_step (sg_var s) = R_STOCK_RELEASED \<longrightarrow> \<not> truthy (rs_payment_id (sg_var s))))
     (dbind (set_var (\<lambda>v. v\<lparr>rs_step := R_COMPLETED\<rparr>)) (\<lambda>_.
      dbind (dget sg_var) (\<lambda>v. dbind (save_state E ops i v) (\<lambda>_. dret v)))) (\<lambda>v s. v = sg_var s \<and> rs_step v = R_COMPLETED)"
proof (rule tripleI)
  fix x and s s' :: "('w, 'st, refund_state) saga_world"
  let ?s1 = "s\<lparr>sg_var := (sg_var s)\<lparr>rs_step := R_COMPLETED\<rparr>\<rparr>"
  assume inv: "var_honest load usable i s" and r: "rs_step (sg_var s) \<noteq> R_STARTED \<and> rs_step (sg_var s) \<noteq> R_ORDER_CANCELLED
        \<and> (rs_step (sg_var s) = R_STOCK_RELEASED \<longrightarrow> \<not> truthy (rs_payment_id (sg_var s)))"
    and run: "dbind (set_var (\<lambda>v. v\<lparr>rs_step := R_COMPLETED\<rparr>)) (\<lambda>_.
      dbind (dget sg_var) (\<lambda>v. dbind (save_state E ops i v) (\<lambda>_. dret v))) s = (x, s')"
  obtain y s2 where sv: "save_state E ops i (sg_var ?s1) ?s1 = (y, s2)" by fastforce
  have xs: "s' = s2" "\<And>v. x = Inr v \<Longrightarrow> v = sg_var ?s1"
    using run sv by (auto simp: set_var_def dbind_def db_monad split: sum.splits)
  have "rs_step (sg_var s) = R_STOCK_RELEASED \<or> rs_step (sg_var s) = R_REFUNDED \<or> rs_step (sg_var s) = R_COMPLETED"
    using r by (cases "rs_step (sg_var s)") auto
  then have "earned ((sg_var s)\<lparr>rs_step := R_COMPLETED\<rparr>) (sg_log s)"
    using inv r by (auto simp: var_honest_def earned_def)
  then have "var_honest load usable i ?s1" using inv by (simp add: var_honest_def honest_def)
  from save_honest [OF this sv] show "var_honest load usable i s' \<and> (\<forall>v. x = Inr v \<longrightarrow> v = sg_var s' \<and> rs_step v = R_COMPLETED)"
    using xs by auto
qed

lemma body_honest:
  "triple (var_honest load usable i) (\<lambda>_. True) (refund_body E ops P i d) (\<lambda>v s. v = sg_var s \<and> rs_step v = R_COMPLETED)"
  unfolding refund_body_def by (intro triple_bind [OF cancel_honest] triple_bind [OF release_honest] triple_bind [OF refund_honest] finish_honest)

lemma execute_honest:
  assumes "honest load usable (ri_saga_id inp) s" and run: "execute_refund_saga E ops P inp s = (x, s')"
  shows "honest load usable (ri_saga_id inp) s'
    \<and> (\<forall>v. x = Inr v \<longrightarrow> rs_step v = R_COMPLETED \<and> earned v (sg_log s'))"
proof -
  let ?i = "ri_saga_id inp"
  obtain y s0 where l: "load_state E ops ?i s = (y, s0)" by fastforce
  have s0: "sg_log s0 = sg_log s" "sg_store s0 = sg_store s" "\<And>f. y = Inr f \<Longrightarrow> f = load ?i (sg_store s)"
    using l by (auto simp: load_state_def store_call_def Let_def split: if_splits option.splits)
  then have h0: "honest load usable ?i s0" using assms(1) by (simp add: honest_def)
  show ?thesis
  proof (cases y)
    case (Inl e)
    then show ?thesis using run l h0 by (auto simp: execute_refund_saga_def dbind_def)
  next
    case (Inr found)
    define v where "v = (case found of Some v \<Rightarrow> v | None \<Rightarrow> started_refund inp (sg_now s0))"
    let ?d = "refund_deadline v s0" and ?s1 = "s0\<lparr>sg_var := v\<lparr>rs_deadline_at := Some (refund_deadline v s0)\<rparr>\<rparr>"
    have body: "refund_body E ops P ?i ?d ?s1 = (x, s')"
      using run l Inr unfolding execute_refund_saga_def by (simp add: dbind_def [of "load_state E ops ?i"] v_def set_var_def Let_def)
    have "earned v (sg_log s0)"
      using h0 s0(3) [OF Inr] s0(2) by (auto simp: v_def honest_def earned_steps(3) started_refund_def split: option.splits)
    then have "var_honest load usable ?i ?s1" using h0 by (simp add: var_honest_def honest_def earned_def)
    from tripleD [OF body_honest this _ body] show ?thesis by (auto simp: var_honest_def)
  qed
qed

lemma prompt_block:
  assumes "prompt E P" and port: "\<And>v w. guard v \<Longrightarrow> ok (fst (port v w))" and "sg_alive s" and "sg_now s + 1000 < d" and "usable i (sg_store s)"
  shows "\<exists>s'. refund_block E ops i name guard port new d s = (Inr (), s') \<and> sg_alive s' \<and> sg_now s' \<le> sg_now s + 1000
    \<and> usable i (sg_store s') \<and> sg_var s' = (if guard (sg_var s) then (sg_var s)\<lparr>rs_step := new\<rparr> else sg_var s)"
proof (cases "guard (sg_var s)")
  case True
  obtain a s1 where s1: "execute_saga_step E name (port (sg_var s)) STEP_POLICY d s = (Inr a, s1)" "sg_alive s1"
      "sg_now s1 \<le> sg_now s + 1000" "sg_var s1 = sg_var s" "sg_store s1 = sg_store s"
    using prompt_step [OF assms(1) _ assms(3,4), of "port (sg_var s)" name] port [OF True] by blast
  then show ?thesis
    using True assms(5) by (simp add: prompt_save(1) [OF assms(1)] refund_block_def dbind_def db_monad set_var_def save_usable)
next
  case False
  then show ?thesis using assms(3,5) by (simp add: refund_block_def db_monad)
qed

lemma prompt_body:
  assumes p: "prompt E P" and "sg_alive s" and "sg_now s + 3000 < d" and "usable i (sg_store s)"
  shows "\<exists>v s'. refund_body E ops P i d s = (Inr v, s') \<and> load i (sg_store s') = Some v"
proof -
  have ports: "\<And>i w. ok (fst (rp_cancel_order P i w))" "\<And>i w. ok (fst (rp_release_stock P i w))" "\<And>i w. ok (fst (rp_refund P i w))"
    using p by (simp_all add: prompt_def)
  obtain s1 where s1: "refund_block E ops i ''cancellation.cancel-order'' (\<lambda>v. rs_step v = R_STARTED)
       (\<lambda>v. rp_cancel_order P (rs_order_id v)) R_ORDER_CANCELLED d s = (Inr (), s1)" "sg_alive s1" "sg_now s1 \<le> sg_now s + 1000"
      "usable i (sg_store s1)"
    using prompt_block [OF p _ assms(2) _ assms(4), of "\<lambda>v. rs_step v = R_STARTED" "\<lambda>v. rp_cancel_order P (rs_order_id v)" d
        "''cancellation.cancel-order''" R_ORDER_CANCELLED] ports assms(3) by auto
  obtain s2 where s2: "refund_block E ops i ''cancellation.release-stock'' (\<lambda>v. rs_step v = R_ORDER_CANCELLED)
       (\<lambda>v. rp_release_stock P (rs_order_id v)) R_STOCK_RELEASED d s1 = (Inr (), s2)" "sg_alive s2" "sg_now s2 \<le> sg_now s1 + 1000"
      "usable i (sg_store s2)"
    using prompt_block [OF p _ s1(2) _ s1(4), of "\<lambda>v. rs_step v = R_ORDER_CANCELLED" "\<lambda>v. rp_release_stock P (rs_order_id v)" d
        "''cancellation.release-stock''" R_STOCK_RELEASED] ports s1(3) assms(3) by auto
  obtain s3 where s3: "refund_block E ops i ''cancellation.refund'' (\<lambda>v. rs_step v = R_STOCK_RELEASED \<and> truthy (rs_payment_id v))
       (\<lambda>v. rp_refund P (the (rs_payment_id v))) R_REFUNDED d s2 = (Inr (), s3)" "sg_alive s3" "usable i (sg_store s3)"
    using prompt_block [OF p _ s2(2) _ s2(4), of "\<lambda>v. rs_step v = R_STOCK_RELEASED \<and> truthy (rs_payment_id v)"
        "\<lambda>v. rp_refund P (the (rs_payment_id v))" d "''cancellation.refund''" R_REFUNDED] ports s1(3) s2(3) assms(3) by auto
  show ?thesis
    using s1(1) s2(1) s3
    by (simp add: prompt_save(1) [OF p] refund_body_def dbind_def db_monad set_var_def load_save)
qed

lemma prompt_execute:
  assumes p: "prompt E P" and "sg_alive s" and u: "usable (ri_saga_id inp) (sg_store s)"
    and time: "\<And>v d. load (ri_saga_id inp) (sg_store s) = Some v \<Longrightarrow> rs_deadline_at v = Some d \<Longrightarrow> sg_now s + 3000 < d"
  shows "\<exists>v s'. execute_refund_saga E ops P inp s = (Inr v, s') \<and> load (ri_saga_id inp) (sg_store s') = Some v"
proof -
  let ?i = "ri_saga_id inp" and ?s0 = "s\<lparr>sg_calls := Suc (sg_calls s)\<rparr>"
  define v where "v = (case load ?i (sg_store s) of Some v \<Rightarrow> v | None \<Rightarrow> started_refund inp (sg_now ?s0))"
  let ?d = "refund_deadline v ?s0" and ?s1 = "?s0\<lparr>sg_var := v\<lparr>rs_deadline_at := Some (refund_deadline v ?s0)\<rparr>\<rparr>"
  have "execute_refund_saga E ops P inp s = refund_body E ops P ?i ?d ?s1"
    using prompt_save(2) [OF p assms(2), of ops ?i] unfolding execute_refund_saga_def
    by (simp add: dbind_def [of "load_state E ops ?i"] v_def set_var_def Let_def)
  moreover have "sg_now ?s1 + 3000 < ?d"
    using time by (auto simp: v_def refund_deadline_def started_refund_def SAGA_TIMEOUT_MS_def split: option.splits)
  ultimately show ?thesis using prompt_body [OF p, of ?s1 ?d ?i] assms(2) u by simp
qed

lemma runs_honest: "honest load usable (ri_saga_id inp) s \<Longrightarrow> honest load usable (ri_saga_id inp) (refund_runs ops P inp rs s)"
proof (induction rs arbitrary: s)
  case (Cons r rs)
  obtain E wait where r: "r = (E, wait)" by (cases r)
  let ?s = "s\<lparr>sg_alive := True, sg_now := sg_now s + int wait\<rparr>"
  have "honest load usable (ri_saga_id inp) ?s" using Cons.prems by (simp add: honest_def)
  then have "honest load usable (ri_saga_id inp) (snd (execute_refund_saga E ops P inp ?s))"
    using execute_honest [of inp ?s E P] by (metis prod.collapse)
  then show ?case using Cons.IH r by simp
qed simp

text \<open>After the deadline in the stored state, an unfinished saga makes no call and saves nothing.\<close>

lemma expired_refund:
  assumes "load (ri_saga_id inp) (sg_store s) = Some v" and "rs_deadline_at v = Some d" and "d \<le> sg_now s"
    and "rs_step v = R_ORDER_CANCELLED \<or> rs_step v = R_STOCK_RELEASED \<and> truthy (rs_payment_id v)"
  shows "\<exists>s'. snd (execute_refund_saga E ops P inp s) = s' \<and> sg_store s' = sg_store s \<and> sg_log s' = sg_log s \<and> sg_now s \<le> sg_now s'
    \<and> \<not> ok (fst (execute_refund_saga E ops P inp s))"
proof -
  let ?i = "ri_saga_id inp"
  obtain y s0 where l: "load_state E ops ?i s = (y, s0)" by fastforce
  have s0: "sg_log s0 = sg_log s" "sg_store s0 = sg_store s" "sg_now s0 = sg_now s" "\<And>f. y = Inr f \<Longrightarrow> f = Some v"
    using l assms(1) by (auto simp: load_state_def store_call_def Let_def split: if_splits option.splits)
  show ?thesis
  proof (cases y)
    case (Inl e)
    then show ?thesis using l s0 by (simp add: execute_refund_saga_def dbind_def)
  next
    case (Inr f)
    let ?s1 = "s0\<lparr>sg_var := v\<lparr>rs_deadline_at := Some d\<rparr>\<rparr>"
    have eq: "execute_refund_saga E ops P inp s = refund_body E ops P ?i d ?s1"
      using l Inr s0(4) [OF Inr] assms(2) unfolding execute_refund_saga_def
      by (simp add: dbind_def [of "load_state E ops ?i"] set_var_def Let_def refund_deadline_def)
    have late: "d \<le> sg_now ?s1" using s0(3) assms(3) by simp
    have "\<exists>e. refund_body E ops P ?i d ?s1 = (Inl e, ?s1)"
      using late assms(4)
      by (elim disjE) (auto simp: refund_body_def refund_block_def dbind_def db_monad expired_step)
    then show ?thesis using eq s0 by auto
  qed
qed

lemma expired_runs:
  assumes "load (ri_saga_id inp) (sg_store s) = Some v" and "rs_deadline_at v = Some d" and "d \<le> sg_now s"
    and "rs_step v = R_ORDER_CANCELLED \<or> rs_step v = R_STOCK_RELEASED \<and> truthy (rs_payment_id v)"
  shows "sg_store (refund_runs ops P inp rs s) = sg_store s \<and> sg_log (refund_runs ops P inp rs s) = sg_log s"
  using assms(1,3)
proof (induction rs arbitrary: s)
  case (Cons r rs)
  obtain E wait where r: "r = (E, wait)" by (cases r)
  let ?s = "s\<lparr>sg_alive := True, sg_now := sg_now s + int wait\<rparr>"
  obtain s' where s': "snd (execute_refund_saga E ops P inp ?s) = s'" "sg_store s' = sg_store s" "sg_log s' = sg_log s" "sg_now ?s \<le> sg_now s'"
    using expired_refund [of inp ?s v d E P] Cons.prems assms(2,4) by auto
  then show ?case using Cons.IH [of s'] Cons.prems r by simp
qed simp

end

subsection \<open>The saga on the two stores\<close>

definition refund_step_name :: "refund_state \<Rightarrow> string" where
  "refund_step_name v = (case rs_step v of R_STARTED \<Rightarrow> ''STARTED'' | R_ORDER_CANCELLED \<Rightarrow> ''ORDER_CANCELLED''
     | R_STOCK_RELEASED \<Rightarrow> ''STOCK_RELEASED'' | R_REFUNDED \<Rightarrow> ''REFUNDED'' | R_COMPLETED \<Rightarrow> ''COMPLETED'')"

definition refund_ops :: "string \<Rightarrow> (refund_state saga_row list, refund_state) store_ops" where
  "refund_ops ty = \<lparr>so_load = prisma_load ty, so_save = prisma_save ty refund_step_name\<rparr>"

interpretation prisma_refund: refund_saga_store "prisma_load ty" "prisma_save ty refund_step_name" "id_free_for ty"
  for ty :: string
  by unfold_locales

interpretation memory_refund: refund_saga_store memory_load memory_save "\<lambda>i st. True"
  by unfold_locales

lemma refund_saga_completes_after:
  assumes "sg_store s = []" and "sg_log s = []" and s': "s' = refund_runs (refund_ops ty) P inp rs s"
    and p: "prompt E P" and "sg_alive s'"
    and time: "\<forall>v d. prisma_load ty (ri_saga_id inp) (sg_store s') = Some v \<and> rs_deadline_at v = Some d \<longrightarrow> sg_now s' + 3000 < d"
    and run: "execute_refund_saga E (refund_ops ty) P inp s' = (x, s'')"
  shows "\<exists>v. x = Inr v \<and> rs_step v = R_COMPLETED \<and> prisma_load ty (ri_saga_id inp) (sg_store s'') = Some v
    \<and> earned v (sg_log s'') \<and> in_order (sg_log s'')"
proof -
  have "honest (prisma_load ty) (id_free_for ty) (ri_saga_id inp) s"
    using assms(1,2) by (simp add: honest_def id_free_for_def prisma_load_def in_order_def)
  then have h: "honest (prisma_load ty) (id_free_for ty) (ri_saga_id inp) s'"
    unfolding s' refund_ops_def by (rule prisma_refund.runs_honest)
  then have u: "id_free_for ty (ri_saga_id inp) (sg_store s')" by (simp add: honest_def)
  obtain v where "x = Inr v" "prisma_load ty (ri_saga_id inp) (sg_store s'') = Some v"
    using prisma_refund.prompt_execute [OF p \<open>sg_alive s'\<close> u] time run unfolding refund_ops_def by fastforce
  then show ?thesis
    using prisma_refund.execute_honest [OF h run [unfolded refund_ops_def]] by (auto simp: honest_def)
qed


text \<open>A cancellation whose deadline has passed is stuck: the deadline is part of the stored state, so no later execution, however
  often it is repeated, makes a call or saves anything; a cancelled order is never refunded.\<close>

theorem expired_refund_is_stuck:
  assumes "prisma_load ty (ri_saga_id inp) (sg_store s) = Some v" and "rs_deadline_at v = Some d" and "d \<le> sg_now s"
    and "rs_step v = R_ORDER_CANCELLED \<or> rs_step v = R_STOCK_RELEASED \<and> truthy (rs_payment_id v)"
  shows "sg_store (refund_runs (refund_ops ty) P inp rs s) = sg_store s \<and> sg_log (refund_runs (refund_ops ty) P inp rs s) = sg_log s"
  using prisma_refund.expired_runs [OF assms] by (simp add: refund_ops_def)

text \<open>A first execution dies after the order was cancelled and this was saved; the second one finishes.\<close>

definition refund_sample_ports :: "string list refund_ports" where
  "refund_sample_ports = \<lparr>rp_cancel_order = \<lambda>_ w. (Inr (), w @ [''cancel'']), rp_release_stock = \<lambda>_ w. (Inr (), w @ [''release'']),
     rp_refund = \<lambda>_ w. (Inr (), w @ [''refund''])\<rparr>"

definition calm_env :: "'w saga_env" where
  "calm_env = \<lparr>call_time = \<lambda>_. Some 5, meanwhile = \<lambda>_. id, store_fails = \<lambda>_. None, dies_after = \<lambda>_. False\<rparr>"

definition refund_sample_input :: refund_input where
  "refund_sample_input = \<lparr>ri_saga_id = ''s1'', ri_order_id = ''o1'', ri_payment_id = Some ''p1''\<rparr>"

definition refund_sample_world :: "(string list, refund_state saga_row list, refund_state) saga_world" where
  "refund_sample_world = \<lparr>sg_now = 1000, sg_calls = 0, sg_alive = True, sg_ports = [], sg_store = [],
     sg_var = started_refund refund_sample_input 1000, sg_log = []\<rparr>"

definition crashed_world :: "(string list, refund_state saga_row list, refund_state) saga_world" where
  "crashed_world = refund_runs (refund_ops ''refund'') refund_sample_ports refund_sample_input
     [(calm_env\<lparr>dies_after := \<lambda>k. k = 2\<rparr>, 0), (calm_env\<lparr>store_fails := \<lambda>k. Some (PlainError ''connection lost'')\<rparr>, 200)] refund_sample_world"


end
