(* ===== verification/Idempotency.thy ===== *)
theory Idempotency
  imports Events
begin

text \<open>
  The idempotency of unsafe requests, \<^verbatim>\<open>shared/middlewares/idempotency.middleware.ts\<close>. A request is a state machine that
  advances with the replies of Redis; any number of requests of any number of processes run on one Redis, with commands
  that time out and are served later or never, processes that die and leases that run out.
\<close>

subsection \<open>Redis\<close>

text \<open>A stored text is the JSON value it parses to, or one that \<^verbatim>\<open>JSON.parse\<close> rejects. The three scripts are commands.\<close>

datatype stored_text = Json json | Not_json string

type_synonym idem_store = "string \<Rightarrow> (stored_text \<times> millis) option"

datatype redis_command =
    GET string
  | SET_NX string stored_text int
  | RENEW_IF_OWNER string stored_text int
  | COMPLETE_IF_OWNER string stored_text stored_text int
  | DELETE_IF_OWNER string stored_text

datatype redis_reply = Bulk "stored_text option" | Status_OK | Null_reply | Count int | Redis_error

definition live_text :: "millis \<Rightarrow> idem_store \<Rightarrow> string \<Rightarrow> stored_text option" where
  "live_text now st k = (case st k of Some (v, t) \<Rightarrow> if now < t then Some v else None | None \<Rightarrow> None)"

fun run_command :: "millis \<Rightarrow> redis_command \<Rightarrow> idem_store \<Rightarrow> redis_reply \<times> idem_store" where
  "run_command now (GET k) st = (Bulk (live_text now st k), st)"
| "run_command now (SET_NX k v secs) st =
     (if secs \<le> 0 then (Redis_error, st)
      else if live_text now st k = None then (Status_OK, st(k \<mapsto> (v, now + 1000 * secs)))
      else (Null_reply, st))"
| "run_command now (RENEW_IF_OWNER k claim secs) st =
     (if live_text now st k = Some claim
      then (Count 1, if secs \<le> 0 then st(k := None) else st(k \<mapsto> (claim, now + 1000 * secs)))
      else (Count 0, st))"
| "run_command now (COMPLETE_IF_OWNER k claim v secs) st =
     (if live_text now st k = Some claim
      then if secs \<le> 0 then (Redis_error, st) else (Status_OK, st(k \<mapsto> (v, now + 1000 * secs)))
      else (Count 0, st))"
| "run_command now (DELETE_IF_OWNER k claim) st =
     (if live_text now st k = Some claim then (Count 1, st(k := None)) else (Count 0, st))"

subsection \<open>The middleware\<close>

datatype header_value = Header string | Headers "string list"

record http_request =
  rq_method :: string
  rq_headers :: "string \<Rightarrow> header_value option"
  rq_user_id :: "string option"
  rq_base_url :: string
  rq_original_url :: string
  rq_url :: string
  rq_body :: "(string \<times> json) list option"

definition key_char :: "char \<Rightarrow> bool" where
  "key_char c \<longleftrightarrow> is_upper c \<or> is_lower c \<or> is_digit c \<or> c \<in> set ''._~-''"

definition valid_key :: "string \<Rightarrow> bool" where
  "valid_key s \<longleftrightarrow> 1 \<le> length s \<and> length s \<le> 128 \<and> list_all key_char s"

definition idempotency_key_of :: "string \<Rightarrow> http_request \<Rightarrow> string" where
  "idempotency_key_of header rq = (case rq_headers rq (to_lower header) of Some (Header s) \<Rightarrow> s | _ \<Rightarrow> [])"

definition js_or :: "string \<Rightarrow> string \<Rightarrow> string" where
  "js_or a b = (if a = [] then b else a)"

definition route_of :: "http_request \<Rightarrow> string" where
  "route_of rq = js_or (rq_base_url rq) (takeWhile (\<lambda>c. c \<noteq> CHR ''?'') (js_or (rq_original_url rq) (js_or (rq_url rq) ''unknown'')))"

definition cache_key :: "string \<Rightarrow> http_request \<Rightarrow> string" where
  "cache_key header rq =
     ''idempotency:'' @ js_or (case rq_user_id rq of None \<Rightarrow> [] | Some u \<Rightarrow> u) ''anonymous'' @ '':'' @ route_of rq @ '':''
       @ idempotency_key_of header rq"

text \<open>\<open>digest\<close> is the hexadecimal SHA-256 of the body's JSON text.\<close>

definition request_hash :: "((string \<times> json) list \<Rightarrow> string) \<Rightarrow> http_request \<Rightarrow> string" where
  "request_hash digest rq =
     digest (filter (\<lambda>f. fst f \<noteq> ''idempotencyKey'') (case rq_body rq of None \<Rightarrow> [] | Some b \<Rightarrow> b))"

definition in_progress_ttl :: "int \<Rightarrow> int" where
  "in_progress_ttl ttl = min ttl 60"

definition renewal_interval :: "int \<Rightarrow> int" where
  "renewal_interval ttl = max 1000 ((in_progress_ttl ttl * 1000) div 3)"

definition claim_value :: "string \<Rightarrow> string \<Rightarrow> stored_text" where
  "claim_value h owner = Json (JObj [(''state'', JStr ''IN_PROGRESS''), (''requestHash'', JStr h), (''ownerId'', JStr owner)])"

definition completed_value :: "string \<Rightarrow> int \<Rightarrow> json \<Rightarrow> stored_text" where
  "completed_value h status data =
     Json (JObj [(''state'', JStr ''COMPLETED''), (''requestHash'', JStr h), (''status'', jint status), (''data'', data)])"

text \<open>What a request comes to: \<^verbatim>\<open>next()\<close>, \<^verbatim>\<open>next(error)\<close>, a stored response, or the response of its own handler.\<close>

datatype idem_outcome = Next | Next_error error | Replayed json json | Responded int json | Died

definition unavailable :: idem_outcome where
  "unavailable = Next_error (ApplicationError (DependencyUnavailableError ''Idempotency temporarily unavailable''))"

definition replay_or_reject :: "stored_text \<Rightarrow> string \<Rightarrow> idem_outcome" where
  "replay_or_reject cached hash =
     (case cached of
        Not_json _ \<Rightarrow> Next_error (conflict_error ''Invalid idempotency state'')
      | Json JNull \<Rightarrow> Next_error (conflict_error ''Invalid idempotency state'')
      | Json v \<Rightarrow>
          (let fs = map_of (case v of JObj fs \<Rightarrow> fs | _ \<Rightarrow> []) in
           if fs ''requestHash'' \<noteq> Some (JStr hash)
           then Next_error (ApplicationError (UnprocessableError ''Idempotency key was reused with a different request''))
           else if fs ''state'' = Some (JStr ''IN_PROGRESS'') then Next_error (conflict_error ''Request is already in progress'')
           else case fs ''status'' of
             None \<Rightarrow> Next_error (conflict_error ''Invalid idempotency state'')
           | Some status \<Rightarrow> Replayed status (case fs ''data'' of None \<Rightarrow> JNull | Some d \<Rightarrow> d)))"

record idem_ctx =
  ix_key :: string
  ix_hash :: string
  ix_body :: bool

datatype idem_phase =
    Reading idem_ctx
  | Claiming idem_ctx string
  | Rereading idem_ctx
  | Handling idem_ctx string
  | Ended "idem_ctx option" idem_outcome

definition idem_begin :: "((string \<times> json) list \<Rightarrow> string) \<Rightarrow> string \<Rightarrow> http_request \<Rightarrow> idem_phase" where
  "idem_begin digest header rq =
     (if rq_method rq \<notin> {''POST'', ''PUT'', ''PATCH''} then Ended None Next
      else if \<not> valid_key (idempotency_key_of header rq)
      then Ended None (Next_error (validation_error ''Idempotency-Key header required''))
      else Reading \<lparr>ix_key = cache_key header rq, ix_hash = request_hash digest rq, ix_body = rq_body rq \<noteq> None\<rparr>)"

fun idem_command :: "int \<Rightarrow> idem_phase \<Rightarrow> redis_command option" where
  "idem_command ttl (Reading c) = Some (GET (ix_key c))"
| "idem_command ttl (Claiming c owner) = Some (SET_NX (ix_key c) (claim_value (ix_hash c) owner) (in_progress_ttl ttl))"
| "idem_command ttl (Rereading c) = Some (GET (ix_key c))"
| "idem_command ttl _ = None"

text \<open>\<open>found\<close> is the test \<^verbatim>\<open>if (cached)\<close>. Without a body the assignment to \<^verbatim>\<open>req.body.idempotencyKey\<close> throws after the claim.\<close>

fun found :: "redis_reply \<Rightarrow> stored_text option" where
  "found (Bulk (Some v)) = (if v = Not_json [] then None else Some v)"
| "found _ = None"

fun idem_reply :: "string \<Rightarrow> idem_phase \<Rightarrow> redis_reply option \<Rightarrow> idem_phase" where
  "idem_reply owner (Reading c) (Some (Bulk v)) =
     (case found (Bulk v) of Some cached \<Rightarrow> Ended (Some c) (replay_or_reject cached (ix_hash c)) | None \<Rightarrow> Claiming c owner)"
| "idem_reply owner (Claiming c o') (Some Status_OK) = (if ix_body c then Handling c o' else Ended (Some c) unavailable)"
| "idem_reply owner (Claiming c o') (Some Null_reply) = Rereading c"
| "idem_reply owner (Rereading c) (Some (Bulk v)) =
     (case found (Bulk v) of
        Some cached \<Rightarrow> Ended (Some c) (replay_or_reject cached (ix_hash c))
      | None \<Rightarrow> Ended (Some c) (Next_error (conflict_error ''Request is already in progress'')))"
| "idem_reply owner (Reading c) _ = Ended (Some c) unavailable"
| "idem_reply owner (Claiming c o') _ = Ended (Some c) unavailable"
| "idem_reply owner (Rereading c) _ = Ended (Some c) unavailable"
| "idem_reply owner p _ = p"

definition successful :: "int \<Rightarrow> bool" where
  "successful status \<longleftrightarrow> 200 \<le> status \<and> status < 300"

definition idem_json :: "int \<Rightarrow> idem_ctx \<Rightarrow> string \<Rightarrow> int \<Rightarrow> json \<Rightarrow> redis_command" where
  "idem_json ttl c owner status data =
     (if successful status
      then COMPLETE_IF_OWNER (ix_key c) (claim_value (ix_hash c) owner) (completed_value (ix_hash c) status data) ttl
      else DELETE_IF_OWNER (ix_key c) (claim_value (ix_hash c) owner))"

definition idem_renewal :: "int \<Rightarrow> idem_ctx \<Rightarrow> string \<Rightarrow> redis_command" where
  "idem_renewal ttl c owner = RENEW_IF_OWNER (ix_key c) (claim_value (ix_hash c) owner) (in_progress_ttl ttl)"

subsection \<open>Many requests on one store\<close>

text \<open>
  \<open>iw_sent\<close> are the commands nobody waits for: renewals, completions, and commands whose caller timed out or died. Each is
  served at some later time or never. \<open>iw_owners\<close> are the random owner ids given out so far, with the key each was drawn for, and
  \<open>iw_log\<close> is the history, newest first: handlers started, and the renewals, completions and releases that took effect.
\<close>

datatype idem_event =
    Started millis string string
  | Renewed millis string
  | Completed millis string
  | Released millis string

record idem_world =
  iw_now :: millis
  iw_store :: idem_store
  iw_reqs :: "nat \<Rightarrow> idem_phase option"
  iw_sent :: "redis_command list"
  iw_owners :: "string \<Rightarrow> string option"
  iw_log :: "idem_event list"

definition owner_of :: "stored_text \<Rightarrow> string" where
  "owner_of v = (case v of
      Json (JObj fs) \<Rightarrow> (case map_of fs ''ownerId'' of Some (JStr ow) \<Rightarrow> ow | _ \<Rightarrow> [])
    | _ \<Rightarrow> [])"

fun effect_of :: "millis \<Rightarrow> redis_command \<Rightarrow> redis_reply \<Rightarrow> idem_event list" where
  "effect_of now (RENEW_IF_OWNER k claim secs) (Count n) = (if n = 1 then [Renewed now (owner_of claim)] else [])"
| "effect_of now (COMPLETE_IF_OWNER k claim v secs) Status_OK = [Completed now (owner_of claim)]"
| "effect_of now (DELETE_IF_OWNER k claim) (Count n) = (if n = 1 then [Released now (owner_of claim)] else [])"
| "effect_of now _ _ = []"

fun start_of :: "millis \<Rightarrow> idem_phase \<Rightarrow> idem_event list" where
  "start_of now (Handling c owner) = [Started now (ix_key c) owner]"
| "start_of now _ = []"

fun draw_owner :: "idem_phase \<Rightarrow> (string \<Rightarrow> string option) \<Rightarrow> string \<Rightarrow> string option" where
  "draw_owner (Claiming c owner) ws = ws(owner \<mapsto> ix_key c)"
| "draw_owner _ ws = ws"

fun in_flight :: "idem_phase \<Rightarrow> bool" where
  "in_flight (Ended _ _) = False"
| "in_flight _ = True"

inductive idem_step :: "((string \<times> json) list \<Rightarrow> string) \<Rightarrow> string \<Rightarrow> int \<Rightarrow> idem_world \<Rightarrow> idem_world \<Rightarrow> bool"
  for digest :: "(string \<times> json) list \<Rightarrow> string" and header :: string and ttl :: int where
  arrive: "iw_reqs w i = None \<Longrightarrow>
     idem_step digest header ttl w (w\<lparr>iw_reqs := (iw_reqs w)(i \<mapsto> idem_begin digest header rq)\<rparr>)"
| served: "iw_reqs w i = Some p \<Longrightarrow> idem_command ttl p = Some c \<Longrightarrow> run_command (iw_now w) c (iw_store w) = (r, st') \<Longrightarrow>
     iw_owners w u = None \<Longrightarrow> p' = idem_reply u p (Some r) \<Longrightarrow>
     idem_step digest header ttl w (w\<lparr>iw_store := st', iw_reqs := (iw_reqs w)(i \<mapsto> p'), iw_owners := draw_owner p' (iw_owners w),
       iw_log := start_of (iw_now w) p' @ iw_log w\<rparr>)"
| unserved: "iw_reqs w i = Some p \<Longrightarrow> idem_command ttl p = Some c \<Longrightarrow>
     idem_step digest header ttl w (w\<lparr>iw_reqs := (iw_reqs w)(i \<mapsto> idem_reply [] p None), iw_sent := c # iw_sent w\<rparr>)"
| respond: "iw_reqs w i = Some (Handling c owner) \<Longrightarrow>
     idem_step digest header ttl w (w\<lparr>iw_reqs := (iw_reqs w)(i \<mapsto> Ended (Some c) (Responded status data)),
       iw_sent := idem_json ttl c owner status data # iw_sent w\<rparr>)"
| renew: "iw_reqs w i = Some (Handling c owner) \<Longrightarrow>
     idem_step digest header ttl w (w\<lparr>iw_sent := idem_renewal ttl c owner # iw_sent w\<rparr>)"
| late: "c \<in> set (iw_sent w) \<Longrightarrow> run_command (iw_now w) c (iw_store w) = (r, st') \<Longrightarrow>
     idem_step digest header ttl w (w\<lparr>iw_store := st', iw_sent := remove1 c (iw_sent w),
       iw_log := effect_of (iw_now w) c r @ iw_log w\<rparr>)"
| drop: "idem_step digest header ttl w (w\<lparr>iw_sent := remove1 c (iw_sent w)\<rparr>)"
| die: "iw_reqs w i = Some p \<Longrightarrow> in_flight p \<Longrightarrow> idem_step digest header ttl w (w\<lparr>iw_reqs := (iw_reqs w)(i \<mapsto> Ended None Died)\<rparr>)"
| pass_time: "0 \<le> d \<Longrightarrow> idem_step digest header ttl w (w\<lparr>iw_now := iw_now w + d\<rparr>)"

inductive idem_reachable :: "((string \<times> json) list \<Rightarrow> string) \<Rightarrow> string \<Rightarrow> int \<Rightarrow> idem_world \<Rightarrow> bool"
  for digest :: "(string \<times> json) list \<Rightarrow> string" and header :: string and ttl :: int where
  start: "idem_reachable digest header ttl
     \<lparr>iw_now = 0, iw_store = (\<lambda>_. None), iw_reqs = (\<lambda>_. None), iw_sent = [], iw_owners = (\<lambda>_. None), iw_log = []\<rparr>"
| step: "idem_reachable digest header ttl w \<Longrightarrow> idem_step digest header ttl w w' \<Longrightarrow> idem_reachable digest header ttl w'"

subsection \<open>Claims hold their keys\<close>

text \<open>Until when the history lets an owner's claim, or the response that replaced it, hold its key.\<close>

fun holds_until :: "int \<Rightarrow> idem_event list \<Rightarrow> string \<Rightarrow> millis option" where
  "holds_until ttl [] u = None"
| "holds_until ttl (Started t k ow # es) u = (if ow = u then Some (t + 1000 * in_progress_ttl ttl) else holds_until ttl es u)"
| "holds_until ttl (Renewed t ow # es) u = (if ow = u then Some (t + 1000 * in_progress_ttl ttl) else holds_until ttl es u)"
| "holds_until ttl (Completed t ow # es) u = (if ow = u then Some (t + 1000 * ttl) else holds_until ttl es u)"
| "holds_until ttl (Released t ow # es) u = (if ow = u then None else holds_until ttl es u)"

lemma claim_eq [simp]: "claim_value h u = claim_value h' u' \<longleftrightarrow> h = h' \<and> u = u'"
  by (simp add: claim_value_def)

lemma completed_not_claim [simp]: "completed_value h s d \<noteq> claim_value h' u" "claim_value h' u \<noteq> completed_value h s d"
  by (simp_all add: claim_value_def completed_value_def)

lemma owner_of_claim [simp]: "owner_of (claim_value h u) = u"
  by (simp add: owner_of_def claim_value_def)

text \<open>The commands that are ever sent, and the facts that every step keeps.\<close>

fun command_ok :: "int \<Rightarrow> (string \<Rightarrow> string option) \<Rightarrow> redis_command \<Rightarrow> bool" where
  "command_ok ttl ws (GET k) = True"
| "command_ok ttl ws (SET_NX k v secs) = (\<exists>h u. v = claim_value h u \<and> ws u = Some k)"
| "command_ok ttl ws (RENEW_IF_OWNER k v secs) = (\<exists>h u. v = claim_value h u \<and> ws u = Some k \<and> secs = in_progress_ttl ttl)"
| "command_ok ttl ws (COMPLETE_IF_OWNER k v v' secs) =
     (\<exists>h u s d. v = claim_value h u \<and> ws u = Some k \<and> v' = completed_value h s d \<and> secs = ttl)"
| "command_ok ttl ws (DELETE_IF_OWNER k v) = (\<exists>h u. v = claim_value h u \<and> ws u = Some k)"

fun phase_ok :: "(string \<Rightarrow> string option) \<Rightarrow> idem_phase \<Rightarrow> bool" where
  "phase_ok ws (Claiming c u) = (ws u = Some (ix_key c))"
| "phase_ok ws (Handling c u) = (ws u = Some (ix_key c))"
| "phase_ok ws _ = True"

definition key_held :: "int \<Rightarrow> idem_world \<Rightarrow> string \<Rightarrow> string \<Rightarrow> bool" where
  "key_held ttl w k u \<longleftrightarrow> (\<forall>t. holds_until ttl (iw_log w) u = Some t \<longrightarrow> iw_now w < t \<longrightarrow>
     (\<exists>v. iw_store w k = Some (v, t) \<and> ((\<exists>h. v = claim_value h u) \<or> (\<exists>h s d. v = completed_value h s d))))"

definition idem_inv :: "int \<Rightarrow> idem_world \<Rightarrow> bool" where
  "idem_inv ttl w \<longleftrightarrow> (\<forall>c \<in> set (iw_sent w). command_ok ttl (iw_owners w) c)
     \<and> (\<forall>i p. iw_reqs w i = Some p \<longrightarrow> phase_ok (iw_owners w) p)
     \<and> (\<forall>u k. iw_owners w u = Some k \<longrightarrow> key_held ttl w k u)
     \<and> (\<forall>u. iw_owners w u = None \<longrightarrow> holds_until ttl (iw_log w) u = None)
     \<and> (\<forall>t k u. Started t k u \<in> set (iw_log w) \<longrightarrow> iw_owners w u = Some k \<and> t \<le> iw_now w)"

lemma live_text_Some: "live_text now st k = Some v \<longleftrightarrow> (\<exists>t. st k = Some (v, t) \<and> now < t)"
  by (auto simp: live_text_def split: option.splits)

lemma command_keeps:
  assumes ok: "command_ok ttl (iw_owners w) c" and run: "run_command (iw_now w) c (iw_store w) = (r, st')"
    and u: "iw_owners w u = Some k" and held: "key_held ttl w k u"
  shows "key_held ttl (w\<lparr>iw_store := st', iw_sent := cs, iw_log := effect_of (iw_now w) c r @ iw_log w\<rparr>) k u"
  using assms
proof (cases c)
  case (SET_NX k' v secs)
  then show ?thesis
    using assms by (auto simp: key_held_def live_text_def split: if_splits option.splits)
next
  case (RENEW_IF_OWNER k' v secs)
  then obtain h u' where v: "v = claim_value h u'" "iw_owners w u' = Some k'" "secs = in_progress_ttl ttl" using ok by auto
  show ?thesis
  proof (cases "live_text (iw_now w) (iw_store w) k' = Some v")
    case True
    then show ?thesis
      using run u held v RENEW_IF_OWNER by (auto simp: key_held_def live_text_Some split: if_splits)
  next
    case False
    then show ?thesis using run held RENEW_IF_OWNER by (auto simp: key_held_def)
  qed
next
  case (COMPLETE_IF_OWNER k' v v' secs)
  then obtain h u' s d where v: "v = claim_value h u'" "iw_owners w u' = Some k'" "v' = completed_value h s d" "secs = ttl"
    using ok by auto
  show ?thesis
  proof (cases "live_text (iw_now w) (iw_store w) k' = Some v")
    case True
    then show ?thesis
      using run u held v COMPLETE_IF_OWNER by (auto simp: key_held_def live_text_Some split: if_splits) blast
  next
    case False
    then show ?thesis using run held COMPLETE_IF_OWNER by (auto simp: key_held_def)
  qed
next
  case (DELETE_IF_OWNER k' v)
  then obtain h u' where v: "v = claim_value h u'" "iw_owners w u' = Some k'" using ok by auto
  then show ?thesis
    using run u held DELETE_IF_OWNER by (auto simp: key_held_def live_text_Some split: if_splits)
qed (simp add: key_held_def)


lemma command_ok_grows: "ws \<subseteq>\<^sub>m ws' \<Longrightarrow> command_ok ttl ws c \<Longrightarrow> command_ok ttl ws' c"
  by (cases c) (fastforce simp: map_le_def dom_def)+

lemma phase_ok_grows: "ws \<subseteq>\<^sub>m ws' \<Longrightarrow> phase_ok ws p \<Longrightarrow> phase_ok ws' p"
  by (cases p) (fastforce simp: map_le_def dom_def)+

lemma sent_ok:
  "phase_ok ws p \<Longrightarrow> idem_command ttl p = Some c \<Longrightarrow> command_ok ttl ws c"
  "phase_ok ws (Handling x u) \<Longrightarrow> command_ok ttl ws (idem_json ttl x u s d)"
  "phase_ok ws (Handling x u) \<Longrightarrow> command_ok ttl ws (idem_renewal ttl x u)"
  by (cases p) (auto simp: idem_json_def idem_renewal_def)

lemma draws: "ws u = None \<Longrightarrow> p' = idem_reply u p r \<Longrightarrow> phase_ok ws p \<Longrightarrow> ws \<subseteq>\<^sub>m draw_owner p' ws \<and> phase_ok (draw_owner p' ws) p'"
  by (cases "(u, p, r)" rule: idem_reply.cases) (auto simp: map_le_def split: option.splits if_splits)

lemma unserved_phase: "phase_ok ws p \<Longrightarrow> phase_ok ws (idem_reply [] p None)"
  by (cases p) auto

lemma waiting_effect: "idem_command ttl p = Some c \<Longrightarrow> effect_of now c r = []"
  by (cases p) auto

lemma started_here:
  assumes "idem_command ttl p = Some c" and "run_command now c st = (r, st')" and "start_of now (idem_reply u p (Some r)) = [Started t k ow]"
  shows "t = now \<and> live_text now st k = None \<and> (\<exists>x. p = Claiming x ow \<and> k = ix_key x
      \<and> st' = st(k \<mapsto> (claim_value (ix_hash x) ow, now + 1000 * in_progress_ttl ttl)))"
  using assms by (cases p) (auto split: if_splits option.splits redis_reply.splits)


lemma start_phase: "start_of now p = [] \<or> (\<exists>k ow. start_of now p = [Started now k ow])"
  by (cases p) auto

lemma served_keeps:
  assumes inv: "idem_inv ttl w" and p: "iw_reqs w i = Some p" and c: "idem_command ttl p = Some c"
    and run: "run_command (iw_now w) c (iw_store w) = (r, st')" and new: "iw_owners w u = None" and p': "p' = idem_reply u p (Some r)"
    and v: "draw_owner p' (iw_owners w) x = Some k"
  shows "key_held ttl (w\<lparr>iw_store := st', iw_reqs := rq, iw_owners := ws, iw_log := start_of (iw_now w) p' @ iw_log w\<rparr>) k x"
proof (cases "iw_owners w x")
  case None
  then have "holds_until ttl (iw_log w) x = None" "start_of (iw_now w) p' = []"
    using inv v by (auto simp: idem_inv_def) (cases p'; auto split: if_splits)
  then show ?thesis by (simp add: key_held_def)
next
  case (Some k')
  have "iw_owners w \<subseteq>\<^sub>m draw_owner p' (iw_owners w)"
    using draws [of "iw_owners w" u p' p "Some r"] new p' inv p by (auto simp: idem_inv_def)
  then have k: "iw_owners w x = Some k" using Some v by (auto simp: map_le_def dom_def)
  then have held: "key_held ttl w k x" using inv by (simp add: idem_inv_def)
  have "command_ok ttl (iw_owners w) c" using sent_ok(1) [OF _ c] inv p by (auto simp: idem_inv_def)
  from command_keeps [OF this run k held, of "[]"]
  have after: "key_held ttl (w\<lparr>iw_store := st'\<rparr>) k x" by (simp add: key_held_def waiting_effect [OF c])
  consider "start_of (iw_now w) p' = []" | kk ow where "start_of (iw_now w) p' = [Started (iw_now w) kk ow]"
    using start_phase by blast
  then show ?thesis
  proof cases
    case 1
    then show ?thesis using after by (simp add: key_held_def)
  next
    case (2 kk ow)
    then obtain y where y: "live_text (iw_now w) (iw_store w) kk = None" "p = Claiming y ow" "kk = ix_key y"
        "st' = (iw_store w)(kk \<mapsto> (claim_value (ix_hash y) ow, iw_now w + 1000 * in_progress_ttl ttl))"
      using started_here [OF c run, of u "iw_now w" kk ow] p' by auto
    then have "iw_owners w ow = Some kk" using inv p by (force simp: idem_inv_def)
    then show ?thesis using after 2 y(4) k by (auto simp: key_held_def)
  qed
qed

lemma idem_inv_step:
  assumes inv: "idem_inv ttl w" and st: "idem_step digest header ttl w w'"
  shows "idem_inv ttl w'"
  using st
proof cases
  case (arrive i rq)
  then show ?thesis using inv by (auto simp: idem_inv_def key_held_def idem_begin_def)
next
  case (served i p c r st' u p')
  have ok: "phase_ok (iw_owners w) p" using inv served by (auto simp: idem_inv_def)
  note d = draws [OF served(5,6) ok]
  have held: "draw_owner p' (iw_owners w) x = Some k \<Longrightarrow> key_held ttl w' k x" for x k
    unfolding served(1) by (rule served_keeps [OF inv served(2-6)])
  have log: "Started t k x \<in> set (start_of (iw_now w) p') \<Longrightarrow> draw_owner p' (iw_owners w) x = Some k"
    and now: "Started t k x \<in> set (start_of (iw_now w) p') \<Longrightarrow> t \<le> iw_now w" for t k x
    using d by (cases p'; auto)+
  have none: "draw_owner p' (iw_owners w) x = None \<Longrightarrow> holds_until ttl (start_of (iw_now w) p' @ iw_log w) x = None" for x
  proof -
    assume n: "draw_owner p' (iw_owners w) x = None"
    then have "iw_owners w x = None" using d by (metis domIff map_le_def)
    then show ?thesis using n d inv by (cases p') (auto simp: idem_inv_def)
  qed
  have grow: "iw_owners w x = Some k \<Longrightarrow> draw_owner p' (iw_owners w) x = Some k" for x k
    using d by (auto simp: map_le_def dom_def)
  show ?thesis
    unfolding idem_inv_def using inv d held log now none grow
    by (auto simp: served(1) idem_inv_def intro: command_ok_grows phase_ok_grows)
next
  case (unserved i p c)
  then show ?thesis
    using inv by (auto simp: idem_inv_def key_held_def intro: sent_ok unserved_phase)
next
  case (respond i c u s d)
  then have "phase_ok (iw_owners w) (Handling c u)" using inv unfolding idem_inv_def by blast
  then have "command_ok ttl (iw_owners w) (idem_json ttl c u s d)" by (rule sent_ok(2))
  then show ?thesis using respond inv by (auto simp: idem_inv_def key_held_def)
next
  case (renew i c u)
  then have "phase_ok (iw_owners w) (Handling c u)" using inv unfolding idem_inv_def by blast
  then have "command_ok ttl (iw_owners w) (idem_renewal ttl c u)" by (rule sent_ok(3))
  then show ?thesis using renew inv by (auto simp: idem_inv_def key_held_def)
next
  case (late c r st')
  have ok: "command_ok ttl (iw_owners w) c" using inv late by (auto simp: idem_inv_def)
  have held: "iw_owners w x = Some k \<Longrightarrow> key_held ttl w' k x" for x k
    unfolding late(1) using inv by (intro command_keeps [OF ok late(3)]) (auto simp: idem_inv_def)
  have "holds_until ttl (effect_of (iw_now w) c r @ iw_log w) x = None" if "iw_owners w x = None" for x
    using ok inv that by (cases "(iw_now w, c, r)" rule: effect_of.cases) (auto simp: idem_inv_def)
  moreover have "Started t k x \<notin> set (effect_of (iw_now w) c r)" for t k x
    by (cases "(iw_now w, c, r)" rule: effect_of.cases) auto
  ultimately show ?thesis
    using inv held by (auto simp: late(1) idem_inv_def dest!: subsetD [OF set_remove1_subset])
next
  case (drop c)
  then show ?thesis using inv by (auto simp: idem_inv_def key_held_def dest!: subsetD [OF set_remove1_subset])
next
  case (die i p)
  then show ?thesis using inv by (auto simp: idem_inv_def key_held_def)
next
  case (pass_time d)
  then show ?thesis using inv by (fastforce simp: idem_inv_def key_held_def)
qed


definition let_go :: "int \<Rightarrow> idem_event list \<Rightarrow> string \<Rightarrow> millis \<Rightarrow> bool" where
  "let_go ttl es ow t \<longleftrightarrow> (case holds_until ttl es ow of None \<Rightarrow> True | Some u \<Rightarrow> u \<le> t)"

fun spaced :: "int \<Rightarrow> idem_event list \<Rightarrow> bool" where
  "spaced ttl [] = True"
| "spaced ttl (e # es) = (spaced ttl es \<and>
     (case e of Started t k ow \<Rightarrow> \<forall>t0 ow0. Started t0 k ow0 \<in> set es \<longrightarrow> let_go ttl es ow0 t | _ \<Rightarrow> True))"

lemma effect_spaced: "spaced ttl es \<Longrightarrow> spaced ttl (effect_of now c r @ es)"
  by (cases "(now, c, r)" rule: effect_of.cases) auto

lemma step_spaced:
  assumes inv: "idem_inv ttl w" and sp: "spaced ttl (iw_log w)" and st: "idem_step digest header ttl w w'"
  shows "spaced ttl (iw_log w')"
  using st
proof cases
  case (served i p c r st' u p')
  consider "start_of (iw_now w) p' = []" | kk ow where "start_of (iw_now w) p' = [Started (iw_now w) kk ow]"
    using start_phase by blast
  then show ?thesis
  proof cases
    case 1
    then show ?thesis using sp served(1) by simp
  next
    case (2 kk ow)
    then have free: "live_text (iw_now w) (iw_store w) kk = None"
      using started_here [OF served(3,4), of u "iw_now w" kk ow] served(6) by simp
    have "let_go ttl (iw_log w) ow0 (iw_now w)" if "Started t0 kk ow0 \<in> set (iw_log w)" for t0 ow0
    proof -
      have "iw_owners w ow0 = Some kk" using inv that unfolding idem_inv_def by blast
      then have "key_held ttl w kk ow0" using inv unfolding idem_inv_def by blast
      then show ?thesis
        using free by (cases "holds_until ttl (iw_log w) ow0"; cases "iw_store w kk")
          (auto simp: key_held_def let_go_def live_text_def not_less split: if_splits)
    qed
    then show ?thesis using sp 2 served(1) by simp
  qed
next
  case (late c r st')
  then show ?thesis using sp by (simp add: effect_spaced)
qed (use sp in simp_all)

lemma reachable_inv: "idem_reachable digest header ttl w \<Longrightarrow> idem_inv ttl w \<and> spaced ttl (iw_log w)"
proof (induction rule: idem_reachable.induct)
  case start
  then show ?case by (simp add: idem_inv_def)
next
  case (step w w')
  then show ?case using idem_inv_step step_spaced by blast
qed

lemma spaced_at: "spaced ttl (es @ Started t k ow # past) \<Longrightarrow> Started t0 k ow0 \<in> set past \<Longrightarrow> let_go ttl past ow0 t"
  by (induction es) auto

text \<open>C5: A key runs one handler at a time: whatever the interleaving of the requests, lost or late replies, dying processes and
  expiries, a handler starts only when every earlier handler of its key has been let go, that is its claim was released after a
  response that was not a success, its lease has run out without a renewal, or its stored response has outlived the retention.\<close>

theorem handlers_of_a_key_apart:
  assumes "idem_reachable digest header ttl w" and "iw_log w = es @ Started t k ow # past" and "Started t0 k ow0 \<in> set past"
  shows "let_go ttl past ow0 t"
  using spaced_at [OF _ assms(3)] reachable_inv [OF assms(1)] assms(2) by auto

subsection \<open>What is replayed\<close>

definition produced :: "idem_world \<Rightarrow> string \<Rightarrow> string \<Rightarrow> int \<Rightarrow> json \<Rightarrow> bool" where
  "produced w k h s d \<longleftrightarrow> successful s
     \<and> (\<exists>j c. iw_reqs w j = Some (Ended (Some c) (Responded s d)) \<and> ix_key c = k \<and> ix_hash c = h)"

definition text_known :: "idem_world \<Rightarrow> string \<Rightarrow> stored_text \<Rightarrow> bool" where
  "text_known w k v \<longleftrightarrow> (\<exists>h u. v = claim_value h u) \<or> (\<exists>h s d. v = completed_value h s d \<and> produced w k h s d)"

fun command_known :: "idem_world \<Rightarrow> redis_command \<Rightarrow> bool" where
  "command_known w (SET_NX k v secs) = text_known w k v"
| "command_known w (RENEW_IF_OWNER k v secs) = text_known w k v"
| "command_known w (COMPLETE_IF_OWNER k v v' secs) = text_known w k v'"
| "command_known w _ = True"

fun answer_known :: "idem_world \<Rightarrow> idem_phase \<Rightarrow> bool" where
  "answer_known w (Ended (Some c) (Replayed s d)) = (\<exists>n. s = jint n \<and> produced w (ix_key c) (ix_hash c) n d)"
| "answer_known w (Ended None (Replayed s d)) = False"
| "answer_known w _ = True"

definition replay_inv :: "idem_world \<Rightarrow> bool" where
  "replay_inv w \<longleftrightarrow> (\<forall>k v t. iw_store w k = Some (v, t) \<longrightarrow> text_known w k v) \<and> (\<forall>c \<in> set (iw_sent w). command_known w c)
     \<and> (\<forall>i p. iw_reqs w i = Some p \<longrightarrow> answer_known w p)"

lemma replayed: "text_known w k v \<Longrightarrow> replay_or_reject v h = Replayed s d \<Longrightarrow> \<exists>n. s = jint n \<and> produced w k h n d"
  by (auto simp: text_known_def replay_or_reject_def claim_value_def completed_value_def Let_def split: if_splits)

lemma found_bulk: "found (Bulk v) = Some x \<Longrightarrow> v = Some x"
  by (cases v) (auto split: if_splits)

lemma run_known:
  "run_command now c st = (r, st') \<Longrightarrow> command_known w c \<Longrightarrow> \<forall>k v t. st k = Some (v, t) \<longrightarrow> text_known w k v
     \<Longrightarrow> st' k = Some (v, t) \<Longrightarrow> text_known w k v"
  by (cases c) (auto split: if_splits)

lemma reply_known:
  assumes c: "idem_command ttl p = Some c" and run: "run_command now c st = (r, st')"
    and st: "\<forall>k v t. st k = Some (v, t) \<longrightarrow> text_known w k v"
  shows "answer_known w (idem_reply u p (Some r))"
proof -
  have get: "text_known w k v" if "live_text now st k = Some v" for k v using that st by (auto simp: live_text_Some)
  have "answer_known w (Ended (Some x) (replay_or_reject v (ix_hash x)))" if "live_text now st (ix_key x) = Some v" for x v
    using replayed [OF get [OF that]] by (cases "replay_or_reject v (ix_hash x)") auto
  then show ?thesis
    using c run by (cases p) (auto simp: unavailable_def dest!: found_bulk split: option.split if_splits)
qed


lemma unserved_known: "idem_command ttl p = Some c \<Longrightarrow> answer_known w (idem_reply [] p None)"
  by (cases p) (auto simp: unavailable_def)

lemma begin_known: "answer_known w (idem_begin digest header rq)"
  by (simp add: idem_begin_def)

lemma command_of_phase: "idem_command ttl p = Some c \<Longrightarrow> command_known w c \<and> in_flight p"
  by (cases p) (auto simp: text_known_def)

lemma produced_keeps:
  assumes st: "idem_step digest header ttl w w'" and pr: "produced w k h s d"
  shows "produced w' k h s d"
proof -
  obtain j c where j: "iw_reqs w j = Some (Ended (Some c) (Responded s d))" "ix_key c = k" "ix_hash c = h" "successful s"
    using pr by (auto simp: produced_def)
  have "iw_reqs w' j = Some (Ended (Some c) (Responded s d))"
    using st
  proof cases
    case (served i p c' r st' u p')
    then show ?thesis using j(1) command_of_phase [OF served(3)] by auto
  next
    case (unserved i p c')
    then show ?thesis using j(1) command_of_phase [OF unserved(3)] by auto
  qed (use j(1) in auto)
  then show ?thesis using j by (auto simp: produced_def)
qed

lemma known_keeps:
  assumes "idem_step digest header ttl w w'"
  shows "text_known w k v \<Longrightarrow> text_known w' k v" and "command_known w c \<Longrightarrow> command_known w' c" and "answer_known w p \<Longrightarrow> answer_known w' p"
proof -
  show t: "text_known w k v \<Longrightarrow> text_known w' k v" for k v
    using produced_keeps [OF assms] unfolding text_known_def by blast
  show "command_known w c \<Longrightarrow> command_known w' c" using t by (cases c) auto
  show "answer_known w p \<Longrightarrow> answer_known w' p"
    using produced_keeps [OF assms] by (cases "(w, p)" rule: answer_known.cases) auto
qed

lemma replay_inv_step:
  assumes inv: "replay_inv w" and st: "idem_step digest header ttl w w'"
  shows "replay_inv w'"
proof -
  note keeps = known_keeps [OF st]
  have s: "\<forall>k v t. iw_store w k = Some (v, t) \<longrightarrow> text_known w' k v" and c: "\<forall>c \<in> set (iw_sent w). command_known w' c"
    and a: "\<forall>i p. iw_reqs w i = Some p \<longrightarrow> answer_known w' p"
    using inv keeps by (auto simp: replay_inv_def)
  show ?thesis
    using st
  proof cases
    case (arrive i rq)
    then show ?thesis using s c a by (auto simp: replay_inv_def begin_known)
  next
    case (served i p c' r st' u p')
    have "iw_store w' k = Some (v, t) \<Longrightarrow> text_known w' k v" for k v t
      using run_known [OF served(4) _ s] command_of_phase [OF served(3)] served(1) by auto
    moreover have "answer_known w' p'" unfolding served(6) by (rule reply_known [OF served(3,4) s])
    ultimately show ?thesis using c a served(1) by (auto simp: replay_inv_def)
  next
    case (unserved i p c')
    then show ?thesis
      using s c a command_of_phase [OF unserved(3), of w'] unserved_known [OF unserved(3), of w'] by (auto simp: replay_inv_def)
  next
    case (respond i x u n d)
    have "successful n \<Longrightarrow> produced w' (ix_key x) (ix_hash x) n d" using respond by (auto simp: produced_def)
    then have "command_known w' (idem_json ttl x u n d)" by (auto simp: idem_json_def text_known_def)
    then show ?thesis using s c a respond by (auto simp: replay_inv_def)
  next
    case (renew i x u)
    have "command_known w' (idem_renewal ttl x u)" by (auto simp: idem_renewal_def text_known_def)
    then show ?thesis using s c a renew by (auto simp: replay_inv_def)
  next
    case (late c' r st')
    have "iw_store w' k = Some (v, t) \<Longrightarrow> text_known w' k v" for k v t
      using run_known [OF late(3) _ s] c late(1,2) by auto
    then show ?thesis using c a late(1) by (auto simp: replay_inv_def dest!: subsetD [OF set_remove1_subset])
  next
    case (drop c')
    then show ?thesis using s c a by (auto simp: replay_inv_def dest!: subsetD [OF set_remove1_subset])
  qed (use s c a in \<open>auto simp: replay_inv_def\<close>)
qed

lemma reachable_replays: "idem_reachable digest header ttl w \<Longrightarrow> replay_inv w"
proof (induction rule: idem_reachable.induct)
  case start
  then show ?case by (simp add: replay_inv_def)
next
  case (step w w')
  then show ?case using replay_inv_step by blast
qed


text \<open>The renewals come in time for every retention of two seconds or more; with one second the lease can run out before the first.\<close>

lemma renewal_in_time: "2 \<le> ttl \<longleftrightarrow> renewal_interval ttl < 1000 * in_progress_ttl ttl"
  by (auto simp: renewal_interval_def in_progress_ttl_def max_def min_def)


subsection \<open>Schedules\<close>

text \<open>A schedule names the next step of the system; \<open>run_schedule\<close> carries it out.\<close>

datatype idem_act = Arrive nat http_request | Serve nat string | Miss nat | Respond nat int json | Late nat | Pass int

fun run_act :: "((string \<times> json) list \<Rightarrow> string) \<Rightarrow> string \<Rightarrow> int \<Rightarrow> idem_act \<Rightarrow> idem_world \<Rightarrow> idem_world option" where
  "run_act digest header ttl (Arrive i rq) w =
     (if iw_reqs w i = None then Some (w\<lparr>iw_reqs := (iw_reqs w)(i \<mapsto> idem_begin digest header rq)\<rparr>) else None)"
| "run_act digest header ttl (Serve i u) w =
     (case iw_reqs w i of None \<Rightarrow> None | Some p \<Rightarrow>
        (case idem_command ttl p of None \<Rightarrow> None | Some c \<Rightarrow>
           (case run_command (iw_now w) c (iw_store w) of (r, st') \<Rightarrow>
             if iw_owners w u \<noteq> None then None
             else let p' = idem_reply u p (Some r) in
               Some (w\<lparr>iw_store := st', iw_reqs := (iw_reqs w)(i \<mapsto> p'), iw_owners := draw_owner p' (iw_owners w),
                 iw_log := start_of (iw_now w) p' @ iw_log w\<rparr>))))"
| "run_act digest header ttl (Miss i) w =
     (case iw_reqs w i of None \<Rightarrow> None | Some p \<Rightarrow>
        (case idem_command ttl p of None \<Rightarrow> None | Some c \<Rightarrow>
           Some (w\<lparr>iw_reqs := (iw_reqs w)(i \<mapsto> idem_reply [] p None), iw_sent := c # iw_sent w\<rparr>)))"
| "run_act digest header ttl (Respond i s d) w =
     (case iw_reqs w i of
        Some (Handling c ow) \<Rightarrow> Some (w\<lparr>iw_reqs := (iw_reqs w)(i \<mapsto> Ended (Some c) (Responded s d)),
          iw_sent := idem_json ttl c ow s d # iw_sent w\<rparr>)
      | _ \<Rightarrow> None)"
| "run_act digest header ttl (Late n) w =
     (if n < length (iw_sent w)
      then let c = iw_sent w ! n; (r, st') = run_command (iw_now w) c (iw_store w) in
        Some (w\<lparr>iw_store := st', iw_sent := remove1 c (iw_sent w), iw_log := effect_of (iw_now w) c r @ iw_log w\<rparr>)
      else None)"
| "run_act digest header ttl (Pass d) w = (if 0 \<le> d then Some (w\<lparr>iw_now := iw_now w + d\<rparr>) else None)"

lemma run_act_step: "run_act digest header ttl a w = Some w' \<Longrightarrow> idem_step digest header ttl w w'"
  by (cases a) (auto simp: Let_def intro: idem_step.intros split: if_splits option.splits prod.splits idem_phase.splits)

fun run_schedule :: "((string \<times> json) list \<Rightarrow> string) \<Rightarrow> string \<Rightarrow> int \<Rightarrow> idem_act list \<Rightarrow> idem_world \<Rightarrow> idem_world option" where
  "run_schedule digest header ttl [] w = Some w"
| "run_schedule digest header ttl (a # acts) w =
     (case run_act digest header ttl a w of None \<Rightarrow> None | Some w' \<Rightarrow> run_schedule digest header ttl acts w')"

lemma run_schedule_reachable:
  "idem_reachable digest header ttl w \<Longrightarrow> run_schedule digest header ttl acts w = Some w' \<Longrightarrow> idem_reachable digest header ttl w'"
proof (induction acts arbitrary: w)
  case (Cons a acts)
  then obtain w1 where "run_act digest header ttl a w = Some w1" "run_schedule digest header ttl acts w1 = Some w'"
    by (auto split: option.splits)
  then show ?case using Cons.IH idem_reachable.step [OF Cons.prems(1) run_act_step] by blast
qed simp

definition empty_world :: idem_world where
  "empty_world = \<lparr>iw_now = 0, iw_store = (\<lambda>_. None), iw_reqs = (\<lambda>_. None), iw_sent = [], iw_owners = (\<lambda>_. None), iw_log = []\<rparr>"

definition checkout_post :: http_request where
  "checkout_post = \<lparr>rq_method = ''POST'', rq_headers = (\<lambda>h. if h = ''idempotency-key'' then Some (Header ''k-1'') else None),
     rq_user_id = Some ''u1'', rq_base_url = ''/api/checkout'', rq_original_url = ''/api/checkout'', rq_url = ''/'',
     rq_body = Some [(''notes'', JStr ''x'')]\<rparr>"

definition post_ctx :: idem_ctx where
  "post_ctx = \<lparr>ix_key = ''idempotency:u1:/api/checkout:k-1'', ix_hash = ''h'', ix_body = True\<rparr>"

lemma post_begins: "idem_begin (\<lambda>_. ''h'') ''Idempotency-Key'' checkout_post = Reading post_ctx"
  by code_simp

text \<open>A handler fails and releases its claim, a retry succeeds, and a third request is answered from the store.\<close>

definition retry_schedule :: "idem_act list" where
  "retry_schedule = [Arrive 0 checkout_post, Serve 0 ''a'', Serve 0 ''x'', Respond 0 500 JNull, Late 0,
     Arrive 1 checkout_post, Serve 1 ''b'', Serve 1 ''x'', Respond 1 201 (JStr ''order''), Late 0,
     Arrive 2 checkout_post, Serve 2 ''x'']"

lemma retry_world:
  "\<exists>w. idem_reachable (\<lambda>_. ''h'') ''Idempotency-Key'' 86400 w
     \<and> iw_log w = [Completed 0 ''b'', Started 0 (ix_key post_ctx) ''b'', Released 0 ''a'', Started 0 (ix_key post_ctx) ''a'']
     \<and> iw_reqs w 2 = Some (Ended (Some post_ctx) (Replayed (jint 201) (JStr ''order'')))"
proof -
  have "idem_reachable (\<lambda>_. ''h'') ''Idempotency-Key'' 86400 empty_world"
    unfolding empty_world_def by (rule idem_reachable.start)
  then have reach: "run_schedule (\<lambda>_. ''h'') ''Idempotency-Key'' 86400 retry_schedule empty_world = Some w
      \<Longrightarrow> idem_reachable (\<lambda>_. ''h'') ''Idempotency-Key'' 86400 w" for w
    by (rule run_schedule_reachable)
  have "map_option (\<lambda>w. (iw_log w, iw_reqs w 2)) (run_schedule (\<lambda>_. ''h'') ''Idempotency-Key'' 86400 retry_schedule empty_world)
      = Some ([Completed 0 ''b'', Started 0 (ix_key post_ctx) ''b'', Released 0 ''a'', Started 0 (ix_key post_ctx) ''a''],
          Some (Ended (Some post_ctx) (Replayed (jint 201) (JStr ''order''))))"
    by code_simp
  then show ?thesis using reach by (simp only: map_option_eq_Some prod.inject) blast
qed


theorem handlers_of_a_key_apart_witness: "let_go 86400 [Released 0 ''a'', Started 0 (ix_key post_ctx) ''a''] ''a'' 0"
proof -
  obtain w where w: "idem_reachable (\<lambda>_. ''h'') ''Idempotency-Key'' 86400 w"
     "iw_log w = [Completed 0 ''b'', Started 0 (ix_key post_ctx) ''b'', Released 0 ''a'', Started 0 (ix_key post_ctx) ''a'']"
    using retry_world by blast
  show ?thesis
    by (rule handlers_of_a_key_apart [OF w(1), of "[Completed 0 ''b'']" 0 "ix_key post_ctx" "''b''" _ 0]) (simp_all add: w(2))
qed


end
