(* ===== verification/Http_Guards.thy ===== *)
theory Http_Guards
  imports Idempotency Auth_Service
begin

text \<open>
  What a request passes before a handler runs: \<^verbatim>\<open>shared/middlewares/trusted-edge.middleware.ts\<close>, \<^verbatim>\<open>csrf.middleware.ts\<close> with
  \<^verbatim>\<open>shared/utils/csrf-token.ts\<close>, \<^verbatim>\<open>auth.middleware.ts\<close>, \<^verbatim>\<open>rbac.middleware.ts\<close>, the settling of \<^verbatim>\<open>rate-limit.middleware.ts\<close> and
  the response of \<^verbatim>\<open>error-handler.middleware.ts\<close>. A middleware that calls \<^verbatim>\<open>next()\<close> is \<open>Inr\<close>, one that calls \<^verbatim>\<open>next(error)\<close> is
  \<open>Inl\<close>. A cookie is the JSON value that \<^verbatim>\<open>cookie-parser\<close> makes of it, which need not be a string.
\<close>

subsection \<open>Requests\<close>

record web_request =
  wr_method :: string
  wr_base_url :: "string option"
  wr_path :: "string option"
  wr_authorization :: "string option"
  wr_content_type :: "string option"
  wr_fetch_site :: "string option"
  wr_origin :: "string option"
  wr_csrf_header :: "header_value option"
  wr_edge_key :: "header_value option"
  wr_client_ip :: "header_value option"
  wr_ip :: "string option"
  wr_cookies :: "(string \<times> json) list"

definition cookie :: "string \<Rightarrow> web_request \<Rightarrow> json option" where
  "cookie k req = map_of (wr_cookies req) k"

fun json_truthy :: "json \<Rightarrow> bool" where
  "json_truthy JNull = False"
| "json_truthy (JBool b) = b"
| "json_truthy (JNum n) = (n \<noteq> NaN \<and> n \<noteq> Fin 0)"
| "json_truthy (JStr s) = (s \<noteq> [])"
| "json_truthy _ = True"

definition has_cookie :: "string \<Rightarrow> web_request \<Rightarrow> bool" where
  "has_cookie k req \<longleftrightarrow> (case cookie k req of None \<Rightarrow> False | Some v \<Rightarrow> json_truthy v)"

definition bearer_prefix :: "web_request \<Rightarrow> bool" where
  "bearer_prefix req \<longleftrightarrow> (case wr_authorization req of None \<Rightarrow> False | Some a \<Rightarrow> starts_with ''Bearer '' a)"

subsection \<open>The edge\<close>

definition trusted_edge :: "(string \<Rightarrow> string) \<Rightarrow> (string \<Rightarrow> bool) \<Rightarrow> string option \<Rightarrow> web_request \<Rightarrow> web_request option" where
  "trusted_edge digest is_ip secret req =
     (let bare = req\<lparr>wr_edge_key := None, wr_client_ip := None\<rparr> in
      case secret of
        None \<Rightarrow> Some bare
      | Some s \<Rightarrow>
          if s = [] then Some bare
          else (case (wr_edge_key req, wr_client_ip req) of
             (Some (Header key), Some (Header ip)) \<Rightarrow>
               if length key > 256 \<or> digest s \<noteq> digest key \<or> \<not> is_ip ip then None else Some (bare\<lparr>wr_ip := Some ip\<rparr>)
           | _ \<Rightarrow> None))"

subsection \<open>CSRF tokens\<close>

definition csrf_signature :: "auth_lib \<Rightarrow> auth_config \<Rightarrow> string \<Rightarrow> string \<Rightarrow> string" where
  "csrf_signature L C sid nonce = take 32 (hmac_hex L (JWT_REFRESH_SECRET C)
     (''triad:csrf:v1'' @ [CHR 0x00] @ show_nat (length sid) @ ''!'' @ sid @ ''!'' @ nonce))"

definition generate_csrf_token :: "auth_lib \<Rightarrow> auth_config \<Rightarrow> string \<Rightarrow> (auth_state, string) st_op" where
  "generate_csrf_token L C sid = dbind (draw (random_hex L)) (\<lambda>nonce. dret (nonce @ csrf_signature L C sid nonce))"

definition is_hex :: "char \<Rightarrow> bool" where
  "is_hex c \<longleftrightarrow> is_digit c \<or> (97 \<le> code_of c \<and> code_of c \<le> 102)"

definition csrf_form :: "string \<Rightarrow> bool" where
  "csrf_form t \<longleftrightarrow> length t = 64 \<and> list_all is_hex t"

text \<open>\<^verbatim>\<open>digest("hex")\<close> writes lower-case hexadecimal digits, so comparing the bytes is comparing the digits.\<close>

definition is_csrf_token_for_session :: "auth_lib \<Rightarrow> auth_config \<Rightarrow> string \<Rightarrow> string \<Rightarrow> bool" where
  "is_csrf_token_for_session L C token sid \<longleftrightarrow> csrf_form token \<and> drop 32 token = csrf_signature L C sid (take 32 token)"

definition read_csrf_session_id :: "auth_lib \<Rightarrow> json option \<Rightarrow> token_type \<Rightarrow> string option" where
  "read_csrf_session_id L token ty =
     (case token of
        Some (JStr t) \<Rightarrow>
          (case jwt_payload L t of
             JObj claims \<Rightarrow>
               if map_of claims ''tokenType'' \<noteq> Some (JStr (token_type_name ty)) then None
               else (case map_of claims (if ty = Access then ''sessionId'' else ''familyId'') of
                  Some (JStr sid) \<Rightarrow> if sid = [] then None else Some sid
                | _ \<Rightarrow> None)
           | _ \<Rightarrow> None)
      | _ \<Rightarrow> None)"

definition CSRF_COOKIE_NAME :: string where
  "CSRF_COOKIE_NAME = ''csrfToken''"

definition csrf_route :: "web_request \<Rightarrow> string" where
  "csrf_route req =
     (let url = (case wr_base_url req of None \<Rightarrow> [] | Some b \<Rightarrow> b) @ (case wr_path req of None \<Rightarrow> [] | Some p \<Rightarrow> p)
      in to_lower (rev (dropWhile (\<lambda>c. c = CHR ''/'') (rev url))))"

definition public_write_route :: "web_request \<Rightarrow> bool" where
  "public_write_route req \<longleftrightarrow> csrf_route req \<in> {''/api/auth/login'', ''/api/auth/register'', ''/api/auth/resend-verification'', ''/api/auth/verify-totp''}"

definition media_type :: "string \<Rightarrow> string" where
  "media_type s = to_lower (trim (takeWhile (\<lambda>c. c \<noteq> CHR '';'') s))"

definition uses_bearer_auth :: "web_request \<Rightarrow> bool" where
  "uses_bearer_auth req \<longleftrightarrow> bearer_prefix req \<and> 7 < length (the (wr_authorization req))"

definition csrf_session :: "auth_lib \<Rightarrow> web_request \<Rightarrow> string option" where
  "csrf_session L req =
     (let use_refresh = has_cookie ''refreshToken'' req \<and> (csrf_route req = ''/api/auth/refresh'' \<or> \<not> has_cookie ''accessToken'' req)
      in if use_refresh then read_csrf_session_id L (cookie ''refreshToken'' req) Refresh
         else read_csrf_session_id L (cookie ''accessToken'' req) Access)"

definition csrf_protection :: "auth_lib \<Rightarrow> auth_config \<Rightarrow> bool \<Rightarrow> web_request \<Rightarrow> error + unit" where
  "csrf_protection L C production req =
     (if wr_method req \<in> {''GET'', ''HEAD'', ''OPTIONS''} then Inr ()
      else if public_write_route req then
        if map_option media_type (wr_content_type req) \<noteq> Some ''application/json''
           \<or> production \<and> (wr_fetch_site req = Some ''cross-site'' \<or> wr_fetch_site req = Some ''same-site'')
             \<and> (wr_origin req = None \<or> wr_origin req = Some [])
        then Inl (ApplicationError (AuthorizationError ''Invalid public authentication request'')) else Inr ()
      else if uses_bearer_auth req \<or> \<not> (has_cookie ''accessToken'' req \<or> has_cookie ''refreshToken'' req) then Inr ()
      else case (cookie CSRF_COOKIE_NAME req, wr_csrf_header req, csrf_session L req) of
        (Some (JStr t), Some (Header h), Some sid) \<Rightarrow>
          if csrf_form t \<and> h \<noteq> [] \<and> t = h \<and> is_csrf_token_for_session L C t sid then Inr ()
          else Inl (ApplicationError (AuthorizationError ''Invalid or missing CSRF token''))
      | _ \<Rightarrow> Inl (ApplicationError (AuthorizationError ''Invalid or missing CSRF token'')))"

subsection \<open>Authentication and roles\<close>

record request_user =
  ru_id :: ident
  ru_email :: string
  ru_role :: role

definition request_token :: "web_request \<Rightarrow> json option" where
  "request_token req =
     (let bearer = (if bearer_prefix req then drop 7 (the (wr_authorization req)) else []) in
      if bearer \<noteq> [] then Some (JStr bearer)
      else if has_cookie ''accessToken'' req then cookie ''accessToken'' req else None)"

text \<open>\<^verbatim>\<open>jwt.verify\<close> rejects a token that is no string.\<close>

definition token_string :: "json \<Rightarrow> error + string" where
  "token_string v = (case v of JStr t \<Rightarrow> Inr t | _ \<Rightarrow> Inl (authentication_error ''Invalid token''))"

definition check_token :: "auth_lib \<Rightarrow> auth_config \<Rightarrow> millis \<Rightarrow> string \<Rightarrow> (auth_state, session_user option) st_op" where
  "check_token L C now token =
     dbind (dlift (verify_access_token L C now token)) (\<lambda>decoded.
     dbind (is_access_token_revoked L C now token) (\<lambda>revoked.
     if revoked then dthrow (authentication_error ''Token revoked'')
     else on_db (dget (find_session_user (ac_sub decoded)))))"

definition request_user_of :: "session_user \<Rightarrow> request_user" where
  "request_user_of u = \<lparr>ru_id = su_id u, ru_email = su_email u, ru_role = su_role u\<rparr>"

definition auth_middleware :: "auth_lib \<Rightarrow> auth_config \<Rightarrow> millis \<Rightarrow> web_request \<Rightarrow> (auth_state, request_user) st_op" where
  "auth_middleware L C now req =
     (case request_token req of
        None \<Rightarrow> dthrow (authentication_error ''No token provided'')
      | Some v \<Rightarrow>
          dbind (dlift (token_string v)) (\<lambda>token.
          dbind (check_token L C now token) (\<lambda>found.
          case found of
            None \<Rightarrow> dthrow (authentication_error ''User not found or not verified'')
          | Some u \<Rightarrow> if \<not> su_is_verified u then dthrow (authentication_error ''User not found or not verified'')
                      else dret (request_user_of u))))"

definition optional_auth_middleware :: "auth_lib \<Rightarrow> auth_config \<Rightarrow> millis \<Rightarrow> web_request \<Rightarrow> (auth_state, request_user option) st_op" where
  "optional_auth_middleware L C now req =
     (if \<not> bearer_prefix req then dret None
      else dcatch
        (dbind (check_token L C now (drop 7 (the (wr_authorization req)))) (\<lambda>found.
         dret (case found of None \<Rightarrow> None | Some u \<Rightarrow> if su_is_verified u then Some (request_user_of u) else None)))
        (\<lambda>e. if is_authentication_error e then dret None else dthrow e))"

definition require_role :: "role list \<Rightarrow> request_user option \<Rightarrow> error + unit" where
  "require_role roles user =
     (case user of
        None \<Rightarrow> Inl (authentication_error ''Authentication required'')
      | Some u \<Rightarrow> if ru_role u \<notin> set roles then Inl (ApplicationError (AuthorizationError ''Insufficient permissions'')) else Inr ())"

definition require_admin :: "request_user option \<Rightarrow> error + unit" where
  "require_admin = require_role [ADMIN]"

text \<open>The order of \<^verbatim>\<open>app.ts\<close> on an administration route: CSRF protection, authentication, role.\<close>

definition admin_pipeline :: "auth_lib \<Rightarrow> auth_config \<Rightarrow> bool \<Rightarrow> millis \<Rightarrow> web_request \<Rightarrow> (auth_state, request_user) st_op" where
  "admin_pipeline L C production now req =
     dbind (dlift (csrf_protection L C production req)) (\<lambda>_.
     dbind (auth_middleware L C now req) (\<lambda>u.
     dbind (dlift (require_admin (Some u))) (\<lambda>_. dret u)))"


subsection \<open>Rate limits\<close>

text \<open>The middleware around the limiter of \<^verbatim>\<open>express-rate-limit\<close>: it calls \<^verbatim>\<open>next\<close> once, when the limiter answers or at its deadline,
  and not at all once the response has ended.\<close>

datatype limiter_event = Answered "error option" | Thrown error | Deadline | Finished | Closed

record limiter_state =
  ls_settled :: bool
  ls_nexts :: "error option list"

definition limiter_finish :: "error option \<Rightarrow> limiter_state \<Rightarrow> limiter_state" where
  "limiter_finish e s = (if ls_settled s then s else \<lparr>ls_settled = True, ls_nexts = ls_nexts s @ [e]\<rparr>)"

definition rate_limit_timeout :: error where
  "rate_limit_timeout = ApplicationError (DependencyUnavailableError ''Rate limit store timed out'')"

fun limiter_step :: "limiter_event \<Rightarrow> limiter_state \<Rightarrow> limiter_state" where
  "limiter_step (Answered e) s = limiter_finish e s"
| "limiter_step (Thrown e) s = limiter_finish (Some e) s"
| "limiter_step Deadline s = limiter_finish (Some rate_limit_timeout) s"
| "limiter_step Finished s = s\<lparr>ls_settled := True\<rparr>"
| "limiter_step Closed s = s\<lparr>ls_settled := True\<rparr>"

definition request_ip :: "web_request \<Rightarrow> string" where
  "request_ip req = (case wr_ip req of None \<Rightarrow> ''unknown'' | Some ip \<Rightarrow> if ip = [] then ''unknown'' else ip)"

definition identity_digest :: "auth_lib \<Rightarrow> auth_config \<Rightarrow> string \<Rightarrow> string \<Rightarrow> string" where
  "identity_digest L C purpose v = hmac_hex L (JWT_ACCESS_SECRET C) (''triad:rate-limit:v1:'' @ purpose @ '':'' @ v)"

definition email_bucket :: "auth_lib \<Rightarrow> auth_config \<Rightarrow> json option \<Rightarrow> string" where
  "email_bucket L C raw =
     (case raw of
        Some (JStr s) \<Rightarrow> (let n = to_lower (trim s) in if n = [] then ''missing'' else identity_digest L C ''email'' n)
      | _ \<Rightarrow> ''missing'')"

definition preauth_bucket :: "auth_lib \<Rightarrow> auth_config \<Rightarrow> json option \<Rightarrow> string" where
  "preauth_bucket L C raw =
     (case raw of Some (JStr s) \<Rightarrow> if s = [] then ''missing'' else identity_digest L C ''preauth'' s | _ \<Rightarrow> ''missing'')"

definition auth_limit_key :: "auth_lib \<Rightarrow> auth_config \<Rightarrow> web_request \<Rightarrow> json option \<Rightarrow> string" where
  "auth_limit_key L C req email = request_ip req @ '':'' @ email_bucket L C email"

definition totp_limit_key :: "auth_lib \<Rightarrow> auth_config \<Rightarrow> web_request \<Rightarrow> json option \<Rightarrow> string" where
  "totp_limit_key L C req token = request_ip req @ '':'' @ preauth_bucket L C token"

text \<open>Spelling an address in another way does not open a new budget.\<close>

lemma email_bucket_spelling: "email_bucket L C (Some (JStr (to_upper s))) = email_bucket L C (Some (JStr s))"
proof -
  have "to_lower_char (to_upper_char c) = to_lower_char c" for c
    by (auto simp: to_lower_char_def to_upper_char_def is_upper_def is_lower_def) (simp_all add: code_of_def)
  then have "to_lower (trim (to_upper s)) = to_lower (trim s)"
    by (simp add: trim_to_upper) (simp add: to_lower_def to_upper_def)
  then show ?thesis by (simp add: email_bucket_def)
qed

lemma limiter_settles: "length (ls_nexts s) \<le> (if ls_settled s then 1 else 0) \<Longrightarrow>
   length (ls_nexts (fold limiter_step es s)) \<le> (if ls_settled (fold limiter_step es s) then 1 else 0)"
proof (induction es arbitrary: s)
  case (Cons e es)
  have "length (ls_nexts (limiter_step e s)) \<le> (if ls_settled (limiter_step e s) then 1 else 0)"
    using Cons.prems by (cases e) (auto simp: limiter_finish_def split: if_splits)
  then show ?case using Cons.IH by simp
qed simp

lemma limiter_keeps_settled: "ls_settled s \<Longrightarrow> ls_settled (fold limiter_step es s) \<and> ls_nexts (fold limiter_step es s) = ls_nexts s"
proof (induction es arbitrary: s)
  case (Cons e es)
  then have "ls_settled (limiter_step e s) \<and> ls_nexts (limiter_step e s) = ls_nexts s"
    by (cases e) (auto simp: limiter_finish_def)
  then show ?case using Cons.IH [of "limiter_step e s"] by simp
qed simp

text \<open>By the deadline the request has gone on, or has failed closed, or its response has ended.\<close>

lemma limiter_deadline: "Deadline \<in> set es \<Longrightarrow> ls_settled (fold limiter_step es s)"
proof (induction es arbitrary: s)
  case (Cons e es)
  show ?case
  proof (cases "e = Deadline")
    case True
    then have "ls_settled (limiter_step e s)" by (simp add: limiter_finish_def)
    then show ?thesis using limiter_keeps_settled by simp
  next
    case False
    then show ?thesis using Cons by simp
  qed
qed simp

subsection \<open>Error responses\<close>

definition DOMAIN_ERROR_STATUS_MAP :: "(string \<times> nat) list" where
  "DOMAIN_ERROR_STATUS_MAP =
     [(''ORDER.NOT_MUTABLE'', 409), (''ORDER.INVALID_ITEM'', 400), (''ORDER.INVALID_DISCOUNT'', 400), (''ORDER.EMPTY'', 400),
      (''ORDER.ALREADY_PLACED'', 409), (''ORDER.INVALID_TRANSITION'', 409), (''ORDER.NOT_CANCELLABLE'', 409),
      (''CART.INVALID_QUANTITY'', 400), (''CART.ITEM_NOT_FOUND'', 404), (''PRODUCT.INVALID_PRICE'', 400),
      (''PRODUCT.INSUFFICIENT_STOCK'', 409), (''PRODUCT.INVALID_STOCK_QUANTITY'', 400), (''PRODUCT.ALREADY_ACTIVE'', 409),
      (''PRODUCT.ALREADY_INACTIVE'', 409), (''USER.ALREADY_VERIFIED'', 409), (''USER.2FA_ALREADY_ENABLED'', 409),
      (''USER.2FA_NOT_SET_UP'', 409), (''USER.2FA_NOT_ENABLED'', 409), (''USER.INVALID_STATE'', 400), (''USER.WEAK_PASSWORD'', 400)]"

definition APPLICATION_ERROR_STATUS_MAP :: "(string \<times> nat) list" where
  "APPLICATION_ERROR_STATUS_MAP =
     [(''APPLICATION.VALIDATION'', 400), (''APPLICATION.AUTHENTICATION'', 401), (''APPLICATION.AUTHORIZATION'', 403),
      (''APPLICATION.NOT_FOUND'', 404), (''APPLICATION.CONFLICT'', 409), (''APPLICATION.UNPROCESSABLE'', 422),
      (''APPLICATION.RATE_LIMIT'', 429), (''APPLICATION.DEPENDENCY_UNAVAILABLE'', 503)]"

definition status_or :: "nat \<Rightarrow> (string \<times> nat) list \<Rightarrow> string \<Rightarrow> nat" where
  "status_or d m c = (case map_of m c of None \<Rightarrow> d | Some s \<Rightarrow> s)"

datatype error_details = Context "(string \<times> string) list" | Issues "(string \<times> string) list"

record error_response =
  er_status :: nat
  er_error :: string
  er_code :: "string option"
  er_details :: "error_details option"

fun join_path :: "string list \<Rightarrow> string" where
  "join_path [] = []"
| "join_path [p] = p"
| "join_path (p # q # ps) = p @ ''.'' @ join_path (q # ps)"

definition persistence_response :: "persistence_error_kind \<Rightarrow> error_response" where
  "persistence_response k = (case k of
      UNIQUE_CONSTRAINT \<Rightarrow> \<lparr>er_status = 409, er_error = ''Duplicate entry'', er_code = None, er_details = None\<rparr>
    | NOT_FOUND \<Rightarrow> \<lparr>er_status = 404, er_error = ''Record not found'', er_code = None, er_details = None\<rparr>
    | TRANSACTION_CONFLICT \<Rightarrow> \<lparr>er_status = 409, er_error = ''Transaction conflict, please retry'',
        er_code = Some ''RETRYABLE_CONFLICT'', er_details = None\<rparr>
    | VALIDATION \<Rightarrow> \<lparr>er_status = 400, er_error = ''Invalid data provided'', er_code = None, er_details = None\<rparr>
    | DATABASE \<Rightarrow> \<lparr>er_status = 400, er_error = ''Database error'', er_code = None, er_details = None\<rparr>)"

definition handle_error :: "error \<Rightarrow> error_response" where
  "handle_error e = (case e of
      EntityTooLarge \<Rightarrow> \<lparr>er_status = 413, er_error = ''Request payload too large'', er_code = None, er_details = None\<rparr>
    | DomainError d \<Rightarrow> \<lparr>er_status = status_or 400 DOMAIN_ERROR_STATUS_MAP (domain_code d), er_error = domain_message d,
        er_code = Some (domain_code d), er_details = map_option Context (domain_context d)\<rparr>
    | ApplicationError a \<Rightarrow> \<lparr>er_status = status_or 500 APPLICATION_ERROR_STATUS_MAP (application_code a), er_error = application_message a,
        er_code = Some (application_code a), er_details = None\<rparr>
    | ZodError is \<Rightarrow> \<lparr>er_status = 400, er_error = ''Validation failed'', er_code = None,
        er_details = Some (Issues (map (\<lambda>(p, m). (join_path p, m)) is))\<rparr>
    | JsonWebTokenError \<Rightarrow> \<lparr>er_status = 401, er_error = ''Invalid or expired token'', er_code = None, er_details = None\<rparr>
    | TokenExpiredError \<Rightarrow> \<lparr>er_status = 401, er_error = ''Invalid or expired token'', er_code = None, er_details = None\<rparr>
    | _ \<Rightarrow> (case classify_prisma_error e of
        Some k \<Rightarrow> persistence_response k
      | None \<Rightarrow> \<lparr>er_status = 500, er_error = ''Internal server error'', er_code = None, er_details = None\<rparr>))"

definition correlation_char :: "char \<Rightarrow> bool" where
  "correlation_char c \<longleftrightarrow> is_upper c \<or> is_lower c \<or> is_digit c \<or> c \<in> set ''._:-''"

text \<open>\<open>fresh\<close> is the identifier made of the clock and a random number.\<close>

definition sanitize_correlation_id :: "string \<Rightarrow> header_value option \<Rightarrow> string" where
  "sanitize_correlation_id fresh v =
     (let candidate = (case v of None \<Rightarrow> None | Some (Header s) \<Rightarrow> Some s | Some (Headers []) \<Rightarrow> None | Some (Headers (s # _)) \<Rightarrow> Some s)
      in case candidate of
        Some s \<Rightarrow> if 1 \<le> length s \<and> length s \<le> 128 \<and> list_all correlation_char s then s else fresh
      | None \<Rightarrow> fresh)"

text \<open>The table is complete: no domain error falls back to the default, and no error of either hierarchy is a 500.\<close>

lemma domain_status_listed: "domain_code d \<in> fst ` set DOMAIN_ERROR_STATUS_MAP"
  by (cases d) (simp_all add: DOMAIN_ERROR_STATUS_MAP_def)

lemma hierarchy_is_no_500: "er_status (handle_error (ApplicationError a)) \<noteq> 500"
  by (cases a) (simp_all add: handle_error_def status_or_def APPLICATION_ERROR_STATUS_MAP_def)

text \<open>What an error of another kind says stays on the server.\<close>

lemma response_is_closed:
  assumes "\<not> is_domain_error e" and "\<forall>a. e \<noteq> ApplicationError a"
  shows "er_error (handle_error e) \<in> {''Request payload too large'', ''Validation failed'', ''Invalid or expired token'', ''Duplicate entry'',
     ''Record not found'', ''Transaction conflict, please retry'', ''Invalid data provided'', ''Database error'', ''Internal server error''}"
  using assms
  by (cases e) (simp_all add: handle_error_def classify_prisma_error_def persistence_response_def)


subsection \<open>What a guarded request has shown\<close>

lemma auth_middleware_E:
  assumes "auth_middleware L C now req s = (Inr u, s')"
  obtains token c row where "request_token req = Some (JStr token)" and "verify_access_token L C now token = Inr c"
    and "fst (is_access_token_revoked L C now token s) = Inr False"
    and "row \<in> set (users (au_db s))" and "ur_id row = ac_sub c" and "ur_is_verified row"
    and "u = \<lparr>ru_id = ur_id row, ru_email = ur_email row, ru_role = ur_role row\<rparr>"
proof -
  obtain v where v: "request_token req = Some v"
    using assms by (cases "request_token req") (auto simp: auth_middleware_def db_monad)
  have "dbind (dlift (token_string v)) (\<lambda>token. dbind (check_token L C now token) (\<lambda>found.
      case found of None \<Rightarrow> dthrow (authentication_error ''User not found or not verified'')
      | Some u \<Rightarrow> if \<not> su_is_verified u then dthrow (authentication_error ''User not found or not verified'') else dret (request_user_of u))) s
    = (Inr u, s')"
    using assms v by (simp add: auth_middleware_def)
  then obtain token s1 where t: "dlift (token_string v) s = (Inr token, s1)" and
      rest: "dbind (check_token L C now token) (\<lambda>found. case found of None \<Rightarrow> dthrow (authentication_error ''User not found or not verified'')
      | Some u \<Rightarrow> if \<not> su_is_verified u then dthrow (authentication_error ''User not found or not verified'') else dret (request_user_of u)) s1 = (Inr u, s')"
    by (rule dbind_Inr_E)
  have v': "v = JStr token" "s1 = s" using t by (auto simp: db_monad token_string_def split: json.splits)
  obtain found s2 where c: "check_token L C now token s = (Inr found, s2)" and
      f: "(case found of None \<Rightarrow> dthrow (authentication_error ''User not found or not verified'')
      | Some u \<Rightarrow> if \<not> su_is_verified u then dthrow (authentication_error ''User not found or not verified'') else dret (request_user_of u)) s2 = (Inr u, s')"
    using rest v'(2) by (auto elim: dbind_Inr_E)
  obtain w where w: "found = Some w" "su_is_verified w" "u = request_user_of w"
    using f by (cases found) (auto simp: db_monad split: if_splits)
  obtain d where d: "verify_access_token L C now token = Inr d"
      "dbind (is_access_token_revoked L C now token) (\<lambda>revoked. if revoked then dthrow (authentication_error ''Token revoked'')
       else on_db (dget (find_session_user (ac_sub d)))) s = (Inr found, s2)"
    using c by (auto simp: check_token_def db_monad elim: dbind_Inr_E)
  obtain b s3 where b: "is_access_token_revoked L C now token s = (Inr b, s3)"
      "(if b then dthrow (authentication_error ''Token revoked'') else on_db (dget (find_session_user (ac_sub d)))) s3 = (Inr found, s2)"
    using d(2) by (rule dbind_Inr_E)
  have b': "\<not> b" "find_session_user (ac_sub d) (au_db s3) = found"
    using b(2) by (auto simp: on_db_def db_monad split: if_splits)
  have "au_db s3 = au_db s"
    using b(1) by (auto simp: is_access_token_revoked_def fail_closed_def dcatch_def on_store_def dbind_def db_monad split: sum.splits prod.splits)
  then obtain row where row: "find_user (ac_sub d) (au_db s) = Some row" "w = \<lparr>su_id = ur_id row, su_email = ur_email row, su_role = ur_role row,
      su_is_verified = ur_is_verified row\<rparr>"
    using b'(2) w(1) by (auto simp: find_session_user_def)
  have "row \<in> set (users (au_db s))" "ur_id row = ac_sub d"
    using row(1) by (auto simp: find_user_def dest: find_by_SomeD)
  then show thesis
    using that [of token d row] v v'(1) d(1) b(1) b'(1) row(2) w(2,3) by (simp add: request_user_of_def)
qed

lemma cookie_token: "\<not> uses_bearer_auth req \<Longrightarrow> request_token req = Some v \<Longrightarrow> has_cookie ''accessToken'' req \<and> cookie ''accessToken'' req = Some v"
  by (auto simp: request_token_def uses_bearer_auth_def Let_def split: if_splits)

lemma read_access_session:
  "read_csrf_session_id L (Some (JStr t)) Access = Some sid \<Longrightarrow> ac_session_id (read_access_claims (jwt_payload L t)) = Some sid"
  by (auto simp: read_csrf_session_id_def read_access_claims_def Let_def str_of_def split: json.splits if_splits option.splits)

text \<open>C18: A write that is authenticated by the access cookie has proved that it comes from a page of the session: outside the four public
  routes and the refresh route, a request that is no GET, HEAD or OPTIONS and sends no bearer token reaches its handler only if the access
  token is valid and the CSRF cookie equals the CSRF header and carries the signature of the session the token belongs to.\<close>

theorem cookie_write_is_bound_to_session:
  assumes "jwt_decodes L" and "wr_method req \<notin> {''GET'', ''HEAD'', ''OPTIONS''}" and "\<not> public_write_route req" and "csrf_route req \<noteq> ''/api/auth/refresh''"
    and "\<not> uses_bearer_auth req" and "csrf_protection L C production req = Inr ()" and "auth_middleware L C now req s = (Inr u, s')"
  shows "\<exists>token c sid t. cookie ''accessToken'' req = Some (JStr token) \<and> verify_access_token L C now token = Inr c \<and> ac_session_id c = Some sid
    \<and> cookie CSRF_COOKIE_NAME req = Some (JStr t) \<and> wr_csrf_header req = Some (Header t) \<and> drop 32 t = csrf_signature L C sid (take 32 t)"
proof -
  obtain token c where t: "request_token req = Some (JStr token)" "verify_access_token L C now token = Inr c"
    using assms(7) by (rule auth_middleware_E)
  have k: "has_cookie ''accessToken'' req" "cookie ''accessToken'' req = Some (JStr token)"
    using cookie_token [OF assms(5) t(1)] by auto
  have sess: "csrf_session L req = read_csrf_session_id L (Some (JStr token)) Access"
    using k assms(4) by (simp add: csrf_session_def)
  obtain x h sid where x: "cookie CSRF_COOKIE_NAME req = Some (JStr x)" "wr_csrf_header req = Some (Header h)" "csrf_session L req = Some sid"
      "x = h" "is_csrf_token_for_session L C x sid"
    using assms(2,3,5,6) k(1) unfolding csrf_protection_def
    by (auto split: option.splits json.splits header_value.splits if_splits)
  have "c = read_access_claims (jwt_payload L token)" using verify_access_type [OF t(2) assms(1)] by simp
  then have "ac_session_id c = Some sid" using read_access_session x(3) sess by simp
  then show ?thesis
    using k(2) t(2) x by (auto simp: is_csrf_token_for_session_def)
qed

text \<open>C19: An administration handler runs only for a request whose token verifies, is not revoked when it is asked for, and belongs to a user
  whose row in the database is verified and has the role ADMIN at that moment, whatever role the token was issued with.\<close>

theorem admin_request_is_authorized:
  assumes "admin_pipeline L C production now req s = (Inr u, s')"
  shows "\<exists>token c row. request_token req = Some (JStr token) \<and> verify_access_token L C now token = Inr c
    \<and> fst (is_access_token_revoked L C now token s) = Inr False
    \<and> row \<in> set (users (au_db s)) \<and> ur_id row = ac_sub c \<and> ur_id row = ru_id u \<and> ur_is_verified row \<and> ur_role row = ADMIN"
proof -
  obtain s1 where a: "auth_middleware L C now req s = (Inr u, s1)" "require_admin (Some u) = Inr ()"
    using assms by (auto simp: admin_pipeline_def db_monad elim!: dbind_Inr_E)
  obtain token c row where r: "request_token req = Some (JStr token)" "verify_access_token L C now token = Inr c"
    "fst (is_access_token_revoked L C now token s) = Inr False" "row \<in> set (users (au_db s))" "ur_id row = ac_sub c" "ur_is_verified row"
    "u = \<lparr>ru_id = ur_id row, ru_email = ur_email row, ru_role = ur_role row\<rparr>"
    using a(1) by (rule auth_middleware_E)
  have "ur_role row = ADMIN" using a(2) r(7) by (simp add: require_admin_def require_role_def split: if_splits)
  then show ?thesis using r by auto
qed


subsection \<open>Examples\<close>

definition guard_lib :: auth_lib where
  "guard_lib = sample_lib\<lparr>hmac_hex := (\<lambda>k m. replicate 64 CHR ''0'')\<rparr>"

definition admin_token :: string where
  "admin_token = ''sig=a;tokenType=access;jti=u7;iss=triad;aud=access;sub=ann;email=ann@x.io;role=USER;sessionId=f1;exp=905''"

definition admin_state :: auth_state where
  "admin_state = sample_auth\<lparr>au_db := empty_db\<lparr>users := [ann\<lparr>ur_role := ADMIN\<rparr>]\<rparr>\<rparr>"

definition admin_csrf :: string where
  "admin_csrf = replicate 32 CHR ''a'' @ replicate 32 CHR ''0''"

definition admin_request :: web_request where
  "admin_request = \<lparr>wr_method = ''POST'', wr_base_url = Some '''', wr_path = Some ''/api/products/admin'', wr_authorization = None,
     wr_content_type = Some ''application/json'', wr_fetch_site = None, wr_origin = None, wr_csrf_header = Some (Header admin_csrf),
     wr_edge_key = None, wr_client_ip = None, wr_ip = Some ''1.2.3.4'',
     wr_cookies = [(''accessToken'', JStr admin_token), (''csrfToken'', JStr admin_csrf)]\<rparr>"

lemma guard_lib_decodes: "jwt_decodes guard_lib"
  using sample_lib_decodes by (simp add: jwt_decodes_def guard_lib_def)

lemma admin_passes_csrf: "csrf_protection guard_lib sample_auth_config True admin_request = Inr ()"
  by code_simp

lemma admin_passes_auth: "ok (fst (auth_middleware guard_lib sample_auth_config 6000 admin_request admin_state))"
  by code_simp

lemma admin_passes: "ok (fst (admin_pipeline guard_lib sample_auth_config True 6000 admin_request admin_state))"
  by code_simp

theorem cookie_write_is_bound_to_session_witness:
  "\<exists>token c sid t. cookie ''accessToken'' admin_request = Some (JStr token) \<and> verify_access_token guard_lib sample_auth_config 6000 token = Inr c
    \<and> ac_session_id c = Some sid \<and> cookie CSRF_COOKIE_NAME admin_request = Some (JStr t) \<and> wr_csrf_header admin_request = Some (Header t)
    \<and> drop 32 t = csrf_signature guard_lib sample_auth_config sid (take 32 t)"
proof -
  have "wr_method admin_request \<notin> {''GET'', ''HEAD'', ''OPTIONS''}" "\<not> public_write_route admin_request"
    "csrf_route admin_request \<noteq> ''/api/auth/refresh''" "\<not> uses_bearer_auth admin_request"
    by code_simp+
  then show ?thesis
    by (rule cookie_write_is_bound_to_session [OF guard_lib_decodes _ _ _ _ admin_passes_csrf run_Inr [OF admin_passes_auth]])
qed

theorem admin_request_is_authorized_witness:
  "\<exists>token c row. request_token admin_request = Some (JStr token) \<and> verify_access_token guard_lib sample_auth_config 6000 token = Inr c
    \<and> fst (is_access_token_revoked guard_lib sample_auth_config 6000 token admin_state) = Inr False
    \<and> row \<in> set (users (au_db admin_state)) \<and> ur_id row = ac_sub c
    \<and> ur_id row = ru_id (projr (fst (admin_pipeline guard_lib sample_auth_config True 6000 admin_request admin_state)))
    \<and> ur_is_verified row \<and> ur_role row = ADMIN"
  by (rule admin_request_is_authorized [OF run_Inr [OF admin_passes]])

end
