(* ===== verification/Cart_Service.thy ===== *)
theory Cart_Service
  imports Checkout
begin

text \<open>
  The cart: \<^verbatim>\<open>modules/cart/cart.service.ts\<close> on \<^verbatim>\<open>prisma-cart.repository.ts\<close>. The statements of an operation are not one
  transaction: \<open>intf n\<close> is what other requests commit before its statement number \<open>n\<close>.
\<close>

subsection \<open>Repository\<close>

definition foreign_key_violation :: error where
  "foreign_key_violation = PrismaKnownRequestError ''P2003''"

record cart_line_view =
  cl_item :: cart_item_row
  cl_product :: product_row
  cl_price :: js_num

definition cart_line_view_of :: "database \<Rightarrow> cart_item_row \<Rightarrow> error + cart_line_view" where
  "cart_line_view_of db i =
     (case find_product (cir_product_id i) db of
        None \<Rightarrow> Inl (PlainError ''Inconsistent query result'')
      | Some p \<Rightarrow> rbind (money_column (prow_price p)) (\<lambda>price. Inr \<lparr>cl_item = i, cl_product = p, cl_price = price\<rparr>))"

record cart_with_items =
  cw_cart :: cart_row
  cw_items :: "cart_line_view list"

definition cart_with_items_of :: "database \<Rightarrow> cart_row \<Rightarrow> error + cart_with_items" where
  "cart_with_items_of db c =
     rbind (rmap (cart_line_view_of db) (items_of_cart (cr_id c) db)) (\<lambda>items. Inr \<lparr>cw_cart = c, cw_items = items\<rparr>)"

definition find_cart_with_items :: "ident \<Rightarrow> cart_with_items option db_op" where
  "find_cart_with_items uid db =
     (case find_cart_of uid db of
        None \<Rightarrow> dret None db
      | Some c \<Rightarrow> dlift (rbind (cart_with_items_of db c) (\<lambda>v. Inr (Some v))) db)"

definition find_cart_by_user_id :: "ident \<Rightarrow> cart_row option db_op" where
  "find_cart_by_user_id uid = dget (find_cart_of uid)"

definition create_cart :: "env \<Rightarrow> ident \<Rightarrow> cart_row db_op" where
  "create_cart E uid db =
     (let c = \<lparr>cr_id = gen_id E (id_supply db), cr_user_id = uid\<rparr> in
      if list_ex (\<lambda>r. cr_user_id r = uid \<or> cr_id r = cr_id c) (carts db) then (Inl unique_violation, db)
      else if find_user uid db = None then (Inl foreign_key_violation, db)
      else (Inr c, db\<lparr>carts := carts db @ [c], id_supply := id_supply db + 1\<rparr>))"

definition create_cart_with_items :: "env \<Rightarrow> ident \<Rightarrow> cart_with_items db_op" where
  "create_cart_with_items E uid = dbind (create_cart E uid) (\<lambda>c. dbind (dget (\<lambda>db. cart_with_items_of db c)) dlift)"

definition find_product_stock_info :: "ident \<Rightarrow> (ident \<times> int \<times> string) option db_op" where
  "find_product_stock_info pid = dget (\<lambda>db. map_option (\<lambda>p. (prow_id p, prow_stock p, prow_name p)) (find_product pid db))"

definition line_at :: "ident \<Rightarrow> ident \<Rightarrow> database \<Rightarrow> cart_item_row option" where
  "line_at cid pid db = find (\<lambda>i. cir_cart_id i = cid \<and> cir_product_id i = pid) (cart_items db)"

definition find_cart_item :: "ident \<Rightarrow> ident \<Rightarrow> cart_item_row option db_op" where
  "find_cart_item cid pid = dget (line_at cid pid)"

definition create_cart_item :: "env \<Rightarrow> ident \<Rightarrow> ident \<Rightarrow> int \<Rightarrow> cart_line_view db_op" where
  "create_cart_item E cid pid q db =
     (let i = \<lparr>cir_id = gen_id E (id_supply db), cir_cart_id = cid, cir_product_id = pid, cir_quantity = q\<rparr> in
      if line_at cid pid db \<noteq> None \<or> list_ex (\<lambda>r. cir_id r = cir_id i) (cart_items db) then (Inl unique_violation, db)
      else if find_product pid db = None \<or> find_by cr_id cid (carts db) = None then (Inl foreign_key_violation, db)
      else let db' = db\<lparr>cart_items := cart_items db @ [i], id_supply := id_supply db + 1\<rparr>
           in (cart_line_view_of db' i, db'))"

definition update_cart_item_quantity :: "ident \<Rightarrow> int \<Rightarrow> cart_line_view db_op" where
  "update_cart_item_quantity iid q db =
     (case find_by cir_id iid (cart_items db) of
        None \<Rightarrow> (Inl record_not_found, db)
      | Some i \<Rightarrow> let db' = db\<lparr>cart_items := update_by cir_id iid (\<lambda>r. r\<lparr>cir_quantity := q\<rparr>) (cart_items db)\<rparr>
          in (cart_line_view_of db' (i\<lparr>cir_quantity := q\<rparr>), db'))"

definition delete_cart_item :: "ident \<Rightarrow> unit db_op" where
  "delete_cart_item iid db =
     (if find_by cir_id iid (cart_items db) = None then (Inl record_not_found, db)
      else (Inr (), db\<lparr>cart_items := delete_by cir_id iid (cart_items db)\<rparr>))"

definition delete_cart_items_by_cart_id :: "ident \<Rightarrow> nat db_op" where
  "delete_cart_items_by_cart_id cid db =
     (Inr (count_where (\<lambda>i. cir_cart_id i = cid) (cart_items db)),
      db\<lparr>cart_items := delete_where (\<lambda>i. cir_cart_id i = cid) (cart_items db)\<rparr>)"

subsection \<open>The service\<close>

definition at_statement :: "(nat \<Rightarrow> database \<Rightarrow> database) \<Rightarrow> nat \<Rightarrow> 'a db_op \<Rightarrow> 'a db_op" where
  "at_statement intf n m = dbind (dupdate (intf n)) (\<lambda>_. m)"

definition get_cart :: "env \<Rightarrow> (nat \<Rightarrow> database \<Rightarrow> database) \<Rightarrow> ident \<Rightarrow> cart_with_items db_op" where
  "get_cart E intf uid =
     dbind (at_statement intf 0 (find_cart_with_items uid)) (\<lambda>found.
     case found of Some c \<Rightarrow> dret c | None \<Rightarrow> at_statement intf 1 (create_cart_with_items E uid))"

definition get_or_create_cart :: "env \<Rightarrow> (nat \<Rightarrow> database \<Rightarrow> database) \<Rightarrow> ident \<Rightarrow> cart_row db_op" where
  "get_or_create_cart E intf uid =
     dbind (at_statement intf 1 (find_cart_by_user_id uid)) (\<lambda>found.
     case found of Some c \<Rightarrow> dret c | None \<Rightarrow> at_statement intf 2 (create_cart E uid))"

definition add_item :: "env \<Rightarrow> (nat \<Rightarrow> database \<Rightarrow> database) \<Rightarrow> ident \<Rightarrow> ident \<Rightarrow> js_num \<Rightarrow> cart_line_view db_op" where
  "add_item E intf uid pid quantity =
     (if \<not> is_safe_integer quantity \<or> \<not> js_less (Fin 0) quantity
      then dthrow (validation_error ''Quantity must be a positive safe integer'')
      else dbind (at_statement intf 0 (find_product_stock_info pid)) (\<lambda>info.
        case info of
          None \<Rightarrow> dthrow (not_found_error ''Product not found'')
        | Some (_, stock, _) \<Rightarrow>
            if js_less (num_of_int stock) quantity
            then dthrow (validation_error (''Not enough stock. Available: '' @ show_int stock))
            else dbind (get_or_create_cart E intf uid) (\<lambda>c.
                 dbind (at_statement intf 3 (find_cart_item (cr_id c) pid)) (\<lambda>existing.
                 case existing of
                   Some i \<Rightarrow>
                     (let new = js_add (num_of_int (cir_quantity i)) quantity in
                      if \<not> is_safe_integer new then dthrow (validation_error ''Cart quantity exceeds safe integer range'')
                      else if js_less (num_of_int stock) new
                      then dthrow (validation_error (''Cannot add more than '' @ show_int stock @ '' items''))
                      else at_statement intf 4 (update_cart_item_quantity (cir_id i) (int_of_num new)))
                 | None \<Rightarrow> at_statement intf 4 (create_cart_item E (cr_id c) pid (int_of_num quantity))))))"

definition item_in_view :: "ident \<Rightarrow> cart_with_items \<Rightarrow> cart_item_row option" where
  "item_in_view pid c = map_option cl_item (find (\<lambda>l. cir_product_id (cl_item l) = pid) (cw_items c))"

definition update_item :: "(nat \<Rightarrow> database \<Rightarrow> database) \<Rightarrow> ident \<Rightarrow> ident \<Rightarrow> js_num \<Rightarrow> cart_line_view option db_op" where
  "update_item intf uid pid quantity =
     (if \<not> is_safe_integer quantity \<or> js_less quantity (Fin 0)
      then dthrow (validation_error ''Quantity must be a non-negative safe integer'')
      else dbind (at_statement intf 0 (find_cart_with_items uid)) (\<lambda>found.
        case found of
          None \<Rightarrow> dthrow (not_found_error ''Cart not found'')
        | Some c \<Rightarrow>
            (case item_in_view pid c of
               None \<Rightarrow> dthrow (not_found_error ''Item not in cart'')
             | Some i \<Rightarrow>
                 if quantity = Fin 0
                 then dbind (at_statement intf 1 (delete_cart_item (cir_id i))) (\<lambda>_. dret None)
                 else dbind (at_statement intf 1 (find_product_stock_info pid)) (\<lambda>info.
                   let available = (case info of None \<Rightarrow> 0 | Some (_, stock, _) \<Rightarrow> stock) in
                   if info = None \<or> js_less (num_of_int available) quantity
                   then dthrow (validation_error (''Not enough stock. Available: '' @ show_int available))
                   else dbind (at_statement intf 2 (update_cart_item_quantity (cir_id i) (int_of_num quantity)))
                          (\<lambda>v. dret (Some v))))))"

definition remove_item :: "(nat \<Rightarrow> database \<Rightarrow> database) \<Rightarrow> ident \<Rightarrow> ident \<Rightarrow> unit db_op" where
  "remove_item intf uid pid =
     dbind (at_statement intf 0 (find_cart_with_items uid)) (\<lambda>found.
     case found of
       None \<Rightarrow> dthrow (not_found_error ''Cart not found'')
     | Some c \<Rightarrow>
         (case item_in_view pid c of
            None \<Rightarrow> dthrow (not_found_error ''Item not in cart'')
          | Some i \<Rightarrow> at_statement intf 1 (delete_cart_item (cir_id i))))"

definition clear_cart :: "(nat \<Rightarrow> database \<Rightarrow> database) \<Rightarrow> ident \<Rightarrow> nat db_op" where
  "clear_cart intf uid =
     dbind (at_statement intf 0 (find_cart_by_user_id uid)) (\<lambda>found.
     case found of
       None \<Rightarrow> dthrow (not_found_error ''Cart not found'')
     | Some c \<Rightarrow> at_statement intf 1 (delete_cart_items_by_cart_id (cr_id c)))"

subsection \<open>The tables stay in order\<close>

definition cart_rows_ok :: "database \<Rightarrow> bool" where
  "cart_rows_ok db \<longleftrightarrow> distinct (map cr_id (carts db)) \<and> distinct (map cr_user_id (carts db))
     \<and> distinct (map cir_id (cart_items db)) \<and> distinct (map (\<lambda>i. (cir_cart_id i, cir_product_id i)) (cart_items db))
     \<and> (\<forall>i \<in> set (cart_items db). 0 < cir_quantity i \<and> cir_quantity i \<le> max_safe \<and> cir_cart_id i \<in> cr_id ` set (carts db)
          \<and> cir_product_id i \<in> prow_id ` set (products db))"

lemma line_at_Some: "line_at cid pid db = Some i \<Longrightarrow> i \<in> set (cart_items db) \<and> cir_cart_id i = cid \<and> cir_product_id i = pid"
  by (auto simp: line_at_def find_Some_iff)

lemma line_at_None: "line_at cid pid db = None \<longleftrightarrow> (\<forall>i \<in> set (cart_items db). cir_cart_id i = cid \<longrightarrow> cir_product_id i \<noteq> pid)"
  by (auto simp: line_at_def find_None_iff)

lemma create_cart_ok:
  "cart_rows_ok db \<Longrightarrow> create_cart E uid db = (x, db') \<Longrightarrow> cart_rows_ok db'"
  by (fastforce simp: create_cart_def cart_rows_ok_def Let_def list_ex_iff split: if_splits)

lemma create_item_ok:
  assumes ok: "cart_rows_ok db" and "0 < q" and "q \<le> max_safe" and run: "create_cart_item E cid pid q db = (x, db')"
  shows "cart_rows_ok db'"
proof -
  let ?iid = "gen_id E (id_supply db)"
  let ?i = "\<lparr>cir_id = ?iid, cir_cart_id = cid, cir_product_id = pid, cir_quantity = q\<rparr>"
  consider "db' = db" | "db' = db\<lparr>cart_items := cart_items db @ [?i], id_supply := id_supply db + 1\<rparr>"
      "line_at cid pid db = None" "\<forall>r \<in> set (cart_items db). cir_id r \<noteq> ?iid" "find_product pid db \<noteq> None" "find_by cr_id cid (carts db) \<noteq> None"
    using run by (fastforce simp: create_cart_item_def Let_def list_ex_iff split: if_splits)
  then show ?thesis
  proof cases
    case 2
    have "?iid \<notin> cir_id ` set (cart_items db)" "(cid, pid) \<notin> (\<lambda>i. (cir_cart_id i, cir_product_id i)) ` set (cart_items db)"
      using 2(2,3) by (auto simp: line_at_None image_iff)
    moreover have "pid \<in> prow_id ` set (products db)" "cid \<in> cr_id ` set (carts db)"
      using 2(4,5) by (auto simp: find_product_def find_by_None_iff)
    ultimately show ?thesis using ok \<open>0 < q\<close> \<open>q \<le> max_safe\<close> 2(1) by (simp add: cart_rows_ok_def)
  qed (use ok in simp)
qed

lemma update_item_row_ok:
  assumes "cart_rows_ok db" and "0 < q" and "q \<le> max_safe" and "update_cart_item_quantity iid q db = (x, db')"
  shows "cart_rows_ok db'"
proof -
  let ?f = "\<lambda>r :: cart_item_row. r\<lparr>cir_quantity := q\<rparr>"
  have "map cir_id (update_by cir_id iid ?f is) = map cir_id is"
    "map (\<lambda>i. (cir_cart_id i, cir_product_id i)) (update_by cir_id iid ?f is) = map (\<lambda>i. (cir_cart_id i, cir_product_id i)) is" for "is"
    by (induction "is") auto
  moreover have "db' = db \<or> db' = db\<lparr>cart_items := update_by cir_id iid ?f (cart_items db)\<rparr>"
    using assms(4) by (auto simp: update_cart_item_quantity_def Let_def split: option.splits)
  moreover have "\<forall>i \<in> set (update_by cir_id iid ?f (cart_items db)). 0 < cir_quantity i \<and> cir_quantity i \<le> max_safe
      \<and> cir_cart_id i \<in> cr_id ` set (carts db) \<and> cir_product_id i \<in> prow_id ` set (products db)"
  proof
    fix i assume "i \<in> set (update_by cir_id iid ?f (cart_items db))"
    then obtain j where "j \<in> set (cart_items db)" "i = j \<or> i = ?f j" using set_update_by by metis
    then show "0 < cir_quantity i \<and> cir_quantity i \<le> max_safe
      \<and> cir_cart_id i \<in> cr_id ` set (carts db) \<and> cir_product_id i \<in> prow_id ` set (products db)"
      using assms(1-3) by (auto simp: cart_rows_ok_def)
  qed
  ultimately show ?thesis using assms(1) by (elim disjE) (simp_all add: cart_rows_ok_def)
qed

lemma distinct_map_delete_by: "distinct (map f xs) \<Longrightarrow> distinct (map f (delete_by key k xs))"
  by (induction xs) (auto dest: subsetD [OF set_delete_by])

lemma delete_item_ok: "cart_rows_ok db \<Longrightarrow> delete_cart_item iid db = (x, db') \<Longrightarrow> cart_rows_ok db'"
  by (auto simp: delete_cart_item_def cart_rows_ok_def distinct_map_delete_by dest!: subsetD [OF set_delete_by] split: if_splits)

lemma clear_items_ok: "cart_rows_ok db \<Longrightarrow> delete_cart_items_by_cart_id cid db = (x, db') \<Longrightarrow> cart_rows_ok db'"
  by (auto simp: delete_cart_items_by_cart_id_def cart_rows_ok_def delete_where_def distinct_map_filter)

lemma triple_at:
  assumes "\<And>n db. I db \<Longrightarrow> I (intf n db)" and "triple I (\<lambda>_. True) m Q"
  shows "triple I P (at_statement intf n m) Q"
proof (rule tripleI)
  fix s x s'
  assume "I s" "at_statement intf n m s = (x, s')"
  then show "I s' \<and> (\<forall>a. x = Inr a \<longrightarrow> Q a s')"
    using tripleD [OF assms(2) assms(1)] by (simp add: at_statement_def)
qed

lemma triple_fact: "(b \<Longrightarrow> triple I (\<lambda>_. True) m Q) \<Longrightarrow> triple I (\<lambda>_. b) m Q"
  by (auto simp: triple_def)

lemma find_cart_with_items_same: "find_cart_with_items uid db = (x, db') \<Longrightarrow> db' = db"
  by (auto simp: find_cart_with_items_def dret_def dlift_def split: option.splits)

lemma cart_triples:
  "triple cart_rows_ok P (find_cart_with_items uid) (\<lambda>_ _. True)"
  "triple cart_rows_ok P (find_cart_by_user_id uid) (\<lambda>_ _. True)"
  "triple cart_rows_ok P (find_product_stock_info pid) (\<lambda>_ _. True)"
  "triple cart_rows_ok P (find_cart_item cid pid) (\<lambda>r _. \<forall>i. r = Some i \<longrightarrow> 0 < cir_quantity i \<and> cir_quantity i \<le> max_safe)"
  "triple cart_rows_ok P (create_cart E uid) (\<lambda>_ _. True)"
  "triple cart_rows_ok P (create_cart_with_items E uid) (\<lambda>_ _. True)"
  "0 < q \<Longrightarrow> q \<le> max_safe \<Longrightarrow> triple cart_rows_ok P (create_cart_item E cid pid q) (\<lambda>_ _. True)"
  "0 < q \<Longrightarrow> q \<le> max_safe \<Longrightarrow> triple cart_rows_ok P (update_cart_item_quantity iid q) (\<lambda>_ _. True)"
  "triple cart_rows_ok P (delete_cart_item iid) (\<lambda>_ _. True)"
  "triple cart_rows_ok P (delete_cart_items_by_cart_id cid) (\<lambda>_ _. True)"
proof -
  show "triple cart_rows_ok P (find_cart_item cid pid) (\<lambda>r _. \<forall>i. r = Some i \<longrightarrow> 0 < cir_quantity i \<and> cir_quantity i \<le> max_safe)"
    by (rule tripleI) (auto simp: find_cart_item_def db_monad cart_rows_ok_def dest!: line_at_Some)
  show "triple cart_rows_ok P (create_cart_with_items E uid) (\<lambda>_ _. True)"
    unfolding create_cart_with_items_def
    by (rule triple_bind [where R = "\<lambda>_ _. True"])
      (auto simp: triple_def dbind_def db_monad intro: create_cart_ok)
qed (auto simp: triple_def find_cart_by_user_id_def find_product_stock_info_def db_monad dest: find_cart_with_items_same
    intro: create_cart_ok create_item_ok update_item_row_ok delete_item_ok clear_items_ok)

datatype cart_request = Get_Cart | Add_Item ident js_num | Update_Item ident js_num | Remove_Item ident | Clear_Cart

definition discard :: "'a db_op \<Rightarrow> unit db_op" where
  "discard m = dbind m (\<lambda>_. dret ())"

fun cart_request_op :: "env \<Rightarrow> (nat \<Rightarrow> database \<Rightarrow> database) \<Rightarrow> ident \<Rightarrow> cart_request \<Rightarrow> unit db_op" where
  "cart_request_op E intf uid Get_Cart = discard (get_cart E intf uid)"
| "cart_request_op E intf uid (Add_Item pid q) = discard (add_item E intf uid pid q)"
| "cart_request_op E intf uid (Update_Item pid q) = discard (update_item intf uid pid q)"
| "cart_request_op E intf uid (Remove_Item pid) = discard (remove_item intf uid pid)"
| "cart_request_op E intf uid Clear_Cart = discard (clear_cart intf uid)"

lemma positive_quantity:
  assumes "is_safe_integer q" and "js_less (Fin 0) q"
  shows "0 < int_of_num q \<and> int_of_num q \<le> max_safe"
  using assms by (auto elim!: is_safe_integer_E simp: num_of_int_def safe_int_def)

lemma positive_sum:
  assumes "0 < k" and "k \<le> max_safe" and "is_safe_integer q" and "js_less (Fin 0) q" and "is_safe_integer (js_add (num_of_int k) q)"
  shows "js_add (num_of_int k) q = num_of_int (k + int_of_num q) \<and> k + int_of_num q \<le> max_safe"
proof -
  have "num_of_int (int_of_num q) = q" using assms(3) by (rule num_of_int_of_num)
  then show ?thesis
    using merged_quantity [OF assms(1,2)] positive_quantity [OF assms(3,4)] assms(5) by metis
qed

text \<open>What other requests do between the statements keeps the tables in order.\<close>

locale cart_interference =
  fixes intf :: "nat \<Rightarrow> database \<Rightarrow> database"
  assumes intf_ok: "cart_rows_ok db \<Longrightarrow> cart_rows_ok (intf n db)"
begin

lemma statement: "triple cart_rows_ok (\<lambda>_. True) m Q \<Longrightarrow> triple cart_rows_ok P (at_statement intf n m) Q"
  by (rule triple_at) (rule intf_ok)

lemmas statements = cart_triples [THEN statement]

lemma get_cart_ok: "triple cart_rows_ok P (get_cart E intf uid) (\<lambda>_ _. True)"
  unfolding get_cart_def
  by (rule triple_bind [OF statements(1)]) (auto intro: triple_ret statements split: option.split)

lemma get_or_create_ok: "triple cart_rows_ok P (get_or_create_cart E intf uid) (\<lambda>_ _. True)"
  unfolding get_or_create_cart_def
  by (rule triple_bind [OF statements(2)]) (auto intro: triple_ret statements split: option.split)

lemma add_item_ok: "triple cart_rows_ok P (add_item E intf uid pid q) (\<lambda>_ _. True)"
proof (cases "is_safe_integer q \<and> js_less (Fin 0) q")
  case False
  then show ?thesis unfolding add_item_def by (simp add: triple_throw)
next
  case True
  note q = positive_quantity [OF True [THEN conjunct1] True [THEN conjunct2]]
  have merge: "triple cart_rows_ok (\<lambda>_. \<forall>j. Some i = Some j \<longrightarrow> 0 < cir_quantity j \<and> cir_quantity j \<le> max_safe)
     (let new = js_add (num_of_int (cir_quantity i)) q in
      if \<not> is_safe_integer new then dthrow (validation_error ''Cart quantity exceeds safe integer range'')
      else if js_less (num_of_int stock) new
      then dthrow (validation_error (''Cannot add more than '' @ show_int stock @ '' items''))
      else at_statement intf 4 (update_cart_item_quantity (cir_id i) (int_of_num new))) (\<lambda>_ _. True)" for i stock
  proof (rule triple_fact)
    assume "\<forall>j. Some i = Some j \<longrightarrow> 0 < cir_quantity j \<and> cir_quantity j \<le> max_safe"
    then have k: "0 < cir_quantity i" "cir_quantity i \<le> max_safe" by simp_all
    let ?new = "js_add (num_of_int (cir_quantity i)) q"
    show "triple cart_rows_ok (\<lambda>_. True) (let new = ?new in
      if \<not> is_safe_integer new then dthrow (validation_error ''Cart quantity exceeds safe integer range'')
      else if js_less (num_of_int stock) new
      then dthrow (validation_error (''Cannot add more than '' @ show_int stock @ '' items''))
      else at_statement intf 4 (update_cart_item_quantity (cir_id i) (int_of_num new))) (\<lambda>_ _. True)"
      unfolding Let_def
    proof (intro triple_if triple_throw)
      assume "\<not> \<not> is_safe_integer ?new"
      then have "0 < int_of_num ?new \<and> int_of_num ?new \<le> max_safe"
        using positive_sum [OF k True [THEN conjunct1] True [THEN conjunct2]] q k by simp
      then show "triple cart_rows_ok (\<lambda>_. True) (at_statement intf 4 (update_cart_item_quantity (cir_id i) (int_of_num ?new))) (\<lambda>_ _. True)"
        by (intro statements) simp_all
    qed
  qed
  have store: "triple cart_rows_ok (\<lambda>_. \<forall>j. found = Some j \<longrightarrow> 0 < cir_quantity j \<and> cir_quantity j \<le> max_safe)
     (case found of Some i \<Rightarrow>
          (let new = js_add (num_of_int (cir_quantity i)) q in
            if \<not> is_safe_integer new then dthrow (validation_error ''Cart quantity exceeds safe integer range'')
            else if js_less (num_of_int stock) new
            then dthrow (validation_error (''Cannot add more than '' @ show_int stock @ '' items''))
            else at_statement intf 4 (update_cart_item_quantity (cir_id i) (int_of_num new)))
        | None \<Rightarrow> at_statement intf 4 (create_cart_item E (cr_id c) pid (int_of_num q))) (\<lambda>_ _. True)" for found stock c
    using merge q by (cases found) (auto intro!: statements)
  have rest: "triple cart_rows_ok P (dbind (get_or_create_cart E intf uid) (\<lambda>c.
     dbind (at_statement intf 3 (find_cart_item (cr_id c) pid)) (\<lambda>found.
     case found of Some i \<Rightarrow>
          (let new = js_add (num_of_int (cir_quantity i)) q in
            if \<not> is_safe_integer new then dthrow (validation_error ''Cart quantity exceeds safe integer range'')
            else if js_less (num_of_int stock) new
            then dthrow (validation_error (''Cannot add more than '' @ show_int stock @ '' items''))
            else at_statement intf 4 (update_cart_item_quantity (cir_id i) (int_of_num new)))
        | None \<Rightarrow> at_statement intf 4 (create_cart_item E (cr_id c) pid (int_of_num q))))) (\<lambda>_ _. True)" for stock P
    by (rule triple_bind [OF get_or_create_ok], rule triple_bind [OF statements(4)], rule store)
  show ?thesis
    unfolding add_item_def using True
    by (auto intro!: triple_bind [OF statements(3)] triple_throw rest split: option.split)
qed

lemma update_item_ok: "triple cart_rows_ok P (update_item intf uid pid q) (\<lambda>_ _. True)"
proof (cases "is_safe_integer q \<and> \<not> js_less q (Fin 0)")
  case False
  then show ?thesis unfolding update_item_def by (simp add: triple_throw)
next
  case True
  have q: "q \<noteq> Fin 0 \<Longrightarrow> 0 < int_of_num q" "int_of_num q \<le> max_safe"
    using True by (auto elim!: is_safe_integer_E simp: num_of_int_def safe_int_def)
  show ?thesis
    unfolding update_item_def using True
    by (auto intro!: triple_bind [OF statements(1)] triple_bind [OF statements(3)] triple_bind [OF statements(9)]
        triple_bind [OF statements(8)] triple_throw triple_ret simp: q Let_def split: option.split)
qed

lemma remove_item_ok: "triple cart_rows_ok P (remove_item intf uid pid) (\<lambda>_ _. True)"
  unfolding remove_item_def
  by (auto intro!: triple_bind [OF statements(1)] triple_throw statements split: option.split)

lemma clear_cart_ok: "triple cart_rows_ok P (clear_cart intf uid) (\<lambda>_ _. True)"
  unfolding clear_cart_def
  by (auto intro!: triple_bind [OF statements(2)] triple_throw statements split: option.split)

lemma request_ok: "triple cart_rows_ok P (cart_request_op E intf uid req) (\<lambda>_ _. True)"
  by (cases req) (auto simp: discard_def intro!: triple_bind [OF get_cart_ok] triple_bind [OF add_item_ok] triple_bind [OF update_item_ok]
      triple_bind [OF remove_item_ok] triple_bind [OF clear_cart_ok] triple_ret)

end

text \<open>A request, and the requests of anybody that run between its statements, each in turn with requests between its own.\<close>

datatype traffic = Traffic "nat \<Rightarrow> traffic list" ident cart_request

primrec run_traffic :: "env \<Rightarrow> traffic \<Rightarrow> database \<Rightarrow> database" where
  "run_traffic E (Traffic between uid req) =
     (\<lambda>db. snd (cart_request_op E (\<lambda>n. fold (\<lambda>f. f) (map (run_traffic E) (between n))) uid req db))"

lemma fold_ok: "(\<And>f db. f \<in> set fs \<Longrightarrow> I db \<Longrightarrow> I (f db)) \<Longrightarrow> I db \<Longrightarrow> I (fold (\<lambda>f. f) fs db)"
  by (induction fs arbitrary: db) auto

lemma run_traffic_ok: "cart_rows_ok db \<Longrightarrow> cart_rows_ok (run_traffic E t db)"
proof (induction t arbitrary: db)
  case (Traffic between uid req)
  have step: "cart_rows_ok (fold (\<lambda>f. f) (map (run_traffic E) (between n)) db)" if "cart_rows_ok db" for n db
    using that by (rule fold_ok [rotated]) (auto intro: Traffic.IH [OF rangeI])
  have "triple cart_rows_ok (\<lambda>_. True) (cart_request_op E (\<lambda>n. fold (\<lambda>f. f) (map (run_traffic E) (between n))) uid req) (\<lambda>_ _. True)"
    by (rule cart_interference.request_ok) (unfold_locales, rule step)
  then have "I db \<Longrightarrow> I = cart_rows_ok \<Longrightarrow> cart_rows_ok (run_traffic E (Traffic between uid req) db)" for I
    unfolding triple_def run_traffic.simps by (metis prod.collapse)
  then show ?case using Traffic.prems by blast
qed

definition traffic_between :: "env \<Rightarrow> (nat \<Rightarrow> traffic list) \<Rightarrow> nat \<Rightarrow> database \<Rightarrow> database" where
  "traffic_between E between n = fold (\<lambda>f. f) (map (run_traffic E) (between n))"

interpretation traffic: cart_interference "traffic_between E between" for E :: env and between :: "nat \<Rightarrow> traffic list"
  unfolding traffic_between_def by unfold_locales (rule fold_ok, auto intro: run_traffic_ok)

text \<open>C32: The cart tables stay in order under any traffic: whatever requests, of whatever users, run between the statements of a cart
  request, users keep one cart, a cart one line per product, and every line a positive safe quantity, a cart and a product.\<close>

theorem cart_rows_stay_ok:
  assumes "cart_rows_ok db"
  shows "cart_rows_ok (run_traffic E (Traffic between uid req) db)"
  using assms by (rule run_traffic_ok)

subsection \<open>What a cart holds\<close>

text \<open>\<open>cart_of uid db\<close>: the quantity of each product in the user's cart. \<open>cart_spec\<close>: what a request makes of it, with the stock of
  the products; \<open>None\<close> is a refusal.\<close>

definition cart_of :: "ident \<Rightarrow> database \<Rightarrow> ident \<rightharpoonup> int" where
  "cart_of uid db pid = (case find_cart_of uid db of None \<Rightarrow> None | Some c \<Rightarrow> map_option cir_quantity (line_at (cr_id c) pid db))"

definition stock_of :: "database \<Rightarrow> ident \<rightharpoonup> int" where
  "stock_of db pid = map_option prow_stock (find_product pid db)"

fun cart_spec :: "(ident \<rightharpoonup> int) \<Rightarrow> bool \<Rightarrow> cart_request \<Rightarrow> (ident \<rightharpoonup> int) \<Rightarrow> (ident \<rightharpoonup> int) option" where
  "cart_spec stock has Get_Cart m = Some m"
| "cart_spec stock has (Add_Item pid q) m =
     (let n = int_of_num q; n' = (case m pid of None \<Rightarrow> 0 | Some k \<Rightarrow> k) + n in
      case stock pid of
        None \<Rightarrow> None
      | Some available \<Rightarrow> if is_safe_integer q \<and> 0 < n \<and> n' \<le> available then Some (m(pid \<mapsto> n')) else None)"
| "cart_spec stock has (Update_Item pid q) m =
     (let n = int_of_num q in
      if \<not> is_safe_integer q \<or> n < 0 \<or> m pid = None then None
      else if n = 0 then Some (m(pid := None))
      else case stock pid of None \<Rightarrow> None | Some available \<Rightarrow> if n \<le> available then Some (m(pid \<mapsto> n)) else None)"
| "cart_spec stock has (Remove_Item pid) m = (if m pid = None then None else Some (m(pid := None)))"
| "cart_spec stock has Clear_Cart m = (if has then Some Map.empty else None)"

text \<open>\<open>shop_ok\<close>: the constraints of the schema, prices and stock in range, and identifiers that are new when they are generated.\<close>

definition shop_ok :: "env \<Rightarrow> database \<Rightarrow> bool" where
  "shop_ok E db \<longleftrightarrow> cart_rows_ok db \<and> (\<forall>p \<in> set (products db). 0 \<le> prow_price p \<and> prow_price p \<le> max_safe \<and> prow_stock p \<le> max_safe)
     \<and> inj (gen_id E) \<and> (\<forall>k \<ge> id_supply db. gen_id E k \<notin> cr_id ` set (carts db) \<and> gen_id E k \<notin> cir_id ` set (cart_items db))"

definition refines_cart :: "env \<Rightarrow> ident \<Rightarrow> database \<Rightarrow> (ident \<rightharpoonup> int) option \<Rightarrow> (error + 'a) \<times> database \<Rightarrow> bool" where
  "refines_cart E uid db spec r \<longleftrightarrow> (case spec of
      None \<Rightarrow> \<not> ok (fst r) \<and> cart_of uid (snd r) = cart_of uid db
    | Some m \<Rightarrow> ok (fst r) \<and> cart_of uid (snd r) = m)
    \<and> (\<forall>u. u \<noteq> uid \<longrightarrow> cart_of u (snd r) = cart_of u db)
    \<and> products (snd r) = products db \<and> users (snd r) = users db \<and> shop_ok E (snd r)"

lemma alone_statement [simp]: "at_statement (\<lambda>_. id) n m = m"
  by (rule ext) (simp add: at_statement_def dbind_def db_monad)

definition line_in :: "ident \<Rightarrow> ident \<Rightarrow> cart_item_row list \<Rightarrow> cart_item_row option" where
  "line_in cid pid xs = find (\<lambda>i. cir_cart_id i = cid \<and> cir_product_id i = pid) xs"

abbreviation pairs :: "cart_item_row list \<Rightarrow> (ident \<times> ident) list" where
  "pairs xs \<equiv> map (\<lambda>i. (cir_cart_id i, cir_product_id i)) xs"

lemma line_at_in: "line_at cid pid db = line_in cid pid (cart_items db)"
  by (simp add: line_at_def line_in_def)

lemma line_in_simps [simp]: "line_in cid pid [] = None"
  "line_in cid pid (x # xs) = (if cir_cart_id x = cid \<and> cir_product_id x = pid then Some x else line_in cid pid xs)"
  by (simp_all add: line_in_def)

lemma line_in_append: "line_in cid pid (xs @ ys) = (case line_in cid pid xs of Some j \<Rightarrow> Some j | None \<Rightarrow> line_in cid pid ys)"
  by (induction xs) auto

lemma line_in_None: "line_in cid pid xs = None \<longleftrightarrow> (cid, pid) \<notin> set (pairs xs)"
  by (induction xs) auto

lemma line_in_update:
  "distinct (map cir_id xs) \<Longrightarrow> distinct (pairs xs) \<Longrightarrow> i \<in> set xs \<Longrightarrow>
   line_in cid pid (update_by cir_id (cir_id i) (\<lambda>r. r\<lparr>cir_quantity := q\<rparr>) xs)
     = (if cir_cart_id i = cid \<and> cir_product_id i = pid then Some (i\<lparr>cir_quantity := q\<rparr>) else line_in cid pid xs)"
  by (induction xs) (auto simp: image_iff)

lemma line_in_delete:
  "distinct (map cir_id xs) \<Longrightarrow> distinct (pairs xs) \<Longrightarrow> i \<in> set xs \<Longrightarrow>
   line_in cid pid (delete_by cir_id (cir_id i) xs)
     = (if cir_cart_id i = cid \<and> cir_product_id i = pid then None else line_in cid pid xs)"
  by (induction xs) (auto simp: image_iff line_in_None)

lemma line_in_clear: "line_in cid pid (filter (\<lambda>i. cir_cart_id i \<noteq> c) xs) = (if cid = c then None else line_in cid pid xs)"
  by (induction xs) auto

lemma found_cart: "find_cart_of uid db = Some c \<Longrightarrow> c \<in> set (carts db) \<and> cr_user_id c = uid"
  by (auto simp: find_cart_of_def dest: find_by_SomeD)

lemma carts_apart:
  assumes "cart_rows_ok db" and "find_cart_of uid db = Some c" and "find_cart_of u db = Some c'" and "u \<noteq> uid"
  shows "cr_id c' \<noteq> cr_id c"
proof
  assume "cr_id c' = cr_id c"
  moreover have "distinct (map cr_id (carts db))" using assms(1) by (simp add: cart_rows_ok_def)
  ultimately have "c' = c" using found_cart [OF assms(2)] found_cart [OF assms(3)] by (metis distinct_map inj_onD)
  then show False using found_cart [OF assms(2)] found_cart [OF assms(3)] assms(4) by simp
qed

lemma find_cart_items [simp]: "find_cart_of u (db\<lparr>cart_items := x\<rparr>) = find_cart_of u db" "find_cart_of u (db\<lparr>cart_items := x, id_supply := k\<rparr>) = find_cart_of u db"
  by (simp_all add: find_cart_of_def)

text \<open>The four ways a request changes the tables, as changes of the carts.\<close>

lemma cart_new_line:
  assumes ok: "cart_rows_ok db" and c: "find_cart_of uid db = Some c" and new: "cart_of uid db pid = None"
    and i: "cir_cart_id i = cr_id c" "cir_product_id i = pid"
  shows "cart_of u (db\<lparr>cart_items := cart_items db @ [i], id_supply := k\<rparr>) = (if u = uid then (cart_of uid db)(pid \<mapsto> cir_quantity i) else cart_of u db)"
proof -
  have none: "line_in (cr_id c) pid (cart_items db) = None" using new c by (simp add: cart_of_def line_at_in)
  show ?thesis
  proof (cases "u = uid")
    case True
    then show ?thesis using c i none by (auto simp: fun_eq_iff cart_of_def line_at_in line_in_append split: option.splits)
  next
    case False
    then show ?thesis
      using carts_apart [OF ok c] i by (fastforce simp: fun_eq_iff cart_of_def line_at_in line_in_append split: option.splits)
  qed
qed

lemma cart_set_line:
  assumes ok: "cart_rows_ok db" and c: "find_cart_of uid db = Some c" and i: "line_at (cr_id c) pid db = Some i"
  shows "cart_of u (db\<lparr>cart_items := update_by cir_id (cir_id i) (\<lambda>r. r\<lparr>cir_quantity := q\<rparr>) (cart_items db)\<rparr>)
    = (if u = uid then (cart_of uid db)(pid \<mapsto> q) else cart_of u db)"
proof -
  have "i \<in> set (cart_items db)" "cir_cart_id i = cr_id c" "cir_product_id i = pid" using line_at_Some [OF i] by auto
  then have upd: "line_in cid p (update_by cir_id (cir_id i) (\<lambda>r. r\<lparr>cir_quantity := q\<rparr>) (cart_items db))
      = (if cr_id c = cid \<and> pid = p then Some (i\<lparr>cir_quantity := q\<rparr>) else line_in cid p (cart_items db))" for cid p
    using line_in_update [of "cart_items db" i cid p q] ok by (simp add: cart_rows_ok_def)
  show ?thesis
    using c carts_apart [OF ok c] by (cases "u = uid") (fastforce simp: fun_eq_iff cart_of_def line_at_in upd split: option.splits)+
qed

lemma cart_drop_line:
  assumes ok: "cart_rows_ok db" and c: "find_cart_of uid db = Some c" and i: "line_at (cr_id c) pid db = Some i"
  shows "cart_of u (db\<lparr>cart_items := delete_by cir_id (cir_id i) (cart_items db)\<rparr>)
    = (if u = uid then (cart_of uid db)(pid := None) else cart_of u db)"
proof -
  have "i \<in> set (cart_items db)" "cir_cart_id i = cr_id c" "cir_product_id i = pid" using line_at_Some [OF i] by auto
  then have upd: "line_in cid p (delete_by cir_id (cir_id i) (cart_items db))
      = (if cr_id c = cid \<and> pid = p then None else line_in cid p (cart_items db))" for cid p
    using line_in_delete [of "cart_items db" i cid p] ok by (simp add: cart_rows_ok_def)
  show ?thesis
    using c carts_apart [OF ok c] by (cases "u = uid") (fastforce simp: fun_eq_iff cart_of_def line_at_in upd split: option.splits)+
qed

lemma cart_cleared:
  assumes ok: "cart_rows_ok db" and c: "find_cart_of uid db = Some c"
  shows "cart_of u (db\<lparr>cart_items := delete_where (\<lambda>i. cir_cart_id i = cr_id c) (cart_items db)\<rparr>)
    = (if u = uid then Map.empty else cart_of u db)"
proof -
  show ?thesis
    using c carts_apart [OF ok c] by (cases "u = uid")
      (fastforce simp: fun_eq_iff cart_of_def line_at_in delete_where_def line_in_clear split: option.splits)+
qed

lemma view_ok:
  assumes "shop_ok E db" and "cir_product_id i \<in> prow_id ` set (products db)"
  shows "\<exists>v. cart_line_view_of db i = Inr v \<and> cl_item v = i"
proof -
  obtain p where p: "find_product (cir_product_id i) db = Some p"
    using assms(2) by (cases "find_product (cir_product_id i) db") (auto simp: find_product_def find_by_None_iff)
  then have "p \<in> set (products db)" by (auto simp: find_product_def dest: find_by_SomeD)
  then show ?thesis using assms(1) p by (auto simp: cart_line_view_of_def shop_ok_def money_column_eq)
qed

lemma cart_view:
  assumes ok: "shop_ok E db" and c: "find_cart_of uid db = Some c"
  shows "\<exists>v. find_cart_with_items uid db = (Inr (Some v), db) \<and> (\<forall>pid. item_in_view pid v = line_at (cr_id c) pid db)"
proof -
  let ?g = "\<lambda>i. projr (cart_line_view_of db i)"
  have g: "cart_line_view_of db i = Inr (?g i) \<and> cl_item (?g i) = i" if "i \<in> set (cart_items db)" for i
    using view_ok [OF ok, of i] ok that by (auto simp: shop_ok_def cart_rows_ok_def)
  then have "rmap (cart_line_view_of db) (items_of_cart (cr_id c) db) = Inr (map ?g (items_of_cart (cr_id c) db))"
    by (intro rmap_total) (auto simp: items_of_cart_def)
  moreover have "map_option cl_item (find (\<lambda>l. cir_product_id (cl_item l) = pid) (map ?g (filter (\<lambda>i. cir_cart_id i = cid) xs))) = line_in cid pid xs"
    if "set xs \<subseteq> set (cart_items db)" for xs cid pid
    using that g by (induction xs) auto
  ultimately show ?thesis
    using c by (simp add: find_cart_with_items_def cart_with_items_of_def dlift_def item_in_view_def items_of_cart_def line_at_in)
qed

lemma new_cart:
  assumes ok: "shop_ok E db" and "find_user uid db \<noteq> None" and none: "find_cart_of uid db = None"
  shows "\<exists>c db'. create_cart E uid db = (Inr c, db') \<and> find_cart_of uid db' = Some c \<and> shop_ok E db' \<and> products db' = products db
    \<and> users db' = users db \<and> cart_items db' = cart_items db \<and> (\<forall>u. cart_of u db' = cart_of u db)"
proof -
  let ?c = "\<lparr>cr_id = gen_id E (id_supply db), cr_user_id = uid\<rparr>"
  let ?db = "db\<lparr>carts := carts db @ [?c], id_supply := id_supply db + 1\<rparr>"
  have u: "\<forall>r \<in> set (carts db). cr_user_id r \<noteq> uid" using none by (auto simp: find_cart_of_def find_by_None_iff)
  have i: "\<forall>r \<in> set (carts db). cr_id r \<noteq> gen_id E (id_supply db)" using ok unfolding shop_ok_def by force
  have run: "create_cart E uid db = (Inr ?c, ?db)" using u i assms(2) by (auto simp: create_cart_def Let_def list_ex_iff)
  have f: "find_cart_of v ?db = (if v = uid then Some ?c else find_cart_of v db)" for v
    using none by (auto simp: find_cart_of_def find_by_append split: option.splits)
  have items: "\<forall>j \<in> set (cart_items db). cir_cart_id j \<noteq> gen_id E (id_supply db)"
    using ok i by (fastforce simp: shop_ok_def cart_rows_ok_def)
  have "shop_ok E ?db"
  proof -
    have "cart_rows_ok ?db" using ok create_cart_ok [OF _ run] by (simp add: shop_ok_def)
    moreover have "gen_id E k \<noteq> gen_id E (id_supply db)" if "Suc (id_supply db) \<le> k" for k
      using that ok by (auto simp: shop_ok_def inj_eq)
    ultimately show ?thesis using ok by (auto simp: shop_ok_def)
  qed
  moreover have "cart_of v ?db = cart_of v db" for v
  proof
    fix pid
    have "line_in (gen_id E (id_supply db)) pid (cart_items db) = None" using items by (auto simp: line_in_None)
    then show "cart_of v ?db pid = cart_of v db pid" using f none by (simp add: cart_of_def line_at_in split: option.split)
  qed
  ultimately show ?thesis using run f by auto
qed

lemma shop_ok_items:
  assumes "shop_ok E db" and "cart_rows_ok (db\<lparr>cart_items := xs\<rparr>)" and "cir_id ` set xs \<subseteq> cir_id ` set (cart_items db)"
  shows "shop_ok E (db\<lparr>cart_items := xs\<rparr>)"
proof -
  have "gen_id E k \<notin> cir_id ` set xs" if "id_supply db \<le> k" for k using assms(1,3) that unfolding shop_ok_def by blast
  then show ?thesis using assms(1,2) by (simp add: shop_ok_def)
qed

lemma set_line_refines:
  assumes ok: "shop_ok E db" and c: "find_cart_of uid db = Some c" and i: "line_at (cr_id c) pid db = Some i" and q: "0 < q" "q \<le> max_safe"
  shows "refines_cart E uid db (Some ((cart_of uid db)(pid \<mapsto> q))) (update_cart_item_quantity (cir_id i) q db)"
proof -
  let ?db = "db\<lparr>cart_items := update_by cir_id (cir_id i) (\<lambda>r. r\<lparr>cir_quantity := q\<rparr>) (cart_items db)\<rparr>"
  have rows: "cart_rows_ok db" using ok by (simp add: shop_ok_def)
  have mem: "i \<in> set (cart_items db)" using line_at_Some [OF i] by simp
  then have f: "find_by cir_id (cir_id i) (cart_items db) = Some i"
    using rows find_by_distinct by (metis cart_rows_ok_def)
  have run: "update_cart_item_quantity (cir_id i) q db = (cart_line_view_of ?db (i\<lparr>cir_quantity := q\<rparr>), ?db)"
    by (simp add: update_cart_item_quantity_def f Let_def)
  have "cart_rows_ok ?db" by (rule update_item_row_ok [OF rows q run])
  moreover have "cir_id ` set (update_by cir_id (cir_id i) (\<lambda>r. r\<lparr>cir_quantity := q\<rparr>) xs) = cir_id ` set xs" for xs :: "cart_item_row list"
    by (induction xs) auto
  ultimately have ok': "shop_ok E ?db" by (intro shop_ok_items [OF ok]) simp_all
  have "ok (cart_line_view_of ?db (i\<lparr>cir_quantity := q\<rparr>))"
    using view_ok [OF ok', of "i\<lparr>cir_quantity := q\<rparr>"] mem rows by (auto simp: cart_rows_ok_def)
  then show ?thesis
    using cart_set_line [OF rows c i] ok' by (simp add: refines_cart_def run)
qed

lemma drop_line_refines:
  assumes ok: "shop_ok E db" and c: "find_cart_of uid db = Some c" and i: "line_at (cr_id c) pid db = Some i"
  shows "refines_cart E uid db (Some ((cart_of uid db)(pid := None))) (delete_cart_item (cir_id i) db)"
proof -
  let ?db = "db\<lparr>cart_items := delete_by cir_id (cir_id i) (cart_items db)\<rparr>"
  have rows: "cart_rows_ok db" using ok by (simp add: shop_ok_def)
  have "i \<in> set (cart_items db)" using line_at_Some [OF i] by simp
  then have "find_by cir_id (cir_id i) (cart_items db) \<noteq> None" by (simp add: find_by_None_iff)
  then have run: "delete_cart_item (cir_id i) db = (Inr (), ?db)" by (simp add: delete_cart_item_def)
  have "cart_rows_ok ?db" by (rule delete_item_ok [OF rows run])
  then have "shop_ok E ?db"
    using set_delete_by [of cir_id "cir_id i" "cart_items db"] by (intro shop_ok_items [OF ok]) auto
  then show ?thesis
    using cart_drop_line [OF rows c i] by (simp add: refines_cart_def run)
qed

lemma new_line_refines:
  assumes ok: "shop_ok E db" and c: "find_cart_of uid db = Some c" and new: "line_at (cr_id c) pid db = None"
    and p: "find_product pid db \<noteq> None" and q: "0 < q" "q \<le> max_safe"
  shows "refines_cart E uid db (Some ((cart_of uid db)(pid \<mapsto> q))) (create_cart_item E (cr_id c) pid q db)"
proof -
  let ?i = "\<lparr>cir_id = gen_id E (id_supply db), cir_cart_id = cr_id c, cir_product_id = pid, cir_quantity = q\<rparr>"
  let ?db = "db\<lparr>cart_items := cart_items db @ [?i], id_supply := id_supply db + 1\<rparr>"
  have rows: "cart_rows_ok db" using ok by (simp add: shop_ok_def)
  have "\<forall>r \<in> set (cart_items db). cir_id r \<noteq> gen_id E (id_supply db)" using ok unfolding shop_ok_def by force
  moreover have "find_by cr_id (cr_id c) (carts db) \<noteq> None" using found_cart [OF c] by (auto simp: find_by_None_iff)
  ultimately have run: "create_cart_item E (cr_id c) pid q db = (cart_line_view_of ?db ?i, ?db)"
    using new p by (auto simp: create_cart_item_def Let_def list_ex_iff)
  have "cart_rows_ok ?db" by (rule create_item_ok [OF rows q run])
  moreover have "gen_id E k \<noteq> gen_id E (id_supply db)" if "Suc (id_supply db) \<le> k" for k
    using that ok by (auto simp: shop_ok_def inj_eq)
  ultimately have ok': "shop_ok E ?db" using ok by (auto simp: shop_ok_def)
  have "ok (cart_line_view_of ?db ?i)"
    using view_ok [OF ok', of ?i] p by (auto simp: find_product_def find_by_None_iff)
  moreover have "cart_of uid db pid = None" using new c by (simp add: cart_of_def)
  ultimately show ?thesis
    using cart_new_line [OF rows c, of pid ?i] ok' by (simp add: refines_cart_def run)
qed

lemma refused: "shop_ok E db \<Longrightarrow> refines_cart E uid db None (Inl e, db)"
  by (simp add: refines_cart_def)

text \<open>A step that leaves every cart as it was may go before.\<close>

lemma refines_after:
  assumes "\<forall>u. cart_of u db' = cart_of u db" and "products db' = products db" and "users db' = users db" and "refines_cart E uid db' spec r"
  shows "refines_cart E uid db spec r"
  using assms by (auto simp: refines_cart_def split: option.splits)

lemma discard_refines: "refines_cart E uid db spec (m db) \<Longrightarrow> refines_cart E uid db spec (discard m db)"
  by (auto simp: refines_cart_def discard_def dbind_def db_monad split: prod.splits sum.splits option.splits)

lemma add_refines:
  assumes ok: "shop_ok E db" and u: "find_user uid db \<noteq> None"
  shows "refines_cart E uid db (cart_spec (stock_of db) has (Add_Item pid q) (cart_of uid db)) (add_item E (\<lambda>_. id) uid pid q db)"
proof (cases "is_safe_integer q \<and> js_less (Fin 0) q \<and> find_product pid db \<noteq> None")
  case False
  have "is_safe_integer q \<Longrightarrow> 0 < int_of_num q \<longleftrightarrow> js_less (Fin 0) q" by (auto elim!: is_safe_integer_E simp: num_of_int_def)
  then have "cart_spec (stock_of db) has (Add_Item pid q) (cart_of uid db) = None"
    using False by (auto simp: stock_of_def Let_def split: option.splits)
  moreover have "\<exists>e. add_item E (\<lambda>_. id) uid pid q db = (Inl e, db)"
    using False by (auto simp: add_item_def find_product_stock_info_def db_monad)
  ultimately show ?thesis using refused [OF ok] by auto
next
  case True
  then obtain p where p: "find_product pid db = Some p" and q: "is_safe_integer q" "js_less (Fin 0) q" by auto
  let ?n = "int_of_num q"
  have n: "0 < ?n" "?n \<le> max_safe" "q = num_of_int ?n"
    using positive_quantity [OF q] num_of_int_of_num [OF q(1)] by auto
  have sp: "prow_stock p \<le> max_safe" using ok p by (auto simp: shop_ok_def find_product_def dest!: find_by_SomeD)
  have spec: "cart_spec (stock_of db) has (Add_Item pid q) (cart_of uid db) = (let n' = (case cart_of uid db pid of None \<Rightarrow> 0 | Some k \<Rightarrow> k) + ?n in
      if n' \<le> prow_stock p then Some ((cart_of uid db)(pid \<mapsto> n')) else None)"
    using q n(1) p by (simp add: stock_of_def Let_def)
  have old: "cart_of uid db pid = Some k \<Longrightarrow> 0 < k \<and> k \<le> max_safe" for k
    using ok by (auto simp: cart_of_def shop_ok_def cart_rows_ok_def dest!: line_at_Some split: option.splits)
  have less: "js_less (num_of_int a) q \<longleftrightarrow> a < ?n" for a using n(3) js_less_num_of_int by metis
  show ?thesis
  proof (cases "prow_stock p < ?n")
    case True
    then have "cart_spec (stock_of db) has (Add_Item pid q) (cart_of uid db) = None"
      using spec old by (auto simp: Let_def split: option.splits)
    moreover have "\<exists>e. add_item E (\<lambda>_. id) uid pid q db = (Inl e, db)"
      using True q p less by (simp add: add_item_def find_product_stock_info_def db_monad)
    ultimately show ?thesis using refused [OF ok] by auto
  next
    case False
    obtain c db1 where c: "get_or_create_cart E (\<lambda>_. id) uid db = (Inr c, db1)" "find_cart_of uid db1 = Some c" "shop_ok E db1"
        "\<forall>u. cart_of u db1 = cart_of u db" "products db1 = products db" "users db1 = users db"
      using new_cart [OF ok u] ok
      by (cases "find_cart_of uid db") (auto simp: get_or_create_cart_def find_cart_by_user_id_def db_monad dbind_def)
    have run: "add_item E (\<lambda>_. id) uid pid q db = (case line_at (cr_id c) pid db1 of
          Some i \<Rightarrow> (let new = js_add (num_of_int (cir_quantity i)) q in
              if \<not> is_safe_integer new then (Inl (validation_error ''Cart quantity exceeds safe integer range''), db1)
              else if js_less (num_of_int (prow_stock p)) new
              then (Inl (validation_error (''Cannot add more than '' @ show_int (prow_stock p) @ '' items'')), db1)
              else update_cart_item_quantity (cir_id i) (int_of_num new) db1)
        | None \<Rightarrow> create_cart_item E (cr_id c) pid ?n db1)"
      using False q p less c(1)
      by (simp add: add_item_def find_product_stock_info_def find_cart_item_def dbind_def db_monad Let_def split: option.split)
    have "refines_cart E uid db1 (let n' = (case cart_of uid db1 pid of None \<Rightarrow> 0 | Some k \<Rightarrow> k) + ?n in
      if n' \<le> prow_stock p then Some ((cart_of uid db1)(pid \<mapsto> n')) else None) (add_item E (\<lambda>_. id) uid pid q db)"
    proof (cases "line_at (cr_id c) pid db1")
      case None
      then have "cart_of uid db1 pid = None" using c(2) by (simp add: cart_of_def)
      moreover have "find_product pid db1 \<noteq> None" using p c(5) by (simp add: find_product_def)
      ultimately show ?thesis
        using new_line_refines [OF c(3,2) None _ n(1,2)] False run None by simp
    next
      case (Some i)
      then have k: "cart_of uid db1 pid = Some (cir_quantity i)" using c(2) by (simp add: cart_of_def)
      then have b: "0 < cir_quantity i" "cir_quantity i \<le> max_safe" using old c(4) by auto
      note mq = merged_quantity [OF b n(1,2), folded n(3)]
      show ?thesis
      proof (cases "cir_quantity i + ?n \<le> prow_stock p")
        case True
        then have "cir_quantity i + ?n \<le> max_safe" using sp by simp
        then show ?thesis
          using set_line_refines [OF c(3,2) Some, of "cir_quantity i + ?n"] True run Some k mq b(1) n(1) by (simp add: Let_def)
      next
        case False
        then have "\<exists>e. add_item E (\<lambda>_. id) uid pid q db = (Inl e, db1)"
          using run Some mq by (simp add: Let_def)
        then show ?thesis using refused [OF c(3)] False k by auto
      qed
    qed
    then have "refines_cart E uid db (let n' = (case cart_of uid db1 pid of None \<Rightarrow> 0 | Some k \<Rightarrow> k) + ?n in
      if n' \<le> prow_stock p then Some ((cart_of uid db1)(pid \<mapsto> n')) else None) (add_item E (\<lambda>_. id) uid pid q db)"
      by (rule refines_after [OF c(4,5,6)])
    moreover have "cart_of uid db1 = cart_of uid db" using c(4) by blast
    ultimately show ?thesis unfolding spec by (simp only:)
  qed
qed


lemma no_line: "find_cart_of uid db = None \<Longrightarrow> cart_of uid db = Map.empty"
  by (simp add: cart_of_def fun_eq_iff)

lemma remove_refines:
  assumes ok: "shop_ok E db"
  shows "refines_cart E uid db (cart_spec stock has (Remove_Item pid) (cart_of uid db)) (remove_item (\<lambda>_. id) uid pid db)"
proof (cases "find_cart_of uid db")
  case None
  then show ?thesis using refused [OF ok] by (simp add: no_line remove_item_def find_cart_with_items_def dbind_def db_monad)
next
  case (Some c)
  obtain v where v: "find_cart_with_items uid db = (Inr (Some v), db)" "item_in_view pid v = line_at (cr_id c) pid db"
    using cart_view [OF ok Some] by blast
  show ?thesis
  proof (cases "line_at (cr_id c) pid db")
    case None
    then show ?thesis using refused [OF ok] v Some by (simp add: cart_of_def remove_item_def dbind_def db_monad)
  next
    case (Some i)
    then have "cart_of uid db pid = Some (cir_quantity i)" using \<open>find_cart_of uid db = Some c\<close> by (simp add: cart_of_def)
    then show ?thesis
      using drop_line_refines [OF ok \<open>find_cart_of uid db = Some c\<close> Some] v Some by (simp add: remove_item_def dbind_def)
  qed
qed

lemma update_refines:
  assumes ok: "shop_ok E db"
  shows "refines_cart E uid db (cart_spec (stock_of db) has (Update_Item pid q) (cart_of uid db)) (update_item (\<lambda>_. id) uid pid q db)"
proof (cases "is_safe_integer q \<and> \<not> js_less q (Fin 0)")
  case False
  moreover have "is_safe_integer q \<Longrightarrow> int_of_num q < 0 \<longleftrightarrow> js_less q (Fin 0)" by (auto elim!: is_safe_integer_E simp: num_of_int_def)
  ultimately have "cart_spec (stock_of db) has (Update_Item pid q) (cart_of uid db) = None"
    by (auto simp: Let_def)
  then show ?thesis using False refused [OF ok] by (simp add: update_item_def db_monad)
next
  case True
  let ?n = "int_of_num q"
  have q: "is_safe_integer q" "0 \<le> ?n" "?n \<le> max_safe" "q = num_of_int ?n" "q = Fin 0 \<longleftrightarrow> ?n = 0"
    using True num_of_int_of_num [of q] by (auto elim!: is_safe_integer_E simp: num_of_int_def safe_int_def)
  have less: "js_less (num_of_int a) q \<longleftrightarrow> a < ?n" for a using q(4) js_less_num_of_int by metis
  show ?thesis
  proof (cases "find_cart_of uid db")
    case None
    then show ?thesis
      using refused [OF ok] True by (simp add: no_line update_item_def find_cart_with_items_def dbind_def db_monad Let_def)
  next
    case c: (Some c)
    obtain v where v: "find_cart_with_items uid db = (Inr (Some v), db)" "item_in_view pid v = line_at (cr_id c) pid db"
      using cart_view [OF ok c] by blast
    show ?thesis
    proof (cases "line_at (cr_id c) pid db")
      case None
      then show ?thesis using refused [OF ok] v c True by (simp add: cart_of_def update_item_def dbind_def db_monad Let_def)
    next
      case (Some i)
      then have m: "cart_of uid db pid = Some (cir_quantity i)" using c by (simp add: cart_of_def)
      have run: "update_item (\<lambda>_. id) uid pid q db =
          (if ?n = 0 then (case delete_cart_item (cir_id i) db of (Inl e, db') \<Rightarrow> (Inl e, db') | (Inr _, db') \<Rightarrow> (Inr None, db'))
           else case find_product pid db of
               None \<Rightarrow> (Inl (validation_error (''Not enough stock. Available: '' @ show_int 0)), db)
             | Some p \<Rightarrow> if prow_stock p < ?n then (Inl (validation_error (''Not enough stock. Available: '' @ show_int (prow_stock p))), db)
                 else (case update_cart_item_quantity (cir_id i) ?n db of (Inl e, db') \<Rightarrow> (Inl e, db') | (Inr v, db') \<Rightarrow> (Inr (Some v), db')))"
        using True v Some q(5) less
        by (simp add: update_item_def find_product_stock_info_def dbind_def db_monad Let_def split: option.split prod.split sum.split)
      have keep: "refines_cart E uid db s r \<Longrightarrow> refines_cart E uid db s (case r of (Inl e, db') \<Rightarrow> (Inl e, db') | (Inr v, db') \<Rightarrow> (Inr (f v), db'))"
        for s and f :: "'a \<Rightarrow> cart_line_view option" and r
        by (auto simp: refines_cart_def split: prod.splits sum.splits option.splits)
      show ?thesis
      proof (cases "?n = 0")
        case True
        then show ?thesis
          using keep [OF drop_line_refines [OF ok c Some], of "\<lambda>_. None"] run m q by (simp add: Let_def)
      next
        case n: False
        show ?thesis
        proof (cases "find_product pid db")
          case None
          then show ?thesis using run n m q refused [OF ok] by (simp add: stock_of_def Let_def)
        next
          case p: (Some p)
          show ?thesis
            using keep [OF set_line_refines [OF ok c Some, of ?n], of Some] run n m q p
            by (simp add: stock_of_def Let_def refused [OF ok])
        qed
      qed
    qed
  qed
qed

lemma clear_refines:
  assumes ok: "shop_ok E db"
  shows "refines_cart E uid db (cart_spec stock (find_cart_of uid db \<noteq> None) Clear_Cart (cart_of uid db)) (clear_cart (\<lambda>_. id) uid db)"
proof (cases "find_cart_of uid db")
  case None
  then show ?thesis using refused [OF ok] by (simp add: clear_cart_def find_cart_by_user_id_def db_monad)
next
  case (Some c)
  have rows: "cart_rows_ok db" using ok by (simp add: shop_ok_def)
  obtain n where run: "delete_cart_items_by_cart_id (cr_id c) db
      = (Inr n, db\<lparr>cart_items := delete_where (\<lambda>i. cir_cart_id i = cr_id c) (cart_items db)\<rparr>)"
    by (simp add: delete_cart_items_by_cart_id_def)
  have "shop_ok E (db\<lparr>cart_items := delete_where (\<lambda>i. cir_cart_id i = cr_id c) (cart_items db)\<rparr>)"
    by (rule shop_ok_items [OF ok clear_items_ok [OF rows run]]) (auto simp: delete_where_def)
  then show ?thesis
    using cart_cleared [OF rows Some] Some run by (simp add: clear_cart_def find_cart_by_user_id_def db_monad refines_cart_def)
qed

lemma get_refines:
  assumes ok: "shop_ok E db" and u: "find_user uid db \<noteq> None"
  shows "refines_cart E uid db (Some (cart_of uid db)) (get_cart E (\<lambda>_. id) uid db)"
proof (cases "find_cart_of uid db")
  case None
  obtain c db1 where c: "create_cart E uid db = (Inr c, db1)" "find_cart_of uid db1 = Some c" "shop_ok E db1"
        "\<forall>u. cart_of u db1 = cart_of u db" "products db1 = products db" "users db1 = users db"
    using new_cart [OF ok u None] by auto
  obtain v where "find_cart_with_items uid db1 = (Inr (Some v), db1)" using cart_view [OF c(3,2)] by blast
  then have "\<exists>w. cart_with_items_of db1 c = Inr w"
    using c(2) by (auto simp: find_cart_with_items_def dlift_def rbind_Inr_iff)
  then show ?thesis
    using None c by (auto simp: get_cart_def find_cart_with_items_def create_cart_with_items_def dbind_def db_monad refines_cart_def)
next
  case (Some c)
  obtain v where "find_cart_with_items uid db = (Inr (Some v), db)" using cart_view [OF ok Some] by blast
  then show ?thesis using ok by (simp add: get_cart_def dbind_def db_monad refines_cart_def)
qed

text \<open>A cart request, run alone, does to the carts what \<open>cart_spec\<close> says.\<close>

lemma request_refines:
  assumes "shop_ok E db" and "find_user uid db \<noteq> None"
  shows "refines_cart E uid db (cart_spec (stock_of db) (find_cart_of uid db \<noteq> None) req (cart_of uid db))
    (cart_request_op E (\<lambda>_. id) uid req db)"
  using assms get_refines add_refines update_refines remove_refines clear_refines
  by (cases req) (auto intro: discard_refines simp del: cart_spec.simps(2-5))


definition apply_spec :: "(ident \<rightharpoonup> int) \<Rightarrow> cart_request \<Rightarrow> (ident \<rightharpoonup> int) \<Rightarrow> (ident \<rightharpoonup> int)" where
  "apply_spec stock req m = (case cart_spec stock True req m of None \<Rightarrow> m | Some m' \<Rightarrow> m')"

fun run_carts :: "env \<Rightarrow> (ident \<times> cart_request) list \<Rightarrow> database \<Rightarrow> database" where
  "run_carts E [] db = db"
| "run_carts E ((uid, req) # rs) db = run_carts E rs (snd (cart_request_op E (\<lambda>_. id) uid req db))"

lemma cart_spec_has: "req \<noteq> Clear_Cart \<Longrightarrow> cart_spec stock has req m = cart_spec stock True req m"
  by (cases req) (simp_all only: cart_spec.simps simp_thms)

lemma refinesD:
  assumes "refines_cart E uid db spec r"
  shows "cart_of u (snd r) = (if u = uid then case spec of None \<Rightarrow> cart_of uid db | Some m \<Rightarrow> m else cart_of u db)"
    and "stock_of (snd r) = stock_of db" and "users (snd r) = users db" and "shop_ok E (snd r)"
  using assms by (auto simp: refines_cart_def stock_of_def find_product_def fun_eq_iff split: option.splits)

lemma request_applies:
  assumes "shop_ok E db" and "find_user uid db \<noteq> None" and "db' = snd (cart_request_op E (\<lambda>_. id) uid req db)"
  shows "cart_of u db' = (if u = uid then apply_spec (stock_of db) req (cart_of uid db) else cart_of u db)"
    and "stock_of db' = stock_of db" and "users db' = users db" and "shop_ok E db'"
proof -
  note r = refinesD [OF request_refines [OF assms(1,2), of req], folded assms(3)]
  have "(case cart_spec (stock_of db) (find_cart_of uid db \<noteq> None) req (cart_of uid db) of None \<Rightarrow> cart_of uid db | Some m \<Rightarrow> m)
      = apply_spec (stock_of db) req (cart_of uid db)"
  proof (cases "req = Clear_Cart \<and> find_cart_of uid db = None")
    case True
    then have "cart_of uid db = Map.empty" using no_line by blast
    then show ?thesis using True by (simp add: apply_spec_def)
  next
    case False
    then have "req = Clear_Cart \<Longrightarrow> (find_cart_of uid db \<noteq> None) = True" by simp
    then have "cart_spec (stock_of db) (find_cart_of uid db \<noteq> None) req (cart_of uid db) = cart_spec (stock_of db) True req (cart_of uid db)"
      by (cases "req = Clear_Cart") (simp only:, rule cart_spec_has)
    then show ?thesis by (simp only: apply_spec_def)
  qed
  then show "cart_of u db' = (if u = uid then apply_spec (stock_of db) req (cart_of uid db) else cart_of u db)"
    using r(1) [of u] by (simp only:)
  show "stock_of db' = stock_of db" "users db' = users db" "shop_ok E db'" using r(2-4) .
qed

lemma requests_apply:
  assumes "shop_ok E db" and "\<forall>r \<in> set reqs. find_user (fst r) db \<noteq> None"
  shows "cart_of u (run_carts E reqs db) = fold (apply_spec (stock_of db)) (map snd (filter (\<lambda>r. fst r = u) reqs)) (cart_of u db)"
  using assms
proof (induction reqs arbitrary: db)
  case (Cons r reqs)
  obtain uid req where r: "r = (uid, req)" by (cases r)
  define db' where "db' = snd (cart_request_op E (\<lambda>_. id) uid req db)"
  have step: "cart_of u db' = (if u = uid then apply_spec (stock_of db) req (cart_of uid db) else cart_of u db)"
     "stock_of db' = stock_of db" "users db' = users db" "shop_ok E db'"
    using request_applies [OF Cons.prems(1) _ db'_def] Cons.prems(2) r by simp_all
  have "\<forall>r \<in> set reqs. find_user (fst r) db' \<noteq> None" using Cons.prems(2) step(3) by (simp add: find_user_def)
  then show ?case using Cons.IH [OF step(4)] step r by (simp add: db'_def [symmetric])
qed simp

text \<open>C6: Carts do what their users ask: after any sequence of requests of any users, each one's cart holds what the abstract cart
  holds after that user's own requests, with a request that the stock or the quantity rules out leaving it as it was.\<close>

theorem carts_follow_spec:
  assumes "shop_ok E db" and "\<forall>r \<in> set reqs. find_user (fst r) db \<noteq> None"
  shows "cart_of u (run_carts E reqs db) = fold (apply_spec (stock_of db)) (map snd (filter (\<lambda>r. fst r = u) reqs)) (cart_of u db)"
  using assms by (rule requests_apply)

text \<open>Alone a request is right, but the quantity is written and not incremented: what another request adds to the line between
  the read and the write of \<open>addItem\<close> is lost.\<close>

lemma find_by_update_same: "find_by key k xs = Some r \<Longrightarrow> key (f r) = k \<Longrightarrow> find_by key k (update_by key k f xs) = Some (f r)"
  by (induction xs) auto

lemma add_forgets_concurrent:
  assumes c: "find_cart_of uid db = Some c" and i: "line_at (cr_id c) pid db = Some i" and k: "0 < cir_quantity i" "cir_quantity i \<le> max_safe"
    and run: "add_item E (\<lambda>n. if n = 4 then f else id) uid pid q db = (Inr v, db')"
  shows "\<exists>j. find_by cir_id (cir_id i) (cart_items db') = Some j \<and> cir_quantity j = cir_quantity i + int_of_num q"
proof -
  have q: "is_safe_integer q" "js_less (Fin 0) q" using run by (auto simp: add_item_def db_monad split: if_splits)
  let ?new = "js_add (num_of_int (cir_quantity i)) q"
  have step: "at_statement (\<lambda>n. if n = 4 then f else id) n m = (if n = 4 then (\<lambda>d. m (f d)) else m)" for n and m :: "'a db_op"
    by (auto simp: at_statement_def fun_eq_iff dbind_def db_monad)
  have upd: "is_safe_integer ?new" "update_cart_item_quantity (cir_id i) (int_of_num ?new) (f db) = (Inr v, db')"
    using run c i q
    by (auto simp: add_item_def step find_product_stock_info_def get_or_create_cart_def find_cart_by_user_id_def find_cart_item_def
        dbind_def db_monad Let_def split: option.splits if_splits)
  obtain r where r: "find_by cir_id (cir_id i) (cart_items (f db)) = Some r"
      "cart_items db' = update_by cir_id (cir_id i) (\<lambda>r. r\<lparr>cir_quantity := int_of_num ?new\<rparr>) (cart_items (f db))"
    using upd(2) by (auto simp: update_cart_item_quantity_def Let_def split: option.splits)
  then have "find_by cir_id (cir_id i) (cart_items db') = Some (r\<lparr>cir_quantity := int_of_num ?new\<rparr>)"
    by (auto intro!: find_by_update_same dest: find_by_SomeD)
  moreover have "int_of_num ?new = cir_quantity i + int_of_num q"
    using positive_sum [OF k q upd(1)] by simp
  ultimately show ?thesis by simp
qed

subsection \<open>Witnesses\<close>

lemma shop_rows_ok: "cart_rows_ok shop_db" "shop_ok sample_env shop_db"
proof -
  show ok: "cart_rows_ok shop_db" by (simp add: cart_rows_ok_def shop_db_def empty_db_def max_safe_def)
  have "inj (gen_id sample_env)" by (simp add: sample_env_def inj_def)
  then show "shop_ok sample_env shop_db"
    using ok by (auto simp: shop_ok_def sample_env_def) (simp_all add: shop_db_def empty_db_def tea_row_def max_safe_def)
qed

theorem cart_rows_stay_ok_witness:
  "cart_rows_ok (run_traffic sample_env (Traffic (\<lambda>n. [Traffic (\<lambda>_. []) ''u1'' Clear_Cart]) ''u1'' (Add_Item ''p1'' (Fin 1))) shop_db)"
  by (rule cart_rows_stay_ok) (rule shop_rows_ok)

theorem carts_follow_spec_witness:
  "cart_of ''u1'' (run_carts sample_env [(''u1'', Add_Item ''p1'' (Fin 2)), (''u1'', Add_Item ''p1'' (Fin 2)), (''u1'', Remove_Item ''p2'')] shop_db)
    = [''p1'' \<mapsto> 4]"
proof -
  have "stock_of shop_db ''p1'' = Some 5" by (simp add: stock_of_def shop_db_def empty_db_def tea_row_def find_product_def)
  moreover have "cart_of ''u1'' shop_db = [''p1'' \<mapsto> 2]"
    by (auto simp: fun_eq_iff cart_of_def shop_db_def empty_db_def find_cart_of_def line_at_def tea_row_def)
  moreover have safe_two: "is_safe_integer (Fin 2)" "int_of_num (Fin 2) = 2" by code_simp+
  ultimately show ?thesis
    by (subst carts_follow_spec) (simp_all add: shop_rows_ok apply_spec_def safe_two,
        simp add: shop_db_def empty_db_def find_user_def)
qed

end
