(* ===== verification/Product_Service.thy ===== *)
theory Product_Service
  imports Cart_Service
begin

text \<open>
  The administration of products: \<^verbatim>\<open>modules/products/services/admin-product.service.ts\<close>, \<^verbatim>\<open>product-image.service.ts\<close> and the image
  job \<^verbatim>\<open>jobs/image-process.job.ts\<close>, on \<^verbatim>\<open>prisma-products.repository.ts\<close>. A service reads the product outside the transaction
  that writes it: \<open>intf n\<close> is what others commit before statement \<open>n\<close>.
\<close>

subsection \<open>Writing the columns\<close>

record product_input =
  pi_name :: string
  pi_description :: string
  pi_price :: js_num
  pi_stock :: js_num
  pi_category :: string
  pi_images :: "string list"
  pi_slug :: string

record product_patch =
  pp_name :: "string option"
  pp_description :: "string option"
  pp_price :: "js_num option"
  pp_stock :: "js_num option"
  pp_category :: "string option"
  pp_images :: "string list option"
  pp_slug :: "string option"
  pp_is_active :: "bool option"

text \<open>The column \<^verbatim>\<open>Decimal(18, 0)\<close> rounds halves away from zero and has a check against negative prices; \<^verbatim>\<open>stock\<close> is a 32-bit
  integer.\<close>

definition check_violation :: error where
  "check_violation = PlainError ''violates check constraint''"

definition price_column :: "js_num \<Rightarrow> error + int" where
  "price_column n = (case n of
      Fin q \<Rightarrow> (let r = (if 0 \<le> q then \<lfloor>q + 1/2\<rfloor> else - \<lfloor>1/2 - q\<rfloor>) in
                if r < 0 then Inl check_violation
                else if 10 ^ 18 \<le> r then Inl (PrismaKnownRequestError ''P2020'')
                else Inr r)
    | _ \<Rightarrow> Inl PrismaClientValidationError)"

definition stock_column :: "js_num \<Rightarrow> error + int" where
  "stock_column n =
     (if is_safe_integer n \<and> - (2 ^ 31) \<le> int_of_num n \<and> int_of_num n < 2 ^ 31 then Inr (int_of_num n)
      else Inl PrismaClientValidationError)"

definition column_or :: "('a \<Rightarrow> error + 'b) \<Rightarrow> 'b \<Rightarrow> 'a option \<Rightarrow> error + 'b" where
  "column_or f old v = (case v of None \<Rightarrow> Inr old | Some x \<Rightarrow> f x)"

definition patch_row :: "product_patch \<Rightarrow> product_row \<Rightarrow> error + product_row" where
  "patch_row d p =
     rbind (column_or price_column (prow_price p) (pp_price d)) (\<lambda>price.
     rbind (column_or stock_column (prow_stock p) (pp_stock d)) (\<lambda>stock.
     Inr (p\<lparr>prow_name := (case pp_name d of None \<Rightarrow> prow_name p | Some x \<Rightarrow> x),
            prow_description := (case pp_description d of None \<Rightarrow> prow_description p | Some x \<Rightarrow> Some x),
            prow_price := price, prow_stock := stock,
            prow_category := (case pp_category d of None \<Rightarrow> prow_category p | Some x \<Rightarrow> x),
            prow_images := (case pp_images d of None \<Rightarrow> prow_images p | Some x \<Rightarrow> x),
            prow_slug := (case pp_slug d of None \<Rightarrow> prow_slug p | Some x \<Rightarrow> x),
            prow_is_active := (case pp_is_active d of None \<Rightarrow> prow_is_active p | Some x \<Rightarrow> x)\<rparr>)))"

definition slug_taken :: "ident \<Rightarrow> string \<Rightarrow> database \<Rightarrow> bool" where
  "slug_taken pid s db \<longleftrightarrow> list_ex (\<lambda>r. prow_id r \<noteq> pid \<and> prow_slug r = s) (products db)"

definition product_update :: "ident \<Rightarrow> (product_row \<Rightarrow> error + product_row) \<Rightarrow> product_row db_op" where
  "product_update pid change db =
     (case find_product pid db of
        None \<Rightarrow> (Inl record_not_found, db)
      | Some p \<Rightarrow>
          (case change p of
             Inl e \<Rightarrow> (Inl e, db)
           | Inr p' \<Rightarrow>
               if slug_taken pid (prow_slug p') db then (Inl unique_violation, db)
               else let q = p'\<lparr>prow_version := prow_version p + 1\<rparr>
                 in (Inr q, db\<lparr>products := update_by prow_id pid (\<lambda>_. q) (products db)\<rparr>)))"

definition product_create :: "millis \<Rightarrow> ident \<Rightarrow> product_input \<Rightarrow> product_row db_op" where
  "product_create now pid d db =
     (case (price_column (pi_price d), stock_column (pi_stock d)) of
        (Inr amount, Inr stock) \<Rightarrow>
          if find_product pid db \<noteq> None \<or> slug_taken pid (pi_slug d) db then (Inl unique_violation, db)
          else let p = \<lparr>prow_id = pid, prow_name = pi_name d, prow_description = Some (pi_description d), prow_price = amount,
                  prow_stock = stock, prow_version = 0, prow_category = pi_category d, prow_images = pi_images d,
                  prow_slug = pi_slug d, prow_is_active = True, prow_created_at = now\<rparr>
            in (Inr p, db\<lparr>products := products db @ [p]\<rparr>)
      | (Inl e, _) \<Rightarrow> (Inl e, db)
      | (Inr _, Inl e) \<Rightarrow> (Inl e, db))"

subsection \<open>Repository\<close>

text \<open>A \<^verbatim>\<open>ProductRecord\<close> is the row with its price as a checked number.\<close>

record product_record =
  pr_row :: product_row
  pr_price :: js_num

definition to_product_record :: "product_row \<Rightarrow> error + product_record" where
  "to_product_record p = rbind (money_column (prow_price p)) (\<lambda>price. Inr \<lparr>pr_row = p, pr_price = price\<rparr>)"

definition find_by_slug_id :: "string \<Rightarrow> ident option db_op" where
  "find_by_slug_id s = dget (\<lambda>db. map_option prow_id (find_by prow_slug s (products db)))"

definition find_product_by_id :: "ident \<Rightarrow> product_record option db_op" where
  "find_product_by_id pid db =
     (case find_product pid db of
        None \<Rightarrow> dret None db
      | Some p \<Rightarrow> dlift (rbind (to_product_record p) (\<lambda>r. Inr (Some r))) db)"

definition exists_and_active :: "ident \<Rightarrow> bool db_op" where
  "exists_and_active pid = dget (\<lambda>db. list_ex (\<lambda>p. prow_id p = pid \<and> prow_is_active p) (products db))"

definition create_product :: "env \<Rightarrow> millis \<Rightarrow> product_input \<Rightarrow> product_record db_op" where
  "create_product E now d db =
     (case product_create now (gen_id E (id_supply db)) d db of
        (Inl e, _) \<Rightarrow> (Inl e, db)
      | (Inr p, db') \<Rightarrow> (to_product_record p, db'\<lparr>id_supply := id_supply db + 1\<rparr>))"

definition create_with_events :: "env \<Rightarrow> millis \<Rightarrow> product_input \<Rightarrow> product \<Rightarrow> product_record db_op" where
  "create_with_events E now d aggregate =
     transaction (dbind (product_create now (ar_id aggregate) d) (\<lambda>created.
       dbind (persist_domain_events E [aggregate] [ar_id aggregate \<mapsto> prow_version created]) (\<lambda>_.
       dlift (to_product_record created))))"

definition update_product :: "ident \<Rightarrow> product_patch \<Rightarrow> product_record db_op" where
  "update_product pid d db =
     (case product_update pid (patch_row d) db of (Inl e, db') \<Rightarrow> (Inl e, db') | (Inr p, db') \<Rightarrow> (to_product_record p, db'))"

definition update_with_events :: "env \<Rightarrow> ident \<Rightarrow> product_patch \<Rightarrow> product \<Rightarrow> product_record db_op" where
  "update_with_events E pid d aggregate =
     transaction (dbind (product_update pid (patch_row d)) (\<lambda>updated.
       dbind (persist_domain_events E [aggregate] [pid \<mapsto> prow_version updated]) (\<lambda>_.
       dlift (to_product_record updated))))"

definition set_active :: "ident \<Rightarrow> bool \<Rightarrow> product_record db_op" where
  "set_active pid b db =
     (case product_update pid (\<lambda>p. Inr (p\<lparr>prow_is_active := b\<rparr>)) db of
        (Inl e, db') \<Rightarrow> (Inl e, db') | (Inr p, db') \<Rightarrow> (to_product_record p, db'))"

definition set_active_with_events :: "env \<Rightarrow> ident \<Rightarrow> bool \<Rightarrow> product \<Rightarrow> product_record db_op" where
  "set_active_with_events E pid b aggregate =
     transaction (dbind (product_update pid (\<lambda>p. Inr (p\<lparr>prow_is_active := b\<rparr>))) (\<lambda>updated.
       dbind (persist_domain_events E [aggregate] [pid \<mapsto> prow_version updated]) (\<lambda>_.
       dlift (to_product_record updated))))"

subsection \<open>AdminProductService\<close>

definition hydrate_record :: "product_record \<Rightarrow> error + product" where
  "hydrate_record r = (let p = pr_row r in product_hydrate
     \<lparr>pd_id = prow_id p, pd_name = prow_name p, pd_description = prow_description p, pd_price = pr_price r,
      pd_stock = num_of_int (prow_stock p), pd_category = prow_category p, pd_images = prow_images p,
      pd_slug = prow_slug p, pd_is_active = prow_is_active p, pd_version = Some (prow_version p)\<rparr>)"

type_synonym traffic_fun = "nat \<Rightarrow> database \<Rightarrow> database"

definition admin_create :: "env \<Rightarrow> millis \<Rightarrow> traffic_fun \<Rightarrow> ident \<Rightarrow> product_input \<Rightarrow> product_record db_op" where
  "admin_create E now intf pid d =
     dbind (at_statement intf 0 (find_by_slug_id (pi_slug d))) (\<lambda>existing.
     if existing \<noteq> None then dthrow (validation_error ''Slug already exists'')
     else dbind (dlift (product_hydrate \<lparr>pd_id = pid, pd_name = pi_name d, pd_description = Some (pi_description d),
            pd_price = pi_price d, pd_stock = pi_stock d, pd_category = pi_category d, pd_images = pi_images d,
            pd_slug = pi_slug d, pd_is_active = True, pd_version = None\<rparr>)) (\<lambda>entity.
          at_statement intf 1 (create_with_events E now d (product_mark_created now entity))))"

definition load_product :: "traffic_fun \<Rightarrow> ident \<Rightarrow> product_record db_op" where
  "load_product intf pid =
     dbind (at_statement intf 0 (find_product_by_id pid)) (\<lambda>found.
     case found of None \<Rightarrow> dthrow (not_found_error ''Product not found'') | Some r \<Rightarrow> dret r)"

definition check_slug :: "traffic_fun \<Rightarrow> product_patch \<Rightarrow> product_record \<Rightarrow> unit db_op" where
  "check_slug intf d r =
     (case pp_slug d of
        Some s \<Rightarrow>
          if s \<noteq> [] \<and> s \<noteq> prow_slug (pr_row r)
          then dbind (at_statement intf 1 (find_by_slug_id s)) (\<lambda>existing.
            if existing \<noteq> None then dthrow (validation_error ''Slug already exists'') else dret ())
          else dret ()
      | None \<Rightarrow> dret ())"

definition admin_update :: "env \<Rightarrow> millis \<Rightarrow> traffic_fun \<Rightarrow> ident \<Rightarrow> product_patch \<Rightarrow> product_record db_op" where
  "admin_update E now intf pid d =
     dbind (load_product intf pid) (\<lambda>r.
     dbind (check_slug intf d r) (\<lambda>_.
     dbind (dlift (hydrate_record r)) (\<lambda>entity.
     case pp_price d of
       Some new \<Rightarrow>
         if new \<noteq> pr_price r
         then dbind (dlift (rbind (new_money new) (\<lambda>m. product_change_price now m entity))) (\<lambda>entity'.
              at_statement intf 2 (update_with_events E pid d entity'))
         else at_statement intf 2 (update_with_events E pid d (product_mark_updated now entity))
     | None \<Rightarrow> at_statement intf 2 (update_with_events E pid d (product_mark_updated now entity)))))"

definition admin_delete :: "env \<Rightarrow> millis \<Rightarrow> traffic_fun \<Rightarrow> ident \<Rightarrow> product_record db_op" where
  "admin_delete E now intf pid =
     dbind (load_product intf pid) (\<lambda>r.
     dbind (dlift (rbind (hydrate_record r) (product_deactivate now))) (\<lambda>entity.
     at_statement intf 2 (set_active_with_events E pid False entity)))"

definition admin_restore :: "env \<Rightarrow> millis \<Rightarrow> traffic_fun \<Rightarrow> ident \<Rightarrow> product_record db_op" where
  "admin_restore E now intf pid =
     dbind (load_product intf pid) (\<lambda>r.
     dbind (dlift (rbind (hydrate_record r) (product_activate now))) (\<lambda>entity.
     at_statement intf 2 (set_active_with_events E pid True entity)))"

text \<open>The image job, after the image has been resized and stored under \<open>url\<close>.\<close>

definition empty_patch :: product_patch where
  "empty_patch = \<lparr>pp_name = None, pp_description = None, pp_price = None, pp_stock = None, pp_category = None,
     pp_images = None, pp_slug = None, pp_is_active = None\<rparr>"

definition process_image :: "env \<Rightarrow> millis \<Rightarrow> traffic_fun \<Rightarrow> ident \<Rightarrow> string option \<Rightarrow> string \<Rightarrow> string db_op" where
  "process_image E now intf pid buffer url =
     (case buffer of
        None \<Rightarrow> dthrow (PlainError ''No image buffer provided'')
      | Some b \<Rightarrow>
          if b = [] then dthrow (PlainError ''No image buffer provided'')
          else dbind (at_statement intf 0 (find_product_by_id pid)) (\<lambda>found.
            case found of
              None \<Rightarrow> dthrow (PlainError (''Product '' @ pid @ '' not found''))
            | Some r \<Rightarrow> dbind (dlift (hydrate_record r)) (\<lambda>entity.
                dbind (at_statement intf 2 (update_with_events E pid (empty_patch\<lparr>pp_images := Some (prow_images (pr_row r) @ [url])\<rparr>)
                    (product_mark_updated now entity))) (\<lambda>_. dret url))))"

text \<open>\<open>ProductImageService\<close>: the queue is the list of its jobs.\<close>

definition upload_image :: "(ident \<times> string \<Rightarrow> unit db_op) \<Rightarrow> ident \<Rightarrow> string \<Rightarrow> bool db_op" where
  "upload_image enqueue pid buffer =
     dbind (exists_and_active pid) (\<lambda>exists.
     if \<not> exists then dthrow (not_found_error ''Product not found'')
     else dbind (enqueue (pid, buffer)) (\<lambda>_. dret True))"

end
