(* ===== verification/Catalog_Projection.thy ===== *)
theory Catalog_Projection
  imports Product_Service
begin

text \<open>
  The catalog follows the products: the writers of products (administration, image job, checkout), the outbox, the event bus with
  its handler log and the catalog projection, put together. A product is projected, or an event that names it waits in the outbox
  for its handler.
\<close>

subsection \<open>Events that announce a product\<close>

definition announcing :: "domain_event \<Rightarrow> ident \<Rightarrow> bool" where
  "announcing ev pid \<longleftrightarrow> event_ok ev \<and> ev_name ev \<in> set product_projection_events \<and> ev_aggregate_id ev = pid
     \<and> str_field ''productId'' ev = Some pid"

definition announces :: "env \<Rightarrow> outbox_row \<Rightarrow> ident \<Rightarrow> bool" where
  "announces E r pid \<longleftrightarrow> ob_event_name r \<in> set product_projection_events \<and> ob_aggregate_id r = pid
     \<and> (\<forall>ev. deserialize_outbox_event E (ob_payload r) (ob_event_name r) (ob_aggregate_id r) = Inr ev
           \<longrightarrow> str_field ''productId'' ev = Some pid \<and> ev_name ev = ob_event_name r)"

lemma deserialized_fields:
  assumes "event_ok ev" and "deserialize_outbox_event E (to_stored (iso_of E) (event_payload ev sv)) n a = Inr ev'"
  shows "ev_fields ev' = ev_fields ev" and "ev_name ev' = n"
proof -
  have d: "deserialize_outbox_event E (JObj (stored_fields (iso_of E) sv ev)) n a = Inr ev'"
    using assms by (simp only: stored_payload)
  from d show "ev_fields ev' = ev_fields ev"
    unfolding deserialize_outbox_event_def using stored_unknown_fields [OF assms(1), of "iso_of E" sv]
    by (auto simp: Let_def split: if_splits option.splits)
  from d show "ev_name ev' = n"
    unfolding deserialize_outbox_event_def by (auto simp: Let_def split: if_splits option.splits)
qed

lemma announcing_row: "announcing ev pid \<Longrightarrow> announces E (outbox_row_of (iso_of E) sv i ev) pid"
proof -
  assume a: "announcing ev pid"
  then have ok: "event_ok ev" and n: "ev_name ev \<in> set product_projection_events" "ev_aggregate_id ev = pid"
    and f: "str_field ''productId'' ev = Some pid"
    unfolding announcing_def by blast+
  have "str_field ''productId'' ev' = Some pid" "ev_name ev' = ev_name ev"
    if "deserialize_outbox_event E (to_stored (iso_of E) (event_payload ev sv)) (ev_name ev) (ev_aggregate_id ev) = Inr ev'" for ev'
    using deserialized_fields [OF ok that] f by (simp_all only: str_field_def)
  then show ?thesis
    using n by (simp only: announces_def outbox_row_of_def outbox_row.select_convs) blast
qed

lemma product_events_announce:
  assumes "pid \<noteq> []"
  shows "announcing (product_created_event now pid) pid" "announcing (product_updated_event now pid) pid"
    "announcing (product_price_changed_event now pid a b) pid" "announcing (product_activated_event now pid) pid"
    "announcing (product_deactivated_event now pid) pid"
  using assms
  by (simp_all add: announcing_def product_projection_events_def event_ok_def known_keys_def str_field_def event_defs Let_def)

lemma rows_ids: "map ob_id (number_rows g f sv n evs) = map g [n..<n + length evs]"
  by (induction evs arbitrary: n) (auto simp: outbox_row_of_def upt_rec)

lemma rows_announce: "ev \<in> set evs \<Longrightarrow> announcing ev pid \<Longrightarrow> \<exists>r \<in> set (number_rows g (iso_of E) sv n evs). announces E r pid"
  by (induction evs arbitrary: n) (auto simp: announcing_row)

subsection \<open>The invariant\<close>

definition catalog_matches :: "catalog_row \<Rightarrow> product_row \<Rightarrow> bool" where
  "catalog_matches c p \<longleftrightarrow> c\<lparr>pc_avg_rating := Fin 0, pc_review_count := 0\<rparr> = catalog_row_of p"

definition projection_handler :: "string \<Rightarrow> string" where
  "projection_handler name = ''ProductCatalogProjectionHandler:'' @ name"

definition handled :: "outbox_row \<Rightarrow> database \<Rightarrow> bool" where
  "handled r db \<longleftrightarrow> db_has_succeeded (ob_id r) (projection_handler (ob_event_name r)) db"

text \<open>\<open>G\<close> holds the deliveries under way: the outbox row, the product its handler has read and whether it has written the catalog. What a
  handler has read stays a version the product had, what it has written stays or becomes newer, and a row under way counts as waiting
  only for the product as its handler has read it.\<close>

type_synonym in_flight = "(ident \<times> product_row option \<times> bool) set"

definition still_waits :: "in_flight \<Rightarrow> outbox_row \<Rightarrow> product_row \<Rightarrow> bool" where
  "still_waits G r p \<longleftrightarrow> (\<forall>found w. (ob_id r, found, w) \<in> G \<longrightarrow> found = Some p)"

definition projected_or_waiting :: "env \<Rightarrow> in_flight \<Rightarrow> database \<Rightarrow> product_row \<Rightarrow> bool" where
  "projected_or_waiting E G db p \<longleftrightarrow> (\<exists>c \<in> set (product_catalog db). catalog_matches c p)
     \<or> (\<exists>r \<in> set (outbox_events db). announces E r (prow_id p) \<and> \<not> handled r db \<and> still_waits G r p)"

definition was_read :: "product_row \<Rightarrow> database \<Rightarrow> bool" where
  "was_read p0 db \<longleftrightarrow> (\<exists>p \<in> set (products db). prow_id p = prow_id p0 \<and> (p = p0 \<or> prow_version p0 < prow_version p))"

definition was_written :: "product_row \<Rightarrow> database \<Rightarrow> bool" where
  "was_written p0 db \<longleftrightarrow> (\<exists>c \<in> set (product_catalog db). pc_product_id c = prow_id p0 \<and> prow_version p0 \<le> pc_source_version c)"

definition catalog_inv :: "env \<Rightarrow> in_flight \<Rightarrow> database \<Rightarrow> bool" where
  "catalog_inv E G db \<longleftrightarrow> distinct (map prow_id (products db)) \<and> distinct (map pc_product_id (product_catalog db))
     \<and> (\<forall>p \<in> set (products db). prow_id p \<noteq> [] \<and> projected_or_waiting E G db p)
     \<and> (\<forall>c \<in> set (product_catalog db). \<exists>p \<in> set (products db). prow_id p = pc_product_id c
          \<and> pc_source_version c \<le> prow_version p \<and> (pc_source_version c = prow_version p \<longrightarrow> catalog_matches c p))
     \<and> distinct (map ob_id (outbox_events db)) \<and> ob_id ` set (outbox_events db) \<subseteq> gen_id E ` {..<id_supply db}
     \<and> hl_event_id ` set (outbox_handler_log db) \<subseteq> gen_id E ` {..<id_supply db}
     \<and> fst ` G \<subseteq> gen_id E ` {..<id_supply db} \<and> (\<forall>i p0 w. (i, Some p0, w) \<in> G \<longrightarrow> was_read p0 db \<and> (w \<longrightarrow> was_written p0 db))"

lemma catalog_invD:
  assumes "catalog_inv E G db"
  shows "distinct (map prow_id (products db))" "distinct (map pc_product_id (product_catalog db))"
    "p \<in> set (products db) \<Longrightarrow> prow_id p \<noteq> []" "p \<in> set (products db) \<Longrightarrow> projected_or_waiting E G db p"
    "c \<in> set (product_catalog db) \<Longrightarrow> \<exists>p \<in> set (products db). prow_id p = pc_product_id c
      \<and> pc_source_version c \<le> prow_version p \<and> (pc_source_version c = prow_version p \<longrightarrow> catalog_matches c p)"
    "distinct (map ob_id (outbox_events db))" "ob_id ` set (outbox_events db) \<subseteq> gen_id E ` {..<id_supply db}"
    "hl_event_id ` set (outbox_handler_log db) \<subseteq> gen_id E ` {..<id_supply db}" "fst ` G \<subseteq> gen_id E ` {..<id_supply db}"
  by (use assms in \<open>simp_all only: catalog_inv_def, simp_all\<close>)

lemma in_flight_facts:
  assumes "catalog_inv E G db" and "(i, Some p0, w) \<in> G"
  shows "was_read p0 db" and "w \<Longrightarrow> was_written p0 db"
proof -
  have "\<forall>i p0 w. (i, Some p0, w) \<in> G \<longrightarrow> was_read p0 db \<and> (w \<longrightarrow> was_written p0 db)" using assms(1) unfolding catalog_inv_def by (elim conjE)
  then show "was_read p0 db" and "w \<Longrightarrow> was_written p0 db" using assms(2) by blast+
qed

lemma catalog_invI:
  assumes "distinct (map prow_id (products db))" and "distinct (map pc_product_id (product_catalog db))"
    and "\<And>p. p \<in> set (products db) \<Longrightarrow> prow_id p \<noteq> [] \<and> projected_or_waiting E G db p"
    and "\<And>c. c \<in> set (product_catalog db) \<Longrightarrow> \<exists>p \<in> set (products db). prow_id p = pc_product_id c
      \<and> pc_source_version c \<le> prow_version p \<and> (pc_source_version c = prow_version p \<longrightarrow> catalog_matches c p)"
    and "distinct (map ob_id (outbox_events db))" and "ob_id ` set (outbox_events db) \<subseteq> gen_id E ` {..<id_supply db}"
    and "hl_event_id ` set (outbox_handler_log db) \<subseteq> gen_id E ` {..<id_supply db}" and "fst ` G \<subseteq> gen_id E ` {..<id_supply db}"
    and "\<And>i p0 w. (i, Some p0, w) \<in> G \<Longrightarrow> was_read p0 db \<and> (w \<longrightarrow> was_written p0 db)"
  shows "catalog_inv E G db"
  unfolding catalog_inv_def using assms(3,4,9) by (intro conjI assms(1,2,5-8)) blast+

lemma same_product: "catalog_inv E G db \<Longrightarrow> p \<in> set (products db) \<Longrightarrow> p' \<in> set (products db) \<Longrightarrow> prow_id p' = prow_id p \<Longrightarrow> p' = p"
  using catalog_invD(1) by (auto simp: distinct_map dest: inj_onD)

lemma matches_key: "catalog_matches c p \<Longrightarrow> pc_product_id c = prow_id p \<and> pc_source_version c = prow_version p"
  by (cases c) (auto simp: catalog_matches_def catalog_row_of_def)

lemma unhandled_new:
  assumes "hl_event_id ` set (outbox_handler_log db) \<subseteq> gen_id E ` {..<n}" and "inj (gen_id E)" and "ob_id r = gen_id E k" and "n \<le> k"
  shows "\<not> handled r db"
proof
  assume "handled r db"
  then obtain l where "l \<in> set (outbox_handler_log db)" "hl_event_id l = ob_id r"
    by (auto simp: handled_def db_has_succeeded_def log_key_def split: option.splits dest!: find_by_SomeD)
  then have "gen_id E k \<in> gen_id E ` {..<n}" using assms(1,3) by force
  then show False using assms(2,4) by (auto dest: injD)
qed

lemma handled_cong: "outbox_handler_log db' = outbox_handler_log db \<Longrightarrow> handled r db' = handled r db"
  by (simp add: handled_def db_has_succeeded_def)

lemma ids_grow: "m \<le> n \<Longrightarrow> g ` {..<m} \<subseteq> g ` {..<n :: nat}"
  by auto

text \<open>Products may change in any way that raises the version of each row it touches, as long as the same transaction stores an event
  that announces it.\<close>

lemma inv_publish:
  assumes inv: "catalog_inv E G db" and inj: "inj (gen_id E)"
    and evs: "outbox_events db' = outbox_events db @ number_rows (gen_id E) (iso_of E) sv (id_supply db) evs"
      "id_supply db' = id_supply db + length evs" "product_catalog db' = product_catalog db"
      "outbox_handler_log db' = outbox_handler_log db" "distinct (map prow_id (products db'))"
      "prow_id ` set (products db) \<subseteq> prow_id ` set (products db')"
    and change: "\<And>p'. p' \<in> set (products db') \<Longrightarrow> p' \<in> set (products db) \<or> prow_id p' \<noteq> []
      \<and> (\<forall>p \<in> set (products db). prow_id p = prow_id p' \<longrightarrow> prow_version p < prow_version p') \<and> (\<exists>ev \<in> set evs. announcing ev (prow_id p'))"
  shows "catalog_inv E G db'"
proof -
  let ?new = "number_rows (gen_id E) (iso_of E) sv (id_supply db) evs"
  have h: "handled r db' = handled r db" for r by (rule handled_cong [OF evs(4)])
  have log: "hl_event_id ` set (outbox_handler_log db) \<subseteq> gen_id E ` {..<id_supply db}" by (rule catalog_invD(8) [OF inv])
  have ids: "map ob_id ?new = map (gen_id E) [id_supply db..<id_supply db + length evs]" by (rule rows_ids)
  have fresh: "\<not> handled r db" if "r \<in> set ?new" for r
  proof -
    have "ob_id r \<in> gen_id E ` {id_supply db..<id_supply db + length evs}"
      using arg_cong [OF ids, of set] that by (metis image_eqI image_set set_upt)
    then obtain k where "ob_id r = gen_id E k" "id_supply db \<le> k" by auto
    then show ?thesis by (rule unhandled_new [OF log inj])
  qed
  have flight: "fst ` G \<subseteq> gen_id E ` {..<id_supply db}" by (rule catalog_invD(9) [OF inv])
  have unread: "still_waits G r p" if "r \<in> set ?new" for r p
  proof -
    have "ob_id r \<in> gen_id E ` {id_supply db..<id_supply db + length evs}"
      using arg_cong [OF ids, of set] that by (metis image_eqI image_set set_upt)
    then obtain k where k: "ob_id r = gen_id E k" "id_supply db \<le> k" by auto
    have "(ob_id r, found, w) \<notin> G" for found w
    proof
      assume "(ob_id r, found, w) \<in> G"
      then have "gen_id E k \<in> gen_id E ` {..<id_supply db}" using flight k(1) by force
      then show False using inj k(2) by (auto dest: injD)
    qed
    then show ?thesis by (simp add: still_waits_def)
  qed
  have waits: "prow_id p' \<noteq> [] \<and> projected_or_waiting E G db' p'" if p': "p' \<in> set (products db')" for p'
    using change [OF p']
  proof
    assume "p' \<in> set (products db)"
    then have "prow_id p' \<noteq> []" "projected_or_waiting E G db p'" using catalog_invD(3,4) [OF inv] by blast+
    moreover have "set (outbox_events db) \<subseteq> set (outbox_events db')" by (simp add: evs)
    ultimately show ?thesis unfolding projected_or_waiting_def evs(3) h by blast
  next
    assume c: "prow_id p' \<noteq> [] \<and> (\<forall>p \<in> set (products db). prow_id p = prow_id p' \<longrightarrow> prow_version p < prow_version p')
      \<and> (\<exists>ev \<in> set evs. announcing ev (prow_id p'))"
    then obtain r where "r \<in> set ?new" "announces E r (prow_id p')" using rows_announce by metis
    then show ?thesis using c fresh unread unfolding projected_or_waiting_def evs(1) h set_append by blast
  qed
  have snap: "\<exists>p' \<in> set (products db'). prow_id p' = pc_product_id c \<and> pc_source_version c \<le> prow_version p'
      \<and> (pc_source_version c = prow_version p' \<longrightarrow> catalog_matches c p')" if "c \<in> set (product_catalog db)" for c
  proof -
    obtain p where p: "p \<in> set (products db)" "prow_id p = pc_product_id c" "pc_source_version c \<le> prow_version p"
        "pc_source_version c = prow_version p \<longrightarrow> catalog_matches c p"
      using catalog_invD(5) [OF inv \<open>c \<in> set (product_catalog db)\<close>] by blast
    obtain p' where p': "p' \<in> set (products db')" "prow_id p' = prow_id p" using evs(6) p(1) by (metis imageE imageI subsetD)
    from change [OF p'(1)] show ?thesis
    proof
      assume "p' \<in> set (products db)"
      then have "p' = p" using same_product [OF inv p(1)] p'(2) by blast
      then show ?thesis using p p' by auto
    next
      assume "prow_id p' \<noteq> [] \<and> (\<forall>p \<in> set (products db). prow_id p = prow_id p' \<longrightarrow> prow_version p < prow_version p')
        \<and> (\<exists>ev \<in> set evs. announcing ev (prow_id p'))"
      then have "prow_version p < prow_version p'" using p(1) p'(2) by simp
      then show ?thesis using p p' by (intro bexI [of _ p']) auto
    qed
  qed
  have reads: "was_read p0 db'" if read: "(i, Some p0, w) \<in> G" for i p0 w
  proof -
    obtain p where p: "p \<in> set (products db)" "prow_id p = prow_id p0" "p = p0 \<or> prow_version p0 < prow_version p"
      using in_flight_facts(1) [OF inv read] unfolding was_read_def by blast
    obtain p' where p': "p' \<in> set (products db')" "prow_id p' = prow_id p" using evs(6) p(1) by (metis imageE imageI subsetD)
    from change [OF p'(1)] show ?thesis
    proof
      assume "p' \<in> set (products db)"
      then have "p' = p" using same_product [OF inv p(1)] p'(2) by blast
      then show ?thesis using p p' by (auto simp: was_read_def)
    next
      assume "prow_id p' \<noteq> [] \<and> (\<forall>p \<in> set (products db). prow_id p = prow_id p' \<longrightarrow> prow_version p < prow_version p')
        \<and> (\<exists>ev \<in> set evs. announcing ev (prow_id p'))"
      then have "prow_version p < prow_version p'" using p(1) p'(2) by simp
      then show ?thesis using p p' unfolding was_read_def by (intro bexI [of _ p']) auto
    qed
  qed
  have "distinct (map ob_id (outbox_events db'))"
  proof -
    have "set (map ob_id ?new) \<inter> gen_id E ` {..<id_supply db} = {}"
      unfolding ids using inj by (auto dest: injD)
    moreover have "ob_id ` set (outbox_events db) \<subseteq> gen_id E ` {..<id_supply db}" by (rule catalog_invD(7) [OF inv])
    ultimately have "set (map ob_id ?new) \<inter> set (map ob_id (outbox_events db)) = {}" by (simp only: set_map) blast
    moreover have "distinct (map ob_id ?new)"
      unfolding ids using inj by (simp add: distinct_map inj_on_def inj_def)
    moreover have "distinct (map ob_id (outbox_events db))" by (rule catalog_invD(6) [OF inv])
    ultimately show ?thesis by (simp only: evs map_append distinct_append) blast
  qed
  moreover have grow: "gen_id E ` {..<id_supply db} \<subseteq> gen_id E ` {..<id_supply db'}" by (rule ids_grow) (simp add: evs)
  moreover have "ob_id ` set (outbox_events db') \<subseteq> gen_id E ` {..<id_supply db'}"
  proof -
    have "set (map ob_id ?new) \<subseteq> gen_id E ` {..<id_supply db'}" unfolding ids evs(2) by auto
    then have "ob_id ` set ?new \<subseteq> gen_id E ` {..<id_supply db'}" by (simp only: set_map)
    moreover have "ob_id ` set (outbox_events db) \<subseteq> gen_id E ` {..<id_supply db}" by (rule catalog_invD(7) [OF inv])
    ultimately show ?thesis using grow by (simp only: evs set_append image_Un) blast
  qed
  moreover have "hl_event_id ` set (outbox_handler_log db') \<subseteq> gen_id E ` {..<id_supply db'}"
    using log grow unfolding evs(4) by blast
  moreover have "distinct (map pc_product_id (product_catalog db'))" using catalog_invD(2) [OF inv] by (simp only: evs)
  moreover have "\<forall>p \<in> set (products db'). prow_id p \<noteq> [] \<and> projected_or_waiting E G db' p" using waits by (rule ballI)
  moreover have "\<forall>c \<in> set (product_catalog db'). \<exists>p' \<in> set (products db'). prow_id p' = pc_product_id c
      \<and> pc_source_version c \<le> prow_version p' \<and> (pc_source_version c = prow_version p' \<longrightarrow> catalog_matches c p')"
    unfolding evs(3) using snap by (rule ballI)
  moreover have "fst ` G \<subseteq> gen_id E ` {..<id_supply db'}" using flight grow by blast
  moreover have "\<forall>i p0 w. (i, Some p0, w) \<in> G \<longrightarrow> was_read p0 db' \<and> (w \<longrightarrow> was_written p0 db')"
    using reads in_flight_facts(2) [OF inv] unfolding was_written_def evs(3) by (metis (full_types))
  ultimately show ?thesis using evs(5) unfolding catalog_inv_def by (intro conjI)
qed

subsection \<open>Every writer keeps it\<close>

lemma inv_cong:
  assumes "catalog_inv E G db" and "products db' = products db" and "product_catalog db' = product_catalog db" and "outbox_events db' = outbox_events db"
    and "outbox_handler_log db' = outbox_handler_log db" and "id_supply db' = id_supply db"
  shows "catalog_inv E G db'"
proof -
  have "handled r db' = handled r db" for r by (rule handled_cong [OF assms(5)])
  then have "catalog_inv E G db' = catalog_inv E G db"
    unfolding catalog_inv_def projected_or_waiting_def was_read_def was_written_def assms(2-6) by (simp only:)
  then show ?thesis using assms(1) by (simp only:)
qed

lemma product_update_E:
  assumes "product_update pid f db = (Inr q, db1)"
  obtains p p' where "find_product pid db = Some p" and "f p = Inr p'" and "q = p'\<lparr>prow_version := prow_version p + 1\<rparr>"
    and "db1 = db\<lparr>products := update_by prow_id pid (\<lambda>_. q) (products db)\<rparr>"
  using assms by (auto simp: product_update_def Let_def split: option.splits sum.splits if_splits)

lemma update_announced:
  assumes inv: "catalog_inv E G db" and inj: "inj (gen_id E)" and u: "product_update pid f db = (Inr q, db1)"
    and f: "\<And>p p'. f p = Inr p' \<Longrightarrow> prow_id p' = prow_id p" and ev: "\<exists>ev \<in> set evs. announcing ev pid"
  shows "catalog_inv E G (db1\<lparr>outbox_events := outbox_events db1 @ number_rows (gen_id E) (iso_of E) sv (id_supply db1) evs,
    id_supply := id_supply db1 + length evs\<rparr>)"
  using u
proof (cases rule: product_update_E)
  case (1 p p')
  have p: "p \<in> set (products db)" "prow_id p = pid" using 1(1) by (auto simp: find_product_def dest: find_by_SomeD)
  have q: "prow_id q = pid" "prow_version q = prow_version p + 1" using f [OF 1(2)] 1(3) p(2) by simp_all
  have dist: "distinct (map prow_id (products db))" by (rule catalog_invD(1) [OF inv])
  have keys: "map prow_id (update_by prow_id pid (\<lambda>_. q) ps) = map prow_id ps" for ps
    using q(1) by (induction ps) auto
  have "pid \<noteq> []" using catalog_invD(3) [OF inv p(1)] p(2) by simp
  have new: "prow_version x < prow_version q" if "x \<in> set (products db)" "prow_id x = pid" for x
  proof -
    have "x = p" using dist p that by (auto simp: distinct_map dest: inj_onD)
    then show ?thesis using q by simp
  qed
  show ?thesis
  proof (rule inv_publish [OF inv inj])
    fix y assume "y \<in> set (products (db1\<lparr>outbox_events := outbox_events db1 @ number_rows (gen_id E) (iso_of E) sv (id_supply db1) evs,
      id_supply := id_supply db1 + length evs\<rparr>))"
    then have "y \<in> set (products db) \<or> y = q" using 1(4) set_update_by by fastforce
    then show "y \<in> set (products db) \<or> prow_id y \<noteq> []
      \<and> (\<forall>p \<in> set (products db). prow_id p = prow_id y \<longrightarrow> prow_version p < prow_version y) \<and> (\<exists>ev \<in> set evs. announcing ev (prow_id y))"
      using new q(1) \<open>pid \<noteq> []\<close> ev by auto
  qed (use 1(4) keys dist in \<open>auto simp: comp_def\<close>, use keys in \<open>metis image_eqI image_set\<close>)
qed

lemma persist_aggregate:
  "persist_domain_events E [ag] sv db = (Inr x, db') \<Longrightarrow> ar_events ag \<noteq> [] \<Longrightarrow>
   db' = db\<lparr>outbox_events := outbox_events db @ number_rows (gen_id E) (iso_of E) sv (id_supply db) (ar_events ag),
     id_supply := id_supply db + length (ar_events ag)\<rparr>"
  by (simp add: persist_domain_events_def persist_events_def db_monad dbind_def Let_def)


lemma transaction_triple: "triple I P (transaction m) Q" if "\<And>s a s'. I s \<Longrightarrow> P s \<Longrightarrow> m s = (Inr a, s') \<Longrightarrow> I s' \<and> Q a s'"
  using that by (auto simp: triple_def transaction_def split: prod.splits sum.splits)

lemma dlift_Inr: "dlift r db = (Inr a, db') \<longleftrightarrow> r = Inr a \<and> db' = db"
  by (auto simp: db_monad)

lemma write_announced:
  assumes inj: "inj (gen_id E)" and f: "\<And>p p'. f p = Inr p' \<Longrightarrow> prow_id p' = prow_id p"
    and ev: "\<exists>ev \<in> set (ar_events ag). announcing ev pid"
  shows "triple (catalog_inv E G) P (transaction (dbind (product_update pid f) (\<lambda>q.
       dbind (persist_domain_events E [ag] [pid \<mapsto> prow_version q]) (\<lambda>_. dlift (to_product_record q))))) (\<lambda>_ _. True)"
proof (rule transaction_triple)
  fix s a s' assume inv: "catalog_inv E G s"
    and run: "dbind (product_update pid f) (\<lambda>q. dbind (persist_domain_events E [ag] [pid \<mapsto> prow_version q])
      (\<lambda>_. dlift (to_product_record q))) s = (Inr a, s')"
  obtain q s1 where q: "product_update pid f s = (Inr q, s1)"
    "dbind (persist_domain_events E [ag] [pid \<mapsto> prow_version q]) (\<lambda>_. dlift (to_product_record q)) s1 = (Inr a, s')"
    using run by (rule dbind_Inr_E)
  obtain x s2 where x: "persist_domain_events E [ag] [pid \<mapsto> prow_version q] s1 = (Inr x, s2)" "dlift (to_product_record q) s2 = (Inr a, s')"
    using q(2) by (rule dbind_Inr_E)
  have "ar_events ag \<noteq> []" using ev by auto
  note s2 = persist_aggregate [OF x(1) this]
  have "catalog_inv E G s2" unfolding s2 by (rule update_announced [OF inv inj q(1) f ev])
  then show "catalog_inv E G s' \<and> True" using x(2) by (simp add: dlift_Inr)
qed

lemma hydrate_record_facts:
  assumes "hydrate_record r = Inr ent"
  shows "ar_id ent = prow_id (pr_row r)" "ar_events ent = []" "new_money (pr_price r) = Inr (p_price ent)"
  using assms by (auto simp: hydrate_record_def product_hydrate_def Let_def rbind_Inr_iff set_version_from_persistence_def split: if_splits)

lemma raise_events: "ar_events (raise ev s) = ar_events s @ [ev]" "ar_id (raise ev s) = ar_id s"
  by (simp_all add: raise_def)

lemma read_product_triple:
  assumes "\<And>n db. catalog_inv E G db \<Longrightarrow> catalog_inv E G (intf n db)"
  shows "triple (catalog_inv E G) P (at_statement intf 0 (find_product_by_id pid)) (\<lambda>f _. \<forall>r. f = Some r \<longrightarrow>
      prow_id (pr_row r) = pid \<and> pid \<noteq> [] \<and> money_column (prow_price (pr_row r)) = Inr (pr_price r))"
proof (rule triple_at, erule assms, rule tripleI)
  fix s x s' assume inv: "catalog_inv E G s" and run: "find_product_by_id pid s = (x, s')"
  have "s' = s" using run by (auto simp: find_product_by_id_def db_monad split: option.splits)
  moreover have "prow_id (pr_row r) = pid \<and> pid \<noteq> [] \<and> money_column (prow_price (pr_row r)) = Inr (pr_price r)" if xr: "x = Inr (Some r)" for r
  proof -
    obtain p where p: "find_product pid s = Some p" "to_product_record p = Inr r"
      using run xr by (auto simp: find_product_by_id_def db_monad rbind_Inr_iff split: option.splits)
    then have "p \<in> set (products s)" "prow_id p = pid" by (auto simp: find_product_def dest: find_by_SomeD)
    moreover from this have "pid \<noteq> []" using catalog_invD(3) [OF inv] by blast
    moreover have "pr_row r = p" "money_column (prow_price p) = Inr (pr_price r)"
      using p(2) by (auto simp: to_product_record_def rbind_Inr_iff)
    ultimately show ?thesis by simp
  qed
  ultimately show "catalog_inv E G s' \<and> (\<forall>a. x = Inr a \<longrightarrow> (\<forall>r. a = Some r \<longrightarrow>
    prow_id (pr_row r) = pid \<and> pid \<noteq> [] \<and> money_column (prow_price (pr_row r)) = Inr (pr_price r)))"
    using inv by simp
qed

lemma load_triple:
  assumes "\<And>n db. catalog_inv E G db \<Longrightarrow> catalog_inv E G (intf n db)"
  shows "triple (catalog_inv E G) P (load_product intf pid)
    (\<lambda>r _. prow_id (pr_row r) = pid \<and> pid \<noteq> [] \<and> money_column (prow_price (pr_row r)) = Inr (pr_price r))"
  unfolding load_product_def
proof (rule triple_bind [where R = "\<lambda>f _. \<forall>r. f = Some r \<longrightarrow> prow_id (pr_row r) = pid \<and> pid \<noteq> []
    \<and> money_column (prow_price (pr_row r)) = Inr (pr_price r)"])
  show "triple (catalog_inv E G) P (at_statement intf 0 (find_product_by_id pid)) (\<lambda>f _. \<forall>r. f = Some r \<longrightarrow>
      prow_id (pr_row r) = pid \<and> pid \<noteq> [] \<and> money_column (prow_price (pr_row r)) = Inr (pr_price r))"
    by (rule read_product_triple) (rule assms)
  show "triple (catalog_inv E G) (\<lambda>_. \<forall>r. found = Some r \<longrightarrow> prow_id (pr_row r) = pid \<and> pid \<noteq> []
      \<and> money_column (prow_price (pr_row r)) = Inr (pr_price r))
     (case found of None \<Rightarrow> dthrow (not_found_error ''Product not found'') | Some r \<Rightarrow> dret r)
     (\<lambda>r _. prow_id (pr_row r) = pid \<and> pid \<noteq> [] \<and> money_column (prow_price (pr_row r)) = Inr (pr_price r))" for found
    by (cases found) (simp_all add: triple_throw triple_ret)
qed


lemma read_triple:
  assumes "\<And>n db. I db \<Longrightarrow> I (intf n db)" and "\<And>s. \<exists>x. m s = (x, s)"
  shows "triple I P (at_statement intf n m) (\<lambda>_ _. True)"
  by (rule triple_at, erule assms(1), rule tripleI) (metis assms(2) prod.inject)

lemma lift_triple: "(\<And>a s. r = Inr a \<Longrightarrow> P s \<Longrightarrow> Q a s) \<Longrightarrow> triple I P (dlift r) Q"
  by (rule tripleI) (auto simp: db_monad)

text \<open>A patch whose price, if it has one, is an integer changes the aggregate's price and so announces it.\<close>

definition patch_ok :: "product_patch \<Rightarrow> bool" where
  "patch_ok d \<longleftrightarrow> (\<forall>n. pp_price d = Some n \<longrightarrow> is_safe_integer n)"

lemma new_price_announced:
  assumes new: "is_safe_integer new" "new \<noteq> pr_price r" "rbind (new_money new) (\<lambda>m. product_change_price now m ent) = Inr ent'"
    and r: "hydrate_record r = Inr ent" "prow_id (pr_row r) = pid" "pid \<noteq> []" "money_column (prow_price (pr_row r)) = Inr (pr_price r)"
  shows "\<exists>ev \<in> set (ar_events ent'). announcing ev pid"
proof -
  obtain m where m: "new_money new = Inr m" "product_change_price now m ent = Inr ent'" using new(3) by (auto simp: rbind_Inr_iff)
  have a: "num_of_int (m_amount m) = new"
  proof -
    obtain n where n: "new = num_of_int n" "safe_int n" using new(1) by (rule is_safe_integer_E)
    then have "0 \<le> n" using m(1) by (cases "0 \<le> n") (auto simp: mk_money_def)
    then show ?thesis using m(1) n by (auto simp: safe_int_def)
  qed
  have "num_of_int (m_amount (p_price ent)) = pr_price r"
    using hydrate_record_facts(3) [OF r(1)] r(4) by (auto simp: money_column_Inr dest: arg_cong [where f = m_amount])
  then have "m_amount m \<noteq> m_amount (p_price ent)" using a new(2) by auto
  then have "ar_events ent' = [product_price_changed_event now (ar_id ent) (m_amount (p_price ent)) (m_amount m)]"
    using m(2) hydrate_record_facts(2) [OF r(1)] by (auto simp: product_change_price_def raise_def split: if_splits)
  then show ?thesis using product_events_announce(3) [OF r(3)] hydrate_record_facts(1) [OF r(1)] r(2) by simp
qed

lemma patch_keeps_id: "patch_row d p = Inr p' \<Longrightarrow> prow_id p' = prow_id p"
  by (auto simp: patch_row_def rbind_Inr_iff)


lemma frame_triple:
  assumes "\<And>s x s'. m s = (x, s') \<Longrightarrow> products s' = products s \<and> product_catalog s' = product_catalog s
    \<and> outbox_events s' = outbox_events s \<and> outbox_handler_log s' = outbox_handler_log s \<and> id_supply s' = id_supply s"
  shows "triple (catalog_inv E G) P m (\<lambda>_ _. True)"
proof (rule tripleI)
  fix s x s' assume "catalog_inv E G s" "m s = (x, s')"
  then show "catalog_inv E G s' \<and> (\<forall>a. x = Inr a \<longrightarrow> True)" using inv_cong assms by blast
qed

lemma persist_triple:
  assumes inj: "inj (gen_id E)"
  shows "triple (catalog_inv E G) P (persist_domain_events E ags sv) (\<lambda>_ _. True)"
proof (rule tripleI)
  fix s x s' assume inv: "catalog_inv E G s" and run: "persist_domain_events E ags sv s = (x, s')"
  let ?evs = "concat (map ar_events ags)"
  show "catalog_inv E G s' \<and> (\<forall>a. x = Inr a \<longrightarrow> True)"
  proof (cases "?evs = []")
    case True
    then show ?thesis using run inv by (simp add: persist_domain_events_def persist_events_def db_monad dbind_def Let_def)
  next
    case False
    then have s': "s' = s\<lparr>outbox_events := outbox_events s @ number_rows (gen_id E) (iso_of E) sv (id_supply s) ?evs,
        id_supply := id_supply s + length ?evs\<rparr>"
      using run by (simp add: persist_domain_events_def persist_events_def db_monad dbind_def Let_def split: if_splits)
    have "catalog_inv E G s'"
      by (rule inv_publish [OF inv inj, where evs = ?evs and sv = sv])
        (use catalog_invD(1) [OF inv] in \<open>auto simp: s'\<close>)
    then show ?thesis by simp
  qed
qed

lemma reserve_line_triple:
  assumes inj: "inj (gen_id E)"
  shows "triple (catalog_inv E G) P (reserve_line E now locked line) (\<lambda>_ _. True)"
proof (rule tripleI)
  fix s x s' assume inv: "catalog_inv E G s" and run: "reserve_line E now locked line s = (x, s')"
  obtain pid q where line: "line = (pid, q)" by (cases line)
  show "catalog_inv E G s' \<and> (\<forall>a. x = Inr a \<longrightarrow> True)"
  proof (cases "find_by lk_id pid locked")
    case None
    then show ?thesis using run inv line by (simp add: reserve_line_def db_monad)
  next
    case (Some l)
    let ?p = "\<lambda>r. prow_id r = pid \<and> prow_version r = lk_version l"
    let ?sell = "\<lambda>r. r\<lparr>prow_stock := prow_stock r - q, prow_version := prow_version r + 1\<rparr>"
    let ?ps = "update_where ?p ?sell (products s)"
    show ?thesis
    proof (cases "0 < count_where ?p (products s)")
      case False
      then have "?ps = products s" by (intro update_where_none) simp
      then have "s' = s" using run Some line False
        by (simp add: reserve_line_def decrement_product_stock_def dbind_def db_monad Let_def)
      then show ?thesis using inv by simp
    next
      case True
      then obtain r where r: "r \<in> set (products s)" "prow_id r = pid" "prow_version r = lk_version l"
        using count_where_0_iff [of ?p "products s"] by auto
      let ?ev = "product_updated_event now pid"
      let ?sv = "\<lambda>i. if i = pid then Some (lk_version l + 1) else None"
      have s': "s' = s\<lparr>products := ?ps, outbox_events := outbox_events s @ number_rows (gen_id E) (iso_of E) ?sv (id_supply s) [?ev],
          id_supply := id_supply s + length [?ev]\<rparr>"
        using run Some line True
        by (simp add: reserve_line_def decrement_product_stock_def persist_product_event_def persist_events_def dbind_def db_monad Let_def)
      have keys: "map prow_id ?ps = map prow_id (products s)" by (rule map_update_where) simp
      have pid: "pid \<noteq> []" using catalog_invD(3) [OF inv r(1)] r(2) by simp
      have "catalog_inv E G s'"
      proof (rule inv_publish [OF inv inj, where evs = "[?ev]" and sv = ?sv])
        fix y assume "y \<in> set (products s')"
        then obtain z where z: "z \<in> set (products s)" "y = (if ?p z then ?sell z else z)"
          unfolding s' by (auto elim: in_update_whereE)
        show "y \<in> set (products s) \<or> prow_id y \<noteq> [] \<and> (\<forall>p \<in> set (products s). prow_id p = prow_id y \<longrightarrow> prow_version p < prow_version y)
            \<and> (\<exists>ev \<in> set [?ev]. announcing ev (prow_id y))"
        proof (cases "?p z")
          case True
          have same: "p = z" if "p \<in> set (products s)" "prow_id p = prow_id z" for p
            by (rule same_product [OF inv z(1) that])
          have older: "\<forall>p \<in> set (products s). prow_id p = prow_id z \<longrightarrow> prow_version p < prow_version (?sell z)"
            by (intro ballI impI) (drule same, assumption, simp)
          have "announcing ?ev (prow_id z)" using product_events_announce(2) [OF pid, of now] True by blast
          then have "\<exists>ev \<in> set [?ev]. announcing ev (prow_id z)" by (rule bexI) (rule list.set_intros)
          moreover have "y = ?sell z" "prow_id z \<noteq> []" using True z(2) pid by simp_all
          moreover have "prow_id (?sell z) = prow_id z" by simp
          ultimately show ?thesis using older by (simp only:) blast
        next
          case False
          then have "y = z" using z(2) by (simp only: if_False)
          then show ?thesis using z(1) by blast
        qed
      next
        show "prow_id ` set (products s) \<subseteq> prow_id ` set (products s')"
          using arg_cong [OF keys, of set] by (simp add: s')
        show "distinct (map prow_id (products s'))" using keys catalog_invD(1) [OF inv] by (simp add: s')
      qed (simp_all add: s')
      then show ?thesis by simp
    qed
  qed
qed

lemma dmap_triple: "(\<And>x P. triple I P (f x) (\<lambda>_ _. True)) \<Longrightarrow> triple I P (dmap f xs) (\<lambda>_ _. True)"
proof (induction xs arbitrary: P)
  case (Cons x xs)
  show ?case unfolding dmap.simps by (rule triple_bind [OF Cons.prems], rule triple_bind [OF Cons.IH [OF Cons.prems]]) (rule triple_ret, rule TrueI)
qed (simp add: triple_ret)


lemma read_only_triple: "(\<And>s x s'. m s = (x, s') \<Longrightarrow> s' = s) \<Longrightarrow> triple I P m (\<lambda>_ _. True)"
  by (rule tripleI) blast

lemma any: "triple I (\<lambda>_. True) m (\<lambda>_ _. True) \<Longrightarrow> triple I P m (\<lambda>_ _. True)"
  by (rule triple_pre) auto

lemma reserve_stock_triple: "inj (gen_id E) \<Longrightarrow> triple (catalog_inv E G) P (reserve_stock E now items) (\<lambda>_ _. True)"
  unfolding reserve_stock_def
  by (intro triple_if triple_throw triple_bind [where R = "\<lambda>_ _. True"] read_only_triple [of "lock_products_for_update ids" for ids]
      lift_triple dmap_triple reserve_line_triple triple_ret) (auto simp: lock_products_for_update_def db_monad)

lemma discount_triple:
  "triple (catalog_inv E G) P (find_discount_by_code code) (\<lambda>_ _. True)"
  "triple (catalog_inv E G) P (increment_discount_usage i m) (\<lambda>_ _. True)"
  by (rule frame_triple, auto simp: find_discount_by_code_def increment_discount_usage_def db_monad split: option.splits)+

lemma usage_triple: "triple (catalog_inv E G) P (take_usage consume d) (\<lambda>_ _. True)"
  unfolding take_usage_def
  by (intro triple_if triple_throw triple_ret TrueI triple_bind [where R = "\<lambda>_ _. True"] discount_triple)

lemma pricing_triple: "triple (catalog_inv E G) P (calculate_pricing flag now sub code) (\<lambda>_ _. True)"
proof -
  have rest: "triple (catalog_inv E G) P (case code of
       Some code \<Rightarrow>
         if code \<noteq> [] \<and> flag
         then dbind (find_discount_by_code code) (\<lambda>found.
              dbind (dlift (check_discount now sub found)) (\<lambda>d.
              dbind (take_usage True d) (\<lambda>_.
              dbind (dlift (discount_amount sub d)) (\<lambda>amount. dret (f code amount)))))
         else dret g
     | None \<Rightarrow> dret g) (\<lambda>_ _. True)" for f g P
    by (cases code) (simp_all only: option.case, (intro triple_if triple_ret TrueI triple_bind [where R = "\<lambda>_ _. True"] lift_triple discount_triple usage_triple)+)
  show ?thesis
    unfolding calculate_pricing_def price_def
    by (intro triple_bind [where R = "\<lambda>_ _. True"] lift_triple TrueI) (rule rest)
qed

lemma save_triple: "inj (gen_id E) \<Longrightarrow> triple (catalog_inv E G) P (save_new_order E now ord key) (\<lambda>_ _. True)"
  unfolding save_new_order_def Let_def
  by (intro triple_bind [where R = "\<lambda>_ _. True"] lift_triple persist_triple triple_ret TrueI frame_triple)
    (auto simp: insert_order_def db_monad split: if_splits)

lemma place_triple: "inj (gen_id E) \<Longrightarrow> triple (catalog_inv E G) P (place_order E flag u cid items input a) (\<lambda>_ _. True)"
  unfolding place_order_def
  by (intro triple_bind [where R = "\<lambda>_ _. True"] reserve_stock_triple lift_triple pricing_triple save_triple triple_ret TrueI
      frame_triple [of "clear_cart_items cid"]) (auto simp: clear_cart_items_def db_monad)

lemma retry_inv:
  assumes work: "\<And>n. triple (catalog_inv E G) (\<lambda>_. True) (work (turn n)) (\<lambda>_ _. True)"
    and others: "\<And>n db. catalog_inv E G db \<Longrightarrow> catalog_inv E G (at_others (turn n) db)"
  shows "execute_with_retry turn work n db = (x, db') \<Longrightarrow> catalog_inv E G db \<Longrightarrow> catalog_inv E G db'"
proof (induction "MAX_RETRIES - n" arbitrary: n db rule: less_induct)
  case less
  obtain y db1 where u: "run_unit_of_work (at_aborts (turn n)) (work (turn n)) (at_others (turn n) db) = (y, db1)" by force
  have inv1: "catalog_inv E G db1"
    using u others [OF less.prems(2), of n] work [of n]
    by (auto simp: run_unit_of_work_def transaction_def triple_def split: if_splits prod.splits sum.splits)
  show ?case
  proof (cases "\<exists>e. y = Inl e \<and> is_conflict e \<and> n < MAX_RETRIES")
    case True
    then have "execute_with_retry turn work (Suc n) db1 = (x, db')"
      using less.prems(1) u by (auto simp: execute_with_retry.simps [of turn work n db])
    moreover have "MAX_RETRIES - Suc n < MAX_RETRIES - n" using True by auto
    ultimately show ?thesis using less.hyps inv1 by blast
  next
    case False
    then have "db' = db1"
      using less.prems(1) u by (auto simp: execute_with_retry.simps [of turn work n db] split: sum.splits if_splits)
    then show ?thesis using inv1 by simp
  qed
qed

lemma checkout_triple:
  assumes inj: "inj (gen_id E)" and others: "\<And>n db. catalog_inv E G db \<Longrightarrow> catalog_inv E G (at_others (turn n) db)"
  shows "triple (catalog_inv E G) P (checkout E flag turn uid input) (\<lambda>_ _. True)"
proof -
  have replay: "triple (catalog_inv E G) P (replay_or_throw uid key e) (\<lambda>_ _. True)" for P key e
    by (rule read_only_triple)
      (auto simp: replay_or_throw_def db_monad split: option.splits if_splits elim!: dbind_cases dest: read_only(2))
  have run: "triple (catalog_inv E G) P (\<lambda>db. case execute_with_retry turn (place_order E flag u cid items input) 0 db of
                 (Inl e, db') \<Rightarrow> replay_or_throw uid (ci_idempotency_key input) e db'
               | (Inr persisted, db') \<Rightarrow>
                   dbind (find_order_with_items (ar_id persisted)) (\<lambda>full.
                   case full of
                     None \<Rightarrow> dthrow (PlainError ''Failed to retrieve created order'')
                   | Some v \<Rightarrow> dret \<lparr>ck_order = v, ck_idempotent = False\<rparr>) db') (\<lambda>_ _. True)" for P u cid items
  proof (rule tripleI)
    fix s x s' assume inv: "catalog_inv E G s" and r: "(case execute_with_retry turn (place_order E flag u cid items input) 0 s of
                 (Inl e, db') \<Rightarrow> replay_or_throw uid (ci_idempotency_key input) e db'
               | (Inr persisted, db') \<Rightarrow>
                   dbind (find_order_with_items (ar_id persisted)) (\<lambda>full.
                   case full of
                     None \<Rightarrow> dthrow (PlainError ''Failed to retrieve created order'')
                   | Some v \<Rightarrow> dret \<lparr>ck_order = v, ck_idempotent = False\<rparr>) db') = (x, s')"
    obtain y s1 where y: "execute_with_retry turn (place_order E flag u cid items input) 0 s = (y, s1)" by force
    have inv1: "catalog_inv E G s1"
      by (rule retry_inv [where turn = turn, OF _ others y inv]) (rule place_triple [OF inj], assumption)
    have "catalog_inv E G s'"
    proof (cases y)
      case (Inl e)
      then show ?thesis using r y inv1 tripleD [OF replay inv1, of "\<lambda>_. True"] by simp
    next
      case (Inr o')
      then have "s' = s1"
        using r y by (auto simp: db_monad split: option.splits elim!: dbind_cases dest: read_only(3))
      then show ?thesis using inv1 by simp
    qed
    then show "catalog_inv E G s' \<and> (\<forall>a. x = Inr a \<longrightarrow> True)" by simp
  qed
  have new: "triple (catalog_inv E G) P (checkout_new E flag turn uid input) (\<lambda>_ _. True)" for P
    unfolding checkout_new_def
    by (rule triple_bind [where R = "\<lambda>_ _. True"], rule read_only_triple)
      (auto dest: read_only(1) intro: triple_throw run split: option.split)
  show ?thesis
    unfolding checkout_def
    by (auto intro!: new triple_bind [where R = "\<lambda>_ _. True"] read_only_triple [of "find_order_by_idempotency_key uid k" for k] triple_ret
        dest: read_only(2) split: option.split)
qed


subsection \<open>The administration\<close>

lemma read_slug_triple:
  assumes "\<And>n db. catalog_inv E G db \<Longrightarrow> catalog_inv E G (intf n db)"
  shows "triple (catalog_inv E G) P (check_slug intf d r) (\<lambda>_ _. True)"
proof -
  have "triple (catalog_inv E G) P (dbind (at_statement intf 1 (find_by_slug_id s)) (\<lambda>existing.
            if existing \<noteq> None then dthrow (validation_error ''Slug already exists'') else dret ())) (\<lambda>_ _. True)" for s P
    by (intro triple_bind [where R = "\<lambda>_ _. True"] triple_if triple_throw triple_ret TrueI read_triple assms)
      (simp_all add: find_by_slug_id_def db_monad)
  then show ?thesis
    unfolding check_slug_def by (cases "pp_slug d") (simp_all add: triple_ret)
qed

lemma write_at:
  assumes keeps: "\<And>n db. catalog_inv E G db \<Longrightarrow> catalog_inv E G (intf n db)" and m: "triple (catalog_inv E G) (\<lambda>_. True) m (\<lambda>_ _. True)"
  shows "triple (catalog_inv E G) P (at_statement intf n m) (\<lambda>_ _. True)"
  by (rule triple_at, erule keeps, rule m)

lemma update_triple:
  assumes keeps: "\<And>n db. catalog_inv E G db \<Longrightarrow> catalog_inv E G (intf n db)" and inj: "inj (gen_id E)"
    and ev: "\<exists>ev \<in> set (ar_events ag). announcing ev pid"
  shows "triple (catalog_inv E G) P (at_statement intf n (update_with_events E pid d ag)) (\<lambda>_ _. True)"
    and "triple (catalog_inv E G) P (at_statement intf n (set_active_with_events E pid b ag)) (\<lambda>_ _. True)"
proof -
  show "triple (catalog_inv E G) P (at_statement intf n (update_with_events E pid d ag)) (\<lambda>_ _. True)"
    unfolding update_with_events_def by (rule write_at [OF keeps], assumption, rule write_announced [OF inj _ ev]) (rule patch_keeps_id)
  show "triple (catalog_inv E G) P (at_statement intf n (set_active_with_events E pid b ag)) (\<lambda>_ _. True)"
    unfolding set_active_with_events_def by (rule write_at [OF keeps], assumption, rule write_announced [OF inj _ ev]) auto
qed

lemma marked_announced:
  assumes "hydrate_record r = Inr ent" and "prow_id (pr_row r) = pid" and "pid \<noteq> []"
  shows "\<exists>ev \<in> set (ar_events (product_mark_updated now ent)). announcing ev pid"
    and "product_deactivate now ent = Inr ent' \<Longrightarrow> \<exists>ev \<in> set (ar_events ent'). announcing ev pid"
    and "product_activate now ent = Inr ent' \<Longrightarrow> \<exists>ev \<in> set (ar_events ent'). announcing ev pid"
  using hydrate_record_facts [OF assms(1)] assms(2) product_events_announce [OF assms(3)]
  by (auto simp: product_mark_updated_def product_deactivate_def product_activate_def raise_def split: if_splits)

lemma admin_update_triple:
  assumes keeps: "\<And>n db. catalog_inv E G db \<Longrightarrow> catalog_inv E G (intf n db)" and inj: "inj (gen_id E)" and ok: "patch_ok d"
  shows "triple (catalog_inv E G) P (admin_update E now intf pid d) (\<lambda>_ _. True)"
  unfolding admin_update_def
proof (rule triple_bind [OF load_triple], erule keeps, rule triple_fact, elim conjE)
  fix r :: product_record assume r: "prow_id (pr_row r) = pid" "pid \<noteq> []" "money_column (prow_price (pr_row r)) = Inr (pr_price r)"
  have stored: "triple (catalog_inv E G) (\<lambda>_. hydrate_record r = Inr ent) (case pp_price d of
       Some new \<Rightarrow>
         if new \<noteq> pr_price r
         then dbind (dlift (rbind (new_money new) (\<lambda>m. product_change_price now m ent))) (\<lambda>entity'.
              at_statement intf 2 (update_with_events E pid d entity'))
         else at_statement intf 2 (update_with_events E pid d (product_mark_updated now ent))
     | None \<Rightarrow> at_statement intf 2 (update_with_events E pid d (product_mark_updated now ent))) (\<lambda>_ _. True)" for ent
  proof (rule triple_fact)
    assume ent: "hydrate_record r = Inr ent"
    have mark: "triple (catalog_inv E G) P (at_statement intf 2 (update_with_events E pid d (product_mark_updated now ent))) (\<lambda>_ _. True)" for P
      by (rule update_triple(1) [OF keeps inj marked_announced(1) [OF ent r(1,2)]])
    have change: "triple (catalog_inv E G) P (dbind (dlift (rbind (new_money new) (\<lambda>m. product_change_price now m ent))) (\<lambda>entity'.
              at_statement intf 2 (update_with_events E pid d entity'))) (\<lambda>_ _. True)"
      if new: "pp_price d = Some new" "new \<noteq> pr_price r" for new P
    proof (rule triple_bind [where R = "\<lambda>e _. rbind (new_money new) (\<lambda>m. product_change_price now m ent) = Inr e"], rule lift_triple, assumption,
        rule triple_fact)
      fix e assume e: "rbind (new_money new) (\<lambda>m. product_change_price now m ent) = Inr e"
      have "is_safe_integer new" using ok new(1) by (simp add: patch_ok_def)
      note ev = new_price_announced [OF this new(2) e ent r]
      show "triple (catalog_inv E G) (\<lambda>_. True) (at_statement intf 2 (update_with_events E pid d e)) (\<lambda>_ _. True)"
        by (rule update_triple(1), erule keeps, rule inj, rule ev)
    qed
    show "triple (catalog_inv E G) (\<lambda>_. True) (case pp_price d of
       Some new \<Rightarrow>
         if new \<noteq> pr_price r
         then dbind (dlift (rbind (new_money new) (\<lambda>m. product_change_price now m ent))) (\<lambda>entity'.
              at_statement intf 2 (update_with_events E pid d entity'))
         else at_statement intf 2 (update_with_events E pid d (product_mark_updated now ent))
     | None \<Rightarrow> at_statement intf 2 (update_with_events E pid d (product_mark_updated now ent))) (\<lambda>_ _. True)"
      using mark change by (cases "pp_price d") simp_all
  qed
  show "triple (catalog_inv E G) (\<lambda>_. True) (dbind (check_slug intf d r) (\<lambda>_.
     dbind (dlift (hydrate_record r)) (\<lambda>entity.
     case pp_price d of
       Some new \<Rightarrow>
         if new \<noteq> pr_price r
         then dbind (dlift (rbind (new_money new) (\<lambda>m. product_change_price now m entity))) (\<lambda>entity'.
              at_statement intf 2 (update_with_events E pid d entity'))
         else at_statement intf 2 (update_with_events E pid d (product_mark_updated now entity))
     | None \<Rightarrow> at_statement intf 2 (update_with_events E pid d (product_mark_updated now entity))))) (\<lambda>_ _. True)"
    by (rule triple_bind [OF read_slug_triple], erule keeps, rule triple_bind [OF lift_triple stored])
qed

lemma admin_toggle_triple:
  assumes keeps: "\<And>n db. catalog_inv E G db \<Longrightarrow> catalog_inv E G (intf n db)" and inj: "inj (gen_id E)"
  shows "triple (catalog_inv E G) P (admin_delete E now intf pid) (\<lambda>_ _. True)"
    and "triple (catalog_inv E G) P (admin_restore E now intf pid) (\<lambda>_ _. True)"
proof -
  have toggle: "triple (catalog_inv E G) P (dbind (load_product intf pid) (\<lambda>r.
     dbind (dlift (rbind (hydrate_record r) f)) (\<lambda>entity.
     at_statement intf 2 (set_active_with_events E pid b entity)))) (\<lambda>_ _. True)"
    if f: "\<And>(r :: product_record) ent ent'. hydrate_record r = Inr ent \<Longrightarrow> prow_id (pr_row r) = pid \<Longrightarrow> pid \<noteq> [] \<Longrightarrow> f ent = Inr ent'
        \<Longrightarrow> \<exists>ev \<in> set (ar_events ent'). announcing ev pid" for f b
  proof (rule triple_bind [OF load_triple], erule keeps, rule triple_fact, elim conjE)
    fix r :: product_record assume r: "prow_id (pr_row r) = pid" "pid \<noteq> []"
    show "triple (catalog_inv E G) (\<lambda>_. True) (dbind (dlift (rbind (hydrate_record r) f)) (\<lambda>entity.
       at_statement intf 2 (set_active_with_events E pid b entity))) (\<lambda>_ _. True)"
    proof (rule triple_bind [where R = "\<lambda>e _. rbind (hydrate_record r) f = Inr e"], rule lift_triple, assumption, rule triple_fact)
      fix e assume "rbind (hydrate_record r) f = Inr e"
      then obtain ent where ent: "hydrate_record r = Inr ent" "f ent = Inr e" by (auto simp: rbind_Inr_iff)
      show "triple (catalog_inv E G) (\<lambda>_. True) (at_statement intf 2 (set_active_with_events E pid b e)) (\<lambda>_ _. True)"
        by (rule update_triple(2) [OF keeps inj f [OF ent(1) r ent(2)]])
    qed
  qed
  show "triple (catalog_inv E G) P (admin_delete E now intf pid) (\<lambda>_ _. True)"
    unfolding admin_delete_def by (rule toggle) (rule marked_announced(2))
  show "triple (catalog_inv E G) P (admin_restore E now intf pid) (\<lambda>_ _. True)"
    unfolding admin_restore_def by (rule toggle) (rule marked_announced(3))
qed

end
