(* ===== verification/Catalog_Sync.thy ===== *)
theory Catalog_Sync
  imports Catalog_Projection
begin

text \<open>
  The shop's traffic on products: the administration, checkouts, the image job and the deliveries of the relay run between each
  other's statements, and the catalog ends as the products are.
\<close>

subsection \<open>New products and images\<close>

lemma product_create_E:
  assumes "product_create now pid d db = (Inr p, db1)"
  obtains "find_product pid db = None" and "prow_id p = pid" and "prow_version p = 0" and "db1 = db\<lparr>products := products db @ [p]\<rparr>"
  using assms by (auto simp: product_create_def Let_def split: option.splits sum.splits if_splits)

lemma create_triple:
  assumes inj: "inj (gen_id E)" and ev: "\<exists>ev \<in> set (ar_events ag). announcing ev (ar_id ag)" and pid: "ar_id ag \<noteq> []"
  shows "triple (catalog_inv E G) P (create_with_events E now d ag) (\<lambda>_ _. True)"
  unfolding create_with_events_def
proof (rule transaction_triple)
  fix s a s' assume inv: "catalog_inv E G s"
    and run: "dbind (product_create now (ar_id ag) d) (\<lambda>created. dbind (persist_domain_events E [ag] [ar_id ag \<mapsto> prow_version created])
      (\<lambda>_. dlift (to_product_record created))) s = (Inr a, s')"
  obtain q s1 where q: "product_create now (ar_id ag) d s = (Inr q, s1)"
    "dbind (persist_domain_events E [ag] [ar_id ag \<mapsto> prow_version q]) (\<lambda>_. dlift (to_product_record q)) s1 = (Inr a, s')"
    using run by (rule dbind_Inr_E)
  obtain x s2 where x: "persist_domain_events E [ag] [ar_id ag \<mapsto> prow_version q] s1 = (Inr x, s2)" "dlift (to_product_record q) s2 = (Inr a, s')"
    using q(2) by (rule dbind_Inr_E)
  have "ar_events ag \<noteq> []" using ev by auto
  note s2 = persist_aggregate [OF x(1) this]
  from q(1) have new: "find_product (ar_id ag) s = None" "prow_id q = ar_id ag" "s1 = s\<lparr>products := products s @ [q]\<rparr>"
    by (rule product_create_E, simp)+
  have fresh: "ar_id ag \<notin> prow_id ` set (products s)" using new(1) by (simp add: find_product_def find_by_None_iff)
  have "catalog_inv E G s2"
  proof (rule inv_publish [OF inv inj])
    show "outbox_events s2 = outbox_events s @ number_rows (gen_id E) (iso_of E) [ar_id ag \<mapsto> prow_version q] (id_supply s) (ar_events ag)"
      by (simp add: s2 new(3))
    show "distinct (map prow_id (products s2))" using catalog_invD(1) [OF inv] fresh new(2) by (simp add: s2 new(3))
    fix y assume "y \<in> set (products s2)"
    then have "y \<in> set (products s) \<or> y = q" by (auto simp: s2 new(3))
    then show "y \<in> set (products s) \<or> prow_id y \<noteq> [] \<and> (\<forall>p \<in> set (products s). prow_id p = prow_id y \<longrightarrow> prow_version p < prow_version y)
      \<and> (\<exists>ev \<in> set (ar_events ag). announcing ev (prow_id y))"
      using fresh new(2) pid ev by (auto simp: image_iff)
  qed (auto simp: s2 new(3))
  then show "catalog_inv E G s' \<and> True" using x(2) by (simp add: dlift_Inr)
qed

lemma hydrate_fresh: "product_hydrate d = Inr ent \<Longrightarrow> ar_id ent = pd_id d \<and> ar_events ent = []"
  by (auto simp: product_hydrate_def Let_def rbind_Inr_iff set_version_from_persistence_def split: if_splits option.splits)

lemma admin_create_triple:
  assumes keeps: "\<And>n db. catalog_inv E G db \<Longrightarrow> catalog_inv E G (intf n db)" and inj: "inj (gen_id E)" and pid: "pid \<noteq> []"
  shows "triple (catalog_inv E G) P (admin_create E now intf pid d) (\<lambda>_ _. True)"
  unfolding admin_create_def
proof (rule triple_bind [where R = "\<lambda>_ _. True"])
  let ?data = "\<lparr>pd_id = pid, pd_name = pi_name d, pd_description = Some (pi_description d), pd_price = pi_price d, pd_stock = pi_stock d,
    pd_category = pi_category d, pd_images = pi_images d, pd_slug = pi_slug d, pd_is_active = True, pd_version = None\<rparr>"
  show "triple (catalog_inv E G) P (at_statement intf 0 (find_by_slug_id (pi_slug d))) (\<lambda>_ _. True)"
    by (rule read_triple, erule keeps) (simp add: find_by_slug_id_def db_monad)
  have store: "triple (catalog_inv E G) (\<lambda>_. product_hydrate ?data = Inr ent) (at_statement intf 1 (create_with_events E now d (product_mark_created now ent)))
      (\<lambda>_ _. True)" for ent
  proof (rule triple_fact)
    assume "product_hydrate ?data = Inr ent"
    then have e: "ar_id (product_mark_created now ent) = pid" "product_created_event now pid \<in> set (ar_events (product_mark_created now ent))"
      using hydrate_fresh by (fastforce simp: product_mark_created_def raise_def)+
    then have "\<exists>ev \<in> set (ar_events (product_mark_created now ent)). announcing ev (ar_id (product_mark_created now ent))"
      using product_events_announce(1) [OF pid, of now] by auto
    then show "triple (catalog_inv E G) (\<lambda>_. True) (at_statement intf 1 (create_with_events E now d (product_mark_created now ent))) (\<lambda>_ _. True)"
      by (intro write_at create_triple keeps inj) (simp_all add: e(1) pid)
  qed
  show "triple (catalog_inv E G) (\<lambda>_. True) (if existing \<noteq> None then dthrow (validation_error ''Slug already exists'')
      else dbind (dlift (product_hydrate ?data)) (\<lambda>entity. at_statement intf 1 (create_with_events E now d (product_mark_created now entity))))
      (\<lambda>_ _. True)" for existing
    by (intro triple_if triple_throw triple_bind [OF lift_triple store])
qed

lemma process_image_triple:
  assumes keeps: "\<And>n db. catalog_inv E G db \<Longrightarrow> catalog_inv E G (intf n db)" and inj: "inj (gen_id E)"
  shows "triple (catalog_inv E G) P (process_image E now intf pid buffer url) (\<lambda>_ _. True)"
proof (cases "\<exists>b. buffer = Some b \<and> b \<noteq> []")
  case False
  then show ?thesis by (cases buffer) (auto simp: process_image_def triple_throw)
next
  case True
  let ?store = "\<lambda>(r :: product_record) ent. dbind (at_statement intf 2 (update_with_events E pid (empty_patch\<lparr>pp_images := Some (prow_images (pr_row r) @ [url])\<rparr>)
     (product_mark_updated now ent))) (\<lambda>_. dret url)"
  have store: "triple (catalog_inv E G) (\<lambda>_. hydrate_record r = Inr ent) (?store r ent) (\<lambda>_ _. True)"
    if r: "prow_id (pr_row r) = pid" "pid \<noteq> []" for r ent
  proof (rule triple_fact)
    assume "hydrate_record r = Inr ent"
    note ev = marked_announced(1) [OF this r]
    show "triple (catalog_inv E G) (\<lambda>_. True) (?store r ent) (\<lambda>_ _. True)"
      by (rule triple_bind [OF update_triple(1)], erule keeps, rule inj, rule ev) (rule triple_ret, rule TrueI)
  qed
  have rest: "triple (catalog_inv E G) (\<lambda>_. \<forall>r. found = Some r \<longrightarrow> prow_id (pr_row r) = pid \<and> pid \<noteq> []
      \<and> money_column (prow_price (pr_row r)) = Inr (pr_price r))
     (case found of None \<Rightarrow> dthrow (PlainError (''Product '' @ pid @ '' not found''))
        | Some r \<Rightarrow> dbind (dlift (hydrate_record r)) (?store r)) (\<lambda>_ _. True)" for found
  proof (rule triple_fact)
    assume f: "\<forall>r. found = Some r \<longrightarrow> prow_id (pr_row r) = pid \<and> pid \<noteq> [] \<and> money_column (prow_price (pr_row r)) = Inr (pr_price r)"
    have "triple (catalog_inv E G) (\<lambda>_. True) (dbind (dlift (hydrate_record r)) (?store r)) (\<lambda>_ _. True)" if "found = Some r" for r
      using f that by (intro triple_bind [OF lift_triple store]) auto
    then show "triple (catalog_inv E G) (\<lambda>_. True) (case found of None \<Rightarrow> dthrow (PlainError (''Product '' @ pid @ '' not found''))
        | Some r \<Rightarrow> dbind (dlift (hydrate_record r)) (?store r)) (\<lambda>_ _. True)"
      by (cases found) (simp_all add: triple_throw)
  qed
  have "triple (catalog_inv E G) P (dbind (at_statement intf 0 (find_product_by_id pid)) (\<lambda>found.
     case found of None \<Rightarrow> dthrow (PlainError (''Product '' @ pid @ '' not found''))
        | Some r \<Rightarrow> dbind (dlift (hydrate_record r)) (?store r))) (\<lambda>_ _. True)"
    by (rule triple_bind [OF read_product_triple rest], erule keeps)
  moreover obtain b where "buffer = Some b" "b \<noteq> []" using True by blast
  ultimately show ?thesis by (simp only: process_image_def option.case if_False)
qed


subsection \<open>A delivery\<close>

text \<open>What the relay does with a row that names a product, by \<^verbatim>\<open>run_handler\<close> and the projection handler: the handler reads the
  product, others commit, it writes the catalog, others commit, it refreshes the dashboard, others commit, and the tracker records
  the result. The statements of one catalog write are not split here; what others do between those is in \<^verbatim>\<open>Projection\<close>.\<close>

definition project_product :: "traffic_fun \<Rightarrow> domain_event \<Rightarrow> unit db_op" where
  "project_product intf ev db =
     (case str_field ''productId'' ev of
        None \<Rightarrow> (Inl PrismaClientValidationError, db)
      | Some pid \<Rightarrow> (case find_product pid db of
            None \<Rightarrow> dbind (dupdate (intf 0)) (\<lambda>_. dbind (dupdate (intf 1)) (\<lambda>_. refresh_dashboard)) db
          | Some p \<Rightarrow> dbind (dupdate (intf 0)) (\<lambda>_.
              dbind (write_product_catalog alone False (catalog_row_of p) (Some (prow_version p))) (\<lambda>_.
              dbind (dupdate (intf 1)) (\<lambda>_. refresh_dashboard))) db))"

definition result_of :: "error + unit \<Rightarrow> handler_result" where
  "result_of x = (case x of Inl e \<Rightarrow> Failed e | Inr _ \<Rightarrow> Succeeded)"

definition deliver_product :: "env \<Rightarrow> (error \<Rightarrow> string) \<Rightarrow> millis \<Rightarrow> traffic_fun \<Rightarrow> outbox_row \<Rightarrow> database \<Rightarrow> database" where
  "deliver_product E msg now intf r db =
     (if ob_event_name r \<notin> set product_projection_events then db
      else case deserialize_outbox_event E (ob_payload r) (ob_event_name r) (ob_aggregate_id r) of
        Inl _ \<Rightarrow> db
      | Inr ev \<Rightarrow>
          if handled r db then db
          else (case project_product intf ev db of (x, db') \<Rightarrow>
            db_record_result msg now (ob_id r) (projection_handler (ob_event_name r)) (result_of x) (intf 2 db')))"

lemma deserialized_name: "deserialize_outbox_event E p n a = Inr ev \<Longrightarrow> ev_name ev = n"
  unfolding deserialize_outbox_event_def by (auto simp: Let_def split: if_splits option.splits json.splits)

lemma product_handlers:
  "n \<in> set product_projection_events \<Longrightarrow>
   handlers_of (wire_domain_events a b c) n = [\<lparr>he_name = projection_handler n, he_fn = handle_product_event\<rparr>]"
  unfolding product_projection_events_def
  by (simp only: set_simps insert_iff empty_iff, elim disjE)
    (simp_all add: wire_domain_events_def register_order_event_subscriptions_def product_projection_events_def
      review_projection_events_def handlers_of_subscribe Let_def projection_handler_def, simp_all add: handlers_of_def)

text \<open>Without others it is the publication on the wired bus.\<close>

lemma deliver_is_publish:
  assumes "ob_event_name r \<in> set product_projection_events"
    and ev: "deserialize_outbox_event E (ob_payload r) (ob_event_name r) (ob_aggregate_id r) = Inr ev"
  shows "deliver_product E msg now (\<lambda>_ db. db) r db
    = snd (publish (wire_domain_events a b c) ev (Some (ob_id r, prisma_tracker msg now)) db)"
proof -
  have p: "project_product (\<lambda>_ db. db) ev db = handle_product_event ev db"
    by (auto simp: project_product_def handle_product_event_def upsert_product_def dbind_def db_monad split: option.splits sum.splits prod.splits)
  show ?thesis
    by (cases "handle_product_event ev db")
      (auto simp: deliver_product_def assms p publish_def deserialized_name [OF ev] product_handlers run_handler_def handled_def
        prisma_tracker_def result_of_def Let_def split: sum.splits)
qed


subsection \<open>What a delivery keeps\<close>

text \<open>The handler reads: the row comes under way with the product of that moment.\<close>

lemma inv_read:
  assumes inv: "catalog_inv E G db" and r: "r \<in> set (outbox_events db)"
    and n: "\<And>pid. announces E r pid \<Longrightarrow> found = find_product pid db" and found: "\<And>p. found = Some p \<Longrightarrow> p \<in> set (products db)"
  shows "catalog_inv E (insert (ob_id r, found, False) G) db"
proof -
  have "still_waits (insert (ob_id r, found, False) G) r' p"
    if w: "r' \<in> set (outbox_events db)" "announces E r' (prow_id p)" "still_waits G r' p" "p \<in> set (products db)" for r' p
  proof -
    have "found = Some p" if "ob_id r' = ob_id r"
    proof -
      have "r' = r" using catalog_invD(6) [OF inv] r w(1) that by (auto simp: distinct_map dest: inj_onD)
      then have "found = find_product (prow_id p) db" using n w(2) by blast
      then show ?thesis using find_by_distinct [OF catalog_invD(1) [OF inv] w(4)] by (simp add: find_product_def)
    qed
    then show ?thesis using w(3) by (auto simp: still_waits_def)
  qed
  then have waits: "projected_or_waiting E (insert (ob_id r, found, False) G) db p" if "p \<in> set (products db)" for p
    using catalog_invD(4) [OF inv that] that unfolding projected_or_waiting_def by blast
  show ?thesis
  proof (rule catalog_invI)
    show "fst ` insert (ob_id r, found, False) G \<subseteq> gen_id E ` {..<id_supply db}"
      using catalog_invD(7,9) [OF inv] r by auto
    show "was_read p0 db \<and> (w \<longrightarrow> was_written p0 db)" if "(i, Some p0, w) \<in> insert (ob_id r, found, False) G" for i p0 w
      using that found [of p0] in_flight_facts [OF inv] by (auto simp: was_read_def)
  qed (use catalog_invD [OF inv] waits in blast)+
qed

text \<open>The versioned write on the rows.\<close>

lemma catalog_write_rows:
  assumes d: "distinct (map pc_product_id rows)"
    and w: "versioned_write pc_product_id pc_source_version (catalog_upd False) slug_clash alone c rows = (x, rows')"
  shows "distinct (map pc_product_id rows')" and "x \<noteq> Inr () \<Longrightarrow> rows' = rows"
    and "c' \<in> set rows' \<Longrightarrow> c' \<in> set rows \<or> c'\<lparr>pc_avg_rating := Fin 0, pc_review_count := 0\<rparr> = c\<lparr>pc_avg_rating := Fin 0, pc_review_count := 0\<rparr>"
    and "c' \<in> set rows \<Longrightarrow> pc_product_id c' \<noteq> pc_product_id c \<or> pc_source_version c \<le> pc_source_version c' \<Longrightarrow> c' \<in> set rows'"
    and "x = Inr () \<Longrightarrow> \<exists>c' \<in> set rows'. pc_product_id c' = pc_product_id c \<and> pc_source_version c \<le> pc_source_version c'"
proof -
  have grows: "catalog.grows rs (alone n rs)" for n and rs :: "catalog_row list" by (simp add: alone_def catalog.grows_refl)
  note g = catalog.write_versions [OF d grows w]
  show "distinct (map pc_product_id rows')" using g(1) d by (simp add: catalog.grows_def)
  show "\<exists>c' \<in> set rows'. pc_product_id c' = pc_product_id c \<and> pc_source_version c \<le> pc_source_version c'" if "x = Inr ()"
    using g(2) [OF that] by (auto simp: catalog.version_of_def dest: find_by_SomeD)
  have cases: "rows' = rows \<or> rows' = rows @ [c] \<or> rows' = update_where (\<lambda>r. pc_product_id r = pc_product_id c \<and> pc_source_version r < pc_source_version c)
      (catalog_upd False c) rows"
    and same: "x \<noteq> Inr () \<Longrightarrow> rows' = rows"
    using w by (auto simp: versioned_write_def stmt_update_def stmt_create_def alone_def Let_def update_where_none split: if_splits option.splits)
  show "x \<noteq> Inr () \<Longrightarrow> rows' = rows" by (rule same)
  show "c' \<in> set rows \<or> c'\<lparr>pc_avg_rating := Fin 0, pc_review_count := 0\<rparr> = c\<lparr>pc_avg_rating := Fin 0, pc_review_count := 0\<rparr>" if "c' \<in> set rows'"
    using cases that by (auto simp: catalog_upd_def elim!: in_update_whereE split: if_splits)
  show "c' \<in> set rows'" if "c' \<in> set rows" "pc_product_id c' \<noteq> pc_product_id c \<or> pc_source_version c \<le> pc_source_version c'"
    using cases that by (auto simp: set_update_where image_iff)
qed


lemma matches_row: "catalog_matches c p \<longleftrightarrow> c\<lparr>pc_avg_rating := Fin 0, pc_review_count := 0\<rparr> = catalog_row_of p"
  by (simp add: catalog_matches_def)

lemma row_of_plain [simp]: "(catalog_row_of p)\<lparr>pc_avg_rating := Fin 0, pc_review_count := 0\<rparr> = catalog_row_of p"
  "(catalog_row_of p)\<lparr>pc_source_version := prow_version p\<rparr> = catalog_row_of p"
  "pc_product_id (catalog_row_of p) = prow_id p" "pc_source_version (catalog_row_of p) = prow_version p"
  by (simp_all add: catalog_row_of_def)

text \<open>The handler writes: the catalog is then at the version that was read, or newer.\<close>

lemma inv_write:
  assumes inv: "catalog_inv E (insert (i, Some p0, False) G) db"
    and w: "write_product_catalog alone False (catalog_row_of p0) (Some (prow_version p0)) db = (x, db')"
  shows "catalog_inv E (insert (i, Some p0, x = Inr ()) G) db'"
proof (cases "require_source_version (Some (prow_version p0))")
  case (Inl e)
  then have "x = Inl e" "db' = db" using w by (simp_all add: write_product_catalog_def)
  then show ?thesis using inv by simp
next
  case (Inr v)
  let ?F = "insert (i, Some p0, x = Inr ()) G"
  have v: "v = prow_version p0" using Inr by (simp add: require_source_version_def split: if_splits)
  obtain rows where rows: "versioned_write pc_product_id pc_source_version (catalog_upd False) slug_clash alone (catalog_row_of p0) (product_catalog db)
      = (x, rows)" "db' = db\<lparr>product_catalog := rows\<rparr>"
    using w Inr v by (auto simp: write_product_catalog_def split: prod.splits)
  note wr = catalog_write_rows [OF catalog_invD(2) [OF inv] rows(1)]
  have h: "handled r db' = handled r db" for r by (rule handled_cong) (simp add: rows(2))
  have read: "was_read p0 db" by (rule in_flight_facts(1) [OF inv insertI1])
  have stale: "prow_version p0 \<le> prow_version p" if "p \<in> set (products db)" "prow_id p = prow_id p0" for p
    using read same_product [OF inv that(1)] that(2) by (fastforce simp: was_read_def)
  have projected: "\<exists>c' \<in> set rows. catalog_matches c' p"
    if c: "c \<in> set (product_catalog db)" "catalog_matches c p" "p \<in> set (products db)" for c p
  proof -
    have "pc_product_id c \<noteq> prow_id p0 \<or> prow_version p0 \<le> pc_source_version c"
      using matches_key [OF c(2)] stale [OF c(3)] by auto
    then show ?thesis using wr(4) [OF c(1)] c(2) by auto
  qed
  have waits: "projected_or_waiting E ?F db' p" if p: "p \<in> set (products db)" for p
  proof -
    have "still_waits (insert (i, Some p0, False) G) r p \<Longrightarrow> still_waits ?F r p" for r
      by (auto simp: still_waits_def)
    then show ?thesis
      using catalog_invD(4) [OF inv p] projected [OF _ _ p] unfolding projected_or_waiting_def h by (auto simp: rows(2))
  qed
  have snap: "\<exists>p \<in> set (products db). prow_id p = pc_product_id c \<and> pc_source_version c \<le> prow_version p
      \<and> (pc_source_version c = prow_version p \<longrightarrow> catalog_matches c p)" if "c \<in> set rows" for c
    using wr(3) [OF that]
  proof
    assume "c\<lparr>pc_avg_rating := Fin 0, pc_review_count := 0\<rparr> = (catalog_row_of p0)\<lparr>pc_avg_rating := Fin 0, pc_review_count := 0\<rparr>"
    then have m: "catalog_matches c p0" by (simp add: matches_row)
    obtain p where p: "p \<in> set (products db)" "prow_id p = prow_id p0" "p = p0 \<or> prow_version p0 < prow_version p"
      using read by (auto simp: was_read_def)
    then show ?thesis using matches_key [OF m] m by (intro bexI [of _ p]) auto
  qed (rule catalog_invD(5) [OF inv])
  show ?thesis
  proof (rule catalog_invI)
    show "distinct (map pc_product_id (product_catalog db'))" using wr(1) by (simp add: rows(2))
    show "was_read q db' \<and> (w \<longrightarrow> was_written q db')" if q: "(j, Some q, w) \<in> ?F" for j q w
    proof
      have "was_read q db" using q read in_flight_facts(1) [OF inv] by blast
      then show "was_read q db'" by (simp add: was_read_def rows(2))
      show "w \<longrightarrow> was_written q db'"
      proof
        assume "w"
        then consider "q = p0" "x = Inr ()" | "was_written q db" using q in_flight_facts(2) [OF inv] by blast
        then show "was_written q db'"
        proof cases
          case 1
          then show ?thesis using wr(5) by (auto simp: was_written_def rows(2))
        next
          case 2
          then obtain c where c: "c \<in> set (product_catalog db)" "pc_product_id c = prow_id q" "prow_version q \<le> pc_source_version c"
            by (auto simp: was_written_def)
          then have "find_by pc_product_id (prow_id q) (product_catalog db) = Some c"
            using find_by_distinct [OF catalog_invD(2) [OF inv] c(1)] by simp
          moreover have "catalog.grows (product_catalog db) rows"
            by (rule catalog.write_versions(1) [OF catalog_invD(2) [OF inv] _ rows(1)]) (simp add: alone_def catalog.grows_refl)
          ultimately obtain c' where "find_by pc_product_id (prow_id q) rows = Some c'" "pc_source_version c \<le> pc_source_version c'"
            by (fastforce simp: catalog.grows_def catalog.version_of_def)
          then show ?thesis using c(3) by (auto simp: was_written_def rows(2) dest!: find_by_SomeD)
        qed
      qed
    qed
  qed (use catalog_invD [OF inv] waits snap in \<open>simp_all add: rows(2)\<close>)
qed

text \<open>The tracker records a result.\<close>

lemma record_log: "hl_event_id ` set (outbox_handler_log (db_record_result msg now i h x db)) \<subseteq> insert i (hl_event_id ` set (outbox_handler_log db))"
  by (auto simp: db_record_result_def Let_def log_key_def dest!: set_update_by)

lemma record_frame: "products (db_record_result msg now i h x db) = products db" "product_catalog (db_record_result msg now i h x db) = product_catalog db"
  "outbox_events (db_record_result msg now i h x db) = outbox_events db" "id_supply (db_record_result msg now i h x db) = id_supply db"
  by (simp_all add: db_record_result_def Let_def)

lemma record_handled: "handled r (db_record_result msg now i h x db)
    = (if ob_id r = i \<and> projection_handler (ob_event_name r) = h then x = Succeeded else handled r db)"
  unfolding handled_def by (rule db_has_record)

lemma inv_record:
  assumes inv: "catalog_inv E (insert (i, found, w) G) db" and w: "x = Succeeded \<Longrightarrow> w \<or> found = None"
  shows "catalog_inv E G (db_record_result msg now i h x db)"
proof -
  let ?db = "db_record_result msg now i h x db"
  have waits: "projected_or_waiting E G ?db p" if p: "p \<in> set (products db)" for p
    using catalog_invD(4) [OF inv p] unfolding projected_or_waiting_def record_frame
  proof
    assume "\<exists>r \<in> set (outbox_events db). announces E r (prow_id p) \<and> \<not> handled r db \<and> still_waits (insert (i, found, w) G) r p"
    then obtain r where r: "r \<in> set (outbox_events db)" "announces E r (prow_id p)" "\<not> handled r db" "still_waits (insert (i, found, w) G) r p"
      by blast
    have still: "still_waits G r p" using r(4) by (auto simp: still_waits_def)
    show "(\<exists>c \<in> set (product_catalog db). catalog_matches c p)
       \<or> (\<exists>r \<in> set (outbox_events db). announces E r (prow_id p) \<and> \<not> handled r ?db \<and> still_waits G r p)"
    proof (cases "ob_id r = i \<and> x = Succeeded")
      case True
      then have f: "found = Some p" "w" using r(4) w by (auto simp: still_waits_def)
      then have "was_written p db" by (intro in_flight_facts(2) [OF inv]) auto
      then obtain c where c: "c \<in> set (product_catalog db)" "pc_product_id c = prow_id p" "prow_version p \<le> pc_source_version c"
        by (auto simp: was_written_def)
      then obtain q where "q \<in> set (products db)" "prow_id q = prow_id p" "pc_source_version c \<le> prow_version q"
          "pc_source_version c = prow_version q \<longrightarrow> catalog_matches c q"
        using catalog_invD(5) [OF inv c(1)] by auto
      moreover from this have "q = p" using same_product [OF inv p] by blast
      ultimately show ?thesis using c by auto
    next
      case False
      then have "\<not> handled r ?db" using r(3) by (auto simp: record_handled)
      then show ?thesis using r still by blast
    qed
  qed blast
  have "i \<in> gen_id E ` {..<id_supply db}" using catalog_invD(9) [OF inv] by auto
  then have log: "hl_event_id ` set (outbox_handler_log ?db) \<subseteq> gen_id E ` {..<id_supply db}"
    using record_log catalog_invD(8) [OF inv] by blast
  show ?thesis
  proof (rule catalog_invI, unfold record_frame)
    show "was_read q ?db \<and> (w' \<longrightarrow> was_written q ?db)" if q: "(j, Some q, w') \<in> G" for j q w'
      using in_flight_facts [OF inv insertI2 [OF q]] by (simp add: was_read_def was_written_def record_frame)
  qed (use catalog_invD [OF inv] waits log in \<open>simp_all\<close>)
qed


text \<open>The catalog may change its ratings at any time.\<close>

definition like :: "catalog_row \<Rightarrow> catalog_row \<Rightarrow> bool" where
  "like c' c \<longleftrightarrow> pc_product_id c' = pc_product_id c \<and> pc_source_version c' = pc_source_version c
     \<and> (\<forall>p. catalog_matches c' p \<longleftrightarrow> catalog_matches c p)"

lemma inv_like:
  assumes inv: "catalog_inv E G db"
    and same: "products db' = products db" "outbox_events db' = outbox_events db" "outbox_handler_log db' = outbox_handler_log db" "id_supply db' = id_supply db"
      "map pc_product_id (product_catalog db') = map pc_product_id (product_catalog db)"
    and forth: "\<And>c. c \<in> set (product_catalog db) \<Longrightarrow> \<exists>c' \<in> set (product_catalog db'). like c' c"
    and from_old: "\<And>c'. c' \<in> set (product_catalog db') \<Longrightarrow> \<exists>c \<in> set (product_catalog db). like c' c"
  shows "catalog_inv E G db'"
proof (rule catalog_invI, unfold same)
  have h: "handled r db' = handled r db" for r by (rule handled_cong [OF same(3)])
  show "prow_id p \<noteq> [] \<and> projected_or_waiting E G db' p" if "p \<in> set (products db)" for p
    using catalog_invD(3,4) [OF inv that] forth unfolding projected_or_waiting_def h same(2) like_def by blast
  show "\<exists>p \<in> set (products db). prow_id p = pc_product_id c' \<and> pc_source_version c' \<le> prow_version p
      \<and> (pc_source_version c' = prow_version p \<longrightarrow> catalog_matches c' p)" if c': "c' \<in> set (product_catalog db')" for c'
  proof -
    obtain c where c: "c \<in> set (product_catalog db)" "like c' c" using from_old [OF c'] by blast
    then show ?thesis using catalog_invD(5) [OF inv c(1)] by (simp add: like_def)
  qed
  show "was_read q db' \<and> (w \<longrightarrow> was_written q db')" if "(i, Some q, w) \<in> G" for i q w
  proof -
    have "was_read q db'" using in_flight_facts(1) [OF inv that] by (simp add: was_read_def same)
    moreover have "was_written q db'" if wr: "was_written q db"
    proof -
      obtain c where c: "c \<in> set (product_catalog db)" "pc_product_id c = prow_id q" "prow_version q \<le> pc_source_version c"
        using wr by (auto simp: was_written_def)
      then show ?thesis using forth [OF c(1)] by (auto simp: was_written_def like_def)
    qed
    ultimately show ?thesis using in_flight_facts(2) [OF inv that] by blast
  qed
qed (use catalog_invD [OF inv] in simp_all)

lemma inv_ratings:
  assumes inv: "catalog_inv E G db"
  shows "catalog_inv E G (snd (refresh_product_rating pid db))"
proof (rule inv_like [OF inv])
  let ?rs = "map rv_rating (filter (\<lambda>r. rv_product_id r = pid) (reviews db))"
  let ?f = "\<lambda>c :: catalog_row. c\<lparr>pc_avg_rating := average_rating ?rs, pc_review_count := length ?rs\<rparr>"
  have rows: "product_catalog (snd (refresh_product_rating pid db)) = update_where (\<lambda>c. pc_product_id c = pid) ?f (product_catalog db)"
    by (simp add: refresh_product_rating_def transaction_def Let_def)
  have l: "like (if pc_product_id c = pid then ?f c else c) c" for c by (simp add: like_def catalog_matches_def)
  show "\<exists>c' \<in> set (product_catalog (snd (refresh_product_rating pid db))). like c' c" if "c \<in> set (product_catalog db)" for c
    unfolding rows set_update_where using that l by blast
  show "\<exists>c \<in> set (product_catalog db). like c' c" if "c' \<in> set (product_catalog (snd (refresh_product_rating pid db)))" for c'
    using that l unfolding rows set_update_where by blast
  show "map pc_product_id (product_catalog (snd (refresh_product_rating pid db))) = map pc_product_id (product_catalog db)"
    unfolding rows by (rule map_update_where) simp
qed (simp_all add: refresh_product_rating_def transaction_def Let_def)

lemma inv_dashboard: "catalog_inv E G db \<Longrightarrow> refresh_dashboard db = (x, db') \<Longrightarrow> x = Inr () \<and> catalog_inv E G db'"
  by (auto simp: refresh_dashboard_def intro: inv_cong)

lemma announced_field:
  "announces E r pid \<Longrightarrow> deserialize_outbox_event E (ob_payload r) (ob_event_name r) (ob_aggregate_id r) = Inr ev
    \<Longrightarrow> str_field ''productId'' ev = Some pid"
  by (simp add: announces_def)

text \<open>A delivery, with any traffic at its statements that keeps the invariant for whatever is under way.\<close>

lemma deliver_keeps:
  assumes inv: "catalog_inv E G db" and r: "r \<in> set (outbox_events db)"
    and keeps: "\<And>n F db. catalog_inv E F db \<Longrightarrow> catalog_inv E F (intf n db)"
  shows "catalog_inv E G (deliver_product E msg now intf r db)"
proof (cases "ob_event_name r \<notin> set product_projection_events \<or> handled r db
    \<or> (\<exists>e. deserialize_outbox_event E (ob_payload r) (ob_event_name r) (ob_aggregate_id r) = Inl e)")
  case True
  then show ?thesis using inv by (auto simp: deliver_product_def split: sum.split)
next
  case False
  then obtain ev where ev: "deserialize_outbox_event E (ob_payload r) (ob_event_name r) (ob_aggregate_id r) = Inr ev"
    by (cases "deserialize_outbox_event E (ob_payload r) (ob_event_name r) (ob_aggregate_id r)") auto
  obtain x db' where run: "project_product intf ev db = (x, db')" by force
  have "\<exists>found w. catalog_inv E (insert (ob_id r, found, w) G) db' \<and> (x = Inr () \<longrightarrow> w \<or> found = None)"
  proof (cases "str_field ''productId'' ev")
    case None
    have "catalog_inv E (insert (ob_id r, None, False) G) db"
      using announced_field [OF _ ev] None by (intro inv_read [OF inv r]) auto
    then show ?thesis using run None by (auto simp: project_product_def)
  next
    case (Some pid)
    let ?found = "find_product pid db"
    have "catalog_inv E (insert (ob_id r, ?found, False) G) db"
      using announced_field [OF _ ev] Some
      by (intro inv_read [OF inv r]) (auto simp: find_product_def dest: find_by_SomeD)
    then have i0: "catalog_inv E (insert (ob_id r, ?found, False) G) (intf 0 db)" by (rule keeps)
    show ?thesis
    proof (cases "?found")
      case None
      then have "refresh_dashboard (intf 1 (intf 0 db)) = (x, db')"
        using run Some by (simp add: project_product_def dbind_def db_monad)
      with keeps [OF i0] have "catalog_inv E (insert (ob_id r, ?found, False) G) db'" by (blast dest: inv_dashboard)
      then show ?thesis using None by blast
    next
      case found: (Some p)
      obtain y db1 where y: "write_product_catalog alone False (catalog_row_of p) (Some (prow_version p)) (intf 0 db) = (y, db1)" by force
      have i1: "catalog_inv E (insert (ob_id r, Some p, y = Inr ()) G) db1"
        using inv_write [OF _ y] i0 found by simp
      show ?thesis
      proof (cases y)
        case (Inl e)
        then have "db' = db1" "x = Inl e" using run Some found y by (simp_all add: project_product_def dbind_def db_monad)
        then show ?thesis using i1 by (intro exI [of _ "Some p"] exI [of _ "y = Inr ()"]) simp
      next
        case (Inr u)
        then have "refresh_dashboard (intf 1 db1) = (x, db')"
          using run Some found y by (simp add: project_product_def dbind_def db_monad)
        with keeps [OF i1] have "catalog_inv E (insert (ob_id r, Some p, y = Inr ()) G) db'" by (blast dest: inv_dashboard)
        then show ?thesis using Inr by (intro exI [of _ "Some p"] exI [of _ "y = Inr ()"]) simp
      qed
    qed
  qed
  then obtain found w where f: "catalog_inv E (insert (ob_id r, found, w) G) db'" "x = Inr () \<longrightarrow> w \<or> found = None" by blast
  have "deliver_product E msg now intf r db
      = db_record_result msg now (ob_id r) (projection_handler (ob_event_name r)) (result_of x) (intf 2 db')"
    using False ev run by (simp add: deliver_product_def)
  moreover have "result_of x = Succeeded \<longrightarrow> w \<or> found = None" using f(2) by (cases x) (auto simp: result_of_def)
  ultimately show ?thesis using inv_record [OF keeps [OF f(1)]] by simp
qed

subsection \<open>Traffic\<close>

datatype shop_act =
    Create_Product ident product_input
  | Update_Product ident product_patch
  | Delete_Product ident
  | Restore_Product ident
  | Product_Image ident "string option" string
  | Place_Order "nat \<Rightarrow> attempt" ident checkout_input
  | Deliver_Event ident
  | Rate_Product ident

text \<open>A request of the shop at a time, with the requests that run at its statements, each with requests at its own.\<close>

datatype shop_traffic = Shop "nat \<Rightarrow> shop_traffic list" millis shop_act

definition act_op :: "env \<Rightarrow> (error \<Rightarrow> string) \<Rightarrow> traffic_fun \<Rightarrow> millis \<Rightarrow> shop_act \<Rightarrow> database \<Rightarrow> database" where
  "act_op E msg intf now act db =
     (case act of
        Create_Product pid d \<Rightarrow> snd (admin_create E now intf pid d db)
      | Update_Product pid d \<Rightarrow> snd (admin_update E now intf pid d db)
      | Delete_Product pid \<Rightarrow> snd (admin_delete E now intf pid db)
      | Restore_Product pid \<Rightarrow> snd (admin_restore E now intf pid db)
      | Product_Image pid buffer url \<Rightarrow> snd (process_image E now intf pid buffer url db)
      | Place_Order turn uid input \<Rightarrow> snd (checkout E True (\<lambda>n. (turn n)\<lparr>at_others := intf n\<rparr>) uid input db)
      | Deliver_Event i \<Rightarrow>
          (case find_by ob_id i (outbox_events db) of None \<Rightarrow> db | Some r \<Rightarrow> deliver_product E msg now intf r db)
      | Rate_Product pid \<Rightarrow> snd (refresh_product_rating pid db))"

primrec run_shop :: "env \<Rightarrow> (error \<Rightarrow> string) \<Rightarrow> shop_traffic \<Rightarrow> database \<Rightarrow> database" where
  "run_shop E msg (Shop between now act) =
     act_op E msg (\<lambda>n. fold (\<lambda>f. f) (map (run_shop E msg) (between n))) now act"

definition act_ok :: "shop_act \<Rightarrow> bool" where
  "act_ok act \<longleftrightarrow> (case act of Create_Product pid d \<Rightarrow> pid \<noteq> [] | Update_Product pid d \<Rightarrow> patch_ok d | _ \<Rightarrow> True)"

primrec traffic_ok :: "shop_traffic \<Rightarrow> bool" where
  "traffic_ok (Shop between now act) \<longleftrightarrow> act_ok act \<and> (\<forall>n. \<forall>b \<in> set (map traffic_ok (between n)). b)"

text \<open>The contract of what runs between the statements of a request.\<close>

locale catalog_interference =
  fixes E :: env and intf :: traffic_fun
  assumes stays: "inj (gen_id E) \<Longrightarrow> catalog_inv E G db \<Longrightarrow> catalog_inv E G (intf n db)"
begin

lemma snd_triple: "triple (catalog_inv E G) (\<lambda>_. True) m (\<lambda>_ _. True) \<Longrightarrow> catalog_inv E G db \<Longrightarrow> catalog_inv E G (snd (m db))"
  unfolding triple_def by (metis prod.collapse)

lemma act_keeps:
  assumes ids: "inj (gen_id E)" and inv: "catalog_inv E G db" and ok: "act_ok act"
  shows "catalog_inv E G (act_op E msg intf now act db)"
proof -
  note keeps = stays [OF ids]
  show ?thesis
  proof (cases act)
    case (Create_Product pid d)
    then show ?thesis using ok snd_triple [OF admin_create_triple [OF keeps ids] inv] by (simp add: act_op_def act_ok_def)
  next
    case (Update_Product pid d)
    then show ?thesis using ok snd_triple [OF admin_update_triple [OF keeps ids] inv] by (simp add: act_op_def act_ok_def)
  next
    case (Delete_Product pid)
    then show ?thesis using snd_triple [OF admin_toggle_triple(1) [OF keeps ids] inv] by (simp add: act_op_def)
  next
    case (Restore_Product pid)
    then show ?thesis using snd_triple [OF admin_toggle_triple(2) [OF keeps ids] inv] by (simp add: act_op_def)
  next
    case (Product_Image pid buffer url)
    then show ?thesis using snd_triple [OF process_image_triple [OF keeps ids] inv] by (simp add: act_op_def)
  next
    case (Place_Order turn uid input)
    have "triple (catalog_inv E G) (\<lambda>_. True) (checkout E True (\<lambda>n. (turn n)\<lparr>at_others := intf n\<rparr>) uid input) (\<lambda>_ _. True)"
      by (rule checkout_triple [OF ids]) (simp add: keeps)
    then show ?thesis using Place_Order snd_triple inv by (simp add: act_op_def)
  next
    case (Deliver_Event i)
    then show ?thesis
      using inv deliver_keeps [OF inv _ keeps] by (auto simp: act_op_def dest: find_by_SomeD split: option.split)
  next
    case (Rate_Product pid)
    then show ?thesis using inv_ratings [OF inv] by (simp add: act_op_def)
  qed
qed

end

text \<open>The admissible traffic at the statements of a request meets it.\<close>

definition admitted :: "env \<Rightarrow> (error \<Rightarrow> string) \<Rightarrow> (nat \<Rightarrow> shop_traffic list) \<Rightarrow> traffic_fun" where
  "admitted E msg between n = fold (\<lambda>f. f) (map (run_shop E msg) (filter traffic_ok (between n)))"

lemma admitted_all: "traffic_ok (Shop between now act) \<Longrightarrow>
   run_shop E msg (Shop between now act) = act_op E msg (admitted E msg between) now act"
proof -
  assume "traffic_ok (Shop between now act)"
  then have "filter traffic_ok (between n) = between n" for n by (intro filter_True) auto
  then show ?thesis by (simp add: admitted_def [abs_def])
qed

lemma fold_keeps:
  assumes "\<And>t db. t \<in> set ts \<Longrightarrow> catalog_inv E G db \<Longrightarrow> catalog_inv E G (run_shop E msg t db)" and "catalog_inv E G db"
  shows "catalog_inv E G (fold (\<lambda>f. f) (map (run_shop E msg) ts) db)"
  using assms by (induction ts arbitrary: db) simp_all

lemma run_shop_keeps:
  assumes "inj (gen_id E)"
  shows "traffic_ok t \<Longrightarrow> catalog_inv E G db \<Longrightarrow> catalog_inv E G (run_shop E msg t db)"
proof (induction t arbitrary: G db)
  case (Shop between now act)
  have "catalog_interference E (admitted E msg between)"
    unfolding admitted_def
    by (unfold_locales, rule fold_keeps) (auto intro: Shop.IH [OF rangeI])
  from catalog_interference.act_keeps [OF this assms Shop.prems(2)] show ?case
    using Shop.prems(1) admitted_all [OF Shop.prems(1)] by simp
qed

interpretation shop: catalog_interference E "admitted E msg between" for E :: env and msg :: "error \<Rightarrow> string" and between
  unfolding admitted_def by (unfold_locales, rule fold_keeps) (auto intro: run_shop_keeps)

lemma shop_keeps:
  assumes "inj (gen_id E)" and "catalog_inv E G db" and "\<forall>t \<in> set ts. traffic_ok t"
  shows "catalog_inv E G (fold (run_shop E msg) ts db)"
  using assms(2,3)
proof (induction ts arbitrary: db)
  case (Cons t ts)
  obtain between now act where t: "t = Shop between now act" by (cases t)
  have "catalog_inv E G (run_shop E msg t db)"
    using shop.act_keeps [OF assms(1) Cons.prems(1)] Cons.prems(2) admitted_all unfolding t by simp
  then show ?case using Cons.IH Cons.prems(2) by simp
qed simp

lemma catalog_in_step:
  assumes "catalog_inv E {} db" and "p \<in> set (products db)" and "\<forall>r \<in> set (outbox_events db). announces E r (prow_id p) \<longrightarrow> handled r db"
  shows "\<exists>c \<in> set (product_catalog db). c\<lparr>pc_avg_rating := Fin 0, pc_review_count := 0\<rparr> = catalog_row_of p"
  using catalog_invD(4) [OF assms(1,2)] assms(3) unfolding projected_or_waiting_def catalog_matches_def by blast



definition waiting_db :: database where
  "waiting_db = empty_db\<lparr>products := [tea_row], id_supply := 1,
     outbox_events := [outbox_row_of (iso_of sample_env) [''p1'' \<mapsto> 0] (gen_id sample_env 0) (product_created_event 5 ''p1'')]\<rparr>"

definition delivery :: shop_traffic where
  "delivery = Shop (\<lambda>_. []) 9 (Deliver_Event (gen_id sample_env 0))"

lemma waiting_inv: "catalog_inv sample_env {} waiting_db"
proof (rule catalog_invI)
  let ?r = "outbox_row_of (iso_of sample_env) [''p1'' \<mapsto> 0] (gen_id sample_env 0) (product_created_event 5 ''p1'')"
  fix p assume p: "p \<in> set (products waiting_db)"
  have "announces sample_env ?r ''p1''" by (intro announcing_row product_events_announce) simp
  moreover have "\<not> handled ?r waiting_db" by (simp add: handled_def db_has_succeeded_def waiting_db_def empty_db_def)
  ultimately show "prow_id p \<noteq> [] \<and> projected_or_waiting sample_env {} waiting_db p"
    using p by (simp add: projected_or_waiting_def still_waits_def waiting_db_def empty_db_def tea_row_def)
qed (simp_all add: waiting_db_def empty_db_def, simp add: outbox_row_of_def)

lemma delivered:
  "\<exists>db'. run_shop sample_env (\<lambda>_. []) delivery waiting_db = db' \<and> products db' = [tea_row] \<and> outbox_events db' = outbox_events waiting_db
     \<and> (\<forall>r \<in> set (outbox_events waiting_db). handled r db')"
proof -
  let ?ev = "product_created_event 5 ''p1''"
  let ?sv = "[''p1'' \<mapsto> 0 :: int]"
  let ?r = "outbox_row_of (iso_of sample_env) ?sv (gen_id sample_env 0) ?ev"
  have ok: "event_ok ?ev" using product_events_announce(1) [of "''p1''" 5] by (simp add: announcing_def)
  have sv: "?sv a = Some v \<Longrightarrow> 0 \<le> v \<and> v \<le> max_safe" for a and v :: int by (auto simp: max_safe_def split: if_splits)
  have d: "deserialize_outbox_event sample_env (ob_payload ?r) (ob_event_name ?r) (ob_aggregate_id ?r) = Inr (with_source_version ?sv ?ev)"
    by (simp only: outbox_row_of_def outbox_row.select_convs) (rule deserialize_stored [OF ok sample_env_ok], erule sv)
  have n: "ob_event_name ?r = ''ProductCreated''" "ob_id ?r = gen_id sample_env 0"
    by (simp_all add: outbox_row_of_def event_defs)
  have f: "str_field ''productId'' (with_source_version ?sv ?ev) = Some ''p1''"
    by (simp add: str_field_def with_source_version_def event_defs Let_def)
  have w: "write_product_catalog alone False (catalog_row_of tea_row) (Some (prow_version tea_row)) waiting_db
      = (Inr (), waiting_db\<lparr>product_catalog := [catalog_row_of tea_row]\<rparr>)"
  proof -
    have "\<not> slug_clash (catalog_row_of tea_row) ([] :: catalog_row list)" by (simp add: slug_clash_def)
    then have "versioned_write pc_product_id pc_source_version (catalog_upd False) slug_clash alone (catalog_row_of tea_row) [] = (Inr (), [catalog_row_of tea_row])"
      using catalog.write_alone [of "[]" "catalog_row_of tea_row" False] by simp
    moreover have "require_source_version (Some (prow_version tea_row)) = Inr (prow_version tea_row)"
      by (simp add: require_source_version_def tea_row_def safe_int_def max_safe_def)
    ultimately show ?thesis by (simp add: write_product_catalog_def waiting_db_def empty_db_def)
  qed
  have p: "find_product ''p1'' waiting_db = Some tea_row" by (simp add: find_product_def waiting_db_def empty_db_def tea_row_def)
  have idle: "(\<lambda>_ :: nat. id) = (\<lambda>_ (db :: database). db)" by (simp add: fun_eq_iff)
  have fresh: "\<not> handled ?r waiting_db" by (simp add: handled_def db_has_succeeded_def waiting_db_def empty_db_def)
  obtain x db' where x: "project_product (\<lambda>_ db. db) (with_source_version ?sv ?ev) waiting_db = (x, db')" by force
  have x': "x = Inr ()" "products db' = [tea_row]" "outbox_events db' = outbox_events waiting_db"
    using x by (simp_all add: project_product_def f p w dbind_def db_monad refresh_dashboard_def, auto simp: waiting_db_def empty_db_def)
  have row: "find_by ob_id (gen_id sample_env 0) (outbox_events waiting_db) = Some ?r" "outbox_events waiting_db = [?r]"
    by (simp_all add: waiting_db_def outbox_row_of_def)
  have "run_shop sample_env (\<lambda>_. []) delivery waiting_db = deliver_product sample_env (\<lambda>_. []) 9 (\<lambda>_ db. db) ?r waiting_db"
    by (simp add: delivery_def act_op_def row(1) idle)
  also have "\<dots> = db_record_result (\<lambda>_. []) 9 (ob_id ?r) (projection_handler (ob_event_name ?r)) Succeeded db'"
    using d fresh x x'(1) by (simp add: deliver_product_def n product_projection_events_def result_of_def)
  finally show ?thesis
    using x' row(2) by (simp add: record_frame record_handled)
qed



text \<open>The admissible patches matter: a price that rounds to the stored one changes the version of the product without an event, as the
  aggregate compares rounded amounts and the service unrounded ones, so the catalog is not told of the update.\<close>

lemma rounded_price_is_not_announced:
  assumes "find_product pid db = Some p" and "money_column (prow_price p) = Inr amount"
    and h: "hydrate_record \<lparr>pr_row = p, pr_price = amount\<rparr> = Inr ent" and "pp_slug d = None"
    and n: "pp_price d = Some n" "n \<noteq> amount" and m: "new_money n = Inr m" "m_amount m = m_amount (p_price ent)" "0 \<le> m_amount m"
    and u: "product_update pid (patch_row d) db = (Inr q, db')" "to_product_record q = Inr r"
  shows "admin_update E now (\<lambda>_ db. db) pid d db = (Inr r, db')" and "prow_version q = prow_version p + 1" and "outbox_events db' = outbox_events db"
proof -
  have read: "load_product (\<lambda>_ db. db) pid db = (Inr \<lparr>pr_row = p, pr_price = amount\<rparr>, db)"
    using assms(1,2) by (simp add: load_product_def at_statement_def find_product_by_id_def to_product_record_def dbind_def db_monad)
  have same: "rbind (new_money n) (\<lambda>m. product_change_price now m ent) = Inr ent"
    using m by (simp add: product_change_price_def)
  have run: "admin_update E now (\<lambda>_ db. db) pid d db = update_with_events E pid d ent db"
    using n assms(4) h same by (simp add: admin_update_def dbind_def read check_slug_def db_monad at_statement_def)
  have "ar_events ent = []" using hydrate_record_facts(2) [OF h] by simp
  then show "admin_update E now (\<lambda>_ db. db) pid d db = (Inr r, db')"
    unfolding run
    using u by (simp add: update_with_events_def transaction_def persist_domain_events_def persist_events_def dbind_def db_monad Let_def)
  show "prow_version q = prow_version p + 1" "outbox_events db' = outbox_events db"
    using u(1) assms(1) by (auto elim!: product_update_E)
qed

end
