(* ===== verification/Catalog_Service.thy ===== *)
theory Catalog_Service
  imports Catalog_Sync "HOL-Library.List_Lexorder" "HOL-Library.Multiset"
begin

text \<open>
  What visitors and administrators see of the products: \<^verbatim>\<open>modules/products/services/catalog.service.ts\<close> and the listing of
  \<^verbatim>\<open>admin-product.service.ts\<close>, over \<^verbatim>\<open>prisma-product-catalog-read.repository.ts\<close>, the reads of
  \<^verbatim>\<open>prisma-products.repository.ts\<close> and \<^verbatim>\<open>products.mapper.ts\<close>. \<open>collate\<close> gives the sort key of a text in the database's collation,
  \<open>touched\<close> the \<^verbatim>\<open>updatedAt\<close> column, which Prisma maintains. Rows that agree in the column of the order keep the order of the table.
\<close>

subsection \<open>Columns and orders\<close>

datatype column_value = Col_Flag bool | Col_Int int | Col_Text string

instantiation column_value :: linorder
begin

fun less_eq_column_value :: "column_value \<Rightarrow> column_value \<Rightarrow> bool" where
  "Col_Flag a \<le> Col_Flag b = (a \<longrightarrow> b)"
| "Col_Flag a \<le> c = True"
| "Col_Int a \<le> Col_Flag b = False"
| "Col_Int a \<le> Col_Int b = (a \<le> b)"
| "Col_Int a \<le> Col_Text b = True"
| "Col_Text a \<le> Col_Text b = (a \<le> b)"
| "Col_Text a \<le> c = False"

definition less_column_value :: "column_value \<Rightarrow> column_value \<Rightarrow> bool" where
  "less_column_value a b \<longleftrightarrow> a \<le> b \<and> \<not> b \<le> a"

instance
proof
  fix x y z :: column_value
  show "(x < y) = (x \<le> y \<and> \<not> y \<le> x)" by (simp add: less_column_value_def)
  show "x \<le> x" by (cases x) simp_all
  show "x \<le> y \<Longrightarrow> y \<le> z \<Longrightarrow> x \<le> z" by (cases x; cases y; cases z) auto
  show "x \<le> y \<Longrightarrow> y \<le> x \<Longrightarrow> x = y" by (cases x; cases y) auto
  show "x \<le> y \<or> y \<le> x" by (cases x; cases y) auto
qed

end

text \<open>A descending order is stable too.\<close>

definition sort_rows :: "('r \<Rightarrow> column_value) \<Rightarrow> bool \<Rightarrow> 'r list \<Rightarrow> 'r list" where
  "sort_rows key ascending rows = (if ascending then sort_key key rows else rev (sort_key key (rev rows)))"

definition catalog_column :: "(string \<Rightarrow> string) \<Rightarrow> string \<Rightarrow> (catalog_row \<Rightarrow> column_value) option" where
  "catalog_column collate name =
     (if name = ''createdAt'' then Some (\<lambda>c. Col_Int (pc_created_at c))
      else if name = ''price'' then Some (\<lambda>c. Col_Int (pc_price c))
      else if name = ''name'' then Some (\<lambda>c. Col_Text (collate (pc_name c)))
      else if name = ''stock'' then Some (\<lambda>c. Col_Int (pc_stock c))
      else if name = ''reviewCount'' then Some (\<lambda>c. Col_Int (int (pc_review_count c)))
      else if name = ''category'' then Some (\<lambda>c. Col_Text (collate (pc_category c)))
      else if name = ''slug'' then Some (\<lambda>c. Col_Text (collate (pc_slug c)))
      else if name = ''isActive'' then Some (\<lambda>c. Col_Flag (pc_is_active c))
      else None)"

definition product_column :: "(string \<Rightarrow> string) \<Rightarrow> string \<Rightarrow> (product_row \<Rightarrow> column_value) option" where
  "product_column collate name =
     (if name = ''createdAt'' then Some (\<lambda>p. Col_Int (prow_created_at p))
      else if name = ''price'' then Some (\<lambda>p. Col_Int (prow_price p))
      else if name = ''name'' then Some (\<lambda>p. Col_Text (collate (prow_name p)))
      else if name = ''stock'' then Some (\<lambda>p. Col_Int (prow_stock p))
      else if name = ''category'' then Some (\<lambda>p. Col_Text (collate (prow_category p)))
      else if name = ''slug'' then Some (\<lambda>p. Col_Text (collate (prow_slug p)))
      else if name = ''isActive'' then Some (\<lambda>p. Col_Flag (prow_is_active p))
      else None)"

text \<open>The request schemas admit the first three columns and \<^verbatim>\<open>rating\<close>; of the columns they do not admit, \<^verbatim>\<open>updatedAt\<close>,
  \<^verbatim>\<open>avgRating\<close>, the description, the images, the versions, the id and the search text are left out here, so \<open>None\<close> means a missing
  column only for the others. They also admit no limit below 1, for which the number of pages would not be finite.

  A filter on a row: the row as the product it shows.\<close>

definition catalog_product :: "catalog_row \<Rightarrow> product" where
  "catalog_product c = \<lparr>ar_id = pc_product_id c, ar_events = [], ar_version = pc_source_version c, p_name = pc_name c,
     p_description = pc_description c, p_price = vnd (pc_price c), p_stock = pc_stock c, p_category = pc_category c,
     p_images = pc_images c, p_slug = pc_slug c, p_is_active = pc_is_active c\<rparr>"

definition row_product :: "product_row \<Rightarrow> product" where
  "row_product p = catalog_product (catalog_row_of p)"

subsection \<open>The catalog read repository\<close>

record list_item =
  li_row :: catalog_row
  li_price :: js_num
  li_updated_at :: millis

definition to_list_item :: "(ident \<Rightarrow> millis) \<Rightarrow> catalog_row \<Rightarrow> error + list_item" where
  "to_list_item touched c = rbind (money_column (pc_price c)) (\<lambda>price.
     Inr \<lparr>li_row = c, li_price = price, li_updated_at = touched (pc_product_id c)\<rparr>)"

definition catalog_find_many ::
    "(string \<Rightarrow> string) \<Rightarrow> (ident \<Rightarrow> millis) \<Rightarrow> product_filter \<Rightarrow> string \<Rightarrow> bool \<Rightarrow> nat \<Rightarrow> nat \<Rightarrow> list_item list db_op" where
  "catalog_find_many collate touched flt column ascending skip limit db =
     (case catalog_column collate column of
        None \<Rightarrow> (Inl PrismaClientValidationError, db)
      | Some key \<Rightarrow> (rmap (to_list_item touched) (take limit (drop skip
          (sort_rows key ascending (filter (\<lambda>c. filter_matches flt (catalog_product c)) (product_catalog db))))), db))"

definition catalog_count :: "product_filter \<Rightarrow> nat db_op" where
  "catalog_count flt = dget (\<lambda>db. count_where (\<lambda>c. filter_matches flt (catalog_product c)) (product_catalog db))"

definition group_by_category :: "('r \<Rightarrow> bool) \<Rightarrow> ('r \<Rightarrow> string) \<Rightarrow> 'r list \<Rightarrow> (string \<times> nat) list" where
  "group_by_category active category rows =
     (let rs = filter active rows in map (\<lambda>c. (c, count_where (\<lambda>r. category r = c) rs)) (remdups (map category rs)))"

definition catalog_group_by_category :: "(string \<times> nat) list db_op" where
  "catalog_group_by_category = dget (\<lambda>db. group_by_category pc_is_active pc_category (product_catalog db))"

definition search_hits :: "string \<Rightarrow> catalog_row list \<Rightarrow> catalog_row list" where
  "search_hits text = filter (\<lambda>c. pc_is_active c \<and> is_infix (to_lower text) (to_lower (pc_search_text c)))"

definition catalog_search :: "(ident \<Rightarrow> millis) \<Rightarrow> string \<Rightarrow> nat \<Rightarrow> nat \<Rightarrow> list_item list db_op" where
  "catalog_search touched text skip limit db =
     (rmap (to_list_item touched) (take limit (drop skip
        (sort_rows (\<lambda>c. Col_Int (touched (pc_product_id c))) False (search_hits text (product_catalog db))))), db)"

definition catalog_count_search :: "string \<Rightarrow> nat db_op" where
  "catalog_count_search text = dget (\<lambda>db. length (search_hits text (product_catalog db)))"

subsection \<open>The reads of the product repository\<close>

record review_summary =
  rs_review :: review_row
  rs_reviewer :: user_row

definition review_with_user :: "database \<Rightarrow> review_row \<Rightarrow> review_summary option" where
  "review_with_user db r = map_option (\<lambda>u. \<lparr>rs_review = r, rs_reviewer = u\<rparr>) (find_user (rv_user_id r) db)"

text \<open>The foreign key of a review gives it its user.\<close>

definition reviews_of_product :: "ident \<Rightarrow> database \<Rightarrow> review_summary list" where
  "reviews_of_product pid db = List.map_filter (review_with_user db)
     (sort_rows (\<lambda>r. Col_Int (rv_created_at r)) False (filter (\<lambda>r. rv_product_id r = pid) (reviews db)))"

record product_with_reviews =
  pwr_product :: product_record
  pwr_reviews :: "review_summary list"

definition with_reviews :: "product_row option \<Rightarrow> product_with_reviews option db_op" where
  "with_reviews found db =
     (case found of
        None \<Rightarrow> (Inr None, db)
      | Some p \<Rightarrow> (rbind (to_product_record p) (\<lambda>r. Inr (Some \<lparr>pwr_product = r, pwr_reviews = reviews_of_product (prow_id p) db\<rparr>)), db))"

definition find_by_id_with_reviews :: "ident \<Rightarrow> product_with_reviews option db_op" where
  "find_by_id_with_reviews pid db = with_reviews (find_product pid db) db"

definition find_by_slug_with_reviews :: "string \<Rightarrow> product_with_reviews option db_op" where
  "find_by_slug_with_reviews slug db = with_reviews (find_by prow_slug slug (products db)) db"

definition find_many_admin_products :: "(string \<Rightarrow> string) \<Rightarrow> product_filter \<Rightarrow> string \<Rightarrow> bool \<Rightarrow> nat \<Rightarrow> nat \<Rightarrow> product_record list db_op" where
  "find_many_admin_products collate flt column ascending skip limit db =
     (case product_column collate column of
        None \<Rightarrow> (Inl PrismaClientValidationError, db)
      | Some key \<Rightarrow> (rmap to_product_record (take limit (drop skip
          (sort_rows key ascending (filter (\<lambda>p. filter_matches flt (row_product p)) (products db))))), db))"

definition find_many_with_ratings ::
    "(string \<Rightarrow> string) \<Rightarrow> product_filter \<Rightarrow> string \<Rightarrow> bool \<Rightarrow> nat \<Rightarrow> nat \<Rightarrow> (product_record \<times> int list) list db_op" where
  "find_many_with_ratings collate flt column ascending skip limit =
     dbind (find_many_admin_products collate flt column ascending skip limit) (\<lambda>ps.
     dget (\<lambda>db. map (\<lambda>p. (p, map rv_rating (filter (\<lambda>r. rv_product_id r = prow_id (pr_row p)) (reviews db)))) ps))"

definition count_products :: "product_filter \<Rightarrow> nat db_op" where
  "count_products flt = dget (\<lambda>db. count_where (\<lambda>p. filter_matches flt (row_product p)) (products db))"

definition product_group_by_category :: "(string \<times> nat) list db_op" where
  "product_group_by_category = dget (\<lambda>db. group_by_category prow_is_active prow_category (products db))"

subsection \<open>Services\<close>

definition MAX_PAGE_LIMIT :: nat where
  "MAX_PAGE_LIMIT = 50"

record 'a listing =
  lg_items :: "'a list"
  lg_total :: nat
  lg_page :: nat
  lg_limit :: nat
  lg_total_pages :: nat

definition with_default :: "'a \<Rightarrow> 'a option \<Rightarrow> 'a" where
  "with_default d x = (case x of None \<Rightarrow> d | Some v \<Rightarrow> v)"

definition make_listing :: "nat \<Rightarrow> nat \<Rightarrow> 'a list \<Rightarrow> nat \<Rightarrow> 'a listing" where
  "make_listing pg limit items n =
     \<lparr>lg_items = items, lg_total = n, lg_page = pg, lg_limit = limit, lg_total_pages = (n + limit - 1) div limit\<rparr>"

record catalog_query =
  cq_page :: "nat option"
  cq_limit :: "nat option"
  cq_category :: "string option"
  cq_min_price :: "js_num option"
  cq_max_price :: "js_num option"
  cq_keyword :: "string option"
  cq_sort_by :: "string option"
  cq_ascending :: "bool option"

definition catalog_filter :: "catalog_query \<Rightarrow> product_filter" where
  "catalog_filter q = to_filter (with_keyword (cq_keyword q) (with_price_range (cq_min_price q) (cq_max_price q)
     (with_category (cq_category q) (active_only True NoopSpecification))))"

text \<open>Both queries run at once: another request may commit between them.\<close>

definition find_all :: "(string \<Rightarrow> string) \<Rightarrow> (ident \<Rightarrow> millis) \<Rightarrow> traffic_fun \<Rightarrow> catalog_query \<Rightarrow> list_item listing db_op" where
  "find_all collate touched intf q =
     (let pg = with_default 1 (cq_page q); limit = min (with_default 12 (cq_limit q)) MAX_PAGE_LIMIT; skip = (pg - 1) * limit in
      dbind (at_statement intf 0 (catalog_find_many collate touched (catalog_filter q) (with_default ''createdAt'' (cq_sort_by q))
               (with_default False (cq_ascending q)) skip limit)) (\<lambda>items.
      dbind (at_statement intf 1 (catalog_count (catalog_filter q))) (\<lambda>n. dret (make_listing pg limit items n))))"

record product_detail =
  de_product :: product_record
  de_avg_rating :: js_num
  de_review_count :: nat
  de_reviews :: "review_summary list"

definition to_product_detail :: "product_with_reviews \<Rightarrow> product_detail" where
  "to_product_detail p =
     (let r = from_reviews (map (\<lambda>v. num_of_int (rv_rating (rs_review v))) (pwr_reviews p))
      in \<lparr>de_product = pwr_product p, de_avg_rating = rt_average r, de_review_count = rt_count r, de_reviews = pwr_reviews p\<rparr>)"

definition get_detail :: "product_with_reviews option db_op \<Rightarrow> product_detail db_op" where
  "get_detail m = dbind m (\<lambda>found. case found of
     None \<Rightarrow> dthrow (not_found_error ''Product not found'') | Some p \<Rightarrow> dret (to_product_detail p))"

definition catalog_find_by_id :: "ident \<Rightarrow> product_detail db_op" where
  "catalog_find_by_id pid = get_detail (find_by_id_with_reviews pid)"

definition get_by_slug :: "string \<Rightarrow> product_detail db_op" where
  "get_by_slug slug = get_detail (find_by_slug_with_reviews slug)"

definition get_categories :: "(string \<times> nat) list db_op" where
  "get_categories = catalog_group_by_category"

definition search_catalog :: "(ident \<Rightarrow> millis) \<Rightarrow> traffic_fun \<Rightarrow> string \<Rightarrow> nat option \<Rightarrow> nat option \<Rightarrow> list_item listing db_op" where
  "search_catalog touched intf text pg_opt limit_opt =
     (let pg = with_default 1 pg_opt; limit = min (with_default 12 limit_opt) MAX_PAGE_LIMIT in
      dbind (at_statement intf 0 (catalog_search touched text ((pg - 1) * limit) limit)) (\<lambda>items.
      dbind (at_statement intf 1 (catalog_count_search text)) (\<lambda>n. dret (make_listing pg limit items n))))"

record admin_query =
  aq_page :: "nat option"
  aq_limit :: "nat option"
  aq_category :: "string option"
  aq_keyword :: "string option"
  aq_is_active :: "bool option"
  aq_sort_by :: "string option"
  aq_ascending :: "bool option"

definition admin_filter :: "admin_query \<Rightarrow> product_filter" where
  "admin_filter q = to_filter (with_keyword (aq_keyword q) (with_category (aq_category q) (with_is_active (aq_is_active q) NoopSpecification)))"

definition admin_find_all :: "(string \<Rightarrow> string) \<Rightarrow> traffic_fun \<Rightarrow> admin_query \<Rightarrow> product_record listing db_op" where
  "admin_find_all collate intf q =
     (let pg = with_default 1 (aq_page q); limit = min (with_default 20 (aq_limit q)) MAX_PAGE_LIMIT; skip = (pg - 1) * limit in
      dbind (at_statement intf 0 (find_many_admin_products collate (admin_filter q) (with_default ''createdAt'' (aq_sort_by q))
               (with_default False (aq_ascending q)) skip limit)) (\<lambda>items.
      dbind (at_statement intf 1 (count_products (admin_filter q))) (\<lambda>n. dret (make_listing pg limit items n))))"


subsection \<open>Pages\<close>

lemma pages_concat: "concat (map (\<lambda>n. take l (drop (n * l) xs)) [0..<k]) = take (k * l) xs"
proof (induction k)
  case (Suc k)
  have "take (k * l) xs @ take l (drop (k * l) xs) = take (k * l + l) xs" by (simp add: take_add)
  then show ?case using Suc by (simp add: add.commute)
qed simp

lemma pages_cover: "0 < l \<Longrightarrow> (n :: nat) \<le> (n + l - 1) div l * l"
proof -
  assume "0 < l"
  then have "(n + l - 1) mod l < l" by simp
  moreover have "(n + l - 1) div l * l + (n + l - 1) mod l = n + l - 1" by (rule div_mult_mod_eq)
  ultimately show ?thesis by linarith
qed

lemma pages_all:
  assumes "0 < l"
  shows "concat (map (\<lambda>n. take l (drop (n * l) xs)) [0..<(length xs + l - 1) div l]) = xs"
  unfolding pages_concat using pages_cover [OF assms] by (intro take_all)

lemma mset_sort_rows [simp]: "mset (sort_rows key asc rows) = mset rows"
  by (simp add: sort_rows_def)

lemma length_sort_rows [simp]: "length (sort_rows key asc rows) = length rows"
  by (simp add: sort_rows_def)

lemma set_sort_rows [simp]: "set (sort_rows key asc rows) = set rows"
  by (simp add: sort_rows_def)

lemma with_default_simps [simp]: "with_default d None = d" "with_default d (Some v) = v"
  by (simp_all add: with_default_def)

definition in_order :: "('r \<Rightarrow> column_value) \<Rightarrow> bool \<Rightarrow> 'r \<Rightarrow> 'r \<Rightarrow> bool" where
  "in_order key ascending a b \<longleftrightarrow> (if ascending then key a \<le> key b else key b \<le> key a)"

lemma sorted_sort_rows: "sorted_wrt (in_order key asc) (sort_rows key asc rows)"
proof (cases asc)
  case True
  have "sorted (map key (sort_key key rows))" by simp
  then have "sorted_wrt (\<lambda>a b. key a \<le> key b) (sort_key key rows)" by (simp add: sorted_wrt_map)
  then show ?thesis using True by (simp add: sort_rows_def in_order_def [abs_def])
next
  case False
  have "sorted (map key (sort_key key (rev rows)))" by simp
  then have "sorted_wrt (\<lambda>a b. key a \<le> key b) (sort_key key (rev rows))" by (simp add: sorted_wrt_map)
  then show ?thesis using False by (simp add: sort_rows_def in_order_def [abs_def] sorted_wrt_rev)
qed

definition list_item_of :: "(ident \<Rightarrow> millis) \<Rightarrow> catalog_row \<Rightarrow> list_item" where
  "list_item_of touched c = \<lparr>li_row = c, li_price = num_of_int (pc_price c), li_updated_at = touched (pc_product_id c)\<rparr>"

text \<open>What a visitor asked for.\<close>

definition shown :: "catalog_query \<Rightarrow> catalog_row \<Rightarrow> bool" where
  "shown q c \<longleftrightarrow> pc_is_active c
     \<and> (cq_category q = None \<or> cq_category q = Some [] \<or> cq_category q = Some (pc_category c))
     \<and> (\<forall>l. cq_min_price q = Some l \<longrightarrow> \<not> js_less (num_of_int (pc_price c)) l)
     \<and> (\<forall>h. cq_max_price q = Some h \<longrightarrow> \<not> js_less h (num_of_int (pc_price c)))
     \<and> (cq_keyword q = None \<or> cq_keyword q = Some [] \<or> (\<exists>w. cq_keyword q = Some w \<and> (is_infix (to_lower w) (to_lower (pc_name c))
          \<or> (\<exists>d. pc_description c = Some d \<and> is_infix (to_lower w) (to_lower d)))))"

lemma catalog_filter_shown: "filter_matches (catalog_filter q) (catalog_product c) \<longleftrightarrow> shown q c"
  unfolding catalog_filter_def to_filter_sound shown_def
  by (auto simp: with_keyword_def with_price_range_def with_category_def active_only_def price_in_def catalog_product_def money_value_def
      split: option.splits list.splits)

lemma page_items:
  assumes "catalog_column collate (with_default ''createdAt'' (cq_sort_by q)) = Some key" and prices: "\<forall>c \<in> set (product_catalog db). 0 \<le> pc_price c \<and> pc_price c \<le> max_safe"
  shows "find_all collate touched (\<lambda>_ db. db) (q\<lparr>cq_page := Some (Suc n)\<rparr>) db
    = (let l = min (with_default 12 (cq_limit q)) MAX_PAGE_LIMIT; rows = sort_rows key (with_default False (cq_ascending q)) (filter (shown q) (product_catalog db))
       in (Inr (make_listing (Suc n) l (map (list_item_of touched) (take l (drop (n * l) rows))) (length rows)), db))"
proof -
  have s: "shown (q\<lparr>cq_page := p\<rparr>) = shown q" for p by (simp add: fun_eq_iff shown_def)
  have item: "to_list_item touched c = Inr (list_item_of touched c)" if "c \<in> set (product_catalog db)" for c
    using prices that by (simp add: to_list_item_def list_item_of_def money_column_eq)
  have all: "rmap (to_list_item touched) cs = Inr (map (list_item_of touched) cs)" if "set cs \<subseteq> set (product_catalog db)" for cs
    using that by (induction cs) (auto simp: item)
  have sub: "set (take l (drop k (sort_rows key asc (filter (shown q) (product_catalog db))))) \<subseteq> set (product_catalog db)" for l k asc
    using set_take_subset set_drop_subset by fastforce
  show ?thesis
    using assms(1) all [OF sub]
    by (simp add: find_all_def at_statement_def dbind_def db_monad catalog_find_many_def catalog_count_def catalog_filter_shown s Let_def count_where_def)
qed


lemma pages_of_query:
  assumes "catalog_column collate (with_default ''createdAt'' (cq_sort_by q)) = Some key" and l: "0 < with_default 12 (cq_limit q)"
    and prices: "\<forall>c \<in> set (product_catalog db). 0 \<le> pc_price c \<and> pc_price c \<le> max_safe"
  shows "\<exists>ls rows. (\<forall>n. find_all collate touched (\<lambda>_ db. db) (q\<lparr>cq_page := Some (Suc n)\<rparr>) db = (Inr (ls n), db) \<and> length (lg_items (ls n)) \<le> 50)
    \<and> concat (map (\<lambda>n. lg_items (ls n)) [0..<lg_total_pages (ls 0)]) = map (list_item_of touched) rows
    \<and> mset rows = filter_mset (shown q) (mset (product_catalog db)) \<and> sorted_wrt (in_order key (with_default False (cq_ascending q))) rows"
proof -
  define limit where "limit = min (with_default 12 (cq_limit q)) MAX_PAGE_LIMIT"
  define rows where "rows = sort_rows key (with_default False (cq_ascending q)) (filter (shown q) (product_catalog db))"
  define ls where "ls = (\<lambda>n. make_listing (Suc n) limit (map (list_item_of touched) (take limit (drop (n * limit) rows))) (length rows))"
  have pos: "0 < limit" "limit \<le> 50" using l by (simp_all add: limit_def MAX_PAGE_LIMIT_def)
  have run: "find_all collate touched (\<lambda>_ db. db) (q\<lparr>cq_page := Some (Suc n)\<rparr>) db = (Inr (ls n), db)" for n
    using page_items [OF assms(1) prices, of touched n] by (simp add: ls_def limit_def rows_def Let_def)
  have len: "length (lg_items (ls n)) \<le> 50" for n using pos(2) by (simp add: ls_def make_listing_def)
  have "concat (map (\<lambda>n. lg_items (ls n)) [0..<lg_total_pages (ls 0)])
      = map (list_item_of touched) (concat (map (\<lambda>n. take limit (drop (n * limit) rows)) [0..<(length rows + limit - 1) div limit]))"
    by (simp add: ls_def make_listing_def map_concat comp_def)
  also have "\<dots> = map (list_item_of touched) rows" by (simp only: pages_all [OF pos(1)])
  finally show ?thesis
    using run len by (intro exI [of _ ls] exI [of _ rows]) (simp add: rows_def sorted_sort_rows)
qed


definition any_query :: catalog_query where
  "any_query = \<lparr>cq_page = None, cq_limit = Some 1, cq_category = None, cq_min_price = None, cq_max_price = None, cq_keyword = Some ''tea'',
     cq_sort_by = Some ''price'', cq_ascending = None\<rparr>"

definition two_teas :: database where
  "two_teas = empty_db\<lparr>product_catalog := [catalog_row_of tea_row,
     (catalog_row_of tea_row)\<lparr>pc_product_id := ''p2'', pc_name := ''Green tea'', pc_slug := ''green-tea'', pc_price := 150000\<rparr>,
     (catalog_row_of tea_row)\<lparr>pc_product_id := ''p3'', pc_is_active := False\<rparr>]\<rparr>"


text \<open>No column of the catalog is called \<^verbatim>\<open>rating\<close>, the name the request schema admits.\<close>

lemma sort_by_rating_fails:
  "cq_sort_by q = Some ''rating'' \<Longrightarrow> find_all collate touched (\<lambda>_ db. db) q db = (Inl PrismaClientValidationError, db)"
  by (simp add: find_all_def at_statement_def catalog_find_many_def catalog_column_def dbind_def db_monad Let_def)

text \<open>The categories count every active row once.\<close>

lemma categories_count_rows: "sum_list (map snd (group_by_category active category rows)) = count_where active rows"
proof -
  have "sum_list (map (\<lambda>c. length (filter (\<lambda>r. category r = c) rs)) (remdups (map category rs))) = length rs" for rs
  proof -
    have "sum_list (map (\<lambda>c. count_list (map category rs) c) (remdups (map category rs))) = length (map category rs)"
      by (simp add: sum_list_distinct_conv_sum_set sum_count_set)
    moreover have "count_list (map category rs) c = length (filter (\<lambda>r. category r = c) rs)" for c
      by (induction rs) auto
    ultimately show ?thesis by simp
  qed
  from this [of "filter active rows"] show ?thesis by (simp only: group_by_category_def Let_def count_where_def comp_def map_map snd_conv)
qed

end
