(* ===== verification/Notifications.thy ===== *)
theory Notifications
  imports Catalog_Service
begin

text \<open>
  Notifications: \<^verbatim>\<open>modules/notifications/notifications.service.ts\<close> on \<^verbatim>\<open>prisma-notifications.repository.ts\<close>, and the handler
  \<^verbatim>\<open>modules/orders/event-handlers/order-status-changed.handler.ts\<close> that the event bus calls for a status change, at least once and
  possibly often. The upsert of a keyed notification is one statement of the database. Pages and limits are natural numbers, as the
  request schemas have them.
\<close>

subsection \<open>Pages\<close>

definition resolve_pagination :: "nat option \<Rightarrow> nat option \<Rightarrow> nat \<Rightarrow> nat \<Rightarrow> nat \<times> nat \<times> nat" where
  "resolve_pagination pg limit default_limit cap =
     (let safe_page = max (with_default 1 pg) 1; safe_limit = min (with_default default_limit limit) cap
      in (safe_page, safe_limit, (safe_page - 1) * safe_limit))"

subsection \<open>Repository\<close>

datatype notification_type = Info | Order_Update | Promotion | System_Note

fun notification_type_name :: "notification_type \<Rightarrow> string" where
  "notification_type_name Info = ''info''"
| "notification_type_name Order_Update = ''order_update''"
| "notification_type_name Promotion = ''promotion''"
| "notification_type_name System_Note = ''system''"

text \<open>A user id that is undefined is a missing argument for Prisma.\<close>

record notification_data =
  nd_user_id :: "ident option"
  nd_title :: string
  nd_message :: string
  nd_type :: string
  nd_idempotency_key :: "string option"

definition insert_notification :: "env \<Rightarrow> millis \<Rightarrow> notification_data \<Rightarrow> notification_row db_op" where
  "insert_notification E now d db =
     (case nd_user_id d of
        None \<Rightarrow> (Inl PrismaClientValidationError, db)
      | Some uid \<Rightarrow>
          if nd_idempotency_key d \<noteq> None \<and> find_by nt_idempotency_key (nd_idempotency_key d) (notifications db) \<noteq> None
          then (Inl unique_violation, db)
          else if find_user uid db = None then (Inl foreign_key_violation, db)
          else let n = \<lparr>nt_id = gen_id E (id_supply db), nt_user_id = uid, nt_title = nd_title d, nt_message = nd_message d,
                  nt_type = nd_type d, nt_read = False, nt_idempotency_key = nd_idempotency_key d, nt_created_at = now\<rparr>
            in (Inr n, db\<lparr>notifications := notifications db @ [n], id_supply := Suc (id_supply db)\<rparr>))"

definition notification_create :: "env \<Rightarrow> millis \<Rightarrow> notification_data \<Rightarrow> notification_row db_op" where
  "notification_create E now d db =
     (if nd_idempotency_key d = None \<or> nd_idempotency_key d = Some [] then insert_notification E now d db
      else case find_by nt_idempotency_key (nd_idempotency_key d) (notifications db) of
             Some n \<Rightarrow> (if nd_user_id d = None then Inl PrismaClientValidationError else Inr n, db)
           | None \<Rightarrow> insert_notification E now d db)"

definition notifications_of :: "ident \<Rightarrow> database \<Rightarrow> notification_row list" where
  "notifications_of uid db = filter (\<lambda>n. nt_user_id n = uid) (notifications db)"

definition notifications_by_user :: "ident \<Rightarrow> nat \<Rightarrow> nat \<Rightarrow> notification_row list db_op" where
  "notifications_by_user uid skip limit = dget (\<lambda>db.
     take limit (drop skip (sort_rows (\<lambda>n. Col_Int (nt_created_at n)) False (notifications_of uid db))))"

definition notification_count_by_user :: "ident \<Rightarrow> nat db_op" where
  "notification_count_by_user uid = dget (\<lambda>db. length (notifications_of uid db))"

definition find_by_id_and_user :: "ident \<Rightarrow> ident \<Rightarrow> notification_row option db_op" where
  "find_by_id_and_user i uid = dget (\<lambda>db. find (\<lambda>n. nt_id n = i \<and> nt_user_id n = uid) (notifications db))"

definition set_read :: "ident \<Rightarrow> notification_row db_op" where
  "set_read i db =
     (case find_by nt_id i (notifications db) of
        None \<Rightarrow> (Inl record_not_found, db)
      | Some n \<Rightarrow> (Inr (n\<lparr>nt_read := True\<rparr>), db\<lparr>notifications := update_by nt_id i (\<lambda>n. n\<lparr>nt_read := True\<rparr>) (notifications db)\<rparr>))"

definition mark_all_as_read_for_user :: "ident \<Rightarrow> nat db_op" where
  "mark_all_as_read_for_user uid db =
     (let unread = (\<lambda>n. nt_user_id n = uid \<and> \<not> nt_read n)
      in (Inr (count_where unread (notifications db)),
          db\<lparr>notifications := update_where unread (\<lambda>n. n\<lparr>nt_read := True\<rparr>) (notifications db)\<rparr>))"

subsection \<open>Service\<close>

definition get_notifications :: "traffic_fun \<Rightarrow> ident \<Rightarrow> nat option \<Rightarrow> nat option \<Rightarrow> notification_row listing db_op" where
  "get_notifications intf uid pg limit =
     (let p = with_default 1 pg; (_, safe_limit, skip) = resolve_pagination (Some p) (Some (with_default 10 limit)) 10 50 in
      dbind (at_statement intf 0 (notifications_by_user uid skip safe_limit)) (\<lambda>rows.
      dbind (at_statement intf 1 (notification_count_by_user uid)) (\<lambda>n. dret (make_listing p safe_limit rows n))))"

definition mark_as_read :: "traffic_fun \<Rightarrow> ident \<Rightarrow> ident \<Rightarrow> notification_row db_op" where
  "mark_as_read intf i uid =
     dbind (at_statement intf 0 (find_by_id_and_user i uid)) (\<lambda>found.
     case found of
       None \<Rightarrow> dthrow (not_found_error ''Notification not found'')
     | Some _ \<Rightarrow> at_statement intf 1 (set_read i))"

definition mark_all_as_read :: "ident \<Rightarrow> nat db_op" where
  "mark_all_as_read uid = mark_all_as_read_for_user uid"

definition create_notification ::
    "env \<Rightarrow> millis \<Rightarrow> ident option \<Rightarrow> string \<Rightarrow> string \<Rightarrow> notification_type \<Rightarrow> string option \<Rightarrow> notification_row db_op" where
  "create_notification E now uid title message kind key =
     notification_create E now \<lparr>nd_user_id = uid, nd_title = title, nd_message = message,
       nd_type = notification_type_name kind, nd_idempotency_key = key\<rparr>"

subsection \<open>The status handler\<close>

definition metadata_user_id :: "domain_event \<Rightarrow> ident option" where
  "metadata_user_id ev = (case ev_metadata ev of None \<Rightarrow> None
     | Some m \<Rightarrow> (case map_of m ''userId'' of Some (JStr u) \<Rightarrow> Some u | _ \<Rightarrow> None))"

definition shown_status :: "domain_event \<Rightarrow> string" where
  "shown_status ev = (case str_field ''newStatus'' ev of None \<Rightarrow> ''undefined'' | Some s \<Rightarrow> s)"

definition status_key :: "ident \<Rightarrow> string \<Rightarrow> string" where
  "status_key oid status = ''order-status-'' @ oid @ ''-'' @ status"

definition handle_status_notification :: "env \<Rightarrow> millis \<Rightarrow> domain_event \<Rightarrow> unit db_op" where
  "handle_status_notification E now ev =
     dbind (create_notification E now (metadata_user_id ev)
       (''Order '' @ ev_aggregate_id ev @ '' status changed to '' @ shown_status ev)
       (''Your order status has been updated to '' @ shown_status ev @ ''.'')
       Order_Update (Some (status_key (ev_aggregate_id ev) (shown_status ev)))) (\<lambda>_. dret ())"


subsection \<open>Every status once\<close>

lemma dash_split: "CHR ''-'' \<notin> set a \<Longrightarrow> CHR ''-'' \<notin> set b \<Longrightarrow> x @ ''-'' @ a = y @ ''-'' @ b \<longleftrightarrow> x = y \<and> a = b"
proof
  assume a: "CHR ''-'' \<notin> set a" "CHR ''-'' \<notin> set b" and e: "x @ ''-'' @ a = y @ ''-'' @ b"
  have split: "takeWhile (\<lambda>c. c \<noteq> CHR ''-'') (rev (z @ ''-'' @ c)) = rev c" if "CHR ''-'' \<notin> set c" for z c
    using that by (subst rev_append, subst rev_append, subst append_assoc, subst takeWhile_append2) auto
  have "rev a = rev b" using split [OF a(1), of x] split [OF a(2), of y] e by metis
  then show "x = y \<and> a = b" using e by simp
qed simp

lemma status_has_no_dash: "CHR ''-'' \<notin> set (order_status_name st)"
  by (cases st) simp_all

lemma status_key_inj: "status_key oid (order_status_name st) = status_key oid' (order_status_name st') \<longleftrightarrow> oid = oid' \<and> st = st'"
  using dash_split [OF status_has_no_dash status_has_no_dash, of oid st oid' st'] by (simp add: status_key_def)

datatype notify_act =
    Mark_Read ident ident
  | Mark_All_Read ident
  | Status_Changed ident order_status order_status
  | List_Notifications ident "nat option" "nat option"

datatype notify_traffic = Note "nat \<Rightarrow> notify_traffic list" millis notify_act

text \<open>\<open>owner\<close> gives the user of an order, who does not change.\<close>

definition notify_op :: "env \<Rightarrow> (ident \<Rightarrow> ident) \<Rightarrow> traffic_fun \<Rightarrow> millis \<Rightarrow> notify_act \<Rightarrow> database \<Rightarrow> database" where
  "notify_op E owner intf now act db =
     (case act of
        Mark_Read i uid \<Rightarrow> snd (mark_as_read intf i uid db)
      | Mark_All_Read uid \<Rightarrow> snd (mark_all_as_read uid db)
      | Status_Changed oid old new \<Rightarrow> snd (handle_status_notification E now (order_status_changed_event now oid old new (owner oid)) db)
      | List_Notifications uid pg limit \<Rightarrow> snd (get_notifications intf uid pg limit db))"

primrec run_notify :: "env \<Rightarrow> (ident \<Rightarrow> ident) \<Rightarrow> notify_traffic \<Rightarrow> database \<Rightarrow> database" where
  "run_notify E owner (Note between now act) =
     notify_op E owner (\<lambda>n. fold (\<lambda>f. f) (map (run_notify E owner) (between n))) now act"

definition run_notes :: "env \<Rightarrow> (ident \<Rightarrow> ident) \<Rightarrow> notify_traffic list \<Rightarrow> database \<Rightarrow> database" where
  "run_notes E owner ts = fold (\<lambda>f. f) (map (run_notify E owner) ts)"

definition keyed :: "string \<Rightarrow> database \<Rightarrow> notification_row list" where
  "keyed k db = filter (\<lambda>n. nt_idempotency_key n = Some k) (notifications db)"

text \<open>Keys are unique, a status key tells the order's owner of that status, what a key tells its user stays, and what is read stays read.\<close>

definition status_message :: "order_status \<Rightarrow> string" where
  "status_message st = ''Your order status has been updated to '' @ order_status_name st @ ''.''"

definition tells :: "(ident \<Rightarrow> ident) \<Rightarrow> notification_row \<Rightarrow> bool" where
  "tells owner n \<longleftrightarrow> (\<forall>oid st. nt_idempotency_key n = Some (status_key oid (order_status_name st)) \<longrightarrow>
     nt_user_id n = owner oid \<and> nt_message n = status_message st)"

definition notify_inv :: "(ident \<Rightarrow> ident) \<Rightarrow> string set \<Rightarrow> ident set \<Rightarrow> database \<Rightarrow> bool" where
  "notify_inv owner K R db \<longleftrightarrow> (\<forall>k. length (keyed k db) \<le> 1) \<and> (\<forall>n \<in> set (notifications db). tells owner n)
     \<and> Some ` K \<subseteq> nt_idempotency_key ` set (notifications db)
     \<and> (\<forall>i \<in> R. \<exists>n \<in> set (notifications db). nt_id n = i \<and> nt_read n)"

lemma keyed_count: "length (keyed k db) = count_list (map nt_idempotency_key (notifications db)) (Some k)"
proof -
  have "length (filter (\<lambda>n. nt_idempotency_key n = Some k) ns) = count_list (map nt_idempotency_key ns) (Some k)" for ns
    by (induction ns) auto
  then show ?thesis by (simp add: keyed_def)
qed

definition told_again :: "notification_row \<Rightarrow> notification_row \<Rightarrow> bool" where
  "told_again n n' \<longleftrightarrow> nt_idempotency_key n' = nt_idempotency_key n \<and> nt_user_id n' = nt_user_id n \<and> nt_message n' = nt_message n
     \<and> nt_id n' = nt_id n \<and> (nt_read n \<longrightarrow> nt_read n')"

lemma notify_inv_like:
  assumes inv: "notify_inv owner K R db" and like: "list_all2 told_again (notifications db) (notifications db')"
  shows "notify_inv owner K R db'"
proof -
  have keys: "map nt_idempotency_key (notifications db') = map nt_idempotency_key (notifications db)"
    using like by (induction rule: list_all2_induct) (simp_all add: told_again_def)
  have "length (keyed k db') \<le> 1" for k using inv by (simp add: notify_inv_def keyed_count keys)
  moreover have "\<forall>n \<in> set (notifications db'). tells owner n"
    using like inv unfolding notify_inv_def list_all2_conv_all_nth all_set_conv_all_nth told_again_def tells_def by simp
  moreover have "nt_idempotency_key ` set (notifications db') = nt_idempotency_key ` set (notifications db)"
    using arg_cong [OF keys, of set] by simp
  moreover have "\<exists>n' \<in> set (notifications db'). nt_id n' = i \<and> nt_read n'" if i: "i \<in> R" for i
  proof -
    obtain n where "n \<in> set (notifications db)" "nt_id n = i" "nt_read n" using inv i unfolding notify_inv_def by fast
    moreover from like \<open>n \<in> set (notifications db)\<close> have "\<exists>n' \<in> set (notifications db'). told_again n n'"
      by (auto simp: list_all2_conv_all_nth in_set_conv_nth intro!: bexI [OF _ nth_mem])
    ultimately show ?thesis by (auto simp: told_again_def)
  qed
  ultimately show ?thesis using inv unfolding notify_inv_def by simp
qed

lemma notify_inv_insert:
  assumes inv: "notify_inv owner K R db" and "insert_notification E now d db = (r, db')"
    and "nd_idempotency_key d = Some k" "find_by nt_idempotency_key (Some k) (notifications db) = None"
    and d: "\<And>uid oid st. nd_user_id d = Some uid \<Longrightarrow> k = status_key oid (order_status_name st) \<Longrightarrow> uid = owner oid \<and> nd_message d = status_message st"
  shows "notify_inv owner K R db'"
proof -
  have "db' = db \<or> (\<exists>n. nt_idempotency_key n = Some k \<and> nd_user_id d = Some (nt_user_id n) \<and> nt_message n = nd_message d
      \<and> notifications db' = notifications db @ [n])"
    using assms(2,3) by (auto simp: insert_notification_def Let_def split: option.splits if_splits)
  then show ?thesis
  proof (elim disjE exE conjE)
    fix n assume n: "nt_idempotency_key n = Some k" "nd_user_id d = Some (nt_user_id n)" "nt_message n = nd_message d"
      "notifications db' = notifications db @ [n]"
    have "keyed k db = []" using assms(4) by (force simp: keyed_def find_by_None_iff filter_empty_conv)
    then have "length (keyed k' db') \<le> 1" for k'
      using inv n by (cases "k' = k") (auto simp: keyed_def notify_inv_def)
    moreover have "tells owner n" using d [OF n(2)] n(1,3) by (auto simp: tells_def)
    ultimately show ?thesis using inv n(4) by (auto simp: notify_inv_def)
  qed (use inv in simp)
qed

lemma set_read_keeps: "notify_inv owner K R db \<Longrightarrow> set_read i db = (r, db') \<Longrightarrow> notify_inv owner K R db'"
proof (cases "find_by nt_id i (notifications db)")
  case (Some n)
  assume inv: "notify_inv owner K R db" and "set_read i db = (r, db')"
  then have db': "notifications db' = update_by nt_id i (\<lambda>n. n\<lparr>nt_read := True\<rparr>) (notifications db)" using Some by (auto simp: set_read_def)
  have "list_all2 told_again ns (update_by nt_id i (\<lambda>n. n\<lparr>nt_read := True\<rparr>) ns)" for ns :: "notification_row list"
    by (induction ns) (auto simp: told_again_def intro: list_all2_refl)
  then show ?thesis using notify_inv_like [OF inv] by (simp add: db')
qed (auto simp: set_read_def)

lemma mark_all_keeps: "notify_inv owner K R db \<Longrightarrow> notify_inv owner K R (snd (mark_all_as_read uid db))"
proof (erule notify_inv_like)
  have "list_all2 told_again ns (update_where (\<lambda>n. nt_user_id n = uid \<and> \<not> nt_read n) (\<lambda>n. n\<lparr>nt_read := True\<rparr>) ns)" for ns
    by (induction ns) (auto simp: told_again_def)
  then show "list_all2 told_again (notifications db) (notifications (snd (mark_all_as_read uid db)))"
    by (simp add: mark_all_as_read_def mark_all_as_read_for_user_def Let_def)
qed

lemma status_event_fields:
  "metadata_user_id (order_status_changed_event t oid old st uid) = Some uid"
  "shown_status (order_status_changed_event t oid old st uid) = order_status_name st"
  "ev_aggregate_id (order_status_changed_event t oid old st uid) = oid"
  by (simp_all add: metadata_user_id_def shown_status_def str_field_def order_status_changed_event_def base_domain_event_def Let_def)

text \<open>Delivering a status change keeps the invariant and, when it succeeds, leaves its key.\<close>

lemma status_delivered:
  assumes inv: "notify_inv owner K R db"
    and run: "handle_status_notification E now (order_status_changed_event t oid old st (owner oid)) db = (r, db')"
  shows "notify_inv owner K R db'" and "r = Inr () \<Longrightarrow> notify_inv owner (insert (status_key oid (order_status_name st)) K) R db'"
proof -
  let ?k = "status_key oid (order_status_name st)"
  let ?d = "\<lparr>nd_user_id = Some (owner oid), nd_title = ''Order '' @ oid @ '' status changed to '' @ order_status_name st,
      nd_message = status_message st, nd_type = notification_type_name Order_Update, nd_idempotency_key = Some ?k\<rparr>"
  have k: "?k \<noteq> []" by (simp add: status_key_def)
  obtain r1 db1 where create: "notification_create E now ?d db = (r1, db1)" by force
  have unfolded: "handle_status_notification E now (order_status_changed_event t oid old st (owner oid)) db
      = dbind (notification_create E now ?d) (\<lambda>_. dret ()) db"
    by (simp add: handle_status_notification_def create_notification_def status_event_fields status_message_def)
  have r: "db' = db1 \<and> (r = Inr () \<longleftrightarrow> (\<exists>n. r1 = Inr n))"
    using run create by (auto simp: unfolded dbind_def db_monad split: sum.splits)
  have "notify_inv owner K R db1 \<and> (\<forall>n. r1 = Inr n \<longrightarrow> Some ?k \<in> nt_idempotency_key ` set (notifications db1))"
  proof (cases "find_by nt_idempotency_key (Some ?k) (notifications db)")
    case None
    then have ins: "insert_notification E now ?d db = (r1, db1)" using create k by (simp add: notification_create_def)
    have "notify_inv owner K R db1"
      by (rule notify_inv_insert [OF inv ins _ None]) (auto simp: status_key_inj)
    moreover have "Some ?k \<in> nt_idempotency_key ` set (notifications db1)" if "r1 = Inr n" for n
      using ins \<open>r1 = Inr n\<close> by (auto simp: insert_notification_def Let_def split: if_splits)
    ultimately show ?thesis by blast
  next
    case (Some n)
    then have "db1 = db" using create k by (simp add: notification_create_def)
    moreover from Some have "Some ?k \<in> nt_idempotency_key ` set (notifications db)" by (force dest: find_by_SomeD)
    ultimately show ?thesis using inv by simp
  qed
  then show "notify_inv owner K R db'" "r = Inr () \<Longrightarrow> notify_inv owner (insert ?k K) R db'"
    using r by (auto simp: notify_inv_def)
qed

locale notify_interference =
  fixes owner :: "ident \<Rightarrow> ident" and intf :: traffic_fun
  assumes stays: "notify_inv owner K R db \<Longrightarrow> notify_inv owner K R (intf n db)"
begin

lemma act_keeps:
  assumes "notify_inv owner K R db"
  shows "notify_inv owner K R (notify_op E owner intf now act db)"
proof (cases act)
  case (Mark_Read i uid)
  have "notify_inv owner K R (snd (mark_as_read intf i uid db))"
    using stays [OF stays [OF assms]] stays [OF assms]
    by (auto simp: mark_as_read_def at_statement_def find_by_id_and_user_def db_monad dbind_def intro: set_read_keeps [OF _ surjective_pairing] split: option.split)
  then show ?thesis by (simp add: notify_op_def Mark_Read)
next
  case (Mark_All_Read uid)
  then show ?thesis using mark_all_keeps [OF assms] by (simp add: notify_op_def)
next
  case (Status_Changed oid old new)
  then show ?thesis using status_delivered(1) [OF assms surjective_pairing] by (simp add: notify_op_def)
next
  case (List_Notifications uid pg limit)
  then show ?thesis using stays [OF stays [OF assms]]
    by (simp add: notify_op_def get_notifications_def at_statement_def notifications_by_user_def notification_count_by_user_def Let_def
        dbind_def db_monad split: prod.split)
qed

end

lemma run_notify_keeps: "notify_inv owner K R db \<Longrightarrow> notify_inv owner K R (run_notify E owner t db)"
proof (induction t arbitrary: K R db)
  case (Note between now act)
  have folds: "notify_inv owner K R (fold (\<lambda>f. f) (map (run_notify E owner) ts) db)"
    if "\<And>t K R db. t \<in> set ts \<Longrightarrow> notify_inv owner K R db \<Longrightarrow> notify_inv owner K R (run_notify E owner t db)" "notify_inv owner K R db" for ts K R db
    using that by (induction ts arbitrary: db) simp_all
  have "notify_interference owner (\<lambda>n. fold (\<lambda>f. f) (map (run_notify E owner) (between n)))"
    by (unfold_locales, rule folds) (auto intro: Note.IH [OF rangeI])
  from notify_interference.act_keeps [OF this Note.prems] show ?case by simp
qed

lemma notify_fold_keeps: "notify_inv owner K R db \<Longrightarrow> notify_inv owner K R (fold (\<lambda>f. f) (map (run_notify E owner) ts) db)"
  by (induction ts arbitrary: db) (simp_all add: run_notify_keeps)

interpretation notices: notify_interference owner "\<lambda>n. fold (\<lambda>f. f) (map (run_notify E owner) (between n))" for E owner between
  by unfold_locales (rule notify_fold_keeps)

lemma keyed_singleton:
  assumes "notify_inv owner K R db" and "status_key oid (order_status_name st) \<in> K"
  shows "\<exists>n. keyed (status_key oid (order_status_name st)) db = [n] \<and> nt_user_id n = owner oid \<and> nt_message n = status_message st"
proof -
  let ?k = "status_key oid (order_status_name st)"
  have "Some ?k \<in> nt_idempotency_key ` set (notifications db)" using assms by (auto simp: notify_inv_def)
  then have "keyed ?k db \<noteq> []" by (fastforce simp: keyed_def filter_empty_conv)
  moreover have "length (keyed ?k db) \<le> 1" using assms(1) by (simp add: notify_inv_def)
  ultimately obtain n where n: "keyed ?k db = [n]" by (cases "keyed ?k db") auto
  then have "n \<in> set (notifications db)" "nt_idempotency_key n = Some ?k" by (auto simp: keyed_def filter_eq_Cons_iff)
  then show ?thesis using n assms(1) by (auto simp: notify_inv_def tells_def)
qed

lemma run_notes_keeps: "notify_inv owner K R db \<Longrightarrow> notify_inv owner K R (run_notes E owner ts db)"
  unfolding run_notes_def by (rule notices.stays)

lemma delivered_once:
  assumes "notify_inv owner {} {} db"
    and "fst (handle_status_notification E now (order_status_changed_event now oid old st (owner oid)) (run_notes E owner before db)) = Inr ()"
  shows "\<exists>n. keyed (status_key oid (order_status_name st)) (run_notes E owner (before @ Note (\<lambda>_. []) now (Status_Changed oid old st) # after) db) = [n]
    \<and> nt_user_id n = owner oid \<and> nt_message n = status_message st"
proof -
  let ?b = "run_notes E owner before db"
  obtain r d where run: "handle_status_notification E now (order_status_changed_event now oid old st (owner oid)) ?b = (r, d)" by force
  have "notify_inv owner {status_key oid (order_status_name st)} {} d"
    using status_delivered(2) [OF run_notes_keeps [OF assms(1)] run] run assms(2) by simp
  moreover have "run_notes E owner (before @ Note (\<lambda>_. []) now (Status_Changed oid old st) # after) db = run_notes E owner after d"
    using run by (simp add: run_notes_def notify_op_def)
  ultimately show ?thesis using keyed_singleton [OF run_notes_keeps] by simp
qed

text \<open>C21: However often the events of status changes are delivered, and whatever users do with their notifications meanwhile: once the
  delivery of a change succeeded, its order's owner has exactly one notification of that status, with its text.\<close>

theorem status_notified_once:
  assumes "notify_inv owner {} {} db"
    and "fst (handle_status_notification E now (order_status_changed_event now oid old st (owner oid)) (run_notes E owner before db)) = Inr ()"
  shows "\<exists>n. keyed (status_key oid (order_status_name st)) (run_notes E owner (before @ Note (\<lambda>_. []) now (Status_Changed oid old st) # after) db) = [n]
    \<and> nt_user_id n = owner oid \<and> nt_message n = status_message st"
  using assms by (rule delivered_once)

text \<open>The delivery is repeated after its user has read the notification.\<close>

definition told_user :: user_row where
  "told_user = \<lparr>ur_id = ''u1'', ur_email = ''u1@x'', ur_password = None, ur_first_name = ''U'', ur_last_name = ''V'', ur_phone = None, ur_role = USER,
     ur_is_verified = True, ur_is_2fa_enabled = False, ur_totp_secret = None, ur_created_at = 0\<rparr>"

theorem status_notified_once_witness:
  "\<exists>n. keyed (status_key ''o1'' ''PROCESSING'') (run_notes sample_env (\<lambda>_. ''u1'')
       ([] @ Note (\<lambda>_. []) 7 (Status_Changed ''o1'' PENDING PROCESSING)
         # [Note (\<lambda>_. []) 8 (Mark_All_Read ''u1''), Note (\<lambda>_. []) 7 (Status_Changed ''o1'' PENDING PROCESSING)]) (empty_db\<lparr>users := [told_user]\<rparr>)) = [n]
     \<and> nt_user_id n = ''u1'' \<and> nt_message n = status_message PROCESSING"
proof -
  let ?db = "empty_db\<lparr>users := [told_user]\<rparr>"
  have inv: "notify_inv (\<lambda>_. ''u1'') {} {} ?db" by (simp add: notify_inv_def keyed_def empty_db_def)
  have "fst (handle_status_notification sample_env 7 (order_status_changed_event 7 ''o1'' PENDING PROCESSING ''u1'') (run_notes sample_env (\<lambda>_. ''u1'') [] ?db)) = Inr ()"
    by (simp add: run_notes_def handle_status_notification_def create_notification_def notification_create_def insert_notification_def
        status_event_fields status_key_def find_user_def empty_db_def told_user_def dbind_def db_monad Let_def)
  from status_notified_once [OF inv this, of "[Note (\<lambda>_. []) 8 (Mark_All_Read ''u1''), Note (\<lambda>_. []) 7 (Status_Changed ''o1'' PENDING PROCESSING)]"]
  show ?thesis by (simp only: order_status_name.simps append_Nil)
qed

lemma read_stays_read:
  "notify_inv owner {} {i} db \<Longrightarrow> \<exists>n \<in> set (notifications (run_notes E owner ts db)). nt_id n = i \<and> nt_read n"
  using run_notes_keeps [of owner "{}" "{i}"] by (fastforce simp: notify_inv_def)

end
