(* ===== verification/Wishlist_Service.thy ===== *)
theory Wishlist_Service
  imports Notifications
begin

text \<open>
  Wishlists: \<^verbatim>\<open>modules/wishlist/wishlist.service.ts\<close> on \<^verbatim>\<open>prisma-wishlist.repository.ts\<close>. \<open>intf n\<close> is what others commit before
  statement \<open>n\<close> of a request.
\<close>

subsection \<open>Repository\<close>

record wishlist_view =
  wv_item :: wishlist_row
  wv_product :: product_row
  wv_price :: js_num

definition wishlist_view_of :: "database \<Rightarrow> wishlist_row \<Rightarrow> error + wishlist_view" where
  "wishlist_view_of db w =
     (case find_product (wl_product_id w) db of
        None \<Rightarrow> Inl PrismaClientValidationError
      | Some p \<Rightarrow> rbind (money_column (prow_price p)) (\<lambda>price. Inr \<lparr>wv_item = w, wv_product = p, wv_price = price\<rparr>))"

definition wishlist_of :: "ident \<Rightarrow> database \<Rightarrow> wishlist_row list" where
  "wishlist_of uid db = filter (\<lambda>w. wl_user_id w = uid) (wishlist_items db)"

definition wishlist_by_user :: "ident \<Rightarrow> nat \<Rightarrow> nat \<Rightarrow> wishlist_view list db_op" where
  "wishlist_by_user uid skip limit db =
     (rmap (wishlist_view_of db) (take limit (drop skip (sort_rows (\<lambda>w. Col_Int (wl_created_at w)) False (wishlist_of uid db)))), db)"

definition wishlist_count_by_user :: "ident \<Rightarrow> nat db_op" where
  "wishlist_count_by_user uid = dget (\<lambda>db. length (wishlist_of uid db))"

definition wish_key :: "wishlist_row \<Rightarrow> ident \<times> ident" where
  "wish_key w = (wl_user_id w, wl_product_id w)"

definition wishlist_exists :: "ident \<Rightarrow> ident \<Rightarrow> bool db_op" where
  "wishlist_exists uid pid = dget (\<lambda>db. find_by wish_key (uid, pid) (wishlist_items db) \<noteq> None)"

definition wishlist_product_exists :: "ident \<Rightarrow> bool db_op" where
  "wishlist_product_exists pid = dget (\<lambda>db. find_product pid db \<noteq> None)"

text \<open>The price is checked after the row is stored: a price outside the safe range fails the request and keeps the row.\<close>

definition wishlist_create :: "millis \<Rightarrow> ident \<Rightarrow> ident \<Rightarrow> wishlist_view db_op" where
  "wishlist_create now uid pid db =
     (if find_by wish_key (uid, pid) (wishlist_items db) \<noteq> None then (Inl unique_violation, db)
      else if find_user uid db = None \<or> find_product pid db = None then (Inl foreign_key_violation, db)
      else let w = \<lparr>wl_user_id = uid, wl_product_id = pid, wl_created_at = now\<rparr>; db' = db\<lparr>wishlist_items := wishlist_items db @ [w]\<rparr>
        in (wishlist_view_of db' w, db'))"

definition wishlist_delete :: "ident \<Rightarrow> ident \<Rightarrow> unit db_op" where
  "wishlist_delete uid pid db =
     (if find_by wish_key (uid, pid) (wishlist_items db) = None then (Inl record_not_found, db)
      else (Inr (), db\<lparr>wishlist_items := delete_by wish_key (uid, pid) (wishlist_items db)\<rparr>))"

subsection \<open>Service\<close>

definition get_wishlist :: "traffic_fun \<Rightarrow> ident \<Rightarrow> nat option \<Rightarrow> nat option \<Rightarrow> wishlist_view listing db_op" where
  "get_wishlist intf uid pg limit =
     (let p = with_default 1 pg; (_, safe_limit, skip) = resolve_pagination (Some p) (Some (with_default 20 limit)) 10 50 in
      dbind (at_statement intf 0 (wishlist_by_user uid skip safe_limit)) (\<lambda>items.
      dbind (at_statement intf 1 (wishlist_count_by_user uid)) (\<lambda>n. dret (make_listing p safe_limit items n))))"

definition wishlist_add :: "traffic_fun \<Rightarrow> millis \<Rightarrow> ident \<Rightarrow> ident \<Rightarrow> wishlist_view db_op" where
  "wishlist_add intf now uid pid =
     dbind (at_statement intf 0 (wishlist_product_exists pid)) (\<lambda>known.
     if \<not> known then dthrow (not_found_error ''Product not found'')
     else dbind (at_statement intf 1 (wishlist_exists uid pid)) (\<lambda>listed.
          if listed then dthrow (validation_error ''Product already in wishlist'')
          else at_statement intf 2 (wishlist_create now uid pid)))"

definition wishlist_remove :: "traffic_fun \<Rightarrow> ident \<Rightarrow> ident \<Rightarrow> unit db_op" where
  "wishlist_remove intf uid pid =
     dbind (at_statement intf 0 (wishlist_exists uid pid)) (\<lambda>listed.
     if \<not> listed then dthrow (not_found_error ''Product not found in wishlist'')
     else at_statement intf 1 (wishlist_delete uid pid))"

subsection \<open>A wishlist is a set\<close>

definition wishes :: "ident \<Rightarrow> database \<Rightarrow> ident set" where
  "wishes uid db = wl_product_id ` set (wishlist_of uid db)"

definition wish_inv :: "database \<Rightarrow> bool" where
  "wish_inv db \<longleftrightarrow> distinct (map wish_key (wishlist_items db))"

lemma wished: "pid \<in> wishes uid db \<longleftrightarrow> find_by wish_key (uid, pid) (wishlist_items db) \<noteq> None"
  by (force simp: wishes_def wishlist_of_def wish_key_def find_by_None_iff)

lemma create_wish:
  assumes "wishlist_create now uid pid db = (r, db')"
  shows "wish_inv db \<Longrightarrow> wish_inv db'" and "r = Inr v \<Longrightarrow> pid \<notin> wishes uid db \<and> wishes uid db' = insert pid (wishes uid db)"
    and "u \<noteq> uid \<Longrightarrow> wishes u db' = wishes u db" and "db' = db \<or> wishlist_items db' = wishlist_items db @ [\<lparr>wl_user_id = uid, wl_product_id = pid, wl_created_at = now\<rparr>]"
proof -
  let ?w = "\<lparr>wl_user_id = uid, wl_product_id = pid, wl_created_at = now\<rparr>"
  have c: "db' = db \<and> (\<exists>e. r = Inl e) \<or> find_by wish_key (uid, pid) (wishlist_items db) = None \<and> wishlist_items db' = wishlist_items db @ [?w]"
    using assms by (auto simp: wishlist_create_def Let_def split: if_splits)
  then show "wish_inv db \<Longrightarrow> wish_inv db'" by (auto simp: wish_inv_def wish_key_def find_by_None_iff)
  show "r = Inr v \<Longrightarrow> pid \<notin> wishes uid db \<and> wishes uid db' = insert pid (wishes uid db)"
    using c wished by (auto simp: wishes_def wishlist_of_def)
  show "u \<noteq> uid \<Longrightarrow> wishes u db' = wishes u db" using c by (auto simp: wishes_def wishlist_of_def)
  show "db' = db \<or> wishlist_items db' = wishlist_items db @ [?w]" using c by blast
qed

lemma delete_wish:
  assumes "wishlist_delete uid pid db = (r, db')" and inv: "wish_inv db"
  shows "wish_inv db'" and "r = Inr () \<Longrightarrow> pid \<in> wishes uid db \<and> wishes uid db' = wishes uid db - {pid}"
    and "u \<noteq> uid \<Longrightarrow> wishes u db' = wishes u db"
proof -
  have c: "db' = db \<and> (\<exists>e. r = Inl e) \<or> find_by wish_key (uid, pid) (wishlist_items db) \<noteq> None
      \<and> wishlist_items db' = delete_by wish_key (uid, pid) (wishlist_items db)"
    using assms(1) by (auto simp: wishlist_delete_def split: if_splits)
  have rows: "set (delete_by wish_key k (wishlist_items db)) = {w \<in> set (wishlist_items db). wish_key w \<noteq> k}" for k
    using set_delete_by_distinct [of wish_key "wishlist_items db" k] inv by (auto simp: wish_inv_def)
  show "wish_inv db'" using c inv by (auto simp: wish_inv_def distinct_delete_by)
  show "r = Inr () \<Longrightarrow> pid \<in> wishes uid db \<and> wishes uid db' = wishes uid db - {pid}"
    using c wished by (auto simp: wishes_def wishlist_of_def rows wish_key_def)
  show "u \<noteq> uid \<Longrightarrow> wishes u db' = wishes u db"
    using c by (auto simp: wishes_def wishlist_of_def rows wish_key_def)
qed

text \<open>Whatever others, the same user included, do between the statements of a request that adds a product: it takes effect at once, on what
  its last statement finds, or not at all; one that succeeds finds the product missing and adds it. Likewise for one that removes a product.\<close>

lemma wishlist_add_is_atomic:
  assumes "wishlist_add intf now uid pid db = (Inr v, db')"
  shows "\<exists>db1. db1 = intf 2 (intf 1 (intf 0 db)) \<and> pid \<notin> wishes uid db1 \<and> wishes uid db' = insert pid (wishes uid db1)
    \<and> (\<forall>u. u \<noteq> uid \<longrightarrow> wishes u db' = wishes u db1)"
proof -
  let ?db1 = "intf 2 (intf 1 (intf 0 db))"
  have w: "wishlist_create now uid pid ?db1 = (Inr v, db')"
    using assms by (auto simp: wishlist_add_def at_statement_def wishlist_product_exists_def wishlist_exists_def db_monad dbind_def split: if_splits)
  show ?thesis using create_wish(2,3) [OF w] by blast
qed

lemma wishlist_remove_is_atomic:
  assumes "wishlist_remove intf uid pid db = (Inr (), db')" and "wish_inv (intf 1 (intf 0 db))"
  shows "\<exists>db1. db1 = intf 1 (intf 0 db) \<and> pid \<in> wishes uid db1 \<and> wishes uid db' = wishes uid db1 - {pid}
    \<and> (\<forall>u. u \<noteq> uid \<longrightarrow> wishes u db' = wishes u db1)"
proof -
  have w: "wishlist_delete uid pid (intf 1 (intf 0 db)) = (Inr (), db')"
    using assms(1) by (auto simp: wishlist_remove_def at_statement_def wishlist_exists_def db_monad dbind_def split: if_splits)
  show ?thesis using delete_wish(2,3) [OF w assms(2)] by blast
qed

end
