(* ===== verification/Users_Service.thy ===== *)
theory Users_Service
  imports Wishlist_Service Auth_Service
begin

text \<open>
  Profiles and passwords: \<^verbatim>\<open>modules/users/users.service.ts\<close> on \<^verbatim>\<open>prisma-users.repository.ts\<close>. bcrypt is part of the library
  argument. \<open>intf n\<close> is what others commit before statement \<open>n\<close> of a request.
\<close>

subsection \<open>Repository\<close>

record user_profile =
  up_id :: ident
  up_email :: string
  up_first_name :: string
  up_last_name :: string
  up_phone :: "string option"
  up_role :: role
  up_is_verified :: bool
  up_is_2fa_enabled :: bool
  up_created_at :: millis
  up_updated_at :: millis

definition to_user_profile :: "(ident \<Rightarrow> millis) \<Rightarrow> user_row \<Rightarrow> user_profile" where
  "to_user_profile touched u = \<lparr>up_id = ur_id u, up_email = ur_email u, up_first_name = ur_first_name u, up_last_name = ur_last_name u,
     up_phone = ur_phone u, up_role = ur_role u, up_is_verified = ur_is_verified u, up_is_2fa_enabled = ur_is_2fa_enabled u,
     up_created_at = ur_created_at u, up_updated_at = touched (ur_id u)\<rparr>"

definition find_profile_by_id :: "(ident \<Rightarrow> millis) \<Rightarrow> ident \<Rightarrow> user_profile option db_op" where
  "find_profile_by_id touched uid = dget (\<lambda>db. map_option (to_user_profile touched) (find_user uid db))"

definition find_password_record :: "ident \<Rightarrow> (ident \<times> string option) option db_op" where
  "find_password_record uid = dget (\<lambda>db. map_option (\<lambda>u. (ur_id u, ur_password u)) (find_user uid db))"

record profile_patch =
  pf_first_name :: "string option"
  pf_last_name :: "string option"
  pf_phone :: "string option"

definition update_profile_row :: "(ident \<Rightarrow> millis) \<Rightarrow> ident \<Rightarrow> profile_patch \<Rightarrow> user_profile db_op" where
  "update_profile_row touched uid d =
     dbind (update_user uid (\<lambda>u. u\<lparr>ur_first_name := with_default (ur_first_name u) (pf_first_name d),
         ur_last_name := with_default (ur_last_name u) (pf_last_name d),
         ur_phone := (case pf_phone d of None \<Rightarrow> ur_phone u | Some p \<Rightarrow> Some p)\<rparr>))
       (\<lambda>u. dret (to_user_profile touched u))"

definition update_password :: "ident \<Rightarrow> string \<Rightarrow> unit db_op" where
  "update_password uid hash = dbind (update_user uid (\<lambda>u. u\<lparr>ur_password := Some hash\<rparr>)) (\<lambda>_. dret ())"

subsection \<open>Service\<close>

definition get_profile :: "(ident \<Rightarrow> millis) \<Rightarrow> ident \<Rightarrow> user_profile db_op" where
  "get_profile touched uid = dbind (find_profile_by_id touched uid) (\<lambda>found.
     case found of None \<Rightarrow> dthrow (not_found_error ''User not found'') | Some p \<Rightarrow> dret p)"

definition update_profile :: "(ident \<Rightarrow> millis) \<Rightarrow> traffic_fun \<Rightarrow> ident \<Rightarrow> profile_patch \<Rightarrow> user_profile db_op" where
  "update_profile touched intf uid d =
     dbind (at_statement intf 0 (find_password_record uid)) (\<lambda>found.
     if found = None then dthrow (not_found_error ''User not found'')
     else at_statement intf 1 (update_profile_row touched uid d))"

definition change_password :: "auth_lib \<Rightarrow> traffic_fun \<Rightarrow> ident \<Rightarrow> string \<Rightarrow> string \<Rightarrow> bool db_op" where
  "change_password L intf uid current_password new_password =
     dbind (at_statement intf 0 (find_password_record uid)) (\<lambda>found.
     case found of
       None \<Rightarrow> dthrow (not_found_error ''User not found'')
     | Some (_, stored) \<Rightarrow>
         if \<not> bcrypt_compare L current_password (with_default [] stored)
         then dthrow (validation_error ''Current password is incorrect'')
         else dbind (at_statement intf 1 (update_password uid (bcrypt_hash L new_password BCRYPT_SALT_ROUNDS))) (\<lambda>_. dret True))"

subsection \<open>A changed password\<close>

lemma change_password_effect:
  assumes "change_password L intf uid current new db = (Inr r, db')"
  shows "\<exists>u0 u1. find_user uid (intf 0 db) = Some u0 \<and> bcrypt_compare L current (with_default [] (ur_password u0))
    \<and> find_user uid (intf 1 (intf 0 db)) = Some u1
    \<and> db' = (intf 1 (intf 0 db))\<lparr>users := update_by ur_id uid (\<lambda>u. u\<lparr>ur_password := Some (bcrypt_hash L new BCRYPT_SALT_ROUNDS)\<rparr>) (users (intf 1 (intf 0 db)))\<rparr>"
  using assms
  by (auto simp: change_password_def at_statement_def find_password_record_def update_password_def update_user_def db_monad dbind_def
      split: option.splits if_splits)

lemma changed_row:
  assumes "change_password L intf uid current new db = (Inr r, db')"
  shows "\<exists>u. find_user uid db' = Some u \<and> ur_password u = Some (bcrypt_hash L new BCRYPT_SALT_ROUNDS)"
proof -
  obtain u1 where "find_user uid (intf 1 (intf 0 db)) = Some u1"
    "db' = (intf 1 (intf 0 db))\<lparr>users := update_by ur_id uid (\<lambda>u. u\<lparr>ur_password := Some (bcrypt_hash L new BCRYPT_SALT_ROUNDS)\<rparr>) (users (intf 1 (intf 0 db)))\<rparr>"
    using change_password_effect [OF assms] by blast
  then show ?thesis
    using find_by_update_by [of ur_id "\<lambda>u. u\<lparr>ur_password := Some (bcrypt_hash L new BCRYPT_SALT_ROUNDS)\<rparr>" uid uid "users (intf 1 (intf 0 db))"]
    by (auto simp: find_user_def)
qed

lemma change_decides_login:
  assumes change: "change_password L intf uid current new (au_db s) = (Inr r, db')"
    and keys: "distinct (map ur_id (users db'))"
    and mail: "find_user_by_email email db' = Some u" "ur_id u = uid"
    and bcrypt: "\<not> bcrypt_compare L current (bcrypt_hash L new BCRYPT_SALT_ROUNDS)"
  shows "(\<exists>u0. find_user uid (intf 0 (au_db s)) = Some u0 \<and> bcrypt_compare L current (with_default [] (ur_password u0)))
    \<and> login E L C now email current (s\<lparr>au_db := db'\<rparr>) = (Inl (authentication_error ''Invalid credentials''), s\<lparr>au_db := db'\<rparr>)"
proof -
  obtain u' where "find_user uid db' = Some u'" "ur_password u' = Some (bcrypt_hash L new BCRYPT_SALT_ROUNDS)"
    using changed_row [OF change] by blast
  moreover have "find_user uid db' = Some u"
  proof -
    have "u \<in> set (users db')" using mail(1) by (auto simp: find_user_by_email_def dest: find_by_SomeD)
    from find_by_distinct [OF keys this] show ?thesis using mail(2) by (simp add: find_user_def)
  qed
  ultimately have "ur_password u = Some (bcrypt_hash L new BCRYPT_SALT_ROUNDS)" by simp
  then have "\<not> bcrypt_compare L current (case ur_password u of None \<Rightarrow> [] | Some h \<Rightarrow> h)" using bcrypt by (simp only: option.case not_False_eq_True)
  then have "login E L C now email current (s\<lparr>au_db := db'\<rparr>) = (Inl (authentication_error ''Invalid credentials''), s\<lparr>au_db := db'\<rparr>)"
    using mail(1) by (intro login_wrong_password) simp_all
  then show ?thesis using change_password_effect [OF change] by blast
qed



text \<open>The sessions of the user survive: the refresh tokens stay as they are.\<close>

lemma password_change_keeps_sessions:
  "change_password L intf uid current new db = (Inr r, db') \<Longrightarrow> refresh_tokens db' = refresh_tokens (intf 1 (intf 0 db))"
  by (auto dest!: change_password_effect)

text \<open>A profile can be read and changed by any valid token, and a change touches the three fields it names.\<close>

lemma update_profile_frame:
  assumes "update_profile touched intf uid d db = (Inr p, db')" and "db0 = intf 1 (intf 0 db)"
  shows "\<exists>u. find_user uid db0 = Some u \<and> db' = db0\<lparr>users := update_by ur_id uid (\<lambda>u. u\<lparr>ur_first_name := with_default (ur_first_name u) (pf_first_name d),
         ur_last_name := with_default (ur_last_name u) (pf_last_name d),
         ur_phone := (case pf_phone d of None \<Rightarrow> ur_phone u | Some p \<Rightarrow> Some p)\<rparr>) (users db0)\<rparr>
    \<and> up_email p = ur_email u \<and> up_role p = ur_role u \<and> up_is_verified p = ur_is_verified u"
  using assms
  by (auto simp: update_profile_def at_statement_def find_password_record_def update_profile_row_def update_user_def to_user_profile_def
      db_monad dbind_def split: option.splits if_splits)

end
