(* ===== verification/Email_Service.thy ===== *)
theory Email_Service
  imports Notifications
begin

text \<open>
  Mails: \<^verbatim>\<open>shared/services/email.service.ts\<close> with its queue \<^verbatim>\<open>shared/infrastructure/queue/bullmq-email-queue.ts\<close>, the handler
  \<^verbatim>\<open>modules/checkout/event-handlers/order-placed.handler.ts\<close>, and the worker \<^verbatim>\<open>jobs/email.job.ts\<close>. The queue is BullMQ's: a job whose
  id it still holds is not added again. Retries, the circuit breaker and the transport are left out; \<open>parse_url\<close> is the constructor of
  \<^verbatim>\<open>URL\<close> and \<open>print\<close> gives the text of a value that is not a string.
\<close>

subsection \<open>Queueing\<close>

record email_job =
  ej_name :: string
  ej_to :: string
  ej_subject :: string
  ej_template :: "string option"
  ej_data :: "fields option"
  ej_id :: "string option"

type_synonym mail_queue = "email_job list"

definition queue_add :: "email_job \<Rightarrow> mail_queue \<Rightarrow> mail_queue" where
  "queue_add j q = (if ej_id j \<noteq> None \<and> find_by ej_id (ej_id j) q \<noteq> None then q else q @ [j])"

text \<open>An empty key is no key.\<close>

definition enqueue_mail :: "string \<Rightarrow> string \<Rightarrow> string \<Rightarrow> string option \<Rightarrow> fields \<Rightarrow> string option \<Rightarrow> mail_queue \<Rightarrow> mail_queue" where
  "enqueue_mail name recipient subject template data key q =
     queue_add \<lparr>ej_name = name, ej_to = recipient, ej_subject = subject, ej_template = template, ej_data = Some data,
       ej_id = (if key = Some [] then None else key)\<rparr> q"

definition confirmation_item :: "order_placed_item \<Rightarrow> json" where
  "confirmation_item i = JObj [(''name'', JStr (opi_product_name i)), (''quantity'', jint (opi_quantity i)), (''price'', jint (opi_unit_price i))]"

definition send_order_confirmation ::
    "string \<Rightarrow> string \<Rightarrow> int \<Rightarrow> order_placed_item list \<Rightarrow> string option \<Rightarrow> mail_queue \<Rightarrow> mail_queue" where
  "send_order_confirmation email order_number amount items key =
     enqueue_mail ''order-confirmation'' email (''Order #'' @ order_number @ '' Confirmed'') (Some ''order-confirmation'')
       [(''orderNumber'', JStr order_number), (''total'', jint amount), (''items'', JArr (map confirmation_item items))] key"

text \<open>The event as the fields of \<^verbatim>\<open>OrderPlacedEvent\<close>.\<close>

record placed_mail =
  pm_order_id :: ident
  pm_order_number :: string
  pm_customer_email :: string
  pm_total :: int
  pm_items :: "order_placed_item list"

definition handle_order_placed_mail :: "placed_mail \<Rightarrow> mail_queue \<Rightarrow> mail_queue" where
  "handle_order_placed_mail ev =
     send_order_confirmation (pm_customer_email ev) (pm_order_number ev) (pm_total ev) (pm_items ev) (Some (''order-confirmation-'' @ pm_order_id ev))"

lemma confirmation_key: "''order-confirmation-'' @ oid = ''order-confirmation-'' @ oid' \<longleftrightarrow> oid = oid'"
  by simp

text \<open>However often the event is delivered, the queue gets one confirmation of an order.\<close>

lemma confirmation_once:
  assumes "distinct (List.map_filter ej_id q)"
  shows "distinct (List.map_filter ej_id (fold handle_order_placed_mail evs q))"
    and "set q \<subseteq> set (fold handle_order_placed_mail evs q)"
    and "ev \<in> set evs \<Longrightarrow> Some (''order-confirmation-'' @ pm_order_id ev) \<in> ej_id ` set (fold handle_order_placed_mail evs q)"
proof -
  have step: "distinct (List.map_filter ej_id (handle_order_placed_mail ev q)) \<and> set q \<subseteq> set (handle_order_placed_mail ev q)
      \<and> Some (''order-confirmation-'' @ pm_order_id ev) \<in> ej_id ` set (handle_order_placed_mail ev q)"
    if "distinct (List.map_filter ej_id q)" for ev q
    using that
    by (force simp: handle_order_placed_mail_def send_order_confirmation_def enqueue_mail_def queue_add_def map_filter_def find_by_None_iff
        split: option.splits)
  have "distinct (List.map_filter ej_id (fold handle_order_placed_mail evs q)) \<and> set q \<subseteq> set (fold handle_order_placed_mail evs q)
      \<and> (\<forall>ev \<in> set evs. Some (''order-confirmation-'' @ pm_order_id ev) \<in> ej_id ` set (fold handle_order_placed_mail evs q))"
    using assms
  proof (induction evs arbitrary: q)
    case (Cons ev evs)
    from step [OF Cons.prems] Cons.IH [of "handle_order_placed_mail ev q"] show ?case by (simp, blast)
  qed simp
  then show "distinct (List.map_filter ej_id (fold handle_order_placed_mail evs q))" "set q \<subseteq> set (fold handle_order_placed_mail evs q)"
    "ev \<in> set evs \<Longrightarrow> Some (''order-confirmation-'' @ pm_order_id ev) \<in> ej_id ` set (fold handle_order_placed_mail evs q)" by blast+
qed

subsection \<open>Sending\<close>

definition text_of :: "(json \<Rightarrow> string) \<Rightarrow> json option \<Rightarrow> string" where
  "text_of print v = (case v of None \<Rightarrow> [] | Some JNull \<Rightarrow> [] | Some (JStr s) \<Rightarrow> s | Some j \<Rightarrow> print j)"

definition entity :: "char \<Rightarrow> string" where
  "entity c = (if c = CHR ''&'' then ''&amp;'' else if c = CHR ''<'' then ''&lt;'' else if c = CHR ''>'' then ''&gt;''
     else if c = CHR 0x22 then ''&quot;'' else if c = CHR 0x27 then ''&#39;'' else [c])"

definition escape_html :: "string \<Rightarrow> string" where
  "escape_html s = concat (map entity s)"

record url =
  url_protocol :: string
  url_hostname :: string
  url_username :: string
  url_password :: string

definition bad_verification_url :: error where
  "bad_verification_url = PlainError ''Verification URL must be an absolute HTTP(S) URL''"

definition verify_link :: "(string \<Rightarrow> url option) \<Rightarrow> json option \<Rightarrow> error + string" where
  "verify_link parse_url v =
     (case v of
        Some (JStr s) \<Rightarrow>
          (case parse_url s of
             None \<Rightarrow> Inl bad_verification_url
           | Some u \<Rightarrow>
               if url_protocol u \<notin> {''http:'', ''https:''} \<or> url_hostname u = [] \<or> url_username u \<noteq> [] \<or> url_password u \<noteq> []
               then Inl bad_verification_url else Inr s)
      | _ \<Rightarrow> Inl bad_verification_url)"

definition quoted :: "string \<Rightarrow> string" where
  "quoted s = [CHR 0x22] @ s @ [CHR 0x22]"

definition new_line :: string where
  "new_line = [CHR 0x0A] @ ''      ''"

definition mail_html :: "string option \<Rightarrow> string \<Rightarrow> string \<Rightarrow> string \<Rightarrow> string \<Rightarrow> string \<Rightarrow> string" where
  "mail_html template name subject order_number amount link =
     (if template = Some ''welcome'' then ''<h1>Welcome to TriAD!</h1><p>Hi '' @ name @ '', thanks for joining!</p>''
      else if template = Some ''order-confirmation''
      then ''<h1>Order Confirmation</h1><p>Your order #'' @ order_number @ '' is confirmed. Total: '' @ amount @ ''</p>''
      else if template = Some ''verify-email''
      then new_line @ ''<h1>Verify your TriAD account</h1>'' @ new_line @ ''<p>Hi '' @ name @ '',</p>''
        @ new_line @ ''<p>Please confirm your email address by clicking the link below. This link expires in 15 minutes.</p>''
        @ new_line @ ''<p><a href='' @ quoted link @ '' target='' @ quoted ''_blank'' @ ''>Verify my email</a></p>''
        @ new_line @ ''<p>If the button doesn'' @ [CHR 0x27] @ ''t work, copy and paste this URL into your browser:</p>''
        @ new_line @ ''<p>'' @ link @ ''</p>'' @ [CHR 0x0A] @ ''    ''
      else ''<h1>'' @ subject @ ''</h1><p>Hello '' @ name @ ''</p>'')"

record sent_mail =
  sm_to :: string
  sm_subject :: string
  sm_html :: string

definition data_field :: "email_job \<Rightarrow> string \<Rightarrow> json option" where
  "data_field j k = Option.bind (ej_data j) (\<lambda>d. map_of d k)"

definition process_email :: "(json \<Rightarrow> string) \<Rightarrow> (string \<Rightarrow> url option) \<Rightarrow> email_job \<Rightarrow> error + sent_mail" where
  "process_email print parse_url j =
     rbind (if ej_template j = Some ''verify-email'' then rbind (verify_link parse_url (data_field j ''verifyUrl'')) (\<lambda>s. Inr (escape_html s)) else Inr [])
       (\<lambda>link. Inr \<lparr>sm_to = ej_to j, sm_subject = ej_subject j,
          sm_html = mail_html (ej_template j) (escape_html (text_of print (data_field j ''name''))) (escape_html (ej_subject j))
            (escape_html (text_of print (data_field j ''orderNumber''))) (escape_html (text_of print (data_field j ''total''))) link\<rparr>)"

subsection \<open>Mails carry no foreign markup\<close>

definition markup :: "string \<Rightarrow> string" where
  "markup = filter (\<lambda>c. c \<in> {CHR ''<'', CHR ''>'', CHR 0x22, CHR 0x27})"

lemma markup_simps [simp]: "markup [] = []" "markup (c # s) = (if c \<in> {CHR ''<'', CHR ''>'', CHR 0x22, CHR 0x27} then c # markup s else markup s)"
  "markup (s @ t) = markup s @ markup t"
  by (simp_all add: markup_def)

lemma no_markup [simp]: "markup (escape_html s) = []"
proof (induction s)
  case (Cons c s)
  have "markup (entity c) = []" by (simp add: entity_def)
  then show ?case using Cons by (simp add: escape_html_def)
qed (simp add: escape_html_def)

lemma markup_of_html:
  assumes "markup name = []" "markup subject = []" "markup order_number = []" "markup amount = []" "markup link = []"
  shows "markup (mail_html template name subject order_number amount link) = markup (mail_html template [] [] [] [] [])"
proof -
  have "markup (quoted link) = markup (quoted [])" by (simp add: quoted_def assms)
  then show ?thesis unfolding mail_html_def by (simp only: if_distrib [where f = markup] assms markup_simps(3) append_Nil append_Nil2)
qed

lemma sent_is_inert:
  assumes "process_email print parse_url j = Inr m"
  shows "markup (sm_html m) = markup (mail_html (ej_template j) [] [] [] [] []) \<and> sm_to m = ej_to j
    \<and> (ej_template j = Some ''verify-email'' \<longrightarrow> (\<exists>s u. data_field j ''verifyUrl'' = Some (JStr s) \<and> parse_url s = Some u
         \<and> url_protocol u \<in> {''http:'', ''https:''} \<and> url_username u = [] \<and> url_password u = []))"
proof -
  obtain link where link: "(if ej_template j = Some ''verify-email'' then rbind (verify_link parse_url (data_field j ''verifyUrl'')) (\<lambda>s. Inr (escape_html s)) else Inr []) = Inr link"
    and m: "m = \<lparr>sm_to = ej_to j, sm_subject = ej_subject j,
          sm_html = mail_html (ej_template j) (escape_html (text_of print (data_field j ''name''))) (escape_html (ej_subject j))
            (escape_html (text_of print (data_field j ''orderNumber''))) (escape_html (text_of print (data_field j ''total''))) link\<rparr>"
    using assms unfolding process_email_def rbind_Inr_iff by (metis sum.inject(2))
  have "markup link = []" using link by (auto simp: rbind_Inr_iff split: if_splits)
  then have "markup (sm_html m) = markup (mail_html (ej_template j) [] [] [] [] [])"
    unfolding m by (simp only: sent_mail.select_convs) (intro markup_of_html no_markup)
  moreover have "\<exists>s u. data_field j ''verifyUrl'' = Some (JStr s) \<and> parse_url s = Some u \<and> url_protocol u \<in> {''http:'', ''https:''}
      \<and> url_username u = [] \<and> url_password u = []" if "ej_template j = Some ''verify-email''"
    using link that by (auto simp: rbind_Inr_iff verify_link_def split: option.splits json.splits if_splits)
  ultimately show ?thesis by (simp add: m)
qed


definition sly_job :: email_job where
  "sly_job = \<lparr>ej_name = ''welcome'', ej_to = ''a@x'', ej_subject = ''Hi'', ej_template = Some ''welcome'',
     ej_data = Some [(''name'', JStr ''<b>x</b>'')], ej_id = None\<rparr>"


end
