(* ===== verification/Review_Service.thy ===== *)
theory Review_Service
  imports Catalog_Service
begin

text \<open>
  Reviews: \<^verbatim>\<open>modules/reviews/reviews.service.ts\<close> on \<^verbatim>\<open>prisma-reviews.repository.ts\<close>, and the refresh of a product's rating,
  \<^verbatim>\<open>core/outbox/projection-rating.ts\<close>, statement by statement under its row lock. \<open>intf n\<close> is what others commit before statement
  \<open>n\<close>; pages and limits are natural numbers, as the request schemas have them.
\<close>

subsection \<open>Repository\<close>

record review_admin_view =
  ra_review :: review_summary
  ra_product :: product_row

definition find_by_product :: "ident \<Rightarrow> nat \<Rightarrow> nat \<Rightarrow> review_summary list db_op" where
  "find_by_product pid skip limit = dget (\<lambda>db. List.map_filter (review_with_user db)
     (take limit (drop skip (sort_rows (\<lambda>r. Col_Int (rv_created_at r)) False (filter (\<lambda>r. rv_product_id r = pid) (reviews db))))))"

definition count_by_product :: "ident \<Rightarrow> nat db_op" where
  "count_by_product pid = dget (\<lambda>db. count_where (\<lambda>r. rv_product_id r = pid) (reviews db))"

definition product_exists :: "ident \<Rightarrow> bool db_op" where
  "product_exists pid = dget (\<lambda>db. find_product pid db \<noteq> None)"

definition review_key :: "review_row \<Rightarrow> ident \<times> ident" where
  "review_key r = (rv_user_id r, rv_product_id r)"

definition find_by_user_and_product :: "ident \<Rightarrow> ident \<Rightarrow> review_row option db_op" where
  "find_by_user_and_product uid pid = dget (\<lambda>db. find_by review_key (uid, pid) (reviews db))"

text \<open>The column of the rating is a 32-bit integer.\<close>

definition insert_review :: "env \<Rightarrow> millis \<Rightarrow> ident \<Rightarrow> ident \<Rightarrow> js_num \<Rightarrow> string \<Rightarrow> review_summary db_op" where
  "insert_review E now uid pid rating comment db =
     (case stock_column rating of
        Inl e \<Rightarrow> (Inl e, db)
      | Inr n \<Rightarrow>
          if find_by review_key (uid, pid) (reviews db) \<noteq> None then (Inl unique_violation, db)
          else (case find_user uid db of
              None \<Rightarrow> (Inl foreign_key_violation, db)
            | Some u \<Rightarrow>
                if find_product pid db = None then (Inl foreign_key_violation, db)
                else let r = \<lparr>rv_id = gen_id E (id_supply db), rv_rating = n, rv_comment = Some comment, rv_user_id = uid,
                        rv_product_id = pid, rv_created_at = now\<rparr>
                  in (Inr \<lparr>rs_review = r, rs_reviewer = u\<rparr>, db\<lparr>reviews := reviews db @ [r], id_supply := Suc (id_supply db)\<rparr>)))"

definition review_create :: "env \<Rightarrow> millis \<Rightarrow> ident \<Rightarrow> ident \<Rightarrow> js_num \<Rightarrow> string \<Rightarrow> review_summary db_op" where
  "review_create E now uid pid rating comment =
     transaction (dbind (insert_review E now uid pid rating comment) (\<lambda>v.
       dbind (persist_events E [review_created_event now (rv_product_id (rs_review v))] (\<lambda>_. None)) (\<lambda>_. dret v)))"

definition find_review_by_id :: "ident \<Rightarrow> review_row option db_op" where
  "find_review_by_id rid = dget (\<lambda>db. find_by rv_id rid (reviews db))"

definition delete_review_row :: "ident \<Rightarrow> ident db_op" where
  "delete_review_row rid db =
     (case find_by rv_id rid (reviews db) of
        None \<Rightarrow> (Inl record_not_found, db)
      | Some r \<Rightarrow> (Inr (rv_product_id r), db\<lparr>reviews := delete_by rv_id rid (reviews db)\<rparr>))"

definition review_delete :: "env \<Rightarrow> millis \<Rightarrow> ident \<Rightarrow> unit db_op" where
  "review_delete E now rid =
     transaction (dbind (delete_review_row rid) (\<lambda>pid. persist_events E [review_deleted_event now pid] (\<lambda>_. None)))"

definition with_product :: "database \<Rightarrow> review_row \<Rightarrow> review_admin_view option" where
  "with_product db r = Option.bind (review_with_user db r) (\<lambda>v.
     map_option (\<lambda>p. \<lparr>ra_review = v, ra_product = p\<rparr>) (find_product (rv_product_id r) db))"

definition find_all_reviews_admin :: "nat \<Rightarrow> nat \<Rightarrow> review_admin_view list db_op" where
  "find_all_reviews_admin skip limit = dget (\<lambda>db. List.map_filter (with_product db)
     (take limit (drop skip (sort_rows (\<lambda>r. Col_Int (rv_created_at r)) False (reviews db)))))"

definition count_reviews :: "nat db_op" where
  "count_reviews = dget (\<lambda>db. length (reviews db))"

subsection \<open>Service\<close>

definition get_reviews_by_product :: "traffic_fun \<Rightarrow> ident \<Rightarrow> nat option \<Rightarrow> nat option \<Rightarrow> review_summary listing db_op" where
  "get_reviews_by_product intf pid pg_opt limit_opt =
     (let pg = with_default 1 pg_opt; limit = with_default 10 limit_opt in
      dbind (at_statement intf 0 (find_by_product pid ((pg - 1) * limit) limit)) (\<lambda>rows.
      dbind (at_statement intf 1 (count_by_product pid)) (\<lambda>n. dret (make_listing pg limit rows n))))"

definition create_review :: "env \<Rightarrow> traffic_fun \<Rightarrow> millis \<Rightarrow> ident \<Rightarrow> ident \<Rightarrow> js_num \<Rightarrow> string \<Rightarrow> review_summary db_op" where
  "create_review E intf now uid pid rating content =
     dbind (at_statement intf 0 (product_exists pid)) (\<lambda>known.
     if \<not> known then dthrow (not_found_error ''Product not found'')
     else dbind (at_statement intf 1 (find_by_user_and_product uid pid)) (\<lambda>existing.
          if existing \<noteq> None then dthrow (validation_error ''You have already reviewed this product'')
          else at_statement intf 2 (review_create E now uid pid rating content)))"

definition delete_review :: "env \<Rightarrow> traffic_fun \<Rightarrow> millis \<Rightarrow> ident \<Rightarrow> ident \<Rightarrow> bool \<Rightarrow> bool db_op" where
  "delete_review E intf now rid uid is_admin =
     dbind (at_statement intf 0 (find_review_by_id rid)) (\<lambda>found.
     case found of
       None \<Rightarrow> dthrow (not_found_error ''Review not found'')
     | Some r \<Rightarrow>
         if \<not> is_admin \<and> rv_user_id r \<noteq> uid then dthrow (validation_error ''You are not authorized to delete this review'')
         else dbind (at_statement intf 1 (review_delete E now rid)) (\<lambda>_. dret True))"

definition admin_get_all :: "traffic_fun \<Rightarrow> nat option \<Rightarrow> nat option \<Rightarrow> review_admin_view listing db_op" where
  "admin_get_all intf pg_opt limit_opt =
     (let pg = with_default 1 pg_opt; limit = with_default 10 limit_opt in
      dbind (at_statement intf 0 (find_all_reviews_admin ((pg - 1) * limit) limit)) (\<lambda>rows.
      dbind (at_statement intf 1 count_reviews) (\<lambda>n. dret (make_listing pg limit rows n))))"

subsection \<open>The refresh under its lock\<close>

text \<open>\<open>locks\<close> holds the products whose catalog row another transaction has locked, and \<open>intf locks n\<close> what others commit before
  statement \<open>n\<close> while these are locked. A catalog row that does not exist yet cannot be locked.\<close>

definition ratings_of :: "ident \<Rightarrow> database \<Rightarrow> int list" where
  "ratings_of pid db = map rv_rating (filter (\<lambda>r. rv_product_id r = pid) (reviews db))"

definition locking_row :: "ident \<Rightarrow> database \<Rightarrow> ident set \<Rightarrow> ident set" where
  "locking_row pid db locks = (if find_by pc_product_id pid (product_catalog db) = None then locks else insert pid locks)"

definition set_rating :: "ident \<Rightarrow> int list \<Rightarrow> database \<Rightarrow> database" where
  "set_rating pid rs db = db\<lparr>product_catalog := update_where (\<lambda>r. pc_product_id r = pid)
     (\<lambda>r. r\<lparr>pc_avg_rating := average_rating rs, pc_review_count := length rs\<rparr>) (product_catalog db)\<rparr>"

definition refresh_rating :: "ident set \<Rightarrow> (ident set \<Rightarrow> traffic_fun) \<Rightarrow> ident \<Rightarrow> database \<Rightarrow> database" where
  "refresh_rating locks intf pid db =
     (let db0 = intf locks 0 db;
          locked = locking_row pid db0 locks;
          db1 = intf locked 1 db0
      in set_rating pid (ratings_of pid db1) (intf locked 2 db1))"

text \<open>Alone it is the transaction of \<^verbatim>\<open>Projection\<close>.\<close>

lemma refresh_alone: "refresh_product_rating pid db = (Inr (), refresh_rating {} (\<lambda>_ _ db. db) pid db)"
  by (simp add: refresh_product_rating_def transaction_def refresh_rating_def set_rating_def ratings_of_def Let_def)

end
