(* ===== verification/Review_Ratings.thy ===== *)
theory Review_Ratings
  imports Review_Service
begin

text \<open>
  The catalog follows the reviews: the review service, the outbox, the event bus with its handler log and the refresh of the ratings put
  together. A catalog row shows the ratings of its product's reviews, or an event of a review that changed them waits in the outbox.
\<close>

subsection \<open>Events that name a review's product\<close>

definition rates :: "env \<Rightarrow> outbox_row \<Rightarrow> ident \<Rightarrow> bool" where
  "rates E r pid \<longleftrightarrow> ob_event_name r \<in> set review_projection_events
     \<and> (\<forall>ev. deserialize_outbox_event E (ob_payload r) (ob_event_name r) (ob_aggregate_id r) = Inr ev \<longrightarrow> str_field ''productId'' ev = Some pid)"

definition rating_handler :: "string \<Rightarrow> string" where
  "rating_handler name = ''ProductCatalogRatingProjectionHandler:'' @ name"

definition rating_handled :: "outbox_row \<Rightarrow> database \<Rightarrow> bool" where
  "rating_handled r db \<longleftrightarrow> db_has_succeeded (ob_id r) (rating_handler (ob_event_name r)) db"

lemma review_row_rates:
  assumes "pid \<noteq> []" and "ev = review_created_event now pid \<or> ev = review_deleted_event now pid"
  shows "rates E (outbox_row_of (iso_of E) (\<lambda>_. None) i ev) pid"
proof -
  have e: "event_ok ev" "str_field ''productId'' ev = Some pid" "ev_name ev \<in> set review_projection_events"
    using assms by (auto simp: event_ok_def known_keys_def str_field_def event_defs review_projection_events_def Let_def)
  have "str_field ''productId'' ev' = Some pid"
    if "deserialize_outbox_event E (to_stored (iso_of E) (event_payload ev (\<lambda>_. None))) (ev_name ev) (ev_aggregate_id ev) = Inr ev'" for ev'
    using deserialized_fields(1) [OF e(1) that] e(2) by (simp only: str_field_def)
  then show ?thesis using e(3) by (simp only: rates_def outbox_row_of_def outbox_row.select_convs) blast
qed

subsection \<open>A delivery\<close>

text \<open>The relay's delivery of a review event: the handler's transaction, others, the result in the log. A delivery that would have to wait
  for the row lock of a transaction under way is not taken up here; it comes when the relay tries again.\<close>

definition deliver_rating ::
    "env \<Rightarrow> (error \<Rightarrow> string) \<Rightarrow> millis \<Rightarrow> ident set \<Rightarrow> (ident set \<Rightarrow> traffic_fun) \<Rightarrow> outbox_row \<Rightarrow> database \<Rightarrow> database" where
  "deliver_rating E msg now locks intf r db =
     (if ob_event_name r \<notin> set review_projection_events \<or> rating_handled r db then db
      else case deserialize_outbox_event E (ob_payload r) (ob_event_name r) (ob_aggregate_id r) of
        Inl _ \<Rightarrow> db
      | Inr ev \<Rightarrow>
          (case str_field ''productId'' ev of
             None \<Rightarrow> db_record_result msg now (ob_id r) (rating_handler (ob_event_name r)) (Failed PrismaClientValidationError) (intf locks 3 db)
           | Some pid \<Rightarrow>
               if pid \<in> locks then db
               else db_record_result msg now (ob_id r) (rating_handler (ob_event_name r)) Succeeded
                      (intf locks 3 (refresh_rating locks intf pid db))))"

lemma rating_handlers:
  "n \<in> set review_projection_events \<Longrightarrow>
   handlers_of (wire_domain_events a b c) n = [\<lparr>he_name = rating_handler n, he_fn = handle_product_rating_changed\<rparr>]"
  unfolding review_projection_events_def
  by (simp only: set_simps insert_iff empty_iff, elim disjE)
    (simp_all add: wire_domain_events_def register_order_event_subscriptions_def product_projection_events_def
      review_projection_events_def handlers_of_subscribe Let_def rating_handler_def, simp_all add: handlers_of_def)

text \<open>Without others it is the publication on the wired bus.\<close>

lemma deliver_rating_is_publish:
  assumes "ob_event_name r \<in> set review_projection_events"
    and ev: "deserialize_outbox_event E (ob_payload r) (ob_event_name r) (ob_aggregate_id r) = Inr ev"
  shows "deliver_rating E msg now {} (\<lambda>_ _ db. db) r db
    = snd (publish (wire_domain_events a b c) ev (Some (ob_id r, prisma_tracker msg now)) db)"
  by (auto simp: deliver_rating_def assms publish_def deserialized_name [OF ev] rating_handlers run_handler_def rating_handled_def
      prisma_tracker_def handle_product_rating_changed_def refresh_alone Let_def split: option.split)

subsection \<open>Traffic\<close>

datatype review_act =
    Create_Review ident ident js_num string
  | Delete_Review ident ident bool
  | Deliver_Rating ident
  | Project_Columns catalog_row int

datatype review_traffic = Reviewing "nat \<Rightarrow> review_traffic list" millis review_act

definition review_op ::
    "env \<Rightarrow> (error \<Rightarrow> string) \<Rightarrow> ident set \<Rightarrow> (ident set \<Rightarrow> traffic_fun) \<Rightarrow> millis \<Rightarrow> review_act \<Rightarrow> database \<Rightarrow> database" where
  "review_op E msg locks intf now act db =
     (case act of
        Create_Review uid pid rating content \<Rightarrow> snd (create_review E (intf locks) now uid pid rating content db)
      | Delete_Review rid uid is_admin \<Rightarrow> snd (delete_review E (intf locks) now rid uid is_admin db)
      | Deliver_Rating i \<Rightarrow>
          (case find_by ob_id i (outbox_events db) of None \<Rightarrow> db | Some r \<Rightarrow> deliver_rating E msg now locks intf r db)
      | Project_Columns c v \<Rightarrow>
          if pc_product_id c \<in> locks then db else snd (write_product_catalog alone False c (Some v) db))"

primrec run_review :: "env \<Rightarrow> (error \<Rightarrow> string) \<Rightarrow> review_traffic \<Rightarrow> ident set \<Rightarrow> database \<Rightarrow> database" where
  "run_review E msg (Reviewing between now act) locks =
     review_op E msg locks (\<lambda>held n. fold (\<lambda>f. f held) (map (run_review E msg) (between n))) now act"

subsection \<open>The invariant\<close>

text \<open>For one product: \<open>X\<close> are the events whose deliveries have refreshed the row and are about to be recorded, \<open>Y\<close> what a transaction under
  the row's lock has read, if it has, with the events that do not count for it.\<close>

definition rating_waits :: "env \<Rightarrow> ident set \<Rightarrow> ident \<Rightarrow> database \<Rightarrow> bool" where
  "rating_waits E X pid db \<longleftrightarrow> (\<exists>r \<in> set (outbox_events db). rates E r pid \<and> \<not> rating_handled r db \<and> ob_id r \<notin> X)"

definition shows_ratings :: "catalog_row \<Rightarrow> int list \<Rightarrow> bool" where
  "shows_ratings c rs \<longleftrightarrow> pc_avg_rating c = average_rating rs \<and> pc_review_count c = length rs"

definition issued :: "env \<Rightarrow> database \<Rightarrow> ident set" where
  "issued E db = gen_id E ` {..<id_supply db}"

definition rating_inv :: "env \<Rightarrow> ident \<Rightarrow> ident set \<Rightarrow> (int list option \<times> ident set) set \<Rightarrow> database \<Rightarrow> bool" where
  "rating_inv E pid X Y db \<longleftrightarrow> pid \<in> pc_product_id ` set (product_catalog db)
     \<and> (\<forall>c \<in> set (product_catalog db). pc_product_id c = pid \<longrightarrow> shows_ratings c (ratings_of pid db) \<or> rating_waits E X pid db)
     \<and> (\<forall>(read, Z) \<in> Y. \<forall>rs. read = Some rs \<longrightarrow> rs = ratings_of pid db \<or> rating_waits E Z pid db)
     \<and> distinct (map ob_id (outbox_events db)) \<and> ob_id ` set (outbox_events db) \<subseteq> issued E db
     \<and> hl_event_id ` set (outbox_handler_log db) \<subseteq> issued E db \<and> X \<union> \<Union> (snd ` Y) \<subseteq> issued E db"

lemma rating_inv_facts:
  assumes "rating_inv E pid X Y db"
  shows "pid \<in> pc_product_id ` set (product_catalog db)"
    "c \<in> set (product_catalog db) \<Longrightarrow> pc_product_id c = pid \<Longrightarrow> shows_ratings c (ratings_of pid db) \<or> rating_waits E X pid db"
    "(Some rs, Z) \<in> Y \<Longrightarrow> rs = ratings_of pid db \<or> rating_waits E Z pid db"
    "distinct (map ob_id (outbox_events db))" "ob_id ` set (outbox_events db) \<subseteq> issued E db"
    "hl_event_id ` set (outbox_handler_log db) \<subseteq> issued E db" "X \<union> \<Union> (snd ` Y) \<subseteq> issued E db"
proof -
  note inv = assms [unfolded rating_inv_def]
  note rest = inv [THEN conjunct2, THEN conjunct2, THEN conjunct2]
  show "pid \<in> pc_product_id ` set (product_catalog db)" by (rule inv [THEN conjunct1])
  show "shows_ratings c (ratings_of pid db) \<or> rating_waits E X pid db" if "c \<in> set (product_catalog db)" "pc_product_id c = pid"
    using bspec [OF inv [THEN conjunct2, THEN conjunct1] that(1)] that(2) by (rule mp)
  show "(Some rs, Z) \<in> Y \<Longrightarrow> rs = ratings_of pid db \<or> rating_waits E Z pid db"
    using inv [THEN conjunct2, THEN conjunct2, THEN conjunct1] by (auto dest: bspec)
  show "distinct (map ob_id (outbox_events db))" by (rule rest [THEN conjunct1])
  show "ob_id ` set (outbox_events db) \<subseteq> issued E db" by (rule rest [THEN conjunct2, THEN conjunct1])
  show "hl_event_id ` set (outbox_handler_log db) \<subseteq> issued E db" by (rule rest [THEN conjunct2, THEN conjunct2, THEN conjunct1])
  show "X \<union> \<Union> (snd ` Y) \<subseteq> issued E db" by (rule rest [THEN conjunct2, THEN conjunct2, THEN conjunct2])
qed

lemma rating_invI:
  assumes "pid \<in> pc_product_id ` set (product_catalog db)"
    and "\<And>c. c \<in> set (product_catalog db) \<Longrightarrow> pc_product_id c = pid \<Longrightarrow> shows_ratings c (ratings_of pid db) \<or> rating_waits E X pid db"
    and "\<And>rs Z. (Some rs, Z) \<in> Y \<Longrightarrow> rs = ratings_of pid db \<or> rating_waits E Z pid db"
    and "distinct (map ob_id (outbox_events db))" "ob_id ` set (outbox_events db) \<subseteq> issued E db"
    and "hl_event_id ` set (outbox_handler_log db) \<subseteq> issued E db" "X \<union> \<Union> (snd ` Y) \<subseteq> issued E db"
  shows "rating_inv E pid X Y db"
  unfolding rating_inv_def using assms(2,3) by (intro conjI assms(1,4-7)) (blast, auto)

lemma rating_handled_cong: "outbox_handler_log db' = outbox_handler_log db \<Longrightarrow> rating_handled r db' = rating_handled r db"
  by (simp add: rating_handled_def db_has_succeeded_def)

lemma rating_unhandled_new:
  assumes "hl_event_id ` set (outbox_handler_log db) \<subseteq> issued E db" and "ob_id r \<notin> issued E db"
  shows "\<not> rating_handled r db"
  using assms by (force simp: rating_handled_def db_has_succeeded_def log_key_def split: option.splits dest!: find_by_SomeD)

lemma waits_subset: "rating_waits E Z pid db \<Longrightarrow> Z' \<subseteq> Z \<Longrightarrow> rating_waits E Z' pid db"
  unfolding rating_waits_def by blast

subsection \<open>What keeps it\<close>

text \<open>Others write no review of the product, or store an event that names it.\<close>

lemma inv_event:
  assumes inv: "rating_inv E pid X Y db" and inj: "inj (gen_id E)"
    and same: "product_catalog db' = product_catalog db" "outbox_handler_log db' = outbox_handler_log db"
    and outbox: "outbox_events db' = outbox_events db @ [r]" "ob_id r = gen_id E k" "id_supply db \<le> k" "k < id_supply db'"
    and change: "ratings_of pid db' = ratings_of pid db \<or> rates E r pid"
  shows "rating_inv E pid X Y db'"
proof -
  note f = rating_inv_facts [OF inv]
  have new: "ob_id r \<notin> issued E db" using inj outbox(2,3) by (auto simp: issued_def dest: injD)
  have grow: "issued E db \<subseteq> issued E db'" and r: "ob_id r \<in> issued E db'" using outbox(2-4) by (auto simp: issued_def)
  have h: "rating_handled r' db' = rating_handled r' db" for r' by (rule rating_handled_cong [OF same(2)])
  have keep: "rating_waits E Z pid db'" if "rating_waits E Z pid db" for Z
    using that unfolding rating_waits_def h outbox(1) by auto
  have waits: "rating_waits E Z pid db'" if "rates E r pid" "Z \<subseteq> issued E db" for Z
    using that new rating_unhandled_new [OF f(6) new] unfolding rating_waits_def h outbox(1) by auto
  show ?thesis
  proof (rule rating_invI)
    show "pid \<in> pc_product_id ` set (product_catalog db')" using f(1) by (simp only: same)
    show "shows_ratings c (ratings_of pid db') \<or> rating_waits E X pid db'" if "c \<in> set (product_catalog db')" "pc_product_id c = pid" for c
      using f(2) [of c] that change keep waits [of X] f(7) by (auto simp: same(1))
    show "rs = ratings_of pid db' \<or> rating_waits E Z pid db'" if "(Some rs, Z) \<in> Y" for rs Z
    proof -
      have "Z \<subseteq> issued E db" using f(7) that by force
      then show ?thesis using f(3) [OF that] change keep waits [of Z] by auto
    qed
    show "distinct (map ob_id (outbox_events db'))" using f(4,5) new by (auto simp: outbox(1))
    show "ob_id ` set (outbox_events db') \<subseteq> issued E db'" using f(5) grow r by (auto simp: outbox(1))
    show "hl_event_id ` set (outbox_handler_log db') \<subseteq> issued E db'" using subset_trans [OF f(6) grow] by (simp only: same(2))
    show "X \<union> \<Union> (snd ` Y) \<subseteq> issued E db'" using f(7) grow by blast
  qed
qed

lemma review_create_keeps:
  assumes inv: "rating_inv E pid X Y db" and inj: "inj (gen_id E)" and "pid \<noteq> []"
  shows "rating_inv E pid X Y (snd (review_create E now uid p rating content db))"
proof (cases "insert_review E now uid p rating content db")
  case (Pair x db1)
  show ?thesis
  proof (cases x)
    case (Inl e)
    then show ?thesis using Pair inv by (simp add: review_create_def transaction_def dbind_def)
  next
    case (Inr v)
    obtain n where v: "rv_product_id (rs_review v) = p" "db1 = db\<lparr>reviews := reviews db @ [rs_review v], id_supply := Suc (id_supply db)\<rparr>"
        "rv_rating (rs_review v) = n"
      using Pair Inr by (auto simp: insert_review_def Let_def split: sum.splits if_splits option.splits)
    let ?ev = "review_created_event now p"
    let ?r = "outbox_row_of (iso_of E) (\<lambda>_. None) (gen_id E (Suc (id_supply db))) ?ev"
    have db': "snd (review_create E now uid p rating content db)
        = db1\<lparr>outbox_events := outbox_events db @ [?r], id_supply := Suc (Suc (id_supply db))\<rparr>"
      using Pair Inr v by (simp add: review_create_def transaction_def dbind_def persist_events_def db_monad)
    show ?thesis
    proof (rule inv_event [OF inv inj, where r = ?r and k = "Suc (id_supply db)"], unfold db')
      show "ratings_of pid (db1\<lparr>outbox_events := outbox_events db @ [?r], id_supply := Suc (Suc (id_supply db))\<rparr>) = ratings_of pid db \<or> rates E ?r pid"
        using v review_row_rates [of p ?ev now E] \<open>pid \<noteq> []\<close> by (cases "p = pid") (auto simp: ratings_of_def)
    qed (simp_all add: v outbox_row_of_def)
  qed
qed

lemma delete_by_other: "\<not> P r \<Longrightarrow> find_by key k xs = Some r \<Longrightarrow> filter P (delete_by key k xs) = filter P xs"
  by (induction xs) (auto split: if_splits)

lemma review_delete_keeps:
  assumes inv: "rating_inv E pid X Y db" and inj: "inj (gen_id E)" and "pid \<noteq> []"
  shows "rating_inv E pid X Y (snd (review_delete E now rid db))"
proof (cases "find_by rv_id rid (reviews db)")
  case None
  then show ?thesis using inv by (simp add: review_delete_def transaction_def dbind_def delete_review_row_def)
next
  case (Some rv)
  let ?ev = "review_deleted_event now (rv_product_id rv)"
  let ?r = "outbox_row_of (iso_of E) (\<lambda>_. None) (gen_id E (id_supply db)) ?ev"
  have db': "snd (review_delete E now rid db)
      = db\<lparr>reviews := delete_by rv_id rid (reviews db), outbox_events := outbox_events db @ [?r], id_supply := Suc (id_supply db)\<rparr>"
    using Some by (simp add: review_delete_def transaction_def dbind_def delete_review_row_def persist_events_def db_monad)
  have "filter (\<lambda>r. rv_product_id r = pid) (delete_by rv_id rid (reviews db)) = filter (\<lambda>r. rv_product_id r = pid) (reviews db)" if "rv_product_id rv \<noteq> pid"
    using that Some by (intro delete_by_other)
  then have c: "ratings_of pid (snd (review_delete E now rid db)) = ratings_of pid db \<or> rates E ?r pid"
    using review_row_rates [of "rv_product_id rv" ?ev now E] \<open>pid \<noteq> []\<close> by (cases "rv_product_id rv = pid") (auto simp: ratings_of_def db')
  show ?thesis
    by (rule inv_event [OF inv inj, where r = ?r and k = "id_supply db", OF _ _ _ _ _ _ c]) (simp_all add: db' outbox_row_of_def)
qed

text \<open>A write of the other columns keeps the ratings of the rows that exist.\<close>

lemma write_shape:
  assumes "versioned_write pc_product_id pc_source_version (catalog_upd False) slug_clash alone c rows = (x, rows')"
  shows "rows' = rows \<or> (\<exists>d. rows' = rows @ [d] \<and> pc_product_id d \<notin> pc_product_id ` set rows)
    \<or> (\<exists>P. rows' = update_where (\<lambda>r. pc_product_id r = pc_product_id c \<and> P r) (catalog_upd False c) rows)"
proof -
  have "rows' = rows \<or> (rows' = rows @ [c] \<and> pc_product_id c \<notin> pc_product_id ` set rows)
    \<or> rows' = update_where (\<lambda>r. pc_product_id r = pc_product_id c \<and> pc_source_version r < pc_source_version c) (catalog_upd False c) rows"
    using assms by (auto simp: versioned_write_def stmt_update_def stmt_create_def alone_def Let_def update_where_none split: if_splits option.splits)
  then show ?thesis by auto
qed

lemma columns_keep:
  assumes inv: "rating_inv E pid X Y db"
  shows "rating_inv E pid X Y (snd (write_product_catalog alone False c sv db))"
proof (cases "require_source_version sv")
  case (Inl e)
  then show ?thesis using inv by (simp add: write_product_catalog_def)
next
  case (Inr v)
  note f = rating_inv_facts [OF inv]
  obtain x rows where w: "versioned_write pc_product_id pc_source_version (catalog_upd False) slug_clash alone (c\<lparr>pc_source_version := v\<rparr>) (product_catalog db) = (x, rows)"
    by force
  have rows: "snd (write_product_catalog alone False c sv db) = db\<lparr>product_catalog := rows\<rparr>"
    using Inr w by (simp add: write_product_catalog_def)
  note cases = write_shape [OF w]
  have old: "\<exists>c0 \<in> set (product_catalog db). pc_product_id c0 = pid \<and> pc_avg_rating c' = pc_avg_rating c0 \<and> pc_review_count c' = pc_review_count c0"
    if "c' \<in> set rows" "pc_product_id c' = pid" for c'
    using cases
  proof (elim disjE exE conjE)
    assume "rows = product_catalog db"
    then show ?thesis using that by blast
  next
    fix d assume "rows = product_catalog db @ [d]" "pc_product_id d \<notin> pc_product_id ` set (product_catalog db)"
    then show ?thesis using that f(1) by auto
  next
    fix P assume r: "rows = update_where (\<lambda>r. pc_product_id r = pc_product_id (c\<lparr>pc_source_version := v\<rparr>) \<and> P r)
      (catalog_upd False (c\<lparr>pc_source_version := v\<rparr>)) (product_catalog db)"
    have "c' \<in> (\<lambda>r. if pc_product_id r = pc_product_id (c\<lparr>pc_source_version := v\<rparr>) \<and> P r then catalog_upd False (c\<lparr>pc_source_version := v\<rparr>) r else r)
        ` set (product_catalog db)" using that(1) by (simp only: r set_update_where)
    then obtain c0 where "c0 \<in> set (product_catalog db)" "c' = c0 \<or> pc_product_id c0 = pc_product_id c \<and> c' = catalog_upd False (c\<lparr>pc_source_version := v\<rparr>) c0"
      by (rule imageE) (simp split: if_splits)
    then show ?thesis using that(2) by (intro bexI [of _ c0]) (auto simp: catalog_upd_def)
  qed
  have ex: "pid \<in> pc_product_id ` set rows"
    using cases
  proof (elim disjE exE conjE)
    fix P assume "rows = update_where (\<lambda>r. pc_product_id r = pc_product_id (c\<lparr>pc_source_version := v\<rparr>) \<and> P r)
      (catalog_upd False (c\<lparr>pc_source_version := v\<rparr>)) (product_catalog db)"
    then have "map pc_product_id rows = map pc_product_id (product_catalog db)"
      by (simp only:) (rule map_update_where, simp add: catalog_upd_def)
    then have "pc_product_id ` set rows = pc_product_id ` set (product_catalog db)" by (metis set_map)
    then show ?thesis using f(1) by simp
  qed (use f(1) in auto)
  have w: "rating_waits E Z pid (db\<lparr>product_catalog := rows\<rparr>) = rating_waits E Z pid db" for Z
    by (simp add: rating_waits_def rating_handled_def db_has_succeeded_def)
  have s: "ratings_of pid (db\<lparr>product_catalog := rows\<rparr>) = ratings_of pid db" by (simp add: ratings_of_def)
  show ?thesis
    unfolding rows
  proof (rule rating_invI, unfold w s)
    show "shows_ratings c' (ratings_of pid db) \<or> rating_waits E X pid db" if c': "c' \<in> set (product_catalog (db\<lparr>product_catalog := rows\<rparr>))" "pc_product_id c' = pid" for c'
    proof -
      obtain c0 where "c0 \<in> set (product_catalog db)" "pc_product_id c0 = pid" "pc_avg_rating c' = pc_avg_rating c0" "pc_review_count c' = pc_review_count c0"
        using old [of c'] c' by auto
      then show ?thesis using f(2) by (simp add: shows_ratings_def)
    qed
  qed (use ex f(3-7) in \<open>simp_all add: issued_def\<close>)
qed

lemma rating_waits_cong:
  "outbox_events db' = outbox_events db \<Longrightarrow> outbox_handler_log db' = outbox_handler_log db \<Longrightarrow> rating_waits E Z pid db' = rating_waits E Z pid db"
  by (simp add: rating_waits_def rating_handled_def db_has_succeeded_def)

text \<open>Recording the result of a delivery of an event that does not count.\<close>

lemma record_keeps:
  assumes inv: "rating_inv E pid X Y db" and "i \<in> X" and "\<And>rs Z. (Some rs, Z) \<in> Y \<Longrightarrow> i \<in> Z"
  shows "rating_inv E pid X Y (db_record_result msg now i h res db)"
proof -
  note f = rating_inv_facts [OF inv]
  let ?db' = "db_record_result msg now i h res db"
  have same: "product_catalog ?db' = product_catalog db" "reviews ?db' = reviews db" "outbox_events ?db' = outbox_events db" "id_supply ?db' = id_supply db"
    by (simp_all add: db_record_result_def Let_def)
  have r: "ratings_of pid ?db' = ratings_of pid db" by (simp only: ratings_of_def same)
  have w: "rating_waits E Z pid ?db'" if "rating_waits E Z pid db" "i \<in> Z" for Z
    using that by (auto simp: rating_waits_def same rating_handled_def db_has_record)
  have "hl_event_id ` set (outbox_handler_log ?db') \<subseteq> insert i (hl_event_id ` set (outbox_handler_log db))"
  proof -
    have "hl_event_id ` set (update_by log_key k (\<lambda>row. row\<lparr>hl_status := s, hl_error := er, hl_attempted_at := now\<rparr>) l) = hl_event_id ` set l" for k s er l
      by (induction l) auto
    then show ?thesis by (auto simp: db_record_result_def Let_def)
  qed
  moreover have "i \<in> issued E db" using f(7) assms(2) by blast
  moreover have "issued E ?db' = issued E db" by (simp add: issued_def same)
  ultimately have log: "hl_event_id ` set (outbox_handler_log ?db') \<subseteq> issued E ?db'" using f(6) by auto
  show ?thesis
  proof (rule rating_invI, unfold same r)
    show "shows_ratings c (ratings_of pid db) \<or> rating_waits E X pid ?db'" if "c \<in> set (product_catalog db)" "pc_product_id c = pid" for c
      using f(2) [OF that] w [of X] assms(2) by blast
    show "rs = ratings_of pid db \<or> rating_waits E Z pid ?db'" if "(Some rs, Z) \<in> Y" for rs Z
      using f(3) [OF that] w [of Z] assms(3) [OF that] by blast
    show "ob_id ` set (outbox_events db) \<subseteq> issued E ?db'" "X \<union> \<Union> (snd ` Y) \<subseteq> issued E ?db'"
      using f(5,7) \<open>issued E ?db' = issued E db\<close> by simp_all
  qed (use f(1,4) log in auto)
qed

text \<open>Fewer events that do not count.\<close>

lemma inv_weaken:
  assumes inv: "rating_inv E pid X' Y' db" and "X \<subseteq> X'" and "\<And>read Z. (read, Z) \<in> Y \<Longrightarrow> \<exists>Z'. (read, Z') \<in> Y' \<and> Z \<subseteq> Z'"
  shows "rating_inv E pid X Y db"
proof -
  note f = rating_inv_facts [OF inv]
  show ?thesis
  proof (rule rating_invI)
    show "shows_ratings c (ratings_of pid db) \<or> rating_waits E X pid db" if "c \<in> set (product_catalog db)" "pc_product_id c = pid" for c
      using f(2) [OF that] waits_subset [OF _ assms(2)] by blast
    show "rs = ratings_of pid db \<or> rating_waits E Z pid db" if "(Some rs, Z) \<in> Y" for rs Z
      using assms(3) [OF that] f(3) waits_subset by metis
    have "snd ` Y \<subseteq> {Z. \<exists>Z' \<in> snd ` Y'. Z \<subseteq> Z'}"
      using assms(3) by (force simp: image_iff)
    then show "X \<union> \<Union> (snd ` Y) \<subseteq> issued E db" using f(7) assms(2) by blast
  qed (use f in blast)+
qed

text \<open>An event of another product does not count.\<close>

lemma inv_exclude:
  assumes inv: "rating_inv E pid X Y db" and r: "r \<in> set (outbox_events db)" "\<not> rates E r pid"
  shows "rating_inv E pid (insert (ob_id r) X) ((\<lambda>(read, Z). (read, insert (ob_id r) Z)) ` Y) db"
proof -
  note f = rating_inv_facts [OF inv]
  have w: "rating_waits E (insert (ob_id r) Z) pid db" if wz: "rating_waits E Z pid db" for Z
  proof -
    obtain r' where r': "r' \<in> set (outbox_events db)" "rates E r' pid" "\<not> rating_handled r' db" "ob_id r' \<notin> Z"
      using wz unfolding rating_waits_def by blast
    then have "ob_id r' \<noteq> ob_id r" using r f(4) by (auto simp: distinct_map dest: inj_onD)
    then show ?thesis using r' unfolding rating_waits_def by blast
  qed
  have i: "ob_id r \<in> issued E db" using f(5) r(1) by blast
  show ?thesis
  proof (rule rating_invI)
    show "shows_ratings c (ratings_of pid db) \<or> rating_waits E (insert (ob_id r) X) pid db" if "c \<in> set (product_catalog db)" "pc_product_id c = pid" for c
      using f(2) [OF that] w by blast
    show "rs = ratings_of pid db \<or> rating_waits E Z pid db" if "(Some rs, Z) \<in> (\<lambda>(read, Z). (read, insert (ob_id r) Z)) ` Y" for rs Z
      using that f(3) w by auto
    show "insert (ob_id r) X \<union> \<Union> (snd ` (\<lambda>(read, Z). (read, insert (ob_id r) Z)) ` Y) \<subseteq> issued E db"
      using f(7) i by force
  qed (use f in blast)+
qed

lemma set_rating_other:
  assumes "rating_inv E pid X Y db" and "q \<noteq> pid"
  shows "rating_inv E pid X Y (set_rating q rs db)"
proof -
  note f = rating_inv_facts [OF assms(1)]
  let ?db' = "set_rating q rs db"
  have w: "rating_waits E Z pid ?db' = rating_waits E Z pid db" for Z by (rule rating_waits_cong) (simp_all add: set_rating_def)
  have r: "ratings_of pid ?db' = ratings_of pid db" by (simp add: ratings_of_def set_rating_def)
  have rows: "c \<in> set (product_catalog ?db') \<and> pc_product_id c = pid \<longleftrightarrow> c \<in> set (product_catalog db) \<and> pc_product_id c = pid" for c
    using assms(2) by (auto simp: set_rating_def set_update_where image_iff)
  show ?thesis
  proof (rule rating_invI, unfold w r)
    show "pid \<in> pc_product_id ` set (product_catalog ?db')" using f(1) rows by (auto simp: image_iff)
    show "shows_ratings c (ratings_of pid db) \<or> rating_waits E X pid db" if "c \<in> set (product_catalog ?db')" "pc_product_id c = pid" for c
      using f(2) rows that by blast
  qed (use f(3-7) in \<open>simp_all add: set_rating_def issued_def\<close>)
qed

text \<open>The write of the ratings that were read under the lock.\<close>

lemma set_rating_own:
  assumes "rating_inv E pid X (insert (Some rs, Z) Y) db" and "i \<in> Z" and "X \<subseteq> Z"
  shows "rating_inv E pid (insert i X) Y (set_rating pid rs db)"
proof -
  note f = rating_inv_facts [OF assms(1)]
  let ?db' = "set_rating pid rs db"
  have w: "rating_waits E Z pid ?db' = rating_waits E Z pid db" for Z by (rule rating_waits_cong) (simp_all add: set_rating_def)
  have r: "ratings_of pid ?db' = ratings_of pid db" by (simp add: ratings_of_def set_rating_def)
  have rs: "rs = ratings_of pid db \<or> rating_waits E (insert i X) pid db"
    using f(3) [of rs Z] waits_subset [of E Z pid db "insert i X"] assms(2,3) by blast
  have rows: "shows_ratings c rs" if c: "c \<in> set (product_catalog ?db')" "pc_product_id c = pid" for c
  proof -
    obtain c0 where "c = (if pc_product_id c0 = pid then c0\<lparr>pc_avg_rating := average_rating rs, pc_review_count := length rs\<rparr> else c0)"
      by (rule in_update_whereE [OF c(1) [unfolded set_rating_def, simplified]]) blast
    then show ?thesis using c(2) by (simp add: shows_ratings_def split: if_splits)
  qed
  have "map pc_product_id (product_catalog ?db') = map pc_product_id (product_catalog db)"
    unfolding set_rating_def by simp (rule map_update_where, simp)
  then have ids: "pc_product_id ` set (product_catalog ?db') = pc_product_id ` set (product_catalog db)" by (metis set_map)
  show ?thesis
  proof (rule rating_invI, unfold w r ids)
    show "shows_ratings c (ratings_of pid db) \<or> rating_waits E (insert i X) pid db" if "c \<in> set (product_catalog ?db')" "pc_product_id c = pid" for c
      using rows [OF that] rs by blast
    have "Z \<subseteq> issued E db" using f(7) by auto
    then show "insert i X \<union> \<Union> (snd ` Y) \<subseteq> issued E ?db'" using f(7) assms(2) by (auto simp: issued_def set_rating_def)
  qed (use f(1,3-6) in \<open>auto simp: set_rating_def issued_def\<close>)
qed

text \<open>The transaction reads the ratings.\<close>

lemma read_ratings:
  assumes "rating_inv E pid X (insert (None, Z) Y) db"
  shows "rating_inv E pid X (insert (Some (ratings_of pid db), Z) Y) db"
proof -
  note f = rating_inv_facts [OF assms]
  show ?thesis
  proof (rule rating_invI)
    show "rs = ratings_of pid db \<or> rating_waits E Z' pid db" if "(Some rs, Z') \<in> insert (Some (ratings_of pid db), Z) Y" for rs Z'
      using that f(3) [of rs Z'] by auto
    show "X \<union> \<Union> (snd ` insert (Some (ratings_of pid db), Z) Y) \<subseteq> issued E db" using f(7) by simp
  qed (rule f(1), rule f(2), assumption, assumption, rule f(4), rule f(5), rule f(6))
qed

text \<open>The contract of what runs between statements: it keeps the invariant of a product, and while a transaction holds the row's lock, only
  what respects the lock runs.\<close>

definition lock_held :: "ident \<Rightarrow> ident set \<Rightarrow> (int list option \<times> ident set) set \<Rightarrow> bool" where
  "lock_held pid locks Y \<longleftrightarrow> ((\<exists>rs Z. (Some rs, Z) \<in> Y) \<longrightarrow> pid \<in> locks)"

locale rating_interference =
  fixes E :: env and pid :: ident and intf :: "ident set \<Rightarrow> traffic_fun"
  assumes stays: "inj (gen_id E) \<Longrightarrow> pid \<noteq> [] \<Longrightarrow> lock_held pid locks Y \<Longrightarrow> rating_inv E pid X Y db \<Longrightarrow> rating_inv E pid X Y (intf locks n db)"
begin

lemma refresh_own:
  assumes ids: "inj (gen_id E)" "pid \<noteq> []" and free: "pid \<notin> locks" "lock_held pid locks Y"
    and inv: "rating_inv E pid X Y db" and i: "i \<in> issued E db"
  shows "rating_inv E pid (insert i X) Y (refresh_rating locks intf pid db)"
proof -
  let ?Z = "insert i X" and ?db0 = "intf locks 0 db"
  have none: "(Some rs, Z) \<notin> Y" for rs Z using free by (auto simp: lock_held_def)
  note f = rating_inv_facts [OF inv]
  have start: "rating_inv E pid X (insert (None, ?Z) Y) db"
  proof (rule rating_invI)
    show "X \<union> \<Union> (snd ` insert (None, ?Z) Y) \<subseteq> issued E db" using f(7) i by simp
  qed (use f(1-6) none in auto)
  have inv0: "rating_inv E pid X (insert (None, ?Z) Y) ?db0"
    by (rule stays [OF ids _ start]) (use none in \<open>auto simp: lock_held_def\<close>)
  have locked: "locking_row pid ?db0 locks = insert pid locks"
    using rating_inv_facts(1) [OF inv0] by (auto simp: locking_row_def find_by_None_iff)
  let ?db1 = "intf (insert pid locks) 1 ?db0"
  have inv1: "rating_inv E pid X (insert (None, ?Z) Y) ?db1"
    by (rule stays [OF ids _ inv0]) (auto simp: lock_held_def)
  let ?db2 = "intf (insert pid locks) 2 ?db1"
  have inv2: "rating_inv E pid X (insert (Some (ratings_of pid ?db1), ?Z) Y) ?db2"
    by (rule stays [OF ids _ read_ratings [OF inv1]]) (auto simp: lock_held_def)
  show ?thesis
    using set_rating_own [OF inv2, of i] by (auto simp: refresh_rating_def locked Let_def)
qed

lemma refresh_other:
  assumes ids: "inj (gen_id E)" "pid \<noteq> []" and held: "lock_held pid locks Y" and inv: "rating_inv E pid X Y db" and "q \<noteq> pid"
  shows "rating_inv E pid X Y (refresh_rating locks intf q db)"
proof -
  have more: "lock_held pid (locking_row q d locks) Y" for d using held by (auto simp: lock_held_def locking_row_def)
  show ?thesis
    unfolding refresh_rating_def Let_def
    by (intro set_rating_other stays [OF ids] more held inv \<open>q \<noteq> pid\<close>)
qed

lemma rating_delivered:
  assumes ids: "inj (gen_id E)" "pid \<noteq> []" and held: "lock_held pid locks Y" and inv: "rating_inv E pid X Y db" and r: "r \<in> set (outbox_events db)"
  shows "rating_inv E pid X Y (deliver_rating E msg now locks intf r db)"
proof (cases "ob_event_name r \<notin> set review_projection_events \<or> rating_handled r db")
  case True
  then show ?thesis using inv by (simp add: deliver_rating_def)
next
  case fresh: False
  let ?Y = "(\<lambda>(read, Z). (read, insert (ob_id r) Z)) ` Y"
  have held': "lock_held pid locks ?Y" using held by (force simp: lock_held_def)
  show ?thesis
  proof (cases "deserialize_outbox_event E (ob_payload r) (ob_event_name r) (ob_aggregate_id r)")
    case (Inl e)
    then show ?thesis using inv by (simp add: deliver_rating_def)
  next
    case (Inr ev)
    show ?thesis
    proof (cases "str_field ''productId'' ev = Some pid")
      case True
      show ?thesis
      proof (cases "pid \<in> locks")
        case False
        have none: "(Some rs, Z) \<notin> Y" for rs Z using False held by (auto simp: lock_held_def)
        let ?Z = "insert (ob_id r) X"
        have i: "ob_id r \<in> issued E db" using rating_inv_facts(5) [OF inv] r by blast
        have "rating_inv E pid ?Z Y (refresh_rating locks intf pid db)"
          by (rule refresh_own [OF ids False held inv i])
        then have "rating_inv E pid ?Z Y (intf locks 3 (refresh_rating locks intf pid db))"
          by (rule stays [OF ids held])
        then have "rating_inv E pid ?Z Y (deliver_rating E msg now locks intf r db)"
          using fresh Inr True False none by (auto simp: deliver_rating_def intro!: record_keeps)
        then show ?thesis by (rule inv_weaken) auto
      qed (use fresh Inr True inv in \<open>simp add: deliver_rating_def\<close>)
    next
      case False
      have "\<not> rates E r pid" using Inr False by (auto simp: rates_def)
      from inv_exclude [OF inv r this]
      have ex: "rating_inv E pid (insert (ob_id r) X) ?Y db" .
      have "rating_inv E pid (insert (ob_id r) X) ?Y (deliver_rating E msg now locks intf r db)"
        using fresh Inr False ex stays [OF ids held' ex] stays [OF ids held' refresh_other [OF ids held' ex]]
        by (auto simp: deliver_rating_def intro!: record_keeps split: option.split)
      then show ?thesis by (rule inv_weaken) auto
    qed
  qed
qed

lemma act_keeps:
  assumes ids: "inj (gen_id E)" "pid \<noteq> []" and held: "lock_held pid locks Y" and inv: "rating_inv E pid X Y db"
  shows "rating_inv E pid X Y (review_op E msg locks intf now act db)"
proof -
  note keep = stays [OF ids held]
  show ?thesis
  proof (cases act)
    case (Create_Review uid p rating content)
    note steps = keep [OF inv, of 0] keep [OF keep [OF inv, of 0], of 1]
    have "rating_inv E pid X Y (snd (create_review E (intf locks) now uid p rating content db))"
      using steps review_create_keeps [OF keep [OF steps(2), of 2] ids, of now]
      by (auto simp: create_review_def at_statement_def product_exists_def find_by_user_and_product_def dbind_def db_monad)
    then show ?thesis by (simp add: review_op_def Create_Review)
  next
    case (Delete_Review rid uid is_admin)
    note steps = keep [OF inv, of 0] review_delete_keeps [OF keep [OF keep [OF inv, of 0], of 1] ids, of now rid]
    obtain x d where del: "review_delete E now rid (intf locks 1 (intf locks 0 db)) = (x, d)" by force
    then have "rating_inv E pid X Y d" using steps(2) by simp
    then have "rating_inv E pid X Y (snd (delete_review E (intf locks) now rid uid is_admin db))"
      using steps(1) del
      by (cases x) (auto simp: delete_review_def at_statement_def find_review_by_id_def dbind_def db_monad split: option.split)
    then show ?thesis by (simp add: review_op_def Delete_Review)
  next
    case (Deliver_Rating i)
    then show ?thesis
      using inv rating_delivered [OF ids held inv] by (auto simp: review_op_def dest: find_by_SomeD split: option.split)
  next
    case (Project_Columns c v)
    then show ?thesis using inv columns_keep [OF inv] by (simp add: review_op_def)
  qed
qed

end

lemma review_fold_keeps:
  assumes "\<And>t db. t \<in> set ts \<Longrightarrow> rating_inv E pid X Y db \<Longrightarrow> rating_inv E pid X Y (run_review E msg t locks db)" and "rating_inv E pid X Y db"
  shows "rating_inv E pid X Y (fold (\<lambda>f. f locks) (map (run_review E msg) ts) db)"
  using assms by (induction ts arbitrary: db) simp_all

lemma run_review_keeps:
  assumes "inj (gen_id E)" "pid \<noteq> []"
  shows "lock_held pid locks Y \<Longrightarrow> rating_inv E pid X Y db \<Longrightarrow> rating_inv E pid X Y (run_review E msg t locks db)"
proof (induction t arbitrary: X Y locks db)
  case (Reviewing between now act)
  have "rating_interference E pid (\<lambda>held n. fold (\<lambda>f. f held) (map (run_review E msg) (between n)))"
    by (unfold_locales, rule review_fold_keeps) (auto intro: Reviewing.IH [OF rangeI])
  from rating_interference.act_keeps [OF this assms Reviewing.prems] show ?case by simp
qed

interpretation reviewed: rating_interference E pid "\<lambda>held n. fold (\<lambda>f. f held) (map (run_review E msg) (between n))" for E pid msg between
  by (unfold_locales, rule review_fold_keeps) (auto intro: run_review_keeps)

subsection \<open>The rating that is shown\<close>

definition run_reviews :: "env \<Rightarrow> (error \<Rightarrow> string) \<Rightarrow> review_traffic list \<Rightarrow> database \<Rightarrow> database" where
  "run_reviews E msg ts = fold (\<lambda>f. f {}) (map (run_review E msg) ts)"

lemma no_lock: "lock_held pid locks {}"
  by (simp add: lock_held_def)

lemma run_reviews_keeps: "inj (gen_id E) \<Longrightarrow> pid \<noteq> [] \<Longrightarrow> rating_inv E pid {} {} db \<Longrightarrow> rating_inv E pid {} {} (run_reviews E msg ts db)"
  using reviewed.stays [OF _ _ no_lock] by (simp add: run_reviews_def)

lemma rating_in_step:
  assumes "rating_inv E pid {} {} db" and "\<forall>r \<in> set (outbox_events db). rates E r pid \<longrightarrow> rating_handled r db"
  shows "\<exists>c \<in> set (product_catalog db). pc_product_id c = pid
    \<and> pc_avg_rating c = average_rating (ratings_of pid db) \<and> pc_review_count c = length (ratings_of pid db)"
proof -
  note f = rating_inv_facts [OF assms(1)]
  obtain c where c: "c \<in> set (product_catalog db)" "pc_product_id c = pid" using f(1) by auto
  have "\<not> rating_waits E {} pid db" using assms(2) by (auto simp: rating_waits_def)
  then show ?thesis using f(2) [OF c] c by (auto simp: shows_ratings_def)
qed

text \<open>C13: The catalog shows the ratings of the reviews: after any traffic of reviews written and deleted, deliveries of their events and writes
  of the other catalog columns, each with others at its statements as far as the row lock lets them, a product in the catalog whose
  review events have been handled shows the average and the number of its reviews as they are now.\<close>

theorem ratings_follow_reviews:
  assumes "inj (gen_id E)" and "pid \<noteq> []" and "rating_inv E pid {} {} db"
    and "\<forall>r \<in> set (outbox_events (run_reviews E msg ts db)). rates E r pid \<longrightarrow> rating_handled r (run_reviews E msg ts db)"
  shows "\<exists>c \<in> set (product_catalog (run_reviews E msg ts db)). pc_product_id c = pid
    \<and> pc_avg_rating c = average_rating (ratings_of pid (run_reviews E msg ts db)) \<and> pc_review_count c = length (ratings_of pid (run_reviews E msg ts db))"
  by (rule rating_in_step [OF run_reviews_keeps [OF assms(1-3)] assms(4)])

text \<open>A review is written and its event delivered.\<close>

definition reader :: user_row where
  "reader = \<lparr>ur_id = ''u1'', ur_email = ''u1@x'', ur_password = None, ur_first_name = ''U'', ur_last_name = ''V'', ur_phone = None, ur_role = USER,
     ur_is_verified = True, ur_is_2fa_enabled = False, ur_totp_secret = None, ur_created_at = 0\<rparr>"

definition reviewed_db :: database where
  "reviewed_db = empty_db\<lparr>users := [reader], products := [tea_row], product_catalog := [catalog_row_of tea_row]\<rparr>"

definition five_stars :: review_traffic where
  "five_stars = Reviewing (\<lambda>_. []) 5 (Create_Review ''u1'' ''p1'' (Fin 5) ''Good'')"

definition its_delivery :: review_traffic where
  "its_delivery = Reviewing (\<lambda>_. []) 6 (Deliver_Rating (gen_id sample_env (Suc 0)))"

lemma reviewed_inv: "rating_inv sample_env ''p1'' {} {} reviewed_db"
  by (rule rating_invI)
    (simp_all add: reviewed_db_def empty_db_def tea_row_def catalog_row_of_def shows_ratings_def ratings_of_def average_rating_def)

lemma review_delivered:
  "\<forall>r \<in> set (outbox_events (run_reviews sample_env (\<lambda>_. []) [five_stars, its_delivery] reviewed_db)).
     rating_handled r (run_reviews sample_env (\<lambda>_. []) [five_stars, its_delivery] reviewed_db)"
proof -
  let ?ev = "review_created_event 5 ''p1''"
  let ?r = "outbox_row_of (iso_of sample_env) (\<lambda>_. None) (gen_id sample_env (Suc 0)) ?ev"
  let ?db = "run_review sample_env (\<lambda>_. []) five_stars {} reviewed_db"
  have col: "stock_column (Fin 5) = Inr 5" by (simp add: stock_column_def safe_int_def max_safe_def)
  have db: "outbox_events ?db = [?r]" "outbox_handler_log ?db = []"
    by (simp_all add: five_stars_def review_op_def create_review_def at_statement_def product_exists_def find_by_user_and_product_def
        review_create_def transaction_def insert_review_def col persist_events_def reviewed_db_def empty_db_def find_product_def find_user_def
        tea_row_def reader_def dbind_def db_monad Let_def)
  have ok: "event_ok ?ev" by (simp add: event_ok_def known_keys_def event_defs Let_def)
  have d: "deserialize_outbox_event sample_env (ob_payload ?r) (ob_event_name ?r) (ob_aggregate_id ?r) = Inr (with_source_version (\<lambda>_. None) ?ev)"
    by (simp only: outbox_row_of_def outbox_row.select_convs) (rule deserialize_stored [OF ok sample_env_ok], simp)
  have f: "str_field ''productId'' (with_source_version (\<lambda>_. None) ?ev) = Some ''p1''" "ob_event_name ?r \<in> set review_projection_events"
    by (simp_all add: str_field_def with_source_version_def outbox_row_of_def review_projection_events_def event_defs Let_def)
  have fresh: "\<not> rating_handled ?r ?db" by (simp add: rating_handled_def db_has_succeeded_def db(2))
  have row: "find_by ob_id (gen_id sample_env (Suc 0)) (outbox_events ?db) = Some ?r" by (simp add: db(1)) (simp add: outbox_row_of_def)
  have run: "run_reviews sample_env (\<lambda>_. []) [five_stars, its_delivery] reviewed_db
      = db_record_result (\<lambda>_. []) 6 (ob_id ?r) (rating_handler (ob_event_name ?r)) Succeeded (refresh_rating {} (\<lambda>_ _ db. db) ''p1'' ?db)"
    using d f fresh by (simp add: run_reviews_def its_delivery_def review_op_def row deliver_rating_def id_def)
  have "outbox_events (refresh_rating {} (\<lambda>_ _ db. db) ''p1'' ?db) = [?r]"
    by (simp add: refresh_rating_def set_rating_def db(1) Let_def)
  then show ?thesis unfolding run by (simp add: rating_handled_def db_has_record record_frame)
qed

theorem ratings_follow_reviews_witness:
  "\<exists>c \<in> set (product_catalog (run_reviews sample_env (\<lambda>_. []) [five_stars, its_delivery] reviewed_db)). pc_product_id c = ''p1''
    \<and> pc_avg_rating c = average_rating (ratings_of ''p1'' (run_reviews sample_env (\<lambda>_. []) [five_stars, its_delivery] reviewed_db))
    \<and> pc_review_count c = length (ratings_of ''p1'' (run_reviews sample_env (\<lambda>_. []) [five_stars, its_delivery] reviewed_db))"
proof (rule ratings_follow_reviews)
  show "inj (gen_id sample_env)" by (simp add: sample_env_def inj_def)
  show "rating_inv sample_env ''p1'' {} {} reviewed_db" by (rule reviewed_inv)
qed (use review_delivered in auto)

end
