(* ===== verification/Dashboard.thy ===== *)
theory Dashboard
  imports Catalog_Service
begin

text \<open>
  The administrators' dashboard: \<^verbatim>\<open>modules/admin/dashboard/dashboard.service.ts\<close> over the read models, by
  \<^verbatim>\<open>prisma-dashboard-read.repository.ts\<close>. \<open>day\<close> gives the day of a time in the database's time zone and \<open>day_name\<close> its text;
  \<open>days_ago\<close> is the local calendar of the server. The best-selling products, a query on the JSON items of the orders, are an argument.
\<close>

subsection \<open>Repository\<close>

definition counted_orders :: "millis \<Rightarrow> database \<Rightarrow> history_row list" where
  "counted_orders since db = filter (\<lambda>r. since \<le> oh_placed_at r \<and> oh_status r \<noteq> CANCELLED) (order_history db)"

definition get_gross_order_value :: "millis \<Rightarrow> js_num db_op" where
  "get_gross_order_value since db =
     (let rows = counted_orders since db
      in (if rows = [] then Inr (Fin 0) else money_column (sum_list (map oh_total rows)), db))"

definition all_statuses :: "order_status list" where
  "all_statuses = [PENDING, PROCESSING, SHIPPED, DELIVERED, CANCELLED]"

definition get_order_status_breakdown :: "(order_status \<times> nat) list db_op" where
  "get_order_status_breakdown = dget (\<lambda>db. filter (\<lambda>(_, n). n \<noteq> 0)
     (map (\<lambda>s. (s, count_where (\<lambda>r. oh_status r = s) (order_history db))) all_statuses))"

record day_value =
  dv_date :: string
  dv_gross_order_value :: js_num
  dv_order_count :: nat

definition orders_of_day :: "(millis \<Rightarrow> int) \<Rightarrow> history_row list \<Rightarrow> int \<Rightarrow> history_row list" where
  "orders_of_day day rows d = filter (\<lambda>r. day (oh_placed_at r) = d) rows"

definition get_gross_order_value_by_day :: "(millis \<Rightarrow> int) \<Rightarrow> (int \<Rightarrow> string) \<Rightarrow> millis \<Rightarrow> day_value list db_op" where
  "get_gross_order_value_by_day day day_name since db =
     (let rows = counted_orders since db
      in (rmap (\<lambda>d. rbind (money_column (sum_list (map oh_total (orders_of_day day rows d)))) (\<lambda>v.
              Inr \<lparr>dv_date = day_name d, dv_gross_order_value = v, dv_order_count = length (orders_of_day day rows d)\<rparr>))
            (sort (remdups (map (\<lambda>r. day (oh_placed_at r)) rows))), db))"

definition get_low_stock_products :: "int \<Rightarrow> catalog_row list db_op" where
  "get_low_stock_products threshold = dget (\<lambda>db. take 20 (sort_rows (\<lambda>c. Col_Int (pc_stock c)) True
     (filter (\<lambda>c. pc_is_active c \<and> pc_stock c \<le> threshold) (product_catalog db))))"

definition get_new_users_count :: "millis \<Rightarrow> nat db_op" where
  "get_new_users_count since = dget (\<lambda>db. count_where (\<lambda>u. since \<le> ur_created_at u) (users db))"

definition get_total_users_count :: "nat db_op" where
  "get_total_users_count = dget (\<lambda>db. case admin_dashboard db of None \<Rightarrow> 0 | Some d \<Rightarrow> db_total_users d)"

definition get_total_products_count :: "nat db_op" where
  "get_total_products_count = dget (\<lambda>db. case admin_dashboard db of None \<Rightarrow> 0 | Some d \<Rightarrow> db_total_products d)"

subsection \<open>Service\<close>

definition DEFAULT_LOW_STOCK_THRESHOLD :: int where
  "DEFAULT_LOW_STOCK_THRESHOLD = 10"

definition DEFAULT_TOP_PRODUCTS_LIMIT :: nat where
  "DEFAULT_TOP_PRODUCTS_LIMIT = 5"

definition DEFAULT_GROSS_ORDER_VALUE_WINDOW_DAYS :: nat where
  "DEFAULT_GROSS_ORDER_VALUE_WINDOW_DAYS = 30"

record 'top dashboard_stats =
  ds_total_30_days :: js_num
  ds_by_day :: "day_value list"
  ds_status_breakdown :: "(order_status \<times> nat) list"
  ds_products_total :: nat
  ds_low_stock :: "catalog_row list"
  ds_top_selling :: 'top
  ds_users_total :: nat
  ds_new_30_days :: nat

text \<open>The queries run at once; what others commit before the n-th is \<open>intf n\<close>.\<close>

definition get_stats ::
    "traffic_fun \<Rightarrow> (millis \<Rightarrow> int) \<Rightarrow> (int \<Rightarrow> string) \<Rightarrow> (nat \<Rightarrow> millis \<Rightarrow> millis) \<Rightarrow> (nat \<Rightarrow> millis \<Rightarrow> 'top db_op) \<Rightarrow> millis
      \<Rightarrow> 'top dashboard_stats db_op" where
  "get_stats intf day day_name days_ago top_selling now =
     (let since = days_ago DEFAULT_GROSS_ORDER_VALUE_WINDOW_DAYS now in
      dbind (at_statement intf 0 (get_gross_order_value since)) (\<lambda>gross.
      dbind (at_statement intf 1 get_order_status_breakdown) (\<lambda>breakdown.
      dbind (at_statement intf 2 (get_gross_order_value_by_day day day_name since)) (\<lambda>by_day.
      dbind (at_statement intf 3 (top_selling DEFAULT_TOP_PRODUCTS_LIMIT since)) (\<lambda>top.
      dbind (at_statement intf 4 (get_low_stock_products DEFAULT_LOW_STOCK_THRESHOLD)) (\<lambda>low.
      dbind (at_statement intf 5 (get_new_users_count since)) (\<lambda>new.
      dbind (at_statement intf 6 get_total_users_count) (\<lambda>us.
      dbind (at_statement intf 7 get_total_products_count) (\<lambda>ps.
      dret \<lparr>ds_total_30_days = gross, ds_by_day = by_day, ds_status_breakdown = breakdown, ds_products_total = ps,
        ds_low_stock = low, ds_top_selling = top, ds_users_total = us, ds_new_30_days = new\<rparr>)))))))))"

subsection \<open>The figures agree\<close>

lemma breakdown_counts_orders:
  "fst (get_order_status_breakdown db) = Inr parts \<Longrightarrow> sum_list (map snd parts) = length (order_history db)"
proof -
  assume "fst (get_order_status_breakdown db) = Inr parts"
  then have parts: "parts = filter (\<lambda>(_, n). n \<noteq> 0) (map (\<lambda>s. (s, count_where (\<lambda>r. oh_status r = s) (order_history db))) all_statuses)"
    by (simp add: get_order_status_breakdown_def db_monad)
  have zero: "sum_list (map snd (filter (\<lambda>(_, n). n \<noteq> 0) xs)) = sum_list (map snd xs)" for xs :: "(order_status \<times> nat) list"
    by (induction xs) auto
  have "sum_list (map (\<lambda>s. count_where (\<lambda>r. oh_status r = s) rows) all_statuses) = length rows" for rows :: "history_row list"
  proof (induction rows)
    case (Cons r rows)
    then show ?case by (cases "oh_status r") (simp_all add: all_statuses_def count_where_def)
  qed (simp add: all_statuses_def count_where_def)
  then show ?thesis unfolding parts zero by (simp add: comp_def)
qed

lemma days_add_up:
  fixes rows :: "history_row list"
  shows "sum_list (map (\<lambda>d. sum_list (map oh_total (orders_of_day day rows d))) (sort (remdups (map (\<lambda>r. day (oh_placed_at r)) rows))))
    = sum_list (map oh_total rows)"
proof -
  let ?v = "\<lambda>rows d. sum_list (map oh_total (orders_of_day day rows d))"
  have "(\<Sum>d \<in> D. ?v rows d) = sum_list (map oh_total rows)" if "finite D" "(\<lambda>r. day (oh_placed_at r)) ` set rows \<subseteq> D" for D and rows :: "history_row list"
    using that(2)
  proof (induction rows)
    case (Cons r rows)
    have "?v (r # rows) d = (if d = day (oh_placed_at r) then oh_total r else 0) + ?v rows d" for d
      by (simp add: orders_of_day_def)
    then have "(\<Sum>d \<in> D. ?v (r # rows) d) = (\<Sum>d \<in> D. if d = day (oh_placed_at r) then oh_total r else 0) + (\<Sum>d \<in> D. ?v rows d)"
      by (simp only: sum.distrib)
    then show ?case using Cons that(1) by (simp add: sum.delta)
  qed (simp add: orders_of_day_def)
  from this [of "(\<lambda>r. day (oh_placed_at r)) ` set rows" rows] show ?thesis
    by (simp add: sum_list_distinct_conv_sum_set)
qed

text \<open>Without others, the values of the days add up to the total, when every one is a safe amount.\<close>

lemma by_day_adds_up:
  assumes "get_gross_order_value_by_day day day_name since db = (Inr days, db)" and "get_gross_order_value since db = (Inr amount, db)"
    and "\<forall>r \<in> set (order_history db). 0 \<le> oh_total r"
  shows "amount = num_of_int (sum_list (map (\<lambda>v. int_of_num (dv_gross_order_value v)) days))"
proof -
  let ?rows = "counted_orders since db"
  let ?ds = "sort (remdups (map (\<lambda>r. day (oh_placed_at r)) ?rows))"
  have amt: "money_column n = Inr v \<Longrightarrow> v = num_of_int n \<and> int_of_num v = n" if "0 \<le> n" for n v
    using that by (auto simp: money_column_eq split: if_splits)
  have pos: "0 \<le> sum_list (map oh_total rs)" if "set rs \<subseteq> set (order_history db)" for rs
    using that assms(3) by (induction rs) auto
  have sub: "set (orders_of_day day ?rows d) \<subseteq> set (order_history db)" "set ?rows \<subseteq> set (order_history db)" for d
    by (auto simp: orders_of_day_def counted_orders_def)
  have all: "rmap (\<lambda>d. rbind (money_column (sum_list (map oh_total (orders_of_day day ?rows d)))) (\<lambda>v.
      Inr \<lparr>dv_date = day_name d, dv_gross_order_value = v, dv_order_count = length (orders_of_day day ?rows d)\<rparr>)) ds = Inr vs \<Longrightarrow>
    map (\<lambda>v. int_of_num (dv_gross_order_value v)) vs = map (\<lambda>d. sum_list (map oh_total (orders_of_day day ?rows d))) ds" for ds vs
    by (induction ds arbitrary: vs) (auto simp: rbind_Inr_iff dest: amt [OF pos [OF sub(1)]])
  have "sum_list (map (\<lambda>v. int_of_num (dv_gross_order_value v)) days) = sum_list (map oh_total ?rows)"
    using all [of ?ds days] assms(1) days_add_up [of day ?rows] by (simp add: get_gross_order_value_by_day_def Let_def)
  moreover have "amount = num_of_int (sum_list (map oh_total ?rows))"
    using assms(2) amt [OF pos [OF sub(2)]] by (auto simp: get_gross_order_value_def Let_def num_of_int_def split: if_splits)
  ultimately show ?thesis by simp
qed

end
