(* ===== verification/Platform.thy ===== *)
theory Platform
  imports Two_Factor
begin

text \<open>
  The surroundings of the service: \<^verbatim>\<open>config/trust-proxy.ts\<close>, \<^verbatim>\<open>core/health/health.service.ts\<close> with its routes and checks, and
  \<^verbatim>\<open>core/feature-flags/environment-feature-flags.ts\<close>. \<open>is_ip\<close> is \<^verbatim>\<open>net.isIP\<close> (4, 6 or 0), \<open>to_number\<close> the conversion of a text
  that is not known to be a decimal numeral.
\<close>

subsection \<open>Trusted proxies\<close>

definition decimal_numeral :: "string \<Rightarrow> bool" where
  "decimal_numeral s \<longleftrightarrow> s = ''0'' \<or> s \<noteq> [] \<and> list_all is_digit s \<and> hd s \<noteq> CHR ''0''"

definition invalid_trust_proxy :: "string \<Rightarrow> error" where
  "invalid_trust_proxy why = PlainError (''Invalid TRUST_PROXY: '' @ why)"

definition trusted_entry :: "(string \<Rightarrow> nat) \<Rightarrow> string \<Rightarrow> bool" where
  "trusted_entry is_ip entry \<longleftrightarrow> entry = ''loopback'' \<or> entry = ''linklocal'' \<or> is_ip entry \<noteq> 0
     \<or> (case split_on CHR ''/'' entry of
          [ip, prefix] \<Rightarrow> is_ip ip = 4 \<and> decimal_numeral prefix \<and> 1 \<le> read_nat 0 prefix \<and> read_nat 0 prefix \<le> 32
        | _ \<Rightarrow> False)"

definition parse_trust_proxy :: "(string \<Rightarrow> nat) \<Rightarrow> string \<Rightarrow> error + (nat + string list)" where
  "parse_trust_proxy is_ip raw =
     (let v = trim raw in
      if decimal_numeral v
      then if read_nat 0 v \<le> 16 then Inr (Inl (read_nat 0 v)) else Inl (invalid_trust_proxy ''hop count must be between 0 and 16'')
      else if v = [] then Inl (invalid_trust_proxy ''empty value'')
      else let entries = map trim (split_on CHR '','' v)
        in if list_all (trusted_entry is_ip) entries then Inr (Inr entries)
           else Inl (invalid_trust_proxy
             ''use a hop count, explicit proxy IPs, or IPv4 CIDRs; IPv6 CIDRs and trust-all proxies are not permitted''))"

lemma split_on_nonempty: "split_on c s \<noteq> []"
  by (cases s) (auto split: list.split)

definition narrow_entry :: "(string \<Rightarrow> nat) \<Rightarrow> string \<Rightarrow> bool" where
  "narrow_entry is_ip e \<longleftrightarrow> e = ''loopback'' \<or> e = ''linklocal'' \<or> is_ip e \<noteq> 0
     \<or> (\<exists>ip prefix. split_on CHR ''/'' e = [ip, prefix] \<and> is_ip ip = 4 \<and> 1 \<le> read_nat 0 prefix \<and> read_nat 0 prefix \<le> 32)"

lemma trusted_is_narrow: "trusted_entry is_ip e \<Longrightarrow> narrow_entry is_ip e"
  by (auto simp: trusted_entry_def narrow_entry_def split: list.splits)

text \<open>What is trusted is bounded: a few hops, or entries that each name an address, a local range or an IPv4 range of at least one fixed bit.\<close>

lemma trust_is_bounded:
  assumes "parse_trust_proxy is_ip raw = Inr t"
  shows "case t of Inl hops \<Rightarrow> hops \<le> 16
    | Inr entries \<Rightarrow> entries \<noteq> [] \<and> list_all (narrow_entry is_ip) entries"
  using assms
  by (auto simp: parse_trust_proxy_def Let_def list_all_iff split_on_nonempty intro!: trusted_is_narrow split: if_splits)

lemma ipv6_range_refused:
  assumes "is_ip ''::ffff:0.0.0.0/96'' = 0" and "is_ip ''::ffff:0.0.0.0'' = 6"
  shows "\<exists>e. parse_trust_proxy is_ip ''::ffff:0.0.0.0/96'' = Inl e"
  using assms
  by (simp add: parse_trust_proxy_def Let_def trim_def trim_start_def is_space_def decimal_numeral_def is_digit_def code_of_def trusted_entry_def)

subsection \<open>Readiness\<close>

text \<open>A check ends after some milliseconds, returning or throwing an error with a message, or something else, or it never ends. A check that
  ends with its timeout counts as too late.\<close>

datatype check_end = Returns | Throws "string option"

type_synonym check_run = "(nat \<times> check_end) option"

record component_health =
  ch_up :: bool
  ch_latency :: nat
  ch_error :: "string option"

definition check_timeout :: nat where
  "check_timeout = 2000"

definition measure_check :: "check_run \<Rightarrow> component_health" where
  "measure_check run =
     (case run of
        Some (d, e) \<Rightarrow>
          if d < check_timeout
          then (case e of Returns \<Rightarrow> \<lparr>ch_up = True, ch_latency = d, ch_error = None\<rparr>
                | Throws m \<Rightarrow> \<lparr>ch_up = False, ch_latency = d, ch_error = Some (case m of None \<Rightarrow> ''Unknown error'' | Some s \<Rightarrow> s)\<rparr>)
          else \<lparr>ch_up = False, ch_latency = check_timeout, ch_error = Some ''Timed out after 2000ms''\<rparr>
      | None \<Rightarrow> \<lparr>ch_up = False, ch_latency = check_timeout, ch_error = Some ''Timed out after 2000ms''\<rparr>)"

record readiness_report =
  rr_up :: bool
  rr_database :: component_health
  rr_cache :: component_health
  rr_queues :: component_health

definition check_cache :: "(nat \<times> (string option + string)) option \<Rightarrow> check_run" where
  "check_cache ping = map_option (\<lambda>(d, r). (d, case r of Inl m \<Rightarrow> Throws m
     | Inr pong \<Rightarrow> if pong = ''PONG'' then Returns else Throws (Some ''Unexpected Redis ping response''))) ping"

definition get_readiness :: "check_run \<Rightarrow> check_run \<Rightarrow> check_run \<Rightarrow> readiness_report" where
  "get_readiness database cache queues =
     (let d = measure_check database; c = measure_check cache; q = measure_check queues
      in \<lparr>rr_up = ch_up d \<and> ch_up c \<and> ch_up q, rr_database = d, rr_cache = c, rr_queues = q\<rparr>)"

definition ready_status :: "readiness_report \<Rightarrow> nat" where
  "ready_status r = (if rr_up r then 200 else 503)"

definition in_time :: "check_run \<Rightarrow> bool" where
  "in_time run \<longleftrightarrow> (\<exists>d < check_timeout. run = Some (d, Returns))"

text \<open>Traffic is sent only to an instance whose database, cache and queues all answered in time.\<close>

lemma ready_iff_all_answer:
  "ready_status (get_readiness database cache queues) = 200 \<longleftrightarrow> in_time database \<and> in_time cache \<and> in_time queues"
proof -
  have "ch_up (measure_check run) \<longleftrightarrow> in_time run" for run
    by (auto simp: measure_check_def in_time_def split: option.splits check_end.splits if_splits)
  then show ?thesis by (simp add: ready_status_def get_readiness_def Let_def)
qed

subsection \<open>Feature flags\<close>

definition user_bucket :: "string \<Rightarrow> nat" where
  "user_bucket uid = sum_list (map code_of uid) mod 100"

definition is_enabled :: "(string \<Rightarrow> js_num) \<Rightarrow> (string \<Rightarrow> string option) \<Rightarrow> string \<Rightarrow> string option \<Rightarrow> bool" where
  "is_enabled to_number environment key user_id =
     (case environment (''FEATURE_'' @ to_upper key) of
        Some v \<Rightarrow> v = ''true''
      | None \<Rightarrow>
          (case (user_id, environment ''FEATURE_FLAG_ROLLOUT_PERCENT'') of
             (Some u, Some p) \<Rightarrow>
               if u \<noteq> [] \<and> p \<noteq> [] then js_less (num_of_int (int (user_bucket u))) (to_number p) else key = ''discount_system''
           | _ \<Rightarrow> key = ''discount_system''))"

end
