(* ===== verification/Di_Container.thy ===== *)
theory Di_Container
  imports Errors
begin

text \<open>
  Dependency injection: \<^verbatim>\<open>core/di/container.ts\<close>. A factory asks its container for what it needs, one token after the other, and builds
  the instance or throws. The registrations of a container are found first, then those of its parents; a singleton's instance lives in
  its registration, a scoped one in the container that resolves it. Nothing registers while a resolution runs.
\<close>

type_synonym token = string

datatype 'i factory = Build 'i | Fail error | Need token "'i \<Rightarrow> 'i factory"

datatype lifetime = Singleton | Scoped | Transient

record 'i registration =
  rg_factory :: "'i factory"
  rg_lifetime :: lifetime

text \<open>A token is a symbol of its own, named by its description. Containers are numbered; a container's chain is its own registrations, then its parents'.\<close>

type_synonym 'i chain = "(nat \<times> (token \<times> 'i registration) list) list"

record 'i instances =
  singles :: "nat \<times> token \<Rightarrow> 'i option"
  scoped :: "nat \<times> token \<Rightarrow> 'i option"

fun find_registration :: "'i chain \<Rightarrow> token \<Rightarrow> (nat \<times> 'i registration) option" where
  "find_registration [] t = None"
| "find_registration ((c, regs) # parents) t =
     (case map_of regs t of Some r \<Rightarrow> Some (c, r) | None \<Rightarrow> find_registration parents t)"

definition set_registration :: "token \<Rightarrow> 'i registration \<Rightarrow> (token \<times> 'i registration) list \<Rightarrow> (token \<times> 'i registration) list" where
  "set_registration t r regs = (t, r) # filter (\<lambda>e. fst e \<noteq> t) regs"

text \<open>\<^verbatim>\<open>register\<close> and \<^verbatim>\<open>override\<close> drop the container's own scoped instance and start a registration without an instance.\<close>

fun register_in :: "token \<Rightarrow> 'i factory \<Rightarrow> lifetime \<Rightarrow> 'i chain \<times> 'i instances \<Rightarrow> 'i chain \<times> 'i instances" where
  "register_in t fac life ([], st) = ([], st)"
| "register_in t fac life ((c, regs) # parents, st) =
     ((c, set_registration t \<lparr>rg_factory = fac, rg_lifetime = life\<rparr> regs) # parents,
      st\<lparr>scoped := (scoped st)((c, t) := None), singles := (singles st)((c, t) := None)\<rparr>)"

definition create_scope :: "nat \<Rightarrow> 'i chain \<Rightarrow> 'i chain" where
  "create_scope c parents = (c, []) # parents"

subsection \<open>Resolution\<close>

definition token_text :: "token \<Rightarrow> string" where
  "token_text t = ''Symbol('' @ t @ '')''"

definition no_registration :: "token \<Rightarrow> error" where
  "no_registration t = PlainError (''No registration found for token: '' @ token_text t
     @ ''. Did you forget to register it in container.ts?'')"

definition circular_dependency :: "token list \<Rightarrow> error" where
  "circular_dependency path = PlainError (''Circular dependency detected: '' @ concat (map (\<lambda>t. token_text t @ '' -> '') (butlast path))
     @ token_text (last path))"

primrec run_factory :: "(token \<Rightarrow> 's \<Rightarrow> (error + 'i) \<times> 's) \<Rightarrow> 'i factory \<Rightarrow> 's \<Rightarrow> (error + 'i) \<times> 's" where
  "run_factory ask (Build i) st = (Inr i, st)"
| "run_factory ask (Fail e) st = (Inl e, st)"
| "run_factory ask (Need t k) st = (case ask t st of (Inl e, st') \<Rightarrow> (Inl e, st') | (Inr i, st') \<Rightarrow> run_factory ask (k i) st')"

definition chain_tokens :: "'i chain \<Rightarrow> token set" where
  "chain_tokens ch = (\<Union>(c, regs) \<in> set ch. fst ` set regs)"

lemma finite_chain_tokens [simp]: "finite (chain_tokens ch)"
  by (auto simp: chain_tokens_def)

lemma found_token: "find_registration ch t = Some r \<Longrightarrow> t \<in> chain_tokens ch"
proof (induction ch t rule: find_registration.induct)
  case (2 c regs parents t)
  then show ?case by (force simp: chain_tokens_def dest: map_of_SomeD split: option.splits)
qed simp

text \<open>\<open>stack\<close> holds the tokens whose instances are being created.\<close>

definition remember :: "nat \<Rightarrow> nat \<Rightarrow> lifetime \<Rightarrow> token \<Rightarrow> (error + 'i) \<times> 'i instances \<Rightarrow> (error + 'i) \<times> 'i instances" where
  "remember self owner life t result = (case result of
     (Inl e, st) \<Rightarrow> (Inl e, st)
   | (Inr i, st) \<Rightarrow> (Inr i, (case life of
        Transient \<Rightarrow> st
      | Scoped \<Rightarrow> st\<lparr>scoped := (scoped st)((self, t) \<mapsto> i)\<rparr>
      | Singleton \<Rightarrow> st\<lparr>singles := (singles st)((owner, t) \<mapsto> i)\<rparr>)))"

definition remembered :: "nat \<Rightarrow> nat \<Rightarrow> lifetime \<Rightarrow> token \<Rightarrow> 'i instances \<Rightarrow> 'i option" where
  "remembered self owner life t st =
     (case life of Transient \<Rightarrow> None | Scoped \<Rightarrow> scoped st (self, t) | Singleton \<Rightarrow> singles st (owner, t))"

function resolve :: "nat \<Rightarrow> 'i chain \<Rightarrow> token list \<Rightarrow> token \<Rightarrow> 'i instances \<Rightarrow> (error + 'i) \<times> 'i instances" where
  "resolve self ch stack t st =
     (case find_registration ch t of
        None \<Rightarrow> (Inl (no_registration t), st)
      | Some (owner, r) \<Rightarrow>
          (case remembered self owner (rg_lifetime r) t st of
             Some i \<Rightarrow> (Inr i, st)
           | None \<Rightarrow>
               if t \<in> set stack then (Inl (circular_dependency (stack @ [t])), st)
               else remember self owner (rg_lifetime r) t (run_factory (\<lambda>t' st'. resolve self ch (stack @ [t]) t' st') (rg_factory r) st)))"
  by pat_completeness auto

termination
proof (relation "measure (\<lambda>(self, ch, stack, t, st). card (chain_tokens ch - set stack))")
  fix self :: nat and ch :: "'i chain" and stack t and st :: "'i instances" and x owner r t' st'
  assume "find_registration ch t = Some x" and "t \<notin> set stack"
  then have "t \<in> chain_tokens ch - set stack" using found_token by blast
  then have "chain_tokens ch - set (stack @ [t]) \<subset> chain_tokens ch - set stack" by auto
  then show "((self, ch, stack @ [t], t', st'), (self, ch, stack, t, st)) \<in> measure (\<lambda>(self, ch, stack, t, st). card (chain_tokens ch - set stack))"
    by (simp add: psubset_card_mono)
qed simp

declare resolve.simps [simp del]


subsection \<open>Resolution succeeds\<close>

primrec needs :: "'i factory \<Rightarrow> token set" where
  "needs (Build i) = {}"
| "needs (Fail e) = {}"
| "needs (Need t k) = insert t (\<Union>i. needs (k i))"

primrec never_fails :: "'i factory \<Rightarrow> bool" where
  "never_fails (Build i) \<longleftrightarrow> True"
| "never_fails (Fail e) \<longleftrightarrow> False"
| "never_fails (Need t k) \<longleftrightarrow> (\<forall>i. never_fails (k i))"

text \<open>Every factory asks only for registered tokens of a lower rank: there is no cycle.\<close>

definition well_wired :: "(token \<Rightarrow> nat) \<Rightarrow> 'i chain \<Rightarrow> bool" where
  "well_wired rank ch \<longleftrightarrow> (\<forall>t owner r. find_registration ch t = Some (owner, r) \<longrightarrow> never_fails (rg_factory r)
     \<and> (\<forall>t' \<in> needs (rg_factory r). find_registration ch t' \<noteq> None \<and> rank t' < rank t))"

lemma run_factory_builds:
  assumes "never_fails fac" and "\<And>t st. t \<in> needs fac \<Longrightarrow> \<exists>i st'. ask t st = (Inr i, st')"
  shows "\<exists>i st'. run_factory ask fac st = (Inr i, st')"
  using assms
proof (induction fac arbitrary: st)
  case (Need t k)
  obtain i st1 where ask: "ask t st = (Inr i, st1)" using Need.prems(2) [of t st] by auto
  have "\<exists>j st'. run_factory ask (k i) st1 = (Inr j, st')"
  proof (rule Need.IH)
    show "never_fails (k i)" using Need.prems(1) by simp
    show "\<exists>j st'. ask t' st = (Inr j, st')" if "t' \<in> needs (k i)" for t' st
      by (rule Need.prems(2)) (use that in auto)
  qed simp
  then show ?case using ask by simp
qed simp_all

lemma remember_Inr: "\<exists>j st'. remember self owner life t (Inr i, st) = (Inr j, st')"
  by (simp add: remember_def)

lemma well_wired_resolves:
  assumes wired: "well_wired rank ch" and "find_registration ch t \<noteq> None" and "\<forall>s \<in> set stack. rank t < rank s"
  shows "\<exists>i st'. resolve self ch stack t st = (Inr i, st')"
  using assms(2,3)
proof (induction "rank t" arbitrary: t stack st rule: less_induct)
  case less
  obtain owner r where r: "find_registration ch t = Some (owner, r)" using less.prems(1) by auto
  have fac: "never_fails (rg_factory r)" "\<And>t'. t' \<in> needs (rg_factory r) \<Longrightarrow> find_registration ch t' \<noteq> None \<and> rank t' < rank t"
    using wired r by (auto simp: well_wired_def)
  have "t \<notin> set stack" using less.prems(2) by auto
  have "\<exists>i st'. run_factory (\<lambda>t' st'. resolve self ch (stack @ [t]) t' st') (rg_factory r) st = (Inr i, st')"
  proof (rule run_factory_builds [OF fac(1)])
    show "\<exists>i st2. resolve self ch (stack @ [t]) t' st1 = (Inr i, st2)" if "t' \<in> needs (rg_factory r)" for t' st1
      using fac(2) [OF that] less.prems(2) by (intro less.hyps) auto
  qed
  then obtain i st1 where "run_factory (\<lambda>t' st'. resolve self ch (stack @ [t]) t' st') (rg_factory r) st = (Inr i, st1)" by blast
  then show ?case
    using r \<open>t \<notin> set stack\<close> remember_Inr [of self owner "rg_lifetime r" t i st1]
    by (subst resolve.simps) (auto split: option.split)
qed

subsection \<open>A singleton is built once\<close>

lemma run_factory_keeps:
  assumes "\<And>t st r st'. ask t st = (r, st') \<Longrightarrow> P st st'" and "\<And>st. P st st" and "\<And>a b c. P a b \<Longrightarrow> P b c \<Longrightarrow> P a c"
  shows "run_factory ask fac st = (r, st') \<Longrightarrow> P st st'"
proof (induction fac arbitrary: st)
  case (Need t k)
  obtain x st1 where ask: "ask t st = (x, st1)" by force
  show ?case
  proof (cases x)
    case (Inl e)
    then show ?thesis using Need.prems ask assms(1) by auto
  next
    case (Inr i)
    then have "run_factory ask (k i) st1 = (r, st')" using Need.prems ask by simp
    from Need.IH [OF _ this] show ?thesis using assms(1) [OF ask] assms(3) by blast
  qed
qed (use assms(2) in auto)

definition singles_stay :: "'i instances \<Rightarrow> 'i instances \<Rightarrow> bool" where
  "singles_stay st st' \<longleftrightarrow> (\<forall>k i. singles st k = Some i \<longrightarrow> singles st' k = Some i)"

lemma resolve_singles_stay: "resolve self ch stack t st = (r, st') \<Longrightarrow> singles_stay st st'"
proof (induction self ch stack t st arbitrary: r st' rule: resolve.induct)
  case (1 self ch stack t st)
  show ?case
  proof (cases "find_registration ch t")
    case None
    then show ?thesis using "1.prems" by (subst (asm) resolve.simps) (auto simp: singles_stay_def)
  next
    case (Some p)
    obtain owner g where p: "p = (owner, g)" by (cases p)
    show ?thesis
    proof (cases "remembered self owner (rg_lifetime g) t st = None \<and> t \<notin> set stack")
      case False
      then show ?thesis using "1.prems" Some p by (subst (asm) resolve.simps) (auto simp: singles_stay_def split: option.splits if_splits)
    next
      case True
      let ?ask = "\<lambda>t' st'. resolve self ch (stack @ [t]) t' st'"
      obtain x st1 where run: "run_factory ?ask (rg_factory g) st = (x, st1)" by force
      have "singles_stay st st1"
      proof (rule run_factory_keeps [OF _ _ _ run])
        show "singles_stay a b" if "?ask t' a = (q, b)" for t' a q b
          using "1.IH" [OF Some p [symmetric]] True that by (auto simp: p)
      qed (auto simp: singles_stay_def)
      moreover have "(r, st') = remember self owner (rg_lifetime g) t (x, st1)"
        using "1.prems" Some p True run by (subst (asm) resolve.simps) auto
      ultimately show ?thesis
        using True by (auto simp: singles_stay_def remember_def remembered_def split: sum.splits lifetime.splits)
    qed
  qed
qed

definition resolves :: "(nat \<times> 'i chain \<times> token) list \<Rightarrow> 'i instances \<Rightarrow> 'i instances" where
  "resolves asks = fold (\<lambda>(self, ch, t) st. snd (resolve self ch [] t st)) asks"

lemma resolves_singles_stay: "singles_stay st (resolves asks st)"
proof -
  have "singles_stay a (fold (\<lambda>(self, ch, t) st. snd (resolve self ch [] t st)) asks st)" if "singles_stay a st" for a
    using that
  proof (induction asks arbitrary: st)
    case (Cons q asks)
    obtain self ch t where q: "q = (self, ch, t)" by (metis prod_cases3)
    have "singles_stay st (snd (resolve self ch [] t st))" by (rule resolve_singles_stay [OF surjective_pairing])
    then have "singles_stay a (snd (resolve self ch [] t st))" using Cons.prems by (simp add: singles_stay_def)
    then show ?case using Cons.IH q by simp
  qed simp
  from this [of st] show ?thesis by (simp add: resolves_def singles_stay_def)
qed

lemma resolved_singleton:
  assumes "find_registration ch t = Some (owner, g)" and "rg_lifetime g = Singleton" and "resolve self ch stack t st = (Inr i, st')"
  shows "singles st' (owner, t) = Some i"
  using assms(1,2) assms(3) [unfolded resolve.simps [of self ch stack t st]]
  by (auto simp: remember_def remembered_def split: option.splits if_splits sum.splits prod.splits)


lemma later_resolution:
  assumes "find_registration ch t = Some (owner, g)" and "rg_lifetime g = Singleton" and "resolve self ch stack t st = (Inr i, st')"
  shows "resolve self' ch [] t (resolves asks st') = (Inr i, resolves asks st')"
proof -
  have "singles (resolves asks st') (owner, t) = Some i"
    using resolved_singleton [OF assms] resolves_singles_stay [of st' asks] by (simp add: singles_stay_def)
  then show ?thesis using assms(1,2) by (subst resolve.simps) (simp add: remembered_def)
qed

lemma wired_container:
  assumes "well_wired rank ch" and "find_registration ch t = Some (owner, g)"
  shows "\<exists>i st'. resolve self ch [] t st = (Inr i, st')
    \<and> (rg_lifetime g = Singleton \<longrightarrow> (\<forall>asks self'. resolve self' ch [] t (resolves asks st') = (Inr i, resolves asks st')))"
proof -
  obtain i st' where run: "resolve self ch [] t st = (Inr i, st')"
    using well_wired_resolves [OF assms(1), of t "[]" self st] assms(2) by auto
  show ?thesis using later_resolution [OF assms(2) _ run] run by blast
qed

text \<open>C40: In a container whose factories ask only for registered tokens of a lower rank every registered token resolves, and what a singleton
  resolved to is what every later resolution returns, whatever is resolved between, without building it again.\<close>

theorem container_resolves:
  assumes "well_wired rank ch" and "find_registration ch t = Some (owner, g)"
  shows "\<exists>i st'. resolve self ch [] t st = (Inr i, st')
    \<and> (rg_lifetime g = Singleton \<longrightarrow> (\<forall>asks self'. resolve self' ch [] t (resolves asks st') = (Inr i, resolves asks st')))"
  using assms by (rule wired_container)

definition sample_chain :: "nat chain" where
  "sample_chain = fst (register_in ''Service'' (Need ''Repository'' (\<lambda>i. Build (i + 1))) Transient
     (register_in ''Repository'' (Build 7) Singleton (create_scope 0 [], \<lparr>singles = \<lambda>_. None, scoped = \<lambda>_. None\<rparr>)))"

theorem container_resolves_witness:
  "\<exists>i st'. resolve 0 sample_chain [] ''Repository'' \<lparr>singles = \<lambda>_. None, scoped = \<lambda>_. None\<rparr> = (Inr i, st')
     \<and> (\<forall>asks self'. resolve self' sample_chain [] ''Repository'' (resolves asks st') = (Inr i, resolves asks st'))"
proof -
  have wired: "well_wired (\<lambda>t. if t = ''Service'' then 1 else 0) sample_chain"
    by (auto simp: well_wired_def sample_chain_def create_scope_def set_registration_def split: if_splits)
  have "find_registration sample_chain ''Repository'' = Some (0, \<lparr>rg_factory = Build 7, rg_lifetime = Singleton\<rparr>)"
    by (simp add: sample_chain_def create_scope_def set_registration_def)
  from container_resolves [OF wired this, of 0 "\<lparr>singles = \<lambda>_. None, scoped = \<lambda>_. None\<rparr>"] show ?thesis by (simp only: registration.select_convs) blast
qed

text \<open>A cycle ends with an error that names it.\<close>

definition cyclic_chain :: "nat chain" where
  "cyclic_chain = [(0, [(''A'', \<lparr>rg_factory = Need ''B'' Build, rg_lifetime = Singleton\<rparr>), (''B'', \<lparr>rg_factory = Need ''A'' Build, rg_lifetime = Singleton\<rparr>)])]"

lemma cycle_is_reported:
  "fst (resolve 0 cyclic_chain [] ''A'' \<lparr>singles = \<lambda>_. None, scoped = \<lambda>_. None\<rparr>) = Inl (PlainError ''Circular dependency detected: Symbol(A) -> Symbol(B) -> Symbol(A)'')"
  by (simp add: resolve.simps cyclic_chain_def remembered_def remember_def circular_dependency_def token_text_def)

end
