(* ===== verification/Spec2Isabelle.thy ===== *)
theory Spec2Isabelle
  imports Orders_Service Checkout_Saga Refund_Saga Idempotency Http_Guards Users_Service Email_Service Review_Ratings Dashboard Platform Di_Container
begin

text \<open>
  \<^bold>\<open>A verification development for the TriAD e-commerce backend.\<close>

  The program (\<^verbatim>\<open>src/src\<close>) is a TypeScript server. A request passes the guards of Express, a controller hands its validated input to
  a service, the service works on aggregates and on PostgreSQL through Prisma repositories, and writes the events of the aggregates to an
  outbox table in the transaction that changes the aggregate. A relay, possibly several of them in several processes, claims rows of the
  outbox under a lease and publishes them on an in-process event bus; a tracker remembers which handler has seen which row; handlers
  write the read models (catalog, order history, ratings), notifications and mails. Redis holds sessions, single-use secrets and the
  responses kept for idempotency keys.

  \<^bold>\<open>Conventions.\<close> A call that may throw returns \<open>error + 'a\<close>; an operation on the database has type \<open>'a db_op\<close>, a function from the database
  to a result and a database. \<open>dbind\<close> sequences, \<open>transaction\<close> restores the database when its body throws. Tables are lists of rows as
  \<^verbatim>\<open>prisma/schema.prisma\<close> declares them, with the unique keys and foreign keys checked by the operations that can break them. A service
  whose statements are not one transaction takes an argument \<open>intf\<close>: what other requests commit before its n-th statement. Theorems hold
  for every such argument, or for every one made of the program's own requests, nested to any depth. The clock, random identifiers, hashes,
  signatures, bcrypt, ciphers and encodings are arguments (\<open>env\<close>, \<open>auth_lib\<close> and the like); what is used of them is a hypothesis of the
  theorem that uses it.

  \<^bold>\<open>Foundations.\<close> \<open>Prelude\<close>: results, rows and maps as lists. \<open>Js_String\<close>, \<open>Js_Number\<close>: the string operations, and binary64 numbers with
  their rounding. \<open>Errors\<close>: \<^verbatim>\<open>shared/domain/errors\<close>, \<^verbatim>\<open>shared/errors\<close>, the classification of database errors. \<open>Value_Objects\<close>:
  \<^verbatim>\<open>shared/value-objects\<close>, \<^verbatim>\<open>money-number.ts\<close>. \<open>Events\<close>: \<^verbatim>\<open>shared/domain/events\<close>, \<^verbatim>\<open>aggregate-root.ts\<close>. \<open>Machine\<close>: the locales of
  aggregates that are run by calling their methods. \<open>Database\<close>: the tables.

  \<^bold>\<open>Aggregates.\<close> \<open>Order_Entity\<close>, \<open>Cart_Entity\<close>, \<open>Product_Entity\<close>, \<open>User_Entity\<close>: \<^verbatim>\<open>modules/*/domain\<close>, one function per method. Their lemmas
  show an invariant that every method keeps, and what a run of methods does: the totals of an order and the trail of its status, the cart as
  a map from products to quantities, the ledger of the stock, the life of two-factor authentication.

  \<^bold>\<open>Events and read models.\<close> \<open>Outbox\<close> (\<^verbatim>\<open>persist-domain-events.ts\<close>, \<^verbatim>\<open>outbox-event-schema.ts\<close>): what is written is read back. \<open>Event_Bus\<close>
  (\<^verbatim>\<open>shared/domain/event-bus\<close>, \<^verbatim>\<open>outbox-handler-tracker.ts\<close>): a delivery that is repeated runs the handlers that failed. \<open>Outbox_Relay\<close>,
  \<open>Outbox_Maintenance\<close>, \<open>Relay_Protocol\<close> (\<^verbatim>\<open>outbox-relay.ts\<close>, the stores, \<^verbatim>\<open>outbox-maintenance.service.ts\<close>): the relays as a step relation,
  with leases that exclude each other and dead letters. \<open>Projection\<close>, \<open>Projection_Rebuild\<close> (\<^verbatim>\<open>projection-writer.ts\<close>,
  \<^verbatim>\<open>prisma-projection.store.ts\<close>, \<^verbatim>\<open>projection-handler.ts\<close>, \<^verbatim>\<open>wire-domain-events.ts\<close>, the rebuild scripts): versioned writes under
  concurrent writers, convergence whatever the order of deliveries, complete rebuilds. \<open>Catalog_Projection\<close> and \<open>Catalog_Sync\<close> put
  the writers of products, the outbox and the projection together, \<open>Review_Ratings\<close> those of reviews.

  \<^bold>\<open>Selling.\<close> \<open>Stock_Reservation\<close>, \<open>Pricing\<close>, \<open>Checkout\<close>, \<open>Checkout_Quote\<close>, \<open>Checkout_Stock\<close> (\<^verbatim>\<open>modules/checkout\<close>): the checkout in a
  serializable transaction that is repeated on conflicts; it is atomic, commits when it is ready, replays under its idempotency key, charges
  what was quoted and never sells what is not there. \<open>Orders_Service\<close> (\<^verbatim>\<open>modules/orders\<close>): status updates under optimistic versions and the
  history they lead to. \<open>Cart_Service\<close> (\<^verbatim>\<open>modules/cart\<close>): carts against an abstract map per user. \<open>Product_Service\<close>, \<open>Catalog_Service\<close>
  (\<^verbatim>\<open>modules/products\<close>): administration and the pages visitors see. \<open>Saga\<close>, \<open>Checkout_Saga\<close>, \<open>Refund_Saga\<close> (\<^verbatim>\<open>shared/application/saga\<close>,
  \<^verbatim>\<open>checkout.saga.ts\<close>, \<^verbatim>\<open>cancellation-refund.saga.ts\<close>): steps with time limits, attempts, a deadline, stored states and dying processes.

  \<^bold>\<open>Identity and requests.\<close> \<open>Token_Store\<close>, \<open>Auth_Token\<close>, \<open>Auth_Repository\<close>, \<open>Refresh_Rotation\<close>, \<open>Refresh_Reuse\<close>, \<open>Two_Factor\<close>, \<open>Auth_Service\<close>
  (\<^verbatim>\<open>modules/auth\<close>) and \<open>Users_Service\<close> (\<^verbatim>\<open>modules/users\<close>): classes of tokens, revocation, rotation as a step relation, one-time passwords,
  OAuth without takeover, passwords. \<open>Http_Guards\<close> and \<open>Idempotency\<close> (\<^verbatim>\<open>shared/middlewares\<close>): what a request passes before its handler,
  and requests with one key as state machines on Redis.

  \<^bold>\<open>Around them.\<close> \<open>Review_Service\<close>, \<open>Wishlist_Service\<close>, \<open>Notifications\<close>, \<open>Email_Service\<close> (\<^verbatim>\<open>email.service.ts\<close>, \<^verbatim>\<open>jobs/email.job.ts\<close>),
  \<open>Dashboard\<close>, \<open>Platform\<close> (trusted proxies, readiness, feature flags) and \<open>Di_Container\<close> (\<^verbatim>\<open>core/di/container.ts\<close>).

  \<^bold>\<open>Interfaces.\<close> The locales are the contracts between the parts: \<open>op_machine\<close> and \<open>op_machine_rel\<close> (an aggregate and its callers),
  \<open>handler_tracker\<close> (event bus and tracker), \<open>token_store\<close> (authentication and its key-value store), \<open>versioned_table\<close> (projections and their
  tables), \<open>saga_state_store\<close> with \<open>checkout_saga_store\<close> and \<open>refund_saga_store\<close> (sagas and their stores), \<open>cart_interference\<close>,
  \<open>catalog_interference\<close>, \<open>rating_interference\<close> and \<open>notify_interference\<close> (an operation and the requests between its statements). Each is
  interpreted on the definitions of the program.

  \<^bold>\<open>Termination.\<close> No definition runs on fuel of its own invention. The checkout is repeated at most \<open>MAX_RETRIES\<close> times, a saga step has the
  attempts of its policy, the rebuild of a projection goes on by pages until one is empty, with the rows after its cursor as the measure, and
  the resolution of a token by the container is measured by the tokens not yet being resolved; all are total.
  Requests between the statements of other requests are trees of finite height, and a run is a finite list of requests, steps or deliveries.

  \<^bold>\<open>Left out.\<close> Controllers, routes and zod schemas (their effect on the ranges of arguments is a hypothesis where it matters), the composition
  root, the process's start and shutdown, Swagger, metrics, tracing and logging, the circuit breaker and the clients of Redis, BullMQ, SMTP
  and Cloudinary; two raw queries, the ranked full-text search and the best-selling products. Strings are ASCII, negative zero is zero,
  and inside a transaction statements are not interleaved: isolation is the database's, and its refusals are the aborts of an attempt.
\<close>

end
